(* ===== verification/Prelude.thy ===== *)
theory Prelude
  imports Complex_Main "HOL-Library.Word"
begin

unbundle bit_operations_syntax

text \<open>
  What every component of the development shares: the names of the C integer types as
  words of their width, the big-endian composition of two bytes that the firmware uses
  wherever it stores or sends a 16-bit value, and small facts on lists and words.
\<close>

type_synonym u8 = "8 word"
type_synonym u16 = "16 word"
type_synonym u32 = "32 word"

text \<open>Facts a component's proofs unfold its C-level helpers with.\<close>

named_theorems battman_simps

subsection \<open>Bytes of a 16-bit value\<close>

definition hi8 :: "u16 \<Rightarrow> u8" where
  "hi8 w = ucast (drop_bit 8 w)"

definition lo8 :: "u16 \<Rightarrow> u8" where
  "lo8 w = ucast w"

definition be16 :: "u8 \<Rightarrow> u8 \<Rightarrow> u16" where
  "be16 h l = push_bit 8 (ucast h) OR ucast l"

lemma be16_hi_lo [simp]: "be16 (hi8 w) (lo8 w) = w"
  by (rule bit_word_eqI) (auto simp: be16_def hi8_def lo8_def bit_simps)

lemma hi8_be16 [simp]: "hi8 (be16 h l) = h"
  by (rule bit_word_eqI) (auto simp: be16_def hi8_def bit_simps dest: bit_imp_le_length)

lemma lo8_be16 [simp]: "lo8 (be16 h l) = l"
  by (rule bit_word_eqI) (auto simp: be16_def lo8_def bit_simps dest: bit_imp_le_length)

lemma be16_inject [simp]: "be16 a b = be16 c d \<longleftrightarrow> a = c \<and> b = d"
  by (metis hi8_be16 lo8_be16)

lemma bit_below:
  assumes "w < 2 ^ k" and "k < LENGTH('a)" and "bit (w :: 'a::len word) n"
  shows "n < k"
proof (rule ccontr)
  assume "\<not> n < k"
  have "uint w < uint (2 ^ k :: 'a word)" using assms(1) by (simp add: word_less_def)
  also have "\<dots> = 2 ^ k" using assms(2) by transfer (simp add: take_bit_eq_mod)
  finally have "take_bit k (uint w) = uint w" by (simp add: take_bit_int_eq_self_iff)
  moreover have "bit (uint w) n" using assms(3) bit_imp_le_length[OF assms(3)] by (simp add: bit_uint_iff)
  ultimately have "bit (take_bit k (uint w)) n" by simp
  with \<open>\<not> n < k\<close> show False by (simp add: bit_take_bit_iff)
qed

subsection \<open>Lists written by index\<close>

lemma take_Suc_update: "i < length xs \<Longrightarrow> take (Suc i) (xs[i := x]) = take i xs @ [x]"
  by (simp add: take_Suc_conv_app_nth)

subsection \<open>Loops and folds that may fail\<close>

text \<open>A loop of the code: None if the body fails or the loop does not end.\<close>

partial_function (option) loop_while ::
    "('s \<Rightarrow> bool) \<Rightarrow> ('s \<Rightarrow> 's option) \<Rightarrow> 's \<Rightarrow> 's option" where
  "loop_while c f s = (if c s then Option.bind (f s) (loop_while c f) else Some s)"

primrec fold_opt :: "('e \<Rightarrow> 's \<Rightarrow> 's option) \<Rightarrow> 'e list \<Rightarrow> 's \<Rightarrow> 's option" where
  "fold_opt f [] s = Some s"
| "fold_opt f (x # xs) s = Option.bind (f x s) (fold_opt f xs)"

lemma fold_opt_append:
  "fold_opt f (xs @ ys) s = Option.bind (fold_opt f xs s) (fold_opt f ys)"
proof (induction xs arbitrary: s)
  case (Cons x xs)
  then show ?case by (cases "f x s") simp_all
qed simp

lemma fold_opt_total: "fold_opt (\<lambda>x s. Some (g x s)) xs s = Some (fold g xs s)"
  by (induction xs arbitrary: s) simp_all

end
