(* ===== verification/Timers.thy ===== *)
theory Timers
  imports Prelude
begin

text \<open>
  The registers of the timers and of a DMA channel with the vendor driver's functions that
  set them (stm32f30x_tim.c, stm32f30x_dma.c, stm32f30x_rcc.c), for the buzzer and the
  light strip. Counter, prescaler, period and compare value have 16 bits in the timers the
  board uses; what is written there loses its upper bits. A timer whose reset bit is set is
  held at its reset values.
\<close>

datatype TIM = TIM1 | TIM2 | TIM3 | TIM4 | TIM6 | TIM7 | TIM8 | TIM15 | TIM16 | TIM17

record tim =
  CR1 :: u32
  CR2 :: u32
  DIER :: u32
  EGR :: u32
  CCMR1 :: u32
  CCER :: u32
  CNT :: u16
  PSC :: u16
  ARR :: u16
  RCR :: u32
  CCR2 :: u16
  BDTR :: u32

definition tim_reset :: tim where
  "tim_reset = \<lparr>CR1 = 0, CR2 = 0, DIER = 0, EGR = 0, CCMR1 = 0, CCER = 0, CNT = 0, PSC = 0,
     ARR = 0xFFFF, RCR = 0, CCR2 = 0, BDTR = 0\<rparr>"

record dma_channel =
  CCR :: u32
  CNDTR :: u32
  CPAR :: u32
  CMAR :: u32

record timers =
  tims :: "TIM \<Rightarrow> tim"
  dma1_ch3 :: dma_channel
  dma1_ifcr :: u32
  ahbenr :: u32
  apb2enr :: u32
  apb1rstr :: u32
  apb2rstr :: u32

definition on_tim :: "TIM \<Rightarrow> (tim \<Rightarrow> tim) \<Rightarrow> timers \<Rightarrow> timers" where
  "on_tim t f h = h\<lparr>tims := (tims h)(t := f (tims h t))\<rparr>"

definition on_dma :: "(dma_channel \<Rightarrow> dma_channel) \<Rightarrow> timers \<Rightarrow> timers" where
  "on_dma f h = h\<lparr>dma1_ch3 := f (dma1_ch3 h)\<rparr>"

subsection \<open>Clocks and resets\<close>

text \<open>The bus a timer is on (True: the second peripheral bus) and its bit there.\<close>

fun tim_bit :: "TIM \<Rightarrow> bool \<times> u32" where
  "tim_bit TIM1 = (True, 0x800)"
| "tim_bit TIM2 = (False, 0x1)"
| "tim_bit TIM3 = (False, 0x2)"
| "tim_bit TIM4 = (False, 0x4)"
| "tim_bit TIM6 = (False, 0x10)"
| "tim_bit TIM7 = (False, 0x20)"
| "tim_bit TIM8 = (True, 0x2000)"
| "tim_bit TIM15 = (True, 0x10000)"
| "tim_bit TIM16 = (True, 0x20000)"
| "tim_bit TIM17 = (True, 0x40000)"

definition hold_resets :: "timers \<Rightarrow> timers" where
  "hold_resets h =
     h\<lparr>tims := (\<lambda>t. case tim_bit t of (apb2, m) \<Rightarrow>
        if (if apb2 then apb2rstr h else apb1rstr h) AND m \<noteq> 0 then tim_reset else tims h t)\<rparr>"

definition RCC_APB2PeriphResetCmd :: "u32 \<Rightarrow> bool \<Rightarrow> timers \<Rightarrow> timers" where
  "RCC_APB2PeriphResetCmd p enable h =
     hold_resets (h\<lparr>apb2rstr := (if enable then apb2rstr h OR p else apb2rstr h AND NOT p)\<rparr>)"

definition RCC_APB1PeriphResetCmd :: "u32 \<Rightarrow> bool \<Rightarrow> timers \<Rightarrow> timers" where
  "RCC_APB1PeriphResetCmd p enable h =
     hold_resets (h\<lparr>apb1rstr := (if enable then apb1rstr h OR p else apb1rstr h AND NOT p)\<rparr>)"

definition RCC_AHBPeriphClockCmd :: "u32 \<Rightarrow> bool \<Rightarrow> timers \<Rightarrow> timers" where
  "RCC_AHBPeriphClockCmd p enable h =
     h\<lparr>ahbenr := (if enable then ahbenr h OR p else ahbenr h AND NOT p)\<rparr>"

definition rccEnableAPB2 :: "u32 \<Rightarrow> timers \<Rightarrow> timers" where
  "rccEnableAPB2 m h = h\<lparr>apb2enr := apb2enr h OR m\<rparr>"

definition TIM_DeInit :: "TIM \<Rightarrow> timers \<Rightarrow> timers" where
  "TIM_DeInit t h =
     (case tim_bit t of (apb2, m) \<Rightarrow>
        if apb2 then RCC_APB2PeriphResetCmd m False (RCC_APB2PeriphResetCmd m True h)
        else RCC_APB1PeriphResetCmd m False (RCC_APB1PeriphResetCmd m True h))"

subsection \<open>Timers\<close>

definition TIM_CR1_CEN :: u32 where "TIM_CR1_CEN = 0x1"
definition TIM_CR1_DIR :: u16 where "TIM_CR1_DIR = 0x10"
definition TIM_CR1_CMS :: u16 where "TIM_CR1_CMS = 0x60"
definition TIM_CR1_CKD :: u16 where "TIM_CR1_CKD = 0x300"
definition TIM_CR2_OIS2 :: u32 where "TIM_CR2_OIS2 = 0x400"
definition TIM_CR2_OIS2N :: u32 where "TIM_CR2_OIS2N = 0x800"
definition TIM_CCMR1_CC2S :: u32 where "TIM_CCMR1_CC2S = 0x300"
definition TIM_CCMR1_OC2PE :: u32 where "TIM_CCMR1_OC2PE = 0x800"
definition TIM_CCMR1_OC2M :: u32 where "TIM_CCMR1_OC2M = 0x01007000"
definition TIM_CCER_CC2E :: u32 where "TIM_CCER_CC2E = 0x10"
definition TIM_CCER_CC2P :: u32 where "TIM_CCER_CC2P = 0x20"
definition TIM_CCER_CC2NE :: u32 where "TIM_CCER_CC2NE = 0x40"
definition TIM_CCER_CC2NP :: u32 where "TIM_CCER_CC2NP = 0x80"
definition TIM_BDTR_MOE :: u32 where "TIM_BDTR_MOE = 0x8000"

record TIM_TimeBaseInitTypeDef =
  TIM_Prescaler :: u16
  TIM_CounterMode :: u16
  TIM_Period :: u32
  TIM_ClockDivision :: u16
  TIM_RepetitionCounter :: u16

definition TIM_TimeBaseInit :: "TIM \<Rightarrow> TIM_TimeBaseInitTypeDef \<Rightarrow> tim \<Rightarrow> tim" where
  "TIM_TimeBaseInit t i r =
     (let c0 = ucast (CR1 r) :: u16;
          c1 = (if t \<in> {TIM1, TIM8, TIM2, TIM3, TIM4}
                then (c0 AND NOT (TIM_CR1_DIR OR TIM_CR1_CMS)) OR TIM_CounterMode i else c0);
          c2 = (if t \<noteq> TIM6 \<and> t \<noteq> TIM7 then (c1 AND NOT TIM_CR1_CKD) OR TIM_ClockDivision i else c1);
          r1 = r\<lparr>CR1 := ucast c2, ARR := ucast (TIM_Period i), PSC := TIM_Prescaler i\<rparr>;
          r2 = (if t \<in> {TIM1, TIM8, TIM15, TIM16, TIM17}
                then r1\<lparr>RCR := ucast (TIM_RepetitionCounter i)\<rparr> else r1)
      in r2\<lparr>EGR := 1\<rparr>)"

record TIM_OCInitTypeDef =
  TIM_OCMode :: u32
  TIM_OutputState :: u16
  TIM_OutputNState :: u16
  TIM_Pulse :: u32
  TIM_OCPolarity :: u16
  TIM_OCNPolarity :: u16
  TIM_OCIdleState :: u16
  TIM_OCNIdleState :: u16

definition TIM_OC2Init :: "TIM \<Rightarrow> TIM_OCInitTypeDef \<Rightarrow> tim \<Rightarrow> tim" where
  "TIM_OC2Init t i r0 =
     (let r = r0\<lparr>CCER := CCER r0 AND NOT TIM_CCER_CC2E\<rparr>;
          ccmrx = (CCMR1 r AND NOT TIM_CCMR1_OC2M AND NOT TIM_CCMR1_CC2S) OR push_bit 8 (TIM_OCMode i);
          ccer1 = (CCER r AND NOT TIM_CCER_CC2P) OR push_bit 4 (ucast (TIM_OCPolarity i))
            OR push_bit 4 (ucast (TIM_OutputState i));
          (ccer2, cr2) =
            (if t = TIM1 \<or> t = TIM8 then
               ((((ccer1 AND NOT TIM_CCER_CC2NP) OR push_bit 4 (ucast (TIM_OCNPolarity i)))
                   AND NOT TIM_CCER_CC2NE) OR push_bit 4 (ucast (TIM_OutputNState i)),
                (CR2 r AND NOT TIM_CR2_OIS2 AND NOT TIM_CR2_OIS2N) OR push_bit 2 (ucast (TIM_OCIdleState i))
                   OR push_bit 2 (ucast (TIM_OCNIdleState i)))
             else (ccer1, CR2 r))
      in r\<lparr>CR2 := cr2, CCMR1 := ccmrx, CCR2 := ucast (TIM_Pulse i), CCER := ccer2\<rparr>)"

definition TIM_OC2PreloadConfig :: "u16 \<Rightarrow> tim \<Rightarrow> tim" where
  "TIM_OC2PreloadConfig p r =
     r\<lparr>CCMR1 := (CCMR1 r AND NOT TIM_CCMR1_OC2PE) OR push_bit 8 (ucast p)\<rparr>"

definition TIM_CtrlPWMOutputs :: "bool \<Rightarrow> tim \<Rightarrow> tim" where
  "TIM_CtrlPWMOutputs enable r =
     r\<lparr>BDTR := (if enable then BDTR r OR TIM_BDTR_MOE else BDTR r AND ucast (NOT (ucast TIM_BDTR_MOE) :: u16))\<rparr>"

definition TIM_Cmd :: "bool \<Rightarrow> tim \<Rightarrow> tim" where
  "TIM_Cmd enable r =
     r\<lparr>CR1 := (if enable then CR1 r OR TIM_CR1_CEN else CR1 r AND ucast (NOT (ucast TIM_CR1_CEN) :: u16))\<rparr>"

definition TIM_DMACmd :: "u16 \<Rightarrow> bool \<Rightarrow> tim \<Rightarrow> tim" where
  "TIM_DMACmd src enable r =
     r\<lparr>DIER := (if enable then DIER r OR ucast src else DIER r AND ucast (NOT src))\<rparr>"

subsection \<open>The DMA channel\<close>

definition DMA_CCR_EN :: u32 where "DMA_CCR_EN = 0x1"
definition CCR_CLEAR_MASK :: u32 where "CCR_CLEAR_MASK = 0xFFFF800F"

record DMA_InitTypeDef =
  DMA_PeripheralBaseAddr :: u32
  DMA_MemoryBaseAddr :: u32
  DMA_DIR :: u32
  DMA_BufferSize :: u32
  DMA_PeripheralInc :: u32
  DMA_MemoryInc :: u32
  DMA_PeripheralDataSize :: u32
  DMA_MemoryDataSize :: u32
  DMA_Mode :: u32
  DMA_Priority :: u32
  DMA_M2M :: u32

definition DMA1_CHANNEL3_IT_MASK :: u32 where "DMA1_CHANNEL3_IT_MASK = 0xF00"

text \<open>Of the channels, the one the firmware uses.\<close>

definition DMA_DeInit :: "timers \<Rightarrow> timers" where
  "DMA_DeInit h =
     (on_dma (\<lambda>c. c\<lparr>CCR := 0, CNDTR := 0, CPAR := 0, CMAR := 0\<rparr>) h)
       \<lparr>dma1_ifcr := dma1_ifcr h OR DMA1_CHANNEL3_IT_MASK\<rparr>"

definition DMA_Init :: "DMA_InitTypeDef \<Rightarrow> dma_channel \<Rightarrow> dma_channel" where
  "DMA_Init i c =
     c\<lparr>CCR := (CCR c AND CCR_CLEAR_MASK) OR DMA_DIR i OR DMA_Mode i OR DMA_PeripheralInc i OR
         DMA_MemoryInc i OR DMA_PeripheralDataSize i OR DMA_MemoryDataSize i OR DMA_Priority i OR DMA_M2M i,
       CNDTR := DMA_BufferSize i, CPAR := DMA_PeripheralBaseAddr i, CMAR := DMA_MemoryBaseAddr i\<rparr>"

definition DMA_Cmd :: "bool \<Rightarrow> dma_channel \<Rightarrow> dma_channel" where
  "DMA_Cmd enable c =
     c\<lparr>CCR := (if enable then CCR c OR DMA_CCR_EN else CCR c AND ucast (NOT (ucast DMA_CCR_EN) :: u16))\<rparr>"

definition DMA_ITConfig :: "u32 \<Rightarrow> bool \<Rightarrow> dma_channel \<Rightarrow> dma_channel" where
  "DMA_ITConfig it enable c = c\<lparr>CCR := (if enable then CCR c OR it else CCR c AND NOT it)\<rparr>"

text \<open>A reset through the reset bit brings one timer to its reset values.\<close>

lemma TIM_DeInit_self: "apb2rstr h = 0 \<Longrightarrow> tims (TIM_DeInit TIM15 h) TIM15 = tim_reset"
  by (simp add: TIM_DeInit_def RCC_APB2PeriphResetCmd_def hold_resets_def)

lemma TIM_DeInit_other:
  "apb2rstr h = 0 \<Longrightarrow> apb1rstr h = 0 \<Longrightarrow> t \<noteq> TIM15 \<Longrightarrow> tims (TIM_DeInit TIM15 h) t = tims h t"
  by (cases t) (simp_all add: TIM_DeInit_def RCC_APB2PeriphResetCmd_def hold_resets_def)

end
