(* ===== verification/Flash.thy ===== *)
theory Flash
  imports Prelude
begin

text \<open>
  The flash memory of the microcontroller and the vendor's driver for it
  (ChibiOS/ext/stdperiph_stm32f3/src/stm32f30x_flash.c).

  The device is a record: the half-word cells by address, the controller's registers
  and what the supply and the cell array are going to do (\<open>plan\<close>, one entry for each
  operation the driver starts). The functions \<open>hw_*\<close> are the reaction of the device
  to one register or cell access, as the reference manual of the part describes it; the
  functions \<open>FLASH_*\<close> translate the driver.
\<close>

subsection \<open>The device\<close>

text \<open>
  What happens to one started operation: it completes after the status register has
  reported busy \<open>n\<close> times; the page is write protected, so that nothing is
  changed and the error flag is raised; or the supply fails before the operation and
  nothing reaches the cells any more. An exhausted plan stands for operations that
  complete at once.
\<close>

datatype op_outcome = Completes nat | Write_Protected nat | Supply_Fails

record flash =
  cells :: "nat \<Rightarrow> u16"
  CR :: u32
  SR :: u32
  AR :: u32
  busy :: nat
  key1 :: bool
  plan :: "op_outcome list"
  powered :: bool

definition FLASH_KEY1 :: u32 where "FLASH_KEY1 = 0x45670123"
definition FLASH_KEY2 :: u32 where "FLASH_KEY2 = 0xCDEF89AB"

definition FLASH_SR_BSY :: u32 where "FLASH_SR_BSY = 0x01"
definition FLASH_SR_PGERR :: u32 where "FLASH_SR_PGERR = 0x04"
definition FLASH_SR_WRPERR :: u32 where "FLASH_SR_WRPERR = 0x10"

definition FLASH_CR_PG :: u32 where "FLASH_CR_PG = 0x01"
definition FLASH_CR_PER :: u32 where "FLASH_CR_PER = 0x02"
definition FLASH_CR_STRT :: u32 where "FLASH_CR_STRT = 0x40"
definition FLASH_CR_LOCK :: u32 where "FLASH_CR_LOCK = 0x80"

lemmas flash_bits =
  FLASH_SR_BSY_def FLASH_SR_PGERR_def FLASH_SR_WRPERR_def
  FLASH_CR_PG_def FLASH_CR_PER_def FLASH_CR_STRT_def FLASH_CR_LOCK_def

definition hw_read_SR :: "'a flash_scheme \<Rightarrow> u32 \<times> 'a flash_scheme" where
  "hw_read_SR f =
     (if \<not> powered f then (0, f)
      else if busy f = 0 then (SR f, f)
      else (SR f OR FLASH_SR_BSY, f\<lparr>busy := busy f - 1\<rparr>))"

definition hw_run :: "((nat \<Rightarrow> u16) \<Rightarrow> nat \<Rightarrow> u16) \<Rightarrow> 'a flash_scheme \<Rightarrow> 'a flash_scheme" where
  "hw_run upd f =
     (if \<not> powered f then f
      else case plan f of
        [] \<Rightarrow> f\<lparr>cells := upd (cells f)\<rparr>
      | Completes n # p \<Rightarrow> f\<lparr>cells := upd (cells f), busy := n, plan := p\<rparr>
      | Write_Protected n # p \<Rightarrow> f\<lparr>SR := SR f OR FLASH_SR_WRPERR, busy := n, plan := p\<rparr>
      | Supply_Fails # p \<Rightarrow> f\<lparr>powered := False, plan := p\<rparr>)"

text \<open>A half-word write: refused with PGERR unless the cell is erased or the value is 0.\<close>

definition hw_store16 :: "nat \<Rightarrow> u16 \<Rightarrow> 'a flash_scheme \<Rightarrow> 'a flash_scheme" where
  "hw_store16 a d f =
     (if \<not> powered f \<or> CR f AND FLASH_CR_LOCK \<noteq> 0 \<or> CR f AND FLASH_CR_PG = 0 then f
      else if cells f a \<noteq> 0xFFFF \<and> d \<noteq> 0 then f\<lparr>SR := SR f OR FLASH_SR_PGERR\<rparr>
      else hw_run (\<lambda>c. c(a := d)) f)"

definition flash_page_size :: nat where "flash_page_size = 0x800"

definition erase_cells :: "nat \<Rightarrow> (nat \<Rightarrow> u16) \<Rightarrow> nat \<Rightarrow> u16" where
  "erase_cells a c = (\<lambda>b. if b div flash_page_size = a div flash_page_size then 0xFFFF else c b)"

text \<open>
  A write of the control register: ignored while the controller is locked; with STRT and
  PER it starts the erasure of the page AR points into, and STRT falls back to 0.
\<close>

definition hw_write_CR :: "u32 \<Rightarrow> 'a flash_scheme \<Rightarrow> 'a flash_scheme" where
  "hw_write_CR v f =
     (if CR f AND FLASH_CR_LOCK \<noteq> 0 then f
      else if v AND FLASH_CR_STRT \<noteq> 0 \<and> v AND FLASH_CR_PER \<noteq> 0
      then (hw_run (erase_cells (unat (AR f))) f)\<lparr>CR := v AND NOT FLASH_CR_STRT\<rparr>
      else f\<lparr>CR := v\<rparr>)"

definition hw_write_KEYR :: "u32 \<Rightarrow> 'a flash_scheme \<Rightarrow> 'a flash_scheme" where
  "hw_write_KEYR k f =
     (if k = FLASH_KEY1 then f\<lparr>key1 := True\<rparr>
      else if k = FLASH_KEY2 \<and> key1 f then f\<lparr>CR := CR f AND NOT FLASH_CR_LOCK, key1 := False\<rparr>
      else f\<lparr>key1 := False\<rparr>)"

text \<open>The error flags of SR are cleared by writing 1 to them.\<close>

definition hw_write_SR :: "u32 \<Rightarrow> 'a flash_scheme \<Rightarrow> 'a flash_scheme" where
  "hw_write_SR v f = f\<lparr>SR := SR f AND NOT v\<rparr>"

subsection \<open>The driver\<close>

datatype FLASH_Status = FLASH_BUSY | FLASH_ERROR_WRP | FLASH_ERROR_PROGRAM | FLASH_COMPLETE | FLASH_TIMEOUT

text \<open>The enumeration starts at 1; the EEPROM emulation passes the numbers on.\<close>

fun status_code :: "FLASH_Status \<Rightarrow> u16" where
  "status_code FLASH_BUSY = 1"
| "status_code FLASH_ERROR_WRP = 2"
| "status_code FLASH_ERROR_PROGRAM = 3"
| "status_code FLASH_COMPLETE = 4"
| "status_code FLASH_TIMEOUT = 5"

definition FLASH_ER_PRG_TIMEOUT :: nat where "FLASH_ER_PRG_TIMEOUT = 0x000B0000"

definition FLASH_Unlock :: "'a flash_scheme \<Rightarrow> 'a flash_scheme" where
  "FLASH_Unlock f =
     (if CR f AND FLASH_CR_LOCK \<noteq> 0
      then hw_write_KEYR FLASH_KEY2 (hw_write_KEYR FLASH_KEY1 f) else f)"

definition FLASH_ClearFlag :: "u32 \<Rightarrow> 'a flash_scheme \<Rightarrow> 'a flash_scheme" where
  "FLASH_ClearFlag flags f = hw_write_SR flags f"

definition FLASH_GetStatus :: "'a flash_scheme \<Rightarrow> FLASH_Status \<times> 'a flash_scheme" where
  "FLASH_GetStatus f =
     (let (s1, f1) = hw_read_SR f in
      if s1 AND FLASH_SR_BSY = FLASH_SR_BSY then (FLASH_BUSY, f1)
      else let (s2, f2) = hw_read_SR f1 in
      if s2 AND FLASH_SR_WRPERR \<noteq> 0 then (FLASH_ERROR_WRP, f2)
      else let (s3, f3) = hw_read_SR f2 in
      if s3 AND FLASH_SR_PGERR \<noteq> 0 then (FLASH_ERROR_PROGRAM, f3)
      else (FLASH_COMPLETE, f3))"

fun wait_loop :: "nat \<Rightarrow> FLASH_Status \<Rightarrow> 'a flash_scheme \<Rightarrow> nat \<times> FLASH_Status \<times> 'a flash_scheme" where
  "wait_loop t st f =
     (if st = FLASH_BUSY \<and> t \<noteq> 0
      then let (st', f') = FLASH_GetStatus f in wait_loop (t - 1) st' f'
      else (t, st, f))"

declare wait_loop.simps [simp del]

definition FLASH_WaitForLastOperation :: "nat \<Rightarrow> 'a flash_scheme \<Rightarrow> FLASH_Status \<times> 'a flash_scheme" where
  "FLASH_WaitForLastOperation timeout f =
     (let (st, f1) = FLASH_GetStatus f;
          (t, st', f2) = wait_loop timeout st f1
      in (if t = 0 then FLASH_TIMEOUT else st', f2))"

definition FLASH_ErasePage :: "u32 \<Rightarrow> 'a flash_scheme \<Rightarrow> FLASH_Status \<times> 'a flash_scheme" where
  "FLASH_ErasePage Page_Address f =
     (let (status, f1) = FLASH_WaitForLastOperation FLASH_ER_PRG_TIMEOUT f in
      if status = FLASH_COMPLETE then
        let f2 = hw_write_CR (CR f1 OR FLASH_CR_PER) f1;
            f3 = f2\<lparr>AR := Page_Address\<rparr>;
            f4 = hw_write_CR (CR f3 OR FLASH_CR_STRT) f3;
            (status', f5) = FLASH_WaitForLastOperation FLASH_ER_PRG_TIMEOUT f4
        in (status', hw_write_CR (CR f5 AND NOT FLASH_CR_PER) f5)
      else (status, f1))"

definition FLASH_ProgramHalfWord :: "u32 \<Rightarrow> u16 \<Rightarrow> 'a flash_scheme \<Rightarrow> FLASH_Status \<times> 'a flash_scheme" where
  "FLASH_ProgramHalfWord Address Data f =
     (let (status, f1) = FLASH_WaitForLastOperation FLASH_ER_PRG_TIMEOUT f in
      if status = FLASH_COMPLETE then
        let f2 = hw_write_CR (CR f1 OR FLASH_CR_PG) f1;
            f3 = hw_store16 (unat Address) Data f2;
            (status', f4) = FLASH_WaitForLastOperation FLASH_ER_PRG_TIMEOUT f3
        in (status', hw_write_CR (CR f4 AND NOT FLASH_CR_PG) f4)
      else (status, f1))"

subsection \<open>An operation on a device that is ready\<close>

text \<open>
  \<open>flash_idle\<close>: unlocked, no operation selected, no error pending, not busy. A plan
  is \<open>calm\<close> when every operation ends before the driver's time-out and no page is
  protected; the supply may still fail. On such a device one driver call is one
  application of \<open>flash_apply\<close>, which is all the EEPROM emulation has to know.
\<close>

definition flash_idle :: "'a flash_scheme \<Rightarrow> bool" where
  "flash_idle f \<longleftrightarrow> CR f = 0 \<and> SR f = 0 \<and> busy f = 0"

fun calm_outcome :: "op_outcome \<Rightarrow> bool" where
  "calm_outcome (Completes n) = (n < FLASH_ER_PRG_TIMEOUT)"
| "calm_outcome (Write_Protected n) = False"
| "calm_outcome Supply_Fails = True"

definition calm :: "'a flash_scheme \<Rightarrow> bool" where
  "calm f \<longleftrightarrow> list_all calm_outcome (plan f)"

fun next_plan :: "op_outcome list \<Rightarrow> op_outcome list" where
  "next_plan [] = []"
| "next_plan (x # p) = p"

fun survives :: "op_outcome list \<Rightarrow> bool" where
  "survives (Supply_Fails # p) = False"
| "survives p = True"

definition flash_apply :: "((nat \<Rightarrow> u16) \<Rightarrow> nat \<Rightarrow> u16) \<Rightarrow> 'a flash_scheme \<Rightarrow> 'a flash_scheme" where
  "flash_apply upd f =
     (if \<not> powered f then f
      else if survives (plan f) then f\<lparr>cells := upd (cells f), plan := next_plan (plan f)\<rparr>
      else f\<lparr>powered := False, plan := next_plan (plan f)\<rparr>)"

lemma ER_PRG_TIMEOUT_pos [simp]: "0 < FLASH_ER_PRG_TIMEOUT"
  by (simp add: FLASH_ER_PRG_TIMEOUT_def)

lemma wait_loop_done: "st \<noteq> FLASH_BUSY \<Longrightarrow> wait_loop t st f = (t, st, f)"
  by (subst wait_loop.simps) simp

lemma GetStatus_idle:
  "SR f = 0 \<Longrightarrow> busy f = 0 \<Longrightarrow> FLASH_GetStatus f = (FLASH_COMPLETE, f)"
  by (simp add: FLASH_GetStatus_def hw_read_SR_def flash_bits)

lemma GetStatus_off: "\<not> powered f \<Longrightarrow> FLASH_GetStatus f = (FLASH_COMPLETE, f)"
  by (simp add: FLASH_GetStatus_def hw_read_SR_def flash_bits)

lemma GetStatus_busy:
  "powered f \<Longrightarrow> SR f = 0 \<Longrightarrow> 0 < busy f \<Longrightarrow>
   FLASH_GetStatus f = (FLASH_BUSY, f\<lparr>busy := busy f - 1\<rparr>)"
  by (simp add: FLASH_GetStatus_def hw_read_SR_def flash_bits)

lemma wait_loop_busy:
  "powered f \<Longrightarrow> SR f = 0 \<Longrightarrow> busy f < t \<Longrightarrow>
   wait_loop t FLASH_BUSY f = (t - Suc (busy f), FLASH_COMPLETE, f\<lparr>busy := 0\<rparr>)"
proof (induction "busy f" arbitrary: f t)
  case 0
  then show ?case
    by (subst wait_loop.simps) (simp add: GetStatus_idle wait_loop_done)
next
  case (Suc n)
  let ?g = "f\<lparr>busy := busy f - 1\<rparr>"
  have step: "wait_loop t FLASH_BUSY f = wait_loop (t - 1) FLASH_BUSY ?g"
    using Suc.hyps(2) Suc.prems
    by (subst wait_loop.simps) (simp add: GetStatus_busy)
  from Suc.hyps(1)[of ?g "t - 1"] Suc.hyps(2) Suc.prems show ?case
    by (simp add: step)
qed

lemma Wait_idle:
  assumes "SR f = 0" and "busy f < FLASH_ER_PRG_TIMEOUT" and "powered f"
  shows "FLASH_WaitForLastOperation FLASH_ER_PRG_TIMEOUT f = (FLASH_COMPLETE, f\<lparr>busy := 0\<rparr>)"
proof (cases "busy f = 0")
  case True
  with assms show ?thesis
    by (simp add: FLASH_WaitForLastOperation_def GetStatus_idle wait_loop_done FLASH_ER_PRG_TIMEOUT_def)
next
  case False
  with assms show ?thesis
    by (simp add: FLASH_WaitForLastOperation_def GetStatus_busy wait_loop_busy)
qed

lemma Wait_off:
  "\<not> powered f \<Longrightarrow>
   FLASH_WaitForLastOperation FLASH_ER_PRG_TIMEOUT f = (FLASH_COMPLETE, f)"
  by (simp add: FLASH_WaitForLastOperation_def GetStatus_off wait_loop_done FLASH_ER_PRG_TIMEOUT_def)

lemma wait_loop_stuck:
  "powered f \<Longrightarrow> SR f = 0 \<Longrightarrow> t \<le> Suc (busy f) \<Longrightarrow> fst (wait_loop t FLASH_BUSY f) = 0"
proof (induction t arbitrary: f)
  case 0
  then show ?case by (subst wait_loop.simps) simp
next
  case (Suc t)
  then show ?case
    by (cases "busy f")
      (subst wait_loop.simps, simp add: GetStatus_busy GetStatus_idle wait_loop_done)+
qed

lemma Wait_stuck:
  assumes "SR f = 0" and "FLASH_ER_PRG_TIMEOUT \<le> busy f" and "powered f"
  shows "fst (FLASH_WaitForLastOperation FLASH_ER_PRG_TIMEOUT f) = FLASH_TIMEOUT"
proof -
  let ?g = "f\<lparr>busy := busy f - 1\<rparr>"
  have "0 < busy f" using assms(2) by (simp add: FLASH_ER_PRG_TIMEOUT_def)
  moreover from this assms have "fst (wait_loop FLASH_ER_PRG_TIMEOUT FLASH_BUSY ?g) = 0"
    by (intro wait_loop_stuck) auto
  moreover obtain t st g where "wait_loop FLASH_ER_PRG_TIMEOUT FLASH_BUSY ?g = (t, st, g)"
    by (metis prod_cases3)
  ultimately show ?thesis using assms
    by (simp add: FLASH_WaitForLastOperation_def GetStatus_busy)
qed

text \<open>The driver's two operations on a ready device.\<close>

lemma ProgramHalfWord_calm:
  assumes "flash_idle f" and "calm f" and "cells f (unat a) = 0xFFFF \<or> d = 0"
  shows "FLASH_ProgramHalfWord a d f =
    (FLASH_COMPLETE, flash_apply (\<lambda>c. c(unat a := d)) f)"
proof (cases "powered f")
  case True
  note idle = assms(1)[unfolded flash_idle_def] True
  show ?thesis
  proof (cases "plan f")
    case Nil
    with idle assms(3) show ?thesis
      by (auto simp: FLASH_ProgramHalfWord_def Wait_idle hw_write_CR_def
          hw_store16_def flash_apply_def hw_run_def flash_bits)
  next
    case (Cons x p)
    with idle assms show ?thesis
      by (cases x)
        (auto simp: FLASH_ProgramHalfWord_def Wait_idle Wait_off hw_write_CR_def calm_def
          hw_store16_def flash_apply_def hw_run_def flash_bits)
  qed
qed (use assms in \<open>auto simp: FLASH_ProgramHalfWord_def Wait_off hw_write_CR_def flash_idle_def
          hw_store16_def flash_apply_def hw_run_def flash_bits\<close>)

lemma ErasePage_calm:
  assumes "flash_idle f" and "calm f"
  shows "FLASH_ErasePage a f =
    (FLASH_COMPLETE, flash_apply (erase_cells (unat a)) (f\<lparr>AR := a\<rparr>))"
proof (cases "powered f")
  case True
  note idle = assms(1)[unfolded flash_idle_def] True
  show ?thesis
  proof (cases "plan f")
    case Nil
    with idle show ?thesis
      by (auto simp: FLASH_ErasePage_def Wait_idle hw_write_CR_def
          flash_apply_def hw_run_def flash_bits)
  next
    case (Cons x p)
    with idle assms show ?thesis
      by (cases x)
        (auto simp: FLASH_ErasePage_def Wait_idle Wait_off hw_write_CR_def calm_def
          flash_apply_def hw_run_def flash_bits)
  qed
qed (use assms in \<open>auto simp: FLASH_ErasePage_def Wait_off hw_write_CR_def flash_idle_def
          flash_apply_def hw_run_def flash_bits\<close>)

lemma next_plan_calm: "list_all calm_outcome p \<Longrightarrow> list_all calm_outcome (next_plan p)"
  by (cases p) auto

lemma flash_apply_keeps [simp]:
  "flash_idle (flash_apply u f) = flash_idle f"
  "flash_idle (f\<lparr>AR := a\<rparr>) = flash_idle f"
  "calm (f\<lparr>AR := a\<rparr>) = calm f"
  by (auto simp: flash_idle_def flash_apply_def calm_def)

lemma flash_apply_calm [intro, simp]: "calm f \<Longrightarrow> calm (flash_apply u f)"
  by (auto simp: flash_apply_def calm_def next_plan_calm)

text \<open>Without supply the driver changes no cell, whatever it is asked for.\<close>

lemma ProgramHalfWord_off:
  "flash_idle f \<Longrightarrow> \<not> powered f \<Longrightarrow> FLASH_ProgramHalfWord a d f = (FLASH_COMPLETE, f)"
  by (auto simp: FLASH_ProgramHalfWord_def Wait_off hw_write_CR_def flash_idle_def
      hw_store16_def flash_bits)

lemma ErasePage_off:
  "flash_idle f \<Longrightarrow> \<not> powered f \<Longrightarrow> FLASH_ErasePage a f = (FLASH_COMPLETE, f\<lparr>AR := a\<rparr>)"
  by (auto simp: FLASH_ErasePage_def Wait_off hw_write_CR_def flash_idle_def
      hw_run_def flash_bits)

end
