(* ===== verification/Eeprom.thy ===== *)
theory Eeprom
  imports Flash
begin

text \<open>
  The EEPROM emulation (eeprom.c, eeprom.h): 16-bit variables under 16-bit virtual
  addresses, kept as a log in one of two flash pages. A page starts with a status
  half-word; every further 4-byte slot holds a value and, after it, its virtual address.
  The newest slot of an address counts. A full page is transferred to the other one.

  The state is the flash device extended by the two global variables of the module.
  Addresses are natural numbers here: they lie between 0x08000800 and 0x08001800, so
  the 32-bit arithmetic of the code does not wrap. A status is the 16-bit number the C
  functions return, with the driver's codes (FLASH_COMPLETE is 4) among them.
\<close>

record ee = flash +
  DataVar :: u16
  VirtAddVarTab :: "u16 list"

definition PAGE_SIZE :: nat where "PAGE_SIZE = 0x800"
definition EEPROM_START_ADDRESS :: nat where "EEPROM_START_ADDRESS = 0x08000800"
definition PAGE0_BASE_ADDRESS :: nat where "PAGE0_BASE_ADDRESS = EEPROM_START_ADDRESS + 0x000"
definition PAGE1_BASE_ADDRESS :: nat where "PAGE1_BASE_ADDRESS = EEPROM_START_ADDRESS + PAGE_SIZE"
definition PAGE0 :: u16 where "PAGE0 = 0x0000"
definition PAGE1 :: u16 where "PAGE1 = 0x0001"
definition NO_VALID_PAGE :: u16 where "NO_VALID_PAGE = 0x00AB"
definition ERASED :: u16 where "ERASED = 0xFFFF"
definition RECEIVE_DATA :: u16 where "RECEIVE_DATA = 0xEEEE"
definition VALID_PAGE :: u16 where "VALID_PAGE = 0x0000"
definition READ_FROM_VALID_PAGE :: u8 where "READ_FROM_VALID_PAGE = 0x00"
definition WRITE_IN_VALID_PAGE :: u8 where "WRITE_IN_VALID_PAGE = 0x01"
definition PAGE_FULL :: u16 where "PAGE_FULL = 0x80"
definition NB_OF_VAR :: nat where "NB_OF_VAR = 160"

lemmas ee_consts =
  PAGE0_def PAGE1_def NO_VALID_PAGE_def ERASED_def RECEIVE_DATA_def VALID_PAGE_def
  READ_FROM_VALID_PAGE_def WRITE_IN_VALID_PAGE_def PAGE_FULL_def

subsection \<open>The code\<close>

text \<open>The pattern of every call in eeprom.c: return the status unless it is FLASH_COMPLETE.\<close>

definition ee_check :: "('s \<Rightarrow> u16 \<times> 's) \<Rightarrow> ('s \<Rightarrow> u16 \<times> 's) \<Rightarrow> 's \<Rightarrow> u16 \<times> 's" where
  "ee_check m k s =
     (let (st, s1) = m s in if st \<noteq> status_code FLASH_COMPLETE then (st, s1) else k s1)"

definition ee_program :: "nat \<Rightarrow> u16 \<Rightarrow> 'a ee_scheme \<Rightarrow> u16 \<times> 'a ee_scheme" where
  "ee_program a d s =
     (let (st, s1) = FLASH_ProgramHalfWord (of_nat a) d s in (status_code st, s1))"

definition ee_erase :: "nat \<Rightarrow> 'a ee_scheme \<Rightarrow> u16 \<times> 'a ee_scheme" where
  "ee_erase a s = (let (st, s1) = FLASH_ErasePage (of_nat a) s in (status_code st, s1))"

definition read32 :: "(nat \<Rightarrow> u16) \<Rightarrow> nat \<Rightarrow> u32" where
  "read32 c a = push_bit 16 (ucast (c (a + 2))) OR ucast (c a)"

definition EE_FindValidPage :: "u8 \<Rightarrow> 'a ee_scheme \<Rightarrow> u16" where
  "EE_FindValidPage Operation s =
     (let PageStatus0 = cells s PAGE0_BASE_ADDRESS;
          PageStatus1 = cells s PAGE1_BASE_ADDRESS
      in if Operation = WRITE_IN_VALID_PAGE then
           (if PageStatus1 = VALID_PAGE then
              (if PageStatus0 = RECEIVE_DATA then PAGE0 else PAGE1)
            else if PageStatus0 = VALID_PAGE then
              (if PageStatus1 = RECEIVE_DATA then PAGE1 else PAGE0)
            else NO_VALID_PAGE)
         else if Operation = READ_FROM_VALID_PAGE then
           (if PageStatus0 = VALID_PAGE then PAGE0
            else if PageStatus1 = VALID_PAGE then PAGE1
            else NO_VALID_PAGE)
         else PAGE0)"

text \<open>The loop of \<open>EE_ReadVariable\<close>, from the end of the page down to its second slot.\<close>

fun ee_read_scan :: "(nat \<Rightarrow> u16) \<Rightarrow> u16 \<Rightarrow> nat \<Rightarrow> nat \<Rightarrow> u16 option" where
  "ee_read_scan c VirtAddress PageStartAddress Address =
     (if PageStartAddress + 2 < Address then
        if c Address = VirtAddress then Some (c (Address - 2))
        else ee_read_scan c VirtAddress PageStartAddress (Address - 4)
      else None)"

declare ee_read_scan.simps [simp del]

text \<open>The second result is what is stored through the pointer \<open>Data\<close>, if anything is.\<close>

definition EE_ReadVariable :: "u16 \<Rightarrow> 'a ee_scheme \<Rightarrow> u16 \<times> u16 option" where
  "EE_ReadVariable VirtAddress s =
     (let ValidPage = EE_FindValidPage READ_FROM_VALID_PAGE s in
      if ValidPage = NO_VALID_PAGE then (NO_VALID_PAGE, None)
      else
        let PageStartAddress = EEPROM_START_ADDRESS + unat ValidPage * PAGE_SIZE;
            Address = (EEPROM_START_ADDRESS - 2) + (1 + unat ValidPage) * PAGE_SIZE
        in case ee_read_scan (cells s) VirtAddress PageStartAddress Address of
             Some d \<Rightarrow> (0, Some d)
           | None \<Rightarrow> (1, None))"

text \<open>The loop of \<open>EE_VerifyPageFullWriteVariable\<close> up to the first erased slot.\<close>

function ee_free_scan :: "(nat \<Rightarrow> u16) \<Rightarrow> nat \<Rightarrow> nat \<Rightarrow> nat option" where
  "ee_free_scan c PageEndAddress Address =
     (if Address < PageEndAddress then
        if read32 c Address = 0xFFFFFFFF then Some Address
        else ee_free_scan c PageEndAddress (Address + 4)
      else None)"
  by pat_completeness auto
termination
  by (relation "measure (\<lambda>(c, e, a). e - a)") auto

declare ee_free_scan.simps [simp del]

definition EE_VerifyPageFullWriteVariable ::
    "u16 \<Rightarrow> u16 \<Rightarrow> 'a ee_scheme \<Rightarrow> u16 \<times> 'a ee_scheme" where
  "EE_VerifyPageFullWriteVariable VirtAddress Data s =
     (let ValidPage = EE_FindValidPage WRITE_IN_VALID_PAGE s in
      if ValidPage = NO_VALID_PAGE then (NO_VALID_PAGE, s)
      else
        let Address = EEPROM_START_ADDRESS + unat ValidPage * PAGE_SIZE;
            PageEndAddress = (EEPROM_START_ADDRESS - 2) + (1 + unat ValidPage) * PAGE_SIZE
        in case ee_free_scan (cells s) PageEndAddress Address of
             Some a \<Rightarrow>
               ee_check (ee_program a Data) (ee_program (a + 2) VirtAddress) s
           | None \<Rightarrow> (PAGE_FULL, s))"

text \<open>
  One variable of a transfer: read it through \<open>DataVar\<close> and, unless it was not found,
  write it to the receiving page.
\<close>

definition ee_transfer_var :: "u16 \<Rightarrow> 'a ee_scheme \<Rightarrow> u16 \<times> 'a ee_scheme" where
  "ee_transfer_var v s =
     (let (ReadStatus, data) = EE_ReadVariable v s;
          s1 = (case data of None \<Rightarrow> s | Some d \<Rightarrow> s\<lparr>DataVar := d\<rparr>)
      in if ReadStatus \<noteq> 0x1 then EE_VerifyPageFullWriteVariable v (DataVar s1) s1
         else (status_code FLASH_COMPLETE, s1))"

primrec ee_transfer_loop :: "u16 \<Rightarrow> u16 list \<Rightarrow> 'a ee_scheme \<Rightarrow> u16 \<times> 'a ee_scheme" where
  "ee_transfer_loop VirtAddress [] s = (status_code FLASH_COMPLETE, s)"
| "ee_transfer_loop VirtAddress (v # vs) s =
     (if v \<noteq> VirtAddress
      then ee_check (ee_transfer_var v) (ee_transfer_loop VirtAddress vs) s
      else ee_transfer_loop VirtAddress vs s)"

definition EE_PageTransfer :: "u16 \<Rightarrow> u16 \<Rightarrow> 'a ee_scheme \<Rightarrow> u16 \<times> 'a ee_scheme" where
  "EE_PageTransfer VirtAddress Data s =
     (let ValidPage = EE_FindValidPage READ_FROM_VALID_PAGE s;
          transfer = (\<lambda>NewPageAddress OldPageAddress.
            ee_check (ee_program NewPageAddress RECEIVE_DATA)
            (ee_check (EE_VerifyPageFullWriteVariable VirtAddress Data)
            (ee_check (ee_transfer_loop VirtAddress (VirtAddVarTab s))
            (ee_check (ee_erase OldPageAddress)
            (ee_program NewPageAddress VALID_PAGE)))) s)
      in if ValidPage = PAGE1 then transfer PAGE0_BASE_ADDRESS PAGE1_BASE_ADDRESS
         else if ValidPage = PAGE0 then transfer PAGE1_BASE_ADDRESS PAGE0_BASE_ADDRESS
         else (NO_VALID_PAGE, s))"

definition EE_WriteVariable :: "u16 \<Rightarrow> u16 \<Rightarrow> 'a ee_scheme \<Rightarrow> u16 \<times> 'a ee_scheme" where
  "EE_WriteVariable VirtAddress Data s =
     (let (Status, s1) = EE_VerifyPageFullWriteVariable VirtAddress Data s in
      if Status = PAGE_FULL then EE_PageTransfer VirtAddress Data s1 else (Status, s1))"

definition EE_Format :: "'a ee_scheme \<Rightarrow> u16 \<times> 'a ee_scheme" where
  "EE_Format =
     ee_check (ee_erase PAGE0_BASE_ADDRESS)
     (ee_check (ee_program PAGE0_BASE_ADDRESS VALID_PAGE)
     (ee_erase PAGE1_BASE_ADDRESS))"

text \<open>
  The transfer loop of \<open>EE_Init\<close> into the page at \<open>base\<close>: \<open>x\<close> becomes the index of the
  variable that the first slot of the receiving page already holds, and is skipped.
\<close>

primrec ee_init_loop ::
    "nat \<Rightarrow> nat \<Rightarrow> int \<Rightarrow> u16 list \<Rightarrow> 'a ee_scheme \<Rightarrow> u16 \<times> 'a ee_scheme" where
  "ee_init_loop base VarIdx x [] s = (status_code FLASH_COMPLETE, s)"
| "ee_init_loop base VarIdx x (v # vs) s =
     (let x' = (if cells s (base + 6) = v then int VarIdx else x) in
      if int VarIdx \<noteq> x'
      then ee_check (ee_transfer_var v) (ee_init_loop base (Suc VarIdx) x' vs) s
      else ee_init_loop base (Suc VarIdx) x' vs s)"

text \<open>The three cases of the first page's status in \<open>EE_Init\<close>.\<close>

definition ee_init_erased :: "u16 \<Rightarrow> 'a ee_scheme \<Rightarrow> u16 \<times> 'a ee_scheme" where
  "ee_init_erased PageStatus1 =
     (if PageStatus1 = VALID_PAGE then ee_erase PAGE0_BASE_ADDRESS
      else if PageStatus1 = RECEIVE_DATA then
        ee_check (ee_erase PAGE0_BASE_ADDRESS) (ee_program PAGE1_BASE_ADDRESS VALID_PAGE)
      else EE_Format)"

definition ee_init_receive :: "u16 \<Rightarrow> 'a ee_scheme \<Rightarrow> u16 \<times> 'a ee_scheme" where
  "ee_init_receive PageStatus1 s =
     (if PageStatus1 = VALID_PAGE then
        ee_check (ee_init_loop PAGE0_BASE_ADDRESS 0 (-1) (VirtAddVarTab s))
        (ee_check (ee_program PAGE0_BASE_ADDRESS VALID_PAGE)
        (ee_erase PAGE1_BASE_ADDRESS)) s
      else if PageStatus1 = ERASED then
        ee_check (ee_erase PAGE1_BASE_ADDRESS) (ee_program PAGE0_BASE_ADDRESS VALID_PAGE) s
      else EE_Format s)"

definition ee_init_valid :: "u16 \<Rightarrow> 'a ee_scheme \<Rightarrow> u16 \<times> 'a ee_scheme" where
  "ee_init_valid PageStatus1 s =
     (if PageStatus1 = VALID_PAGE then EE_Format s
      else if PageStatus1 = ERASED then ee_erase PAGE1_BASE_ADDRESS s
      else
        ee_check (ee_init_loop PAGE1_BASE_ADDRESS 0 (-1) (VirtAddVarTab s))
        (ee_check (ee_program PAGE1_BASE_ADDRESS VALID_PAGE)
        (ee_erase PAGE0_BASE_ADDRESS)) s)"

definition EE_Init :: "'a ee_scheme \<Rightarrow> u16 \<times> 'a ee_scheme" where
  "EE_Init s =
     (let PageStatus0 = cells s PAGE0_BASE_ADDRESS;
          PageStatus1 = cells s PAGE1_BASE_ADDRESS
      in if PageStatus0 = ERASED then ee_init_erased PageStatus1 s
         else if PageStatus0 = RECEIVE_DATA then ee_init_receive PageStatus1 s
         else if PageStatus0 = VALID_PAGE then ee_init_valid PageStatus1 s
         else EE_Format s)"

end
