(* ===== verification/Eeprom_Log.thy ===== *)
theory Eeprom_Log
  imports Eeprom
begin

text \<open>
  The pages of the EEPROM emulation as logs. This theory is about the cells only: the
  slots of a page, the value a page holds for a virtual address (\<open>lookup\<close>), how full a
  page is (\<open>used\<close>), and that the two scanning loops of eeprom.c compute just these.
\<close>

subsection \<open>Slots\<close>

definition slot :: "nat \<Rightarrow> nat \<Rightarrow> nat" where
  "slot p i = EEPROM_START_ADDRESS + p * PAGE_SIZE + 4 * i"

definition sval :: "(nat \<Rightarrow> u16) \<Rightarrow> nat \<Rightarrow> nat \<Rightarrow> u16" where
  "sval c p i = c (slot p i)"

definition sadr :: "(nat \<Rightarrow> u16) \<Rightarrow> nat \<Rightarrow> nat \<Rightarrow> u16" where
  "sadr c p i = c (slot p i + 2)"

lemmas slot_defs = slot_def EEPROM_START_ADDRESS_def PAGE_SIZE_def

lemma slot_alt: "slot p i = 4 * (0x2000200 + (p * 512 + i))"
  by (simp add: slot_defs)

lemma slot_eq_iff [simp]:
  assumes "i < 512" and "j < 512"
  shows "slot p i = slot q j \<longleftrightarrow> p = q \<and> i = j"
proof
  assume "slot p i = slot q j"
  then have eq: "p * 512 + i = q * 512 + j" by (simp add: slot_alt)
  from arg_cong[OF eq, of "\<lambda>n. n div 512"] assms have "p = q" by simp
  with eq show "p = q \<and> i = j" by simp
qed simp

lemma slot_Suc_neq [simp]:
  "slot p i \<noteq> Suc (Suc (slot q j))" "Suc (Suc (slot q j)) \<noteq> slot p i"
proof -
  have "4 dvd slot p i" and "4 dvd slot q j" by (simp_all add: slot_alt)
  then have "slot p i \<noteq> slot q j + 2" by presburger
  then show "slot p i \<noteq> Suc (Suc (slot q j))" "Suc (Suc (slot q j)) \<noteq> slot p i" by auto
qed

lemma slot_bound: "p < 2 \<Longrightarrow> i < 512 \<Longrightarrow> slot p i + 2 < 2 ^ 32"
  by (auto simp: slot_defs)

lemma unat_slot [simp]:
  assumes "p < 2" and "i < 512"
  shows "unat (of_nat (slot p i) :: u32) = slot p i"
    and "unat (2 + of_nat (slot p i) :: u32) = slot p i + 2"
proof -
  have small: "unat (of_nat n :: u32) = n" if "n < 2 ^ 32" for n
    using that by (simp add: unat_of_nat take_bit_nat_eq_self_iff)
  from slot_bound[OF assms] show "unat (of_nat (slot p i) :: u32) = slot p i"
    by (intro small) simp
  from small[OF slot_bound[OF assms]] show "unat (2 + of_nat (slot p i) :: u32) = slot p i + 2"
    by (simp add: add.commute)
qed

lemma base_slot:
  "PAGE0_BASE_ADDRESS = slot 0 0" "PAGE1_BASE_ADDRESS = slot 1 0"
  by (auto simp: slot_defs PAGE0_BASE_ADDRESS_def PAGE1_BASE_ADDRESS_def)

text \<open>Writing one half of a slot, and erasing a page.\<close>

lemma sval_upd [simp]:
  "i < 512 \<Longrightarrow> j < 512 \<Longrightarrow>
   sval (c(slot q j := d)) p i = (if p = q \<and> i = j then d else sval c p i)"
  "sval (c(Suc (Suc (slot q j)) := d)) p i = sval c p i"
  by (auto simp: sval_def)

lemma sadr_upd [simp]:
  "i < 512 \<Longrightarrow> j < 512 \<Longrightarrow>
   sadr (c(Suc (Suc (slot q j)) := d)) p i = (if p = q \<and> i = j then d else sadr c p i)"
  "sadr (c(slot q j := d)) p i = sadr c p i"
  by (auto simp: sadr_def slot_Suc_neq [symmetric])

lemma slot_page:
  "i < 512 \<Longrightarrow> slot p i div flash_page_size = 0x10001 + p"
  "i < 512 \<Longrightarrow> Suc (Suc (slot p i)) div flash_page_size = 0x10001 + p"
  by (auto simp: slot_defs flash_page_size_def)

lemma erase_slots [simp]:
  "i < 512 \<Longrightarrow> sval (erase_cells (slot q 0) c) p i = (if p = q then 0xFFFF else sval c p i)"
  "i < 512 \<Longrightarrow> sadr (erase_cells (slot q 0) c) p i = (if p = q then 0xFFFF else sadr c p i)"
  by (auto simp: sval_def sadr_def erase_cells_def slot_page)

subsection \<open>Free and used slots\<close>

definition blank :: "(nat \<Rightarrow> u16) \<Rightarrow> nat \<Rightarrow> nat \<Rightarrow> bool" where
  "blank c p i \<longleftrightarrow> sval c p i = 0xFFFF \<and> sadr c p i = 0xFFFF"

definition used :: "(nat \<Rightarrow> u16) \<Rightarrow> nat \<Rightarrow> nat \<Rightarrow> bool" where
  "used c p k \<longleftrightarrow> k \<le> 512 \<and> (\<forall>i<k. \<not> blank c p i) \<and> (\<forall>i. k \<le> i \<and> i < 512 \<longrightarrow> blank c p i)"

lemma read32_blank: "read32 c (slot p i) = 0xFFFFFFFF \<longleftrightarrow> blank c p i"
proof -
  have "read32 c a = 0xFFFFFFFF \<longleftrightarrow> c a = 0xFFFF \<and> c (a + 2) = 0xFFFF" for a
  proof
    assume r: "read32 c a = 0xFFFFFFFF"
    have lo: "c a = ucast (read32 c a)"
      by (rule bit_word_eqI) (auto simp: read32_def bit_simps)
    have hi: "c (a + 2) = ucast (drop_bit 16 (read32 c a))"
      by (rule bit_word_eqI) (auto simp: read32_def bit_simps dest: bit_imp_le_length)
    from lo hi show "c a = 0xFFFF \<and> c (a + 2) = 0xFFFF" by (simp add: r)
  qed (simp add: read32_def)
  then show ?thesis by (simp add: blank_def sval_def sadr_def)
qed

lemma free_scan_slots:
  assumes "used c p k"
  shows "i \<le> k \<Longrightarrow> ee_free_scan c (slot p 512 - 2) (slot p i) =
    (if k < 512 then Some (slot p k) else None)"
proof (induction "k - i" arbitrary: i)
  case 0
  then have "i = k" by simp
  moreover have "k < 512 \<Longrightarrow> slot p k < slot p 512 - 2" by (simp add: slot_defs)
  moreover have "\<not> slot p 512 < slot p 512 - 2" by simp
  ultimately show ?case using assms
    by (subst ee_free_scan.simps) (auto simp: read32_blank used_def le_less)
next
  case (Suc n)
  then have "i < k" and "\<not> blank c p i" and "k \<le> 512" using assms by (auto simp: used_def)
  moreover from this have "slot p i < slot p 512 - 2" by (simp add: slot_defs)
  moreover have "slot p i + 4 = slot p (Suc i)" by (simp add: slot_def)
  ultimately show ?case using Suc.hyps(1)[of "Suc i"] Suc.hyps(2)
    by (subst ee_free_scan.simps) (simp add: read32_blank)
qed

subsection \<open>The value of a virtual address\<close>

primrec lookup_upto :: "(nat \<Rightarrow> u16) \<Rightarrow> nat \<Rightarrow> u16 \<Rightarrow> nat \<Rightarrow> u16 option" where
  "lookup_upto c p va 0 = None"
| "lookup_upto c p va (Suc n) =
     (if sadr c p (Suc n) = va then Some (sval c p (Suc n)) else lookup_upto c p va n)"

definition lookup :: "(nat \<Rightarrow> u16) \<Rightarrow> nat \<Rightarrow> u16 \<Rightarrow> u16 option" where
  "lookup c p va = lookup_upto c p va 511"

lemma read_scan_slots:
  "ee_read_scan c va (slot p 0) (slot p i + 2) = lookup_upto c p va i"
proof (induction i)
  case 0
  show ?case by (subst ee_read_scan.simps) simp
next
  case (Suc i)
  have "slot p (Suc i) + 2 - 4 = slot p i + 2" and "slot p 0 < slot p (Suc i)"
    by (simp_all add: slot_def)
  with Suc show ?case
    by (subst ee_read_scan.simps) (simp add: sval_def sadr_def)
qed

lemma lookup_upto_cong:
  "(\<And>i. i \<le> n \<Longrightarrow> 0 < i \<Longrightarrow> sadr c p i = sadr c' p i \<and> sval c p i = sval c' p i) \<Longrightarrow>
   lookup_upto c p va n = lookup_upto c' p va n"
  by (induction n) auto

lemma lookup_upto_skip:
  "k \<le> n \<Longrightarrow> (\<And>i. k < i \<Longrightarrow> i \<le> n \<Longrightarrow> sadr c p i \<noteq> va) \<Longrightarrow>
   lookup_upto c p va n = lookup_upto c p va k"
proof (induction n)
  case (Suc n)
  then show ?case by (cases "k = Suc n") auto
qed simp

lemma lookup_upto_none:
  "(\<And>i. 0 < i \<Longrightarrow> i \<le> n \<Longrightarrow> sadr c p i \<noteq> va) \<Longrightarrow> lookup_upto c p va n = None"
  by (induction n) auto

lemma lookup_cong:
  "(\<And>i. 0 < i \<Longrightarrow> i < 512 \<Longrightarrow> sadr c p i = sadr c' p i \<and> sval c p i = sval c' p i) \<Longrightarrow>
   lookup c p va = lookup c' p va"
  unfolding lookup_def by (rule lookup_upto_cong) auto

subsection \<open>Appending to a page, changing its status, erasing it\<close>

lemma lookup_used:
  "used c p k \<Longrightarrow> 1 \<le> k \<Longrightarrow> va \<noteq> 0xFFFF \<Longrightarrow> lookup c p va = lookup_upto c p va (k - 1)"
  unfolding lookup_def
  by (rule lookup_upto_skip) (auto simp: used_def blank_def)

lemma used_append:
  assumes "used c p k" and "k < 512" and "va \<noteq> 0xFFFF"
  shows "used (c(slot p k := d, Suc (Suc (slot p k)) := va)) p (Suc k)"
  using assms by (auto simp: used_def blank_def)

lemma lookup_append:
  assumes "used c p k" and "1 \<le> k" and "k < 512" and "va \<noteq> 0xFFFF" and "x \<noteq> 0xFFFF"
  shows "lookup (c(slot p k := d, Suc (Suc (slot p k)) := va)) p x =
    (if x = va then Some d else lookup c p x)"
proof -
  let ?c = "c(slot p k := d, Suc (Suc (slot p k)) := va)"
  obtain m where m: "k = Suc m" using assms(2) by (cases k) auto
  have "lookup_upto ?c p x m = lookup_upto c p x m"
    using assms(3) m by (intro lookup_upto_cong) auto
  moreover have "lookup ?c p x = lookup_upto ?c p x (Suc m)"
    using lookup_used[OF used_append[OF assms(1,3,4), of d] _ assms(5)] m by simp
  ultimately have "lookup ?c p x = (if x = va then Some d else lookup_upto c p x m)"
    using assms(3) m by auto
  with assms m show ?thesis by (simp add: lookup_used)
qed

lemma used_half:
  assumes "used c p k" and "k < 512"
  shows "used (c(slot p k := d)) p (if d = 0xFFFF then k else Suc k)"
  using assms by (auto simp: used_def blank_def)

lemma lookup_half:
  assumes "used c p k" and "k < 512" and "x \<noteq> 0xFFFF"
  shows "lookup (c(slot p k := d)) p x = lookup c p x"
proof -
  have "lookup_upto (c(slot p k := d)) p x n = lookup_upto c p x n" if "n < 512" for n
    using that assms by (induction n) (auto simp: used_def blank_def)
  then show ?thesis by (simp add: lookup_def)
qed

lemma lookup_other_page:
  assumes "p \<noteq> q" and "j < 512"
  shows "lookup (c(slot q j := d)) p x = lookup c p x"
    and "lookup (c(Suc (Suc (slot q j)) := d)) p x = lookup c p x"
  using assms by (auto intro!: lookup_cong)

lemma used_other_page:
  assumes "p \<noteq> q" and "j < 512"
  shows "used (c(slot q j := d)) p k = used c p k"
    and "used (c(Suc (Suc (slot q j)) := d)) p k = used c p k"
  using assms by (auto simp: used_def blank_def)

lemma lookup_header: "lookup (c(slot q 0 := h)) p x = lookup c p x"
  by (rule lookup_cong) auto

lemma used_header:
  "used c p k \<Longrightarrow> 1 \<le> k \<Longrightarrow> h \<noteq> 0xFFFF \<Longrightarrow> used (c(slot p 0 := h)) p k"
  by (auto simp: used_def blank_def)

lemma used_first_header: "used c p 0 \<Longrightarrow> h \<noteq> 0xFFFF \<Longrightarrow> used (c(slot p 0 := h)) p 1"
  by (auto simp: used_def blank_def)

lemma used_0_lookup: "used c p 0 \<Longrightarrow> x \<noteq> 0xFFFF \<Longrightarrow> lookup c p x = None"
  unfolding lookup_def by (rule lookup_upto_none) (auto simp: used_def blank_def)

lemma used_1_lookup: "used c p 1 \<Longrightarrow> x \<noteq> 0xFFFF \<Longrightarrow> lookup c p x = None"
  unfolding lookup_def by (rule lookup_upto_none) (auto simp: used_def blank_def)

lemma used_erased: "used (erase_cells (slot p 0) c) p 0"
  by (auto simp: used_def blank_def)

lemma erase_other_page:
  assumes "p \<noteq> q"
  shows "lookup (erase_cells (slot q 0) c) p x = lookup c p x"
    and "used (erase_cells (slot q 0) c) p k = used c p k"
  using assms by (auto intro!: lookup_cong simp: used_def blank_def)

subsection \<open>The two operations on a page in terms of the log\<close>

lemma FindValidPage_cases:
  "cells s PAGE0_BASE_ADDRESS = sval (cells s) 0 0" "cells s PAGE1_BASE_ADDRESS = sval (cells s) 1 0"
  by (simp_all add: base_slot sval_def)

lemma page_bounds:
  "EEPROM_START_ADDRESS + q * PAGE_SIZE = slot q 0"
  "(EEPROM_START_ADDRESS - 2) + (1 + q) * PAGE_SIZE = slot q 512 - 2"
  "(EEPROM_START_ADDRESS - 2) + (1 + q) * PAGE_SIZE = slot q 511 + 2"
  by (simp_all add: slot_defs)

lemma page_no [simp]:
  "p < 2 \<Longrightarrow> unat (of_nat p :: u16) = p" "p < 2 \<Longrightarrow> (of_nat p :: u16) \<noteq> NO_VALID_PAGE"
  by (auto simp: less_2_cases_iff NO_VALID_PAGE_def)

lemma ReadVariable_lookup:
  assumes "EE_FindValidPage READ_FROM_VALID_PAGE s = of_nat p" and "p < 2"
  shows "EE_ReadVariable va s =
    (case lookup (cells s) p va of Some d \<Rightarrow> (0, Some d) | None \<Rightarrow> (1, None))"
  using assms(2)
  by (simp only: EE_ReadVariable_def assms(1) Let_def page_no page_bounds(1,3) read_scan_slots
      lookup_def [symmetric] if_False)

lemma VerifyPageFullWriteVariable_slot:
  assumes "EE_FindValidPage WRITE_IN_VALID_PAGE s = of_nat q" and "q < 2" and "used (cells s) q k"
  shows "EE_VerifyPageFullWriteVariable va d s =
    (if k < 512 then ee_check (ee_program (slot q k) d) (ee_program (slot q k + 2) va) s
     else (PAGE_FULL, s))"
  using assms(2) free_scan_slots[OF assms(3), of 0]
  by (simp only: EE_VerifyPageFullWriteVariable_def assms(1) Let_def page_no page_bounds(1,2)
      if_False le0 split: if_splits option.splits) simp

end
