(* ===== verification/Eeprom_Contract.thy ===== *)
theory Eeprom_Contract
  imports Eeprom_Log
begin

text \<open>
  Contracts of the EEPROM operations on a flash device that works but whose supply may
  fail before any of its operations: what holds when the operation returns, and what
  holds of the cells that are left when the supply has failed on the way. From the
  contracts follow both the functional correctness of the operations and their
  behaviour across a loss of power.
\<close>

subsection \<open>Contracts\<close>

definition ee_ready :: "u16 list \<Rightarrow> 'a ee_scheme \<Rightarrow> bool" where
  "ee_ready tab s \<longleftrightarrow> flash_idle s \<and> calm s \<and> VirtAddVarTab s = tab"

definition ee_frame :: "'a ee_scheme \<Rightarrow> 'a ee_scheme \<Rightarrow> bool" where
  "ee_frame s s' \<longleftrightarrow> ee.more s' = ee.more s \<and> set (plan s') \<subseteq> set (plan s)"

definition frozen :: "u16 list \<Rightarrow> ('a ee_scheme \<Rightarrow> u16 \<times> 'a ee_scheme) \<Rightarrow> bool" where
  "frozen tab m \<longleftrightarrow>
     (\<forall>s. ee_ready tab s \<and> \<not> powered s \<longrightarrow>
        (let (st, s') = m s in
         ee_ready tab s' \<and> ee_frame s s' \<and> \<not> powered s' \<and> cells s' = cells s))"

definition contract ::
    "u16 list \<Rightarrow> ((nat \<Rightarrow> u16) \<Rightarrow> bool) \<Rightarrow> ('a ee_scheme \<Rightarrow> u16 \<times> 'a ee_scheme) \<Rightarrow>
     ((nat \<Rightarrow> u16) \<Rightarrow> bool) \<Rightarrow> ((nat \<Rightarrow> u16) \<Rightarrow> bool) \<Rightarrow> bool" where
  "contract tab P m Q C \<longleftrightarrow>
     (\<forall>s. ee_ready tab s \<and> powered s \<and> P (cells s) \<longrightarrow>
        (let (st, s') = m s in
         ee_ready tab s' \<and> ee_frame s s' \<and>
         (if powered s' then st = status_code FLASH_COMPLETE \<and> Q (cells s')
          else Supply_Fails \<in> set (plan s) \<and> C (cells s'))))"

lemma ee_frame_refl [simp]: "ee_frame s s"
  by (simp add: ee_frame_def)

lemma ee_frame_trans: "ee_frame s t \<Longrightarrow> ee_frame t u \<Longrightarrow> ee_frame s u"
  by (auto simp: ee_frame_def)

lemma contractD:
  assumes "contract tab P m Q C" and "ee_ready tab s" and "powered s" and "P (cells s)"
    and "m s = (st, s')"
  shows "ee_ready tab s'" and "ee_frame s s'"
    and "powered s' \<Longrightarrow> st = status_code FLASH_COMPLETE \<and> Q (cells s')"
    and "\<not> powered s' \<Longrightarrow> Supply_Fails \<in> set (plan s) \<and> C (cells s')"
  using assms by (auto simp: contract_def split: if_splits)

lemma frozenD:
  assumes "frozen tab m" and "ee_ready tab s" and "\<not> powered s" and "m s = (st, s')"
  shows "ee_ready tab s'" and "ee_frame s s'" and "\<not> powered s'" and "cells s' = cells s"
  using assms by (auto simp: frozen_def)

lemma frozen_pointwise:
  assumes "\<And>s. \<exists>m'. frozen tab m' \<and> m s = m' s"
  shows "frozen tab m"
  unfolding frozen_def
proof (intro allI impI)
  fix s :: "'a ee_scheme"
  assume s: "ee_ready tab s \<and> \<not> powered s"
  from assms[of s] obtain m' where "frozen tab m'" and "m s = m' s" by blast
  with s show "let (st, s') = m s in
     ee_ready tab s' \<and> ee_frame s s' \<and> \<not> powered s' \<and> cells s' = cells s"
    by (simp add: frozen_def)
qed

lemma contractI:
  assumes "\<And>s st s'. ee_ready tab s \<Longrightarrow> powered s \<Longrightarrow> P (cells s) \<Longrightarrow> m s = (st, s') \<Longrightarrow>
    ee_ready tab s' \<and> ee_frame s s' \<and>
    (if powered s' then st = status_code FLASH_COMPLETE \<and> Q (cells s')
     else Supply_Fails \<in> set (plan s) \<and> C (cells s'))"
  shows "contract tab P m Q C"
  using assms by (auto simp: contract_def simp del: status_code.simps split: prod.splits)

lemma contract_conseq:
  assumes m: "contract tab P m Q C"
    and "\<And>c. P' c \<Longrightarrow> P c" and "\<And>c. Q c \<Longrightarrow> Q' c" and "\<And>c. C c \<Longrightarrow> C' c"
  shows "contract tab P' m Q' C'"
proof (rule contractI)
  fix s st s'
  assume s: "ee_ready tab s" "powered s" and P': "P' (cells s)" and run: "m s = (st, s')"
  note D = contractD[OF m s assms(2)[OF P'] run]
  with assms(3,4) show "ee_ready tab s' \<and> ee_frame s s' \<and>
    (if powered s' then st = status_code FLASH_COMPLETE \<and> Q' (cells s')
     else Supply_Fails \<in> set (plan s) \<and> C' (cells s'))"
    by simp
qed

lemma contract_pointwise:
  assumes "\<And>c. P c \<Longrightarrow> contract tab ((=) c) m Q C"
  shows "contract tab P m Q C"
proof (rule contractI)
  fix s st s'
  assume s: "ee_ready tab s" "powered s" "P (cells s)" and run: "m s = (st, s')"
  from contractD[OF assms[OF s(3)] s(1,2) refl run]
  show "ee_ready tab s' \<and> ee_frame s s' \<and>
    (if powered s' then st = status_code FLASH_COMPLETE \<and> Q (cells s')
     else Supply_Fails \<in> set (plan s) \<and> C (cells s'))"
    by simp
qed

lemma contract_cases:
  assumes "\<And>c. P c \<Longrightarrow> \<exists>P'. P' c \<and> contract tab P' m Q C"
  shows "contract tab P m Q C"
proof (rule contract_pointwise)
  fix c assume "P c"
  with assms obtain P' where "P' c" and "contract tab P' m Q C" by blast
  then show "contract tab ((=) c) m Q C" by (auto elim: contract_conseq)
qed

lemma contract_return: "contract tab P (\<lambda>s. (status_code FLASH_COMPLETE, s)) P C"
  by (auto simp: contract_def)

lemma frozen_return: "frozen tab (\<lambda>s. (st, s))"
  by (auto simp: frozen_def)

lemma contract_cong:
  assumes eq: "\<And>s. VirtAddVarTab s = tab \<Longrightarrow> P (cells s) \<Longrightarrow> m s = m' s"
    and m': "contract tab P m' Q C"
  shows "contract tab P m Q C"
proof (rule contractI)
  fix s st s'
  assume s: "ee_ready tab s" "powered s" "P (cells s)" and run: "m s = (st, s')"
  with eq[of s] have "m' s = (st, s')" by (simp add: ee_ready_def)
  from contractD[OF m' s this]
  show "ee_ready tab s' \<and> ee_frame s s' \<and>
    (if powered s' then st = status_code FLASH_COMPLETE \<and> Q (cells s')
     else Supply_Fails \<in> set (plan s) \<and> C (cells s'))"
    by simp
qed

lemma contract_seq:
  assumes m: "contract tab P m R C" and k: "contract tab R k Q C" and fk: "frozen tab k"
  shows "contract tab P (ee_check m k) Q C"
proof (rule contractI)
  fix s st s'
  assume s: "ee_ready tab s" "powered s" "P (cells s)" and run: "ee_check m k s = (st, s')"
  obtain st1 s1 where m1: "m s = (st1, s1)" by (cases "m s")
  note D = contractD[OF m s m1]
  show "ee_ready tab s' \<and> ee_frame s s' \<and>
    (if powered s' then st = status_code FLASH_COMPLETE \<and> Q (cells s')
     else Supply_Fails \<in> set (plan s) \<and> C (cells s'))"
  proof (cases "powered s1")
    case True
    with run m1 D(3) have k1: "k s1 = (st, s')" by (simp add: ee_check_def)
    from True D(3) have "R (cells s1)" by simp
    from contractD[OF k D(1) True this k1] D(2) show ?thesis
      by (auto simp: ee_frame_def)
  next
    case False
    show ?thesis
    proof (cases "st1 = status_code FLASH_COMPLETE")
      case True
      with run m1 have "k s1 = (st, s')" by (simp add: ee_check_def)
      from frozenD[OF fk D(1) False this] D False show ?thesis
        by (auto intro: ee_frame_trans)
    next
      case nok: False
      with run m1 have "s' = s1" by (auto simp: ee_check_def)
      with D False show ?thesis by auto
    qed
  qed
qed

lemma frozen_seq:
  assumes "frozen tab m" and "frozen tab k"
  shows "frozen tab (ee_check m k)"
  unfolding frozen_def
proof (intro allI impI)
  fix s :: "'a ee_scheme"
  assume s: "ee_ready tab s \<and> \<not> powered s"
  obtain st1 s1 where m1: "m s = (st1, s1)" by (cases "m s")
  obtain st2 s2 where k1: "k s1 = (st2, s2)" by (cases "k s1")
  from s have "ee_ready tab s" "\<not> powered s" by auto
  note D1 = frozenD[OF assms(1) this m1]
  note D2 = frozenD[OF assms(2) D1(1,3) k1]
  from D1 D2 m1 k1 show "let (st, s') = ee_check m k s in
     ee_ready tab s' \<and> ee_frame s s' \<and> \<not> powered s' \<and> cells s' = cells s"
    by (auto simp: ee_check_def intro: ee_frame_trans)
qed

subsection \<open>The two driver calls\<close>

lemma flash_apply_ee [simp]:
  "VirtAddVarTab (flash_apply u s) = VirtAddVarTab s"
  "ee.more (flash_apply u s) = ee.more s"
  by (simp_all add: flash_apply_def)

lemma set_next_plan: "set (next_plan p) \<subseteq> set p"
  by (cases p) auto

lemma flash_apply_contract:
  fixes s :: "'a ee_scheme"
  assumes "ee_ready tab s" and "powered s"
  shows "ee_ready tab (flash_apply u s) \<and> ee_frame s (flash_apply u s) \<and>
    (if powered (flash_apply u s) then cells (flash_apply u s) = u (cells s)
     else Supply_Fails \<in> set (plan s) \<and> cells (flash_apply u s) = cells s)"
proof -
  have "\<not> survives p \<Longrightarrow> Supply_Fails \<in> set p" for p by (cases p rule: survives.cases) auto
  with assms set_next_plan[of "plan s"] show ?thesis
    by (cases "survives (plan s)") (auto simp: ee_ready_def ee_frame_def, auto simp: flash_apply_def)
qed

lemma contract_program:
  assumes "c a = 0xFFFF \<or> d = 0" and "unat (of_nat a :: u32) = a"
  shows "contract tab ((=) c) (ee_program a d) ((=) (c(a := d))) ((=) c)"
proof (rule contractI)
  fix s :: "'a ee_scheme" and st s'
  assume s: "ee_ready tab s" "powered s" "c = cells s" and run: "ee_program a d s = (st, s')"
  from s assms have "FLASH_ProgramHalfWord (of_nat a) d s =
      (FLASH_COMPLETE, flash_apply (\<lambda>c. c(a := d)) s)"
    using ProgramHalfWord_calm[of s "of_nat a" d] by (simp add: ee_ready_def)
  with run have "st = status_code FLASH_COMPLETE" "s' = flash_apply (\<lambda>c. c(a := d)) s"
    by (auto simp: ee_program_def)
  with s flash_apply_contract[OF s(1,2), of "\<lambda>c. c(a := d)"]
  show "ee_ready tab s' \<and> ee_frame s s' \<and>
    (if powered s' then st = status_code FLASH_COMPLETE \<and> c(a := d) = cells s'
     else Supply_Fails \<in> set (plan s) \<and> c = cells s')"
    by (auto split: if_splits)
qed

lemma contract_erase:
  assumes "unat (of_nat a :: u32) = a"
  shows "contract tab ((=) c) (ee_erase a) ((=) (erase_cells a c)) ((=) c)"
proof (rule contractI)
  fix s :: "'a ee_scheme" and st s'
  assume s: "ee_ready tab s" "powered s" "c = cells s" and run: "ee_erase a s = (st, s')"
  let ?t = "s\<lparr>AR := of_nat a\<rparr>"
  from s assms have "FLASH_ErasePage (of_nat a) s =
      (FLASH_COMPLETE, flash_apply (erase_cells a) ?t)"
    using ErasePage_calm[of s "of_nat a"] by (simp add: ee_ready_def)
  with run have "st = status_code FLASH_COMPLETE" "s' = flash_apply (erase_cells a) ?t"
    by (auto simp: ee_erase_def)
  moreover from s have "ee_ready tab ?t" by (simp add: ee_ready_def)
  moreover have "ee_frame ?t s' \<Longrightarrow> ee_frame s s'" by (simp add: ee_frame_def)
  ultimately show "ee_ready tab s' \<and> ee_frame s s' \<and>
    (if powered s' then st = status_code FLASH_COMPLETE \<and> erase_cells a c = cells s'
     else Supply_Fails \<in> set (plan s) \<and> c = cells s')"
    using s flash_apply_contract[of tab ?t "erase_cells a"] by (auto split: if_splits)
qed

lemma frozen_program: "frozen tab (ee_program a d)"
  by (auto simp: frozen_def ee_ready_def ee_program_def ProgramHalfWord_off)

lemma frozen_erase: "frozen tab (ee_erase a)"
  by (auto simp: frozen_def ee_ready_def ee_erase_def ErasePage_off ee_frame_def)

lemma contract_DataVar:
  assumes "contract tab P m Q C"
  shows "contract tab P (\<lambda>s. m (s\<lparr>DataVar := d\<rparr>)) Q C"
proof (rule contractI)
  fix s st s'
  assume s: "ee_ready tab s" "powered s" "P (cells s)" and run: "m (s\<lparr>DataVar := d\<rparr>) = (st, s')"
  have "ee_ready tab (s\<lparr>DataVar := d\<rparr>)"
    using s(1) by (simp add: ee_ready_def flash_idle_def calm_def)
  from contractD[OF assms this _ _ run] s
  show "ee_ready tab s' \<and> ee_frame s s' \<and>
    (if powered s' then st = status_code FLASH_COMPLETE \<and> Q (cells s')
     else Supply_Fails \<in> set (plan s) \<and> C (cells s'))"
    by (simp add: ee_frame_def)
qed

lemma frozen_DataVar:
  assumes "frozen tab m"
  shows "frozen tab (\<lambda>s. m (s\<lparr>DataVar := d\<rparr>))"
  unfolding frozen_def
proof (intro allI impI)
  fix s :: "'a ee_scheme"
  assume s: "ee_ready tab s \<and> \<not> powered s"
  then have "ee_ready tab (s\<lparr>DataVar := d\<rparr>)"
    by (simp add: ee_ready_def flash_idle_def calm_def)
  moreover obtain st s' where "m (s\<lparr>DataVar := d\<rparr>) = (st, s')" by fastforce
  ultimately show "let (st, s') = m (s\<lparr>DataVar := d\<rparr>) in
     ee_ready tab s' \<and> ee_frame s s' \<and> \<not> powered s' \<and> cells s' = cells s"
    using frozenD[OF assms, of "s\<lparr>DataVar := d\<rparr>" st s'] s by (simp add: ee_frame_def)
qed

end
