(* ===== verification/Eeprom_Correct.thy ===== *)
theory Eeprom_Correct
  imports Eeprom_Contract
begin

text \<open>
  Correctness of the EEPROM operations. Abstractly the EEPROM is a map from virtual
  addresses to values (\<open>holds\<close>); a write updates the map, a transfer of a full page
  keeps it. What a loss of power can leave behind is a state from which \<open>EE_Init\<close>
  recovers the map before or after the interrupted write (\<open>recoverable\<close>).
\<close>

subsection \<open>States of the two pages\<close>

definition other :: "nat \<Rightarrow> nat" where
  "other p = 1 - p"

lemma other_page [simp]:
  "other 0 = Suc 0" "other (Suc 0) = 0" "other p < 2"
  "p < 2 \<Longrightarrow> other (other p) = p" "p \<noteq> other p" "other p \<noteq> p"
  by (cases p; auto simp: other_def)+

definition first_adr :: "(nat \<Rightarrow> u16) \<Rightarrow> nat \<Rightarrow> u16" where
  "first_adr c p = sadr c p 1"

definition hdr :: "(nat \<Rightarrow> u16) \<Rightarrow> nat \<Rightarrow> u16" where
  "hdr c p = sval c p 0"

text \<open>One page is valid with its first \<open>k\<close> slots in use, the other one is erased.\<close>

definition single :: "(nat \<Rightarrow> u16) \<Rightarrow> nat \<Rightarrow> nat \<Rightarrow> bool" where
  "single c p k \<longleftrightarrow> p < 2 \<and> hdr c p = VALID_PAGE \<and> used c p k \<and> 1 \<le> k \<and> used c (other p) 0"

definition holds :: "u16 list \<Rightarrow> (nat \<Rightarrow> u16) \<Rightarrow> (u16 \<Rightarrow> u16 option) \<Rightarrow> bool" where
  "holds tab c m \<longleftrightarrow> (\<exists>p k. single c p k \<and> (\<forall>v\<in>set tab. lookup c p v = m v))"

text \<open>
  Page \<open>p\<close> is valid, the other page receives the map \<open>T\<close> and has \<open>k\<close> slots in use. Its
  first variable may differ from what the old page says; every other one is taken over.
\<close>

definition agrees :: "(nat \<Rightarrow> u16) \<Rightarrow> nat \<Rightarrow> (u16 \<Rightarrow> u16 option) \<Rightarrow> u16 \<Rightarrow> bool" where
  "agrees c p T v \<longleftrightarrow>
     (if v = first_adr c (other p) then lookup c (other p) v = T v
      else T v = lookup c p v \<and> (lookup c (other p) v = None \<or> lookup c (other p) v = T v))"

definition carries :: "u16 list \<Rightarrow> nat \<Rightarrow> (u16 \<Rightarrow> u16 option) \<Rightarrow> nat \<Rightarrow> (nat \<Rightarrow> u16) \<Rightarrow> bool" where
  "carries tab p T k c \<longleftrightarrow>
     p < 2 \<and> hdr c p = VALID_PAGE \<and> hdr c (other p) = RECEIVE_DATA \<and>
     used c (other p) k \<and> 1 \<le> k \<and> (\<forall>v\<in>set tab. agrees c p T v)"

text \<open>The old page is erased, the receiving page is complete but not yet marked valid.\<close>

definition complete_at :: "u16 list \<Rightarrow> nat \<Rightarrow> (nat \<Rightarrow> u16) \<Rightarrow> (u16 \<Rightarrow> u16 option) \<Rightarrow> bool" where
  "complete_at tab q c T \<longleftrightarrow>
     q < 2 \<and> hdr c q = RECEIVE_DATA \<and> (\<exists>k. used c q k \<and> 1 \<le> k) \<and> used c (other q) 0 \<and>
     (\<forall>v\<in>set tab. lookup c q v = T v)"

lemma page_cases: "p < 2 \<longleftrightarrow> p = 0 \<or> p = (1::nat)"
  by auto

lemma hdr_used_0: "used c p 0 \<Longrightarrow> hdr c p = ERASED"
  by (auto simp: used_def blank_def hdr_def ERASED_def)

lemma find_single:
  assumes "single (cells s) p k"
  shows "EE_FindValidPage READ_FROM_VALID_PAGE s = of_nat p"
    and "EE_FindValidPage WRITE_IN_VALID_PAGE s = of_nat p"
  using assms hdr_used_0[of "cells s" "other p"]
  by (auto simp: single_def page_cases hdr_def EE_FindValidPage_def FindValidPage_cases ee_consts)

lemma find_carries:
  assumes "hdr (cells s) p = VALID_PAGE" and "hdr (cells s) (other p) = RECEIVE_DATA" and "p < 2"
  shows "EE_FindValidPage READ_FROM_VALID_PAGE s = of_nat p"
    and "EE_FindValidPage WRITE_IN_VALID_PAGE s = of_nat (other p)"
  using assms
  by (auto simp: page_cases hdr_def EE_FindValidPage_def FindValidPage_cases ee_consts)

subsection \<open>Writing one slot\<close>

abbreviation put :: "(nat \<Rightarrow> u16) \<Rightarrow> nat \<Rightarrow> nat \<Rightarrow> u16 \<Rightarrow> u16 \<Rightarrow> nat \<Rightarrow> u16" where
  "put c q k va d \<equiv> c(slot q k := d, Suc (Suc (slot q k)) := va)"

lemma contract_Verify:
  assumes find: "\<And>s :: 'a ee_scheme. cells s = c \<Longrightarrow> EE_FindValidPage WRITE_IN_VALID_PAGE s = of_nat q"
    and q: "q < 2" and k: "used c q k" "k < 512"
  shows "contract tab ((=) c) (EE_VerifyPageFullWriteVariable va d :: 'a ee_scheme \<Rightarrow> _)
    ((=) (put c q k va d)) (\<lambda>c'. c' = c \<or> c' = c(slot q k := d))"
proof (rule contract_cong)
  let ?wr = "ee_check (ee_program (slot q k) d) (ee_program (slot q k + 2) va)
    :: 'a ee_scheme \<Rightarrow> _"
  show "EE_VerifyPageFullWriteVariable va d s = ?wr s" if "c = cells s" for s :: "'a ee_scheme"
    using VerifyPageFullWriteVariable_slot[of s q k va d] find[of s] q k that by auto
  have free: "c (slot q k) = 0xFFFF" "c (slot q k + 2) = 0xFFFF"
    using k by (auto simp: used_def blank_def sval_def sadr_def)
  have one: "contract tab ((=) c) (ee_program (slot q k) d) ((=) (c(slot q k := d)))
      (\<lambda>c'. c' = c \<or> c' = c(slot q k := d))"
    by (rule contract_conseq[OF contract_program]) (use free q k in auto)
  have two: "contract tab ((=) (c(slot q k := d))) (ee_program (slot q k + 2) va)
      ((=) (put c q k va d)) (\<lambda>c'. c' = c \<or> c' = c(slot q k := d))"
    by (rule contract_conseq[OF contract_program]) (use free q k in auto)
  show "contract tab ((=) c) ?wr ((=) (put c q k va d)) (\<lambda>c'. c' = c \<or> c' = c(slot q k := d))"
    by (rule contract_seq[OF one two frozen_program])
qed

lemma frozen_Verify: "frozen tab (EE_VerifyPageFullWriteVariable va d :: 'a ee_scheme \<Rightarrow> _)"
proof (rule frozen_pointwise)
  fix s :: "'a ee_scheme"
  have "frozen tab (ee_check (ee_program a d) (ee_program (a + 2) va))" for a
    by (intro frozen_seq frozen_program)
  then show "\<exists>m'. frozen tab m' \<and> EE_VerifyPageFullWriteVariable va d s = m' s"
    unfolding EE_VerifyPageFullWriteVariable_def Let_def
    by (auto split: option.splits intro: frozen_return)
qed

text \<open>A valid single page takes the new value, or is full.\<close>

lemma single_put:
  assumes "single c p k" and "k < 512" and "va \<noteq> 0xFFFF"
  shows "single (put c p k va d) p (Suc k)"
    and "x \<noteq> 0xFFFF \<Longrightarrow> lookup (put c p k va d) p x = (if x = va then Some d else lookup c p x)"
proof -
  from assms(1) have "used c p k" "1 \<le> k" "p \<noteq> other p"
    by (auto simp: single_def page_cases)
  with assms show "single (put c p k va d) p (Suc k)"
    by (auto simp: single_def used_append hdr_def used_other_page)
  show "lookup (put c p k va d) p x = (if x = va then Some d else lookup c p x)" if "x \<noteq> 0xFFFF"
    using \<open>used c p k\<close> \<open>1 \<le> k\<close> assms(2,3) that by (rule lookup_append)
qed

lemma single_half:
  assumes "single c p k" and "k < 512"
  shows "\<exists>k'. single (c(slot p k := d)) p k'"
    and "x \<noteq> 0xFFFF \<Longrightarrow> lookup (c(slot p k := d)) p x = lookup c p x"
proof -
  from assms(1) have u: "used c p k" "1 \<le> k" "p \<noteq> other p"
    by (auto simp: single_def page_cases)
  have "single (c(slot p k := d)) p (if d = 0xFFFF then k else Suc k)"
    using assms u used_half[OF u(1) assms(2), of d]
    by (auto simp: single_def hdr_def used_other_page)
  then show "\<exists>k'. single (c(slot p k := d)) p k'" by blast
  show "lookup (c(slot p k := d)) p x = lookup c p x" if "x \<noteq> 0xFFFF"
    using u(1) assms(2) that by (rule lookup_half)
qed

subsection \<open>Taking over one variable\<close>

lemma carries_put:
  assumes c: "carries tab p T k c" and k: "k < 512" and tab: "0xFFFF \<notin> set tab"
    and v: "v \<in> set tab" "T v = Some d"
  shows "carries tab p T (Suc k) (put c (other p) k v d)"
    and "\<forall>w\<in>set tab. lookup (put c (other p) k v d) (other p) w =
      (if w = v then Some d else lookup c (other p) w)"
    and "first_adr (put c (other p) k v d) (other p) = (if k = 1 then v else first_adr c (other p))"
proof -
  let ?q = "other p" and ?c = "put c (other p) k v d"
  have u: "used c ?q k" "1 \<le> k" and p: "p < 2" using c by (auto simp: carries_def)
  have vne: "v \<noteq> 0xFFFF" using tab v(1) by auto
  have new: "lookup ?c ?q w = (if w = v then Some d else lookup c ?q w)" if "w \<in> set tab" for w
    using tab that by (intro lookup_append[OF u k vne]) auto
  then show "\<forall>w\<in>set tab. lookup ?c ?q w = (if w = v then Some d else lookup c ?q w)" by blast
  have old: "lookup ?c p w = lookup c p w" for w
    using k by (simp add: lookup_other_page)
  show one: "first_adr ?c ?q = (if k = 1 then v else first_adr c ?q)"
    using k by (auto simp: first_adr_def)
  have first: "first_adr c ?q = 0xFFFF" if "k = 1"
    using u that by (auto simp: used_def blank_def first_adr_def)
  have "agrees ?c p T w" if w: "w \<in> set tab" for w
  proof -
    have "w \<noteq> 0xFFFF" and "agrees c p T w" and "agrees c p T v"
      using tab c w v by (auto simp: carries_def)
    with first show ?thesis
      unfolding agrees_def new[OF w] old one using v(2) by auto
  qed
  moreover have "used ?c ?q (Suc k)" using u(1) k vne by (rule used_append)
  moreover have "hdr ?c p = hdr c p" "hdr ?c ?q = hdr c ?q" using k u(2) by (auto simp: hdr_def)
  ultimately show "carries tab p T (Suc k) ?c"
    using c by (simp add: carries_def)
qed

lemma carries_half:
  assumes c: "carries tab p T k c" and k: "k < 512" and tab: "0xFFFF \<notin> set tab"
  shows "\<exists>k'\<le>Suc k. carries tab p T k' (c(slot (other p) k := d))"
proof -
  let ?q = "other p" and ?c = "c(slot (other p) k := d)"
  have u: "used c ?q k" "1 \<le> k" using c by (auto simp: carries_def)
  have new: "lookup ?c ?q w = lookup c ?q w" if "w \<in> set tab" for w
    using tab that by (intro lookup_half[OF u(1) k]) auto
  have old: "lookup ?c p w = lookup c p w" for w
    using k by (simp add: lookup_other_page)
  have one: "first_adr ?c ?q = first_adr c ?q" by (simp add: first_adr_def)
  have "agrees ?c p T w" if w: "w \<in> set tab" for w
  proof -
    from c w have "agrees c p T w" by (simp add: carries_def)
    then show ?thesis unfolding agrees_def new[OF w] old one .
  qed
  moreover have "hdr ?c p = hdr c p" "hdr ?c ?q = hdr c ?q" using k u(2) by (auto simp: hdr_def)
  moreover obtain k' where "used ?c ?q k'" "k' \<le> Suc k" "1 \<le> k'"
    using used_half[OF u(1) k, of d] u(2) by (cases "d = 0xFFFF") auto
  ultimately have "carries tab p T k' ?c"
    using c unfolding carries_def by metis
  with \<open>k' \<le> Suc k\<close> show ?thesis by blast
qed

definition moved ::
    "u16 list \<Rightarrow> nat \<Rightarrow> (u16 \<Rightarrow> u16 option) \<Rightarrow> nat \<Rightarrow> u16 set \<Rightarrow> u16 \<Rightarrow> (nat \<Rightarrow> u16) \<Rightarrow> bool" where
  "moved tab p T k D a c \<longleftrightarrow>
     carries tab p T k c \<and> first_adr c (other p) = a \<and>
     D \<subseteq> set tab \<and> (\<forall>w\<in>D. lookup c (other p) w = T w)"

definition partial :: "u16 list \<Rightarrow> nat \<Rightarrow> (u16 \<Rightarrow> u16 option) \<Rightarrow> nat \<Rightarrow> (nat \<Rightarrow> u16) \<Rightarrow> bool" where
  "partial tab p T n c \<longleftrightarrow> (\<exists>k\<le>n. carries tab p T k c)"

lemma moved_partial: "moved tab p T k D a c \<Longrightarrow> k \<le> n \<Longrightarrow> partial tab p T n c"
  by (auto simp: moved_def partial_def)

lemma moved_put:
  assumes c: "moved tab p T k D a c" and k: "k < 512" and tab: "0xFFFF \<notin> set tab"
    and v: "v \<in> set tab" "T v = Some d"
  shows "moved tab p T (Suc k) (insert v D) (if k = 1 then v else a) (put c (other p) k v d)"
proof -
  have car: "carries tab p T k c" using c by (simp add: moved_def)
  note P = carries_put[OF car k tab v]
  have "\<forall>w\<in>insert v D. lookup (put c (other p) k v d) (other p) w = T w"
    using c v P(2) by (auto simp: moved_def subset_iff simp del: fun_upd_apply)
  with P(1,3) c v(1) show ?thesis
    by (auto simp: moved_def simp del: fun_upd_apply)
qed

lemma contract_transfer_var:
  assumes v: "v \<in> set tab" "a \<noteq> v" and k: "k < 512" and tab: "0xFFFF \<notin> set tab"
  shows "contract tab (moved tab p T k D a) (ee_transfer_var v)
    (\<lambda>c. \<exists>k'\<le>Suc k. \<exists>b. moved tab p T k' (insert v D) b c \<and> (k \<le> k' \<and> (2 \<le> k \<longrightarrow> b = a)))
    (partial tab p T (Suc k))" (is "contract _ _ ?m ?Q ?C")
proof (rule contract_pointwise)
  fix c assume c: "moved tab p T k D a c"
  then have car: "carries tab p T k c" by (simp add: moved_def)
  then have p: "p < 2" "hdr c p = VALID_PAGE" "hdr c (other p) = RECEIVE_DATA"
    and u: "used c (other p) k" "1 \<le> k" by (auto simp: carries_def)
  have Tv: "T v = lookup c p v" "lookup c (other p) v = None \<or> lookup c (other p) v = T v"
    using c car v by (auto simp: moved_def carries_def agrees_def)
  have read: "EE_ReadVariable v s =
      (case lookup c p v of Some d \<Rightarrow> (0, Some d) | None \<Rightarrow> (1, None))"
    if "cells s = c" for s :: "'a ee_scheme"
    using ReadVariable_lookup[of s p v] find_carries(1)[of s p] that p by simp
  show "contract tab ((=) c) ?m ?Q ?C"
  proof (cases "lookup c p v")
    case None
    have Qc: "?Q c"
      using c v Tv None by (intro exI[of _ k] exI[of _ a]) (auto simp: moved_def)
    show ?thesis
    proof (rule contract_cong)
      show "ee_transfer_var v s = (status_code FLASH_COMPLETE, s)" if "c = cells s"
        for s :: "'a ee_scheme"
        using read[of s] that None by (simp add: ee_transfer_var_def)
      show "contract tab ((=) c) (\<lambda>s :: 'a ee_scheme. (status_code FLASH_COMPLETE, s)) ?Q ?C"
        by (rule contract_conseq[OF contract_return]) (use Qc in auto)
    qed
  next
    case (Some d)
    let ?wr = "EE_VerifyPageFullWriteVariable v d :: 'a ee_scheme \<Rightarrow> _"
    have Qc: "?Q (put c (other p) k v d)"
      using moved_put[OF c k tab v(1), of d] Tv Some
      by (intro exI[of _ "Suc k"] exI[of _ "if k = 1 then v else a"]) auto
    have Cc: "?C c" "?C (c(slot (other p) k := d))"
      using moved_partial[OF c] carries_half[OF car k tab] by (auto simp: partial_def)
    show ?thesis
    proof (rule contract_cong)
      show "ee_transfer_var v s = (\<lambda>s. ?wr (s\<lparr>DataVar := d\<rparr>)) s" if "c = cells s"
        for s :: "'a ee_scheme"
        using read[of s] that Some by (simp add: ee_transfer_var_def)
      have "contract tab ((=) c) ?wr
          ((=) (put c (other p) k v d)) (\<lambda>c'. c' = c \<or> c' = c(slot (other p) k := d))"
        by (rule contract_Verify) (use find_carries(2) p u k in auto)
      then have "contract tab ((=) c) ?wr ?Q ?C"
        by (rule contract_conseq) (use Qc Cc in auto)
      then show "contract tab ((=) c) (\<lambda>s. ?wr (s\<lparr>DataVar := d\<rparr>)) ?Q ?C"
        by (rule contract_DataVar)
    qed
  qed
qed

lemma frozen_transfer_var: "frozen tab (ee_transfer_var v :: 'a ee_scheme \<Rightarrow> _)"
proof (rule frozen_pointwise)
  fix s :: "'a ee_scheme"
  obtain r data where read: "EE_ReadVariable v s = (r, data)" by fastforce
  let ?m = "\<lambda>s :: 'a ee_scheme. if r \<noteq> 1 then case data of None \<Rightarrow> EE_VerifyPageFullWriteVariable v (DataVar s) s
      | Some d \<Rightarrow> EE_VerifyPageFullWriteVariable v d (s\<lparr>DataVar := d\<rparr>)
    else case data of None \<Rightarrow> (status_code FLASH_COMPLETE, s)
      | Some d \<Rightarrow> (status_code FLASH_COMPLETE, s\<lparr>DataVar := d\<rparr>)"
  have "frozen tab (\<lambda>s :: 'a ee_scheme. EE_VerifyPageFullWriteVariable v (DataVar s) s)"
    by (rule frozen_pointwise) (use frozen_Verify in blast)
  then have "frozen tab ?m"
    using frozen_DataVar[OF frozen_return] frozen_DataVar[OF frozen_Verify]
    by (cases data; cases "r = 1") (auto intro: frozen_return)
  moreover have "ee_transfer_var v s = ?m s"
    by (auto simp: ee_transfer_var_def read split: option.splits)
  ultimately show "\<exists>m'. frozen tab m' \<and> ee_transfer_var v s = m' s" by blast
qed

subsection \<open>The two transfer loops\<close>

text \<open>All variables of \<open>tab\<close> are on the receiving page, which has at most \<open>n\<close> slots in use.\<close>

definition transferred :: "u16 list \<Rightarrow> nat \<Rightarrow> (u16 \<Rightarrow> u16 option) \<Rightarrow> nat \<Rightarrow> u16 set \<Rightarrow> (nat \<Rightarrow> u16) \<Rightarrow> bool" where
  "transferred tab p T n D c \<longleftrightarrow> (\<exists>k a. k \<le> n \<and> moved tab p T k D a c)"

lemma partial_mono: "partial tab p T n c \<Longrightarrow> n \<le> n' \<Longrightarrow> partial tab p T n' c"
  by (auto simp: partial_def intro: le_trans)

lemma transferred_mono: "transferred tab p T n D c \<Longrightarrow> n \<le> n' \<Longrightarrow> transferred tab p T n' D c"
  by (auto simp: transferred_def intro: le_trans)

lemma moved_first:
  assumes "moved tab p T k D a c" and "a \<in> set tab"
  shows "moved tab p T k (insert a D) a c"
proof -
  from assms have "agrees c p T a" by (auto simp: moved_def carries_def)
  with assms show ?thesis by (auto simp: moved_def agrees_def)
qed

lemma frozen_transfer_loop: "frozen tab (ee_transfer_loop a vs :: 'a ee_scheme \<Rightarrow> _)"
proof (induction vs)
  case Nil
  show ?case by (rule frozen_pointwise) (auto intro: frozen_return)
next
  case (Cons v vs)
  then have "frozen tab (ee_check (ee_transfer_var v) (ee_transfer_loop a vs :: 'a ee_scheme \<Rightarrow> _))"
    by (intro frozen_seq frozen_transfer_var)
  with Cons show ?case
    by (intro frozen_pointwise) auto
qed

lemma frozen_init_loop: "frozen tab (ee_init_loop base n x vs :: 'a ee_scheme \<Rightarrow> _)"
proof (induction vs arbitrary: n x)
  case Nil
  show ?case by (rule frozen_pointwise) (auto intro: frozen_return)
next
  case (Cons v vs)
  have "frozen tab (ee_check (ee_transfer_var v) (ee_init_loop base n x vs :: 'a ee_scheme \<Rightarrow> _))"
    for n x by (intro frozen_seq frozen_transfer_var Cons.IH)
  with Cons show ?case
    by (intro frozen_pointwise) (simp add: Let_def, blast)
qed

lemma contract_transfer_loop:
  assumes "0xFFFF \<notin> set tab"
  shows "set vs \<subseteq> set tab \<Longrightarrow> 2 \<le> k \<Longrightarrow> k + length vs \<le> 512 \<Longrightarrow>
    contract tab (moved tab p T k D a) (ee_transfer_loop a vs :: 'a ee_scheme \<Rightarrow> _)
      (transferred tab p T (k + length vs) (D \<union> set vs)) (partial tab p T (k + length vs))"
proof (induction vs arbitrary: k D)
  case Nil
  show ?case
  proof (rule contract_cong[of tab _ _ "\<lambda>s. (status_code FLASH_COMPLETE, s)"])
    show "contract tab (moved tab p T k D a) (\<lambda>s :: 'a ee_scheme. (status_code FLASH_COMPLETE, s))
        (transferred tab p T (k + length []) (D \<union> set [])) (partial tab p T (k + length []))"
      by (rule contract_conseq[OF contract_return]) (auto simp: transferred_def)
  qed simp
next
  case (Cons v vs)
  let ?loop = "ee_transfer_loop a vs :: 'a ee_scheme \<Rightarrow> _"
  let ?Q = "transferred tab p T (k + length (v # vs)) (D \<union> set (v # vs))"
  let ?C = "partial tab p T (k + length (v # vs))"
  show ?case
  proof (cases "v = a")
    case True
    with Cons.prems have "contract tab (moved tab p T k (insert v D) a) ?loop ?Q ?C"
      by (intro contract_conseq[OF Cons.IH]) (auto intro: transferred_mono partial_mono)
    then have "contract tab (moved tab p T k D a) ?loop ?Q ?C"
      by (rule contract_conseq) (use True Cons.prems moved_first in auto)
    with True show ?thesis by (simp add: ee_transfer_loop.simps(2)[abs_def])
  next
    case False
    have "contract tab (moved tab p T k D a)
        (ee_check (ee_transfer_var v) ?loop) ?Q ?C"
    proof (rule contract_seq)
      let ?R = "\<lambda>c. \<exists>k'\<le>Suc k. \<exists>b. moved tab p T k' (insert v D) b c \<and> (k \<le> k' \<and> (2 \<le> k \<longrightarrow> b = a))"
      show "contract tab (moved tab p T k D a) (ee_transfer_var v) ?R ?C"
        using False Cons.prems assms
        by (intro contract_conseq[OF contract_transfer_var[of v tab a k p T D]]) (auto intro: partial_mono)
      show "contract tab ?R ?loop ?Q ?C"
      proof (rule contract_cases)
        fix c assume "?R c"
        then obtain k' where k': "k' \<le> Suc k" "k \<le> k'" and m: "moved tab p T k' (insert v D) a c"
          using Cons.prems(2) by auto
        from k' Cons.prems have "contract tab (moved tab p T k' (insert v D) a) ?loop ?Q ?C"
          by (intro contract_conseq[OF Cons.IH]) (auto intro: transferred_mono partial_mono)
        with m show "\<exists>P'. P' c \<and> contract tab P' ?loop ?Q ?C" by blast
      qed
      show "frozen tab ?loop"
        by (rule frozen_transfer_loop)
    qed
    with False show ?thesis by (simp add: ee_transfer_loop.simps(2)[abs_def])
  qed
qed

lemma contract_init_loop:
  assumes "0xFFFF \<notin> set tab"
  shows "set vs \<subseteq> set tab \<Longrightarrow> 1 \<le> k \<Longrightarrow> k + length vs \<le> 512 \<Longrightarrow> x < int n \<Longrightarrow>
    contract tab (moved tab p T k D a) (ee_init_loop (slot (other p) 0) n x vs :: 'a ee_scheme \<Rightarrow> _)
      (transferred tab p T (k + length vs) (D \<union> set vs)) (partial tab p T (k + length vs))"
proof (induction vs arbitrary: k D a n x)
  case Nil
  show ?case
  proof (rule contract_cong[of tab _ _ "\<lambda>s. (status_code FLASH_COMPLETE, s)"])
    show "contract tab (moved tab p T k D a) (\<lambda>s :: 'a ee_scheme. (status_code FLASH_COMPLETE, s))
        (transferred tab p T (k + length []) (D \<union> set [])) (partial tab p T (k + length []))"
      by (rule contract_conseq[OF contract_return]) (auto simp: transferred_def)
  qed simp
next
  case (Cons v vs)
  let ?Q = "transferred tab p T (k + length (v # vs)) (D \<union> set (v # vs))"
  let ?C = "partial tab p T (k + length (v # vs))"
  let ?loop = "\<lambda>x. ee_init_loop (slot (other p) 0) (Suc n) x vs :: 'a ee_scheme \<Rightarrow> _"
  have adr: "cells s (slot (other p) 0 + 6) = first_adr (cells s) (other p)" for s :: "'a ee_scheme"
    by (simp add: first_adr_def sadr_def slot_def add.commute[of _ 6])
  show ?case
  proof (cases "v = a")
    case True
    with Cons.prems have "contract tab (moved tab p T k (insert v D) a) (?loop (int n)) ?Q ?C"
      by (intro contract_conseq[OF Cons.IH]) (auto intro: transferred_mono partial_mono)
    then have "contract tab (moved tab p T k D a) (?loop (int n)) ?Q ?C"
      by (rule contract_conseq) (use True Cons.prems moved_first in auto)
    then show ?thesis
      by (rule contract_cong[rotated]) (use True adr in \<open>auto simp: moved_def Let_def\<close>)
  next
    case False
    have "contract tab (moved tab p T k D a) (ee_check (ee_transfer_var v) (?loop x)) ?Q ?C"
    proof (rule contract_seq)
      let ?R = "\<lambda>c. \<exists>k'\<le>Suc k. \<exists>b. moved tab p T k' (insert v D) b c \<and> (k \<le> k' \<and> (2 \<le> k \<longrightarrow> b = a))"
      show "contract tab (moved tab p T k D a) (ee_transfer_var v) ?R ?C"
        using False Cons.prems assms
        by (intro contract_conseq[OF contract_transfer_var[of v tab a k p T D]])
          (auto intro: partial_mono)
      show "contract tab ?R (?loop x) ?Q ?C"
      proof (rule contract_cases)
        fix c assume "?R c"
        then obtain k' b where k': "k' \<le> Suc k" "k \<le> k'" and m: "moved tab p T k' (insert v D) b c"
          by auto
        from k' Cons.prems have "contract tab (moved tab p T k' (insert v D) b) (?loop x) ?Q ?C"
          by (intro contract_conseq[OF Cons.IH]) (auto intro: transferred_mono partial_mono)
        with m show "\<exists>P'. P' c \<and> contract tab P' (?loop x) ?Q ?C" by blast
      qed
      show "frozen tab (?loop x)" by (rule frozen_init_loop)
    qed
    then show ?thesis
      by (rule contract_cong[rotated])
        (use False adr Cons.prems(4) in \<open>auto simp: moved_def Let_def\<close>)
  qed
qed

end
