(* ===== verification/Eeprom_Power.thy ===== *)
theory Eeprom_Power
  imports Eeprom_Correct
begin

text \<open>
  The contracts of the operations eeprom.h exports, and their consequences: reads after
  writes, page transfers, and what \<open>EE_Init\<close> recovers after the supply failed at an
  arbitrary point of an earlier operation.
\<close>

definition wf_tab :: "u16 list \<Rightarrow> bool" where
  "wf_tab tab \<longleftrightarrow> length tab = NB_OF_VAR \<and> 0xFFFF \<notin> set tab"

text \<open>
  \<open>recoverable tab n c T\<close>: the cells determine the map \<open>T\<close>, either directly or after
  \<open>EE_Init\<close> has finished a transfer into a page with at most \<open>n\<close> slots in use.
\<close>

definition recoverable :: "u16 list \<Rightarrow> nat \<Rightarrow> (nat \<Rightarrow> u16) \<Rightarrow> (u16 \<Rightarrow> u16 option) \<Rightarrow> bool" where
  "recoverable tab n c T \<longleftrightarrow>
     holds tab c T \<or> (\<exists>q. complete_at tab q c T) \<or> (\<exists>p. partial tab p T n c)"

lemma recoverableI:
  "holds tab c T \<Longrightarrow> recoverable tab n c T"
  "complete_at tab q c T \<Longrightarrow> recoverable tab n c T"
  "partial tab p T n c \<Longrightarrow> recoverable tab n c T"
  by (auto simp: recoverable_def)

lemma unat_slot0 [simp]: "p < 2 \<Longrightarrow> unat (of_nat (slot p 0) :: u32) = slot p 0"
  by simp

subsection \<open>The steps of a page transfer\<close>

lemma carries_start:
  assumes "single c p k" and "0xFFFF \<notin> set tab" and "\<forall>v\<in>set tab. lookup c p v = m v"
  shows "carries tab p m 1 (c(slot (other p) 0 := RECEIVE_DATA))"
proof -
  let ?q = "other p" and ?c = "c(slot (other p) 0 := RECEIVE_DATA)"
  from assms(1) have p: "p < 2" "hdr c p = VALID_PAGE" and q0: "used c ?q 0"
    by (auto simp: single_def)
  have uq: "used ?c ?q 1"
    using q0 by (rule used_first_header) (simp add: RECEIVE_DATA_def)
  then have fa: "first_adr ?c ?q = 0xFFFF"
    by (auto simp: first_adr_def used_def blank_def)
  have "agrees ?c p m v" if v: "v \<in> set tab" for v
  proof -
    have "v \<noteq> 0xFFFF" using v assms(2) by auto
    then have "lookup ?c ?q v = None" by (rule used_1_lookup[OF uq])
    with \<open>v \<noteq> 0xFFFF\<close> v assms(3) fa show ?thesis by (simp add: agrees_def lookup_header)
  qed
  with p uq show ?thesis by (simp add: carries_def hdr_def)
qed

lemma moved_new:
  assumes c: "carries tab p m 1 c" and tab: "0xFFFF \<notin> set tab" and va: "va \<in> set tab"
    and m: "\<forall>v\<in>set tab. lookup c p v = m v"
  shows "moved tab p (m(va \<mapsto> d)) 2 {va} va (put c (other p) 1 va d)"
proof -
  let ?q = "other p" and ?c = "put c (other p) 1 va d"
  from c have p: "p < 2" and u: "used c ?q 1" by (auto simp: carries_def)
  have "va \<noteq> 0xFFFF" using tab va by auto
  have look: "lookup ?c ?q w = (if w = va then Some d else None)" if "w \<in> set tab" for w
  proof -
    have "w \<noteq> 0xFFFF" using that tab by auto
    with \<open>va \<noteq> 0xFFFF\<close> show ?thesis
      using lookup_append[OF u order_refl, of va w d] used_1_lookup[OF u, of w] by simp
  qed
  have old: "lookup ?c p w = lookup c p w" for w by (simp add: lookup_other_page)
  have fa: "first_adr ?c ?q = va" by (simp add: first_adr_def)
  have "agrees ?c p (m(va \<mapsto> d)) w" if w: "w \<in> set tab" for w
    using w m unfolding agrees_def fa look[OF w] old by simp
  moreover have "used ?c ?q 2" using used_append[OF u _ \<open>va \<noteq> 0xFFFF\<close>, of d]
    by (simp add: numeral_2_eq_2)
  moreover have "hdr ?c p = hdr c p" "hdr ?c ?q = hdr c ?q" by (auto simp: hdr_def)
  ultimately have "carries tab p (m(va \<mapsto> d)) 2 ?c"
    using c by (simp add: carries_def)
  with va fa look[OF va] show ?thesis by (simp add: moved_def)
qed

lemma transferred_facts:
  assumes "transferred tab p T n D c" and "set tab \<subseteq> D"
  shows "partial tab p T n c"
    and "complete_at tab (other p) (erase_cells (slot p 0) c) T"
    and "hdr (c(slot (other p) 0 := VALID_PAGE)) p = VALID_PAGE"
    and "hdr (c(slot (other p) 0 := VALID_PAGE)) (other p) = VALID_PAGE"
    and "holds tab (erase_cells (slot p 0) (c(slot (other p) 0 := VALID_PAGE))) T"
proof -
  let ?q = "other p"
  from assms obtain k a where k: "k \<le> n" and car: "carries tab p T k c"
    and look: "\<forall>w\<in>set tab. lookup c ?q w = T w"
    by (auto simp: transferred_def moved_def)
  then show "partial tab p T n c" by (auto simp: partial_def)
  from car have p: "p < 2" "hdr c p = VALID_PAGE" "hdr c ?q = RECEIVE_DATA"
    and u: "used c ?q k" "1 \<le> k" by (auto simp: carries_def)
  show "complete_at tab ?q (erase_cells (slot p 0) c) T"
    using p u look used_erased[of p c]
    by (auto simp: complete_at_def erase_other_page hdr_def)
  show "hdr (c(slot ?q 0 := VALID_PAGE)) p = VALID_PAGE"
    using p by (simp add: hdr_def)
  show "hdr (c(slot ?q 0 := VALID_PAGE)) ?q = VALID_PAGE"
    by (simp add: hdr_def)
  have "used (c(slot ?q 0 := VALID_PAGE)) ?q k"
    using u by (rule used_header) (simp add: VALID_PAGE_def)
  then show "holds tab (erase_cells (slot p 0) (c(slot ?q 0 := VALID_PAGE))) T"
    unfolding holds_def single_def
    using p u look used_erased
    by (intro exI[of _ ?q] exI[of _ k]) (simp add: erase_other_page hdr_def lookup_header)
qed

lemma complete_marked:
  assumes "complete_at tab q c T"
  shows "holds tab (c(slot q 0 := VALID_PAGE)) T"
proof -
  from assms obtain k where q: "q < 2" "hdr c q = RECEIVE_DATA" "used c q k" "1 \<le> k"
      "used c (other q) 0" and look: "\<forall>v\<in>set tab. lookup c q v = T v"
    by (auto simp: complete_at_def)
  have "used (c(slot q 0 := VALID_PAGE)) q k"
    using q(3,4) by (rule used_header) (simp add: VALID_PAGE_def)
  then show ?thesis
    unfolding holds_def single_def
    using q look
    by (intro exI[of _ q] exI[of _ k]) (simp add: lookup_header used_other_page hdr_def)
qed

subsection \<open>The contract of a page transfer\<close>

lemma frozen_EE [intro, simp]:
  "frozen tab (ee_program a d)" "frozen tab (ee_erase a)"
  "frozen tab (EE_VerifyPageFullWriteVariable va d)"
  "frozen tab (ee_transfer_loop va vs)" "frozen tab (ee_init_loop b n x vs)"
  "frozen tab m \<Longrightarrow> frozen tab k \<Longrightarrow> frozen tab (ee_check m k)"
  by (rule frozen_program frozen_erase frozen_Verify frozen_transfer_loop frozen_init_loop
      frozen_seq; assumption?)+

lemma contract_mark:
  assumes "p < 2" and "\<And>c. P c \<Longrightarrow> d = 0 \<or> c (slot p 0) = 0xFFFF"
    and "\<And>c. P c \<Longrightarrow> Q (c(slot p 0 := d))" and "\<And>c. P c \<Longrightarrow> C c"
  shows "contract tab P (ee_program (slot p 0) d) Q C"
proof (rule contract_pointwise)
  fix c assume c: "P c"
  have "contract tab ((=) c) (ee_program (slot p 0) d) ((=) (c(slot p 0 := d))) ((=) c)"
    by (rule contract_program) (use assms(1,2) c in auto)
  then show "contract tab ((=) c) (ee_program (slot p 0) d) Q C"
    by (rule contract_conseq) (use assms(3,4) c in auto)
qed

lemma contract_clear:
  assumes "p < 2" and "\<And>c. P c \<Longrightarrow> Q (erase_cells (slot p 0) c)" and "\<And>c. P c \<Longrightarrow> C c"
  shows "contract tab P (ee_erase (slot p 0)) Q C"
proof (rule contract_pointwise)
  fix c assume c: "P c"
  have "contract tab ((=) c) (ee_erase (slot p 0)) ((=) (erase_cells (slot p 0) c)) ((=) c)"
    by (rule contract_erase) (use assms(1) in auto)
  then show "contract tab ((=) c) (ee_erase (slot p 0)) Q C"
    by (rule contract_conseq) (use assms(2,3) c in auto)
qed

lemma recoverable_mono: "recoverable tab n c T \<Longrightarrow> n \<le> n' \<Longrightarrow> recoverable tab n' c T"
  by (auto simp: recoverable_def intro: partial_mono)

definition before_or_after ::
    "u16 list \<Rightarrow> nat \<Rightarrow> (u16 \<Rightarrow> u16 option) \<Rightarrow> u16 \<Rightarrow> u16 \<Rightarrow> (nat \<Rightarrow> u16) \<Rightarrow> bool" where
  "before_or_after tab n m va d c \<longleftrightarrow>
     recoverable tab n c m \<or> recoverable tab n c (m(va \<mapsto> d))"

lemma contract_transfer:
  assumes tab: "wf_tab tab" and va: "va \<in> set tab" and c: "single c p k"
    and m: "\<forall>v\<in>set tab. lookup c p v = m v"
  shows "contract tab ((=) c)
    (ee_check (ee_program (slot (other p) 0) RECEIVE_DATA)
    (ee_check (EE_VerifyPageFullWriteVariable va d)
    (ee_check (ee_transfer_loop va tab)
    (ee_check (ee_erase (slot p 0))
    (ee_program (slot (other p) 0) VALID_PAGE)))) :: 'a ee_scheme \<Rightarrow> _)
    (\<lambda>c'. holds tab c' (m(va \<mapsto> d))) (before_or_after tab (2 + length tab) m va d)"
    (is "contract _ _ _ ?Q ?C")
proof -
  let ?q = "other p" and ?T = "m(va \<mapsto> d)" and ?n = "2 + length tab"
  let ?c1 = "c(slot (other p) 0 := RECEIVE_DATA)"
  have ff: "0xFFFF \<notin> set tab" and len: "length tab = 160"
    using tab by (auto simp: wf_tab_def NB_OF_VAR_def)
  have p: "p < 2" and q0: "used c ?q 0" using c by (auto simp: single_def)
  have old: "holds tab c m" using c m by (auto simp: holds_def)
  have c1: "carries tab p m 1 ?c1" by (rule carries_start[OF c ff m])
  have m1: "\<forall>v\<in>set tab. lookup ?c1 p v = m v" using m by (simp add: lookup_header)
  have u1: "used ?c1 ?q 1" and h1: "hdr ?c1 p = VALID_PAGE" "hdr ?c1 ?q = RECEIVE_DATA"
    using c1 by (auto simp: carries_def)
  have start: "contract tab ((=) c) (ee_program (slot ?q 0) RECEIVE_DATA :: 'a ee_scheme \<Rightarrow> _)
      ((=) ?c1) ?C"
    by (rule contract_mark)
      (use q0 old in \<open>auto simp: used_def blank_def sval_def before_or_after_def intro: recoverableI\<close>)
  have find: "EE_FindValidPage WRITE_IN_VALID_PAGE s = of_nat ?q" if "cells s = ?c1"
    for s :: "'a ee_scheme"
    by (rule find_carries(2)) (use that p h1 in simp_all)
  have first: "contract tab ((=) ?c1) (EE_VerifyPageFullWriteVariable va d :: 'a ee_scheme \<Rightarrow> _)
      (moved tab p ?T 2 {va} va) ?C"
  proof (rule contract_conseq)
    show "contract tab ((=) ?c1) (EE_VerifyPageFullWriteVariable va d :: 'a ee_scheme \<Rightarrow> _)
        ((=) (put ?c1 ?q 1 va d)) (\<lambda>c'. c' = ?c1 \<or> c' = ?c1(slot ?q 1 := d))"
      by (rule contract_Verify[OF find]) (use u1 in auto)
    show "put ?c1 ?q 1 va d = c' \<Longrightarrow> moved tab p ?T 2 {va} va c'" for c'
      using moved_new[OF c1 ff va m1, of d] by blast
    have "partial tab p m ?n ?c1" using c1 by (auto simp: partial_def)
    moreover have "partial tab p m ?n (?c1(slot ?q 1 := d))"
      using carries_half[OF c1 _ ff, of d] by (auto simp: partial_def intro: le_trans)
    ultimately show "c' = ?c1 \<or> c' = ?c1(slot ?q 1 := d) \<Longrightarrow> ?C c'" for c'
      by (auto simp: before_or_after_def intro: recoverableI)
  qed auto
  have loop: "contract tab (moved tab p ?T 2 {va} va) (ee_transfer_loop va tab :: 'a ee_scheme \<Rightarrow> _)
      (transferred tab p ?T ?n ({va} \<union> set tab)) ?C"
    by (rule contract_conseq[OF contract_transfer_loop[OF ff]])
      (use len in \<open>auto simp: before_or_after_def intro: recoverableI\<close>)
  have erase: "contract tab (transferred tab p ?T ?n ({va} \<union> set tab))
      (ee_erase (slot p 0) :: 'a ee_scheme \<Rightarrow> _) (\<lambda>c'. complete_at tab ?q c' ?T) ?C"
    by (rule contract_clear[OF p])
      (auto simp: before_or_after_def dest: transferred_facts(1,2) intro: recoverableI)
  have mark: "contract tab (\<lambda>c'. complete_at tab ?q c' ?T)
      (ee_program (slot ?q 0) VALID_PAGE :: 'a ee_scheme \<Rightarrow> _) ?Q ?C"
    by (rule contract_mark)
      (auto simp: VALID_PAGE_def before_or_after_def intro: recoverableI
        dest: complete_marked[unfolded VALID_PAGE_def])
  show ?thesis
    by (rule contract_seq[OF start], rule contract_seq[OF first], rule contract_seq[OF loop],
        rule contract_seq[OF erase mark]) auto
qed

subsection \<open>Contracts of the exported operations\<close>

lemma contract_PageTransfer:
  assumes "wf_tab tab" and "va \<in> set tab" and c: "single c p k"
    and "\<forall>v\<in>set tab. lookup c p v = m v"
  shows "contract tab ((=) c) (EE_PageTransfer va d :: 'a ee_scheme \<Rightarrow> _)
    (\<lambda>c'. holds tab c' (m(va \<mapsto> d))) (before_or_after tab (2 + length tab) m va d)"
proof (rule contract_cong[OF _ contract_transfer[OF assms]])
  fix s :: "'a ee_scheme"
  assume s: "VirtAddVarTab s = tab" "c = cells s"
  have "EE_FindValidPage READ_FROM_VALID_PAGE s = of_nat p"
    by (rule find_single(1)) (use s c in simp)
  moreover have "p = 0 \<or> p = 1" using c by (auto simp: single_def)
  ultimately show "EE_PageTransfer va d s =
    ee_check (ee_program (slot (other p) 0) RECEIVE_DATA)
    (ee_check (EE_VerifyPageFullWriteVariable va d)
    (ee_check (ee_transfer_loop va tab)
    (ee_check (ee_erase (slot p 0))
    (ee_program (slot (other p) 0) VALID_PAGE)))) s"
    by (auto simp: EE_PageTransfer_def s PAGE0_def PAGE1_def base_slot)
qed

lemma ee_program_status: "fst (ee_program a d s) \<noteq> PAGE_FULL"
proof -
  have "status_code st \<noteq> PAGE_FULL" for st by (cases st) (simp_all add: PAGE_FULL_def)
  then show ?thesis by (simp add: ee_program_def split: prod.splits)
qed

lemma ee_check_program_status: "fst (ee_check (ee_program a d) (ee_program b e) s) \<noteq> PAGE_FULL"
  using ee_program_status by (auto simp: ee_check_def split: prod.splits) (metis fst_conv)+

theorem contract_WriteVariable:
  assumes tab: "wf_tab tab" and va: "va \<in> set tab"
  shows "contract tab (\<lambda>c. holds tab c m) (EE_WriteVariable va d :: 'a ee_scheme \<Rightarrow> _)
    (\<lambda>c'. holds tab c' (m(va \<mapsto> d))) (before_or_after tab (2 + length tab) m va d)"
    (is "contract _ _ ?m ?Q ?C")
proof (rule contract_pointwise)
  fix c assume "holds tab c m"
  then obtain p k where c: "single c p k" and m: "\<forall>v\<in>set tab. lookup c p v = m v"
    by (auto simp: holds_def)
  have ff: "va \<noteq> 0xFFFF" "0xFFFF \<notin> set tab" using tab va by (auto simp: wf_tab_def)
  have p: "p < 2" "used c p k" "k \<le> 512" using c by (auto simp: single_def used_def)
  have find: "EE_FindValidPage WRITE_IN_VALID_PAGE s = of_nat p" if "cells s = c" for s :: "'a ee_scheme"
    by (rule find_single(2)) (use that c in simp)
  show "contract tab ((=) c) ?m ?Q ?C"
  proof (cases "k < 512")
    case True
    show ?thesis
    proof (rule contract_cong)
      show "EE_WriteVariable va d s = EE_VerifyPageFullWriteVariable va d s" if "c = cells s"
        for s :: "'a ee_scheme"
        using VerifyPageFullWriteVariable_slot[OF find[OF that[symmetric]], of k va d] p True that
          ee_check_program_status[of "slot p k" d "slot p k + 2" va s]
        by (auto simp: EE_WriteVariable_def split: prod.splits)
      have "holds tab (put c p k va d) (m(va \<mapsto> d))"
        using single_put[OF c True ff(1)] m ff
        by (auto simp: holds_def simp del: fun_upd_apply) (metis fun_upd_apply)
      moreover have "holds tab (c(slot p k := d)) m"
        using single_half[OF c True] m ff(2) by (auto simp: holds_def) metis
      ultimately show "contract tab ((=) c) (EE_VerifyPageFullWriteVariable va d :: 'a ee_scheme \<Rightarrow> _) ?Q ?C"
        using \<open>holds tab c m\<close>
        by (intro contract_conseq[OF contract_Verify[OF find]])
          (use p True in \<open>auto simp: before_or_after_def intro: recoverableI\<close>)
    qed
  next
    case False
    show ?thesis
    proof (rule contract_cong[OF _ contract_PageTransfer[OF tab va c m]])
      show "EE_WriteVariable va d s = EE_PageTransfer va d s" if "c = cells s"
        for s :: "'a ee_scheme"
        using VerifyPageFullWriteVariable_slot[OF find[OF that[symmetric]], of k va d] p False that
        by (simp add: EE_WriteVariable_def)
    qed
  qed
qed

text \<open>Formatting, and the start-up repair.\<close>

definition both_valid :: "(nat \<Rightarrow> u16) \<Rightarrow> bool" where
  "both_valid c \<longleftrightarrow> hdr c 0 = VALID_PAGE \<and> hdr c 1 = VALID_PAGE"

lemma contract_Format:
  assumes "wf_tab tab"
  shows "contract tab P (EE_Format :: 'a ee_scheme \<Rightarrow> _) (\<lambda>c. holds tab c (\<lambda>_. None)) (\<lambda>_. True)"
proof -
  have ff: "0xFFFF \<notin> set tab" using assms by (simp add: wf_tab_def)
  have one: "contract tab P (ee_erase (slot 0 0) :: 'a ee_scheme \<Rightarrow> _)
      (\<lambda>c. used c 0 0) (\<lambda>_. True)"
    by (rule contract_clear) (auto simp: used_erased)
  have two: "contract tab (\<lambda>c. used c 0 0) (ee_program (slot 0 0) VALID_PAGE :: 'a ee_scheme \<Rightarrow> _)
      (\<lambda>c. used c 0 1 \<and> hdr c 0 = VALID_PAGE) (\<lambda>_. True)"
    by (rule contract_mark) (auto simp: VALID_PAGE_def hdr_def used_first_header[simplified])
  have three: "contract tab (\<lambda>c. used c 0 1 \<and> hdr c 0 = VALID_PAGE)
      (ee_erase (slot 1 0) :: 'a ee_scheme \<Rightarrow> _) (\<lambda>c. holds tab c (\<lambda>_. None)) (\<lambda>_. True)"
  proof (rule contract_clear)
    fix c assume c: "used c 0 1 \<and> hdr c 0 = VALID_PAGE"
    have "single (erase_cells (slot 1 0) c) 0 1"
      using c used_erased[of 1 c] by (simp add: single_def hdr_def erase_other_page)
    moreover have "lookup (erase_cells (slot 1 0) c) 0 v = None" if "v \<in> set tab" for v
      using c used_1_lookup[of c 0 v] that ff by (auto simp: erase_other_page)
    ultimately show "holds tab (erase_cells (slot 1 0) c) (\<lambda>_. None)"
      by (auto simp: holds_def)
  qed auto
  show ?thesis
    unfolding EE_Format_def base_slot
    by (rule contract_seq[OF one], rule contract_seq[OF two three]) auto
qed

lemma single_erase_other:
  assumes "single c p k"
  shows "single (erase_cells (slot (other p) 0) c) p k"
    and "lookup (erase_cells (slot (other p) 0) c) p v = lookup c p v"
  using assms used_erased[of "other p" c]
  by (auto simp: single_def hdr_def erase_other_page)

lemma contract_Init_holds:
  "contract tab (\<lambda>c. holds tab c T) (EE_Init :: 'a ee_scheme \<Rightarrow> _)
     (\<lambda>c. holds tab c T) (\<lambda>c. holds tab c T)"
proof (rule contract_pointwise)
  fix c assume h: "holds tab c T"
  then obtain p k where c: "single c p k" and look: "\<forall>v\<in>set tab. lookup c p v = T v"
    by (auto simp: holds_def)
  then have hd: "hdr c p = VALID_PAGE" "hdr c (other p) = ERASED" and p: "p = 0 \<or> p = 1"
    by (auto simp: single_def intro: hdr_used_0)
  have "contract tab ((=) c) (ee_erase (slot (other p) 0) :: 'a ee_scheme \<Rightarrow> _)
      (\<lambda>c. holds tab c T) (\<lambda>c. holds tab c T)"
    by (rule contract_clear) (use h single_erase_other[OF c] look in \<open>auto simp: holds_def\<close>)
  moreover have "EE_Init s = ee_erase (slot (other p) 0) s" if "c = cells s" for s :: "'a ee_scheme"
    using p hd that
    by (auto simp: EE_Init_def ee_init_erased_def ee_init_valid_def base_slot hdr_def sval_def ee_consts)
  ultimately show "contract tab ((=) c) (EE_Init :: 'a ee_scheme \<Rightarrow> _)
      (\<lambda>c. holds tab c T) (\<lambda>c. holds tab c T)"
    by (rule contract_cong[rotated])
qed

lemma contract_Init_complete:
  "contract tab (\<lambda>c. complete_at tab q c T) (EE_Init :: 'a ee_scheme \<Rightarrow> _)
     (\<lambda>c. holds tab c T) (\<lambda>c. complete_at tab q c T)"
proof (rule contract_pointwise)
  fix c assume c: "complete_at tab q c T"
  then have hd: "hdr c q = RECEIVE_DATA" "hdr c (other q) = ERASED" and q: "q < 2" "q = 0 \<or> q = 1"
    by (auto simp: complete_at_def intro: hdr_used_0)
  have keep: "complete_at tab q (erase_cells (slot (other q) 0) c) T"
    using c used_erased[of "other q" c]
    by (auto simp: complete_at_def hdr_def erase_other_page)
  let ?m = "ee_check (ee_erase (slot (other q) 0)) (ee_program (slot q 0) VALID_PAGE)
    :: 'a ee_scheme \<Rightarrow> _"
  have one: "contract tab ((=) c) (ee_erase (slot (other q) 0) :: 'a ee_scheme \<Rightarrow> _)
      (\<lambda>c. complete_at tab q c T) (\<lambda>c. complete_at tab q c T)"
    by (rule contract_clear) (use c keep in auto)
  have "contract tab (\<lambda>c. complete_at tab q c T) (ee_program (slot q 0) VALID_PAGE :: 'a ee_scheme \<Rightarrow> _)
      (\<lambda>c. holds tab c T) (\<lambda>c. complete_at tab q c T)"
    by (rule contract_mark[OF q(1)])
      (auto simp: VALID_PAGE_def dest: complete_marked[unfolded VALID_PAGE_def])
  then have "contract tab ((=) c) ?m (\<lambda>c. holds tab c T) (\<lambda>c. complete_at tab q c T)"
    by (rule contract_seq[OF one]) simp
  moreover have "EE_Init s = ?m s" if "c = cells s" for s :: "'a ee_scheme"
    using q hd that
    by (auto simp: EE_Init_def ee_init_erased_def ee_init_receive_def base_slot hdr_def sval_def ee_consts)
  ultimately show "contract tab ((=) c) (EE_Init :: 'a ee_scheme \<Rightarrow> _)
      (\<lambda>c. holds tab c T) (\<lambda>c. complete_at tab q c T)"
    by (rule contract_cong[rotated])
qed

lemma contract_Init_partial:
  assumes tab: "wf_tab tab" and n: "n + length tab \<le> 512"
  shows "contract tab (partial tab p T n) (EE_Init :: 'a ee_scheme \<Rightarrow> _)
    (\<lambda>c. holds tab c T) (\<lambda>c. recoverable tab (n + length tab) c T \<or> both_valid c)"
    (is "contract _ _ _ ?Q ?C")
proof (rule contract_cases)
  fix c assume "partial tab p T n c"
  then obtain k where k: "k \<le> n" and c: "carries tab p T k c" by (auto simp: partial_def)
  let ?q = "other p" and ?N = "n + length tab" and ?a = "first_adr c (other p)"
  let ?P = "moved tab p T k {} ?a"
  have p: "p < 2" "p = 0 \<or> p = 1" and k1: "1 \<le> k" using c by (auto simp: carries_def)
  have ff: "0xFFFF \<notin> set tab" using tab by (simp add: wf_tab_def)
  let ?m = "ee_check (ee_init_loop (slot ?q 0) 0 (-1) tab)
    (ee_check (ee_program (slot ?q 0) VALID_PAGE) (ee_erase (slot p 0))) :: 'a ee_scheme \<Rightarrow> _"
  have loop: "contract tab ?P (ee_init_loop (slot ?q 0) 0 (-1) tab :: 'a ee_scheme \<Rightarrow> _)
      (transferred tab p T ?N (set tab)) ?C"
  proof (rule contract_conseq[OF contract_init_loop[OF ff, of tab k "-1" 0 p T "{}" ?a]])
    show "partial tab p T (k + length tab) c \<Longrightarrow> ?C c" for c
      using k recoverableI(3)[OF partial_mono[of tab p T "k + length tab" c ?N]] by simp
    show "transferred tab p T (k + length tab) ({} \<union> set tab) c \<Longrightarrow>
        transferred tab p T ?N (set tab) c" for c
      using k by (auto elim: transferred_mono)
  qed (use k k1 n in auto)
  have mark: "contract tab (transferred tab p T ?N (set tab))
      (ee_program (slot ?q 0) VALID_PAGE :: 'a ee_scheme \<Rightarrow> _)
      (\<lambda>c. both_valid c \<and> holds tab (erase_cells (slot p 0) c) T) ?C"
  proof (rule contract_mark)
    fix c assume "transferred tab p T ?N (set tab) c"
    note F = transferred_facts[OF this subset_refl]
    from F(3-5) p show "both_valid (c(slot ?q 0 := VALID_PAGE)) \<and>
        holds tab (erase_cells (slot p 0) (c(slot ?q 0 := VALID_PAGE))) T"
      by (auto simp: both_valid_def)
    from F(1) show "?C c" by (auto intro: recoverableI)
  qed (auto simp: VALID_PAGE_def)
  have erase: "contract tab (\<lambda>c. both_valid c \<and> holds tab (erase_cells (slot p 0) c) T)
      (ee_erase (slot p 0) :: 'a ee_scheme \<Rightarrow> _) ?Q ?C"
    by (rule contract_clear) (use p in auto)
  have run: "contract tab ?P ?m ?Q ?C"
    by (rule contract_seq[OF loop], rule contract_seq[OF mark erase]) auto
  have eq: "EE_Init s = ?m s" if "VirtAddVarTab s = tab" "?P (cells s)" for s :: "'a ee_scheme"
  proof -
    from that(2) have "hdr (cells s) p = VALID_PAGE" "hdr (cells s) ?q = RECEIVE_DATA"
      by (auto simp: moved_def carries_def)
    with p that(1) show ?thesis
      by (auto simp: EE_Init_def ee_init_receive_def ee_init_valid_def base_slot hdr_def sval_def
          ee_consts)
  qed
  have "contract tab ?P (EE_Init :: 'a ee_scheme \<Rightarrow> _) ?Q ?C"
    by (rule contract_cong[OF eq run])
  moreover have "?P c" using c by (simp add: moved_def)
  ultimately show "\<exists>P'. P' c \<and> contract tab P' (EE_Init :: 'a ee_scheme \<Rightarrow> _) ?Q ?C" by blast
qed

theorem contract_Init:
  assumes "wf_tab tab" and "n + length tab \<le> 512"
  shows "contract tab (\<lambda>c. recoverable tab n c T) (EE_Init :: 'a ee_scheme \<Rightarrow> _)
    (\<lambda>c. holds tab c T) (\<lambda>c. recoverable tab (n + length tab) c T \<or> both_valid c)"
    (is "contract _ _ ?m ?Q ?C")
proof (rule contract_cases)
  fix c assume "recoverable tab n c T"
  then consider "holds tab c T" | q where "complete_at tab q c T" | p where "partial tab p T n c"
    by (auto simp: recoverable_def)
  then show "\<exists>P'. P' c \<and> contract tab P' ?m ?Q ?C"
  proof cases
    case 1
    have "contract tab (\<lambda>c. holds tab c T) ?m ?Q ?C"
      by (rule contract_conseq[OF contract_Init_holds], assumption, assumption,
          rule disjI1, erule recoverableI(1))
    with 1 show ?thesis by (intro exI conjI)
  next
    case 2
    have "contract tab (\<lambda>c. complete_at tab q c T) ?m ?Q ?C"
      by (rule contract_conseq[OF contract_Init_complete], assumption, assumption,
          rule disjI1, erule recoverableI(2))
    with 2 show ?thesis by (intro exI conjI)
  next
    case 3
    from this contract_Init_partial[OF assms] show ?thesis by (intro exI conjI)
  qed
qed

text \<open>Two valid pages, or none at all: the repair gives up the content.\<close>

theorem contract_Init_formats:
  assumes "wf_tab tab"
    and "\<And>c. P c \<Longrightarrow> both_valid c \<or> hdr c 0 = ERASED \<and> hdr c 1 = ERASED"
  shows "contract tab P (EE_Init :: 'a ee_scheme \<Rightarrow> _) (\<lambda>c. holds tab c (\<lambda>_. None)) (\<lambda>_. True)"
proof (rule contract_cong[OF _ contract_Format[OF assms(1)]])
  fix s :: "'a ee_scheme"
  assume "P (cells s)"
  from assms(2)[OF this] show "EE_Init s = EE_Format s"
    by (auto simp: EE_Init_def ee_init_erased_def ee_init_valid_def both_valid_def base_slot hdr_def
        sval_def ee_consts)
qed

end
