(* ===== verification/Nv_Store.thy ===== *)
theory Nv_Store
  imports Prelude
begin

text \<open>
  The interface of a non-volatile store as the configuration uses it: single values are
  written and read under keys. The laws say that a write succeeds, changes what is read
  under its key and nothing else. From them follows what writing and reading a whole
  block of values does, which is all the client relies on.
\<close>

locale nv_store =
  fixes ok :: "'s \<Rightarrow> bool"
    and keys :: "'s \<Rightarrow> 'k set"
    and get :: "'k \<Rightarrow> 's \<Rightarrow> 'v option"
    and put :: "'k \<Rightarrow> 'v \<Rightarrow> 's \<Rightarrow> bool \<times> 's"
  assumes put_succeeds: "ok s \<Longrightarrow> k \<in> keys s \<Longrightarrow> fst (put k v s)"
    and put_ok: "ok s \<Longrightarrow> k \<in> keys s \<Longrightarrow> ok (snd (put k v s))"
    and put_keys: "ok s \<Longrightarrow> k \<in> keys s \<Longrightarrow> keys (snd (put k v s)) = keys s"
    and get_put: "ok s \<Longrightarrow> k \<in> keys s \<Longrightarrow> k' \<in> keys s \<Longrightarrow>
      get k' (snd (put k v s)) = (if k' = k then Some v else get k' s)"

context nv_store
begin

text \<open>Writing a list of values stops at the first failure; reading one stops at a miss.\<close>

primrec put_all :: "('k \<times> 'v) list \<Rightarrow> 's \<Rightarrow> bool \<times> 's" where
  "put_all [] s = (True, s)"
| "put_all (kv # kvs) s =
     (let (b, s') = put (fst kv) (snd kv) s in if b then put_all kvs s' else (False, s'))"

primrec get_all :: "'k list \<Rightarrow> 's \<Rightarrow> 'v list option" where
  "get_all [] s = Some []"
| "get_all (k # ks) s =
     (case get k s of None \<Rightarrow> None
      | Some v \<Rightarrow> (case get_all ks s of None \<Rightarrow> None | Some vs \<Rightarrow> Some (v # vs)))"

lemma put_all_spec:
  "ok s \<Longrightarrow> fst ` set kvs \<subseteq> keys s \<Longrightarrow>
   fst (put_all kvs s) \<and> ok (snd (put_all kvs s)) \<and> keys (snd (put_all kvs s)) = keys s \<and>
   (\<forall>k\<in>keys s. get k (snd (put_all kvs s)) =
      (case map_of (rev kvs) k of None \<Rightarrow> get k s | Some v \<Rightarrow> Some v))"
proof (induction kvs arbitrary: s)
  case (Cons kv kvs)
  let ?s = "snd (put (fst kv) (snd kv) s)"
  from Cons.prems have kv: "fst kv \<in> keys s" "fst ` set kvs \<subseteq> keys s" by auto
  have s: "ok ?s" "keys ?s = keys s" "fst (put (fst kv) (snd kv) s)"
    using Cons.prems(1) kv(1) by (simp_all add: put_ok put_keys put_succeeds)
  have eq: "put_all (kv # kvs) s = put_all kvs ?s"
    using s(3) by (simp add: split_beta)
  from Cons.IH[of ?s] s kv(2) get_put[OF Cons.prems(1) kv(1)] show ?case
    unfolding eq by (auto simp: map_add_def split: option.splits)
qed simp

lemma get_all_some:
  "length vs = length ks \<Longrightarrow> (\<And>i. i < length ks \<Longrightarrow> get (ks ! i) s = Some (vs ! i)) \<Longrightarrow>
   get_all ks s = Some vs"
proof (induction ks arbitrary: vs)
  case (Cons k ks)
  from Cons.prems(1) obtain w ws where vs: "vs = w # ws" by (cases vs) auto
  from Cons.prems(2)[of 0] vs have "get k s = Some w" by simp
  moreover have "get_all ks s = Some ws"
    using Cons.prems Cons.prems(2)[of "Suc _"] vs by (intro Cons.IH) auto
  ultimately show ?case using vs by simp
qed simp

lemma get_all_put_all:
  assumes "ok s" and "distinct ks" and "set ks \<subseteq> keys s" and "length vs = length ks"
  shows "get_all ks (snd (put_all (zip ks vs) s)) = Some vs"
proof (rule get_all_some[OF assms(4)])
  fix i assume i: "i < length ks"
  let ?kvs = "zip ks vs"
  have d: "distinct (map fst (rev ?kvs))"
    using assms(2,4) by (simp add: rev_map [symmetric])
  have "(ks ! i, vs ! i) \<in> set (rev ?kvs)"
    using i assms(4) by (auto simp: set_zip)
  with d have "map_of (rev ?kvs) (ks ! i) = Some (vs ! i)" by simp
  moreover have "fst ` set ?kvs \<subseteq> keys s" using assms(3) by (auto dest: set_zip_leftD)
  ultimately show "get (ks ! i) (snd (put_all ?kvs s)) = Some (vs ! i)"
    using put_all_spec[OF assms(1), of ?kvs] assms(3) i by (auto simp: subset_iff)
qed

end

end
