(* ===== verification/Eeprom_Props.thy ===== *)
theory Eeprom_Props
  imports Eeprom_Power Nv_Store
begin

text \<open>
  What the rest of the firmware sees of the EEPROM emulation: the contracts of the
  exported operations, read off in terms of \<open>EE_ReadVariable\<close>, without and with a
  failing supply, and the emulation as an instance of the store interface.
\<close>

subsection \<open>The state between two operations\<close>

definition ee_ok :: "'a ee_scheme \<Rightarrow> bool" where
  "ee_ok s \<longleftrightarrow> wf_tab (VirtAddVarTab s) \<and> ee_ready (VirtAddVarTab s) s \<and> powered s \<and>
     Supply_Fails \<notin> set (plan s) \<and> (\<exists>m. holds (VirtAddVarTab s) (cells s) m)"

text \<open>A reset: the controller's registers take their reset values, the cells stay.\<close>

definition power_up :: "op_outcome list \<Rightarrow> 'a ee_scheme \<Rightarrow> 'a ee_scheme" where
  "power_up p s = s\<lparr>CR := FLASH_CR_LOCK, SR := 0, AR := 0, busy := 0, key1 := False,
     plan := p, powered := True\<rparr>"

definition restart :: "op_outcome list \<Rightarrow> 'a ee_scheme \<Rightarrow> u16 \<times> 'a ee_scheme" where
  "restart p s = EE_Init (FLASH_Unlock (power_up p s))"

lemma Unlock_power_up:
  "FLASH_Unlock (power_up p s) = (power_up p s)\<lparr>CR := 0\<rparr>"
  by (simp add: FLASH_Unlock_def power_up_def hw_write_KEYR_def flash_bits
      FLASH_KEY1_def FLASH_KEY2_def)

lemma restart_ready:
  "list_all calm_outcome p \<Longrightarrow> ee_ready (VirtAddVarTab s) (FLASH_Unlock (power_up p s))"
  "powered (FLASH_Unlock (power_up p s))"
  "cells (FLASH_Unlock (power_up p s)) = cells s"
  "plan (FLASH_Unlock (power_up p s)) = p"
  "ee.more (FLASH_Unlock (power_up p s)) = ee.more s"
  by (simp_all add: Unlock_power_up ee_ready_def flash_idle_def calm_def, simp_all add: power_up_def)

lemma holds_read:
  assumes "holds tab (cells s) m" and "v \<in> set tab"
  shows "EE_ReadVariable v s = (case m v of None \<Rightarrow> (1, None) | Some d \<Rightarrow> (0, Some d))"
proof -
  from assms(1) obtain p k where c: "single (cells s) p k"
    and look: "\<forall>v\<in>set tab. lookup (cells s) p v = m v" by (auto simp: holds_def)
  have "p < 2" using c by (simp add: single_def)
  from ReadVariable_lookup[OF find_single(1)[OF c] this, of v] look assms(2) show ?thesis
    by (auto split: option.splits)
qed

lemma holds_okI:
  assumes "wf_tab tab" and "ee_ready tab s" and "powered s" and "Supply_Fails \<notin> set (plan s)"
    and "holds tab (cells s) m"
  shows "ee_ok s"
  using assms by (auto simp: ee_ok_def ee_ready_def)

lemma contract_plain:
  assumes "contract tab P m (\<lambda>c. holds tab c T) C" and "wf_tab tab"
    and "ee_ready tab s" and "powered s" and "P (cells s)" and "Supply_Fails \<notin> set (plan s)"
    and "m s = (st, s')"
  shows "st = status_code FLASH_COMPLETE" and "ee_ok s'" and "VirtAddVarTab s' = tab"
    and "holds tab (cells s') T" and "ee.more s' = ee.more s"
proof -
  note D = contractD[OF assms(1,3,4,5,7)]
  have "powered s'" using D(4) assms(6) by blast
  with D assms(2,6) show "st = status_code FLASH_COMPLETE" "ee_ok s'" "VirtAddVarTab s' = tab"
    "holds tab (cells s') T" "ee.more s' = ee.more s"
    by (auto simp: ee_frame_def ee_ready_def intro!: holds_okI)
qed

lemma WriteVariable_holds:
  assumes "ee_ok s" and "va \<in> set (VirtAddVarTab s)" and "holds (VirtAddVarTab s) (cells s) m"
    and "EE_WriteVariable va d s = (st, s')"
  shows "st = status_code FLASH_COMPLETE" and "ee_ok s'" and "VirtAddVarTab s' = VirtAddVarTab s"
    and "holds (VirtAddVarTab s) (cells s') (m(va \<mapsto> d))" and "ee.more s' = ee.more s"
proof -
  from assms(1) have ok: "wf_tab (VirtAddVarTab s)" "ee_ready (VirtAddVarTab s) s" "powered s"
    "Supply_Fails \<notin> set (plan s)" by (auto simp: ee_ok_def)
  note W = contract_WriteVariable[OF ok(1) assms(2)]
  from contract_plain[OF W ok(1,2,3) assms(3) ok(4) assms(4)]
  show "st = status_code FLASH_COMPLETE" "ee_ok s'" "VirtAddVarTab s' = VirtAddVarTab s"
    "holds (VirtAddVarTab s) (cells s') (m(va \<mapsto> d))" "ee.more s' = ee.more s" .
qed

lemma restart_holds:
  assumes "recoverable tab 162 (cells s) T" and "wf_tab tab" and "VirtAddVarTab s = tab"
    and "list_all calm_outcome p" and "Supply_Fails \<notin> set p" and "restart p s = (st, s')"
  shows "st = status_code FLASH_COMPLETE" and "ee_ok s'" and "VirtAddVarTab s' = tab"
    and "holds tab (cells s') T" and "ee.more s' = ee.more s"
proof -
  have len: "162 + length tab \<le> 512" using assms(2) by (simp add: wf_tab_def NB_OF_VAR_def)
  note P = contract_plain[OF contract_Init[OF assms(2) len] assms(2), of
      "FLASH_Unlock (power_up p s)" _ st s']
  from P[of T] assms show "st = status_code FLASH_COMPLETE" "ee_ok s'" "VirtAddVarTab s' = tab"
    "holds tab (cells s') T" "ee.more s' = ee.more s"
    by (auto simp: restart_ready restart_def)
qed

subsection \<open>A formatted device, as an example\<close>

definition formatted :: "u16 list \<Rightarrow> op_outcome list \<Rightarrow> ee" where
  "formatted tab p =
     \<lparr>cells = (\<lambda>a. if a = PAGE0_BASE_ADDRESS then VALID_PAGE else 0xFFFF),
      CR = 0, SR = 0, AR = 0, busy = 0, key1 = False, plan = p, powered = True,
      DataVar = 0, VirtAddVarTab = tab\<rparr>"

definition some_tab :: "u16 list" where
  "some_tab = replicate NB_OF_VAR 1000"

lemma some_tab [simp]: "wf_tab some_tab" "set some_tab = {1000}"
  by (auto simp: some_tab_def wf_tab_def NB_OF_VAR_def)

lemma formatted_single: "single (cells (formatted tab p)) 0 1"
proof -
  have "slot 0 i \<noteq> slot 0 0" if "1 \<le> i" "i < 512" for i using that by simp
  then show ?thesis
    by (auto simp: single_def used_def blank_def hdr_def sval_def sadr_def formatted_def
        base_slot VALID_PAGE_def)
qed

lemma formatted_holds:
  assumes "0xFFFF \<notin> set tab"
  shows "holds tab (cells (formatted tab p)) (\<lambda>_. None)"
proof -
  have "used (cells (formatted tab p)) 0 1"
    using formatted_single by (simp add: single_def)
  with assms have "\<forall>v\<in>set tab. lookup (cells (formatted tab p)) 0 v = None"
    by (metis used_1_lookup)
  with formatted_single show ?thesis by (auto simp: holds_def)
qed

lemma formatted_facts [simp]:
  "powered (formatted tab p)" "plan (formatted tab p) = p" "VirtAddVarTab (formatted tab p) = tab"
  "ee_ready tab (formatted tab p) = list_all calm_outcome p"
  by (auto simp: formatted_def ee_ready_def flash_idle_def calm_def)

lemma formatted_ok:
  "list_all calm_outcome p \<Longrightarrow> Supply_Fails \<notin> set p \<Longrightarrow> ee_ok (formatted some_tab p)"
  using formatted_holds[of some_tab p] by (auto simp: ee_ok_def)

subsection \<open>Reading after writing\<close>

text \<open>
  C1: On a working device \<open>EE_WriteVariable\<close> succeeds and afterwards every variable of the
  table reads as before, except the written one, which reads as the value written. This
  covers the case of a full page, where the write is a transfer to the other page.
\<close>

theorem EE_WriteVariable_read:
  assumes "ee_ok s" and "va \<in> set (VirtAddVarTab s)" and "EE_WriteVariable va d s = (st, s')"
  shows "st = status_code FLASH_COMPLETE \<and> ee_ok s' \<and> VirtAddVarTab s' = VirtAddVarTab s \<and>
    (\<forall>v\<in>set (VirtAddVarTab s).
       EE_ReadVariable v s' = (if v = va then (0, Some d) else EE_ReadVariable v s))"
proof -
  from assms(1) obtain m where m: "holds (VirtAddVarTab s) (cells s) m" by (auto simp: ee_ok_def)
  note W = WriteVariable_holds[OF assms(1,2) m assms(3)]
  have "EE_ReadVariable v s' = (if v = va then (0, Some d) else EE_ReadVariable v s)"
    if "v \<in> set (VirtAddVarTab s)" for v
    using holds_read[OF W(4) that] holds_read[OF m that] by simp
  with W show ?thesis by blast
qed

lemma EE_WriteVariable_read_witness:
  "fst (EE_WriteVariable 1000 7 (formatted some_tab [Completes 3, Completes 5])) = 4 \<and>
   EE_ReadVariable 1000 (snd (EE_WriteVariable 1000 7 (formatted some_tab [Completes 3, Completes 5])))
     = (0, Some 7)"
proof -
  obtain st s' where run: "EE_WriteVariable 1000 7 (formatted some_tab [Completes 3, Completes 5]) = (st, s')"
    by (cases "EE_WriteVariable 1000 7 (formatted some_tab [Completes 3, Completes 5])")
  have "ee_ok (formatted some_tab [Completes 3, Completes 5])"
    by (rule formatted_ok) (simp_all add: FLASH_ER_PRG_TIMEOUT_def)
  from EE_WriteVariable_read[OF this _ run] show ?thesis by (simp add: run)
qed



subsection \<open>Starting up\<close>

text \<open>
  C3: A restart with a working supply keeps every variable of the EEPROM.
\<close>

theorem EE_Init_keeps:
  assumes "ee_ok s" and "list_all calm_outcome p" and "Supply_Fails \<notin> set p"
    and "restart p s = (st, s')"
  shows "st = status_code FLASH_COMPLETE \<and> ee_ok s' \<and> VirtAddVarTab s' = VirtAddVarTab s \<and>
    (\<forall>v\<in>set (VirtAddVarTab s). EE_ReadVariable v s' = EE_ReadVariable v s)"
proof -
  from assms(1) obtain m where m: "holds (VirtAddVarTab s) (cells s) m" and tab: "wf_tab (VirtAddVarTab s)"
    by (auto simp: ee_ok_def)
  note R = restart_holds[OF recoverableI(1)[OF m] tab refl assms(2-4)]
  with holds_read[OF m] holds_read[OF R(4)] show ?thesis by simp
qed

lemma EE_Init_keeps_witness:
  "fst (restart [Completes 2] (formatted some_tab [])) = status_code FLASH_COMPLETE"
proof -
  obtain st s' where run: "restart [Completes 2] (formatted some_tab []) = (st, s')"
    by (cases "restart [Completes 2] (formatted some_tab [])")
  have "ee_ok (formatted some_tab [])" by (rule formatted_ok) simp_all
  from EE_Init_keeps[OF this _ _ run] show ?thesis by (simp add: run FLASH_ER_PRG_TIMEOUT_def)
qed

lemma restart_formats:
  assumes "wf_tab (VirtAddVarTab s)"
    and "both_valid (cells s) \<or> hdr (cells s) 0 = ERASED \<and> hdr (cells s) 1 = ERASED"
    and "list_all calm_outcome p" and "Supply_Fails \<notin> set p" and "restart p s = (st, s')"
  shows "st = status_code FLASH_COMPLETE \<and> ee_ok s' \<and>
    (\<forall>v\<in>set (VirtAddVarTab s). EE_ReadVariable v s' = (1, None))"
    and "VirtAddVarTab s' = VirtAddVarTab s" and "ee.more s' = ee.more s"
proof -
  let ?P = "\<lambda>c. both_valid c \<or> hdr c 0 = ERASED \<and> hdr c 1 = ERASED"
  note P = contract_plain[OF contract_Init_formats[OF assms(1), of ?P] assms(1), of
      "FLASH_Unlock (power_up p s)" st s']
  have H: "st = status_code FLASH_COMPLETE" "ee_ok s'" "holds (VirtAddVarTab s) (cells s') (\<lambda>_. None)"
    "VirtAddVarTab s' = VirtAddVarTab s" "ee.more s' = ee.more s"
    using P assms(2-5) by (auto simp: restart_ready restart_def)
  with holds_read[OF H(3)] show "st = status_code FLASH_COMPLETE \<and> ee_ok s' \<and>
    (\<forall>v\<in>set (VirtAddVarTab s). EE_ReadVariable v s' = (1, None))"
    and "VirtAddVarTab s' = VirtAddVarTab s" and "ee.more s' = ee.more s" by simp_all
qed

text \<open>
  On a chip whose two pages are erased the first start formats the EEPROM: it is usable
  and no variable is found.
\<close>

theorem EE_Init_fresh:
  assumes "wf_tab (VirtAddVarTab s)"
    and "cells s PAGE0_BASE_ADDRESS = ERASED" and "cells s PAGE1_BASE_ADDRESS = ERASED"
    and "list_all calm_outcome p" and "Supply_Fails \<notin> set p" and "restart p s = (st, s')"
  shows "st = status_code FLASH_COMPLETE \<and> ee_ok s' \<and>
    (\<forall>v\<in>set (VirtAddVarTab s). EE_ReadVariable v s' = (1, None))"
  by (rule restart_formats(1)[OF assms(1) _ assms(4-6)])
    (use assms(2,3) in \<open>simp add: hdr_def sval_def base_slot\<close>)

lemma EE_Init_fresh_witness:
  "EE_ReadVariable 1000 (snd (restart [] ((formatted some_tab [])\<lparr>cells := \<lambda>_. 0xFFFF\<rparr>))) = (1, None)"
proof -
  let ?s = "(formatted some_tab [])\<lparr>cells := \<lambda>_. 0xFFFF\<rparr>"
  obtain st s' where run: "restart [] ?s = (st, s')" by (cases "restart [] ?s")
  have "VirtAddVarTab ?s = some_tab" by (simp add: formatted_def)
  with EE_Init_fresh[OF _ _ _ _ _ run] show ?thesis by (simp add: run ERASED_def)
qed

text \<open>
  C4: When both pages are marked valid, which only an interrupted \<open>EE_Init\<close> produces,
  the next start formats the EEPROM: every variable is lost.
\<close>

theorem EE_Init_both_valid:
  assumes "wf_tab (VirtAddVarTab s)"
    and "cells s PAGE0_BASE_ADDRESS = VALID_PAGE" and "cells s PAGE1_BASE_ADDRESS = VALID_PAGE"
    and "list_all calm_outcome p" and "Supply_Fails \<notin> set p" and "restart p s = (st, s')"
  shows "st = status_code FLASH_COMPLETE \<and> ee_ok s' \<and>
    (\<forall>v\<in>set (VirtAddVarTab s). EE_ReadVariable v s' = (1, None))"
  by (rule restart_formats(1)[OF assms(1) _ assms(4-6)])
    (use assms(2,3) in \<open>simp add: both_valid_def hdr_def sval_def base_slot\<close>)

lemma EE_Init_both_valid_witness:
  "EE_ReadVariable 1000 (snd (restart [] ((formatted some_tab [])\<lparr>cells := \<lambda>_. 0\<rparr>))) = (1, None)"
proof -
  let ?s = "(formatted some_tab [])\<lparr>cells := \<lambda>_. 0\<rparr>"
  obtain st s' where run: "restart [] ?s = (st, s')" by (cases "restart [] ?s")
  have "VirtAddVarTab ?s = some_tab" by (simp add: formatted_def)
  with EE_Init_both_valid[OF _ _ _ _ _ run] show ?thesis by (simp add: run VALID_PAGE_def)
qed

subsection \<open>The emulation as a store\<close>

definition ee_get :: "u16 \<Rightarrow> 'a ee_scheme \<Rightarrow> u16 option" where
  "ee_get v s = (case EE_ReadVariable v s of (st, d) \<Rightarrow> if st = 0 then d else None)"

definition ee_put :: "u16 \<Rightarrow> u16 \<Rightarrow> 'a ee_scheme \<Rightarrow> bool \<times> 'a ee_scheme" where
  "ee_put v d s = (case EE_WriteVariable v d s of (st, s') \<Rightarrow> (st = status_code FLASH_COMPLETE, s'))"

lemma ee_get_holds:
  "holds tab (cells s) m \<Longrightarrow> v \<in> set tab \<Longrightarrow> ee_get v s = m v"
  by (simp add: ee_get_def holds_read split: option.splits)

lemma ee_put_store:
  assumes "ee_ok s" and "k \<in> set (VirtAddVarTab s)"
  shows "fst (ee_put k d s)" and "ee_ok (snd (ee_put k d s))"
    and "VirtAddVarTab (snd (ee_put k d s)) = VirtAddVarTab s"
    and "ee.more (snd (ee_put k d s)) = ee.more s"
    and "v \<in> set (VirtAddVarTab s) \<Longrightarrow>
      ee_get v (snd (ee_put k d s)) = (if v = k then Some d else ee_get v s)"
proof -
  obtain st s' where run: "EE_WriteVariable k d s = (st, s')" by fastforce
  from assms(1) obtain m where m: "holds (VirtAddVarTab s) (cells s) m" by (auto simp: ee_ok_def)
  note W = WriteVariable_holds[OF assms m run]
  from W show "fst (ee_put k d s)" "ee_ok (snd (ee_put k d s))"
    "VirtAddVarTab (snd (ee_put k d s)) = VirtAddVarTab s"
    "ee.more (snd (ee_put k d s)) = ee.more s"
    by (simp_all add: ee_put_def run)
  show "v \<in> set (VirtAddVarTab s) \<Longrightarrow>
      ee_get v (snd (ee_put k d s)) = (if v = k then Some d else ee_get v s)"
    using ee_get_holds[OF m] ee_get_holds[OF W(4)] by (simp add: ee_put_def run)
qed

interpretation nv: nv_store ee_ok "\<lambda>s. set (VirtAddVarTab s)" ee_get ee_put
  by unfold_locales (simp_all add: ee_put_store)

end
