(* ===== verification/Board.thy ===== *)
theory Board
  imports Eeprom_Props
begin

text \<open>
  The board as the firmware sees it (hw_conf_v4.2.h, the time macros of ChibiOS' chvt.h and
  the driver calls the components make). The state extends the EEPROM's. What an input
  answers at the \<open>n\<close>-th input or output operation since the start is a function of \<open>n\<close>, so
  that two reads of one pin or of the clock may differ, as they may for the code; what
  the firmware puts out is recorded in order. Bytes a failed bus transfer leaves in its
  buffer are arbitrary answers too: the firmware looks at no result of a transfer.
  Calls of utils_sys_lock_cnt and utils_sys_unlock_cnt, whose source is not part of the
  repository, are recorded as events and have no other effect here.
\<close>

datatype port = GPIOA | GPIOB

type_synonym pad = "port \<times> nat"

definition CHG_SENSE :: pad where "CHG_SENSE = (GPIOB, 0)"
definition DSG_SENSE :: pad where "DSG_SENSE = (GPIOB, 13)"
definition TEMP_SENSE :: pad where "TEMP_SENSE = (GPIOB, 14)"
definition LTC6803_CS :: pad where "LTC6803_CS = (GPIOA, 4)"
definition SCK :: pad where "SCK = (GPIOA, 5)"
definition MISO :: pad where "MISO = (GPIOA, 6)"
definition MOSI :: pad where "MOSI = (GPIOA, 7)"
definition SDA :: pad where "SDA = (GPIOA, 14)"
definition SCL :: pad where "SCL = (GPIOA, 15)"
definition CAN_RX :: pad where "CAN_RX = (GPIOB, 8)"
definition CAN_TX :: pad where "CAN_TX = (GPIOB, 9)"
definition ACC1 :: pad where "ACC1 = (GPIOA, 10)"
definition ACC2 :: pad where "ACC2 = (GPIOA, 9)"
definition LED_R :: pad where "LED_R = (GPIOB, 11)"
definition LED_G :: pad where "LED_G = (GPIOB, 10)"
definition LED_B :: pad where "LED_B = (GPIOB, 3)"
definition BUZZER :: pad where "BUZZER = (GPIOB, 15)"
definition PWR_SW :: pad where "PWR_SW = (GPIOB, 1)"
definition PCHG_SW :: pad where "PCHG_SW = (GPIOB, 4)"
definition DSG_SW :: pad where "DSG_SW = (GPIOB, 5)"
definition CHG_SW :: pad where "CHG_SW = (GPIOB, 6)"
definition PWR_BTN :: pad where "PWR_BTN = (GPIOB, 2)"
definition CURR_ALERT :: pad where "CURR_ALERT = (GPIOB, 12)"
definition RTCC_INT :: pad where "RTCC_INT = (GPIOB, 7)"
definition USB_DETECT :: pad where "USB_DETECT = (GPIOA, 8)"
definition USB_DM :: pad where "USB_DM = (GPIOA, 11)"
definition USB_DP :: pad where "USB_DP = (GPIOA, 12)"

lemmas pad_defs =
  CHG_SENSE_def DSG_SENSE_def TEMP_SENSE_def LTC6803_CS_def SCK_def MISO_def MOSI_def SDA_def
  SCL_def CAN_RX_def CAN_TX_def ACC1_def ACC2_def LED_R_def LED_G_def LED_B_def BUZZER_def
  PWR_SW_def PCHG_SW_def DSG_SW_def CHG_SW_def PWR_BTN_def CURR_ALERT_def RTCC_INT_def
  USB_DETECT_def USB_DM_def USB_DP_def

text \<open>The mode of a pad is a word of flags (pal_lld.h).\<close>

definition PAL_STM32_MODE_MASK :: u32 where "PAL_STM32_MODE_MASK = 3"
definition PAL_STM32_MODE_INPUT :: u32 where "PAL_STM32_MODE_INPUT = 0"
definition PAL_STM32_MODE_OUTPUT :: u32 where "PAL_STM32_MODE_OUTPUT = 1"
definition PAL_STM32_MODE_ALTERNATE :: u32 where "PAL_STM32_MODE_ALTERNATE = 2"
definition PAL_STM32_MODE_ANALOG :: u32 where "PAL_STM32_MODE_ANALOG = 3"
definition PAL_STM32_OTYPE_MASK :: u32 where "PAL_STM32_OTYPE_MASK = push_bit 2 1"
definition PAL_STM32_OTYPE_PUSHPULL :: u32 where "PAL_STM32_OTYPE_PUSHPULL = 0"
definition PAL_STM32_OTYPE_OPENDRAIN :: u32 where "PAL_STM32_OTYPE_OPENDRAIN = push_bit 2 1"
definition PAL_STM32_OSPEED_MASK :: u32 where "PAL_STM32_OSPEED_MASK = push_bit 3 3"
definition PAL_STM32_OSPEED_MID1 :: u32 where "PAL_STM32_OSPEED_MID1 = push_bit 3 1"
definition PAL_STM32_OSPEED_HIGHEST :: u32 where "PAL_STM32_OSPEED_HIGHEST = push_bit 3 3"
definition PAL_STM32_PUPDR_MASK :: u32 where "PAL_STM32_PUPDR_MASK = push_bit 5 3"
definition PAL_STM32_PUPDR_PULLUP :: u32 where "PAL_STM32_PUPDR_PULLUP = push_bit 5 1"
definition PAL_STM32_PUPDR_PULLDOWN :: u32 where "PAL_STM32_PUPDR_PULLDOWN = push_bit 5 2"
definition PAL_STM32_ALTERNATE_MASK :: u32 where "PAL_STM32_ALTERNATE_MASK = push_bit 7 15"

definition PAL_STM32_ALTERNATE :: "u32 \<Rightarrow> u32" where
  "PAL_STM32_ALTERNATE n = push_bit 7 n"

definition PAL_MODE_ALTERNATE :: "u32 \<Rightarrow> u32" where
  "PAL_MODE_ALTERNATE n = PAL_STM32_MODE_ALTERNATE OR PAL_STM32_ALTERNATE n"

definition PAL_MODE_INPUT :: u32 where
  "PAL_MODE_INPUT = PAL_STM32_MODE_INPUT"

definition PAL_MODE_INPUT_PULLUP :: u32 where
  "PAL_MODE_INPUT_PULLUP = PAL_STM32_MODE_INPUT OR PAL_STM32_PUPDR_PULLUP"

definition PAL_MODE_INPUT_PULLDOWN :: u32 where
  "PAL_MODE_INPUT_PULLDOWN = PAL_STM32_MODE_INPUT OR PAL_STM32_PUPDR_PULLDOWN"

definition PAL_MODE_INPUT_ANALOG :: u32 where
  "PAL_MODE_INPUT_ANALOG = PAL_STM32_MODE_ANALOG"

definition PAL_MODE_OUTPUT_PUSHPULL :: u32 where
  "PAL_MODE_OUTPUT_PUSHPULL = PAL_STM32_MODE_OUTPUT OR PAL_STM32_OTYPE_PUSHPULL"

definition PAL_MODE_OUTPUT_OPENDRAIN :: u32 where
  "PAL_MODE_OUTPUT_OPENDRAIN = PAL_STM32_MODE_OUTPUT OR PAL_STM32_OTYPE_OPENDRAIN"

text \<open>What the firmware puts out: pins, bus transfers and calls of the drivers and the kernel.\<close>

datatype mutex = SEND_MUTEX | CAN_MTX

datatype thread =
  Serial_Init | Serial_Read | Serial_Process | Packet_Timeout | Can_Read | Can_Process
  | Buzzer_Update | Led_Update

datatype mmio = SCB_ICSR | NVIC_ICER nat

datatype io_event =
  Pad_Mode pad u32
| Pad_Write pad bool
| I2C_Acquire
| I2C_Release
| I2C_Transmit u8 "u8 list"
| SPI_Select
| SPI_Unselect
| SPI_Exchange "u8 list"
| Sleep_Ms u32
| Sleep_Us u32
| Sys_Lock
| Sys_Unlock
| Ext_Start
| Ext_Channel_Enable nat
| Hal_Init
| Kernel_Init
| I2C_Start u32
| Thread_Start thread
| Mtx_Init mutex
| Mtx_Lock mutex
| Mtx_Unlock mutex
| Can_Start u32 u32
| Can_Transmit u32 "u8 list"
| Sdu_Init
| Sdu_Start
| Usb_Start
| Usb_Stop
| Usb_Connect
| Usb_Disconnect
| Usb_Init_Endpoint nat
| Sdu_Configure
| Sdu_Disconnect
| Sdu_Sof
| Stream_Send "u8 list"
| Pwm_Start
| Pwm_Enable nat u32
| Sys_Disable
| Mmio_Put mmio u32
| Set_MSP u32
| Jump u32

record board = ee +
  ios :: nat
  clock_in :: "nat \<Rightarrow> u32"
  pad_in :: "nat \<Rightarrow> pad \<Rightarrow> bool"
  bus_in :: "nat \<Rightarrow> nat \<Rightarrow> u8"
  adc_in :: "nat \<Rightarrow> nat \<Rightarrow> u16"
  nvic_active :: "nat \<Rightarrow> nat \<Rightarrow> u32"
  pads :: "pad \<Rightarrow> bool"
  events :: "io_event list"

subsection \<open>Driver calls\<close>

definition emit :: "io_event \<Rightarrow> 'a board_scheme \<Rightarrow> 'a board_scheme" where
  "emit e s = s\<lparr>ios := Suc (ios s), events := events s @ [e]\<rparr>"

definition palSetPadMode :: "pad \<Rightarrow> u32 \<Rightarrow> 'a board_scheme \<Rightarrow> 'a board_scheme" where
  "palSetPadMode p m = emit (Pad_Mode p m)"

definition palWritePad :: "pad \<Rightarrow> bool \<Rightarrow> 'a board_scheme \<Rightarrow> 'a board_scheme" where
  "palWritePad p b s = emit (Pad_Write p b) (s\<lparr>pads := (pads s)(p := b)\<rparr>)"

definition palSetPad :: "pad \<Rightarrow> 'a board_scheme \<Rightarrow> 'a board_scheme" where
  "palSetPad p = palWritePad p True"

definition palClearPad :: "pad \<Rightarrow> 'a board_scheme \<Rightarrow> 'a board_scheme" where
  "palClearPad p = palWritePad p False"

definition palReadPad :: "pad \<Rightarrow> 'a board_scheme \<Rightarrow> bool \<times> 'a board_scheme" where
  "palReadPad p s = (pad_in s (ios s) p, s\<lparr>ios := Suc (ios s)\<rparr>)"

definition i2cMasterTransmit ::
    "u8 \<Rightarrow> u8 list \<Rightarrow> nat \<Rightarrow> 'a board_scheme \<Rightarrow> u8 list \<times> 'a board_scheme" where
  "i2cMasterTransmit a tx n s = (map (bus_in s (ios s)) [0..<n], emit (I2C_Transmit a tx) s)"

definition i2cSend :: "u8 \<Rightarrow> u8 list \<Rightarrow> 'a board_scheme \<Rightarrow> 'a board_scheme" where
  "i2cSend a tx s = snd (i2cMasterTransmit a tx 0 s)"

definition spiExchange :: "u8 list \<Rightarrow> 'a board_scheme \<Rightarrow> u8 list \<times> 'a board_scheme" where
  "spiExchange tx s = (map (bus_in s (ios s)) [0..<length tx], emit (SPI_Exchange tx) s)"

definition adcConvert :: "nat list \<Rightarrow> 'a board_scheme \<Rightarrow> u16 list \<times> 'a board_scheme" where
  "adcConvert chs s = (map (adc_in s (ios s)) chs, s\<lparr>ios := Suc (ios s)\<rparr>)"

subsection \<open>System time\<close>

text \<open>
  CH_CFG_ST_FREQUENCY is 10000 (chconf.h); the macros compute with 32-bit unsigned
  numbers, and their products wrap around.
\<close>

definition CH_CFG_ST_FREQUENCY :: u32 where "CH_CFG_ST_FREQUENCY = 10000"

definition MS2ST :: "u32 \<Rightarrow> u32" where
  "MS2ST msec = (msec * CH_CFG_ST_FREQUENCY + 999) div 1000"

definition ST2MS :: "u32 \<Rightarrow> u32" where
  "ST2MS n = (n * 1000 + CH_CFG_ST_FREQUENCY - 1) div CH_CFG_ST_FREQUENCY"

definition ST2US :: "u32 \<Rightarrow> u32" where
  "ST2US n = (n * 1000000 + CH_CFG_ST_FREQUENCY - 1) div CH_CFG_ST_FREQUENCY"

definition chVTGetSystemTime :: "'a board_scheme \<Rightarrow> u32 \<times> 'a board_scheme" where
  "chVTGetSystemTime s = (clock_in s (ios s), s\<lparr>ios := Suc (ios s)\<rparr>)"

definition chVTTimeElapsedSinceX :: "u32 \<Rightarrow> 'a board_scheme \<Rightarrow> u32 \<times> 'a board_scheme" where
  "chVTTimeElapsedSinceX start s = (let (t, s') = chVTGetSystemTime s in (t - start, s'))"

lemma unat_ticks:
  "unat (n * 1000 + 10000 - 1 :: u32) = (unat n * 1000 + 9999) mod 2 ^ 32"
  "unat (n * 1000000 + 10000 - 1 :: u32) = (unat n * 1000000 + 9999) mod 2 ^ 32"
proof -
  have n: "n * 1000 + 10000 - 1 = n * 1000 + 9999" "n * 1000000 + 10000 - 1 = n * 1000000 + 9999"
    by simp_all
  show "unat (n * 1000 + 10000 - 1) = (unat n * 1000 + 9999) mod 2 ^ 32"
    "unat (n * 1000000 + 10000 - 1) = (unat n * 1000000 + 9999) mod 2 ^ 32"
    unfolding n by (simp_all add: unat_word_ariths mod_simps)
qed

lemma wrapped_div_less:
  fixes a d m :: nat
  assumes "m \<le> a" and "0 < d" and "d \<le> m"
  shows "a mod m div d < a div d"
proof -
  have "a mod m = (a - m) mod m" using assms(1) by (rule le_mod_geq)
  also have "\<dots> \<le> a - m" by (rule mod_less_eq_dividend)
  also have "\<dots> \<le> a - d" using assms(3) by simp
  finally have "a mod m \<le> a - d" .
  then have "a mod m div d \<le> (a - d) div d" by (rule div_le_mono)
  also have "\<dots> < a div d" using le_div_geq[OF assms(2) le_trans[OF assms(3,1)]] by linarith
  finally show ?thesis .
qed

text \<open>
  The conversion of elapsed ticks to milliseconds is right, rounded up, exactly for
  less than 4294958 ticks (about 429 s); after that the 32-bit product wraps around.
\<close>

theorem ST2MS_exact:
  "unat (ST2MS n) = (unat n + 9) div 10 \<longleftrightarrow> unat n < 4294958"
proof -
  have e: "(unat n + 9) div 10 = (unat n * 1000 + 9999) div 10000"
    using div_mult2_eq[of "unat n * 1000 + 9999" 1000 10] by simp
  have v: "unat (ST2MS n) = (unat n * 1000 + 9999) mod 2 ^ 32 div 10000"
    by (simp add: ST2MS_def CH_CFG_ST_FREQUENCY_def unat_div unat_ticks[simplified])
  show ?thesis
  proof (cases "unat n < 4294958")
    case True
    then show ?thesis unfolding e v by simp
  next
    case False
    then have "(unat n * 1000 + 9999) mod 2 ^ 32 div 10000 < (unat n * 1000 + 9999) div 10000"
      by (intro wrapped_div_less) simp_all
    with False show ?thesis unfolding e v by simp
  qed
qed

text \<open>
  The conversion to microseconds is right exactly for less than 4295 ticks (0.4295 s).
\<close>

theorem ST2US_exact:
  "unat (ST2US n) = unat n * 100 \<longleftrightarrow> unat n < 4295"
proof -
  have e: "unat n * 100 = (unat n * 1000000 + 9999) div 10000"
    using div_mult_self3[of 10000 "unat n * 100" 9999] by (simp add: mult.commute)
  have v: "unat (ST2US n) = (unat n * 1000000 + 9999) mod 2 ^ 32 div 10000"
    by (simp add: ST2US_def CH_CFG_ST_FREQUENCY_def unat_div unat_ticks[simplified])
  show ?thesis
  proof (cases "unat n < 4295")
    case True
    then show ?thesis unfolding e v by simp
  next
    case False
    then have "(unat n * 1000000 + 9999) mod 2 ^ 32 div 10000 < (unat n * 1000000 + 9999) div 10000"
      by (intro wrapped_div_less) simp_all
    with False show ?thesis unfolding e v by simp
  qed
qed

end
