(* ===== verification/Float32.thy ===== *)
theory Float32
  imports Prelude
begin

text \<open>
  The floating-point arithmetic of the firmware. A value is a rational number, an infinity
  or not a number; an operation of the code is the exact operation followed by rounding to
  nearest, ties to even, in the format of the expression (binary32 for float, binary64
  for double). Zero has no sign here: no comparison of the firmware depends on it.
  The stored form of a float is its 32-bit pattern.
\<close>

datatype fp = Fin rat | Inf bool | NaN

subsection \<open>Rounding\<close>

definition round_even :: "rat \<Rightarrow> int" where
  "round_even x =
     (let n = \<lfloor>x\<rfloor>; r = x - of_int n in
      if r < 1 / 2 then n else if 1 / 2 < r then n + 1
      else if even n then n else n + 1)"

fun log2 :: "nat \<Rightarrow> nat" where
  "log2 n = (if n < 2 then 0 else Suc (log2 (n div 2)))"

declare log2.simps [simp del]

text \<open>The exponent of the power of two at or below a positive number.\<close>

definition binade :: "rat \<Rightarrow> int" where
  "binade x =
     (let (n, d) = quotient_of x; k = int (log2 (nat n)) - int (log2 (nat d)) in
      if x < 2 powi k then k - 1 else k)"

text \<open>
  Rounding to a format with \<open>p\<close> bits of precision, least exponent \<open>emin\<close> of the last
  place and greatest exponent \<open>emax\<close>.
\<close>

definition round_mag :: "nat \<Rightarrow> int \<Rightarrow> rat \<Rightarrow> rat" where
  "round_mag p emin x =
     (if x = 0 then 0
      else let e = max (binade x - (int p - 1)) emin
           in of_int (round_even (x / 2 powi e)) * 2 powi e)"

definition round_fp :: "nat \<Rightarrow> int \<Rightarrow> int \<Rightarrow> rat \<Rightarrow> fp" where
  "round_fp p emin emax x =
     (let y = round_mag p emin \<bar>x\<bar> in
      if 2 powi (emax + 1) \<le> y then Inf (x < 0) else Fin (if x < 0 then - y else y))"

definition rnd32 :: "rat \<Rightarrow> fp" where "rnd32 = round_fp 24 (-149) 127"
definition rnd64 :: "rat \<Rightarrow> fp" where "rnd64 = round_fp 53 (-1074) 1023"

subsection \<open>Operations and comparisons\<close>

fun fp_neg :: "fp \<Rightarrow> fp" where
  "fp_neg (Fin x) = Fin (- x)"
| "fp_neg (Inf s) = Inf (\<not> s)"
| "fp_neg NaN = NaN"

fun fp_add :: "(rat \<Rightarrow> fp) \<Rightarrow> fp \<Rightarrow> fp \<Rightarrow> fp" where
  "fp_add r (Fin x) (Fin y) = r (x + y)"
| "fp_add r (Inf s) (Inf t) = (if s = t then Inf s else NaN)"
| "fp_add r (Inf s) (Fin y) = Inf s"
| "fp_add r (Fin x) (Inf t) = Inf t"
| "fp_add r NaN b = NaN"
| "fp_add r a NaN = NaN"

definition fp_sub :: "(rat \<Rightarrow> fp) \<Rightarrow> fp \<Rightarrow> fp \<Rightarrow> fp" where
  "fp_sub r a b = fp_add r a (fp_neg b)"

fun fp_mul :: "(rat \<Rightarrow> fp) \<Rightarrow> fp \<Rightarrow> fp \<Rightarrow> fp" where
  "fp_mul r (Fin x) (Fin y) = r (x * y)"
| "fp_mul r (Inf s) (Inf t) = Inf (s \<noteq> t)"
| "fp_mul r (Inf s) (Fin y) = (if y = 0 then NaN else Inf (s \<noteq> (y < 0)))"
| "fp_mul r (Fin x) (Inf t) = (if x = 0 then NaN else Inf ((x < 0) \<noteq> t))"
| "fp_mul r NaN b = NaN"
| "fp_mul r a NaN = NaN"

fun fp_div :: "(rat \<Rightarrow> fp) \<Rightarrow> fp \<Rightarrow> fp \<Rightarrow> fp" where
  "fp_div r (Fin x) (Fin y) =
     (if y = 0 then if x = 0 then NaN else Inf (x < 0) else r (x / y))"
| "fp_div r (Inf s) (Inf t) = NaN"
| "fp_div r (Inf s) (Fin y) = Inf (s \<noteq> (y < 0))"
| "fp_div r (Fin x) (Inf t) = Fin 0"
| "fp_div r NaN b = NaN"
| "fp_div r a NaN = NaN"

fun fp_less :: "fp \<Rightarrow> fp \<Rightarrow> bool" where
  "fp_less (Fin x) (Fin y) = (x < y)"
| "fp_less (Inf s) (Inf t) = (s \<and> \<not> t)"
| "fp_less (Inf s) (Fin y) = s"
| "fp_less (Fin x) (Inf t) = (\<not> t)"
| "fp_less NaN b = False"
| "fp_less a NaN = False"

definition fp_eq :: "fp \<Rightarrow> fp \<Rightarrow> bool" where
  "fp_eq a b \<longleftrightarrow> a \<noteq> NaN \<and> b \<noteq> NaN \<and> a = b"

definition fp_le :: "fp \<Rightarrow> fp \<Rightarrow> bool" where
  "fp_le a b \<longleftrightarrow> fp_less a b \<or> fp_eq a b"

text \<open>Converting a double back to a float rounds once more; an integer is exact first.\<close>

fun to32 :: "fp \<Rightarrow> fp" where
  "to32 (Fin x) = rnd32 x"
| "to32 a = a"

definition int_f32 :: "int \<Rightarrow> fp" where "int_f32 n = rnd32 (of_int n)"

fun fp_ceil :: "fp \<Rightarrow> fp" where
  "fp_ceil (Fin x) = Fin (of_int \<lceil>x\<rceil>)"
| "fp_ceil a = a"

fun fp_abs :: "fp \<Rightarrow> fp" where
  "fp_abs (Fin x) = Fin \<bar>x\<bar>"
| "fp_abs (Inf s) = Inf False"
| "fp_abs NaN = NaN"

text \<open>
  Conversion to an integer type truncates towards zero; outside the range of the type it
  is undefined in C.
\<close>

fun fp_trunc :: "fp \<Rightarrow> int option" where
  "fp_trunc (Fin x) = Some (if x < 0 then - \<lfloor>- x\<rfloor> else \<lfloor>x\<rfloor>)"
| "fp_trunc a = None"

subsection \<open>Bit patterns\<close>

definition f32_of_bits :: "u32 \<Rightarrow> fp" where
  "f32_of_bits w =
     (let s = bit w 31;
          ex = uint (drop_bit 23 w AND 0xFF);
          man = uint (w AND 0x7FFFFF);
          sg = (\<lambda>x. if s then - x else x)
      in if ex = 255 then (if man = 0 then Inf s else NaN)
         else if ex = 0 then Fin (sg (of_int man * 2 powi (-149)))
         else Fin (sg (of_int (man + 2 ^ 23) * 2 powi (ex - 150))))"

definition mag_bits :: "rat \<Rightarrow> int" where
  "mag_bits x =
     (if x = 0 then 0
      else let e = max (binade x - 23) (-149); m = \<lfloor>x / 2 powi e\<rfloor>
           in if m < 2 ^ 23 then m else (e + 150) * 2 ^ 23 + (m - 2 ^ 23))"

fun bits_of_f32 :: "fp \<Rightarrow> u32" where
  "bits_of_f32 (Fin x) = (if x < 0 then 0x80000000 else 0) OR of_int (mag_bits \<bar>x\<bar>)"
| "bits_of_f32 (Inf s) = (if s then 0xFF800000 else 0x7F800000)"
| "bits_of_f32 NaN = 0x7FC00000"

subsection \<open>Rounding is correct\<close>

lemma round_even_int [simp]: "round_even (of_int n) = n"
  by (simp add: round_even_def)

lemma round_even_near: "\<bar>x - of_int (round_even x)\<bar> \<le> 1 / 2"
proof -
  obtain f where f: "\<lfloor>x\<rfloor> = f" by simp
  have "of_int f \<le> x" "x < of_int f + 1" using f by linarith+
  then show ?thesis unfolding round_even_def Let_def f by (auto simp: abs_if)
qed

lemma round_evenI:
  assumes "of_int m - 1 / 2 < x" and "x < of_int m + 1 / 2"
  shows "round_even x = m"
proof -
  have "\<bar>of_int (round_even x) - of_int m :: rat\<bar> < 1"
    using round_even_near[of x] assms by linarith
  then have "\<bar>round_even x - m\<bar> < 1" by (metis of_int_abs of_int_diff of_int_less_1_iff)
  then show ?thesis by simp
qed

lemma round_even_mono:
  assumes "x \<le> y"
  shows "round_even x \<le> round_even y"
proof (cases "\<lfloor>x\<rfloor> = \<lfloor>y\<rfloor>")
  case True
  with assms show ?thesis by (auto simp: round_even_def Let_def)
next
  case False
  have "round_even x \<le> \<lfloor>x\<rfloor> + 1" and "\<lfloor>y\<rfloor> \<le> round_even y"
    by (auto simp: round_even_def Let_def)
  moreover have "\<lfloor>x\<rfloor> + 1 \<le> \<lfloor>y\<rfloor>" using False floor_mono[OF assms] by linarith
  ultimately show ?thesis by linarith
qed

lemma log2_bounds: "0 < n \<Longrightarrow> 2 ^ log2 n \<le> n \<and> n < 2 ^ Suc (log2 n)"
proof (induction n rule: log2.induct)
  case (1 n)
  show ?case
  proof (cases "n < 2")
    case True
    with 1(2) show ?thesis by (subst (1 2) log2.simps) simp
  next
    case False
    with 1(1) have "2 ^ log2 (n div 2) \<le> n div 2 \<and> n div 2 < 2 ^ Suc (log2 (n div 2))" by simp
    with False show ?thesis by (subst (1 2) log2.simps) auto
  qed
qed

lemma log2_rat:
  assumes "0 < n"
  shows "(2::rat) ^ log2 (nat n) \<le> of_int n \<and> of_int n < (2::rat) ^ Suc (log2 (nat n))"
proof -
  have "2 ^ log2 (nat n) \<le> nat n" "nat n < 2 ^ Suc (log2 (nat n))"
    using log2_bounds[of "nat n"] assms by auto
  then have "of_nat (2 ^ log2 (nat n)) \<le> (of_nat (nat n) :: rat)"
    and "(of_nat (nat n) :: rat) < of_nat (2 ^ Suc (log2 (nat n)))"
    by (simp_all only: of_nat_le_iff of_nat_less_iff)
  with assms show ?thesis by simp
qed

lemma binade_bounds:
  assumes "0 < x"
  shows "2 powi binade x \<le> x \<and> x < 2 powi (binade x + 1)"
proof -
  obtain n d where q: "quotient_of x = (n, d)" by (cases "quotient_of x")
  have d: "0 < d" and x: "x = of_int n / of_int d"
    using quotient_of_denom_pos[OF q] quotient_of_div[OF q] by auto
  with assms have n: "0 < n" by (simp add: zero_less_divide_iff)
  let ?a = "log2 (nat n)" and ?b = "log2 (nat d)"
  let ?k = "int ?a - int ?b"
  have nb: "(2::rat) ^ ?a \<le> of_int n" "of_int n < (2::rat) ^ Suc ?a"
    and db: "(2::rat) ^ ?b \<le> of_int d" "of_int d < (2::rat) ^ Suc ?b"
    using log2_rat[OF n] log2_rat[OF d] by auto
  have pow: "(2::rat) powi ?k = 2 ^ ?a / 2 ^ ?b"
    by (simp add: power_int_diff)
  have up: "x < (2::rat) powi (?k + 1)"
  proof -
    have "x < 2 ^ Suc ?a / of_int d" using nb d unfolding x by (simp add: divide_strict_right_mono)
    also have "\<dots> \<le> 2 ^ Suc ?a / 2 ^ ?b" using db d by (intro divide_left_mono) auto
    finally show ?thesis by (simp add: power_int_add pow mult.commute)
  qed
  have low: "(2::rat) powi (?k - 1) \<le> x"
  proof -
    have "(2::rat) powi (?k - 1) = 2 ^ ?a / 2 ^ Suc ?b" by (simp add: power_int_diff pow)
    also have "\<dots> \<le> 2 ^ ?a / of_int d" using db d by (intro divide_left_mono) auto
    also have "\<dots> \<le> x" using nb d unfolding x by (simp add: divide_right_mono)
    finally show ?thesis .
  qed
  from up low show ?thesis by (auto simp: binade_def q Let_def)
qed

lemma powi_mono2: "(2::rat) powi a \<le> 2 powi b \<longleftrightarrow> a \<le> b"
  by (meson not_le one_less_numeral_iff power_int_increasing power_int_strict_increasing
      order_less_imp_le semiring_norm(76) one_le_numeral)

lemma binade_unique:
  assumes "2 powi k \<le> x" and "x < 2 powi (k + 1)"
  shows "binade x = k"
proof -
  have "0 < x" using assms(1) by (rule less_le_trans[rotated]) simp
  note B = binade_bounds[OF this]
  have "k < binade x + 1"
    using B assms(1) by (meson le_less_trans power_int_strict_increasing not_le powi_mono2)
  moreover have "binade x < k + 1"
    using B assms(2) by (meson le_less_trans not_le powi_mono2)
  ultimately show ?thesis by linarith
qed

lemma binade_scaled:
  assumes "2 ^ n \<le> m" and "m < 2 ^ Suc n"
  shows "binade (of_int m * 2 powi e) = e + int n"
proof (rule binade_unique)
  from assms have m: "(2::rat) ^ n \<le> of_int m" "of_int m < (2::rat) ^ Suc n"
    by (metis of_int_le_iff of_int_numeral of_int_power, metis of_int_less_iff of_int_numeral of_int_power)
  have "2 powi (e + int n) = (2::rat) ^ n * 2 powi e" by (simp add: power_int_add)
  also have "\<dots> \<le> of_int m * 2 powi e" by (rule mult_right_mono[OF m(1)]) simp
  finally show "2 powi (e + int n) \<le> (of_int m * 2 powi e :: rat)" .
  have "of_int m * 2 powi e < 2 ^ Suc n * (2::rat) powi e"
    by (rule mult_strict_right_mono[OF m(2)]) simp
  then show "(of_int m * 2 powi e :: rat) < 2 powi (e + int n + 1)"
    by (simp add: power_int_add mult.commute mult.left_commute)
qed

text \<open>A number the format can represent is not changed by rounding.\<close>

definition fits :: "nat \<Rightarrow> int \<Rightarrow> rat \<Rightarrow> bool" where
  "fits p emin x \<longleftrightarrow> (\<exists>m e. x = of_int m * 2 powi e \<and> 0 \<le> m \<and> m < 2 ^ p \<and> emin \<le> e)"

lemma binade_fits:
  assumes "x = of_int m * 2 powi e" and "0 < m" and "m < 2 ^ p"
  shows "binade x \<le> e + int p - 1"
proof -
  have "0 < x" using assms(1,2) by simp
  note B = binade_bounds[OF this]
  have "(of_int m :: rat) < 2 ^ p" using assms(3) by (metis of_int_less_iff of_int_numeral of_int_power)
  then have "x < 2 ^ p * 2 powi e" unfolding assms(1) by (intro mult_strict_right_mono) auto
  also have "\<dots> = 2 powi (e + int p)" by (simp add: power_int_add)
  finally have "binade x < e + int p"
    using B by (meson le_less_trans not_le powi_mono2)
  then show ?thesis by linarith
qed

lemma round_mag_exact:
  assumes "fits p emin x"
  shows "round_mag p emin x = x"
proof -
  from assms obtain m e where x: "x = of_int m * 2 powi e" and m: "0 \<le> m" "m < 2 ^ p"
    and e: "emin \<le> e" by (auto simp: fits_def)
  show ?thesis
  proof (cases "m = 0")
    case True
    then show ?thesis by (simp add: round_mag_def x)
  next
    case False
    let ?f = "max (binade x - (int p - 1)) emin"
    have "binade x \<le> e + int p - 1" using binade_fits[OF x _ m(2)] m False by simp
    with e have f: "?f \<le> e" by simp
    have "x / 2 powi ?f = of_int m * 2 powi (e - ?f)" by (simp add: x power_int_diff)
    also have "\<dots> = of_int (m * 2 ^ nat (e - ?f))"
      using f by (simp add: power_int_def)
    finally have "x / 2 powi ?f = of_int (m * 2 ^ nat (e - ?f))" .
    then have "round_mag p emin x = x / 2 powi ?f * 2 powi ?f"
      using False by (simp only: round_mag_def Let_def round_even_int) (simp add: x)
    then show ?thesis by simp
  qed
qed

lemma round_mag_power [simp]: "emin \<le> k \<Longrightarrow> 1 \<le> p \<Longrightarrow> round_mag p emin (2 powi k) = 2 powi k"
  by (rule round_mag_exact, unfold fits_def, rule exI[of _ 1], rule exI[of _ k])
    (simp add: one_less_power)

text \<open>Rounding is monotone.\<close>

lemma binade_mono:
  assumes "0 < x" and "x \<le> y"
  shows "binade x \<le> binade y"
proof -
  have "0 < y" using assms by simp
  have "2 powi binade x \<le> x" "y < 2 powi (binade y + 1)"
    using binade_bounds[OF assms(1)] binade_bounds[OF \<open>0 < y\<close>] by auto
  then have "(2::rat) powi binade x < 2 powi (binade y + 1)" using assms(2) by linarith
  then have "binade x < binade y + 1" by (meson not_le powi_mono2)
  then show ?thesis by simp
qed

lemma round_at_mono:
  "x \<le> y \<Longrightarrow> of_int (round_even (x / 2 powi e)) * 2 powi e
     \<le> (of_int (round_even (y / 2 powi e)) * 2 powi e :: rat)"
  by (intro mult_right_mono of_int_le_iff[THEN iffD2] round_even_mono divide_right_mono) simp_all

lemma round_at_power:
  assumes "e \<le> k"
  shows "of_int (round_even (2 powi k / 2 powi e)) * 2 powi e = (2 powi k :: rat)"
proof -
  have "(2::rat) powi k / 2 powi e = 2 powi (k - e)" by (simp add: power_int_diff)
  also have "\<dots> = of_int (2 ^ nat (k - e))" using assms by (simp add: power_int_def)
  finally have *: "(2::rat) powi k / 2 powi e = of_int (2 ^ nat (k - e))" .
  then have "of_int (round_even (2 powi k / 2 powi e)) = (2::rat) powi k / 2 powi e"
    by (simp only: round_even_int)
  then show ?thesis by simp
qed

lemma round_mag_nonneg: "0 \<le> x \<Longrightarrow> 0 \<le> round_mag p emin x"
  using round_at_mono[of 0 x] round_even_int[of 0] by (auto simp: round_mag_def Let_def)

lemma round_mag_mono:
  assumes "0 \<le> x" and "x \<le> y" and "1 \<le> p"
  shows "round_mag p emin x \<le> round_mag p emin y"
proof (cases "x = 0")
  case True
  then show ?thesis using round_mag_nonneg[of y] assms by (simp add: round_mag_def)
next
  case False
  with assms have x: "0 < x" and y: "0 < y" by auto
  let ?e = "max (binade x - (int p - 1)) emin" and ?f = "max (binade y - (int p - 1)) emin"
  have b: "binade x \<le> binade y" using x assms(2) by (rule binade_mono)
  have rx: "round_mag p emin x = of_int (round_even (x / 2 powi ?e)) * 2 powi ?e"
    and ry: "round_mag p emin y = of_int (round_even (y / 2 powi ?f)) * 2 powi ?f"
    using x y by (simp_all add: round_mag_def Let_def)
  show ?thesis
  proof (cases "?e = ?f")
    case True
    show ?thesis unfolding rx ry True by (rule round_at_mono[OF assms(2)])
  next
    case False
    with b have lt: "binade x < binade y" and ef: "?e \<le> binade y" "?f \<le> binade y"
      using assms(3) by auto
    have "x \<le> 2 powi binade y"
    proof -
      have "x < 2 powi (binade x + 1)" using binade_bounds[OF x] by blast
      also have "\<dots> \<le> 2 powi binade y" using lt by (simp add: powi_mono2)
      finally show ?thesis by simp
    qed
    from round_at_mono[OF this, of ?e] have "round_mag p emin x \<le> 2 powi binade y"
      unfolding rx round_at_power[OF ef(1)] .
    moreover have "2 powi binade y \<le> y" using binade_bounds[OF y] by blast
    from round_at_mono[OF this, of ?f] have "2 powi binade y \<le> round_mag p emin y"
      unfolding ry round_at_power[OF ef(2)] .
    ultimately show ?thesis by simp
  qed
qed

definition mono_round :: "(rat \<Rightarrow> fp) \<Rightarrow> bool" where
  "mono_round r \<longleftrightarrow> (\<forall>x y. x \<le> y \<longrightarrow> fp_le (r x) (r y))"

lemma fp_le_simps [simp]:
  "fp_le (Fin x) (Fin y) \<longleftrightarrow> x \<le> y" "fp_le (Inf s) (Fin y) \<longleftrightarrow> s" "fp_le (Fin x) (Inf s) \<longleftrightarrow> \<not> s"
  "fp_le (Inf s) (Inf t) \<longleftrightarrow> s \<or> \<not> t" "\<not> fp_le NaN a" "\<not> fp_le a NaN"
  by (cases a; auto simp: fp_le_def fp_eq_def)+

lemma fp_le_trans: "fp_le a b \<Longrightarrow> fp_le b c \<Longrightarrow> fp_le a c"
  by (cases a; cases b; cases c) auto

lemma round_fp_mono:
  assumes "1 \<le> p"
  shows "mono_round (round_fp p emin emax)"
  unfolding mono_round_def
proof (intro allI impI)
  fix x y :: rat
  assume xy: "x \<le> y"
  let ?r = "round_mag p emin"
  have pos: "?r \<bar>a\<bar> \<le> ?r \<bar>b\<bar>" if "\<bar>a\<bar> \<le> \<bar>b\<bar>" for a b using that assms by (intro round_mag_mono) auto
  have nn: "0 \<le> ?r \<bar>a\<bar>" for a by (rule round_mag_nonneg) simp
  consider "0 \<le> x" | "x < 0" "0 \<le> y" | "y < 0" using xy by linarith
  then show "fp_le (round_fp p emin emax x) (round_fp p emin emax y)"
  proof cases
    case 1
    then have "\<bar>x\<bar> \<le> \<bar>y\<bar>" using xy by simp
    from pos[OF this] show ?thesis using 1 xy by (auto simp: round_fp_def Let_def)
  next
    case 2
    have "- ?r \<bar>x\<bar> \<le> ?r \<bar>y\<bar>" using nn[of x] nn[of y] by linarith
    with 2 show ?thesis by (auto simp: round_fp_def Let_def)
  next
    case 3
    then have "\<bar>y\<bar> \<le> \<bar>x\<bar>" using xy by simp
    from pos[OF this] show ?thesis using 3 xy by (auto simp: round_fp_def Let_def)
  qed
qed

lemma mono_rnd [simp]: "mono_round rnd32" "mono_round rnd64"
  by (simp_all add: rnd32_def rnd64_def round_fp_mono)

lemma round_0 [simp]: "rnd32 0 = Fin 0" "rnd64 0 = Fin 0"
  by (simp_all add: rnd32_def rnd64_def round_fp_def round_mag_def)

lemma mono_roundD: "mono_round r \<Longrightarrow> x \<le> y \<Longrightarrow> fp_le (r x) (r y)"
  by (simp add: mono_round_def)

lemma mono_round_inf:
  assumes "mono_round r"
  shows "fp_le (r x) (Inf False)" and "fp_le (Inf True) (r x)"
proof -
  have "fp_le (r x) (r x)" using assms by (simp add: mono_round_def)
  then show "fp_le (r x) (Inf False)" and "fp_le (Inf True) (r x)" by (cases "r x"; simp)+
qed

lemma fp_mul_mono:
  assumes "mono_round r" and "0 < c" and "fp_le a b"
  shows "fp_le (fp_mul r a (Fin c)) (fp_mul r b (Fin c))"
  using assms by (cases a; cases b) (auto intro!: mono_roundD mono_round_inf)

lemma fp_div_mono:
  assumes "mono_round r" and "0 < c" and "fp_le a b"
  shows "fp_le (fp_div r a (Fin c)) (fp_div r b (Fin c))"
  using assms by (cases a; cases b) (auto intro!: mono_roundD mono_round_inf divide_right_mono)

lemma to32_mono: "fp_le a b \<Longrightarrow> fp_le (to32 a) (to32 b)"
  by (cases a; cases b) (auto intro!: mono_roundD mono_round_inf)

lemma round_fp_bounds:
  assumes "0 \<le> x" and "x \<le> 2 powi k" and "emin \<le> k" and "k \<le> emax" and "1 \<le> p"
  shows "\<exists>y. round_fp p emin emax x = Fin y \<and> 0 \<le> y \<and> y \<le> 2 powi k"
proof -
  let ?y = "round_mag p emin x"
  have "?y \<le> round_mag p emin (2 powi k)" using assms by (intro round_mag_mono)
  then have y: "?y \<le> 2 powi k" using assms by (simp only: round_mag_power)
  have "(2::rat) powi k < 2 powi (emax + 1)" using assms(4) by (intro power_int_strict_increasing) auto
  with y have "\<not> 2 powi (emax + 1) \<le> ?y" by linarith
  moreover have "\<bar>x\<bar> = x" "\<not> x < 0" using assms(1) by simp_all
  ultimately have "round_fp p emin emax x = Fin ?y" unfolding round_fp_def Let_def by (simp only: if_False)
  with y round_mag_nonneg[OF assms(1), of p emin] show ?thesis by blast
qed

lemmas rnd64_bounds = round_fp_bounds[of _ _ "-1074" 1023 53, folded rnd64_def]
lemmas rnd32_bounds = round_fp_bounds[of _ _ "-149" 127 24, folded rnd32_def]

text \<open>A lower bound that is a power of two survives rounding as well.\<close>

lemma round_fp_lower:
  assumes "2 powi k \<le> x" and "emin \<le> k" and "1 \<le> p" and "round_fp p emin emax x = Fin y"
  shows "2 powi k \<le> y"
proof -
  have "(0::rat) < 2 powi k" by simp
  then have x: "0 < x" using assms(1) by linarith
  have "round_mag p emin (2 powi k) \<le> round_mag p emin x"
    using assms by (intro round_mag_mono) simp_all
  then have "2 powi k \<le> round_mag p emin x" using assms by (simp only: round_mag_power)
  moreover have "\<bar>x\<bar> = x" "\<not> x < 0" using x by simp_all
  ultimately show ?thesis using assms(4) by (simp add: round_fp_def Let_def split: if_splits)
qed

lemmas rnd64_lower = round_fp_lower[of _ _ "-1074" 53 1023, folded rnd64_def]
lemmas rnd32_lower = round_fp_lower[of _ _ "-149" 24 127, folded rnd32_def]

text \<open>Numbers that are exact, and bounds by powers of two.\<close>

lemma round_fp_exact:
  assumes "fits p emin \<bar>x\<bar>" and "\<bar>x\<bar> < 2 powi (emax + 1)"
  shows "round_fp p emin emax x = Fin x"
  using assms by (simp add: round_fp_def Let_def round_mag_exact)

lemma fits_int: "0 \<le> n \<Longrightarrow> n < 2 ^ p \<Longrightarrow> emin \<le> 0 \<Longrightarrow> fits p emin (of_int n)"
  unfolding fits_def by (rule exI[of _ n], rule exI[of _ 0]) simp

lemma int_exact:
  assumes "\<bar>n\<bar> < 2 ^ 24"
  shows "int_f32 n = Fin (of_int n)" and "rnd32 (of_int n) = Fin (of_int n)"
    and "rnd64 (of_int n) = Fin (of_int n)"
proof -
  have a: "\<bar>of_int n :: rat\<bar> = of_int \<bar>n\<bar>" by simp
  have b: "(of_int \<bar>n\<bar> :: rat) < 2 ^ 24" using assms by (metis of_int_less_iff of_int_numeral of_int_power)
  have f: "fits 24 (-149) \<bar>of_int n\<bar>" "fits 53 (-1074) \<bar>of_int n\<bar>"
    unfolding a using assms by (intro fits_int; simp)+
  have "(2::rat) ^ 24 \<le> 2 powi 128" "(2::rat) ^ 24 \<le> 2 powi 1024" by simp_all
  with b have l: "\<bar>of_int n :: rat\<bar> < 2 powi (127 + 1)" "\<bar>of_int n :: rat\<bar> < 2 powi (1023 + 1)"
    unfolding a by simp_all
  show "rnd32 (of_int n) = Fin (of_int n)" unfolding rnd32_def by (rule round_fp_exact[OF f(1) l(1)])
  then show "int_f32 n = Fin (of_int n)" by (simp add: int_f32_def)
  show "rnd64 (of_int n) = Fin (of_int n)" unfolding rnd64_def by (rule round_fp_exact[OF f(2) l(2)])
qed

lemma num_exact:
  "(numeral n :: nat) < 2 ^ 24 \<Longrightarrow> rnd32 (numeral n) = Fin (numeral n)"
  "(numeral n :: nat) < 2 ^ 24 \<Longrightarrow> rnd64 (numeral n) = Fin (numeral n)"
  "rnd32 1 = Fin 1" "rnd64 1 = Fin 1"
  using int_exact(2,3)[of "numeral n"] int_exact(2,3)[of 1] by simp_all

lemma round_fp_power:
  assumes "emin \<le> k" and "k \<le> emax" and "1 \<le> p"
  shows "round_fp p emin emax (2 powi k) = Fin (2 powi k)"
proof (rule round_fp_exact)
  have a: "\<bar>2 powi k :: rat\<bar> = 2 powi k" by simp
  show "fits p emin \<bar>2 powi k\<bar>"
    unfolding a fits_def
    by (rule exI[of _ 1], rule exI[of _ k]) (use assms in \<open>simp add: one_less_power\<close>)
  show "\<bar>2 powi k :: rat\<bar> < 2 powi (emax + 1)"
    unfolding a using assms(2) by (intro power_int_strict_increasing) auto
qed

lemma rnd_ge_power:
  "2 powi k \<le> x \<Longrightarrow> - 1074 \<le> k \<Longrightarrow> k \<le> 1023 \<Longrightarrow> fp_le (Fin (2 powi k)) (rnd64 x)"
  "2 powi k \<le> x \<Longrightarrow> - 149 \<le> k \<Longrightarrow> k \<le> 127 \<Longrightarrow> fp_le (Fin (2 powi k)) (rnd32 x)"
proof -
  have "rnd64 (2 powi k) = Fin (2 powi k)" if "- 1074 \<le> k" "k \<le> 1023"
    unfolding rnd64_def using that by (intro round_fp_power) simp_all
  then show "2 powi k \<le> x \<Longrightarrow> - 1074 \<le> k \<Longrightarrow> k \<le> 1023 \<Longrightarrow> fp_le (Fin (2 powi k)) (rnd64 x)"
    using mono_roundD[OF mono_rnd(2), of "2 powi k" x] by simp
  have "rnd32 (2 powi k) = Fin (2 powi k)" if "- 149 \<le> k" "k \<le> 127"
    unfolding rnd32_def using that by (intro round_fp_power) simp_all
  then show "2 powi k \<le> x \<Longrightarrow> - 149 \<le> k \<Longrightarrow> k \<le> 127 \<Longrightarrow> fp_le (Fin (2 powi k)) (rnd32 x)"
    using mono_roundD[OF mono_rnd(1), of "2 powi k" x] by simp
qed

text \<open>Evaluating the rounding of a constant whose binade is known.\<close>

lemma round_fp_eval:
  assumes "2 powi k \<le> x" and "x < 2 powi (k + 1)" and "e = max (k - (int p - 1)) emin"
    and "round_even (x / 2 powi e) = m" and "of_int m * 2 powi e < (2 :: rat) powi (emax + 1)"
  shows "round_fp p emin emax x = Fin (of_int m * 2 powi e)"
proof -
  have "(0::rat) < 2 powi k" by simp
  then have x: "0 < x" using assms(1) by linarith
  have "binade x = k" using assms(1,2) by (rule binade_unique)
  then have "round_mag p emin x = of_int m * 2 powi e"
    using x assms(3,4) by (simp add: round_mag_def Let_def)
  with x assms(5) show ?thesis by (simp add: round_fp_def Let_def)
qed

subsection \<open>Storing a float\<close>

lemma mag_bits_scaled:
  assumes "x = of_int m * 2 powi e" and "x \<noteq> 0" and "max (binade x - 23) (-149) = e"
  shows "mag_bits x = (if m < 2 ^ 23 then m else (e + 150) * 2 ^ 23 + (m - 2 ^ 23))"
proof -
  have "x / 2 powi e = of_int m" by (simp add: assms(1))
  then show ?thesis using assms(2,3) by (simp only: mag_bits_def Let_def floor_of_int if_False)
qed

lemma mag_bits_normal:
  assumes "0 \<le> man" and "man < 2 ^ 23" and "1 \<le> ex"
  shows "mag_bits (of_int (man + 2 ^ 23) * 2 powi (ex - 150)) = ex * 2 ^ 23 + man"
proof -
  let ?x = "of_int (man + 2 ^ 23) * 2 powi (ex - 150) :: rat"
  have b: "binade ?x = ex - 127" using binade_scaled[of 23 "man + 2 ^ 23" "ex - 150"] assms by simp
  have "(of_int (man + 2 ^ 23) :: rat) \<noteq> 0" using assms by (simp only: of_int_eq_0_iff)
  then have "?x \<noteq> 0" by simp
  from mag_bits_scaled[OF refl this] b assms show ?thesis by simp
qed

lemma mag_bits_subnormal:
  assumes "0 \<le> man" and "man < 2 ^ 23"
  shows "mag_bits (of_int man * 2 powi (-149)) = man"
proof (cases "man = 0")
  case False
  let ?x = "of_int man * 2 powi (-149) :: rat"
  have "binade ?x \<le> - 149 + int 23 - 1"
    using assms False by (intro binade_fits[OF refl]) simp_all
  then have "max (binade ?x - 23) (-149) = - 149" by simp
  moreover have "?x \<noteq> 0" using False by simp
  ultimately show ?thesis using mag_bits_scaled[OF refl, of man "-149"] assms by (simp only: if_True not_False_eq_True refl simp_thms)
qed (simp add: mag_bits_def)

lemma bits_fields:
  fixes w :: u32
  shows "(if bit w 31 then 0x80000000 else 0) OR
    of_int (uint (drop_bit 23 w AND 0xFF) * 2 ^ 23 + uint (w AND 0x7FFFFF)) = w"
proof -
  let ?a = "drop_bit 23 w AND 0xFF" and ?b = "w AND 0x7FFFFF"
  have m: "(0xFF :: u32) = mask 8" "(0x7FFFFF :: u32) = mask 23" "(0x80000000 :: u32) = 2 ^ 31"
    by (simp_all add: mask_eq_exp_minus_1)
  have "of_int (uint ?a * 2 ^ 23 + uint ?b) = push_bit 23 ?a + ?b"
    by (simp add: push_bit_eq_mult)
  also have "\<dots> = push_bit 23 ?a OR ?b"
  proof (rule disjunctive_add)
    show "\<not> bit (push_bit 23 ?a) n \<or> \<not> bit ?b n" for n
      unfolding m bit_push_bit_iff bit_and_iff bit_mask_iff by auto
  qed
  finally have *: "of_int (uint ?a * 2 ^ 23 + uint ?b) = push_bit 23 ?a OR ?b" .
  have "bit ((if bit w 31 then 0x80000000 else 0) OR (push_bit 23 ?a OR ?b)) n = bit w n"
    if n: "n < 32" for n
  proof -
    have "n < 23 \<or> 23 \<le> n \<and> n < 31 \<or> n = 31" using n by linarith
    moreover have "bit (0x80000000 :: u32) n \<longleftrightarrow> n = 31"
      unfolding m(3) bit_exp_iff by auto
    ultimately show ?thesis unfolding m(1,2) by (elim disjE; cases "bit w 31"; auto simp: bit_simps)
  qed
  then have "(if bit w 31 then 0x80000000 else 0) OR (push_bit 23 ?a OR ?b) = w"
    by (intro bit_word_eqI) simp
  then show ?thesis by (simp only: *)
qed

lemma field_bounds:
  "0 \<le> uint (drop_bit 23 w AND 0xFF :: u32)" "uint (drop_bit 23 w AND 0xFF :: u32) \<le> 255"
  "0 \<le> uint (w AND 0x7FFFFF :: u32)" "uint (w AND 0x7FFFFF :: u32) < 2 ^ 23"
proof -
  have "drop_bit 23 w AND 0xFF \<le> 0xFF" "w AND 0x7FFFFF \<le> 0x7FFFFF" by (rule word_and_le1)+
  then show "uint (drop_bit 23 w AND 0xFF :: u32) \<le> 255" "uint (w AND 0x7FFFFF :: u32) < 2 ^ 23"
    by (simp_all add: word_le_def)
qed simp_all

text \<open>
  The value of a stored float, stored again, gives the same 32 bits, unless it is not
  a number or a negative zero.
\<close>

theorem bits_of_f32_of_bits:
  assumes "f32_of_bits w \<noteq> NaN" and "w \<noteq> 0x80000000"
  shows "bits_of_f32 (f32_of_bits w) = w"
proof -
  let ?ex = "uint (drop_bit 23 w AND 0xFF)" and ?man = "uint (w AND 0x7FFFFF)"
  let ?top = "if bit w 31 then 0x80000000 else 0 :: u32"
  note B = field_bounds[of w]
  have w: "?top OR of_int (?ex * 2 ^ 23 + ?man) = w" by (rule bits_fields)
  have pos: "bits_of_f32 (Fin (if bit w 31 then - x else x)) = ?top OR of_int (mag_bits x)"
    if "0 < x" for x using that by simp
  consider "?ex = 255" | "?ex = 0" | "1 \<le> ?ex" "?ex < 255" using B by linarith
  then show ?thesis
  proof cases
    case 1
    with assms(1) have "?man = 0" by (auto simp: f32_of_bits_def Let_def split: if_splits)
    with 1 have "f32_of_bits w = Inf (bit w 31)" "w = ?top OR 0x7F800000"
      using w by (auto simp: f32_of_bits_def Let_def)
    then show ?thesis by (auto split: if_splits)
  next
    case 2
    then have v: "f32_of_bits w = Fin (if bit w 31 then - (of_int ?man * 2 powi (-149)) else of_int ?man * 2 powi (-149))"
      by (simp add: f32_of_bits_def Let_def)
    have m: "mag_bits (of_int ?man * 2 powi (-149)) = ?man" using B by (intro mag_bits_subnormal)
    show ?thesis
    proof (cases "?man = 0")
      case True
      with 2 w assms(2) have "w = 0" by (auto split: if_splits)
      with v True show ?thesis by (simp add: mag_bits_def)
    next
      case False
      with B(3) have "0 < ?man" by linarith
      then have "0 < (of_int ?man * 2 powi (-149) :: rat)"
        by (intro mult_pos_pos) (simp_all only: of_int_0_less_iff, simp)
      from pos[OF this] show ?thesis using w by (simp only: v m 2) simp
    qed
  next
    case 3
    then have v: "f32_of_bits w = Fin (if bit w 31 then - (of_int (?man + 2 ^ 23) * 2 powi (?ex - 150))
        else of_int (?man + 2 ^ 23) * 2 powi (?ex - 150))"
      by (simp add: f32_of_bits_def Let_def)
    have m: "mag_bits (of_int (?man + 2 ^ 23) * 2 powi (?ex - 150)) = ?ex * 2 ^ 23 + ?man"
      using B 3 by (intro mag_bits_normal)
    have "(0 :: int) < ?man + 2 ^ 23" using B by linarith
    then have "0 < (of_int (?man + 2 ^ 23) * 2 powi (?ex - 150) :: rat)"
      by (intro mult_pos_pos) (simp_all only: of_int_0_less_iff, simp)
    from pos[OF this] show ?thesis using w by (simp only: v m)
  qed
qed

end
