(* ===== verification/Overcurrent.thy ===== *)
theory Overcurrent
  imports Board Float32
begin

text \<open>
  The alert threshold of the current monitor (current_monitor_set_overcurrent in
  current_monitor.c), which the configuration sets too. The threshold becomes a signed
  byte; a value that does not fit is undefined in C and the result None here.
\<close>

definition CURR_I2C_ADDRESS :: u8 where "CURR_I2C_ADDRESS = 0x40"

definition overcurrent_value :: "fp \<Rightarrow> int option" where
  "overcurrent_value current_threshold =
     (case fp_trunc (fp_ceil (fp_div rnd64 (fp_mul rnd64 current_threshold (rnd64 (5 / 10000)))
        (rnd64 (256 / 100000)))) of
        None \<Rightarrow> None
      | Some v \<Rightarrow> if -128 \<le> v \<and> v \<le> 127 then Some v else None)"

definition current_monitor_set_overcurrent ::
    "fp \<Rightarrow> 'a board_scheme \<Rightarrow> 'a board_scheme option" where
  "current_monitor_set_overcurrent current_threshold s =
     (case overcurrent_value current_threshold of
        None \<Rightarrow> None
      | Some v \<Rightarrow>
          let value_max = (of_int v :: u8); value_min = - value_max in
          Some (emit I2C_Release (i2cSend CURR_I2C_ADDRESS [0x06, value_max, value_min]
            (emit I2C_Acquire s))))"

end
