(* ===== verification/Config.thy ===== *)
theory Config
  imports Overcurrent
begin

text \<open>
  The configuration (config.c, the packed structure Config of datatypes.h): 76 bytes in
  memory, little-endian, kept in the EEPROM as 38 half-words under the virtual addresses
  1000 to 1037. An access outside the structure or outside the caller's buffer, which C
  leaves undefined, is the result None.
\<close>

record cfg = board +
  config :: "u8 list"

subsection \<open>The layout of the structure\<close>

definition off_CANDeviceID :: nat where "off_CANDeviceID = 0"
definition off_numCells :: nat where "off_numCells = 1"
definition off_fullCellVoltage :: nat where "off_fullCellVoltage = 2"
definition off_emptyCellVoltage :: nat where "off_emptyCellVoltage = 6"
definition off_packCapacity :: nat where "off_packCapacity = 10"
definition off_lowVoltageCutoff :: nat where "off_lowVoltageCutoff = 14"
definition off_lowVoltageWarning :: nat where "off_lowVoltageWarning = 18"
definition off_highVoltageCutoff :: nat where "off_highVoltageCutoff = 22"
definition off_highVoltageWarning :: nat where "off_highVoltageWarning = 26"
definition off_maxCurrentCutoff :: nat where "off_maxCurrentCutoff = 30"
definition off_maxContinuousCurrent :: nat where "off_maxContinuousCurrent = 34"
definition off_continuousCurrentCutoffTime :: nat where "off_continuousCurrentCutoffTime = 38"
definition off_continuousCurrentCutoffWarning :: nat where "off_continuousCurrentCutoffWarning = 39"
definition off_maxChargeCurrent :: nat where "off_maxChargeCurrent = 40"
definition off_chargeVoltage :: nat where "off_chargeVoltage = 44"
definition off_chargeCurrent :: nat where "off_chargeCurrent = 48"
definition off_turnOnDelay :: nat where "off_turnOnDelay = 52"
definition off_shutdownDelay :: nat where "off_shutdownDelay = 54"
definition off_chargeMode :: nat where "off_chargeMode = 56"
definition off_chargeCurrentGain_P :: nat where "off_chargeCurrentGain_P = 57"
definition off_chargeCurrentGain_I :: nat where "off_chargeCurrentGain_I = 61"
definition off_prechargeTimeout :: nat where "off_prechargeTimeout = 65"
definition off_balanceStartVoltage :: nat where "off_balanceStartVoltage = 67"
definition off_balanceDifferenceThreshold :: nat where "off_balanceDifferenceThreshold = 71"
definition off_chargerDisconnectShutdown :: nat where "off_chargerDisconnectShutdown = 75"
definition sizeof_Config :: nat where "sizeof_Config = 76"

lemmas offsets =
  off_CANDeviceID_def off_numCells_def off_fullCellVoltage_def off_emptyCellVoltage_def
  off_packCapacity_def off_lowVoltageCutoff_def off_lowVoltageWarning_def off_highVoltageCutoff_def
  off_highVoltageWarning_def off_maxCurrentCutoff_def off_maxContinuousCurrent_def
  off_continuousCurrentCutoffTime_def off_continuousCurrentCutoffWarning_def
  off_maxChargeCurrent_def off_chargeVoltage_def off_chargeCurrent_def off_turnOnDelay_def
  off_shutdownDelay_def off_chargeMode_def off_chargeCurrentGain_P_def off_chargeCurrentGain_I_def
  off_prechargeTimeout_def off_balanceStartVoltage_def off_balanceDifferenceThreshold_def
  off_chargerDisconnectShutdown_def

subsection \<open>Memory accesses\<close>

definition put_bytes :: "nat \<Rightarrow> u8 list \<Rightarrow> u8 list \<Rightarrow> u8 list" where
  "put_bytes a bs m = take a m @ bs @ drop (a + length bs) m"

definition get_u16 :: "nat \<Rightarrow> u8 list \<Rightarrow> u16" where
  "get_u16 a m = be16 (m ! (a + 1)) (m ! a)"

definition get_u32 :: "nat \<Rightarrow> u8 list \<Rightarrow> u32" where
  "get_u32 a m = push_bit 16 (ucast (get_u16 (a + 2) m)) OR ucast (get_u16 a m)"

definition get_float :: "nat \<Rightarrow> u8 list \<Rightarrow> fp" where
  "get_float a m = f32_of_bits (get_u32 a m)"

definition u16_bytes :: "u16 \<Rightarrow> u8 list" where
  "u16_bytes w = [lo8 w, hi8 w]"

definition u32_bytes :: "u32 \<Rightarrow> u8 list" where
  "u32_bytes w = u16_bytes (ucast w) @ u16_bytes (ucast (drop_bit 16 w))"

definition float_bytes :: "fp \<Rightarrow> u8 list" where
  "float_bytes x = u32_bytes (bits_of_f32 x)"

text \<open>A double literal assigned to a float.\<close>

definition flit :: "rat \<Rightarrow> fp" where
  "flit x = to32 (rnd64 x)"

text \<open>What is stored reads back, and nothing else changes.\<close>

lemma get_u32_put_same:
  assumes "a + 4 \<le> length d"
  shows "get_u32 a (put_bytes a (u32_bytes w) d) = w"
proof -
  have "push_bit 16 (ucast (ucast (drop_bit 16 w) :: u16)) OR ucast (ucast w :: u16) = w"
    by (rule bit_word_eqI) (auto simp: bit_simps dest: bit_imp_le_length)
  then show ?thesis
    using assms by (simp add: get_u32_def get_u16_def put_bytes_def u32_bytes_def u16_bytes_def nth_append)
qed

lemma nth_put:
  "i < b \<or> b + length bs \<le> i \<Longrightarrow> b + length bs \<le> length d \<Longrightarrow> put_bytes b bs d ! i = d ! i"
  by (auto simp: put_bytes_def nth_append)

lemma get_u32_put_other:
  assumes "a + 4 \<le> b \<or> b + length bs \<le> a" and "b + length bs \<le> length d"
  shows "get_u32 a (put_bytes b bs d) = get_u32 a d"
proof -
  have "put_bytes b bs d ! i = d ! i" if "a \<le> i" "i < a + 4" for i
    using assms that by (intro nth_put) auto
  then show ?thesis by (simp add: get_u32_def get_u16_def)
qed

lemma length_put:
  "a + length bs \<le> length d \<Longrightarrow> length (put_bytes a bs d) = length d"
  by (simp add: put_bytes_def)

subsection \<open>Operations\<close>

definition EEPROM_BASE :: u16 where "EEPROM_BASE = 1000"

definition FLASH_FLAG_WRPERR :: u32 where "FLASH_FLAG_WRPERR = FLASH_SR_WRPERR"
definition FLASH_FLAG_PGERR :: u32 where "FLASH_FLAG_PGERR = FLASH_SR_PGERR"

datatype ChargeMode = CURRENT_CONTROL | FULL_CURRENT | BYPASS_CC | BYPASS_CCCV

fun charge_mode_code :: "ChargeMode \<Rightarrow> u8" where
  "charge_mode_code CURRENT_CONTROL = 0"
| "charge_mode_code FULL_CURRENT = 1"
| "charge_mode_code BYPASS_CC = 2"
| "charge_mode_code BYPASS_CCCV = 3"

text \<open>The default values, written field by field in the order of the code.\<close>

definition default_writes :: "(nat \<times> u8 list) list" where
  "default_writes =
     [(off_CANDeviceID, [0x01]),
      (off_numCells, [12]),
      (off_fullCellVoltage, float_bytes (flit (42 / 10))),
      (off_emptyCellVoltage, float_bytes (flit (34 / 10))),
      (off_packCapacity, float_bytes (int_f32 2500)),
      (off_lowVoltageCutoff, float_bytes (flit (32 / 10))),
      (off_lowVoltageWarning, float_bytes (flit (34 / 10))),
      (off_highVoltageCutoff, float_bytes (flit (425 / 100))),
      (off_highVoltageWarning, float_bytes (flit (41 / 10))),
      (off_maxCurrentCutoff, float_bytes (flit 120)),
      (off_maxContinuousCurrent, float_bytes (flit 100)),
      (off_continuousCurrentCutoffTime, [30]),
      (off_continuousCurrentCutoffWarning, [10]),
      (off_maxChargeCurrent, float_bytes (flit 20)),
      (off_chargeVoltage, float_bytes (flit (252 / 10))),
      (off_chargeCurrent, float_bytes (flit 2)),
      (off_turnOnDelay, u16_bytes 200),
      (off_shutdownDelay, u16_bytes 500),
      (off_chargeMode, [charge_mode_code FULL_CURRENT]),
      (off_chargeCurrentGain_P, float_bytes (flit (1 / 10))),
      (off_chargeCurrentGain_I, float_bytes (flit 1)),
      (off_prechargeTimeout, u16_bytes 500),
      (off_balanceStartVoltage, float_bytes (flit (35 / 10))),
      (off_balanceDifferenceThreshold, float_bytes (flit (1 / 100))),
      (off_chargerDisconnectShutdown, [1])]"

definition config_load_default_configuration :: "'a cfg_scheme \<Rightarrow> 'a cfg_scheme" where
  "config_load_default_configuration s =
     s\<lparr>config := fold (\<lambda>(a, bs). put_bytes a bs) default_writes (config s)\<rparr>"

text \<open>
  The loop of \<open>config_write_all\<close> and \<open>config_write_field\<close> over the half-words to be
  written: the byte at the even address is the high byte of the variable.
\<close>

primrec config_write_loop :: "nat list \<Rightarrow> 'a cfg_scheme \<Rightarrow> bool \<times> 'a cfg_scheme" where
  "config_write_loop [] s = (True, s)"
| "config_write_loop (i # is) s =
     (let var = be16 (config s ! (2 * i)) (config s ! (2 * i + 1));
          (st, s1) = EE_WriteVariable (EEPROM_BASE + of_nat i) var s
      in if st \<noteq> status_code FLASH_COMPLETE then (False, s1) else config_write_loop is s1)"

definition config_write_all :: "'a cfg_scheme \<Rightarrow> bool \<times> 'a cfg_scheme" where
  "config_write_all s =
     (let s1 = FLASH_ClearFlag (FLASH_FLAG_WRPERR OR FLASH_FLAG_PGERR) (emit Sys_Lock s);
          (is_ok, s2) = config_write_loop [0..<sizeof_Config div 2] s1
      in (is_ok, emit Sys_Unlock s2))"

text \<open>The loop of \<open>config_read_all\<close>: it stops at the first variable that is not found.\<close>

primrec config_read_loop :: "nat list \<Rightarrow> 'a cfg_scheme \<Rightarrow> bool \<times> 'a cfg_scheme" where
  "config_read_loop [] s = (True, s)"
| "config_read_loop (i # is) s =
     (case EE_ReadVariable (EEPROM_BASE + of_nat i) s of
        (st, Some var) \<Rightarrow>
          if st = 0 then
            config_read_loop is (s\<lparr>config := (config s)[2 * i := hi8 var, 2 * i + 1 := lo8 var]\<rparr>)
          else (False, s)
      | (st, None) \<Rightarrow> (False, s))"

definition config_read_all :: "'a cfg_scheme \<Rightarrow> 'a cfg_scheme" where
  "config_read_all s =
     (let (is_ok, s1) = config_read_loop [0..<sizeof_Config div 2] s in
      if is_ok then s1 else snd (config_write_all (config_load_default_configuration s1)))"

definition config_table :: "u16 list" where
  "config_table =
     map (\<lambda>i. EEPROM_BASE + of_nat i) [0..<sizeof_Config div 2] @
     replicate (NB_OF_VAR - sizeof_Config div 2) 0"

definition config_init :: "'a cfg_scheme \<Rightarrow> 'a cfg_scheme" where
  "config_init s =
     (let s1 = FLASH_Unlock (s\<lparr>VirtAddVarTab := config_table\<rparr>);
          s2 = FLASH_ClearFlag (FLASH_FLAG_WRPERR OR FLASH_FLAG_PGERR) s1;
          (_, s3) = EE_Init s2
      in config_read_all s3)"

text \<open>
  The limits \<open>config_write_field\<close> enforces on the new value in the caller's buffer. A
  float is read from the first four bytes of the buffer, whatever the size says.
\<close>

definition clamp_float :: "fp \<Rightarrow> fp \<Rightarrow> u8 list \<Rightarrow> u8 list option" where
  "clamp_float lower upper data =
     (if length data < 4 then None
      else let x = get_float 0 data in
        if fp_less upper x then Some (put_bytes 0 (float_bytes upper) data)
        else if fp_less x lower then Some (put_bytes 0 (float_bytes lower) data)
        else Some data)"

definition config_limit :: "nat \<Rightarrow> u8 list \<Rightarrow> 'a cfg_scheme \<Rightarrow> u8 list option" where
  "config_limit addr data s =
     (if addr = off_CANDeviceID then Some data
      else if addr = off_numCells then
        (if data = [] then None else if 12 < hd data then Some (data[0 := 12]) else Some data)
      else if addr = off_lowVoltageCutoff then Some data
      else if addr = off_highVoltageCutoff then clamp_float (Fin 0) (Fin 5) data
      else if addr = off_chargeVoltage then
        clamp_float (Fin 0) (fp_mul rnd32 (int_f32 (uint (config s ! off_numCells)))
          (get_float off_highVoltageCutoff (config s))) data
      else if addr = off_maxCurrentCutoff then clamp_float (Fin 1) (Fin 150) data
      else Some data)"

definition config_write_field ::
    "u16 \<Rightarrow> u8 list \<Rightarrow> u8 \<Rightarrow> 'a cfg_scheme \<Rightarrow> (bool \<times> u8 list \<times> 'a cfg_scheme) option" where
  "config_write_field addr data sz s =
     (let a = unat addr; n = unat sz in
      case config_limit a data s of
        None \<Rightarrow> None
      | Some data' \<Rightarrow>
         (case (if a = off_maxCurrentCutoff
                then current_monitor_set_overcurrent (get_float 0 data') s else Some s) of
            None \<Rightarrow> None
          | Some s1 \<Rightarrow>
              if length data' < n \<or> length (config s1) < a + n then None
              else
                let s2 = s1\<lparr>config := put_bytes a (take n data') (config s1)\<rparr>;
                    s3 = FLASH_ClearFlag (FLASH_FLAG_WRPERR OR FLASH_FLAG_PGERR) (emit Sys_Lock s2)
                in if length (config s3) < 2 * ((a + n + 1) div 2) then None
                   else
                     let (is_ok, s4) = config_write_loop [a div 2..<(a + n + 1) div 2] s3
                     in Some (is_ok, data', emit Sys_Unlock s4)))"

end
