(* ===== verification/Faults.thy ===== *)
theory Faults
  imports Config
begin

text \<open>
  The fault and warning registers (faults.c, the enumerations of datatypes.h): two bytes
  with one bit per condition.
\<close>

datatype Fault =
  FAULT_NONE | FAULT_CELL_UV | FAULT_CELL_OV | FAULT_OVERCURRENT | FAULT_BATTERY_TEMP
  | FAULT_BOARD_TEMP | FAULT_TURN_ON_SHORT

fun fault_code :: "Fault \<Rightarrow> u8" where
  "fault_code FAULT_NONE = 0x00"
| "fault_code FAULT_CELL_UV = 0x01"
| "fault_code FAULT_CELL_OV = 0x02"
| "fault_code FAULT_OVERCURRENT = 0x04"
| "fault_code FAULT_BATTERY_TEMP = 0x08"
| "fault_code FAULT_BOARD_TEMP = 0x10"
| "fault_code FAULT_TURN_ON_SHORT = 0x20"

datatype Warning =
  WARNING_NONE | WARNING_CELL_LOW | WARNING_CELL_HIGH | WARNING_OVERCURRENT | WARNING_BATTERY_TEMP

fun warning_code :: "Warning \<Rightarrow> u8" where
  "warning_code WARNING_NONE = 0x00"
| "warning_code WARNING_CELL_LOW = 0x01"
| "warning_code WARNING_CELL_HIGH = 0x02"
| "warning_code WARNING_OVERCURRENT = 0x04"
| "warning_code WARNING_BATTERY_TEMP = 0x08"

record flt = cfg +
  faults :: u8
  warnings :: u8

definition faults_set_fault :: "Fault \<Rightarrow> 'a flt_scheme \<Rightarrow> 'a flt_scheme" where
  "faults_set_fault f s = s\<lparr>faults := faults s OR fault_code f\<rparr>"

definition faults_get_faults :: "'a flt_scheme \<Rightarrow> u8" where
  "faults_get_faults s = faults s"

definition faults_clear_fault :: "Fault \<Rightarrow> 'a flt_scheme \<Rightarrow> 'a flt_scheme" where
  "faults_clear_fault f s = s\<lparr>faults := faults s AND NOT (fault_code f)\<rparr>"

definition faults_clear_all_faults :: "'a flt_scheme \<Rightarrow> 'a flt_scheme" where
  "faults_clear_all_faults s = s\<lparr>faults := fault_code FAULT_NONE\<rparr>"

definition faults_check_fault :: "Fault \<Rightarrow> 'a flt_scheme \<Rightarrow> bool" where
  "faults_check_fault f s \<longleftrightarrow> faults s AND fault_code f \<noteq> 0"

definition faults_set_warning :: "Warning \<Rightarrow> 'a flt_scheme \<Rightarrow> 'a flt_scheme" where
  "faults_set_warning w s = s\<lparr>warnings := warnings s OR warning_code w\<rparr>"

definition faults_get_warnings :: "'a flt_scheme \<Rightarrow> u8" where
  "faults_get_warnings s = warnings s"

definition faults_clear_warnings :: "Warning \<Rightarrow> 'a flt_scheme \<Rightarrow> 'a flt_scheme" where
  "faults_clear_warnings w s = s\<lparr>warnings := warnings s AND NOT (warning_code w)\<rparr>"

definition faults_clear_all_warnings :: "'a flt_scheme \<Rightarrow> 'a flt_scheme" where
  "faults_clear_all_warnings s = s\<lparr>warnings := warning_code WARNING_NONE\<rparr>"

definition faults_check_warning :: "Warning \<Rightarrow> 'a flt_scheme \<Rightarrow> bool" where
  "faults_check_warning w s \<longleftrightarrow> warnings s AND warning_code w \<noteq> 0"

subsection \<open>Both registers are sets of conditions\<close>

text \<open>The contract of a register: it is a set, seen through \<open>check\<close>.\<close>

locale flag_register =
  fixes real_flag :: "'f \<Rightarrow> bool"
    and check :: "'f \<Rightarrow> 's \<Rightarrow> bool"
    and set :: "'f \<Rightarrow> 's \<Rightarrow> 's"
    and clear :: "'f \<Rightarrow> 's \<Rightarrow> 's"
    and clear_all :: "'s \<Rightarrow> 's"
  assumes check_set: "real_flag f \<Longrightarrow> check g (set f s) \<longleftrightarrow> g = f \<or> check g s"
    and check_clear: "real_flag f \<Longrightarrow> check g (clear f s) \<longleftrightarrow> g \<noteq> f \<and> check g s"
    and check_clear_all: "\<not> check g (clear_all s)"

context flag_register
begin

definition raised :: "'s \<Rightarrow> 'f set" where
  "raised s = {f. check f s}"

lemma raised_set: "real_flag f \<Longrightarrow> raised (set f s) = insert f (raised s)"
  by (auto simp: raised_def check_set)

lemma raised_clear: "real_flag f \<Longrightarrow> raised (clear f s) = raised s - {f}"
  by (auto simp: raised_def check_clear)

lemma raised_clear_all: "raised (clear_all s) = {}"
  by (auto simp: raised_def check_clear_all)

lemma raised_run:
  "list_all real_flag fs \<Longrightarrow> raised (fold set fs s) = List.set fs \<union> raised s"
  by (induction fs arbitrary: s) (auto simp: raised_set)

end

fun fault_bit :: "Fault \<Rightarrow> nat" where
  "fault_bit FAULT_NONE = 8"
| "fault_bit FAULT_CELL_UV = 0"
| "fault_bit FAULT_CELL_OV = 1"
| "fault_bit FAULT_OVERCURRENT = 2"
| "fault_bit FAULT_BATTERY_TEMP = 3"
| "fault_bit FAULT_BOARD_TEMP = 4"
| "fault_bit FAULT_TURN_ON_SHORT = 5"

fun warning_bit :: "Warning \<Rightarrow> nat" where
  "warning_bit WARNING_NONE = 8"
| "warning_bit WARNING_CELL_LOW = 0"
| "warning_bit WARNING_CELL_HIGH = 1"
| "warning_bit WARNING_OVERCURRENT = 2"
| "warning_bit WARNING_BATTERY_TEMP = 3"

lemma bit_fault_code: "bit (fault_code f) n \<longleftrightarrow> n = fault_bit f \<and> n < 8"
proof -
  have c: "fault_code f = (if fault_bit f < 8 then 2 ^ fault_bit f else 0)" by (cases f) auto
  show ?thesis unfolding c by (auto simp: bit_exp_iff)
qed

lemma bit_warning_code: "bit (warning_code f) n \<longleftrightarrow> n = warning_bit f \<and> n < 8"
proof -
  have c: "warning_code f = (if warning_bit f < 8 then 2 ^ warning_bit f else 0)" by (cases f) auto
  show ?thesis unfolding c by (auto simp: bit_exp_iff)
qed

lemma fault_bit_inject [simp]: "fault_bit f = fault_bit g \<longleftrightarrow> f = g"
  by (cases f; cases g) auto

lemma warning_bit_inject [simp]: "warning_bit f = warning_bit g \<longleftrightarrow> f = g"
  by (cases f; cases g) auto

lemma bit_bound8: "bit (w :: u8) n \<Longrightarrow> n < 8"
  by (auto dest: bit_imp_le_length)

lemma and_code_bit:
  assumes "\<And>n. bit m n \<longleftrightarrow> n = k \<and> n < 8"
  shows "w AND m \<noteq> 0 \<longleftrightarrow> bit (w :: u8) k"
proof (cases "bit w k")
  case True
  then have "bit (w AND m) k" using assms bit_bound8[OF True] by (simp add: bit_and_iff)
  with True show ?thesis by auto
next
  case False
  then have "w AND m = 0" using assms by (intro bit_word_eqI) (auto simp: bit_and_iff)
  with False show ?thesis by simp
qed

lemma check_fault_bit: "faults_check_fault f s \<longleftrightarrow> bit (faults s) (fault_bit f)"
  unfolding faults_check_fault_def by (rule and_code_bit) (rule bit_fault_code)

lemma check_warning_bit: "faults_check_warning f s \<longleftrightarrow> bit (warnings s) (warning_bit f)"
  unfolding faults_check_warning_def by (rule and_code_bit) (rule bit_warning_code)

lemma flag_bits8:
  "f \<noteq> FAULT_NONE \<Longrightarrow> fault_bit f < 8"
  "w \<noteq> WARNING_NONE \<Longrightarrow> warning_bit w < 8"
  by (cases f; simp) (cases w; simp)

interpretation fault_reg: flag_register "\<lambda>f. f \<noteq> FAULT_NONE" faults_check_fault
    faults_set_fault faults_clear_fault faults_clear_all_faults
  by unfold_locales
    (auto simp: check_fault_bit faults_set_fault_def faults_clear_fault_def faults_clear_all_faults_def
      bit_or_iff bit_and_iff bit_not_iff bit_fault_code flag_bits8 dest: bit_bound8)

interpretation warning_reg: flag_register "\<lambda>w. w \<noteq> WARNING_NONE" faults_check_warning
    faults_set_warning faults_clear_warnings faults_clear_all_warnings
  by unfold_locales
    (auto simp: check_warning_bit faults_set_warning_def faults_clear_warnings_def
      faults_clear_all_warnings_def bit_or_iff bit_and_iff bit_not_iff bit_warning_code flag_bits8
      dest: bit_bound8)

text \<open>
  C13: Raising faults in any order adds exactly these faults to the raised ones, and
  clearing one afterwards removes just it.
\<close>

theorem faults_run:
  assumes "list_all (\<lambda>f. f \<noteq> FAULT_NONE) fs" and "f \<noteq> FAULT_NONE"
  shows "{g. faults_check_fault g (faults_clear_fault f (fold faults_set_fault fs s))} =
    (set fs \<union> {g. faults_check_fault g s}) - {f}"
proof -
  have "fault_reg.raised (faults_clear_fault f (fold faults_set_fault fs s)) =
      set fs \<union> fault_reg.raised s - {f}"
    by (simp only: fault_reg.raised_clear[OF assms(2)] fault_reg.raised_run[OF assms(1)])
  then show ?thesis unfolding fault_reg.raised_def .
qed

lemma faults_run_witness:
  "\<forall>s :: flt. {g. faults_check_fault g (faults_clear_fault FAULT_CELL_UV
     (fold faults_set_fault [FAULT_CELL_UV, FAULT_OVERCURRENT] (s\<lparr>faults := 0\<rparr>)))} =
   {FAULT_OVERCURRENT}"
proof
  fix s :: flt
  have "{g. faults_check_fault g (s\<lparr>faults := 0\<rparr>)} = {}" by (simp add: faults_check_fault_def)
  moreover have "list_all (\<lambda>f. f \<noteq> FAULT_NONE) [FAULT_CELL_UV, FAULT_OVERCURRENT]" by simp
  ultimately show "{g. faults_check_fault g (faults_clear_fault FAULT_CELL_UV
     (fold faults_set_fault [FAULT_CELL_UV, FAULT_OVERCURRENT] (s\<lparr>faults := 0\<rparr>)))} =
   {FAULT_OVERCURRENT}"
    by (subst faults_run) auto
qed

end
