(* ===== verification/Ltc6803.thy ===== *)
theory Ltc6803
  imports Faults
begin

text \<open>
  The cell monitor (ltc6803.c): reading the twelve cell voltages over SPI with a packet
  error code, and the register with the balancing switches. The software SPI transfer is
  compiled for hardware version 4.0 only; here the SPI driver exchanges the bytes.
\<close>

record ltc = flt +
  cell_voltages :: "fp list"
  configReg :: "u8 list"
  balance_lock :: bool
  conversionStart :: u32

subsection \<open>The packet error code\<close>

definition PEC_POLY :: u8 where "PEC_POLY = 7"

definition pec8_bit :: "u8 \<Rightarrow> u8" where
  "pec8_bit remainder =
     (if remainder AND 128 \<noteq> 0 then push_bit 1 remainder XOR PEC_POLY else push_bit 1 remainder)"

definition pec8_byte :: "u8 \<Rightarrow> u8 \<Rightarrow> u8" where
  "pec8_byte remainder byte = (pec8_bit ^^ 8) (remainder XOR byte)"

definition pec8_calc :: "u8 list \<Rightarrow> u8" where
  "pec8_calc bytes = foldl pec8_byte 0x41 bytes"

subsection \<open>Bus transfers\<close>

definition ltc6803_wrcfg :: "u8 list \<Rightarrow> 'a ltc_scheme \<Rightarrow> 'a ltc_scheme" where
  "ltc6803_wrcfg cfgreg s =
     emit SPI_Unselect (snd (spiExchange ([0x01, 0xC7] @ cfgreg @ [pec8_calc cfgreg])
       (emit SPI_Select s)))"

definition ltc6803_stcvad :: "'a ltc_scheme \<Rightarrow> 'a ltc_scheme" where
  "ltc6803_stcvad s = emit SPI_Unselect (snd (spiExchange [0x10, 0xB0] (emit SPI_Select s)))"

text \<open>The loop that clocks in one byte at a time.\<close>

primrec rdcv_bytes :: "nat \<Rightarrow> 'a ltc_scheme \<Rightarrow> u8 list \<times> 'a ltc_scheme" where
  "rdcv_bytes 0 s = ([], s)"
| "rdcv_bytes (Suc n) s =
     (let (rx, s1) = spiExchange [0xFF] s; (bs, s2) = rdcv_bytes n s1 in (hd rx # bs, s2))"

text \<open>A raw count is an int; the quotient is computed in double and stored as a float.\<close>

definition cell_volts :: "int \<Rightarrow> fp" where
  "cell_volts n = to32 (fp_div rnd64 (fp_mul rnd64 (int_f32 n) (Fin (3 / 2))) (Fin 1000))"

definition rdcv_even :: "u8 \<Rightarrow> u8 \<Rightarrow> int" where
  "rdcv_even b0 b1 =
     (let temp = (ucast b0 :: u16); temp2 = push_bit 8 (ucast (b1 AND 0x0F)) :: u16
      in uint temp + uint temp2 - 512)"

definition rdcv_odd :: "u8 \<Rightarrow> u8 \<Rightarrow> int" where
  "rdcv_odd b1 b2 =
     (let temp2 = (ucast (drop_bit 4 b1) :: u16); temp = push_bit 4 (ucast b2) :: u16
      in uint temp + uint temp2 - 512)"

fun rdcv_cells :: "u8 list \<Rightarrow> fp list" where
  "rdcv_cells (b0 # b1 # b2 # bs) =
     cell_volts (rdcv_even b0 b1) # cell_volts (rdcv_odd b1 b2) # rdcv_cells bs"
| "rdcv_cells bs = []"

text \<open>The error code is compared, but the result of the comparison is not used.\<close>

definition rdcv_pec_error :: "u8 list \<Rightarrow> bool" where
  "rdcv_pec_error rx_data \<longleftrightarrow> rx_data ! 18 \<noteq> pec8_calc (take 18 rx_data)"

definition ltc6803_rdcv :: "'a ltc_scheme \<Rightarrow> 'a ltc_scheme" where
  "ltc6803_rdcv s =
     (let (_, s1) = spiExchange [0x04, 0xDC] (emit SPI_Select s);
          (rx_data, s2) = rdcv_bytes 19 s1;
          s3 = emit SPI_Unselect s2;
          pec_error = rdcv_pec_error rx_data
      in s3\<lparr>cell_voltages := rdcv_cells (take 18 rx_data)\<rparr>)"

subsection \<open>Operations\<close>

definition ltc6803_init :: "'a ltc_scheme \<Rightarrow> 'a ltc_scheme" where
  "ltc6803_init s =
     (let (t, s1) = chVTGetSystemTime (s\<lparr>configReg := [0x61, 0x00, 0x00, 0xFC, 0x00, 0x00]\<rparr>)
      in s1\<lparr>conversionStart := t\<rparr>)"

definition ltc6803_update :: "'a ltc_scheme \<Rightarrow> 'a ltc_scheme" where
  "ltc6803_update s =
     (let s1 = ltc6803_wrcfg (configReg s) s;
          (dt, s2) = chVTTimeElapsedSinceX (conversionStart s1) s1
      in if 13 < ST2MS dt then
           let (t, s3) = chVTGetSystemTime (ltc6803_stcvad (ltc6803_rdcv s2))
           in s3\<lparr>conversionStart := t\<rparr>
         else s2)"

definition ltc6803_get_cell_voltages :: "'a ltc_scheme \<Rightarrow> fp list" where
  "ltc6803_get_cell_voltages s = cell_voltages s"

definition numCells :: "'a cfg_scheme \<Rightarrow> nat" where
  "numCells s = unat (config s ! off_numCells)"

text \<open>
  Shifting an int by a negative count or into its sign is undefined in C: the result is
  None for cell 0 and for cells above 39.
\<close>

definition shl_byte :: "int \<Rightarrow> u8 option" where
  "shl_byte n = (if 0 \<le> n \<and> n < 31 then Some (push_bit (nat n) 1) else None)"

definition ltc6803_enable_balance :: "nat \<Rightarrow> 'a ltc_scheme \<Rightarrow> 'a ltc_scheme option" where
  "ltc6803_enable_balance cell s =
     (if balance_lock s then Some s
      else if numCells s < cell then Some s
      else if cell \<le> 8 then
        (case shl_byte (int cell - 1) of None \<Rightarrow> None
         | Some m \<Rightarrow> Some (s\<lparr>configReg := (configReg s)[1 := configReg s ! 1 OR m]\<rparr>))
      else
        (case shl_byte (int cell - 9) of None \<Rightarrow> None
         | Some m \<Rightarrow> Some (s\<lparr>configReg := (configReg s)[2 := configReg s ! 2 OR m]\<rparr>)))"

definition ltc6803_disable_balance :: "nat \<Rightarrow> 'a ltc_scheme \<Rightarrow> 'a ltc_scheme option" where
  "ltc6803_disable_balance cell s =
     (if balance_lock s then Some s
      else if numCells s < cell then Some s
      else if cell \<le> 8 then
        (case shl_byte (int cell - 1) of None \<Rightarrow> None
         | Some m \<Rightarrow> Some (s\<lparr>configReg := (configReg s)[1 := configReg s ! 1 AND NOT m]\<rparr>))
      else
        (case shl_byte (int cell - 9) of None \<Rightarrow> None
         | Some m \<Rightarrow> Some (s\<lparr>configReg := (configReg s)[2 := configReg s ! 2 AND NOT m]\<rparr>)))"

definition ltc6803_disable_balance_all :: "'a ltc_scheme \<Rightarrow> 'a ltc_scheme" where
  "ltc6803_disable_balance_all s =
     (if balance_lock s then s else s\<lparr>configReg := (configReg s)[1 := 0, 2 := 0]\<rparr>)"

definition ltc6803_lock :: "'a ltc_scheme \<Rightarrow> 'a ltc_scheme" where
  "ltc6803_lock s = s\<lparr>balance_lock := True\<rparr>"

definition ltc6803_unlock :: "'a ltc_scheme \<Rightarrow> 'a ltc_scheme" where
  "ltc6803_unlock s = s\<lparr>balance_lock := False\<rparr>"

subsection \<open>What the error code detects\<close>

lemma pec8_bit_inject: "pec8_bit a = pec8_bit b \<longleftrightarrow> a = b"
proof
  assume eq: "pec8_bit a = pec8_bit b"
  have "bit (2 ^ 7 :: u8) n \<longleftrightarrow> n = 7 \<and> n < 8" for n by (auto simp only: bit_exp_iff) auto
  then have top: "x AND 128 \<noteq> 0 \<longleftrightarrow> bit x 7" for x :: u8
    using and_code_bit[of "2 ^ 7" 7 x] by simp
  have low: "bit (pec8_bit x) 0 \<longleftrightarrow> bit x 7" for x
    by (simp add: pec8_bit_def PEC_POLY_def top bit_simps bit_0 even_xor_iff)
  have rest: "bit x n = (bit (pec8_bit x) (Suc n) \<noteq> (bit x 7 \<and> bit (7 :: u8) (Suc n)))"
    if "n < 7" for n and x
  proof -
    have "bit (x * 2) (Suc n) \<longleftrightarrow> bit x n"
      using that bit_double_iff[of x "Suc n"] by (simp add: mult.commute)
    then show ?thesis by (auto simp: pec8_bit_def PEC_POLY_def top bit_xor_iff)
  qed
  show "a = b"
  proof (rule bit_word_eqI)
    fix n assume "n < LENGTH(8)"
    then have "n = 7 \<or> n < 7" by auto
    then show "bit a n = bit b n" using low[of a] low[of b] rest[of n a] rest[of n b] eq by auto
  qed
qed simp

lemma pec8_pow_inject: "(pec8_bit ^^ n) a = (pec8_bit ^^ n) b \<longleftrightarrow> a = b"
  by (induction n) (simp_all add: pec8_bit_inject)

lemma xor_cancel:
  fixes r a b :: u8
  shows "r XOR a = r XOR b \<longleftrightarrow> a = b" "a XOR r = b XOR r \<longleftrightarrow> a = b"
proof -
  show *: "r XOR a = r XOR b \<longleftrightarrow> a = b"
  proof
    assume "r XOR a = r XOR b"
    then have "r XOR (r XOR a) = r XOR (r XOR b)" by simp
    then show "a = b" by (simp flip: xor.assoc)
  qed simp
  from * show "a XOR r = b XOR r \<longleftrightarrow> a = b" by (simp add: xor.commute)
qed

lemma pec8_byte_inject [simp]:
  "pec8_byte r a = pec8_byte r b \<longleftrightarrow> a = b" "pec8_byte r a = pec8_byte q a \<longleftrightarrow> r = q"
  unfolding pec8_byte_def pec8_pow_inject by (rule xor_cancel)+

lemma pec8_fold_inject: "foldl pec8_byte r bs = foldl pec8_byte q bs \<longleftrightarrow> r = q"
  by (induction bs arbitrary: r q) simp_all

text \<open>
  A corrupted byte is always detected: two messages that differ in one byte have
  different packet error codes, and a message followed by its code has residue 0.
\<close>

theorem pec8_detects_byte:
  "(pec8_calc (xs @ a # ys) = pec8_calc (xs @ b # ys) \<longleftrightarrow> a = b) \<and>
   pec8_calc (xs @ [pec8_calc xs]) = 0"
proof
  show "pec8_calc (xs @ a # ys) = pec8_calc (xs @ b # ys) \<longleftrightarrow> a = b"
    by (simp add: pec8_calc_def pec8_fold_inject)
  have "pec8_bit 0 = 0" by (simp add: pec8_bit_def)
  then have "(pec8_bit ^^ n) 0 = 0" for n by (induction n) simp_all
  then show "pec8_calc (xs @ [pec8_calc xs]) = 0" by (simp add: pec8_calc_def pec8_byte_def)
qed

subsection \<open>The error code as a remainder\<close>

text \<open>
  Long division of polynomials over the field of two elements, as lists of coefficients
  from the highest power down: \<open>gf2_rem\<close> leaves the remainder of the division by
  x^8 + x^2 + x + 1, with a place for each of its eight coefficients.
\<close>

fun xor_prefix :: "bool list \<Rightarrow> bool list \<Rightarrow> bool list" where
  "xor_prefix (x # xs) (y # ys) = (x \<noteq> y) # xor_prefix xs ys"
| "xor_prefix xs ys = ys"

lemma length_xor_prefix [simp]: "length (xor_prefix xs ys) = length ys"
  by (induction xs ys rule: xor_prefix.induct) simp_all

definition pec_divisor :: "bool list" where
  "pec_divisor = [False, False, False, False, False, True, True, True]"

fun gf2_rem :: "bool list \<Rightarrow> bool list" where
  "gf2_rem [] = []"
| "gf2_rem (c # cs) =
     (if length cs < 8 then c # cs
      else if c then gf2_rem (xor_prefix pec_divisor cs) else gf2_rem cs)"

definition coeffs :: "u8 \<Rightarrow> bool list" where
  "coeffs b = map (bit b) (rev [0..<8])"

lemma coeffs_eq: "coeffs b = [bit b 7, bit b 6, bit b 5, bit b 4, bit b 3, bit b 2, bit b 1, bit b 0]"
  by (simp add: coeffs_def numeral_eq_Suc)

lemma list8:
  assumes "8 \<le> length cs"
  obtains a b c d e f g h ds where "cs = a # b # c # d # e # f # g # h # ds"
  using assms by (auto simp: numeral_eq_Suc Suc_le_length_iff)

lemma coeffs_pec8_bit:
  "coeffs (pec8_bit q) =
     (if bit q 7 then xor_prefix pec_divisor (tl (coeffs q) @ [False]) else tl (coeffs q) @ [False])"
proof -
  have "bit (2 ^ 7 :: u8) n \<longleftrightarrow> n = 7 \<and> n < 8" for n by (auto simp only: bit_exp_iff) auto
  then have top: "q AND 128 \<noteq> 0 \<longleftrightarrow> bit q 7" using and_code_bit[of "2 ^ 7" 7 q] by simp
  obtain p where p: "p = push_bit 1 q" by blast
  have shift: "bit p n \<longleftrightarrow> 0 < n \<and> n < 8 \<and> bit q (n - 1)" for n
    unfolding p bit_push_bit_iff by auto
  show ?thesis
    unfolding pec8_bit_def top coeffs_eq pec_divisor_def PEC_POLY_def p[symmetric]
    by (simp add: bit_xor_iff shift)
qed

lemma division_step:
  assumes "8 \<le> length cs"
  shows "gf2_rem (xor_prefix (coeffs q) (False # cs)) = gf2_rem (xor_prefix (coeffs (pec8_bit q)) cs)"
proof -
  obtain a b c d e f g h ds where cs: "cs = a # b # c # d # e # f # g # h # ds"
    using assms by (rule list8)
  have "xor_prefix pec_divisor (xor_prefix (tl (coeffs q)) cs) =
      xor_prefix (xor_prefix pec_divisor (tl (coeffs q) @ [False])) cs"
    "xor_prefix (tl (coeffs q)) cs = xor_prefix (tl (coeffs q) @ [False]) cs"
    by (simp_all add: cs coeffs_eq pec_divisor_def)
  moreover have "xor_prefix (coeffs q) (False # cs) = bit q 7 # xor_prefix (tl (coeffs q)) cs"
    by (simp add: coeffs_eq)
  ultimately show ?thesis using assms by (simp add: coeffs_pec8_bit)
qed

lemma division_steps:
  assumes "8 \<le> length cs"
  shows "gf2_rem (xor_prefix (coeffs q) (replicate n False @ cs)) =
    gf2_rem (xor_prefix (coeffs ((pec8_bit ^^ n) q)) cs)"
proof (induction n arbitrary: q)
  case (Suc n)
  then show ?case using division_step[of "replicate n False @ cs" q] assms
    by (simp add: funpow_swap1)
qed simp

lemma coeffs_xor: "xor_prefix (coeffs r) (coeffs b @ cs) = xor_prefix (coeffs (r XOR b)) (replicate 8 False @ cs)"
  by (simp add: coeffs_eq bit_xor_iff numeral_eq_Suc)

text \<open>
  C33: The packet error code the code computes bit by bit is the remainder of the message,
  moved up by eight places and with the seed added to its first byte, in the division by
  x^8 + x^2 + x + 1.
\<close>

theorem pec8_is_remainder:
  "coeffs (pec8_calc bytes) =
     gf2_rem (xor_prefix (coeffs 0x41) (concat (map coeffs bytes) @ replicate 8 False))"
proof -
  have "gf2_rem (xor_prefix (coeffs r) (concat (map coeffs bytes) @ replicate 8 False)) =
      coeffs (foldl pec8_byte r bytes)" for r
  proof (induction bytes arbitrary: r)
    case Nil
    then show ?case by (simp add: coeffs_eq numeral_eq_Suc)
  next
    case (Cons b bs)
    let ?cs = "concat (map coeffs bs) @ replicate 8 False"
    have "gf2_rem (xor_prefix (coeffs r) (coeffs b @ ?cs)) =
        gf2_rem (xor_prefix (coeffs (pec8_byte r b)) ?cs)"
      unfolding coeffs_xor pec8_byte_def by (rule division_steps) simp
    with Cons.IH show ?case by simp
  qed
  then show ?thesis by (simp add: pec8_calc_def)
qed

subsection \<open>Reading the cells\<close>

text \<open>Two 12-bit counts in three bytes, as the chip sends them.\<close>

definition pack12 :: "u16 \<Rightarrow> u16 \<Rightarrow> u8 list" where
  "pack12 a b = [ucast a, ucast (drop_bit 8 a) OR push_bit 4 (ucast b), ucast (drop_bit 4 b)]"

fun pack_cells :: "u16 list \<Rightarrow> u8 list" where
  "pack_cells (a # b # cs) = pack12 a b @ pack_cells cs"
| "pack_cells cs = []"

lemma bit_above12:
  assumes "a < 2 ^ 12" and "bit (a :: u16) n"
  shows "n < 12"
proof (rule ccontr)
  assume "\<not> n < 12"
  have "uint a < 2 ^ 12" using assms(1) by (simp add: word_less_def)
  then have "take_bit 12 (uint a) = uint a" by (simp add: take_bit_int_eq_self_iff)
  moreover have "bit (uint a) n" using assms(2) bit_imp_le_length[OF assms(2)] by (simp add: bit_uint_iff)
  ultimately have "bit (take_bit 12 (uint a)) n" by simp
  with \<open>\<not> n < 12\<close> show False by (simp add: bit_take_bit_iff)
qed

lemma uint_or_disjoint:
  fixes x y z :: u16
  assumes "\<And>n. \<not> bit x n \<or> \<not> bit y n" and "x OR y = z"
  shows "uint x + uint y = uint z"
proof -
  have "uint x + uint y = uint x OR uint y"
    by (rule disjunctive_add) (use assms(1) in \<open>simp add: bit_uint_iff\<close>)
  also have "\<dots> = uint (x OR y)" by (simp add: unsigned_or_eq)
  finally show ?thesis by (simp add: assms(2))
qed

lemma rdcv_pair:
  fixes a b :: u16
  assumes "a < 2 ^ 12" and "b < 2 ^ 12"
  shows "rdcv_even (ucast a) (ucast (drop_bit 8 a) OR push_bit 4 (ucast b)) = uint a - 512"
    and "rdcv_odd (ucast (drop_bit 8 a) OR push_bit 4 (ucast b)) (ucast (drop_bit 4 b)) = uint b - 512"
proof -
  note B = bit_above12[OF assms(1)] bit_above12[OF assms(2)]
  let ?x = "ucast (drop_bit 8 a) OR push_bit 4 (ucast b) :: u8"
  have m: "(0x0F :: u8) = mask 4" by (simp add: mask_eq_exp_minus_1)
  have "uint (ucast (ucast a :: u8) :: u16) + uint (push_bit 8 (ucast (?x AND 0x0F)) :: u16) = uint a"
    unfolding m
    by (rule uint_or_disjoint, use B in \<open>force simp: bit_simps\<close>,
        rule bit_word_eqI, use B in \<open>force simp: bit_simps\<close>)
  then show "rdcv_even (ucast a) ?x = uint a - 512" by (simp add: rdcv_even_def)
  have "uint (push_bit 4 (ucast (ucast (drop_bit 4 b) :: u8)) :: u16) + uint (ucast (drop_bit 4 ?x) :: u16) = uint b"
    by (rule uint_or_disjoint, use B in \<open>force simp: bit_simps\<close>,
        rule bit_word_eqI, use B in \<open>force simp: bit_simps\<close>)
  then show "rdcv_odd ?x (ucast (drop_bit 4 b)) = uint b - 512" by (simp add: rdcv_odd_def)
qed

text \<open>
  C32: Reading the cells decodes what the chip packs: the \<open>k\<close>-th voltage is the conversion
  of the \<open>k\<close>-th 12-bit count, less the offset of 512.
\<close>

theorem rdcv_cells_pack:
  assumes "list_all (\<lambda>c. c < 2 ^ 12) cs" and "even (length cs)"
  shows "rdcv_cells (pack_cells cs) = map (\<lambda>c. cell_volts (uint c - 512)) cs"
  using assms
proof (induction cs rule: pack_cells.induct)
  case (1 a b cs)
  then show ?case by (simp add: pack12_def rdcv_pair)
qed simp_all

lemma rdcv_cells_pack_witness:
  "rdcv_cells (pack_cells [512, 4095]) = [cell_volts 0, cell_volts 3583]"
  using rdcv_cells_pack[of "[512, 4095]"] by simp

subsection \<open>Balancing\<close>

text \<open>The switch of cell \<open>c\<close>, counted from 1, and how the two operations change it.\<close>

definition balanced :: "'a ltc_scheme \<Rightarrow> nat \<Rightarrow> bool" where
  "balanced s c =
     (if c \<le> 8 then bit (configReg s ! 1) (c - 1) else bit (configReg s ! 2) (c - 9))"

lemma shl_byte_bit:
  "0 < c \<Longrightarrow> c \<le> 8 \<Longrightarrow> shl_byte (int c - 1) = Some (2 ^ (c - 1))"
  "8 < c \<Longrightarrow> c \<le> 16 \<Longrightarrow> shl_byte (int c - 9) = Some (2 ^ (c - 9))"
  by (simp_all add: shl_byte_def nat_diff_distrib push_bit_eq_mult)

lemma bit_pow8: "bit (2 ^ k :: u8) n \<longleftrightarrow> n = k \<and> k < 8"
  by (auto simp: bit_exp_iff)

lemma switch_balance:
  assumes "1 \<le> c" and "c \<le> numCells s" and "numCells s \<le> 12" and "1 \<le> d" and "d \<le> 12"
    and "length (configReg s) = 6"
  shows "(\<exists>s'. ltc6803_enable_balance c s = Some s' \<and>
      balanced s' d = (balanced s d \<or> \<not> balance_lock s \<and> d = c)) \<and>
    (\<exists>s'. ltc6803_disable_balance c s = Some s' \<and>
      balanced s' d = (balanced s d \<and> (balance_lock s \<or> d \<noteq> c)))"
proof (cases "c \<le> 8")
  case True
  then show ?thesis
    using assms shl_byte_bit(1)[of c]
    by (auto simp: ltc6803_enable_balance_def ltc6803_disable_balance_def balanced_def
        bit_or_iff bit_and_iff bit_not_iff bit_pow8)
next
  case False
  then show ?thesis
    using assms shl_byte_bit(2)[of c]
    by (auto simp: ltc6803_enable_balance_def ltc6803_disable_balance_def balanced_def
        bit_or_iff bit_and_iff bit_not_iff bit_pow8)
qed

lemma balance_frame:
  assumes "ltc6803_enable_balance c s = Some s' \<or> ltc6803_disable_balance c s = Some s'"
  shows "\<exists>r. s' = s\<lparr>configReg := r\<rparr> \<and> length r = length (configReg s)"
proof -
  have "\<exists>r. s = s\<lparr>configReg := r\<rparr> \<and> length r = length (configReg s)"
    by (rule exI[of _ "configReg s"]) simp
  with assms show ?thesis
    by (auto simp: ltc6803_enable_balance_def ltc6803_disable_balance_def
        split: if_splits option.splits)
qed

text \<open>
  Without the lock, switching balancing of a cell on or off changes the switch of
  this cell and of no other, and with the lock nothing changes.
\<close>

theorem balance_switches:
  assumes "1 \<le> c" and "c \<le> numCells s" and "numCells s \<le> 12" and "1 \<le> d" and "d \<le> 12"
    and "length (configReg s) = 6"
  shows "(\<exists>s'. ltc6803_enable_balance c s = Some s' \<and>
      balanced s' d = (balanced s d \<or> \<not> balance_lock s \<and> d = c)) \<and>
    (\<exists>s'. ltc6803_disable_balance c s = Some s' \<and>
      balanced s' d = (balanced s d \<and> (balance_lock s \<or> d \<noteq> c)))"
  by (rule switch_balance[OF assms])

definition some_ltc :: ltc where
  "some_ltc =
     \<lparr>cells = (\<lambda>_. 0xFFFF), CR = 0, SR = 0, AR = 0, busy = 0, key1 = False, plan = [],
      powered = True, DataVar = 0, VirtAddVarTab = [], ios = 0, clock_in = (\<lambda>_. 0),
      pad_in = (\<lambda>_ _. False), bus_in = (\<lambda>_ _. 0), adc_in = (\<lambda>_ _. 0), nvic_active = (\<lambda>_ _. 0),
      pads = (\<lambda>_. False), events = [], config = replicate sizeof_Config 12,
      faults = 0, warnings = 0, cell_voltages = replicate 12 (Fin 0),
      configReg = replicate 6 0, balance_lock = False, conversionStart = 0\<rparr>"

lemma balance_switches_witness:
  "\<exists>s'. ltc6803_enable_balance 12 some_ltc = Some s' \<and> balanced s' 12"
proof -
  have "numCells some_ltc = 12"
    by (simp add: numCells_def some_ltc_def sizeof_Config_def offsets)
  moreover have "length (configReg some_ltc) = 6" "\<not> balance_lock some_ltc"
    by (simp_all add: some_ltc_def)
  ultimately show ?thesis using balance_switches[of 12 some_ltc 12] by simp
qed

end
