(* ===== verification/Analog.thy ===== *)
theory Analog
  imports Ltc6803
begin

text \<open>
  The analog inputs (analog.c): charger and discharge voltage and the board temperature.
  The arithmetic is that of the C expressions: a float sample, double constants, and the
  result rounded to a float. The logarithm of the C library is the parameter \<open>logf\<close>.
\<close>

record ana = ltc +
  charger_input_raw :: u16
  thermistor :: u16
  discharge_raw :: u16

text \<open>The conversion groups: the channels of the two converters in the order of their samples.\<close>

definition CHG_SENSE_CHANNEL :: nat where "CHG_SENSE_CHANNEL = 12"
definition DSG_SENSE_CHANNEL :: nat where "DSG_SENSE_CHANNEL = 5"
definition TEMP_SENSE_CHANNEL :: nat where "TEMP_SENSE_CHANNEL = 4"

definition adc3 :: "nat list" where "adc3 = [CHG_SENSE_CHANNEL, DSG_SENSE_CHANNEL]"
definition adc4 :: "nat list" where "adc4 = [TEMP_SENSE_CHANNEL]"

definition analog_init :: "'a ana_scheme \<Rightarrow> 'a ana_scheme" where
  "analog_init s =
     (let (samples, s1) = adcConvert adc3 s
      in s1\<lparr>charger_input_raw := samples ! 0, discharge_raw := samples ! 1\<rparr>)"

abbreviation dlit :: "rat \<Rightarrow> fp" where
  "dlit x \<equiv> rnd64 x"

definition analog_charger_input_voltage :: "'a ana_scheme \<Rightarrow> fp" where
  "analog_charger_input_voltage s =
     to32 (fp_div rnd64 (fp_mul rnd64 (fp_mul rnd64
       (fp_div rnd64 (int_f32 (uint (charger_input_raw s))) (Fin 4095))
       (dlit (33 / 10))) (Fin (51000 + 18000 + 4700))) (Fin 4700))"

definition analog_temperature :: "(fp \<Rightarrow> fp) \<Rightarrow> 'a ana_scheme \<Rightarrow> fp" where
  "analog_temperature logf s =
     (let ratio = fp_div rnd64 (fp_sub rnd64
            (fp_div rnd64 (Fin (4095 * 10000)) (Fin (of_int (uint (thermistor s))))) (Fin 10000))
            (Fin 10000);
          l = logf (to32 ratio)
      in to32 (fp_sub rnd64
           (fp_div rnd64 (Fin 1)
             (fp_add rnd64 (fp_div rnd64 l (Fin 3434)) (fp_div rnd64 (Fin 1) (dlit (29815 / 100)))))
           (dlit (27315 / 100))))"

definition analog_discharge_voltage :: "'a ana_scheme \<Rightarrow> fp" where
  "analog_discharge_voltage s =
     to32 (fp_div rnd64 (fp_mul rnd64 (fp_mul rnd64 (int_f32 (uint (discharge_raw s)))
       (fp_div rnd64 (dlit (33 / 10)) (Fin 4095)))
       (Fin (200000 + 100 + 2500 + 10000))) (Fin 10000))"

definition analog_update :: "(fp \<Rightarrow> fp) \<Rightarrow> 'a ana_scheme \<Rightarrow> 'a ana_scheme" where
  "analog_update logf s =
     (let (samples3, s1) = adcConvert adc3 s;
          s2 = s1\<lparr>charger_input_raw := samples3 ! 0, discharge_raw := samples3 ! 1\<rparr>;
          (samples4, s3) = adcConvert adc4 s2;
          s4 = s3\<lparr>thermistor := samples4 ! 0\<rparr>
      in if fp_less (Fin 100) (analog_temperature logf s4)
         then faults_set_fault FAULT_BOARD_TEMP s4 else s4)"

subsection \<open>The conversion is monotone\<close>

lemma const33: "\<exists>c. rnd64 (33 / 10) = Fin c \<and> 0 < c \<and> c \<le> 4"
proof -
  have "\<exists>y. rnd64 (33 / 10) = Fin y \<and> 0 \<le> y \<and> y \<le> 2 powi 2"
    by (rule rnd64_bounds) simp_all
  then obtain c where c: "rnd64 (33 / 10) = Fin c" "c \<le> 2 powi 2" by blast
  have "2 powi 1 \<le> c" by (rule rnd64_lower[OF _ _ _ c(1)]) simp_all
  with c show ?thesis by auto
qed

lemma discharge_voltage_0: "discharge_raw s = 0 \<Longrightarrow> analog_discharge_voltage s = Fin 0"
proof -
  assume raw: "discharge_raw s = 0"
  obtain c where c: "rnd64 (33 / 10) = Fin c" "0 < c" "c \<le> 4" using const33 by blast
  have "\<exists>y. rnd64 (c / 4095) = Fin y \<and> 0 \<le> y \<and> y \<le> 2 powi 0"
    by (rule rnd64_bounds) (use c in simp_all)
  then obtain d where "rnd64 (c / 4095) = Fin d" by blast
  with c raw show ?thesis by (simp add: analog_discharge_voltage_def int_f32_def)
qed

text \<open>
  A greater sample of the charger input never converts to a smaller voltage, so that
  every threshold on the voltage is a threshold on the sample.
\<close>

theorem charger_voltage_mono:
  assumes "charger_input_raw s \<le> charger_input_raw t"
  shows "fp_le (analog_charger_input_voltage s) (analog_charger_input_voltage t)"
proof -
  obtain c where c: "rnd64 (33 / 10) = Fin c" "0 < c" using const33 by blast
  have "fp_le (int_f32 (uint (charger_input_raw s))) (int_f32 (uint (charger_input_raw t)))"
    unfolding int_f32_def by (rule mono_roundD) (use assms in \<open>simp_all only: word_le_def of_int_le_iff mono_rnd\<close>)
  then show ?thesis
    unfolding analog_charger_input_voltage_def c(1)
    by (intro to32_mono fp_div_mono fp_mul_mono) (simp_all add: c(2))
qed

lemma charger_voltage_mono_witness:
  "\<forall>s :: ana. fp_le (analog_charger_input_voltage (s\<lparr>charger_input_raw := 300\<rparr>))
     (analog_charger_input_voltage (s\<lparr>charger_input_raw := 4095\<rparr>))"
  by (intro allI charger_voltage_mono) simp

text \<open>A full-scale sample of the charger input is above the detection threshold of 6 V.\<close>

lemma charger_voltage_full:
  assumes "charger_input_raw s = 4095"
  shows "fp_less (Fin 6) (analog_charger_input_voltage s)"
proof -
  obtain c where c: "rnd64 (33 / 10) = Fin c" "0 < c" using const33 by blast
  have "fp_le (Fin (2 powi 1)) (rnd64 (33 / 10))" by (rule rnd_ge_power) simp_all
  then have c2: "2 \<le> c" by (simp add: c(1))
  have "int_f32 4095 = Fin 4095" using int_exact(1)[of 4095] by simp
  then have one: "fp_div rnd64 (int_f32 (uint (charger_input_raw s))) (Fin 4095) = Fin 1"
    using assms num_exact(4) by simp
  have "fp_le (Fin (2 powi 1)) (fp_mul rnd64 (Fin 1) (Fin c))"
    using c2 by (simp, intro rnd_ge_power(2)[of 1 c] rnd_ge_power(1)[of 1, simplified]) simp_all
  then have "fp_le (fp_mul rnd64 (Fin 2) (Fin 73700)) (fp_mul rnd64 (fp_mul rnd64 (Fin 1) (Fin c)) (Fin 73700))"
    by (intro fp_mul_mono) simp_all
  moreover have "fp_le (Fin (2 powi 17)) (fp_mul rnd64 (Fin 2) (Fin 73700))"
    by (simp only: fp_mul.simps) (rule rnd_ge_power(1), simp_all)
  ultimately have "fp_le (Fin (2 powi 17)) (fp_mul rnd64 (fp_mul rnd64 (Fin 1) (Fin c)) (Fin 73700))"
    by (rule fp_le_trans[rotated])
  then have "fp_le (fp_div rnd64 (Fin (2 powi 17)) (Fin 4700))
      (fp_div rnd64 (fp_mul rnd64 (fp_mul rnd64 (Fin 1) (Fin c)) (Fin 73700)) (Fin 4700))"
    by (intro fp_div_mono) simp_all
  moreover have "fp_le (Fin (2 powi 4)) (fp_div rnd64 (Fin (2 powi 17)) (Fin 4700))"
    by (simp only: fp_div.simps) (simp, rule rnd_ge_power(1)[of 4, simplified], simp_all)
  ultimately have "fp_le (Fin (2 powi 4))
      (fp_div rnd64 (fp_mul rnd64 (fp_mul rnd64 (Fin 1) (Fin c)) (Fin 73700)) (Fin 4700))"
    by (rule fp_le_trans[rotated])
  then have "fp_le (to32 (Fin 16)) (analog_charger_input_voltage s)"
    unfolding analog_charger_input_voltage_def one c(1) by (intro to32_mono) simp
  then have "fp_le (Fin 16) (analog_charger_input_voltage s)" by (simp add: num_exact(1))
  then show ?thesis by (cases "analog_charger_input_voltage s") (auto simp: fp_le_def fp_eq_def)
qed

end
