(* ===== verification/Rtcc.thy ===== *)
theory Rtcc
  imports Analog
begin

text \<open>
  The real-time clock (rtcc.c): its registers hold binary-coded decimals, and before the
  pack switches off an alarm is set for the day before the same day of the next month.
  \<open>rtcc_enable_alarm\<close> declares its transmit buffer with one element but fills and sends
  two; the model sends these two bytes.
\<close>

definition RTCC_I2C_ADDRESS :: u8 where "RTCC_I2C_ADDRESS = 0x51"

record Time =
  second :: u8
  minute :: u8
  hour :: u8
  day :: u8
  month :: u8
  year :: u8

record rtc = ana +
  time :: Time

definition HEX_TO_BCD :: "nat \<Rightarrow> nat" where
  "HEX_TO_BCD x = push_bit 4 (x div 10) OR (x mod 10)"

definition bcd_value :: "u8 \<Rightarrow> u8 \<Rightarrow> u8" where
  "bcd_value tens_mask rx = (drop_bit 4 rx AND tens_mask) * 10 + (rx AND 0x0F)"

definition rtcc_init :: "'a rtc_scheme \<Rightarrow> 'a rtc_scheme" where
  "rtcc_init s =
     fold (i2cSend RTCC_I2C_ADDRESS)
       [[0x25, 0x01], [0x26, 0x06], [0x27, 0x02], [0x29, 0x90], [0x2B, 0x00], [0x10, 0x00]] s"

definition rtcc_read :: "u8 \<Rightarrow> 'a rtc_scheme \<Rightarrow> u8 \<times> 'a rtc_scheme" where
  "rtcc_read reg s = (let (rx, s1) = i2cMasterTransmit RTCC_I2C_ADDRESS [reg] 1 s in (rx ! 0, s1))"

definition rtcc_update :: "'a rtc_scheme \<Rightarrow> 'a rtc_scheme" where
  "rtcc_update s =
     (let s0 = emit I2C_Acquire s;
          (r1, s1) = rtcc_read 0x01 s0;
          s1' = s1\<lparr>time := (time s1)\<lparr>second := bcd_value 0x07 r1\<rparr>\<rparr>;
          (r2, s2) = rtcc_read 0x02 s1';
          s2' = s2\<lparr>time := (time s2)\<lparr>minute := bcd_value 0x07 r2\<rparr>\<rparr>;
          (r3, s3) = rtcc_read 0x03 s2';
          s3' = s3\<lparr>time := (time s3)\<lparr>hour := bcd_value 0x03 r3\<rparr>\<rparr>;
          (r4, s4) = rtcc_read 0x04 s3';
          s4' = s4\<lparr>time := (time s4)\<lparr>day := bcd_value 0x03 r4\<rparr>\<rparr>;
          (r5, s5) = rtcc_read 0x06 s4';
          s5' = s5\<lparr>time := (time s5)\<lparr>month := bcd_value 0x01 r5\<rparr>\<rparr>;
          (r6, s6) = rtcc_read 0x07 s5';
          s6' = s6\<lparr>time := (time s6)\<lparr>year := bcd_value 0xFF r6\<rparr>\<rparr>
      in emit I2C_Release s6')"

definition rtcc_get_time :: "'a rtc_scheme \<Rightarrow> Time" where
  "rtcc_get_time s = time s"

text \<open>The day of the alarm, computed in int and stored in a byte.\<close>

definition alarm_month :: "Time \<Rightarrow> nat" where
  "alarm_month t = (if day t = 1 then unat (month t) else (unat (month t) + 1) mod 12)"

definition alarm_numDays :: "Time \<Rightarrow> nat" where
  "alarm_numDays t =
     (let m = alarm_month t in
      if m = 1 \<or> m = 3 \<or> m = 5 \<or> m = 8 \<or> m = 10 \<or> m = 12 then 31
      else if m = 2 then (if unat (year t) mod 4 = 0 then 29 else 28)
      else 30)"

definition alarm_day :: "Time \<Rightarrow> u8" where
  "alarm_day t =
     (let numDays = alarm_numDays t in
      if day t = 1 then of_nat numDays
      else if numDays + 1 < unat (day t) then of_nat numDays
      else day t - 1)"

definition rtcc_enable_alarm :: "'a rtc_scheme \<Rightarrow> 'a rtc_scheme" where
  "rtcc_enable_alarm s =
     i2cSend RTCC_I2C_ADDRESS [0x10, 0x08]
       (i2cSend RTCC_I2C_ADDRESS [0x0B, of_nat (HEX_TO_BCD (unat (alarm_day (time s))))] s)"

subsection \<open>Decimals and days\<close>

lemma bit_small_nat:
  assumes "(a :: nat) < 2 ^ k" and "bit a n"
  shows "n < k"
proof (rule ccontr)
  assume "\<not> n < k"
  have "take_bit k a = a" using assms(1) by (simp add: take_bit_nat_eq_self_iff)
  then have "bit (take_bit k a) n" using assms(2) by simp
  with \<open>\<not> n < k\<close> show False by (simp add: bit_take_bit_iff)
qed

lemma nibbles:
  assumes "a < 16" and "b < 16"
  shows "drop_bit 4 (of_nat (push_bit 4 a OR b) :: u8) = of_nat a"
    and "(of_nat (push_bit 4 a OR b) :: u8) AND 0x0F = of_nat b"
proof -
  have ab: "bit a n \<Longrightarrow> n < 4" "bit b n \<Longrightarrow> n < 4" for n
    using bit_small_nat[of a 4 n] bit_small_nat[of b 4 n] assms by auto
  have m: "(0x0F :: u8) = mask 4" by (simp add: mask_eq_exp_minus_1)
  show "drop_bit 4 (of_nat (push_bit 4 a OR b) :: u8) = of_nat a"
    by (rule bit_word_eqI) (use ab in \<open>force simp: bit_simps\<close>)
  show "(of_nat (push_bit 4 a OR b) :: u8) AND 0x0F = of_nat b"
    unfolding m by (rule bit_word_eqI) (use ab in \<open>force simp: bit_simps\<close>)
qed

lemma mask_cases:
  "a < 8 \<Longrightarrow> of_nat a AND 0x07 = (of_nat a :: u8)"
  "a < 4 \<Longrightarrow> of_nat a AND 0x03 = (of_nat a :: u8)"
  "a < 2 \<Longrightarrow> of_nat a AND 0x01 = (of_nat a :: u8)"
  "a < 16 \<Longrightarrow> of_nat a AND 0xFF = (of_nat a :: u8)"
proof -
  have "of_nat a AND mask k = (of_nat a :: u8)" if "a < 2 ^ k" for k
    by (rule bit_word_eqI) (use bit_small_nat[OF that] in \<open>auto simp: bit_simps\<close>)
  from this[of 3] this[of 2] this[of 1] this[of 8] show
    "a < 8 \<Longrightarrow> of_nat a AND 0x07 = (of_nat a :: u8)"
    "a < 4 \<Longrightarrow> of_nat a AND 0x03 = (of_nat a :: u8)"
    "a < 2 \<Longrightarrow> of_nat a AND 0x01 = (of_nat a :: u8)"
    "a < 16 \<Longrightarrow> of_nat a AND 0xFF = (of_nat a :: u8)"
    by (simp_all add: mask_eq_exp_minus_1)
qed

lemma bcd_value_nat:
  "d < 80 \<Longrightarrow> bcd_value 0x07 (of_nat (HEX_TO_BCD d)) = of_nat d"
  "d < 40 \<Longrightarrow> bcd_value 0x03 (of_nat (HEX_TO_BCD d)) = of_nat d"
  "d < 20 \<Longrightarrow> bcd_value 0x01 (of_nat (HEX_TO_BCD d)) = of_nat d"
  "d < 100 \<Longrightarrow> bcd_value 0xFF (of_nat (HEX_TO_BCD d)) = of_nat d"
proof -
  have d: "of_nat (d div 10) * 10 + of_nat (d mod 10) = (of_nat d :: u8)"
    by (metis div_mult_mod_eq of_nat_add of_nat_mult of_nat_numeral)
  have n: "drop_bit 4 (of_nat (HEX_TO_BCD d) :: u8) = of_nat (d div 10)"
    "(of_nat (HEX_TO_BCD d) :: u8) AND 0x0F = of_nat (d mod 10)" if "d < 100"
    unfolding HEX_TO_BCD_def by (rule nibbles; use that in simp)+
  show "d < 80 \<Longrightarrow> bcd_value 0x07 (of_nat (HEX_TO_BCD d)) = of_nat d"
    "d < 40 \<Longrightarrow> bcd_value 0x03 (of_nat (HEX_TO_BCD d)) = of_nat d"
    "d < 20 \<Longrightarrow> bcd_value 0x01 (of_nat (HEX_TO_BCD d)) = of_nat d"
    "d < 100 \<Longrightarrow> bcd_value 0xFF (of_nat (HEX_TO_BCD d)) = of_nat d"
    unfolding bcd_value_def by (simp_all add: n mask_cases d)
qed

text \<open>The number of days the alarm's month really has, for a month of 1 to 12.\<close>

definition month_days :: "nat \<Rightarrow> nat \<Rightarrow> nat" where
  "month_days m y =
     (if m = 2 then (if y mod 4 = 0 then 29 else 28)
      else if m \<in> {4, 6, 9, 11} then 30 else 31)"

definition target_month :: "Time \<Rightarrow> nat" where
  "target_month t = (if day t = 1 then unat (month t) else unat (month t) mod 12 + 1)"

text \<open>
  For a valid date the alarm is set to a day from 1 to 31 that the month it falls
  into has, and the two bytes sent hold that day as a binary-coded decimal which the
  clock's reading decodes again.
\<close>

theorem alarm_day_exists:
  assumes "1 \<le> unat (day (time s))" and "unat (day (time s)) \<le> 31"
    and "1 \<le> unat (month (time s))" and "unat (month (time s)) \<le> 12"
  shows "1 \<le> unat (alarm_day (time s)) \<and>
    unat (alarm_day (time s)) \<le> month_days (target_month (time s)) (unat (year (time s))) \<and>
    (\<exists>w. events (rtcc_enable_alarm s) = events s @
       [I2C_Transmit RTCC_I2C_ADDRESS [0x0B, w], I2C_Transmit RTCC_I2C_ADDRESS [0x10, 0x08]] \<and>
       bcd_value 0x03 w = alarm_day (time s))"
proof -
  let ?t = "time s"
  let ?n = "alarm_numDays ?t"
  define m where "m = unat (month ?t)"
  have "m = 1 \<or> m = 2 \<or> m = 3 \<or> m = 4 \<or> m = 5 \<or> m = 6 \<or> m = 7 \<or> m = 8 \<or> m = 9 \<or> m = 10 \<or> m = 11 \<or> m = 12"
    using assms(3,4) unfolding m_def[symmetric] by arith
  then have n: "?n \<le> month_days (target_month ?t) (unat (year ?t))" "28 \<le> ?n" "?n \<le> 31"
    unfolding alarm_numDays_def alarm_month_def target_month_def month_days_def Let_def m_def[symmetric]
    by (elim disjE; simp)+
  have un: "unat (of_nat ?n :: u8) = ?n" using n(3) by (simp add: unat_of_nat take_bit_nat_eq_self_iff)
  have dm: "unat (day ?t - 1) = unat (day ?t) - 1" using assms(1)
    by (metis One_nat_def le_zero_eq not_one_le_zero unat_0 unat_gt_0 unat_minus_one word_neq_0_conv)
  have one: "day ?t = 1 \<longleftrightarrow> unat (day ?t) = 1" by (metis unat_1 unsigned_word_eqI)
  have r: "1 \<le> unat (alarm_day ?t)" "unat (alarm_day ?t) \<le> ?n"
    unfolding alarm_day_def Let_def one using un dm n assms(1) by auto
  then have "unat (alarm_day ?t) < 40" using n(3) by simp
  then have "bcd_value 0x03 (of_nat (HEX_TO_BCD (unat (alarm_day ?t)))) = alarm_day ?t"
    using bcd_value_nat(2)[of "unat (alarm_day ?t)"] by simp
  with r n(1) show ?thesis
    by (auto simp: rtcc_enable_alarm_def i2cSend_def i2cMasterTransmit_def emit_def)
qed

definition some_time :: "Time" where
  "some_time = \<lparr>second = 0, minute = 0, hour = 0, day = 31, month = 1, year = 24\<rparr>"

lemma alarm_day_exists_witness:
  "\<forall>s :: rtc. unat (alarm_day (time (s\<lparr>time := some_time\<rparr>))) \<le> 29"
proof
  fix s :: rtc
  have t: "time (s\<lparr>time := some_time\<rparr>) = some_time" by simp
  have v: "1 \<le> unat (day some_time)" "unat (day some_time) \<le> 31"
    "1 \<le> unat (month some_time)" "unat (month some_time) \<le> 12"
    by (simp_all add: some_time_def)
  have "month_days (target_month some_time) (unat (year some_time)) = 29"
    by (simp add: month_days_def target_month_def some_time_def)
  with alarm_day_exists[of "s\<lparr>time := some_time\<rparr>"] v t
  show "unat (alarm_day (time (s\<lparr>time := some_time\<rparr>))) \<le> 29" by simp
qed

end
