(* ===== verification/Power_Control.thy ===== *)
theory Power_Control
  imports Rtcc
begin

text \<open>
  Power-on, precharge, discharge and shutdown (power.c). The static variables of
  current_monitor.c are declared here too, because the two files call each other.
\<close>

record cmon = rtc +
  current :: fp
  bus_voltage :: fp
  bus_power :: fp

datatype PowerOnEvent = EVENT_SWITCH | EVENT_CHARGER | EVENT_USB | EVENT_RTCC

record pwr = cmon +
  discharge_enabled :: bool
  precharged :: bool
  prechargeStartTime :: u32
  power_on_event :: PowerOnEvent
  power_button_released :: bool
  shutdownStarted :: bool
  shutdown :: bool
  shutdownStartTime :: u32

subsection \<open>Fields of the configuration the power control reads\<close>

definition turnOnDelay :: "'a cfg_scheme \<Rightarrow> u16" where
  "turnOnDelay s = get_u16 off_turnOnDelay (config s)"

definition shutdownDelay :: "'a cfg_scheme \<Rightarrow> u16" where
  "shutdownDelay s = get_u16 off_shutdownDelay (config s)"

definition prechargeTimeout :: "'a cfg_scheme \<Rightarrow> u16" where
  "prechargeTimeout s = get_u16 off_prechargeTimeout (config s)"

definition chargerDisconnectShutdown :: "'a cfg_scheme \<Rightarrow> bool" where
  "chargerDisconnectShutdown s \<longleftrightarrow> config s ! off_chargerDisconnectShutdown \<noteq> 0"

subsection \<open>Power-on\<close>

text \<open>The event variable is static: it is \<open>EVENT_SWITCH\<close>, its zero, if no branch sets it.\<close>

definition power_detect_event :: "'a pwr_scheme \<Rightarrow> 'a pwr_scheme" where
  "power_detect_event s =
     (let (btn, s1) = palReadPad PWR_BTN s in
      if \<not> btn then s1\<lparr>power_on_event := EVENT_SWITCH\<rparr>
      else if fp_less (Fin 6) (analog_charger_input_voltage s1)
      then s1\<lparr>power_on_event := EVENT_CHARGER\<rparr>
      else let (rtcc_int, s2) = palReadPad RTCC_INT s1 in
      if \<not> rtcc_int then s2\<lparr>power_on_event := EVENT_RTCC\<rparr>
      else let (usb, s3) = palReadPad USB_DETECT s2 in
      if usb then s3\<lparr>power_on_event := EVENT_USB\<rparr> else s3)"

definition power_init :: "'a pwr_scheme \<Rightarrow> 'a pwr_scheme" where
  "power_init s =
     (let s1 = power_detect_event (palClearPad PCHG_SW (palClearPad DSG_SW s));
          s2 = (if power_on_event s1 = EVENT_SWITCH
                then (emit (Sleep_Ms (ucast (turnOnDelay s1))) s1)\<lparr>discharge_enabled := True\<rparr>
                else s1)
      in if power_on_event s2 \<noteq> EVENT_USB then palSetPad PWR_SW s2 else s2)"

subsection \<open>The discharge switches\<close>

text \<open>
  The first half of \<open>power_update\<close>; the boolean is the early return after a turn-on into a
  short circuit. The second operand of the disjunction is evaluated, and the clock read
  again, only if the first one is false. The branch of the code for \<open>precharged\<close> being
  false after it has been set is unreachable and left out.
\<close>

definition precharge_done :: "'a pwr_scheme \<Rightarrow> bool \<times> 'a pwr_scheme" where
  "precharge_done s =
     (if fp_le (fp_sub rnd64 (bus_voltage s) (Fin 5)) (analog_discharge_voltage s) then (True, s)
      else let (dt, s1) = chVTTimeElapsedSinceX (prechargeStartTime s) s
           in (ucast (prechargeTimeout s1) < ST2MS dt, s1))"

definition power_precharge :: "'a pwr_scheme \<Rightarrow> bool \<times> 'a pwr_scheme" where
  "power_precharge s =
     (let (dt, s1) = chVTTimeElapsedSinceX (prechargeStartTime s) s in
      if 8 < ST2MS dt \<and> fp_less (analog_discharge_voltage s1) (Fin (1 / 2)) then
        (True, faults_set_fault FAULT_TURN_ON_SHORT (palClearPad PCHG_SW (palClearPad DSG_SW s1)))
      else let (full, s2) = precharge_done s1 in
      if full then (False, palClearPad PCHG_SW (palSetPad DSG_SW s2))
      else (False, palClearPad DSG_SW (palSetPad PCHG_SW s2)))"

definition power_switches :: "'a pwr_scheme \<Rightarrow> bool \<times> 'a pwr_scheme" where
  "power_switches s =
     (if discharge_enabled s \<and> faults_get_faults s = fault_code FAULT_NONE then
        let s1 = (if \<not> precharged s then
                    let (t, s') = chVTGetSystemTime s
                    in s'\<lparr>prechargeStartTime := t, precharged := True\<rparr>
                  else s)
        in power_precharge s1
      else (False, (palClearPad PCHG_SW (palClearPad DSG_SW s))\<lparr>precharged := False\<rparr>))"

subsection \<open>Shutdown\<close>

definition power_off :: "'a pwr_scheme \<Rightarrow> 'a pwr_scheme" where
  "power_off s = palClearPad PWR_SW (palClearPad DSG_SW (rtcc_enable_alarm s))"

text \<open>The condition of the second branch, with the pins read in the order of the code.\<close>

definition shutdown_requested :: "'a pwr_scheme \<Rightarrow> bool \<times> 'a pwr_scheme" where
  "shutdown_requested s =
     (let (btn, s1) = palReadPad PWR_BTN s in
      if \<not> btn \<and> power_button_released s1 \<and> fp_less (analog_charger_input_voltage s1) (Fin 6) then
        let (usb, s2) = palReadPad USB_DETECT s1
        in (\<not> usb \<or> power_on_event s2 = EVENT_RTCC, s2)
      else (power_on_event s1 = EVENT_RTCC, s1))"

definition power_shutdown :: "'a pwr_scheme \<Rightarrow> 'a pwr_scheme" where
  "power_shutdown s =
     (let (btn, s1) = palReadPad PWR_BTN s;
          s2 = (if btn then s1\<lparr>power_button_released := True\<rparr> else s1)
      in if shutdown s2 \<or> chargerDisconnectShutdown s2 \<and> power_on_event s2 = EVENT_CHARGER \<and>
            fp_less (analog_charger_input_voltage s2) (Fin 6)
         then power_off (s2\<lparr>shutdown := True\<rparr>)
         else let (req, s3) = shutdown_requested s2 in
         if req then
           let s4 = (if \<not> shutdownStarted s3 then
                       let (t, s') = chVTGetSystemTime s3
                       in s'\<lparr>shutdownStartTime := t, shutdownStarted := True\<rparr>
                     else s3);
               (dt, s5) = chVTTimeElapsedSinceX (shutdownStartTime s4) s4
           in if ucast (shutdownDelay s5) < ST2MS dt
              then (power_off s5)\<lparr>shutdown := True\<rparr> else s5
         else s3\<lparr>shutdown := False, shutdownStarted := False\<rparr>)"

definition power_update :: "'a pwr_scheme \<Rightarrow> 'a pwr_scheme" where
  "power_update s =
     (let s1 = (if \<not> shutdown s \<and> power_on_event s \<noteq> EVENT_USB then palSetPad PWR_SW s else s);
          (short, s2) = power_switches s1
      in if short then s2 else power_shutdown s2)"

definition power_enable_discharge :: "'a pwr_scheme \<Rightarrow> 'a pwr_scheme" where
  "power_enable_discharge s = s\<lparr>discharge_enabled := True\<rparr>"

definition power_disable_discharge :: "'a pwr_scheme \<Rightarrow> 'a pwr_scheme" where
  "power_disable_discharge s = palClearPad DSG_SW (s\<lparr>discharge_enabled := False\<rparr>)"

definition power_is_shutdown :: "'a pwr_scheme \<Rightarrow> bool" where
  "power_is_shutdown s = shutdown s"

definition power_get_power_on_event :: "'a pwr_scheme \<Rightarrow> PowerOnEvent" where
  "power_get_power_on_event s = power_on_event s"

end
