(* ===== verification/Power_Props.thy ===== *)
theory Power_Props
  imports Power_Control
begin

text \<open>
  What the power control guarantees of its switches. The collection \<open>board_simps\<close> says
  what the driver calls and the operations of other components do not touch.
\<close>

named_theorems board_simps

declare palReadPad_def [board_simps] chVTGetSystemTime_def [board_simps]
  chVTTimeElapsedSinceX_def [board_simps] palSetPad_def [board_simps] palClearPad_def [board_simps]
  palWritePad_def [board_simps] emit_def [board_simps] i2cSend_def [board_simps]
  i2cMasterTransmit_def [board_simps] rtcc_enable_alarm_def [board_simps]
  power_off_def [board_simps] faults_set_fault_def [board_simps]

lemma pad_distinct [simp]:
  "DSG_SW \<noteq> PCHG_SW" "PCHG_SW \<noteq> DSG_SW" "DSG_SW \<noteq> PWR_SW" "PWR_SW \<noteq> DSG_SW"
  "PCHG_SW \<noteq> PWR_SW" "PWR_SW \<noteq> PCHG_SW" "CHG_SW \<noteq> DSG_SW" "DSG_SW \<noteq> CHG_SW"
  "CHG_SW \<noteq> PCHG_SW" "PCHG_SW \<noteq> CHG_SW" "CHG_SW \<noteq> PWR_SW" "PWR_SW \<noteq> CHG_SW"
  by (simp_all add: pad_defs)

subsection \<open>The two halves of an update\<close>

lemma precharge_done_keeps:
  "pads (snd (precharge_done s)) = pads s" "faults (snd (precharge_done s)) = faults s"
  "discharge_enabled (snd (precharge_done s)) = discharge_enabled s"
  "shutdown (snd (precharge_done s)) = shutdown s"
  "power_on_event (snd (precharge_done s)) = power_on_event s"
  by (simp_all add: precharge_done_def board_simps)

lemma power_precharge_result:
  "pads (snd (power_precharge s)) DSG_SW \<Longrightarrow> \<not> pads (snd (power_precharge s)) PCHG_SW"
  "pads (snd (power_precharge s)) PWR_SW = pads s PWR_SW"
  "discharge_enabled (snd (power_precharge s)) = discharge_enabled s"
  "shutdown (snd (power_precharge s)) = shutdown s"
  "power_on_event (snd (power_precharge s)) = power_on_event s"
  "fst (power_precharge s) \<Longrightarrow> \<not> pads (snd (power_precharge s)) DSG_SW"
  "fst (power_precharge s) \<Longrightarrow> \<not> pads (snd (power_precharge s)) PCHG_SW"
  by (auto simp: power_precharge_def Let_def split_beta board_simps precharge_done_keeps
      split: if_splits)

lemma power_switches_result:
  "pads (snd (power_switches s)) DSG_SW \<Longrightarrow>
    discharge_enabled s \<and> faults s = 0 \<and> \<not> pads (snd (power_switches s)) PCHG_SW"
  "pads (snd (power_switches s)) PCHG_SW \<Longrightarrow> discharge_enabled s \<and> faults s = 0"
  "pads (snd (power_switches s)) PWR_SW = pads s PWR_SW"
  "discharge_enabled (snd (power_switches s)) = discharge_enabled s"
  "shutdown (snd (power_switches s)) = shutdown s"
  "power_on_event (snd (power_switches s)) = power_on_event s"
  "fst (power_switches s) \<Longrightarrow> \<not> pads (snd (power_switches s)) DSG_SW"
  by (auto simp: power_switches_def Let_def split_beta board_simps faults_get_faults_def
      power_precharge_result(2-5) dest: power_precharge_result(1,6,7) split: if_splits)

lemma shutdown_requested_keeps:
  "pads (snd (shutdown_requested s)) = pads s"
  "discharge_enabled (snd (shutdown_requested s)) = discharge_enabled s"
  "shutdown (snd (shutdown_requested s)) = shutdown s"
  "power_on_event (snd (shutdown_requested s)) = power_on_event s"
  "shutdownStarted (snd (shutdown_requested s)) = shutdownStarted s"
  "shutdownStartTime (snd (shutdown_requested s)) = shutdownStartTime s"
  "config (snd (shutdown_requested s)) = config s"
  by (simp_all add: shutdown_requested_def Let_def split_beta board_simps)

lemma power_shutdown_result:
  "pads (power_shutdown s) DSG_SW \<Longrightarrow> pads s DSG_SW \<and> \<not> shutdown (power_shutdown s)"
  "pads (power_shutdown s) PCHG_SW = pads s PCHG_SW"
  "pads (power_shutdown s) PWR_SW \<Longrightarrow> pads s PWR_SW \<and> \<not> shutdown (power_shutdown s)"
  "discharge_enabled (power_shutdown s) = discharge_enabled s"
  "shutdown s \<Longrightarrow> shutdown (power_shutdown s)"
  by (auto simp: power_shutdown_def Let_def split_beta board_simps shutdown_requested_keeps
      split: if_splits)

lemma power_update_pads:
  "(pads (power_update s) DSG_SW \<longrightarrow>
      discharge_enabled s \<and> faults s = 0 \<and> \<not> shutdown (power_update s) \<and>
      \<not> pads (power_update s) PCHG_SW) \<and>
   (pads (power_update s) PCHG_SW \<longrightarrow> discharge_enabled s \<and> faults s = 0)"
proof -
  let ?s1 = "if \<not> shutdown s \<and> power_on_event s \<noteq> EVENT_USB then palSetPad PWR_SW s else s"
  have same: "discharge_enabled ?s1 = discharge_enabled s" "faults ?s1 = faults s"
    by (simp_all add: board_simps)
  let ?s2 = "snd (power_switches ?s1)"
  have up: "power_update s = (if fst (power_switches ?s1) then ?s2 else power_shutdown ?s2)"
    by (simp add: power_update_def Let_def split_beta)
  note S = power_switches_result[of ?s1, unfolded same]
  show ?thesis
    unfolding up using S(1,2,7) power_shutdown_result(1,2)[of ?s2] by (auto split: if_splits)
qed

lemma power_update_off: "\<not> discharge_enabled s \<Longrightarrow> \<not> pads (power_update s) DSG_SW"
  using power_update_pads by blast

text \<open>
  C14: After every update the discharge switch is on only if discharging is enabled, no
  fault is raised and the pack is not shut down, and never together with the precharge
  switch, which needs discharging enabled and no fault as well.
\<close>

theorem power_update_safe:
  "(pads (power_update s) DSG_SW \<longrightarrow>
      discharge_enabled s \<and> faults s = 0 \<and> \<not> shutdown (power_update s) \<and>
      \<not> pads (power_update s) PCHG_SW) \<and>
   (pads (power_update s) PCHG_SW \<longrightarrow> discharge_enabled s \<and> faults s = 0)"
  by (rule power_update_pads)

text \<open>An example: a pack that discharges after a completed precharge.\<close>

definition running :: "pwr \<Rightarrow> pwr" where
  "running s = s\<lparr>discharge_enabled := True, faults := 0, precharged := True, bus_voltage := Inf True,
     discharge_raw := 0, clock_in := (\<lambda>_. 0), prechargeStartTime := 0, shutdown := False,
     power_on_event := EVENT_SWITCH, pad_in := (\<lambda>_ _. True), pads := (\<lambda>_. False)\<rparr>"

lemma running_update: "pads (power_update (running s)) DSG_SW"
proof -
  have "ST2MS 0 = 0" by (simp add: ST2MS_def CH_CFG_ST_FREQUENCY_def)
  then show ?thesis
    by (simp add: running_def power_update_def power_switches_def power_precharge_def
        precharge_done_def power_shutdown_def shutdown_requested_def Let_def split_beta board_simps
        faults_get_faults_def discharge_voltage_0 fp_sub_def)
qed

lemma power_update_safe_witness:
  "\<forall>s. pads (power_update (running s)) DSG_SW \<and> \<not> pads (power_update (running s)) PCHG_SW"
  using power_update_safe running_update by blast

text \<open>
  A shutdown is final: once the pack is shut down, every later update keeps it so,
  keeps the discharge switch off, and never turns the supply of the board on again.
\<close>

theorem power_shutdown_final:
  assumes "shutdown s"
  shows "shutdown (power_update s) \<and> \<not> pads (power_update s) DSG_SW \<and>
    (pads (power_update s) PWR_SW \<longrightarrow> pads s PWR_SW)"
proof -
  let ?s2 = "snd (power_switches s)"
  have up: "power_update s = (if fst (power_switches s) then ?s2 else power_shutdown ?s2)"
    using assms by (simp add: power_update_def Let_def split_beta)
  note S = power_switches_result[of s]
  show ?thesis
    unfolding up using S(3,5,7) assms power_shutdown_result(1,3,5)[of ?s2] by (auto split: if_splits)
qed

lemma power_shutdown_final_witness:
  "\<forall>s :: pwr. shutdown (power_update (s\<lparr>shutdown := True, pads := (\<lambda>_. False)\<rparr>)) \<and>
     \<not> pads (power_update (s\<lparr>shutdown := True, pads := (\<lambda>_. False)\<rparr>)) PWR_SW"
proof
  fix s :: pwr
  show "shutdown (power_update (s\<lparr>shutdown := True, pads := (\<lambda>_. False)\<rparr>)) \<and>
     \<not> pads (power_update (s\<lparr>shutdown := True, pads := (\<lambda>_. False)\<rparr>)) PWR_SW"
    using power_shutdown_final[of "s\<lparr>shutdown := True, pads := (\<lambda>_. False)\<rparr>"] by simp
qed

text \<open>
  The event variable starts as \<open>EVENT_SWITCH\<close>, and \<open>power_init\<close> keeps it when no cause
  of the power-on is found: discharging is then enabled although the button is not
  pressed, no charger is connected, no alarm is due and USB is absent.
\<close>

theorem power_init_default_event:
  assumes "power_on_event s = EVENT_SWITCH"
    and "\<forall>n. pad_in s n PWR_BTN \<and> pad_in s n RTCC_INT \<and> \<not> pad_in s n USB_DETECT"
    and "\<not> fp_less (Fin 6) (analog_charger_input_voltage s)"
  shows "discharge_enabled (power_init s) \<and> power_on_event (power_init s) = EVENT_SWITCH \<and>
    pads (power_init s) PWR_SW"
  using assms
  by (simp add: power_init_def power_detect_event_def Let_def split_beta board_simps
      analog_charger_input_voltage_def)

lemma power_init_default_event_witness:
  "\<forall>s :: pwr. discharge_enabled (power_init (s\<lparr>power_on_event := EVENT_SWITCH,
     pad_in := (\<lambda>_ p. p \<noteq> USB_DETECT), charger_input_raw := 0, discharge_enabled := False\<rparr>))"
proof
  fix s :: pwr
  let ?t = "s\<lparr>power_on_event := EVENT_SWITCH, pad_in := (\<lambda>_ p. p \<noteq> USB_DETECT),
     charger_input_raw := 0, discharge_enabled := False\<rparr>"
  have "analog_charger_input_voltage ?t = Fin 0"
    using const33 by (auto simp: analog_charger_input_voltage_def int_f32_def)
  then have "\<not> fp_less (Fin 6) (analog_charger_input_voltage ?t)" by simp
  then show "discharge_enabled (power_init ?t)"
    using power_init_default_event[of ?t] by (simp add: pad_defs)
qed

end
