(* ===== verification/Current_Monitor.thy ===== *)
theory Current_Monitor
  imports Power_Props
begin

text \<open>
  The current monitor (current_monitor.c): current and bus voltage over I2C, the
  over-current protection in software and by the alert interrupt, and the state of charge
  that is integrated from the current (soc.c).
\<close>

definition maxCurrentCutoff :: "'a cfg_scheme \<Rightarrow> fp" where
  "maxCurrentCutoff s = get_float off_maxCurrentCutoff (config s)"

definition current_monitor_init :: "'a cmon_scheme \<Rightarrow> 'a cmon_scheme option" where
  "current_monitor_init s =
     (let current_cal = 4183 :: u16;
          s1 = emit (Ext_Channel_Enable 12) (emit Ext_Start s);
          s2 = i2cSend CURR_I2C_ADDRESS
            [0x05, ucast (drop_bit 7 current_cal), ucast (push_bit 1 (current_cal AND 0xFF))] s1
      in case current_monitor_set_overcurrent (maxCurrentCutoff s2) s2 of
           None \<Rightarrow> None
         | Some s3 \<Rightarrow> Some (i2cSend CURR_I2C_ADDRESS [0x09, 0x00, 0x80] s3))"

definition shunt_current :: "u8 \<Rightarrow> u8 \<Rightarrow> fp" where
  "shunt_current h l =
     (let shunt_voltage = to32 (fp_mul rnd64 (Fin (of_int (sint (be16 h l)))) (rnd64 (1 / 100000)))
      in to32 (fp_div rnd64 shunt_voltage (rnd64 (5 / 10000))))"

definition register_voltage :: "u8 \<Rightarrow> u8 \<Rightarrow> fp" where
  "register_voltage h l =
     to32 (fp_mul rnd64
       (Fin (of_int (sint (push_bit 6 (ucast h) OR ucast (drop_bit 2 l) :: u16)))) (rnd64 (4 / 1000)))"

text \<open>The two readings of an update, and the condition it checks afterwards.\<close>

definition current_monitor_measure :: "'a cmon_scheme \<Rightarrow> 'a cmon_scheme" where
  "current_monitor_measure s =
     (let s0 = emit I2C_Acquire s;
          (rx, s1) = i2cMasterTransmit CURR_I2C_ADDRESS [0x01] 2 s0;
          s1' = s1\<lparr>current := shunt_current (rx ! 0) (rx ! 1)\<rparr>;
          (rx, s2) = i2cMasterTransmit CURR_I2C_ADDRESS [0x02] 2 s1'
      in emit I2C_Release (s2\<lparr>bus_voltage := register_voltage (rx ! 0) (rx ! 1)\<rparr>))"

definition over_current :: "'a cmon_scheme \<Rightarrow> bool \<times> 'a cmon_scheme" where
  "over_current s =
     (if fp_less (maxCurrentCutoff s) (current s) then (True, s)
      else let (alert, s') = palReadPad CURR_ALERT s in (\<not> alert, s'))"

definition current_monitor_update :: "'a pwr_scheme \<Rightarrow> 'a pwr_scheme" where
  "current_monitor_update s =
     (let (over, s1) = over_current (current_monitor_measure s) in
      if over then faults_set_fault FAULT_OVERCURRENT (power_disable_discharge s1) else s1)"

definition current_monitor_get_current :: "'a cmon_scheme \<Rightarrow> fp" where
  "current_monitor_get_current s = current s"

definition current_monitor_get_bus_voltage :: "'a cmon_scheme \<Rightarrow> fp" where
  "current_monitor_get_bus_voltage s = bus_voltage s"

definition current_monitor_get_power :: "'a cmon_scheme \<Rightarrow> fp" where
  "current_monitor_get_power s = bus_power s"

text \<open>The interrupt of the alert pin.\<close>

definition curr_alert :: "'a pwr_scheme \<Rightarrow> 'a pwr_scheme" where
  "curr_alert s = faults_set_fault FAULT_OVERCURRENT (power_disable_discharge s)"

lemma curr_alert_off:
  "\<not> pads (curr_alert s) DSG_SW" "\<not> discharge_enabled (curr_alert s)"
  "faults_check_fault FAULT_OVERCURRENT (curr_alert s)" "\<not> pads (power_update (curr_alert s)) DSG_SW"
proof -
  show "\<not> pads (curr_alert s) DSG_SW" and off: "\<not> discharge_enabled (curr_alert s)"
    by (simp_all add: curr_alert_def power_disable_discharge_def board_simps)
  show "faults_check_fault FAULT_OVERCURRENT (curr_alert s)"
    unfolding curr_alert_def using fault_reg.check_set[of FAULT_OVERCURRENT FAULT_OVERCURRENT] by blast
  show "\<not> pads (power_update (curr_alert s)) DSG_SW" using off power_update_off by blast
qed

text \<open>
  C15: An over-current, seen by the measurement or by the level of the alert pin, switches
  discharging off at once and raises the fault, as the alert interrupt does; the next
  update of the power control keeps the switch off.
\<close>

theorem overcurrent_cuts_off:
  assumes "fp_less (maxCurrentCutoff (current_monitor_measure s)) (current (current_monitor_measure s)) \<or>
      (\<forall>n. \<not> pad_in (current_monitor_measure s) n CURR_ALERT)"
  shows "\<not> pads (current_monitor_update s) DSG_SW \<and>
    \<not> discharge_enabled (current_monitor_update s) \<and>
    faults_check_fault FAULT_OVERCURRENT (current_monitor_update s) \<and>
    \<not> pads (power_update (current_monitor_update s)) DSG_SW"
proof -
  have "fst (over_current (current_monitor_measure s))"
    using assms by (auto simp: over_current_def Let_def split_beta board_simps)
  then have "current_monitor_update s = curr_alert (snd (over_current (current_monitor_measure s)))"
    by (simp add: current_monitor_update_def curr_alert_def split_beta)
  then show ?thesis by (simp add: curr_alert_off)
qed

lemma overcurrent_cuts_off_witness:
  "\<forall>s. \<not> pads (current_monitor_update ((running s)\<lparr>pad_in := (\<lambda>_ _. False)\<rparr>)) DSG_SW"
proof
  fix s
  let ?t = "(running s)\<lparr>pad_in := (\<lambda>_ _. False)\<rparr>"
  have "\<not> pad_in (current_monitor_measure ?t) n CURR_ALERT" for n
    by (simp add: current_monitor_measure_def Let_def split_beta board_simps)
  then show "\<not> pads (current_monitor_update ?t) DSG_SW" using overcurrent_cuts_off[of ?t] by blast
qed

end
