(* ===== verification/Charger.thy ===== *)
theory Charger
  imports Current_Monitor
begin

text \<open>
  The state of charge (soc.c) and the charger with cell balancing (charger.c). The variable
  lowestCellNum of \<open>charger_update\<close> is not initialised when balancing was already active on
  entry; the value it happens to have is the parameter \<open>junk\<close>. Accesses to the cell array
  out of its bounds and conversions out of range are None.
\<close>

record chg = pwr +
  coulomb_count :: fp
  prevTime :: u32
  is_charging :: bool
  input_voltage :: fp
  output_voltage :: fp
  charge_enabled :: bool
  current_control_integral :: fp
  lastTime :: u32
  balancing :: bool
  balanceUpdateTime :: u32
  chargeComplete :: bool
  chargeCompleteCounter :: u8

subsection \<open>State of charge\<close>

text \<open>Elapsed seconds as the code computes them: microseconds in 32 bits, divided in double.\<close>

definition elapsed_s :: "u32 \<Rightarrow> fp" where
  "elapsed_s dt = to32 (fp_div rnd64 (Fin (of_int (uint (ST2US dt)))) (Fin 1000000))"

definition soc_init :: "'a chg_scheme \<Rightarrow> 'a chg_scheme" where
  "soc_init s = (let (t, s1) = chVTGetSystemTime s in s1\<lparr>prevTime := t\<rparr>)"

definition soc_update :: "'a chg_scheme \<Rightarrow> 'a chg_scheme" where
  "soc_update s =
     (let (dt, s1) = chVTTimeElapsedSinceX (prevTime s) s;
          (t, s2) = chVTGetSystemTime s1
      in s2\<lparr>prevTime := t,
            coulomb_count := fp_sub rnd32 (coulomb_count s2)
              (fp_mul rnd32 (current_monitor_get_current s2) (elapsed_s dt))\<rparr>)"

definition soc_get_coulomb_count :: "'a chg_scheme \<Rightarrow> fp" where
  "soc_get_coulomb_count s = coulomb_count s"

definition soc_get_relative_soc :: "'a chg_scheme \<Rightarrow> fp" where
  "soc_get_relative_soc s =
     fp_div rnd32 (fp_mul rnd32 (fp_mul rnd32 (coulomb_count s) (Fin 3600)) (Fin 1000))
       (get_float off_packCapacity (config s))"

subsection \<open>The charge voltage\<close>

definition CHARGER_I2C_ADDRESS :: u8 where "CHARGER_I2C_ADDRESS = 0x1F"

definition dac_voltage :: "fp \<Rightarrow> fp" where
  "dac_voltage v =
     (let d = to32 (fp_mul rnd64 (rnd64 (75 / 1000)) (fp_sub rnd64 (rnd64 (51584 / 1000)) v))
      in if fp_less d (Fin 0) then Fin 0
         else if fp_less (rnd64 (33 / 10)) d then to32 (rnd64 (33 / 10))
         else d)"

definition dac_value :: "fp \<Rightarrow> u16 option" where
  "dac_value v =
     (case fp_trunc (fp_mul rnd64 (fp_div rnd64 (dac_voltage v) (rnd64 (33 / 10))) (Fin 16383)) of
        None \<Rightarrow> None
      | Some n \<Rightarrow> if 0 \<le> n \<and> n < 2 ^ 16 then Some (of_int n) else None)"

definition set_voltage :: "fp \<Rightarrow> 'a chg_scheme \<Rightarrow> 'a chg_scheme option" where
  "set_voltage v s =
     (case dac_value v of
        None \<Rightarrow> None
      | Some value \<Rightarrow>
          let s1 = i2cSend CHARGER_I2C_ADDRESS
            [0x01, ucast (drop_bit 6 value), ucast (push_bit 2 (value AND 0xFF))]
            (emit I2C_Acquire s)
          in Some (emit I2C_Release (s1\<lparr>output_voltage := v\<rparr>)))"

subsection \<open>The charger\<close>

definition chargeVoltage :: "'a cfg_scheme \<Rightarrow> fp" where
  "chargeVoltage s = get_float off_chargeVoltage (config s)"

definition charger_init :: "'a chg_scheme \<Rightarrow> 'a chg_scheme option" where
  "charger_init s =
     (let s1 = palSetPad CHG_SW s in
      case set_voltage (chargeVoltage s1) s1 of None \<Rightarrow> None
      | Some s2 \<Rightarrow>
          let (t, s3) = chVTGetSystemTime s2; s3' = s3\<lparr>lastTime := t\<rparr>;
              (t', s4) = chVTGetSystemTime s3'
          in Some (s4\<lparr>balanceUpdateTime := t'\<rparr>))"

text \<open>
  The loop over the cells: the highest and the lowest voltage and the number of the lowest
  cell. \<open>i\<close> counts from 0 to the number of cells.
\<close>

primrec scan_cells ::
    "nat list \<Rightarrow> fp list \<Rightarrow> fp \<times> fp \<times> nat \<Rightarrow> (fp \<times> fp \<times> nat) option" where
  "scan_cells [] cs r = Some r"
| "scan_cells (i # is) cs r =
     (if length cs \<le> i then None
      else case r of (high, low, num) \<Rightarrow>
        scan_cells is cs
          (if fp_less high (cs ! i) then cs ! i else high,
           if fp_less (cs ! i) low then cs ! i else low,
           if fp_less (cs ! i) low then i else num))"

text \<open>The loop that switches balancing on for every cell above the lowest one.\<close>

primrec balance_cells ::
    "nat list \<Rightarrow> fp list \<Rightarrow> nat \<Rightarrow> bool \<Rightarrow> 'a chg_scheme \<Rightarrow> (bool \<times> 'a chg_scheme) option" where
  "balance_cells [] cs low cont s = Some (cont, s)"
| "balance_cells (i # is) cs low cont s =
     (if length cs \<le> i \<or> length cs \<le> low then None
      else if fp_less (cs ! low) (cs ! i) then
        (case ltc6803_enable_balance (i + 1) s of None \<Rightarrow> None
         | Some s1 \<Rightarrow> balance_cells is cs low True s1)
      else
        (case ltc6803_disable_balance (i + 1) s of None \<Rightarrow> None
         | Some s1 \<Rightarrow> balance_cells is cs low cont s1))"

text \<open>The decision to start balancing.\<close>

definition balance_start :: "fp \<Rightarrow> fp \<Rightarrow> 'a chg_scheme \<Rightarrow> 'a chg_scheme" where
  "balance_start high low s =
     (if fp_le (get_float off_balanceStartVoltage (config s)) high \<and>
         fp_less (get_float off_balanceDifferenceThreshold (config s)) (fp_sub rnd32 high low)
      then let (dt, s1) = chVTTimeElapsedSinceX (balanceUpdateTime s) s in
        if 10000 < ST2MS dt \<and> \<not> chargeComplete s1
        then let (t, s2) = chVTGetSystemTime s1 in s2\<lparr>balancing := True, balanceUpdateTime := t\<rparr>
        else s1
      else s)"

definition charger_balance :: "nat \<Rightarrow> 'a chg_scheme \<Rightarrow> 'a chg_scheme option" where
  "charger_balance low s =
     (let s1 = (palClearPad CHG_SW s)\<lparr>balancing := True\<rparr>;
          (dt, s2) = chVTTimeElapsedSinceX (balanceUpdateTime s1) s1
      in if 500 < ST2MS dt then
           (case balance_cells [0..<numCells s2] (cell_voltages s2) low False s2 of None \<Rightarrow> None
            | Some (continueBalance, s3) \<Rightarrow>
                let (t, s4) = chVTGetSystemTime s3
                in Some (s4\<lparr>balancing := continueBalance, balanceUpdateTime := t\<rparr>))
         else Some s2)"

text \<open>The regulation of the charge current; an unknown charge mode changes nothing.\<close>

definition windup :: "fp \<Rightarrow> fp \<Rightarrow> fp" where
  "windup limit x =
     (if fp_less (Fin 0) x then Fin 0 else if fp_less x (fp_neg limit) then fp_neg limit else x)"

definition charger_regulate :: "fp \<Rightarrow> 'a chg_scheme \<Rightarrow> 'a chg_scheme option" where
  "charger_regulate dt s =
     (let mode = config s ! off_chargeMode; limit = chargeVoltage s in
      if mode = charge_mode_code CURRENT_CONTROL then
        let err = fp_sub rnd32 (get_float off_chargeCurrent (config s)) (fp_neg (current s));
            integral = windup limit
              (fp_add rnd32 (current_control_integral s) (fp_mul rnd32 err dt));
            s1 = s\<lparr>current_control_integral := integral\<rparr>;
            v = fp_add rnd32
              (fp_add rnd32 limit (fp_mul rnd32 err (get_float off_chargeCurrentGain_P (config s))))
              (fp_mul rnd32 integral (get_float off_chargeCurrentGain_I (config s)))
        in set_voltage (if fp_less limit v then limit else v) s1
      else if mode = charge_mode_code FULL_CURRENT then set_voltage limit s
      else if mode = charge_mode_code BYPASS_CC then set_voltage (Fin 0) s
      else if mode = charge_mode_code BYPASS_CCCV then set_voltage (Fin 0) s
      else Some s)"

definition charge_complete_check :: "'a chg_scheme \<Rightarrow> 'a chg_scheme" where
  "charge_complete_check s =
     (if fp_le (chargeVoltage s) (bus_voltage s) \<and>
         fp_less (fp_abs (current s)) (fp_div rnd64 (get_float off_chargeCurrent (config s)) (Fin 10))
      then let c = chargeCompleteCounter s + 1
           in s\<lparr>chargeCompleteCounter := c, chargeComplete := chargeComplete s \<or> 100 < c\<rparr>
      else s\<lparr>chargeCompleteCounter := 0\<rparr>)"

definition charger_charge :: "nat \<Rightarrow> 'a chg_scheme \<Rightarrow> 'a chg_scheme option" where
  "charger_charge junk s =
     (let (ticks, s1) = chVTTimeElapsedSinceX (lastTime s) s; dt = elapsed_s ticks;
          cs = ltc6803_get_cell_voltages s1
      in case (if \<not> balancing s1
               then scan_cells [0..<numCells s1] cs (Fin 0, Fin 999, junk)
               else Some (Fin 0, Fin 999, junk)) of
           None \<Rightarrow> None
         | Some (high, low, num) \<Rightarrow>
             let s2 = (if \<not> balancing s1 then balance_start high low s1 else s1) in
             if balancing s2 then charger_balance num s2
             else if fp_less high (get_float off_highVoltageCutoff (config s2)) then
               (case charger_regulate dt (palSetPad CHG_SW s2) of None \<Rightarrow> None
                | Some s3 \<Rightarrow> Some (charge_complete_check s3))
             else Some (palClearPad CHG_SW s2))"

definition charger_idle :: "'a chg_scheme \<Rightarrow> 'a chg_scheme" where
  "charger_idle s =
     (let s1 = (if \<not> is_charging s
                then (palSetPad CHG_SW s)\<lparr>chargeComplete := False, chargeCompleteCounter := 0\<rparr>
                else palClearPad CHG_SW s)
      in ltc6803_disable_balance_all (s1\<lparr>current_control_integral := Fin 0, balancing := False\<rparr>))"

definition charger_update :: "nat \<Rightarrow> 'a chg_scheme \<Rightarrow> 'a chg_scheme option" where
  "charger_update junk s =
     (let v = analog_charger_input_voltage s;
          s1 = s\<lparr>input_voltage := v, is_charging := fp_less (Fin 6) v\<rparr>
      in case (if charge_enabled s1 \<and> is_charging s1 \<and> \<not> chargeComplete s1
               then charger_charge junk s1 else Some (charger_idle s1)) of
           None \<Rightarrow> None
         | Some s2 \<Rightarrow> let (t, s3) = chVTGetSystemTime s2 in Some (s3\<lparr>lastTime := t\<rparr>))"

definition charger_is_charging :: "'a chg_scheme \<Rightarrow> bool" where
  "charger_is_charging s \<longleftrightarrow> is_charging s \<and> \<not> chargeComplete s"

definition charger_is_balancing :: "'a chg_scheme \<Rightarrow> bool" where
  "charger_is_balancing s = balancing s"

definition charger_get_input_voltage :: "'a chg_scheme \<Rightarrow> fp" where
  "charger_get_input_voltage s = input_voltage s"

definition charger_get_output_voltage :: "'a chg_scheme \<Rightarrow> fp" where
  "charger_get_output_voltage s = output_voltage s"

definition charger_enable :: "'a chg_scheme \<Rightarrow> 'a chg_scheme" where
  "charger_enable s = s\<lparr>charge_enabled := True\<rparr>"

definition charger_disable :: "'a chg_scheme \<Rightarrow> 'a chg_scheme" where
  "charger_disable s = palClearPad CHG_SW (s\<lparr>charge_enabled := False\<rparr>)"

end
