(* ===== verification/Ring_Buffer.thy ===== *)
theory Ring_Buffer
  imports Prelude
begin

text \<open>
  The ring buffer between an interrupt-driven reader and a processing thread, which the USB
  and the CAN side of the firmware both have: slots written at one position and read at
  another, each wrapping to 0 at the end. The contract says what the two operations do to
  slots and positions; the buffer is then a queue of at most one element less than it has
  slots, and the processing loop handles the queued elements in order and ends.
\<close>

locale ring_buffer =
  fixes N :: nat
    and slots :: "'r \<Rightarrow> 'e list"
    and rd :: "'r \<Rightarrow> nat"
    and wr :: "'r \<Rightarrow> nat"
    and put :: "'e \<Rightarrow> 'r \<Rightarrow> 'r option"
    and advance :: "'r \<Rightarrow> 'r"
    and body :: "('e \<Rightarrow> 's \<Rightarrow> 's option) \<Rightarrow> 'r \<times> 's \<Rightarrow> ('r \<times> 's) option"
  assumes more_than_one: "1 < N"
    and put_law: "length (slots r) = N \<Longrightarrow> wr r < N \<Longrightarrow>
      \<exists>r'. put x r = Some r' \<and> slots r' = (slots r)[wr r := x] \<and> wr r' = Suc (wr r) mod N \<and> rd r' = rd r"
    and advance_law: "rd r < N \<Longrightarrow> slots (advance r) = slots r \<and> wr (advance r) = wr r \<and>
      rd (advance r) = Suc (rd r) mod N"
    and body_law: "length (slots r) = N \<Longrightarrow> rd r < N \<Longrightarrow>
      body p (r, s) = map_option (Pair (advance r)) (p (slots r ! rd r) s)"
begin

definition ok :: "'r \<Rightarrow> bool" where
  "ok r \<longleftrightarrow> length (slots r) = N \<and> rd r < N \<and> wr r < N"

definition count :: "'r \<Rightarrow> nat" where
  "count r = (wr r + N - rd r) mod N"

definition queued :: "'r \<Rightarrow> 'e list" where
  "queued r = map (\<lambda>i. slots r ! ((rd r + i) mod N)) [0..<count r]"

lemma length_queued [simp]: "length (queued r) = count r"
  by (simp add: queued_def)

lemma count_less: "count r < N"
  using more_than_one by (simp add: count_def)

lemma count_if: "ok r \<Longrightarrow> count r = (if rd r \<le> wr r then wr r - rd r else wr r + N - rd r)"
  by (auto simp: count_def ok_def mod_if)

lemma put_queued:
  assumes "ok r"
  shows "\<exists>r'. put x r = Some r' \<and> ok r' \<and>
    queued r' = (if count r = N - 1 then [] else queued r @ [x])"
proof -
  obtain r' where r': "put x r = Some r'" "slots r' = (slots r)[wr r := x]" "wr r' = Suc (wr r) mod N"
    "rd r' = rd r" using put_law assms by (auto simp: ok_def)
  have ok': "ok r'" using assms r' more_than_one by (simp add: ok_def)
  have c: "count r' = (if count r = N - 1 then 0 else Suc (count r))"
    using count_if[OF assms] count_if[OF ok'] assms r'(3,4) by (auto simp: ok_def mod_Suc split: if_splits)
  have last: "(rd r + count r) mod N = wr r"
    using assms by (auto simp: count_if ok_def)
  have "slots r' ! ((rd r + i) mod N) = slots r ! ((rd r + i) mod N)" if "i < count r" for i
  proof -
    have "(rd r + i) mod N \<noteq> (rd r + count r) mod N"
    proof
      assume "(rd r + i) mod N = (rd r + count r) mod N"
      then have "N dvd (rd r + count r) - (rd r + i)" by (metis mod_eq_dvd_iff_nat add_le_cancel_left that less_imp_le)
      with that count_less[of r] show False by (auto dest: dvd_imp_le)
    qed
    then show ?thesis by (simp add: r'(2) last)
  qed
  then have "queued r' = queued r @ [x]" if "count r \<noteq> N - 1"
    using that assms last by (simp add: queued_def c r'(2,4) ok_def del: upt_Suc) (simp add: r'(2))
  moreover have "queued r' = []" if "count r = N - 1" using that by (simp add: queued_def c)
  ultimately show ?thesis using r'(1) ok' by auto
qed

lemma advance_queued:
  assumes "ok r" and "rd r \<noteq> wr r"
  shows "ok (advance r)" "queued r = slots r ! rd r # queued (advance r)" "wr (advance r) = wr r"
proof -
  have a: "slots (advance r) = slots r" "wr (advance r) = wr r" "rd (advance r) = Suc (rd r) mod N"
    using advance_law assms(1) by (auto simp: ok_def)
  then show ok': "ok (advance r)" and "wr (advance r) = wr r"
    using assms(1) more_than_one by (simp_all add: ok_def)
  have c: "count r = Suc (count (advance r))"
    using count_if[OF assms(1)] count_if[OF ok'] assms a by (auto simp: ok_def mod_Suc split: if_splits)
  have "(Suc (rd r) mod N + i) mod N = (rd r + Suc i) mod N" for i by (simp add: mod_simps)
  then show "queued r = slots r ! rd r # queued (advance r)"
    using assms(1) by (simp add: queued_def c a ok_def upt_conv_Cons map_Suc_upt[symmetric] del: upt_Suc)
qed

lemma queued_empty: "ok r \<Longrightarrow> queued r = [] \<longleftrightarrow> rd r = wr r"
proof -
  assume "ok r"
  then have "count r = 0 \<longleftrightarrow> rd r = wr r" by (auto simp: count_if ok_def)
  then show ?thesis by (metis length_0_conv length_queued)
qed

text \<open>Storing a run of elements that fits keeps their order.\<close>

lemma put_run:
  assumes "ok r" and "count r + length xs < N"
  shows "\<exists>r'. fold_opt put xs r = Some r' \<and> ok r' \<and> queued r' = queued r @ xs"
  using assms
proof (induction xs arbitrary: r)
  case (Cons x xs)
  obtain r1 where r1: "put x r = Some r1" "ok r1" "queued r1 = queued r @ [x]"
    using put_queued[OF Cons.prems(1), of x] Cons.prems(2) by auto
  then have "count r1 = Suc (count r)" by (metis length_queued length_append_singleton)
  with Cons.IH[OF r1(2)] Cons.prems(2) r1 show ?case by simp
qed simp

text \<open>The processing loop is a fold over what is queued, and it ends.\<close>

lemma drain:
  assumes "ok r"
  shows "\<exists>r'. ok r' \<and> queued r' = [] \<and> wr r' = wr r \<and>
    loop_while (\<lambda>(r, _). rd r \<noteq> wr r) (body p) (r, s) = map_option (Pair r') (fold_opt p (queued r) s)"
  using assms
proof (induction "count r" arbitrary: r s)
  case 0
  then have "rd r = wr r" using queued_empty[of r] by (simp flip: length_0_conv)
  then show ?case using 0 queued_empty[of r] by (subst loop_while.simps) auto
next
  case (Suc n)
  then have ne: "rd r \<noteq> wr r" using queued_empty[of r] by (simp flip: length_0_conv)
  note A = advance_queued[OF Suc.prems ne]
  have "n = count (advance r)" using Suc.hyps(2) A(2) by (metis length_Cons length_queued nat.inject)
  from Suc.hyps(1)[OF this A(1)] A(3) have IH: "\<exists>r'. ok r' \<and> queued r' = [] \<and> wr r' = wr r \<and>
      loop_while (\<lambda>(r, _). rd r \<noteq> wr r) (body p) (advance r, t) =
      map_option (Pair r') (fold_opt p (queued (advance r)) t)" for t by simp
  have B: "body p (r, s) = map_option (Pair (advance r)) (p (slots r ! rd r) s)"
    using body_law Suc.prems by (simp add: ok_def)
  show ?case
  proof (cases "p (slots r ! rd r) s")
    case None
    then obtain r' where "ok r'" "queued r' = []" "wr r' = wr r" using IH by blast
    with None B A(2) ne show ?thesis by (intro exI[of _ r']) (subst loop_while.simps, simp)
  next
    case (Some t)
    with IH[of t] B A(2) ne show ?thesis by (subst loop_while.simps) simp
  qed
qed

end

end
