(* ===== verification/Comm_Can.thy ===== *)
theory Comm_Can
  imports Charger Ring_Buffer
begin

text \<open>
  The CAN bus (comm_can.c): a thread stores received frames in a ring of 100 slots, another
  thread takes them out and keeps the current that the motor controller reports. The
  variables of the receive path are file-local and form a record of their own. The numbers
  of the packets and the broadcast address are defined in the library of the motor
  controller's firmware, and \<open>utils_parse_float32\<close> in another file that is not part of the
  repository: all of them are parameters.
\<close>

definition RX_FRAMES_SIZE :: nat where "RX_FRAMES_SIZE = 100"

record CANRxFrame =
  DLC :: nat
  RTR :: bool
  IDE :: bool
  EID :: u32
  data8 :: "u8 list"

definition CAN_IDE_EXT :: bool where "CAN_IDE_EXT = True"

record can_ids =
  CAN_BROADCAST :: u8
  CAN_PACKET_INFINITY_SET_CURRENT :: u32
  CAN_PACKET_INFINITY_STATUS :: u32

type_synonym parse_float = "u8 list \<Rightarrow> int \<Rightarrow> fp \<times> int"

record can_rx =
  rx_frames :: "CANRxFrame list"
  rx_frame_read :: nat
  rx_frame_write :: nat
  can_process_tp :: bool
  can_signalled :: bool

record can = chg +
  infinity_current :: fp

text \<open>The bit timing of the controller: 6 MHz time quanta, 12 of them for a bit.\<close>

definition CAN_BTR_SJW :: "u32 \<Rightarrow> u32" where "CAN_BTR_SJW n = push_bit 24 n"
definition CAN_BTR_TS2 :: "u32 \<Rightarrow> u32" where "CAN_BTR_TS2 n = push_bit 20 n"
definition CAN_BTR_TS1 :: "u32 \<Rightarrow> u32" where "CAN_BTR_TS1 n = push_bit 16 n"
definition CAN_BTR_BRP :: "u32 \<Rightarrow> u32" where "CAN_BTR_BRP n = n"

definition CAN_MCR_TXFP :: u32 where "CAN_MCR_TXFP = 0x04"
definition CAN_MCR_AWUM :: u32 where "CAN_MCR_AWUM = 0x20"
definition CAN_MCR_ABOM :: u32 where "CAN_MCR_ABOM = 0x40"

definition cancfg :: "u32 \<times> u32" where
  "cancfg =
     (CAN_MCR_ABOM OR CAN_MCR_AWUM OR CAN_MCR_TXFP,
      CAN_BTR_SJW 0 OR CAN_BTR_TS2 1 OR CAN_BTR_TS1 8 OR CAN_BTR_BRP 5)"

definition CANDeviceID :: "'a cfg_scheme \<Rightarrow> u8" where
  "CANDeviceID s = config s ! off_CANDeviceID"

definition comm_can_init :: "'a can_scheme \<Rightarrow> 'a can_scheme" where
  "comm_can_init s =
     emit (Thread_Start Can_Process) (emit (Thread_Start Can_Read)
       (emit (Can_Start (fst cancfg) (snd cancfg)) (emit (Mtx_Init CAN_MTX) s)))"

subsection \<open>Receiving\<close>

text \<open>
  One received frame is stored and the processing thread signalled: a signal to a thread
  that has not run yet goes through a null pointer.
\<close>

definition can_store :: "CANRxFrame \<Rightarrow> can_rx \<Rightarrow> can_rx option" where
  "can_store rxmsg r =
     (if length (rx_frames r) \<le> rx_frame_write r then None
      else
        let w = rx_frame_write r + 1
        in Some (r\<lparr>rx_frames := (rx_frames r)[rx_frame_write r := rxmsg],
                   rx_frame_write := (if w = RX_FRAMES_SIZE then 0 else w)\<rparr>))"

definition can_signal :: "can_rx \<Rightarrow> can_rx option" where
  "can_signal r = (if can_process_tp r then Some (r\<lparr>can_signalled := True\<rparr>) else None)"

text \<open>
  One round of the reading thread: it waits for events, \<open>flags\<close> being the ones it gets,
  and then takes the frames out of the mailboxes until there is none.
\<close>

definition can_read_round :: "nat \<Rightarrow> CANRxFrame list \<Rightarrow> can_rx \<Rightarrow> can_rx option" where
  "can_read_round flags mailbox r =
     (if flags = 0 then Some r
      else fold_opt (\<lambda>m r. Option.bind (can_store m r) can_signal) mailbox r)"

subsection \<open>Processing\<close>

definition frame_sender :: "CANRxFrame \<Rightarrow> u8" where
  "frame_sender m = ucast (EID m AND 0xFF)"

definition frame_receiver :: "CANRxFrame \<Rightarrow> u8" where
  "frame_receiver m = ucast (drop_bit 8 (EID m) AND 0xFF)"

definition frame_id :: "CANRxFrame \<Rightarrow> u32" where
  "frame_id m = drop_bit 16 (EID m)"

definition can_process_frame ::
    "can_ids \<Rightarrow> parse_float \<Rightarrow> CANRxFrame \<Rightarrow> 'a can_scheme \<Rightarrow> 'a can_scheme" where
  "can_process_frame ids parse rxmsg s =
     (if IDE rxmsg = CAN_IDE_EXT then
        let sender = frame_sender rxmsg; receiver = frame_receiver rxmsg; id = frame_id rxmsg in
        if (receiver = CAN_BROADCAST ids \<or> receiver = CANDeviceID s) \<and> sender \<noteq> CANDeviceID s then
          if id = CAN_PACKET_INFINITY_SET_CURRENT ids then s
          else if id = CAN_PACKET_INFINITY_STATUS ids then
            let (rpm, ind) = parse (data8 rxmsg) 0; (curr, ind') = parse (data8 rxmsg) ind
            in s\<lparr>infinity_current := curr\<rparr>
          else s
        else s
      else s)"

text \<open>The first thing the processing thread does.\<close>

definition can_process_start :: "can_rx \<Rightarrow> can_rx" where
  "can_process_start r = r\<lparr>can_process_tp := True\<rparr>"

text \<open>The body of the loop; the position of the reader wraps after the frame is handled.\<close>

definition can_advance :: "can_rx \<Rightarrow> can_rx" where
  "can_advance r =
     (let i = rx_frame_read r + 1 in r\<lparr>rx_frame_read := (if i = RX_FRAMES_SIZE then 0 else i)\<rparr>)"

definition can_process_body ::
    "(CANRxFrame \<Rightarrow> 's \<Rightarrow> 's option) \<Rightarrow> can_rx \<times> 's \<Rightarrow> (can_rx \<times> 's) option" where
  "can_process_body p = (\<lambda>(r, s).
     if length (rx_frames r) \<le> rx_frame_read r then None
     else map_option (Pair (can_advance r)) (p (rx_frames r ! rx_frame_read r) s))"

definition can_process_round ::
    "can_ids \<Rightarrow> parse_float \<Rightarrow> can_rx \<times> 'a can_scheme \<Rightarrow> (can_rx \<times> 'a can_scheme) option" where
  "can_process_round ids parse = (\<lambda>(r, s).
     if can_signalled r then
       loop_while (\<lambda>(r, _). rx_frame_read r \<noteq> rx_frame_write r)
         (can_process_body (\<lambda>m s. Some (can_process_frame ids parse m s)))
         (r\<lparr>can_signalled := False\<rparr>, s)
     else Some (r, s))"

definition comm_can_get_infinity_current :: "'a can_scheme \<Rightarrow> fp" where
  "comm_can_get_infinity_current s = infinity_current s"

definition comm_can_update :: "'a can_scheme \<Rightarrow> 'a can_scheme" where
  "comm_can_update s = s"

subsection \<open>Sending\<close>

text \<open>The identifier is a field of 29 bits; more than 8 bytes do not fit into a frame.\<close>

definition tx_eid :: "u8 \<Rightarrow> u8 \<Rightarrow> u32 \<Rightarrow> u32" where
  "tx_eid sender receiver packetID =
     take_bit 29 (ucast sender OR push_bit 8 (ucast receiver) OR push_bit 16 packetID)"

definition comm_can_transmit ::
    "u8 \<Rightarrow> u32 \<Rightarrow> u8 list \<Rightarrow> nat \<Rightarrow> 'a can_scheme \<Rightarrow> 'a can_scheme option" where
  "comm_can_transmit receiver packetID data len s =
     (if 8 < len \<or> length data < len then None
      else Some (emit (Mtx_Unlock CAN_MTX)
        (emit (Can_Transmit (tx_eid (CANDeviceID s) receiver packetID) (take len data))
          (emit (Mtx_Lock CAN_MTX) s))))"

subsection \<open>The ring of frames is a queue\<close>

interpretation can_ring: ring_buffer RX_FRAMES_SIZE rx_frames rx_frame_read rx_frame_write
    can_store can_advance can_process_body
  by unfold_locales
    (auto simp: RX_FRAMES_SIZE_def can_store_def can_advance_def can_process_body_def Let_def mod_Suc)

lemma can_store_tp: "can_store m r = Some r' \<Longrightarrow> can_process_tp r' = can_process_tp r"
  by (auto simp: can_store_def Let_def split: if_splits)

lemma can_read_run:
  assumes "can_ring.ok r" and "can_process_tp r" and "can_ring.count r + length ms < RX_FRAMES_SIZE"
  shows "\<exists>r'. fold_opt (\<lambda>m r. Option.bind (can_store m r) can_signal) ms r = Some r' \<and> can_ring.ok r' \<and>
    can_process_tp r' \<and> can_ring.queued r' = can_ring.queued r @ ms \<and> (ms \<noteq> [] \<longrightarrow> can_signalled r')"
  using assms
proof (induction ms arbitrary: r)
  case (Cons m ms)
  obtain r1 where r1: "can_store m r = Some r1" "can_ring.ok r1" "can_ring.queued r1 = can_ring.queued r @ [m]"
    using can_ring.put_queued[OF Cons.prems(1), of m] Cons.prems(3) by auto
  define r2 where "r2 = r1\<lparr>can_signalled := True\<rparr>"
  have r2: "can_ring.ok r2" "can_ring.queued r2 = can_ring.queued r @ [m]" "can_process_tp r2"
    using r1 can_store_tp[OF r1(1)] Cons.prems(2)
    by (simp_all add: r2_def can_ring.ok_def can_ring.queued_def can_ring.count_def)
  then have "can_ring.count r2 = Suc (can_ring.count r)"
    by (metis can_ring.length_queued length_append_singleton)
  then obtain r' where "fold_opt (\<lambda>m r. Option.bind (can_store m r) can_signal) ms r2 = Some r'"
    "can_ring.ok r'" "can_process_tp r'" "can_ring.queued r' = can_ring.queued r @ m # ms"
    "ms \<noteq> [] \<longrightarrow> can_signalled r'" "ms = [] \<longrightarrow> r' = r2"
    using Cons.IH[OF r2(1,3)] Cons.prems(3) r2(2) by force
  moreover have "can_signal r1 = Some r2"
    using can_store_tp[OF r1(1)] Cons.prems(2) by (simp add: can_signal_def r2_def)
  ultimately show ?case using r1(1) by (intro exI[of _ r']) (auto simp: r2_def)
qed simp

text \<open>
  Frames that the reading thread stores, no more than fit, are handled by the next
  round of the processing thread in the order of their arrival, behind those that waited
  already; the round ends and leaves the ring empty.
\<close>

theorem can_frames_in_order:
  assumes "can_ring.ok r" and "can_process_tp r" and "flags \<noteq> 0" and "ms \<noteq> []"
    and "can_ring.count r + length ms < RX_FRAMES_SIZE"
  shows "\<exists>r1 r2. can_read_round flags ms r = Some r1 \<and> can_ring.queued r2 = [] \<and>
    can_process_round ids parse (r1, s) =
      Some (r2, fold (can_process_frame ids parse) (can_ring.queued r @ ms) s)"
proof -
  obtain r1 where r1: "can_read_round flags ms r = Some r1" "can_ring.ok r1" "can_signalled r1"
    "can_ring.queued r1 = can_ring.queued r @ ms"
    using can_read_run[OF assms(1,2,5)] assms(3,4) by (auto simp: can_read_round_def)
  let ?r1 = "r1\<lparr>can_signalled := False\<rparr>"
  have "can_ring.ok ?r1" "can_ring.queued ?r1 = can_ring.queued r @ ms"
    using r1(2,4) by (simp_all add: can_ring.ok_def can_ring.queued_def can_ring.count_def)
  with can_ring.drain[of ?r1 "\<lambda>m s. Some (can_process_frame ids parse m s)" s] r1(1,3)
  show ?thesis by (auto simp: can_process_round_def fold_opt_total)
qed

definition empty_ring :: can_rx where
  "empty_ring = \<lparr>rx_frames = replicate 100 \<lparr>DLC = 0, RTR = False, IDE = False, EID = 0, data8 = []\<rparr>,
     rx_frame_read = 99, rx_frame_write = 99, can_process_tp = True, can_signalled = False\<rparr>"

lemma can_frames_in_order_witness:
  "\<forall>ids parse m s. \<exists>r1 r2. can_read_round 1 [m] empty_ring = Some r1 \<and> can_ring.queued r2 = [] \<and>
    can_process_round ids parse (r1, s :: can) = Some (r2, can_process_frame ids parse m s)"
proof (intro allI)
  fix ids parse m and s :: can
  have "can_ring.ok empty_ring" "can_ring.count empty_ring = 0" "can_process_tp empty_ring"
    unfolding can_ring.ok_def can_ring.count_def by (simp_all add: empty_ring_def RX_FRAMES_SIZE_def)
  moreover from this have "can_ring.queued empty_ring = []" by (simp add: can_ring.queued_def)
  ultimately show "\<exists>r1 r2. can_read_round 1 [m] empty_ring = Some r1 \<and> can_ring.queued r2 = [] \<and>
      can_process_round ids parse (r1, s) = Some (r2, can_process_frame ids parse m s)"
    using can_frames_in_order[of empty_ring 1 "[m]" ids parse s] by (simp add: RX_FRAMES_SIZE_def)
qed

subsection \<open>Identifiers\<close>

text \<open>
  The identifier of a frame that is sent reads back as its sender, its receiver and its
  packet, as long as the number of the packet has 13 bits.
\<close>

theorem can_identifier_roundtrip:
  assumes "packetID < 2 ^ 13" and "EID m = tx_eid sender receiver packetID"
  shows "frame_sender m = sender \<and> frame_receiver m = receiver \<and> frame_id m = packetID"
proof -
  have low: "bit packetID n \<Longrightarrow> n < 13" for n using bit_below[OF assms(1)] by simp
  have FF: "(0xFF :: u32) = Bit_Operations.mask 8" by (simp add: mask_eq_exp_minus_1)
  have "frame_sender m = sender" "frame_receiver m = receiver"
    unfolding frame_sender_def frame_receiver_def assms(2) tx_eid_def FF
    by (rule bit_word_eqI; force simp: bit_simps dest: bit_imp_le_length)+
  moreover have "frame_id m = packetID"
    unfolding frame_id_def assms(2) tx_eid_def
    by (rule bit_word_eqI) (auto simp: bit_simps dest: bit_imp_le_length low)
  ultimately show ?thesis by blast
qed

lemma can_identifier_roundtrip_witness:
  "frame_receiver \<lparr>DLC = 0, RTR = False, IDE = True, EID = tx_eid 1 254 5, data8 = []\<rparr> = 254"
  using can_identifier_roundtrip[of 5 "\<lparr>DLC = 0, RTR = False, IDE = True, EID = tx_eid 1 254 5, data8 = []\<rparr>" 1 254]
  by simp

end
