(* ===== verification/Usb_Descriptors.thy ===== *)
theory Usb_Descriptors
  imports Prelude
begin

text \<open>
  The descriptors with which the firmware answers the USB host (comm_usb.c), composed by the
  helper macros of ChibiOS' usb.h: a virtual serial port of the communications device
  class. A host walks the configuration by the lengths in it.
\<close>

subsection \<open>The driver's states and events\<close>

datatype usbstate =
  USB_UNINIT | USB_STOP | USB_READY | USB_SELECTED | USB_ACTIVE | USB_SUSPENDED

datatype usbevent =
  USB_EVENT_RESET | USB_EVENT_ADDRESS | USB_EVENT_CONFIGURED | USB_EVENT_SUSPEND
  | USB_EVENT_WAKEUP | USB_EVENT_STALLED

subsection \<open>Descriptors\<close>

definition USB_DESCRIPTOR_DEVICE :: u8 where "USB_DESCRIPTOR_DEVICE = 1"
definition USB_DESCRIPTOR_CONFIGURATION :: u8 where "USB_DESCRIPTOR_CONFIGURATION = 2"
definition USB_DESCRIPTOR_STRING :: u8 where "USB_DESCRIPTOR_STRING = 3"
definition USB_DESCRIPTOR_INTERFACE :: u8 where "USB_DESCRIPTOR_INTERFACE = 4"
definition USB_DESCRIPTOR_ENDPOINT :: u8 where "USB_DESCRIPTOR_ENDPOINT = 5"

definition USB_DESC_INDEX :: "u8 \<Rightarrow> u8 list" where "USB_DESC_INDEX i = [i]"

definition USB_DESC_BYTE :: "u8 \<Rightarrow> u8 list" where "USB_DESC_BYTE b = [b]"

definition USB_DESC_WORD :: "u16 \<Rightarrow> u8 list" where
  "USB_DESC_WORD w = [ucast (w AND 255), ucast (drop_bit 8 w AND 255)]"

definition USB_DESC_BCD :: "u16 \<Rightarrow> u8 list" where
  "USB_DESC_BCD bcd = [ucast (bcd AND 255), ucast (drop_bit 8 bcd AND 255)]"

definition USB_DESC_DEVICE ::
    "u16 \<Rightarrow> u8 \<Rightarrow> u8 \<Rightarrow> u8 \<Rightarrow> u8 \<Rightarrow> u16 \<Rightarrow> u16 \<Rightarrow> u16 \<Rightarrow> u8 \<Rightarrow> u8 \<Rightarrow> u8 \<Rightarrow> u8 \<Rightarrow> u8 list" where
  "USB_DESC_DEVICE bcdUSB bDeviceClass bDeviceSubClass bDeviceProtocol bMaxPacketSize idVendor
     idProduct bcdDevice iManufacturer iProduct iSerialNumber bNumConfigurations =
     USB_DESC_BYTE 18 @ USB_DESC_BYTE USB_DESCRIPTOR_DEVICE @ USB_DESC_BCD bcdUSB @
     USB_DESC_BYTE bDeviceClass @ USB_DESC_BYTE bDeviceSubClass @ USB_DESC_BYTE bDeviceProtocol @
     USB_DESC_BYTE bMaxPacketSize @ USB_DESC_WORD idVendor @ USB_DESC_WORD idProduct @
     USB_DESC_BCD bcdDevice @ USB_DESC_INDEX iManufacturer @ USB_DESC_INDEX iProduct @
     USB_DESC_INDEX iSerialNumber @ USB_DESC_BYTE bNumConfigurations"

definition USB_DESC_CONFIGURATION :: "u16 \<Rightarrow> u8 \<Rightarrow> u8 \<Rightarrow> u8 \<Rightarrow> u8 \<Rightarrow> u8 \<Rightarrow> u8 list" where
  "USB_DESC_CONFIGURATION wTotalLength bNumInterfaces bConfigurationValue iConfiguration
     bmAttributes bMaxPower =
     USB_DESC_BYTE 9 @ USB_DESC_BYTE USB_DESCRIPTOR_CONFIGURATION @ USB_DESC_WORD wTotalLength @
     USB_DESC_BYTE bNumInterfaces @ USB_DESC_BYTE bConfigurationValue @
     USB_DESC_INDEX iConfiguration @ USB_DESC_BYTE bmAttributes @ USB_DESC_BYTE bMaxPower"

definition USB_DESC_INTERFACE :: "u8 \<Rightarrow> u8 \<Rightarrow> u8 \<Rightarrow> u8 \<Rightarrow> u8 \<Rightarrow> u8 \<Rightarrow> u8 \<Rightarrow> u8 list" where
  "USB_DESC_INTERFACE bInterfaceNumber bAlternateSetting bNumEndpoints bInterfaceClass
     bInterfaceSubClass bInterfaceProtocol iInterface =
     USB_DESC_BYTE 9 @ USB_DESC_BYTE USB_DESCRIPTOR_INTERFACE @ USB_DESC_BYTE bInterfaceNumber @
     USB_DESC_BYTE bAlternateSetting @ USB_DESC_BYTE bNumEndpoints @ USB_DESC_BYTE bInterfaceClass @
     USB_DESC_BYTE bInterfaceSubClass @ USB_DESC_BYTE bInterfaceProtocol @ USB_DESC_INDEX iInterface"

definition USB_DESC_ENDPOINT :: "u8 \<Rightarrow> u8 \<Rightarrow> u16 \<Rightarrow> u8 \<Rightarrow> u8 list" where
  "USB_DESC_ENDPOINT bEndpointAddress bmAttributes wMaxPacketSize bInterval =
     USB_DESC_BYTE 7 @ USB_DESC_BYTE USB_DESCRIPTOR_ENDPOINT @ USB_DESC_BYTE bEndpointAddress @
     USB_DESC_BYTE bmAttributes @ USB_DESC_WORD wMaxPacketSize @ USB_DESC_BYTE bInterval"

definition USBD1_DATA_REQUEST_EP :: u8 where "USBD1_DATA_REQUEST_EP = 1"
definition USBD1_DATA_AVAILABLE_EP :: u8 where "USBD1_DATA_AVAILABLE_EP = 1"
definition USBD1_INTERRUPT_REQUEST_EP :: u8 where "USBD1_INTERRUPT_REQUEST_EP = 2"

definition vcom_device_descriptor_data :: "u8 list" where
  "vcom_device_descriptor_data =
     USB_DESC_DEVICE 0x0110 0x02 0x00 0x00 0x40 0x0483 0x5740 0x0200 1 2 3 1"

definition vcom_configuration_descriptor_data :: "u8 list" where
  "vcom_configuration_descriptor_data =
     USB_DESC_CONFIGURATION 67 0x02 0x01 0 0xC0 50 @
     USB_DESC_INTERFACE 0x00 0x00 0x01 0x02 0x02 0x01 0 @
     USB_DESC_BYTE 5 @ USB_DESC_BYTE 0x24 @ USB_DESC_BYTE 0x00 @ USB_DESC_BCD 0x0110 @
     USB_DESC_BYTE 5 @ USB_DESC_BYTE 0x24 @ USB_DESC_BYTE 0x01 @ USB_DESC_BYTE 0x00 @ USB_DESC_BYTE 0x01 @
     USB_DESC_BYTE 4 @ USB_DESC_BYTE 0x24 @ USB_DESC_BYTE 0x02 @ USB_DESC_BYTE 0x02 @
     USB_DESC_BYTE 5 @ USB_DESC_BYTE 0x24 @ USB_DESC_BYTE 0x06 @ USB_DESC_BYTE 0x00 @ USB_DESC_BYTE 0x01 @
     USB_DESC_ENDPOINT (USBD1_INTERRUPT_REQUEST_EP OR 0x80) 0x03 0x0008 0xFF @
     USB_DESC_INTERFACE 0x01 0x00 0x02 0x0A 0x00 0x00 0x00 @
     USB_DESC_ENDPOINT USBD1_DATA_AVAILABLE_EP 0x02 0x0040 0x00 @
     USB_DESC_ENDPOINT (USBD1_DATA_REQUEST_EP OR 0x80) 0x02 0x0040 0x00"

definition vcom_string0 :: "u8 list" where
  "vcom_string0 = USB_DESC_BYTE 4 @ USB_DESC_BYTE USB_DESCRIPTOR_STRING @ USB_DESC_WORD 0x0409"

text \<open>The characters of a string, each followed by a zero byte.\<close>

definition wide :: "string \<Rightarrow> u8 list" where
  "wide cs = concat (map (\<lambda>c. [of_char c, 0]) cs)"

definition vcom_string1 :: "u8 list" where
  "vcom_string1 =
     USB_DESC_BYTE 38 @ USB_DESC_BYTE USB_DESCRIPTOR_STRING @ wide ''STMicroelectronics''"

definition vcom_string2 :: "u8 list" where
  "vcom_string2 =
     USB_DESC_BYTE 50 @ USB_DESC_BYTE USB_DESCRIPTOR_STRING @ wide ''Battman Virtual COM Port''"

text \<open>The serial number is the hardware version, 4.2.\<close>

definition vcom_string3 :: "u8 list" where
  "vcom_string3 =
     USB_DESC_BYTE 8 @ USB_DESC_BYTE USB_DESCRIPTOR_STRING @
     [of_char (CHR ''0'') + 4, 0, of_char (CHR ''.''), 0, of_char (CHR ''0'') + 2, 0]"

definition vcom_strings :: "u8 list list" where
  "vcom_strings = [vcom_string0, vcom_string1, vcom_string2, vcom_string3]"

text \<open>The request for a descriptor; None is the null pointer.\<close>

definition get_descriptor :: "u8 \<Rightarrow> u8 \<Rightarrow> u16 \<Rightarrow> u8 list option" where
  "get_descriptor dtype dindex lang =
     (if dtype = USB_DESCRIPTOR_DEVICE then Some vcom_device_descriptor_data
      else if dtype = USB_DESCRIPTOR_CONFIGURATION then Some vcom_configuration_descriptor_data
      else if dtype = USB_DESCRIPTOR_STRING \<and> dindex < 4 then Some (vcom_strings ! unat dindex)
      else None)"

subsection \<open>Endpoints\<close>

datatype ep_mode =
  USB_EP_MODE_TYPE_CTRL | USB_EP_MODE_TYPE_ISOC | USB_EP_MODE_TYPE_BULK | USB_EP_MODE_TYPE_INTR

text \<open>The functions an endpoint can name as its callbacks.\<close>

datatype ep_callback =
  Ep0_Setup | Ep0_In | Ep0_Out | Data_Transmitted | Data_Received | Interrupt_Transmitted

record USBEndpointConfig =
  ep_mode :: ep_mode
  setup_cb :: "ep_callback option"
  in_cb :: "ep_callback option"
  out_cb :: "ep_callback option"
  in_maxsize :: u16
  out_maxsize :: u16
  has_in_state :: bool
  has_out_state :: bool
  ep_buffers :: nat

definition ep1config :: USBEndpointConfig where
  "ep1config = \<lparr>ep_mode = USB_EP_MODE_TYPE_BULK, setup_cb = None, in_cb = Some Data_Transmitted,
     out_cb = Some Data_Received, in_maxsize = 0x0040, out_maxsize = 0x0040,
     has_in_state = True, has_out_state = True, ep_buffers = 2\<rparr>"

definition ep2config :: USBEndpointConfig where
  "ep2config = \<lparr>ep_mode = USB_EP_MODE_TYPE_INTR, setup_cb = None, in_cb = Some Interrupt_Transmitted,
     out_cb = None, in_maxsize = 0x0010, out_maxsize = 0x0000,
     has_in_state = True, has_out_state = False, ep_buffers = 1\<rparr>"

subsection \<open>How a host reads the configuration\<close>

text \<open>The descriptors by their first bytes; None if a length is 0 or points past the end.\<close>

function split_descriptors :: "u8 list \<Rightarrow> u8 list list option" where
  "split_descriptors bs =
     (if bs = [] then Some []
      else let n = unat (hd bs) in
        if n = 0 \<or> length bs < n then None
        else map_option (Cons (take n bs)) (split_descriptors (drop n bs)))"
  by pat_completeness auto
termination
  by (relation "measure length") auto

declare split_descriptors.simps [simp del]

lemma split_Nil: "split_descriptors [] = Some []"
  by (simp add: split_descriptors.simps)

definition of_type :: "u8 \<Rightarrow> u8 list list \<Rightarrow> u8 list list" where
  "of_type t ds = filter (\<lambda>d. d ! 1 = t) ds"

definition max_packet :: "u8 list \<Rightarrow> u16" where
  "max_packet ep = be16 (ep ! 5) (ep ! 4)"

text \<open>The number of endpoints an interface announces, and the number that follow it.\<close>

fun endpoints_match :: "u8 list list \<Rightarrow> bool" where
  "endpoints_match [] = True"
| "endpoints_match (d # ds) =
     ((d ! 1 = USB_DESCRIPTOR_INTERFACE \<longrightarrow>
        unat (d ! 4) = length (of_type USB_DESCRIPTOR_ENDPOINT
          (takeWhile (\<lambda>x. x ! 1 \<noteq> USB_DESCRIPTOR_INTERFACE) ds))) \<and> endpoints_match ds)"

lemmas desc_defs =
  USB_DESC_INDEX_def USB_DESC_BYTE_def USB_DESC_WORD_def USB_DESC_BCD_def USB_DESC_DEVICE_def
  USB_DESC_CONFIGURATION_def USB_DESC_INTERFACE_def USB_DESC_ENDPOINT_def USB_DESCRIPTOR_DEVICE_def
  USB_DESCRIPTOR_CONFIGURATION_def USB_DESCRIPTOR_STRING_def USB_DESCRIPTOR_INTERFACE_def
  USB_DESCRIPTOR_ENDPOINT_def USBD1_DATA_REQUEST_EP_def USBD1_DATA_AVAILABLE_EP_def
  USBD1_INTERRUPT_REQUEST_EP_def

definition vcom_parts :: "u8 list list" where
  "vcom_parts =
     [[9, 2, 67, 0, 2, 1, 0, 0xC0, 50], [9, 4, 0, 0, 1, 2, 2, 1, 0], [5, 0x24, 0, 0x10, 0x01],
      [5, 0x24, 1, 0, 1], [4, 0x24, 2, 2], [5, 0x24, 6, 0, 1], [7, 5, 0x82, 3, 8, 0, 0xFF],
      [9, 4, 1, 0, 2, 0x0A, 0, 0, 0], [7, 5, 0x01, 2, 0x40, 0, 0], [7, 5, 0x81, 2, 0x40, 0, 0]]"

lemma split_concat:
  "list_all (\<lambda>d. d \<noteq> [] \<and> unat (hd d) = length d) ds \<Longrightarrow> split_descriptors (concat ds) = Some ds"
proof (induction ds)
  case (Cons d ds)
  then show ?case by (subst split_descriptors.simps) (auto simp: Let_def hd_append)
qed (simp add: split_Nil)

lemma vcom_concat: "vcom_configuration_descriptor_data = concat vcom_parts"
  by (simp add: vcom_configuration_descriptor_data_def vcom_parts_def desc_defs)


end
