(* ===== verification/Gpio.thy ===== *)
theory Gpio
  imports Charger
begin

text \<open>
  The pin configuration at start (gpio.c) and the pin driver that carries it out
  (pal_lld.c of ChibiOS): the registers of a port and the loop that sets the mode of a
  group of its pins.
\<close>

subsection \<open>The firmware's table\<close>

definition gpio_init :: "'a board_scheme \<Rightarrow> 'a board_scheme" where
  "gpio_init s =
     (let s = palSetPadMode PCHG_SW (PAL_MODE_OUTPUT_PUSHPULL OR PAL_STM32_OSPEED_HIGHEST) s;
          s = palClearPad PCHG_SW s;
          s = palSetPadMode PWR_BTN PAL_MODE_INPUT s;
          s = palSetPadMode PWR_SW (PAL_MODE_OUTPUT_PUSHPULL OR PAL_STM32_OSPEED_HIGHEST) s;
          s = palClearPad PWR_SW s;
          s = palSetPadMode DSG_SW (PAL_MODE_OUTPUT_PUSHPULL OR PAL_STM32_OSPEED_HIGHEST) s;
          s = palClearPad DSG_SW s;
          s = palSetPadMode CHG_SW (PAL_MODE_OUTPUT_PUSHPULL OR PAL_STM32_OSPEED_HIGHEST) s;
          s = palClearPad CHG_SW s;
          s = palSetPadMode CHG_SENSE PAL_MODE_INPUT_ANALOG s;
          s = palSetPadMode DSG_SENSE PAL_MODE_INPUT_ANALOG s;
          s = palSetPadMode TEMP_SENSE PAL_MODE_INPUT_ANALOG s;
          s = palSetPadMode USB_DETECT PAL_MODE_INPUT_PULLDOWN s;
          s = palSetPadMode CURR_ALERT PAL_MODE_INPUT s;
          s = palSetPadMode RTCC_INT PAL_MODE_INPUT_PULLUP s;
          s = palSetPadMode LTC6803_CS (PAL_MODE_OUTPUT_PUSHPULL OR PAL_STM32_OSPEED_HIGHEST) s;
          s = palSetPad LTC6803_CS s;
          s = palSetPadMode SCK (PAL_MODE_ALTERNATE 5 OR PAL_STM32_OSPEED_HIGHEST) s;
          s = palSetPadMode MISO (PAL_MODE_ALTERNATE 5 OR PAL_STM32_OSPEED_HIGHEST OR
                PAL_STM32_PUPDR_PULLUP) s;
          s = palSetPadMode MOSI (PAL_MODE_ALTERNATE 5 OR PAL_STM32_OSPEED_HIGHEST OR
                PAL_STM32_OTYPE_PUSHPULL) s;
          s = palSetPadMode SDA (PAL_MODE_ALTERNATE 4 OR PAL_STM32_OTYPE_OPENDRAIN OR
                PAL_STM32_PUPDR_PULLUP OR PAL_STM32_OSPEED_MID1) s;
          s = palSetPadMode SCL (PAL_MODE_ALTERNATE 4 OR PAL_STM32_OTYPE_OPENDRAIN OR
                PAL_STM32_PUPDR_PULLUP OR PAL_STM32_OSPEED_MID1) s;
          s = palSetPadMode LED_R (PAL_MODE_ALTERNATE 1) s;
          s = palSetPadMode LED_G (PAL_MODE_ALTERNATE 1) s;
          s = palSetPadMode LED_B (PAL_MODE_ALTERNATE 1) s;
          s = palSetPadMode BUZZER (PAL_MODE_ALTERNATE 1) s;
          s = palSetPadMode CAN_RX (PAL_MODE_ALTERNATE 9 OR PAL_STM32_OTYPE_PUSHPULL OR
                PAL_STM32_OSPEED_MID1 OR PAL_STM32_PUPDR_PULLUP) s;
          s = palSetPadMode CAN_TX (PAL_MODE_ALTERNATE 9 OR PAL_STM32_OTYPE_PUSHPULL OR
                PAL_STM32_OSPEED_MID1) s;
          s = palSetPadMode USB_DM (PAL_MODE_ALTERNATE 14) s
      in palSetPadMode USB_DP (PAL_MODE_ALTERNATE 14) s)"

subsection \<open>The pin driver\<close>

record stm32_gpio =
  MODER :: u32
  OTYPER :: u32
  OSPEEDR :: u32
  PUPDR :: u32
  AFRL :: u32
  AFRH :: u32

text \<open>The registers of a port as they are written, in order.\<close>

datatype gpio_reg = R_MODER | R_OTYPER | R_OSPEEDR | R_PUPDR | R_AFRL | R_AFRH

type_synonym port_state = "stm32_gpio \<times> gpio_reg list"

definition put_field :: "u32 \<Rightarrow> u32 \<Rightarrow> u32 \<Rightarrow> u32" where
  "put_field m v r = (r AND NOT m) OR v"

definition put_afr :: "nat \<Rightarrow> u32 \<Rightarrow> u32 \<Rightarrow> port_state \<Rightarrow> port_state" where
  "put_afr b m4 altrmask = (\<lambda>(p, w).
     if b < 8 then (p\<lparr>AFRL := put_field m4 altrmask (AFRL p)\<rparr>, w @ [R_AFRL])
     else (p\<lparr>AFRH := put_field m4 altrmask (AFRH p)\<rparr>, w @ [R_AFRH]))"

definition put_moder :: "u32 \<Rightarrow> u32 \<Rightarrow> port_state \<Rightarrow> port_state" where
  "put_moder m2 moder = (\<lambda>(p, w). (p\<lparr>MODER := put_field m2 moder (MODER p)\<rparr>, w @ [R_MODER]))"

text \<open>The body of the loop for a pin of the group.\<close>

definition set_pin ::
    "nat \<Rightarrow> u32 \<Rightarrow> u32 \<Rightarrow> u32 \<Rightarrow> u32 \<Rightarrow> u32 \<Rightarrow> port_state \<Rightarrow> port_state" where
  "set_pin b moder otyper ospeedr pupdr altr = (\<lambda>(p, w).
     let altrmask = push_bit ((b mod 8) * 4) altr;
         m1 = push_bit b 1; m2 = push_bit (b * 2) 3; m4 = push_bit ((b mod 8) * 4) 15;
         p1 = p\<lparr>OTYPER := put_field m1 otyper (OTYPER p),
                OSPEEDR := put_field m2 ospeedr (OSPEEDR p),
                PUPDR := put_field m2 pupdr (PUPDR p)\<rparr>;
         s1 = (p1, w @ [R_OTYPER, R_OSPEEDR, R_PUPDR])
     in if moder = PAL_STM32_MODE_ALTERNATE
        then put_moder m2 moder (put_afr b m4 altrmask s1)
        else put_afr b m4 altrmask (put_moder m2 moder s1))"

lemma drop_bit1_less: "drop_bit (Suc 0) (grp :: u16) \<noteq> 0 \<Longrightarrow> unat (drop_bit (Suc 0) grp) < unat grp"
proof -
  assume nz: "drop_bit (Suc 0) grp \<noteq> 0"
  have "unat (drop_bit (Suc 0) grp) = unat grp div 2" by (simp add: drop_bit_eq_div unat_div)
  moreover have "unat (drop_bit (Suc 0) grp) \<noteq> 0" using nz by (simp add: unat_eq_zero)
  ultimately show ?thesis by linarith
qed

text \<open>
  The loop over the mask of the group (16 bits wide). It ends when no bit of the grp is
  left, after at most 16 rounds.
\<close>

function setgroup_loop ::
    "u16 \<Rightarrow> nat \<Rightarrow> u32 \<Rightarrow> u32 \<Rightarrow> u32 \<Rightarrow> u32 \<Rightarrow> u32 \<Rightarrow> port_state \<Rightarrow> port_state" where
  "setgroup_loop grp b moder otyper ospeedr pupdr altr s =
     (let s1 = (if grp AND 1 \<noteq> 0 then set_pin b moder otyper ospeedr pupdr altr s else s);
          grp' = drop_bit 1 grp
      in if grp' = 0 then s1
         else setgroup_loop grp' (b + 1) (push_bit 2 moder) (push_bit 1 otyper)
                (push_bit 2 ospeedr) (push_bit 2 pupdr) altr s1)"
  by pat_completeness auto
termination
  by (relation "measure (\<lambda>(grp, _). unat grp)") (auto simp: drop_bit1_less)

definition pal_lld_setgroupmode :: "u16 \<Rightarrow> u32 \<Rightarrow> port_state \<Rightarrow> port_state" where
  "pal_lld_setgroupmode grp mode s =
     setgroup_loop grp 0
       (mode AND PAL_STM32_MODE_MASK)
       (drop_bit 2 (mode AND PAL_STM32_OTYPE_MASK))
       (drop_bit 3 (mode AND PAL_STM32_OSPEED_MASK))
       (drop_bit 5 (mode AND PAL_STM32_PUPDR_MASK))
       (drop_bit 7 (mode AND PAL_STM32_ALTERNATE_MASK)) s"

declare setgroup_loop.simps [simp del]

subsection \<open>The loop visits every pin of the group once\<close>

definition pin_round :: "u16 \<Rightarrow> u32 \<Rightarrow> u32 \<Rightarrow> u32 \<Rightarrow> u32 \<Rightarrow> u32 \<Rightarrow> nat \<Rightarrow> port_state \<Rightarrow> port_state" where
  "pin_round grp m ot sp pu a n s =
     (if bit grp n
      then set_pin n (push_bit (2 * n) m) (push_bit n ot) (push_bit (2 * n) sp) (push_bit (2 * n) pu) a s
      else s)"

lemma drop_bit_0_iff: "drop_bit n (w :: u16) = 0 \<longleftrightarrow> (\<forall>k \<ge> n. \<not> bit w k)"
proof
  assume "drop_bit n w = 0"
  then have h: "\<not> bit (drop_bit n w) (k - n)" for k by simp
  show "\<forall>k \<ge> n. \<not> bit w k"
  proof (intro allI impI)
    fix k assume "n \<le> k"
    with h[of k] show "\<not> bit w k" by (simp add: bit_drop_bit_eq)
  qed
next
  assume "\<forall>k \<ge> n. \<not> bit w k"
  then show "drop_bit n w = 0" by (intro bit_word_eqI) (simp add: bit_drop_bit_eq)
qed

lemma fold_idle: "(\<And>n. n \<in> set ns \<Longrightarrow> \<not> bit grp n) \<Longrightarrow> fold (pin_round grp m ot sp pu a) ns s = s"
  by (induction ns) (simp_all add: pin_round_def)

lemma setgroup_loop_fold:
  assumes "b < 16"
  shows "setgroup_loop (drop_bit b grp) b (push_bit (2 * b) m) (push_bit b ot) (push_bit (2 * b) sp)
      (push_bit (2 * b) pu) a s = fold (pin_round grp m ot sp pu a) [b..<16] s"
  using assms
proof (induction "16 - b" arbitrary: b s)
  case (Suc k)
  have now: "drop_bit b grp AND 1 \<noteq> 0 \<longleftrightarrow> bit grp b"
    by (simp add: and_one_eq odd_iff_mod_2_eq_one bit_iff_odd_drop_bit)
  have next_grp: "drop_bit 1 (drop_bit b grp) = drop_bit (b + 1) grp" by (simp add: add.commute)
  have split: "[b..<16] = b # [b + 1..<16]" using Suc.prems by (simp add: upt_conv_Cons)
  show ?case
  proof (cases "drop_bit (b + 1) grp = 0")
    case True
    then have "\<not> bit grp n" if "n \<in> set [b + 1..<16]" for n using that by (auto simp: drop_bit_0_iff)
    then have "fold (pin_round grp m ot sp pu a) [b + 1..<16] t = t" for t by (rule fold_idle)
    with True show ?thesis
      by (subst setgroup_loop.simps) (simp only: now next_grp Let_def simp_thms if_True split fold_Cons o_apply pin_round_def)
  next
    case False
    have "b + 1 < 16"
    proof (rule ccontr)
      assume "\<not> b + 1 < 16"
      then have "drop_bit (b + 1) grp = 0" by (auto simp: drop_bit_0_iff dest: bit_imp_le_length)
      with False show False by simp
    qed
    moreover have "k = 16 - (b + 1)" using Suc.hyps(2) by simp
    moreover have "push_bit 2 (push_bit (2 * b) w) = push_bit (2 * (b + 1)) w"
      "push_bit 1 (push_bit b w) = push_bit (b + 1) w" for w :: u32
      by (simp_all add: push_bit_push_bit)
    ultimately show ?thesis using False Suc.hyps(1)[of "b + 1"]
      by (subst setgroup_loop.simps) (simp only: now next_grp Let_def if_False split fold_Cons o_apply pin_round_def)
  qed
qed simp

subsection \<open>Fields of the registers\<close>

definition field :: "nat \<Rightarrow> nat \<Rightarrow> u32 \<Rightarrow> u32" where
  "field k n w = take_bit k (drop_bit (k * n) w)"

lemma bit_field: "bit (field k n w) i \<longleftrightarrow> i < k \<and> bit w (k * n + i)"
  by (simp add: field_def bit_take_bit_iff bit_drop_bit_eq)

lemma field_apart:
  fixes k n b i :: nat
  assumes "n \<noteq> b" and "i < k"
  shows "k * n + i < k * b \<or> k * b + k \<le> k * n + i"
proof (cases "n < b")
  case True
  then have "k * Suc n \<le> k * b" by (intro mult_le_mono2) simp
  with assms(2) show ?thesis by simp
next
  case False
  with assms(1) have "k * Suc b \<le> k * n" by (intro mult_le_mono2) simp
  then show ?thesis by simp
qed

lemma field_put_field:
  assumes "take_bit k v = v" and "k * n + k \<le> 32" and "k * b + k \<le> 32"
  shows "field k n (put_field (push_bit (k * b) (Bit_Operations.mask k)) (push_bit (k * b) v) w) =
    (if n = b then v else field k n w)"
proof (rule bit_word_eqI)
  fix i assume "i < LENGTH(32)"
  have v: "bit v j \<Longrightarrow> j < k" for j using assms(1) by (metis bit_take_bit_iff)
  show "bit (field k n (put_field (push_bit (k * b) (Bit_Operations.mask k)) (push_bit (k * b) v) w)) i =
    bit (if n = b then v else field k n w) i"
  proof (cases "i < k")
    case False
    then show ?thesis using v by (auto simp: bit_field)
  next
    case True
    then have len: "k * n + i < 32" using assms(2) by simp
    show ?thesis
    proof (cases "n = b")
      case same: True
      with True len show ?thesis
        by (simp add: bit_field put_field_def bit_or_iff bit_and_iff bit_not_iff bit_push_bit_iff bit_mask_iff)
    next
      case False
      have apart: "k * n + i < k * b \<or> k * b + k \<le> k * n + i" by (rule field_apart[OF False True])
      moreover have "\<not> bit v (k * n + i - k * b)" if "k * b + k \<le> k * n + i" using that v by fastforce
      ultimately show ?thesis using True len False
        by (auto simp: bit_field put_field_def bit_or_iff bit_and_iff bit_not_iff bit_push_bit_iff bit_mask_iff)
    qed
  qed
qed

text \<open>The mode of a pin, read back from the registers.\<close>

definition pin_mode :: "stm32_gpio \<Rightarrow> nat \<Rightarrow> u32" where
  "pin_mode p n =
     field 2 n (MODER p) OR push_bit 2 (field 1 n (OTYPER p)) OR push_bit 3 (field 2 n (OSPEEDR p)) OR
     push_bit 5 (field 2 n (PUPDR p)) OR
     push_bit 7 (if n < 8 then field 4 n (AFRL p) else field 4 (n - 8) (AFRH p))"

text \<open>The parts of a mode word.\<close>

definition mode_parts :: "u32 \<Rightarrow> u32 \<Rightarrow> u32 \<Rightarrow> u32 \<Rightarrow> u32 \<Rightarrow> u32" where
  "mode_parts m ot sp pu a = m OR push_bit 2 ot OR push_bit 3 sp OR push_bit 5 pu OR push_bit 7 a"

lemma masks: "(1 :: u32) = Bit_Operations.mask 1" "(3 :: u32) = Bit_Operations.mask 2"
  "(15 :: u32) = Bit_Operations.mask 4"
  by (simp_all add: mask_eq_exp_minus_1)

lemma pin_mode_set_pin:
  assumes "n < 16" and "b < 16"
    and "take_bit 2 m = m" "take_bit 1 ot = ot" "take_bit 2 sp = sp" "take_bit 2 pu = pu" "take_bit 4 a = a"
  shows "pin_mode (fst (set_pin b (push_bit (2 * b) m) (push_bit b ot) (push_bit (2 * b) sp)
      (push_bit (2 * b) pu) a s)) n = (if n = b then mode_parts m ot sp pu a else pin_mode (fst s) n)"
proof -
  have two: "field 2 n (put_field (push_bit (b * 2) 3) (push_bit (2 * b) v) w) =
      (if n = b then v else field 2 n w)" if "take_bit 2 v = v" for v w
    using field_put_field[of 2 v n b w] that assms(1,2) by (simp add: mult.commute flip: masks(2))
  have one: "field 1 n (put_field (push_bit b 1) (push_bit b ot) w) = (if n = b then ot else field 1 n w)" for w
    using field_put_field[of 1 ot n b w] assms(1,2,4) by (simp flip: masks(1))
  have four: "field 4 j (put_field (push_bit (b mod 8 * 4) 15) (push_bit (b mod 8 * 4) a) w) =
      (if j = b mod 8 then a else field 4 j w)" if "j < 8" for j w
    using field_put_field[of 4 a j "b mod 8" w] that assms(7) by (simp add: mult.commute flip: masks(3))
  obtain p w where s: "s = (p, w)" by (cases s)
  have afr: "(if n < 8 then field 4 n (AFRL p') else field 4 (n - 8) (AFRH p')) =
      (if n = b then a else if n < 8 then field 4 n (AFRL p) else field 4 (n - 8) (AFRH p))"
    if "AFRL p' = (if b < 8 then put_field (push_bit (b mod 8 * 4) 15) (push_bit (b mod 8 * 4) a) (AFRL p) else AFRL p)"
      "AFRH p' = (if b < 8 then AFRH p else put_field (push_bit (b mod 8 * 4) 15) (push_bit (b mod 8 * 4) a) (AFRH p))"
    for p'
  proof -
    have "b mod 8 = (if b < 8 then b else b - 8)" using assms(2) by (simp add: mod_if)
    then show ?thesis using assms(1,2) four[of n] four[of "n - 8"] unfolding that by auto
  qed
  let ?p = "fst (set_pin b (push_bit (2 * b) m) (push_bit b ot) (push_bit (2 * b) sp) (push_bit (2 * b) pu) a s)"
  have regs: "MODER ?p = put_field (push_bit (b * 2) 3) (push_bit (2 * b) m) (MODER p)"
    "OTYPER ?p = put_field (push_bit b 1) (push_bit b ot) (OTYPER p)"
    "OSPEEDR ?p = put_field (push_bit (b * 2) 3) (push_bit (2 * b) sp) (OSPEEDR p)"
    "PUPDR ?p = put_field (push_bit (b * 2) 3) (push_bit (2 * b) pu) (PUPDR p)"
    "AFRL ?p = (if b < 8 then put_field (push_bit (b mod 8 * 4) 15) (push_bit (b mod 8 * 4) a) (AFRL p) else AFRL p)"
    "AFRH ?p = (if b < 8 then AFRH p else put_field (push_bit (b mod 8 * 4) 15) (push_bit (b mod 8 * 4) a) (AFRH p))"
    by (simp_all add: s set_pin_def put_afr_def put_moder_def Let_def)
  show ?thesis
    unfolding pin_mode_def afr[OF regs(5,6)] regs(1-4) two[OF assms(3)] two[OF assms(5)] two[OF assms(6)] one
    by (simp add: mode_parts_def s pin_mode_def)
qed

lemma pin_mode_rounds:
  assumes "n < 16" and "\<forall>b \<in> set bs. b < 16" and "distinct bs"
    and "take_bit 2 m = m" "take_bit 1 ot = ot" "take_bit 2 sp = sp" "take_bit 2 pu = pu" "take_bit 4 a = a"
  shows "pin_mode (fst (fold (pin_round grp m ot sp pu a) bs s)) n =
    (if n \<in> set bs \<and> bit grp n then mode_parts m ot sp pu a else pin_mode (fst s) n)"
  using assms(2,3)
proof (induction bs arbitrary: s)
  case (Cons b bs)
  have "pin_mode (fst (pin_round grp m ot sp pu a b s)) n =
      (if n = b \<and> bit grp n then mode_parts m ot sp pu a else pin_mode (fst s) n)"
    using pin_mode_set_pin[OF assms(1) _ assms(4-8), of b s] Cons.prems(1)
    by (cases "n = b") (simp_all add: pin_round_def)
  with Cons show ?case by (cases "n = b") (simp_all del: split_paired_All)
qed simp

lemma bit_const32: "bit (2 :: u32) i \<longleftrightarrow> i = 1"
proof -
  have m: "(2 :: u32) = push_bit 1 (Bit_Operations.mask 1)" by simp
  show ?thesis unfolding m bit_push_bit_iff bit_mask_iff by auto
qed

lemma part_of: "drop_bit c (w AND push_bit c (Bit_Operations.mask k)) = take_bit k (drop_bit c (w :: u32))"
  by (rule bit_word_eqI) (auto simp: bit_simps dest: bit_imp_le_length)

lemma parts:
  "mode AND PAL_STM32_MODE_MASK = take_bit 2 mode"
  "drop_bit 2 (mode AND PAL_STM32_OTYPE_MASK) = take_bit 1 (drop_bit 2 mode)"
  "drop_bit 3 (mode AND PAL_STM32_OSPEED_MASK) = take_bit 2 (drop_bit 3 mode)"
  "drop_bit 5 (mode AND PAL_STM32_PUPDR_MASK) = take_bit 2 (drop_bit 5 mode)"
  "drop_bit 7 (mode AND PAL_STM32_ALTERNATE_MASK) = take_bit 4 (drop_bit 7 mode)"
  unfolding PAL_STM32_MODE_MASK_def PAL_STM32_OTYPE_MASK_def PAL_STM32_OSPEED_MASK_def
    PAL_STM32_PUPDR_MASK_def PAL_STM32_ALTERNATE_MASK_def masks
  by (simp_all only: part_of) (simp add: take_bit_eq_mask)

lemma take_bit_join: "take_bit a w OR push_bit a (take_bit b (drop_bit a w)) = take_bit (a + b) (w :: u32)"
  by (rule bit_word_eqI) (auto simp: bit_simps)

lemma mode_parts_of:
  "mode_parts (take_bit 2 mode) (take_bit 1 (drop_bit 2 mode)) (take_bit 2 (drop_bit 3 mode))
     (take_bit 2 (drop_bit 5 mode)) (take_bit 4 (drop_bit 7 mode)) = take_bit 11 mode"
proof -
  have j: "take_bit 2 mode OR push_bit 2 (take_bit 1 (drop_bit 2 mode)) = take_bit 3 mode"
    "take_bit 3 mode OR push_bit 3 (take_bit 2 (drop_bit 3 mode)) = take_bit 5 mode"
    "take_bit 5 mode OR push_bit 5 (take_bit 2 (drop_bit 5 mode)) = take_bit 7 mode"
    "take_bit 7 mode OR push_bit 7 (take_bit 4 (drop_bit 7 mode)) = take_bit 11 mode"
    using take_bit_join[of 2 mode 1] take_bit_join[of 3 mode 2] take_bit_join[of 5 mode 2]
      take_bit_join[of 7 mode 4] by simp_all
  show ?thesis unfolding mode_parts_def or.assoc[symmetric] j ..
qed

lemma setgroupmode_fold:
  "pal_lld_setgroupmode grp mode s =
     fold (pin_round grp (take_bit 2 mode) (take_bit 1 (drop_bit 2 mode)) (take_bit 2 (drop_bit 3 mode))
       (take_bit 2 (drop_bit 5 mode)) (take_bit 4 (drop_bit 7 mode))) [0..<16] s"
  unfolding pal_lld_setgroupmode_def parts using setgroup_loop_fold[of 0 grp] by simp

text \<open>
  Setting the mode of a group of pins sets the mode of these pins, read back from the
  registers, and changes the mode of no other pin of the port.
\<close>

theorem setgroupmode_modes:
  assumes "n < 16"
  shows "pin_mode (fst (pal_lld_setgroupmode grp mode s)) n =
    (if bit grp n then take_bit 11 mode else pin_mode (fst s) n)"
  unfolding setgroupmode_fold
  by (subst pin_mode_rounds[OF assms]) (use assms in \<open>simp_all only: mode_parts_of take_bit_take_bit,
      simp_all\<close>)

lemma setgroupmode_modes_witness:
  "\<forall>s. pin_mode (fst (pal_lld_setgroupmode (2 ^ 11) (PAL_MODE_ALTERNATE 1) s)) 11 = 0x82 \<and>
     pin_mode (fst (pal_lld_setgroupmode (2 ^ 11) (PAL_MODE_ALTERNATE 1) s)) 12 = pin_mode (fst s) 12"
  using setgroupmode_modes[of 11 "2 ^ 11" "PAL_MODE_ALTERNATE 1"]
    setgroupmode_modes[of 12 "2 ^ 11" "PAL_MODE_ALTERNATE 1"]
  by (simp add: bit_exp_iff PAL_MODE_ALTERNATE_def PAL_STM32_MODE_ALTERNATE_def PAL_STM32_ALTERNATE_def take_bit_eq_mod)

text \<open>
  The driver means to set the number of the alternate function before it switches a
  pin to it. It does so for pin 0 only: for every other pin it compares a shifted mode, and
  switches the mode first.
\<close>

theorem alternate_order:
  assumes "n < 16" and "f < 16"
  shows "snd (pal_lld_setgroupmode (2 ^ n) (PAL_MODE_ALTERNATE f) (p, [])) =
    [R_OTYPER, R_OSPEEDR, R_PUPDR] @
    (if n = 0 then [R_AFRL, R_MODER] else [R_MODER, if n < 8 then R_AFRL else R_AFRH])"
proof -
  have alt: "take_bit 2 (PAL_MODE_ALTERNATE f) = 2"
    by (rule bit_word_eqI)
      (auto simp: PAL_MODE_ALTERNATE_def PAL_STM32_MODE_ALTERNATE_def PAL_STM32_ALTERNATE_def
        bit_take_bit_iff bit_or_iff bit_push_bit_iff bit_const32 simp del: bit_numeral_word_iff)
  have shifted: "push_bit (2 * n) (2 :: u32) = PAL_STM32_MODE_ALTERNATE \<longleftrightarrow> n = 0"
  proof
    assume "push_bit (2 * n) (2 :: u32) = PAL_STM32_MODE_ALTERNATE"
    then have "bit (push_bit (2 * n) (2 :: u32)) (2 * n + 1) = bit (2 :: u32) (2 * n + 1)"
      by (simp add: PAL_STM32_MODE_ALTERNATE_def)
    then show "n = 0" using assms(1) by (simp add: bit_push_bit_iff bit_const32 del: bit_numeral_word_iff push_bit_numeral)
  qed (simp add: PAL_STM32_MODE_ALTERNATE_def)
  have split: "[0..<16] = [0..<n] @ n # [Suc n..<16]"
    using assms(1) upt_add_eq_append[of 0 n "16 - n"] by (simp add: upt_conv_Cons)
  have idle: "fold (pin_round (2 ^ n) m ot sp pu a) ns t = t" if "n \<notin> set ns" for m ot sp pu a ns t
    by (rule fold_idle) (use that in \<open>auto simp: bit_exp_iff\<close>)
  show ?thesis
    unfolding setgroupmode_fold split fold_append o_apply fold_Cons
    by (subst idle, simp, subst idle, simp)
      (use assms(1) in \<open>simp add: pin_round_def bit_exp_iff set_pin_def alt shifted put_moder_def
        put_afr_def Let_def\<close>)
qed

lemma alternate_order_witness:
  "\<forall>p. snd (pal_lld_setgroupmode (2 ^ 11) (PAL_MODE_ALTERNATE 1) (p, [])) =
    [R_OTYPER, R_OSPEEDR, R_PUPDR, R_MODER, R_AFRH]"
  using alternate_order[of 11 1] by simp

subsection \<open>The state of the pins after the start\<close>

fun pad_modes :: "io_event list \<Rightarrow> (pad \<times> u32) list" where
  "pad_modes (Pad_Mode p m # es) = (p, m) # pad_modes es"
| "pad_modes (e # es) = pad_modes es"
| "pad_modes [] = []"

lemma pad_modes_append: "pad_modes (xs @ ys) = pad_modes xs @ pad_modes ys"
  by (induction xs rule: pad_modes.induct) simp_all

text \<open>
  The start configures no pin twice, makes the four switches outputs and leaves them
  off, and leaves the chip select of the cell monitor inactive.
\<close>

theorem gpio_init_pads:
  "distinct (map fst (pad_modes (drop (length (events s)) (events (gpio_init s))))) \<and>
   (\<forall>p. pads (gpio_init s) p =
     (if p = LTC6803_CS then True
      else if p = PCHG_SW \<or> p = PWR_SW \<or> p = DSG_SW \<or> p = CHG_SW then False else pads s p))"
proof
  show "distinct (map fst (pad_modes (drop (length (events s)) (events (gpio_init s)))))"
    by (simp add: gpio_init_def Let_def palSetPadMode_def palClearPad_def palSetPad_def palWritePad_def
        emit_def pad_defs)
  show "\<forall>p. pads (gpio_init s) p =
     (if p = LTC6803_CS then True
      else if p = PCHG_SW \<or> p = PWR_SW \<or> p = DSG_SW \<or> p = CHG_SW then False else pads s p)"
    by (simp add: gpio_init_def Let_def palSetPadMode_def palClearPad_def palSetPad_def palWritePad_def
        emit_def pad_defs)
qed

end
