(* ===== verification/Comm_Usb.thy ===== *)
theory Comm_Usb
  imports Comm_Can Usb_Descriptors Gpio
begin

text \<open>
  The USB side of the firmware (comm_usb.c): start and stop of the virtual serial port, the
  events of the USB driver, sending, and the ring of received bytes between the reading and
  the processing thread. What the processing thread does with a byte is a parameter here
  (packet.c, in Packet). The calls of the USB driver are recorded; of its state the firmware
  looks at one variable.
\<close>

record usb = can +
  usb_state :: usbstate

definition SERIAL_RX_BUFFER_SIZE :: nat where "SERIAL_RX_BUFFER_SIZE = 2048"

record serial_rx =
  serial_rx_buffer :: "u8 list"
  serial_rx_read_pos :: nat
  serial_rx_write_pos :: nat
  usb_process_tp :: bool
  usb_signalled :: bool

subsection \<open>Start and stop\<close>

definition usb_event :: "usbevent \<Rightarrow> 'a usb_scheme \<Rightarrow> 'a usb_scheme" where
  "usb_event event s =
     (case event of
        USB_EVENT_RESET \<Rightarrow> s
      | USB_EVENT_ADDRESS \<Rightarrow> s
      | USB_EVENT_CONFIGURED \<Rightarrow>
          emit Sys_Unlock (emit Sdu_Configure
            (emit (Usb_Init_Endpoint (unat USBD1_INTERRUPT_REQUEST_EP))
              (emit (Usb_Init_Endpoint (unat USBD1_DATA_REQUEST_EP)) (emit Sys_Lock s))))
      | USB_EVENT_SUSPEND \<Rightarrow> emit Sys_Unlock (emit Sdu_Disconnect (emit Sys_Lock s))
      | USB_EVENT_WAKEUP \<Rightarrow> s
      | USB_EVENT_STALLED \<Rightarrow> s)"

definition sof_handler :: "'a usb_scheme \<Rightarrow> 'a usb_scheme" where
  "sof_handler s = emit Sys_Unlock (emit Sdu_Sof (emit Sys_Lock s))"

definition bus_low :: "'a usb_scheme \<Rightarrow> 'a usb_scheme" where
  "bus_low s =
     palClearPad USB_DP (palClearPad USB_DM
       (palSetPadMode USB_DP PAL_MODE_OUTPUT_PUSHPULL (palSetPadMode USB_DM PAL_MODE_OUTPUT_PUSHPULL
         (emit Usb_Disconnect s))))"

definition serial_init_thread :: "'a usb_scheme \<Rightarrow> 'a usb_scheme" where
  "serial_init_thread s =
     (let s1 = bus_low (emit Sdu_Start (emit Sdu_Init s));
          s2 = emit (Sleep_Ms 1500) s1;
          s3 = palSetPadMode USB_DP (PAL_MODE_ALTERNATE 14) (palSetPadMode USB_DM (PAL_MODE_ALTERNATE 14) s2);
          s4 = (emit Usb_Start s3)\<lparr>usb_state := USB_READY\<rparr>;
          s5 = emit (Mtx_Init SEND_MUTEX) (emit Usb_Connect s4)
      in emit (Thread_Start Serial_Process) (emit (Thread_Start Serial_Read) s5))"

definition comm_usb_init :: "'a usb_scheme \<Rightarrow> 'a usb_scheme" where
  "comm_usb_init s = emit (Thread_Start Packet_Timeout) (emit (Thread_Start Serial_Init) s)"

definition comm_usb_deinit :: "'a usb_scheme \<Rightarrow> 'a usb_scheme" where
  "comm_usb_deinit s = (emit Usb_Stop (bus_low s))\<lparr>usb_state := USB_STOP\<rparr>"

definition comm_usb_send :: "u8 list \<Rightarrow> nat \<Rightarrow> 'a board_scheme \<Rightarrow> 'a board_scheme option" where
  "comm_usb_send buffer len s =
     (if length buffer < len then None
      else Some (emit (Mtx_Unlock SEND_MUTEX)
        (emit (Stream_Send (take len buffer)) (emit (Mtx_Lock SEND_MUTEX) s))))"

definition comm_usb_is_active :: "'a usb_scheme \<Rightarrow> bool" where
  "comm_usb_is_active s \<longleftrightarrow> usb_state s = USB_ACTIVE"

subsection \<open>Receiving\<close>

definition serial_store :: "u8 \<Rightarrow> serial_rx \<Rightarrow> serial_rx option" where
  "serial_store b r =
     (if length (serial_rx_buffer r) \<le> serial_rx_write_pos r then None
      else
        let w = serial_rx_write_pos r + 1
        in Some (r\<lparr>serial_rx_buffer := (serial_rx_buffer r)[serial_rx_write_pos r := b],
                   serial_rx_write_pos := (if w = SERIAL_RX_BUFFER_SIZE then 0 else w)\<rparr>))"

text \<open>
  One round of the reading thread: \<open>bytes\<close> is what the read of at most one byte returned.
  The signal to a thread that has not run yet goes through a null pointer.
\<close>

definition serial_read_round :: "u8 list \<Rightarrow> serial_rx \<Rightarrow> serial_rx option" where
  "serial_read_round bytes r =
     (case fold_opt serial_store (take 1 bytes) r of None \<Rightarrow> None
      | Some r1 \<Rightarrow>
          if take 1 bytes = [] then Some r1
          else if usb_process_tp r1 then Some (r1\<lparr>usb_signalled := True\<rparr>) else None)"

definition serial_process_start :: "serial_rx \<Rightarrow> serial_rx" where
  "serial_process_start r = r\<lparr>usb_process_tp := True\<rparr>"

definition serial_advance :: "serial_rx \<Rightarrow> serial_rx" where
  "serial_advance r =
     (let i = serial_rx_read_pos r + 1
      in r\<lparr>serial_rx_read_pos := (if i = SERIAL_RX_BUFFER_SIZE then 0 else i)\<rparr>)"

definition serial_process_body ::
    "(u8 \<Rightarrow> 's \<Rightarrow> 's option) \<Rightarrow> serial_rx \<times> 's \<Rightarrow> (serial_rx \<times> 's) option" where
  "serial_process_body p = (\<lambda>(r, s).
     if length (serial_rx_buffer r) \<le> serial_rx_read_pos r then None
     else map_option (Pair (serial_advance r)) (p (serial_rx_buffer r ! serial_rx_read_pos r) s))"

definition serial_process_round ::
    "(u8 \<Rightarrow> 's \<Rightarrow> 's option) \<Rightarrow> serial_rx \<times> 's \<Rightarrow> (serial_rx \<times> 's) option" where
  "serial_process_round p = (\<lambda>(r, s).
     if usb_signalled r then
       loop_while (\<lambda>(r, _). serial_rx_read_pos r \<noteq> serial_rx_write_pos r)
         (serial_process_body p) (r\<lparr>usb_signalled := False\<rparr>, s)
     else Some (r, s))"

interpretation usb_ring: ring_buffer SERIAL_RX_BUFFER_SIZE serial_rx_buffer serial_rx_read_pos
    serial_rx_write_pos serial_store serial_advance serial_process_body
  by unfold_locales
    (auto simp: SERIAL_RX_BUFFER_SIZE_def serial_store_def serial_advance_def serial_process_body_def
      Let_def mod_Suc)

text \<open>The rounds of the reading thread for a sequence of bytes.\<close>

definition read_rounds :: "u8 list \<Rightarrow> serial_rx \<Rightarrow> serial_rx option" where
  "read_rounds bs r = fold_opt (\<lambda>b. serial_read_round [b]) bs r"

lemma serial_store_tp: "serial_store b r = Some r' \<Longrightarrow> usb_process_tp r' = usb_process_tp r"
  by (auto simp: serial_store_def Let_def split: if_splits)

lemma signal_ring [simp]:
  "usb_ring.ok (r\<lparr>usb_signalled := b\<rparr>) = usb_ring.ok r"
  "usb_ring.queued (r\<lparr>usb_signalled := b\<rparr>) = usb_ring.queued r"
  "usb_ring.count (r\<lparr>usb_signalled := b\<rparr>) = usb_ring.count r"
  by (simp_all add: usb_ring.ok_def usb_ring.queued_def usb_ring.count_def)

lemma read_round_one:
  assumes "usb_ring.ok r" and "usb_process_tp r"
  shows "\<exists>r'. serial_read_round [b] r = Some r' \<and> usb_ring.ok r' \<and> usb_process_tp r' \<and> usb_signalled r' \<and>
    usb_ring.queued r' = (if usb_ring.count r = SERIAL_RX_BUFFER_SIZE - 1 then [] else usb_ring.queued r @ [b])"
proof -
  obtain r1 where r1: "serial_store b r = Some r1" "usb_ring.ok r1"
    "usb_ring.queued r1 = (if usb_ring.count r = SERIAL_RX_BUFFER_SIZE - 1 then [] else usb_ring.queued r @ [b])"
    using usb_ring.put_queued[OF assms(1), of b] by auto
  with serial_store_tp[OF r1(1)] assms(2) show ?thesis
    by (intro exI[of _ "r1\<lparr>usb_signalled := True\<rparr>"]) (simp add: serial_read_round_def)
qed

lemma read_rounds_queue:
  assumes "usb_ring.ok r" and "usb_process_tp r" and "usb_ring.count r + length bs < SERIAL_RX_BUFFER_SIZE"
  shows "\<exists>r'. read_rounds bs r = Some r' \<and> usb_ring.ok r' \<and> usb_process_tp r' \<and>
    usb_ring.queued r' = usb_ring.queued r @ bs \<and> (bs \<noteq> [] \<longrightarrow> usb_signalled r')"
  using assms
proof (induction bs rule: rev_induct)
  case (snoc b bs)
  obtain r1 where r1: "read_rounds bs r = Some r1" "usb_ring.ok r1" "usb_process_tp r1"
    "usb_ring.queued r1 = usb_ring.queued r @ bs" using snoc by auto
  then have "usb_ring.count r1 = usb_ring.count r + length bs"
    by (metis usb_ring.length_queued length_append)
  then show ?case using read_round_one[OF r1(2,3), of b] r1 snoc.prems(3)
    by (auto simp: read_rounds_def fold_opt_append)
qed (simp add: read_rounds_def)

text \<open>
  C35: Bytes that the reading thread stores one by one, no more than fit, are handled by
  the next round of the processing thread in the order of their arrival, behind those that
  waited already; if none of them makes the parser fail, the round ends with the ring empty.
\<close>

theorem serial_bytes_in_order:
  assumes "usb_ring.ok r" and "usb_process_tp r" and "bs \<noteq> []"
    and "usb_ring.count r + length bs < SERIAL_RX_BUFFER_SIZE"
  shows "\<exists>r1 r2. read_rounds bs r = Some r1 \<and> usb_ring.queued r2 = [] \<and>
    serial_process_round p (r1, s) = map_option (Pair r2) (fold_opt p (usb_ring.queued r @ bs) s)"
proof -
  obtain r1 where r1: "read_rounds bs r = Some r1" "usb_ring.ok r1" "usb_signalled r1"
    "usb_ring.queued r1 = usb_ring.queued r @ bs" using read_rounds_queue[OF assms(1,2,4)] assms(3) by blast
  with usb_ring.drain[of "r1\<lparr>usb_signalled := False\<rparr>" p s] show ?thesis
    by (auto simp: serial_process_round_def)
qed

definition fresh_ring :: serial_rx where
  "fresh_ring = \<lparr>serial_rx_buffer = replicate 2048 0, serial_rx_read_pos = 2047,
     serial_rx_write_pos = 2047, usb_process_tp = True, usb_signalled = False\<rparr>"

lemma fresh_ring_ok: "usb_ring.ok fresh_ring" "usb_ring.queued fresh_ring = []" "usb_ring.count fresh_ring = 0"
  "usb_process_tp fresh_ring"
  unfolding usb_ring.ok_def usb_ring.count_def usb_ring.queued_def
  by (simp_all add: fresh_ring_def SERIAL_RX_BUFFER_SIZE_def)

lemma room: "Suc (Suc 0) < SERIAL_RX_BUFFER_SIZE" "2047 < SERIAL_RX_BUFFER_SIZE"
  "SERIAL_RX_BUFFER_SIZE - Suc 0 = 2047"
  by (simp_all add: SERIAL_RX_BUFFER_SIZE_def)

lemma serial_bytes_in_order_witness:
  "\<exists>r1 r2. read_rounds [1, 2] fresh_ring = Some r1 \<and> usb_ring.queued r2 = [] \<and>
    serial_process_round (\<lambda>b s. Some (s @ [b])) (r1, []) = Some (r2, [1, 2])"
  using serial_bytes_in_order[of fresh_ring "[1, 2]" "\<lambda>b s. Some (s @ [b])" "[]"]
  by (simp add: fresh_ring_ok room(1))

text \<open>
  The reading thread does not notice a full ring: when 2047 bytes wait, the next byte
  makes the ring look empty, and all 2048 bytes are lost.
\<close>

theorem serial_overrun:
  assumes "usb_ring.ok r" and "usb_process_tp r" and "usb_ring.count r = SERIAL_RX_BUFFER_SIZE - 1"
  shows "\<exists>r1 r2. serial_read_round [b] r = Some r1 \<and> usb_ring.queued r1 = [] \<and>
    serial_process_round p (r1, s) = Some (r2, s)"
proof -
  obtain r1 where r1: "serial_read_round [b] r = Some r1" "usb_ring.ok r1" "usb_ring.queued r1 = []"
    using read_round_one[OF assms(1,2), of b] assms(3) by auto
  with usb_ring.drain[of "r1\<lparr>usb_signalled := False\<rparr>" p s] show ?thesis
    by (cases "usb_signalled r1") (auto simp: serial_process_round_def)
qed

lemma serial_overrun_witness:
  "\<exists>r. read_rounds (replicate 2047 7) fresh_ring = Some r \<and>
    (\<exists>r1. serial_read_round [8] r = Some r1 \<and> usb_ring.queued r1 = [])"
proof -
  obtain r where r: "read_rounds (replicate 2047 7) fresh_ring = Some r" "usb_ring.ok r" "usb_process_tp r"
    "usb_ring.queued r = replicate 2047 7"
    using read_rounds_queue[OF fresh_ring_ok(1,4), of "replicate 2047 7"]
    by (auto simp: fresh_ring_ok room)
  then have "usb_ring.count r = SERIAL_RX_BUFFER_SIZE - 1"
    using usb_ring.length_queued[of r] by (simp add: room)
  with serial_overrun[OF r(2,3), of 8 "\<lambda>b s. Some s" "()"] r(1) show ?thesis by blast
qed

end
