(* ===== verification/Console.thy ===== *)
theory Console
  imports Comm_Usb
begin

text \<open>
  Sending a packet (packet_send_packet of packet.c) and the console behind it (console.c).
  A packet longer than the buffer on the sender's stack is the result None. The check sum
  (crc.h is not part of the repository), the logarithm and what the kernel reports of its
  heap and threads are fields of an environment. A format string of the code is the list of
  its pieces; the formatting itself is that of C's vsnprintf for these conversions.
\<close>

record thread_info =
  th_addr :: u32
  th_r13 :: u32
  th_prio :: u32
  th_refs :: u32
  th_state :: nat
  th_name :: string
  th_time :: u32

record console_env =
  crc16 :: "u8 list \<Rightarrow> u16"
  logf :: "fp \<Rightarrow> fp"
  core_status :: u32
  heap_fragments :: u32
  heap_free :: u32
  thread_first :: thread_info
  thread_rest :: "thread_info list"

definition PACKET_START :: u8 where "PACKET_START = 0x50"
definition PACKET_LONG_START :: u8 where "PACKET_LONG_START = 0x51"
definition PACKET_END :: u8 where "PACKET_END = 0x0A"
definition PACKET_CONSOLE :: u8 where "PACKET_CONSOLE = 0x01"

subsection \<open>Sending\<close>

definition packet_header :: "nat \<Rightarrow> u8 list" where
  "packet_header n =
     (if 255 < n then [PACKET_LONG_START, of_nat (n div 256), of_nat n] else [PACKET_START, of_nat n])"

definition packet_send_packet ::
    "'e console_env_scheme \<Rightarrow> u8 list \<Rightarrow> nat \<Rightarrow> 'a board_scheme \<Rightarrow> 'a board_scheme option" where
  "packet_send_packet env data n s =
     (if length data < n \<or> 512 < length (packet_header n) + n + 3 then None
      else
        let crc = crc16 env (take n data);
            buffer = packet_header n @ take n data @ [hi8 crc, lo8 crc, PACKET_END]
        in comm_usb_send buffer (length buffer) s)"

subsection \<open>Formatting\<close>

definition bytes_of :: "string \<Rightarrow> u8 list" where
  "bytes_of = map of_char"

definition pad_with :: "u8 \<Rightarrow> nat \<Rightarrow> u8 list \<Rightarrow> u8 list" where
  "pad_with c w bs = replicate (w - length bs) c @ bs"

fun decimal :: "nat \<Rightarrow> u8 list" where
  "decimal n = (if n < 10 then [48 + of_nat n] else decimal (n div 10) @ [48 + of_nat (n mod 10)])"

declare decimal.simps [simp del]

definition hex_digit :: "nat \<Rightarrow> u8" where
  "hex_digit n = (if n < 10 then 48 + of_nat n else 87 + of_nat n)"

definition hex8 :: "u32 \<Rightarrow> u8 list" where
  "hex8 w = map (\<lambda>i. hex_digit (unat (drop_bit (28 - 4 * i) w AND 15))) [0..<8]"

definition signed_decimal :: "nat \<Rightarrow> int \<Rightarrow> u8 list" where
  "signed_decimal w n =
     (if n < 0 then 45 # pad_with 48 (w - 1) (decimal (nat (- n))) else pad_with 48 w (decimal (nat n)))"

definition fixed :: "nat \<Rightarrow> rat \<Rightarrow> u8 list" where
  "fixed d x =
     (let n = nat (round_even (\<bar>x\<bar> * 10 ^ d))
      in (if x < 0 then [45] else []) @ decimal (n div 10 ^ d) @ [46] @ pad_with 48 d (decimal (n mod 10 ^ d)))"

fun fixed_fp :: "nat \<Rightarrow> fp \<Rightarrow> u8 list" where
  "fixed_fp d (Fin x) = fixed d x"
| "fixed_fp d (Inf neg) = (if neg then [45] else []) @ bytes_of ''inf''"
| "fixed_fp d NaN = bytes_of ''nan''"

text \<open>
  \<open>Txt\<close> is text of the format, \<open>Chr\<close> a control character in it, \<open>Str\<close> is \<open>%s\<close> or \<open>%9s\<close>,
  \<open>Dec\<close> is \<open>%d\<close> or \<open>%02d\<close>, \<open>Uns\<close> is \<open>%u\<close>, \<open>%lu\<close> or \<open>%4lu\<close>, \<open>Hex\<close> is \<open>%.8lx\<close> and
  \<open>Fix\<close> is \<open>%f\<close> or \<open>%.2f\<close>.
\<close>

datatype piece =
  Txt string | Chr u8 | Str nat "u8 list" | Dec nat int | Uns nat u32 | Hex u32 | Fix nat fp

fun render :: "piece \<Rightarrow> u8 list" where
  "render (Txt t) = bytes_of t"
| "render (Chr c) = [c]"
| "render (Str w t) = pad_with 32 w t"
| "render (Dec w n) = signed_decimal w n"
| "render (Uns w n) = pad_with 32 w (decimal (unat n))"
| "render (Hex n) = hex8 n"
| "render (Fix d x) = fixed_fp d x"

abbreviation NL :: piece where "NL \<equiv> Chr 10"
abbreviation CR :: piece where "CR \<equiv> Chr 13"

text \<open>The buffer of 255 bytes holds the packet's id, at most 253 characters and the end mark.\<close>

definition console_printf ::
    "'e console_env_scheme \<Rightarrow> piece list \<Rightarrow> 'a board_scheme \<Rightarrow> 'a board_scheme option" where
  "console_printf env ps s =
     (let msg = concat (map render ps);
          len = length msg;
          print_buffer = PACKET_CONSOLE # take 253 msg @ [0]
      in if 0 < len then packet_send_packet env print_buffer (if len < 254 then len + 1 else 255) s
         else Some s)"

definition console_lines ::
    "'e console_env_scheme \<Rightarrow> piece list list \<Rightarrow> 'a board_scheme \<Rightarrow> 'a board_scheme option" where
  "console_lines env = fold_opt (console_printf env)"

subsection \<open>The arguments\<close>

text \<open>
  One call of strtok with the separator space on the rest of the command: the bytes it
  passed over (with the end mark it puts behind the token), the token and the new rest.
  A zero byte or the end of the list ends the command.
\<close>

definition strtok :: "u8 list \<Rightarrow> (u8 list \<times> u8 list \<times> u8 list) option" where
  "strtok bs =
     (let sp = takeWhile (\<lambda>b. b = 32) bs;
          r = dropWhile (\<lambda>b. b = 32) bs;
          tok = takeWhile (\<lambda>b. b \<noteq> 32 \<and> b \<noteq> 0) r;
          r' = dropWhile (\<lambda>b. b \<noteq> 32 \<and> b \<noteq> 0) r
      in if tok = [] then None
         else case r' of
             [] \<Rightarrow> Some (sp @ tok, tok, [])
           | b # r'' \<Rightarrow> if b = 32 then Some (sp @ tok @ [0], tok, r'') else Some (sp @ tok, tok, r'))"

definition kMaxArgs :: nat where "kMaxArgs = 64"

text \<open>
  The arguments, and the command with the end marks in it. The loop asks for one more word
  before it finds that there is no room for it.
\<close>

fun split_args :: "nat \<Rightarrow> u8 list \<Rightarrow> u8 list list \<times> u8 list" where
  "split_args 0 bs =
     ([], case strtok bs of None \<Rightarrow> bs | Some (passed, _, rest) \<Rightarrow> passed @ rest)"
| "split_args (Suc n) bs =
     (case strtok bs of
        None \<Rightarrow> ([], bs)
      | Some (passed, tok, rest) \<Rightarrow>
          let (args, bs') = split_args n rest in (tok # args, passed @ bs'))"

subsection \<open>Commands\<close>

definition ST2S :: "u32 \<Rightarrow> u32" where
  "ST2S n = (n + CH_CFG_ST_FREQUENCY - 1) div CH_CFG_ST_FREQUENCY"

definition CH_STATE_NAMES :: "string list" where
  "CH_STATE_NAMES =
     [''READY'', ''CURRENT'', ''WTSTART'', ''SUSPENDED'', ''QUEUED'', ''WTSEM'', ''WTMTX'',
      ''WTCOND'', ''SLEEPING'', ''WTEXIT'', ''WTOREVT'', ''WTANDEVT'', ''SNDMSGQ'',
      ''SNDMSG'', ''WTMSG'', ''FINAL'']"

definition print_thread ::
    "'e console_env_scheme \<Rightarrow> thread_info \<Rightarrow> 'a board_scheme \<Rightarrow> 'a board_scheme option" where
  "print_thread env tp s =
     (if length CH_STATE_NAMES \<le> th_state tp then None
      else console_printf env
        [Hex (th_addr tp), Txt '' '', Hex (th_r13 tp), Txt '' '', Uns 4 (th_prio tp), Txt '' '',
         Uns 4 (th_refs tp - 1), Txt '' '', Str 9 (bytes_of (CH_STATE_NAMES ! th_state tp)), Txt '' '',
         Str 14 (bytes_of (th_name tp)), Txt '' '', Uns 0 (th_time tp), NL] s)"

definition print_cell ::
    "'e console_env_scheme \<Rightarrow> nat \<Rightarrow> 'a ltc_scheme \<Rightarrow> 'a ltc_scheme option" where
  "print_cell env i s =
     (let cells = ltc6803_get_cell_voltages s in
      if length cells \<le> i then None
      else console_printf env [Txt ''Cell '', Dec 0 (int i + 1), Txt '': '', Fix 4 (cells ! i), Txt ''V'', NL] s)"

definition drain_cell :: "nat \<Rightarrow> 'a ltc_scheme \<Rightarrow> 'a ltc_scheme option" where
  "drain_cell i s = ltc6803_enable_balance (i + 1) s"

definition power_on_code :: "PowerOnEvent \<Rightarrow> int" where
  "power_on_code e =
     (case e of EVENT_SWITCH \<Rightarrow> 0 | EVENT_CHARGER \<Rightarrow> 1 | EVENT_USB \<Rightarrow> 2 | EVENT_RTCC \<Rightarrow> 3)"

definition run_command ::
    "'e console_env_scheme \<Rightarrow> u8 list \<Rightarrow> 'a can_scheme \<Rightarrow> 'a can_scheme option" where
  "run_command env cmd s =
     (let fin = Option.bind; bye = console_printf env [CR, NL] in
      if cmd = bytes_of ''ping'' then console_lines env [[Txt ''pong'', NL], [CR, NL]] s
      else if cmd = bytes_of ''mem'' then
        console_lines env
          [[Txt ''core free memory : '', Uns 0 (core_status env), Txt '' bytes'', NL],
           [Txt ''heap fragments   : '', Uns 0 (heap_fragments env), NL],
           [Txt ''heap free total  : '', Uns 0 (heap_free env), Txt '' bytes'', NL], [CR, NL]] s
      else if cmd = bytes_of ''threads'' then
        fin (fin (console_lines env
          [[Txt ''    addr    stack prio refs     state           name time    '', NL],
           [Txt ''-------------------------------------------------------------'', NL]] s)
          (fold_opt (print_thread env) (thread_first env # thread_rest env))) bye
      else if cmd = bytes_of ''uptime'' then
        (let (t, s1) = chVTGetSystemTime s in
         console_lines env [[Txt ''System uptime: '', Dec 0 (sint (ST2S t)), Txt '' seconds'', NL], [CR, NL]] s1)
      else if cmd = bytes_of ''cell_voltages'' then
        fin (fold_opt (print_cell env) [0..<numCells s] s) bye
      else if cmd = bytes_of ''current'' then
        console_lines env [[Txt ''Battery current: '', Fix 2 (current_monitor_get_current s), Txt ''A'', NL], [CR, NL]] s
      else if cmd = bytes_of ''voltage'' then
        console_lines env [[Txt ''Bus voltage: '', Fix 2 (current_monitor_get_bus_voltage s), Txt ''V'', NL], [CR, NL]] s
      else if cmd = bytes_of ''temp'' then
        console_lines env
          [[Txt ''Board temperature: '', Fix 2 (analog_temperature (logf env) s), Txt '' degrees C'', NL], [CR, NL]] s
      else if cmd = bytes_of ''charger_voltage'' then
        console_lines env
          [[Txt ''Charger input voltage: '', Fix 2 (analog_charger_input_voltage s), Txt ''V'', NL], [CR, NL]] s
      else if cmd = bytes_of ''power_on_event'' then
        console_lines env [[Txt ''Power on event: '', Dec 0 (power_on_code (power_get_power_on_event s)), NL], [CR, NL]] s
      else if cmd = bytes_of ''rtcc'' then
        (let t = rtcc_get_time s in
         console_lines env
           [[Txt ''RTCC time: '', Dec 0 (uint (month t)), Txt ''/'', Dec 0 (uint (day t)), Txt ''/'',
             Dec 4 (uint (year t)), Txt '' '', Dec 2 (uint (hour t)), Txt '':'', Dec 2 (uint (minute t)),
             Txt '':'', Dec 2 (uint (second t)), NL], [CR, NL]] s)
      else if cmd = bytes_of ''enable_drain'' then
        fin (fin (console_printf env [Txt ''Enabling all balance resistors...'', NL] s)
          (fold_opt drain_cell [0..<numCells s])) (\<lambda>s1. bye (ltc6803_lock s1))
      else if cmd = bytes_of ''disable_drain'' then
        fin (console_printf env [Txt ''Disabling all balance resistors...'', NL] s)
          (\<lambda>s1. bye (ltc6803_disable_balance_all (ltc6803_unlock s1)))
      else if cmd = bytes_of ''infinity_current'' then
        console_lines env [[Txt ''Current: '', Fix 6 (comm_can_get_infinity_current s), NL], [CR, NL]] s
      else console_lines env [[Str 0 cmd, Txt '': command not found'', NL], [CR, NL]] s)"

definition console_process_command ::
    "'e console_env_scheme \<Rightarrow> u8 list \<Rightarrow> 'a can_scheme \<Rightarrow> (u8 list \<times> 'a can_scheme) option" where
  "console_process_command env command s =
     (let (argv, command') = split_args kMaxArgs command in
      map_option (Pair command')
        (case argv of
           [] \<Rightarrow> console_lines env [[Txt ''No command received'', NL], [CR, NL]] s
         | cmd # _ \<Rightarrow> run_command env cmd s))"

subsection \<open>What is sent\<close>

text \<open>One message on the line, under the mutex of the sender.\<close>

definition sent :: "u8 list \<Rightarrow> 'a board_scheme \<Rightarrow> 'a board_scheme" where
  "sent f s = emit (Mtx_Unlock SEND_MUTEX) (emit (Stream_Send f) (emit (Mtx_Lock SEND_MUTEX) s))"

definition packet_frame :: "(u8 list \<Rightarrow> u16) \<Rightarrow> u8 list \<Rightarrow> u8 list" where
  "packet_frame crc d = packet_header (length d) @ d @ [hi8 (crc d), lo8 (crc d), PACKET_END]"

lemma packet_sent:
  "n \<le> length data \<Longrightarrow> n \<le> 506 \<Longrightarrow>
   packet_send_packet env data n s = Some (sent (packet_frame (crc16 env) (take n data)) s)"
  by (auto simp: packet_send_packet_def packet_frame_def comm_usb_send_def sent_def packet_header_def
      Let_def min_absorb2)

lemma packet_too_long: "506 < n \<Longrightarrow> packet_send_packet env data n s = None"
  by (simp add: packet_send_packet_def packet_header_def)

lemma sent_frame: "\<exists>n es. sent f s = s\<lparr>ios := n, events := es\<rparr>"
  by (auto simp: sent_def emit_def)

lemma frame_trans:
  "\<exists>n es. s1 = s\<lparr>ios := n, events := es\<rparr> \<Longrightarrow> \<exists>n es. s2 = s1\<lparr>ios := n, events := es\<rparr> \<Longrightarrow>
   \<exists>n es. s2 = s\<lparr>ios := n, events := es\<rparr>" for s :: "'a board_scheme"
  by (elim exE, simp, intro exI, rule refl)

text \<open>The console never overruns the sender's buffer: it sends at most 255 bytes.\<close>

lemma console_printf_sends:
  "console_printf env ps s =
     (let msg = concat (map render ps) in
      Some (if msg = [] then s
            else sent (packet_frame (crc16 env)
              (PACKET_CONSOLE # take 253 msg @ (if length msg < 254 then [] else [0]))) s))"
proof -
  let ?m = "concat (map render ps)"
  have "packet_send_packet env (PACKET_CONSOLE # take 253 ?m @ [0])
      (if length ?m < 254 then length ?m + 1 else 255) s =
    Some (sent (packet_frame (crc16 env)
      (PACKET_CONSOLE # take 253 ?m @ (if length ?m < 254 then [] else [0]))) s)"
    by (subst packet_sent) (auto simp: min_def)
  then show ?thesis by (simp add: console_printf_def Let_def)
qed

lemma console_printf_frame:
  "\<exists>s'. console_printf env ps s = Some s' \<and> (\<exists>n es. s' = s\<lparr>ios := n, events := es\<rparr>)"
proof -
  have "\<exists>n es. s = s\<lparr>ios := n, events := es\<rparr>" by (intro exI[of _ "ios s"] exI[of _ "events s"]) simp
  then show ?thesis unfolding console_printf_sends Let_def using sent_frame by (auto split: if_splits)
qed

lemma console_lines_frame:
  "\<exists>s'. console_lines env ls s = Some s' \<and> (\<exists>n es. s' = s\<lparr>ios := n, events := es\<rparr>)"
proof (induction ls arbitrary: s)
  case Nil
  show ?case by (auto simp: console_lines_def intro!: exI[of _ "ios s"] exI[of _ "events s"])
next
  case (Cons l ls)
  obtain s1 where s1: "console_printf env l s = Some s1" "\<exists>n es. s1 = s\<lparr>ios := n, events := es\<rparr>"
    using console_printf_frame by blast
  obtain s2 where "console_lines env ls s1 = Some s2" "\<exists>n es. s2 = s1\<lparr>ios := n, events := es\<rparr>"
    using Cons.IH by blast
  with s1 frame_trans[OF s1(2)] show ?case by (auto simp: console_lines_def)
qed

subsection \<open>Words of a command\<close>

lemma of_char_inject: "(of_char c :: u8) = of_char d \<longleftrightarrow> c = d"
proof -
  have "(of_nat (of_char c) :: u8) = of_nat (of_char d) \<longleftrightarrow> (of_char c :: nat) = of_char d"
    by (simp add: word_of_nat_eq_iff take_bit_nat_eq_self)
  then show ?thesis by (simp add: of_nat_of_char)
qed

lemma bytes_of_inject [simp]: "bytes_of a = bytes_of b \<longleftrightarrow> a = b"
  by (simp add: bytes_of_def inj_map_eq_map inj_def of_char_inject)

definition word_like :: "u8 list \<Rightarrow> bool" where
  "word_like w \<longleftrightarrow> w \<noteq> [] \<and> 32 \<notin> set w \<and> 0 \<notin> set w"

lemma span_word:
  assumes "word_like w" and "b = 32 \<or> b = 0"
  shows "takeWhile (\<lambda>b. b = 32) (w @ b # r) = []" "dropWhile (\<lambda>b. b = 32) (w @ b # r) = w @ b # r"
    "takeWhile (\<lambda>b. b \<noteq> 32 \<and> b \<noteq> 0) (w @ b # r) = w" "dropWhile (\<lambda>b. b \<noteq> 32 \<and> b \<noteq> 0) (w @ b # r) = b # r"
proof -
  have "\<forall>x\<in>set w. x \<noteq> 32 \<and> x \<noteq> 0" using assms(1) by (auto simp: word_like_def)
  then show "takeWhile (\<lambda>b. b \<noteq> 32 \<and> b \<noteq> 0) (w @ b # r) = w"
    "dropWhile (\<lambda>b. b \<noteq> 32 \<and> b \<noteq> 0) (w @ b # r) = b # r"
    using assms(2) by (auto simp: takeWhile_append2 dropWhile_append2)
  show "takeWhile (\<lambda>b. b = 32) (w @ b # r) = []" "dropWhile (\<lambda>b. b = 32) (w @ b # r) = w @ b # r"
    using assms(1) by (cases w; auto simp: word_like_def)+
qed

lemma strtok_word:
  "word_like w \<Longrightarrow> strtok (w @ 32 # r) = Some (w @ [0], w, r)"
  "word_like w \<Longrightarrow> strtok (w @ 0 # r) = Some (w, w, 0 # r)"
  "strtok (0 # r) = None"
  by (simp_all add: strtok_def span_word Let_def word_like_def)

primrec command_line :: "u8 \<Rightarrow> u8 list list \<Rightarrow> u8 list" where
  "command_line sep [] = []"
| "command_line sep (w # ws) = w @ (if ws = [] then 0 else sep) # command_line sep ws"

text \<open>Words with single spaces between them come back as the arguments; the spaces become ends.\<close>

lemma split_args_words:
  "ws \<noteq> [] \<Longrightarrow> \<forall>w\<in>set ws. word_like w \<Longrightarrow> length ws \<le> n \<Longrightarrow>
   split_args n (command_line 32 ws) = (ws, command_line 0 ws)"
proof (induction ws arbitrary: n)
  case (Cons w ws)
  then obtain m where n: "n = Suc m" by (cases n) auto
  show ?case
  proof (cases "ws = []")
    case True
    then show ?thesis using Cons.prems n by (cases m) (simp_all add: strtok_word)
  next
    case False
    with Cons n show ?thesis by (simp add: strtok_word)
  qed
qed simp

subsection \<open>Draining the cells\<close>

lemma drain_loop:
  fixes s :: "'a ltc_scheme"
  assumes "n \<le> numCells s" and "numCells s \<le> 12" and "length (configReg s) = 6" and "\<not> balance_lock s"
  shows "\<exists>s'. fold_opt drain_cell [0..<n] s = Some s' \<and> (\<exists>r. s' = s\<lparr>configReg := r\<rparr> \<and> length r = 6) \<and>
    (\<forall>d. 1 \<le> d \<and> d \<le> 12 \<longrightarrow> balanced s' d = (d \<le> n \<or> balanced s d))"
  using assms(1)
proof (induction n)
  case 0
  have "\<exists>r. s = s\<lparr>configReg := r\<rparr> \<and> length r = 6"
    using assms(3) by (intro exI[of _ "configReg s"]) simp
  then show ?case by simp
next
  case (Suc n)
  then have "n \<le> numCells s" by simp
  from Suc.IH[OF this] obtain t r where t: "fold_opt drain_cell [0..<n] s = Some t"
    "t = s\<lparr>configReg := r\<rparr>" "length r = 6"
    "\<forall>d. 1 \<le> d \<and> d \<le> 12 \<longrightarrow> balanced t d = (d \<le> n \<or> balanced s d)" by blast
  have T: "numCells t = numCells s" "length (configReg t) = 6" "\<not> balance_lock t"
    using t(2,3) assms(4) by (simp_all add: numCells_def)
  obtain u where u: "ltc6803_enable_balance (Suc n) t = Some u"
    using switch_balance[of "Suc n" t 1] Suc.prems assms(2) T by auto
  have bits: "balanced u d = (balanced t d \<or> d = Suc n)" if "1 \<le> d" "d \<le> 12" for d
    using switch_balance[of "Suc n" t d] Suc.prems assms(2) T u that by auto
  obtain q where q: "u = t\<lparr>configReg := q\<rparr>" "length q = 6"
    using balance_frame[of "Suc n" t u] u T(2) by auto
  then have "\<exists>r. u = s\<lparr>configReg := r\<rparr> \<and> length r = 6" using t(2) by (intro exI[of _ q]) simp
  moreover have "fold_opt drain_cell [0..<Suc n] s = Some u"
    using t(1) u by (simp add: fold_opt_append drain_cell_def)
  moreover have "\<forall>d. 1 \<le> d \<and> d \<le> 12 \<longrightarrow> balanced u d = (d \<le> Suc n \<or> balanced s d)"
    using t(4) bits by (simp add: le_Suc_eq) blast
  ultimately show ?case by blast
qed

lemma one_word: "word_like w \<Longrightarrow> split_args kMaxArgs (w @ [0]) = ([w], w @ [0])"
  using split_args_words[of "[w]" kMaxArgs] by (simp add: kMaxArgs_def)

lemma word_like_bytes:
  "word_like (bytes_of t) \<longleftrightarrow> t \<noteq> [] \<and> CHR '' '' \<notin> set t \<and> CHR 0x00 \<notin> set t"
proof -
  have i: "inj (of_char :: char \<Rightarrow> u8)" by (simp add: inj_def of_char_inject)
  have "of_char CHR '' '' = (32 :: u8)" "of_char CHR 0x00 = (0 :: u8)" by simp_all
  then have "32 \<in> (of_char ` set t :: u8 set) \<longleftrightarrow> CHR '' '' \<in> set t"
    "0 \<in> (of_char ` set t :: u8 set) \<longleftrightarrow> CHR 0x00 \<in> set t"
    using inj_image_mem_iff[OF i, of "CHR '' ''" "set t"] inj_image_mem_iff[OF i, of "CHR 0x00" "set t"]
    by argo+
  then show ?thesis by (simp add: word_like_def bytes_of_def)
qed

lemma drain_commands:
  "split_args kMaxArgs (bytes_of ''enable_drain'' @ [0]) = ([bytes_of ''enable_drain''], bytes_of ''enable_drain'' @ [0])"
  "split_args kMaxArgs (bytes_of ''disable_drain'' @ [0]) = ([bytes_of ''disable_drain''], bytes_of ''disable_drain'' @ [0])"
  by (rule one_word, simp add: word_like_bytes)+

lemma run_enable_drain:
  "run_command env (bytes_of ''enable_drain'') s =
     Option.bind (Option.bind (console_printf env [Txt ''Enabling all balance resistors...'', NL] s)
       (fold_opt drain_cell [0..<numCells s])) (\<lambda>s1. console_printf env [CR, NL] (ltc6803_lock s1))"
  by (simp add: run_command_def)

lemma run_disable_drain:
  "run_command env (bytes_of ''disable_drain'') s =
     Option.bind (console_printf env [Txt ''Disabling all balance resistors...'', NL] s)
       (\<lambda>s1. console_printf env [CR, NL] (ltc6803_disable_balance_all (ltc6803_unlock s1)))"
  by (simp add: run_command_def)

lemma balanced_printed [simp]: "balanced (s\<lparr>ios := n, events := es\<rparr>) d = balanced s d"
  by (simp add: balanced_def)

lemma numCells_printed [simp]: "numCells (s\<lparr>ios := n, events := es\<rparr>) = numCells s"
  by (simp add: numCells_def)

lemma enable_drain_result:
  fixes s :: "'a can_scheme"
  assumes "numCells s \<le> 12" and "length (configReg s) = 6" and "\<not> balance_lock s"
  shows "\<exists>s1. console_process_command env (bytes_of ''enable_drain'' @ [0]) s =
      Some (bytes_of ''enable_drain'' @ [0], s1) \<and> balance_lock s1 \<and> length (configReg s1) = 6 \<and>
      (\<forall>d. 1 \<le> d \<and> d \<le> 12 \<longrightarrow> balanced s1 d = (d \<le> numCells s \<or> balanced s d))"
proof -
  obtain n es where t: "console_printf env [Txt ''Enabling all balance resistors...'', NL] s =
      Some (s\<lparr>ios := n, events := es\<rparr>)"
    using console_printf_frame by blast
  let ?t = "s\<lparr>ios := n, events := es\<rparr>"
  obtain u r where u: "fold_opt drain_cell [0..<numCells s] ?t = Some u" "u = ?t\<lparr>configReg := r\<rparr>" "length r = 6"
    "\<And>d. 1 \<le> d \<Longrightarrow> d \<le> 12 \<Longrightarrow> balanced u d = (d \<le> numCells s \<or> balanced s d)"
    using drain_loop[of "numCells s" ?t] assms by auto
  obtain m fs where v: "console_printf env [CR, NL] (ltc6803_lock u) = Some ((ltc6803_lock u)\<lparr>ios := m, events := fs\<rparr>)"
    using console_printf_frame by blast
  let ?v = "(ltc6803_lock u)\<lparr>ios := m, events := fs\<rparr>"
  have b: "balanced ?v d = balanced u d" for d by (simp add: balanced_def ltc6803_lock_def)
  have l: "balance_lock ?v" "length (configReg ?v) = 6" using u(2,3) by (simp_all add: ltc6803_lock_def)
  have "console_process_command env (bytes_of ''enable_drain'' @ [0]) s =
      Some (bytes_of ''enable_drain'' @ [0], ?v)"
    unfolding console_process_command_def drain_commands(1) Let_def prod.case list.case run_enable_drain t
      bind.bind_lunit u(1) v by simp
  then show ?thesis using l u(4) b by blast
qed

lemma disable_drain_result:
  fixes s :: "'a can_scheme"
  assumes "length (configReg s) = 6"
  shows "\<exists>s1. console_process_command env (bytes_of ''disable_drain'' @ [0]) s =
      Some (bytes_of ''disable_drain'' @ [0], s1) \<and> \<not> balance_lock s1 \<and> (\<forall>d. \<not> balanced s1 d)"
proof -
  obtain n es where t: "console_printf env [Txt ''Disabling all balance resistors...'', NL] s =
      Some (s\<lparr>ios := n, events := es\<rparr>)"
    using console_printf_frame by blast
  let ?u = "ltc6803_disable_balance_all (ltc6803_unlock (s\<lparr>ios := n, events := es\<rparr>))"
  obtain m fs where v: "console_printf env [CR, NL] ?u = Some (?u\<lparr>ios := m, events := fs\<rparr>)"
    using console_printf_frame by blast
  have b: "\<not> balanced (?u\<lparr>ios := m, events := fs\<rparr>) d" for d
    using assms by (simp add: balanced_def ltc6803_disable_balance_all_def ltc6803_unlock_def)
  have l: "\<not> balance_lock (?u\<lparr>ios := m, events := fs\<rparr>)"
    by (simp add: ltc6803_disable_balance_all_def ltc6803_unlock_def)
  have "console_process_command env (bytes_of ''disable_drain'' @ [0]) s =
      Some (bytes_of ''disable_drain'' @ [0], ?u\<lparr>ios := m, events := fs\<rparr>)"
    unfolding console_process_command_def drain_commands(2) Let_def prod.case list.case run_disable_drain t
      bind.bind_lunit v by simp
  then show ?thesis using l b by blast
qed

text \<open>
  The command enable_drain, received on an unlocked pack of at most twelve cells,
  switches on the resistor of every cell and locks the switches, so that neither the
  charger's balancing nor its clean-up changes them; disable_drain, whenever it comes,
  switches all of them off and unlocks.
\<close>

theorem console_drain:
  fixes s :: "'a can_scheme"
  assumes "numCells s \<le> 12" and "length (configReg s) = 6" and "\<not> balance_lock s"
  shows "\<exists>c s1. console_process_command env (bytes_of ''enable_drain'' @ [0]) s = Some (c, s1) \<and>
    (\<forall>d. 1 \<le> d \<and> d \<le> 12 \<longrightarrow> balanced s1 d = (d \<le> numCells s \<or> balanced s d)) \<and>
    ltc6803_disable_balance_all s1 = s1 \<and>
    (\<forall>k. ltc6803_enable_balance k s1 = Some s1 \<and> ltc6803_disable_balance k s1 = Some s1) \<and>
    (\<exists>c' s2. console_process_command env (bytes_of ''disable_drain'' @ [0]) s1 = Some (c', s2) \<and>
      \<not> balance_lock s2 \<and> (\<forall>d. \<not> balanced s2 d))"
proof -
  obtain c s1 where s1: "console_process_command env (bytes_of ''enable_drain'' @ [0]) s = Some (c, s1)"
    "balance_lock s1" "length (configReg s1) = 6"
    "\<forall>d. 1 \<le> d \<and> d \<le> 12 \<longrightarrow> balanced s1 d = (d \<le> numCells s \<or> balanced s d)"
    using enable_drain_result[OF assms] by blast
  moreover obtain c' s2 where "console_process_command env (bytes_of ''disable_drain'' @ [0]) s1 = Some (c', s2)"
    "\<not> balance_lock s2" "\<forall>d. \<not> balanced s2 d" using disable_drain_result[OF s1(3)] by blast
  moreover have "ltc6803_disable_balance_all s1 = s1"
    "\<And>k. ltc6803_enable_balance k s1 = Some s1 \<and> ltc6803_disable_balance k s1 = Some s1"
    using s1(2) by (simp_all add: ltc6803_disable_balance_all_def ltc6803_enable_balance_def
        ltc6803_disable_balance_def)
  ultimately show ?thesis by blast
qed

definition drain_env :: console_env where
  "drain_env = \<lparr>crc16 = (\<lambda>_. 0), logf = id, core_status = 0, heap_fragments = 0, heap_free = 0,
     thread_first = \<lparr>th_addr = 0, th_r13 = 0, th_prio = 0, th_refs = 1, th_state = 0, th_name = ''main'', th_time = 0\<rparr>,
     thread_rest = []\<rparr>"

definition undrained :: "can \<Rightarrow> can" where
  "undrained s = s\<lparr>config := replicate sizeof_Config 12, configReg := replicate 6 0, balance_lock := False\<rparr>"

lemma console_drain_witness:
  "\<forall>s. \<exists>c s1. console_process_command drain_env (bytes_of ''enable_drain'' @ [0]) (undrained s) = Some (c, s1) \<and>
    balanced s1 12"
proof
  fix s
  have n: "numCells (undrained s) = 12"
    by (simp add: numCells_def undrained_def sizeof_Config_def off_numCells_def)
  have "length (configReg (undrained s)) = 6" "\<not> balance_lock (undrained s)" by (simp_all add: undrained_def)
  with console_drain[of "undrained s" drain_env] n
  obtain c s1 where "console_process_command drain_env (bytes_of ''enable_drain'' @ [0]) (undrained s) = Some (c, s1)"
    "\<forall>d. 1 \<le> d \<and> d \<le> 12 \<longrightarrow> balanced s1 d = (d \<le> 12 \<or> balanced (undrained s) d)" by auto
  then show "\<exists>c s1. console_process_command drain_env (bytes_of ''enable_drain'' @ [0]) (undrained s) = Some (c, s1) \<and>
    balanced s1 12" by auto
qed

end
