(* ===== verification/Frame.thy ===== *)
theory Frame
  imports Config
begin

text \<open>
  What the flash driver, the EEPROM emulation and the configuration's writing loop leave
  alone: every field of the state beyond their own. \<open>keeps_board\<close> says that an operation
  changes the fields of the flash device and the EEPROM only; the collection \<open>keeps\<close>
  carries it through the operations.
\<close>

named_theorems keeps

subsection \<open>The flash driver\<close>

lemma hw_more [keeps]:
  "flash.more (snd (hw_read_SR f)) = flash.more f" "flash.more (hw_run u f) = flash.more f"
  "flash.more (hw_store16 a d f) = flash.more f" "flash.more (hw_write_CR v f) = flash.more f"
  "flash.more (hw_write_KEYR k f) = flash.more f" "flash.more (hw_write_SR v f) = flash.more f"
  by (auto simp: hw_read_SR_def hw_run_def hw_store16_def hw_write_CR_def hw_write_KEYR_def
      hw_write_SR_def split: list.splits op_outcome.splits)

lemma GetStatus_more [keeps]: "flash.more (snd (FLASH_GetStatus f)) = flash.more f"
  by (simp add: FLASH_GetStatus_def Let_def split_beta keeps)

lemma wait_loop_more [keeps]: "flash.more (snd (snd (wait_loop t st f))) = flash.more f"
proof (induction t arbitrary: st f)
  case 0
  then show ?case by (subst wait_loop.simps) simp
next
  case (Suc t)
  then show ?case by (subst wait_loop.simps) (simp add: split_beta keeps)
qed

lemma driver_more [keeps]:
  "flash.more (snd (FLASH_WaitForLastOperation t f)) = flash.more f"
  "flash.more (snd (FLASH_ErasePage a f)) = flash.more f"
  "flash.more (snd (FLASH_ProgramHalfWord a d f)) = flash.more f"
  "flash.more (FLASH_Unlock f) = flash.more f" "flash.more (FLASH_ClearFlag m f) = flash.more f"
proof -
  show w: "flash.more (snd (FLASH_WaitForLastOperation t f)) = flash.more f" for t and f :: "'a flash_scheme"
    by (simp add: FLASH_WaitForLastOperation_def Let_def split_beta keeps)
  show "flash.more (snd (FLASH_ErasePage a f)) = flash.more f"
    by (simp add: FLASH_ErasePage_def Let_def split_beta keeps w)
  show "flash.more (snd (FLASH_ProgramHalfWord a d f)) = flash.more f"
    by (simp add: FLASH_ProgramHalfWord_def Let_def split_beta keeps w)
  show "flash.more (FLASH_Unlock f) = flash.more f" by (simp add: FLASH_Unlock_def keeps)
  show "flash.more (FLASH_ClearFlag m f) = flash.more f" by (simp add: FLASH_ClearFlag_def keeps)
qed

subsection \<open>The EEPROM emulation\<close>

lemma flash_more_ee: "flash.more s = flash.more t \<Longrightarrow> ee.more s = ee.more t"
  by (cases s, cases t) simp

definition keeps_board :: "('a ee_scheme \<Rightarrow> 'r \<times> 'a ee_scheme) \<Rightarrow> bool" where
  "keeps_board m \<longleftrightarrow> (\<forall>s. ee.more (snd (m s)) = ee.more s)"

lemma keeps_boardD [simp]: "keeps_board m \<Longrightarrow> ee.more (snd (m s)) = ee.more s"
  by (simp add: keeps_board_def)

lemma keeps_boardI: "(\<And>s. ee.more (snd (m s)) = ee.more s) \<Longrightarrow> keeps_board m"
  by (simp add: keeps_board_def)

lemma keeps_check [keeps]: "keeps_board m \<Longrightarrow> keeps_board k \<Longrightarrow> keeps_board (ee_check m k)"
  by (rule keeps_boardI) (simp add: ee_check_def split_beta)

lemma keeps_return [keeps]: "keeps_board (\<lambda>s. (st, s))"
  by (rule keeps_boardI) simp

lemma keeps_program [keeps]: "keeps_board (ee_program a d)" "keeps_board (ee_erase a)"
  by (rule keeps_boardI, simp add: ee_program_def ee_erase_def split_beta, rule flash_more_ee, simp add: keeps)+

lemma keeps_if [keeps]: "keeps_board m \<Longrightarrow> keeps_board k \<Longrightarrow> keeps_board (if b then m else k)"
  by simp

lemma keeps_verify [keeps]: "keeps_board (EE_VerifyPageFullWriteVariable v d)"
  by (rule keeps_boardI)
    (simp add: EE_VerifyPageFullWriteVariable_def Let_def keeps split: option.splits)

lemma keeps_transfer_var [keeps]: "keeps_board (ee_transfer_var v)"
proof (rule keeps_boardI)
  fix s
  have "ee.more (case data of None \<Rightarrow> s | Some d \<Rightarrow> s\<lparr>DataVar := d\<rparr>) = ee.more s" for data
    by (cases data) simp_all
  then show "ee.more (snd (ee_transfer_var v s)) = ee.more s"
    by (simp add: ee_transfer_var_def Let_def split_beta keeps_boardD[OF keeps_verify])
qed

lemma keeps_transfer_loop [keeps]: "keeps_board (ee_transfer_loop v vs :: 'a ee_scheme \<Rightarrow> _)"
proof (induction vs)
  case (Cons w vs)
  then have "keeps_board (ee_check (ee_transfer_var w) (ee_transfer_loop v vs) :: 'a ee_scheme \<Rightarrow> _)" by (intro keeps)
  with Cons show ?case by (auto simp: keeps_board_def)
qed (simp add: keeps_board_def)

lemma keeps_PageTransfer [keeps]: "keeps_board (EE_PageTransfer v d :: 'a ee_scheme \<Rightarrow> _)"
proof (rule keeps_boardI)
  fix s :: "'a ee_scheme"
  have all: "keeps_board (ee_check (ee_program a RECEIVE_DATA) (ee_check (EE_VerifyPageFullWriteVariable v d)
      (ee_check (ee_transfer_loop v vs) (ee_check (ee_erase b) (ee_program a VALID_PAGE)))) :: 'a ee_scheme \<Rightarrow> _)" for a b vs
    by (intro keeps)
  then show "ee.more (snd (EE_PageTransfer v d s)) = ee.more s"
    by (simp add: EE_PageTransfer_def Let_def keeps_boardD[OF all])
qed

lemma keeps_WriteVariable [keeps]: "keeps_board (EE_WriteVariable v d)"
  by (intro keeps_boardI)
    (simp add: EE_WriteVariable_def split_beta keeps_boardD[OF keeps_PageTransfer] keeps_boardD[OF keeps_verify])

lemma keeps_Format [keeps]: "keeps_board (EE_Format :: 'a ee_scheme \<Rightarrow> _)"
  unfolding EE_Format_def by (intro keeps)

lemma keeps_init_loop [keeps]: "keeps_board (ee_init_loop base n x vs :: 'a ee_scheme \<Rightarrow> _)"
proof (induction vs arbitrary: n x)
  case (Cons v vs)
  have c: "keeps_board (ee_check (ee_transfer_var v) (ee_init_loop base m y vs) :: 'a ee_scheme \<Rightarrow> _)" for m y
    by (intro keeps Cons.IH)
  show ?case
    by (rule keeps_boardI) (simp add: Let_def keeps_boardD[OF c] keeps_boardD[OF Cons.IH])
qed (simp add: keeps_board_def)

lemma keeps_init_cases:
  "keeps_board (ee_init_erased st :: 'a ee_scheme \<Rightarrow> _)"
  "keeps_board (ee_init_receive st :: 'a ee_scheme \<Rightarrow> _)"
  "keeps_board (ee_init_valid st :: 'a ee_scheme \<Rightarrow> _)"
proof -
  have c: "keeps_board (ee_check (ee_init_loop b 0 (-1) vs) (ee_check (ee_program a d) (ee_erase e)) :: 'a ee_scheme \<Rightarrow> _)"
    "keeps_board (ee_check (ee_erase e) (ee_program a d) :: 'a ee_scheme \<Rightarrow> _)" for b vs a d e
    by (intro keeps)+
  show "keeps_board (ee_init_erased st :: 'a ee_scheme \<Rightarrow> _)"
    unfolding ee_init_erased_def by (intro keeps)
  show "keeps_board (ee_init_receive st :: 'a ee_scheme \<Rightarrow> _)" "keeps_board (ee_init_valid st :: 'a ee_scheme \<Rightarrow> _)"
    by (rule keeps_boardI, simp add: ee_init_receive_def ee_init_valid_def keeps_boardD[OF c(1)]
        keeps_boardD[OF c(2)] keeps_boardD[OF keeps_Format] keeps_boardD[OF keeps_program(2)])+
qed

lemma keeps_Init [keeps]: "keeps_board (EE_Init :: 'a ee_scheme \<Rightarrow> _)"
  by (rule keeps_boardI)
    (simp add: EE_Init_def Let_def keeps_boardD[OF keeps_init_cases(1)] keeps_boardD[OF keeps_init_cases(2)]
      keeps_boardD[OF keeps_init_cases(3)] keeps_boardD[OF keeps_Format])

subsection \<open>The fields beyond\<close>

lemma ee_more_update:
  assumes "ee.more s = ee.more t"
  shows "\<exists>c cr sr ar b k p w dv tab. s = t\<lparr>cells := c, CR := cr, SR := sr, AR := ar, busy := b, key1 := k,
    plan := p, powered := w, DataVar := dv, VirtAddVarTab := tab\<rparr>"
  using assms
  by (intro exI[of _ "cells s"] exI[of _ "CR s"] exI[of _ "SR s"] exI[of _ "AR s"] exI[of _ "busy s"]
      exI[of _ "key1 s"] exI[of _ "plan s"] exI[of _ "powered s"] exI[of _ "DataVar s"]
      exI[of _ "VirtAddVarTab s"]) simp

lemma config_write_loop_more: "ee.more (snd (config_write_loop is s)) = ee.more s"
  by (induction "is" arbitrary: s) (simp_all add: Let_def split_beta keeps)

lemma config_write_loop_frame:
  "\<exists>c cr sr ar b k p w dv tab. snd (config_write_loop is s) =
     s\<lparr>cells := c, CR := cr, SR := sr, AR := ar, busy := b, key1 := k,
       plan := p, powered := w, DataVar := dv, VirtAddVarTab := tab\<rparr>"
  by (rule ee_more_update[OF config_write_loop_more])

end
