(* ===== verification/Fw_Updater.thy ===== *)
theory Fw_Updater
  imports Comm_Usb Frame
begin

text \<open>
  The firmware update over USB (fw_updater.c): erasing and programming the area of the new
  image, and the jump into the bootloader. A read past the received data is None. The locks
  of \<open>utils_sys_lock_cnt\<close> are events; \<open>lock_depth\<close> counts them.
\<close>

definition BOOTLOADER_ADDR :: u32 where "BOOTLOADER_ADDR = 0x08030000"
definition FIRMWARE_ADDR :: u32 where "FIRMWARE_ADDR = 0x08000000"
definition NEW_FW_ADDR :: u32 where "NEW_FW_ADDR = 0x08018000"
definition FW_NUM_PAGES :: nat where "FW_NUM_PAGES = 48"

subsection \<open>Programming\<close>

text \<open>The loop; \<open>Some st\<close> is the return out of it with a status, None its end.\<close>

function fw_write_loop ::
    "nat \<Rightarrow> nat \<Rightarrow> u32 \<Rightarrow> u8 list \<Rightarrow> 'a board_scheme \<Rightarrow>
     (FLASH_Status option \<times> 'a board_scheme) option" where
  "fw_write_loop i len offset data s =
     (if i < len then
        if length data \<le> i + 1 then None
        else
          let (res, s1) = FLASH_ProgramHalfWord (NEW_FW_ADDR + offset + of_nat i)
                (be16 (data ! (i + 1)) (data ! i)) s
          in if res \<noteq> FLASH_COMPLETE then Some (Some res, s1)
             else fw_write_loop (i + 2) len offset data s1
      else Some (None, s))"
  by pat_completeness auto
termination
  by (relation "measure (\<lambda>(i, len, _). len - i)") auto

declare fw_write_loop.simps [simp del]

definition fw_updater_write_firmware ::
    "u32 \<Rightarrow> u8 list \<Rightarrow> u32 \<Rightarrow> 'a board_scheme \<Rightarrow> (u16 \<times> 'a board_scheme) option" where
  "fw_updater_write_firmware offset data len s =
     (let s1 = emit Sys_Lock (FLASH_ClearFlag (FLASH_FLAG_PGERR OR FLASH_FLAG_WRPERR) s) in
      case fw_write_loop 0 (unat len) offset data s1 of
        None \<Rightarrow> None
      | Some (Some res, s2) \<Rightarrow> Some (status_code res, s2)
      | Some (None, s2) \<Rightarrow> Some (status_code FLASH_COMPLETE, emit Sys_Unlock s2))"

subsection \<open>Erasing\<close>

primrec fw_erase_loop :: "nat list \<Rightarrow> 'a board_scheme \<Rightarrow> FLASH_Status option \<times> 'a board_scheme" where
  "fw_erase_loop [] s = (None, s)"
| "fw_erase_loop (i # is) s =
     (let (res, s1) = FLASH_ErasePage (NEW_FW_ADDR + of_nat i * 2048) s in
      if res \<noteq> FLASH_COMPLETE then (Some res, s1) else fw_erase_loop is s1)"

definition fw_updater_erase_new_firmware :: "'a board_scheme \<Rightarrow> u16 \<times> 'a board_scheme" where
  "fw_updater_erase_new_firmware s =
     (let s1 = emit Sys_Lock (FLASH_ClearFlag (FLASH_FLAG_PGERR OR FLASH_FLAG_WRPERR) (FLASH_Unlock s))
      in case fw_erase_loop [0..<FW_NUM_PAGES] s1 of
           (Some res, s2) \<Rightarrow> (status_code res, s2)
         | (None, s2) \<Rightarrow> (status_code FLASH_COMPLETE, emit Sys_Unlock s2))"

subsection \<open>The jump into the bootloader\<close>

definition SCB_ICSR_PENDSVCLR_Msk :: u32 where "SCB_ICSR_PENDSVCLR_Msk = push_bit 27 1"

text \<open>A word of the flash memory, read as the processor reads it.\<close>

definition flash_word :: "u32 \<Rightarrow> 'a flash_scheme \<Rightarrow> u32" where
  "flash_word a f = push_bit 16 (ucast (cells f (unat a + 2))) OR ucast (cells f (unat a))"

definition clear_interrupts :: "nat \<Rightarrow> 'a board_scheme \<Rightarrow> 'a board_scheme" where
  "clear_interrupts i s = emit (Mmio_Put (NVIC_ICER i) (nvic_active s (ios s) i)) s"

definition fw_updater_jump_bootloader :: "'a usb_scheme \<Rightarrow> 'a usb_scheme" where
  "fw_updater_jump_bootloader s =
     (let s1 = emit Sys_Disable (comm_usb_deinit (power_disable_discharge s));
          jump_address = flash_word (BOOTLOADER_ADDR + 4) s1;
          s2 = emit (Mmio_Put SCB_ICSR SCB_ICSR_PENDSVCLR_Msk) s1;
          s3 = fold clear_interrupts [0..<8] s2;
          s4 = emit (Set_MSP (flash_word BOOTLOADER_ADDR s3)) s3
      in emit (Jump jump_address) s4)"

subsection \<open>An update on a working device\<close>

text \<open>A device that is ready, and on which every operation completes in time.\<close>

definition flash_works :: "'a flash_scheme \<Rightarrow> bool" where
  "flash_works f \<longleftrightarrow> flash_idle f \<and> powered f \<and> calm f \<and> Supply_Fails \<notin> set (plan f)"

lemma survives_works: "Supply_Fails \<notin> set p \<Longrightarrow> survives p"
  by (cases p rule: survives.cases) auto

lemma apply_works:
  assumes "flash_works f"
  shows "flash_works (flash_apply u f)" "cells (flash_apply u f) = u (cells f)"
  using assms survives_works[of "plan f"] set_next_plan[of "plan f"] flash_apply_calm[of f u]
  by (auto simp: flash_works_def flash_apply_def flash_idle_def)

lemma emit_flash [simp]:
  "flash_works (emit e s) = flash_works s" "cells (emit e s) = cells s" "SR (emit e s) = SR s"
  "flash_idle (emit e s) = flash_idle s"
  by (simp_all add: emit_def flash_works_def flash_idle_def calm_def)

lemma clear_flag_works: "flash_works f \<Longrightarrow> FLASH_ClearFlag m f = f"
  by (simp add: FLASH_ClearFlag_def hw_write_SR_def flash_works_def flash_idle_def)

lemma unlock_works: "flash_works f \<Longrightarrow> FLASH_Unlock f = f"
  by (simp add: FLASH_Unlock_def flash_works_def flash_idle_def)

lemma program_works:
  "flash_works f \<Longrightarrow> cells f (unat a) = 0xFFFF \<Longrightarrow>
   FLASH_ProgramHalfWord a d f = (FLASH_COMPLETE, flash_apply (\<lambda>c. c(unat a := d)) f)"
  by (simp add: ProgramHalfWord_calm flash_works_def)

lemma erase_works:
  "flash_works f \<Longrightarrow>
   FLASH_ErasePage a f = (FLASH_COMPLETE, flash_apply (erase_cells (unat a)) (f\<lparr>AR := a\<rparr>))"
  by (simp add: ErasePage_calm flash_works_def)

lemma AR_works [simp]: "flash_works (f\<lparr>AR := a\<rparr>) = flash_works f"
  by (simp add: flash_works_def)

text \<open>The image as it lies in the flash memory: a half-word for two bytes, low byte first.\<close>

definition image_at :: "u32 \<Rightarrow> u8 list \<Rightarrow> nat \<Rightarrow> (nat \<Rightarrow> u16) \<Rightarrow> bool" where
  "image_at offset data len c \<longleftrightarrow>
     (\<forall>k. 2 * k < len \<longrightarrow>
        c (unat (NEW_FW_ADDR + offset) + 2 * k) = be16 (data ! (2 * k + 1)) (data ! (2 * k)))"

definition NEW_FW_SIZE :: nat where "NEW_FW_SIZE = 0x18000"

lemma new_fw_area: "unat NEW_FW_ADDR + NEW_FW_SIZE = unat BOOTLOADER_ADDR"
  "FW_NUM_PAGES * flash_page_size = NEW_FW_SIZE"
  by (simp_all add: NEW_FW_ADDR_def NEW_FW_SIZE_def BOOTLOADER_ADDR_def FW_NUM_PAGES_def flash_page_size_def)

lemma unat_target:
  assumes "unat offset + i < NEW_FW_SIZE"
  shows "unat (NEW_FW_ADDR + offset + of_nat i) = unat NEW_FW_ADDR + unat offset + i"
    "unat (NEW_FW_ADDR + offset) = unat NEW_FW_ADDR + unat offset"
proof -
  have i: "unat (of_nat i :: u32) = i" using assms by (simp add: NEW_FW_SIZE_def unat_of_nat)
  have N: "unat NEW_FW_ADDR = 134316032" by (simp add: NEW_FW_ADDR_def)
  show o: "unat (NEW_FW_ADDR + offset) = unat NEW_FW_ADDR + unat offset"
    using assms N by (simp add: unat_word_ariths NEW_FW_SIZE_def)
  show "unat (NEW_FW_ADDR + offset + of_nat i) = unat NEW_FW_ADDR + unat offset + i"
    using assms N unat_word_ariths(1)[of "NEW_FW_ADDR + offset" "of_nat i"] o i
    by (simp add: NEW_FW_SIZE_def)
qed

lemma write_loop_works:
  assumes "flash_works s" and "even i" and "even len" and "len \<le> length data"
    and "unat offset + len \<le> NEW_FW_SIZE"
    and "\<forall>k. i \<le> 2 * k \<and> 2 * k < len \<longrightarrow> cells s (unat NEW_FW_ADDR + unat offset + 2 * k) = 0xFFFF"
    and "\<forall>k. 2 * k < i \<and> 2 * k < len \<longrightarrow> cells s (unat NEW_FW_ADDR + unat offset + 2 * k) =
      be16 (data ! (2 * k + 1)) (data ! (2 * k))"
  shows "\<exists>s'. fw_write_loop i len offset data s = Some (None, s') \<and> flash_works s' \<and>
    image_at offset data len (cells s') \<and>
    (\<forall>a. a < unat NEW_FW_ADDR + unat offset \<or> unat NEW_FW_ADDR + unat offset + len \<le> a \<longrightarrow>
      cells s' a = cells s a) \<and> events s' = events s"
  using assms
proof (induction "len - i" arbitrary: i s rule: less_induct)
  case less
  show ?case
  proof (cases "i < len")
    case False
    have "unat (NEW_FW_ADDR + offset) = unat NEW_FW_ADDR + unat offset" if "0 < len"
      using unat_target(2)[of offset 0] less.prems(5) that by simp
    with less.prems(1,7) False show ?thesis
      by (subst fw_write_loop.simps) (fastforce simp: image_at_def)
  next
    case True
    with less.prems(2,3) have i: "i + 1 < len" by (metis Suc_eq_plus1 Suc_lessI even_Suc)
    let ?a = "NEW_FW_ADDR + offset + of_nat i :: u32"
    let ?d = "be16 (data ! (i + 1)) (data ! i)"
    have a: "unat ?a = unat NEW_FW_ADDR + unat offset + i"
      using unat_target(1)[of offset i] less.prems(5) True by simp
    obtain j where j: "i = 2 * j" using less.prems(2) by (auto elim: evenE)
    then have "cells s (unat ?a) = 0xFFFF" using less.prems(6) True a by simp
    define t where "t = flash_apply (\<lambda>c. c(unat ?a := ?d)) s"
    have W: "flash_works t" "cells t = (cells s)(unat NEW_FW_ADDR + unat offset + i := ?d)" "events t = events s"
      using apply_works[OF less.prems(1), of "\<lambda>c. c(unat ?a := ?d)"] a by (simp_all add: t_def flash_apply_def)
    have P: "FLASH_ProgramHalfWord ?a ?d s = (FLASH_COMPLETE, t)"
      unfolding t_def using program_works[OF less.prems(1)] \<open>cells s (unat ?a) = 0xFFFF\<close> .
    have "\<exists>s'. fw_write_loop (i + 2) len offset data t = Some (None, s') \<and> flash_works s' \<and>
        image_at offset data len (cells s') \<and>
        (\<forall>a. a < unat NEW_FW_ADDR + unat offset \<or> unat NEW_FW_ADDR + unat offset + len \<le> a \<longrightarrow>
          cells s' a = cells t a) \<and> events s' = events t"
    proof (rule less.hyps)
      show "\<forall>k. i + 2 \<le> 2 * k \<and> 2 * k < len \<longrightarrow> cells t (unat NEW_FW_ADDR + unat offset + 2 * k) = 0xFFFF"
        using less.prems(6) by (auto simp: W(2))
      show "\<forall>k. 2 * k < i + 2 \<and> 2 * k < len \<longrightarrow> cells t (unat NEW_FW_ADDR + unat offset + 2 * k) =
          be16 (data ! (2 * k + 1)) (data ! (2 * k))"
        using less.prems(7) by (auto simp: W(2) j)
    qed (use True less.prems W in auto)
    then show ?thesis using True i less.prems(4) P W(2,3)
      by (subst fw_write_loop.simps) auto
  qed
qed

text \<open>The pages of the area, one after the other.\<close>

lemma erase_loop_works:
  assumes "flash_works s" and "n \<le> FW_NUM_PAGES"
  shows "\<exists>s'. fw_erase_loop [0..<n] s = (None, s') \<and> flash_works s' \<and> events s' = events s \<and>
    (\<forall>a. cells s' a = (if unat NEW_FW_ADDR \<le> a \<and> a < unat NEW_FW_ADDR + 2048 * n then 0xFFFF else cells s a))"
  using assms(2)
proof (induction n)
  case 0
  show ?case using assms(1) by (auto intro!: exI[of _ s])
next
  case (Suc n)
  then obtain t where t: "fw_erase_loop [0..<n] s = (None, t)" "flash_works t" "events t = events s"
    "\<And>a. cells t a = (if unat NEW_FW_ADDR \<le> a \<and> a < unat NEW_FW_ADDR + 2048 * n then 0xFFFF else cells s a)"
    by auto
  let ?a = "NEW_FW_ADDR + of_nat n * 2048 :: u32"
  have N: "unat NEW_FW_ADDR = 134316032" by (simp add: NEW_FW_ADDR_def)
  have "unat (of_nat (n * 2048) :: u32) = n * 2048" using Suc.prems by (simp add: FW_NUM_PAGES_def unat_word_ariths unat_of_nat)
  then have a: "unat ?a = 134316032 + n * 2048"
    using Suc.prems unat_word_ariths(1)[of NEW_FW_ADDR "of_nat (n * 2048)"] N by (simp add: FW_NUM_PAGES_def)
  have page: "a div 2048 = 65584 + n \<longleftrightarrow> 134316032 + 2048 * n \<le> a \<and> a < 134316032 + 2048 * Suc n" for a :: nat
    by auto
  let ?s' = "flash_apply (erase_cells (unat ?a)) (t\<lparr>AR := ?a\<rparr>)"
  have "fw_erase_loop [n] t = (None, ?s')" using erase_works[OF t(2)] by simp
  moreover have "fw_erase_loop (xs @ ys) s = (None, s'')"
    if "fw_erase_loop xs s = (None, u)" "fw_erase_loop ys u = (None, s'')" for xs ys s'' u
    using that by (induction xs arbitrary: s) (auto simp: split_beta split: if_splits prod.splits)
  ultimately have "fw_erase_loop [0..<Suc n] s = (None, ?s')" using t(1) by simp
  moreover have "flash_works ?s'" "cells ?s' = erase_cells (unat ?a) (cells t)"
    using apply_works[of "t\<lparr>AR := ?a\<rparr>"] t(2) by simp_all
  moreover have "events ?s' = events s" by (simp add: flash_apply_def t(3))
  ultimately show ?case
    by (intro exI[of _ ?s']) (auto simp: erase_cells_def flash_page_size_def a N page t(4))
qed

subsection \<open>A whole update\<close>

definition lock_depth :: "io_event list \<Rightarrow> int" where
  "lock_depth es = int (count_list es Sys_Lock) - int (count_list es Sys_Unlock)"

lemma lock_depth_emit [simp]:
  "lock_depth (events (emit e s)) =
     lock_depth (events s) + (if e = Sys_Lock then 1 else if e = Sys_Unlock then - 1 else 0)"
  by (simp add: lock_depth_def emit_def)

text \<open>The chunks of an image, each written behind the one before; None if one fails.\<close>

primrec upload :: "u32 \<Rightarrow> u8 list list \<Rightarrow> 'a board_scheme \<Rightarrow> 'a board_scheme option" where
  "upload offset [] s = Some s"
| "upload offset (c # cs) s =
     (case fw_updater_write_firmware offset c (of_nat (length c)) s of
        None \<Rightarrow> None
      | Some (res, s1) \<Rightarrow>
          if res = status_code FLASH_COMPLETE then upload (offset + of_nat (length c)) cs s1 else None)"

lemma write_firmware_works:
  assumes "flash_works s" and "even (length c)" and "unat offset + length c \<le> NEW_FW_SIZE"
    and "\<forall>k. 2 * k < length c \<longrightarrow> cells s (unat NEW_FW_ADDR + unat offset + 2 * k) = 0xFFFF"
  shows "\<exists>s'. fw_updater_write_firmware offset c (of_nat (length c)) s = Some (status_code FLASH_COMPLETE, s') \<and>
    flash_works s' \<and> image_at offset c (length c) (cells s') \<and>
    (\<forall>a. a < unat NEW_FW_ADDR + unat offset \<or> unat NEW_FW_ADDR + unat offset + length c \<le> a \<longrightarrow>
      cells s' a = cells s a) \<and> lock_depth (events s') = lock_depth (events s)"
proof -
  have "length c < 2 ^ 32" using assms(3) by (simp add: NEW_FW_SIZE_def)
  then have l: "unat (of_nat (length c) :: u32) = length c" by (simp add: unat_of_nat)
  obtain s' where "fw_write_loop 0 (length c) offset c (emit Sys_Lock s) = Some (None, s')" "flash_works s'"
    "image_at offset c (length c) (cells s')" "events s' = events (emit Sys_Lock s)"
    "\<forall>a. a < unat NEW_FW_ADDR + unat offset \<or> unat NEW_FW_ADDR + unat offset + length c \<le> a \<longrightarrow>
      cells s' a = cells s a"
    using write_loop_works[of "emit Sys_Lock s" 0 "length c" c offset] assms by auto
  then show ?thesis using assms(1) l
    by (auto simp: fw_updater_write_firmware_def Let_def clear_flag_works)
qed

lemma image_at_append:
  assumes "even (length c)" and "unat offset + length c + n \<le> NEW_FW_SIZE" and "n = length d"
    and "image_at offset c (length c) f" and "image_at (offset + of_nat (length c)) d n f"
  shows "image_at offset (c @ d) (length c + n) f"
  unfolding image_at_def
proof (intro allI impI)
  fix k assume k: "2 * k < length c + n"
  obtain m where m: "length c = 2 * m" using assms(1) by (auto elim: evenE)
  have o: "unat (NEW_FW_ADDR + offset) = unat NEW_FW_ADDR + unat offset"
    using unat_target(2)[of offset 0] k assms(2) by simp
  show "f (unat (NEW_FW_ADDR + offset) + 2 * k) = be16 ((c @ d) ! (2 * k + 1)) ((c @ d) ! (2 * k))"
  proof (cases "k < m")
    case True
    then show ?thesis using assms(4) m by (simp add: image_at_def nth_append)
  next
    case False
    have "unat (NEW_FW_ADDR + (offset + of_nat (length c))) = unat NEW_FW_ADDR + unat offset + length c"
      using unat_target(1)[of offset "length c"] False k assms(2) m by (simp add: add.assoc)
    moreover have "2 * (k - m) < n" using False k m by linarith
    ultimately have "f (unat NEW_FW_ADDR + unat offset + length c + 2 * (k - m)) =
        be16 (d ! (2 * (k - m) + 1)) (d ! (2 * (k - m)))"
      using assms(5) by (simp add: image_at_def)
    moreover have "2 * k - 2 * m = 2 * (k - m)" "2 * k + 1 - 2 * m = 2 * (k - m) + 1" "2 * m + 2 * (k - m) = 2 * k"
      using False by simp_all
    ultimately show ?thesis using False m o
      by (simp add: nth_append add.assoc)
  qed
qed

text \<open>
  The upload behind a given offset, on erased cells.
\<close>

lemma upload_works:
  assumes "flash_works s" and "\<forall>c\<in>set cs. even (length c)" and "unat offset + length (concat cs) \<le> NEW_FW_SIZE"
    and "\<forall>k. 2 * k < length (concat cs) \<longrightarrow> cells s (unat NEW_FW_ADDR + unat offset + 2 * k) = 0xFFFF"
  shows "\<exists>s'. upload offset cs s = Some s' \<and> image_at offset (concat cs) (length (concat cs)) (cells s') \<and>
    (\<forall>a. a < unat NEW_FW_ADDR + unat offset \<or> unat NEW_FW_ADDR + unat offset + length (concat cs) \<le> a \<longrightarrow>
      cells s' a = cells s a) \<and> lock_depth (events s') = lock_depth (events s)"
  using assms
proof (induction cs arbitrary: offset s)
  case Nil
  then show ?case by (simp add: image_at_def)
next
  case (Cons c cs)
  let ?o = "offset + of_nat (length c) :: u32" and ?n = "length (concat cs)"
  have u: "unat ?o = unat offset + length c"
    using Cons.prems(3) by (simp add: NEW_FW_SIZE_def unat_word_ariths unat_of_nat)
  obtain t where t: "fw_updater_write_firmware offset c (of_nat (length c)) s = Some (status_code FLASH_COMPLETE, t)"
    "flash_works t" "image_at offset c (length c) (cells t)" "lock_depth (events t) = lock_depth (events s)"
    "\<And>a. a < unat NEW_FW_ADDR + unat offset \<or> unat NEW_FW_ADDR + unat offset + length c \<le> a \<Longrightarrow> cells t a = cells s a"
    using write_firmware_works[of s c offset] Cons.prems by auto
  obtain m where m: "length c = 2 * m" using Cons.prems(2) by (auto elim: evenE)
  have clean: "\<forall>k. 2 * k < ?n \<longrightarrow> cells t (unat NEW_FW_ADDR + unat ?o + 2 * k) = 0xFFFF"
  proof (intro allI impI)
    fix k assume "2 * k < ?n"
    then show "cells t (unat NEW_FW_ADDR + unat ?o + 2 * k) = 0xFFFF"
      using Cons.prems(4)[rule_format, of "m + k"] m
        t(5)[of "unat NEW_FW_ADDR + (unat offset + length c) + 2 * k"]
      unfolding u by (simp add: algebra_simps)
  qed
  obtain s' where s': "upload ?o cs t = Some s'" "image_at ?o (concat cs) ?n (cells s')"
    "\<And>a. a < unat NEW_FW_ADDR + unat ?o \<or> unat NEW_FW_ADDR + unat ?o + ?n \<le> a \<Longrightarrow> cells s' a = cells t a"
    "lock_depth (events s') = lock_depth (events t)"
    using Cons.IH[OF t(2), of ?o] clean Cons.prems(2,3) u by auto
  have "image_at offset c (length c) (cells s')"
    using t(3) unat_target(2)[of offset 0] Cons.prems(3) u
    by (auto simp: image_at_def s'(3))
  then have "image_at offset (c @ concat cs) (length c + ?n) (cells s')"
    using image_at_append[of c offset ?n "concat cs"] s'(2) Cons.prems(2,3) by simp
  then show ?case using t(1,4) s' u t(5) by (auto intro!: exI[of _ s'])
qed

lemma erase_firmware_works:
  assumes "flash_works s"
  shows "\<exists>s'. fw_updater_erase_new_firmware s = (status_code FLASH_COMPLETE, s') \<and> flash_works s' \<and>
    lock_depth (events s') = lock_depth (events s) \<and>
    (\<forall>a. cells s' a = (if unat NEW_FW_ADDR \<le> a \<and> a < unat NEW_FW_ADDR + NEW_FW_SIZE then 0xFFFF else cells s a))"
proof -
  obtain s' where "fw_erase_loop [0..<FW_NUM_PAGES] (emit Sys_Lock s) = (None, s')" "flash_works s'"
    "events s' = events (emit Sys_Lock s)"
    "\<forall>a. cells s' a = (if unat NEW_FW_ADDR \<le> a \<and> a < unat NEW_FW_ADDR + NEW_FW_SIZE then 0xFFFF else cells s a)"
    using erase_loop_works[of "emit Sys_Lock s" FW_NUM_PAGES] assms
    by (auto simp: FW_NUM_PAGES_def NEW_FW_SIZE_def)
  then show ?thesis using assms
    by (auto simp: fw_updater_erase_new_firmware_def Let_def clear_flag_works unlock_works)
qed

text \<open>
  C36: On a device on which no operation fails, erasing the area of the new firmware and
  writing an image chunk by chunk (of even lengths, the next behind the one before) puts
  the image at the start of the area, two bytes in a half-word; nothing outside the area
  changes, and every lock taken is given back.
\<close>

theorem fw_update_installs:
  assumes "flash_works s" and "\<forall>c\<in>set cs. even (length c)" and "length (concat cs) \<le> NEW_FW_SIZE"
  shows "\<exists>s1 s2. fw_updater_erase_new_firmware s = (status_code FLASH_COMPLETE, s1) \<and>
    upload 0 cs s1 = Some s2 \<and> image_at 0 (concat cs) (length (concat cs)) (cells s2) \<and>
    (\<forall>a. a < unat NEW_FW_ADDR \<or> unat BOOTLOADER_ADDR \<le> a \<longrightarrow> cells s2 a = cells s a) \<and>
    lock_depth (events s2) = lock_depth (events s)"
proof -
  obtain s1 where s1: "fw_updater_erase_new_firmware s = (status_code FLASH_COMPLETE, s1)" "flash_works s1"
    "lock_depth (events s1) = lock_depth (events s)"
    "\<And>a. cells s1 a = (if unat NEW_FW_ADDR \<le> a \<and> a < unat NEW_FW_ADDR + NEW_FW_SIZE then 0xFFFF else cells s a)"
    using erase_firmware_works[OF assms(1)] by auto
  have clean: "\<forall>k. 2 * k < length (concat cs) \<longrightarrow> cells s1 (unat NEW_FW_ADDR + unat (0 :: u32) + 2 * k) = 0xFFFF"
    using assms(3) by (simp add: s1(4))
  obtain s2 where s2: "upload 0 cs s1 = Some s2" "image_at 0 (concat cs) (length (concat cs)) (cells s2)"
    "\<And>a. a < unat NEW_FW_ADDR \<or> unat NEW_FW_ADDR + length (concat cs) \<le> a \<Longrightarrow> cells s2 a = cells s1 a"
    "lock_depth (events s2) = lock_depth (events s1)"
    using upload_works[OF s1(2) assms(2) _ clean] assms(3) by auto
  show ?thesis using s1 s2 assms(3) new_fw_area(1)
    by (intro exI[of _ s1] exI[of _ s2]) auto
qed

definition example_board :: board where
  "example_board = \<lparr>cells = (\<lambda>_. 0), CR = 0, SR = 0, AR = 0, busy = 0, key1 = False, plan = [],
     powered = True, DataVar = 0, VirtAddVarTab = [], ios = 0, clock_in = (\<lambda>_. 0),
     pad_in = (\<lambda>_ _. False), bus_in = (\<lambda>_ _. 0), adc_in = (\<lambda>_ _. 0),
     nvic_active = (\<lambda>_ _. 0), pads = (\<lambda>_. False), events = []\<rparr>"

lemma example_board_works: "flash_works example_board" "cells example_board = (\<lambda>_. 0)"
  "events example_board = []"
  by (simp_all add: example_board_def flash_works_def flash_idle_def calm_def)

lemma fw_update_installs_witness:
  "\<exists>s1 s2. fw_updater_erase_new_firmware example_board = (status_code FLASH_COMPLETE, s1) \<and>
    upload 0 [[0x12, 0x34], [0x56, 0x78]] s1 = Some s2 \<and> cells s2 0x8018002 = 0x7856"
proof -
  let ?cs = "[[0x12, 0x34], [0x56, 0x78]] :: u8 list list"
  have c: "concat ?cs = [0x12, 0x34, 0x56, 0x78]" "length [0x12, 0x34, 0x56, 0x78 :: u8] = 4" by simp_all
  have "4 \<le> NEW_FW_SIZE" "\<forall>c\<in>set ?cs. even (length c)" by (simp_all add: NEW_FW_SIZE_def)
  then obtain s1 s2 where s: "fw_updater_erase_new_firmware example_board = (status_code FLASH_COMPLETE, s1)"
    "upload 0 ?cs s1 = Some s2" "image_at 0 [0x12, 0x34, 0x56, 0x78] 4 (cells s2)"
    using fw_update_installs[OF example_board_works(1), of ?cs, unfolded c] by blast
  from s(3)[unfolded image_at_def, rule_format, of 1] have "cells s2 0x8018002 = 0x7856"
    by (simp add: NEW_FW_ADDR_def be16_def)
  with s(1,2) show ?thesis by blast
qed

lemma events_kept: "flash.more s = flash.more t \<Longrightarrow> events s = events t" for s t :: "'a board_scheme"
  by (cases s, cases t) simp

lemma write_loop_events:
  "fw_write_loop i len offset data s = Some (r, s') \<Longrightarrow> events s' = events s \<and> r \<noteq> Some FLASH_COMPLETE"
proof (induction i len offset data s rule: fw_write_loop.induct)
  case (1 i len offset data s)
  have "events (snd (FLASH_ProgramHalfWord a d s)) = events s" for a d
    by (rule events_kept) (simp add: keeps)
  moreover obtain st t where t: "FLASH_ProgramHalfWord (NEW_FW_ADDR + offset + of_nat i)
      (be16 (data ! (i + 1)) (data ! i)) s = (st, t)" by fastforce
  ultimately have "events t = events s" by (metis snd_conv)
  moreover note 1(2)[unfolded fw_write_loop.simps[of i len offset data s] t Let_def prod.case]
  ultimately show ?case
    using 1(1)[OF _ _ t[symmetric] refl] by (auto split: if_splits simp del: One_nat_def)
qed

lemma erase_loop_events:
  "fw_erase_loop is s = (r, s') \<Longrightarrow> events s' = events s \<and> r \<noteq> Some FLASH_COMPLETE"
proof (induction "is" arbitrary: s)
  case (Cons i "is")
  have "events (snd (FLASH_ErasePage a s)) = events s" for a
    by (rule events_kept) (simp add: keeps)
  with Cons show ?case by (auto simp: Let_def split_beta split: if_splits)
qed simp

lemma flag_events: "events (FLASH_ClearFlag m s) = events s" "events (FLASH_Unlock s) = events s"
  for s :: "'a board_scheme"
  by (rule events_kept, simp add: keeps)+

lemma status_code_complete: "status_code st = status_code FLASH_COMPLETE \<longleftrightarrow> st = FLASH_COMPLETE"
  by (cases st) simp_all

text \<open>
  Both operations leave the system locked when the flash memory reports a failure:
  the early return skips the unlocking call, and only a success gives the lock back.
\<close>

theorem fw_failure_keeps_lock:
  "(case fw_updater_erase_new_firmware s of (res, s') \<Rightarrow>
      lock_depth (events s') = lock_depth (events s) + (if res = status_code FLASH_COMPLETE then 0 else 1)) \<and>
   (case fw_updater_write_firmware offset data len s of None \<Rightarrow> True | Some (res, s') \<Rightarrow>
      lock_depth (events s') = lock_depth (events s) + (if res = status_code FLASH_COMPLETE then 0 else 1))"
proof (rule conjI)
  show "case fw_updater_erase_new_firmware s of (res, s') \<Rightarrow>
      lock_depth (events s') = lock_depth (events s) + (if res = status_code FLASH_COMPLETE then 0 else 1)"
    by (auto simp: fw_updater_erase_new_firmware_def Let_def flag_events status_code_complete
        split: option.splits prod.splits simp del: status_code.simps dest!: erase_loop_events)
  show "case fw_updater_write_firmware offset data len s of None \<Rightarrow> True | Some (res, s') \<Rightarrow>
      lock_depth (events s') = lock_depth (events s) + (if res = status_code FLASH_COMPLETE then 0 else 1)"
    by (auto simp: fw_updater_write_firmware_def Let_def flag_events status_code_complete
        split: option.splits prod.splits simp del: status_code.simps dest!: write_loop_events)
qed

end
