(* ===== verification/Packet.thy ===== *)
theory Packet
  imports Console Fw_Updater
begin

text \<open>
  The packet protocol (packet.c): the parser of the received bytes, the commands and their
  answers. An access outside one of the buffers is the result None. The functions of
  utils.h, which is not part of the repository, are fields of the environment; so are the
  bytes that the handler of PACKET_CONFIG_SET_FIELD finds in its uninitialised buffer.
\<close>

datatype PacketState = START | LENGTH_HIGH | LENGTH_LOW | DATA | CRC_HIGH | CRC_LOW | END

record packet_env = console_env +
  append_float32 :: "u8 list \<Rightarrow> fp \<Rightarrow> nat \<Rightarrow> u8 list \<times> nat"
  append_uint16 :: "u8 list \<Rightarrow> u16 \<Rightarrow> nat \<Rightarrow> u8 list \<times> nat"
  parse_uint16 :: "u8 list \<Rightarrow> nat \<Rightarrow> u16 \<times> nat"
  parse_uint32 :: "u8 list \<Rightarrow> nat \<Rightarrow> u32 \<times> nat"
  reverse_copy :: "u8 list \<Rightarrow> u8 list \<Rightarrow> nat \<Rightarrow> u8 list"
  stack_bytes :: "u8 list"

record pkt = usb +
  packet_index :: u16
  packet_buffer :: "u8 list"
  packet_send_buffer :: "u8 list"
  connect_event :: bool
  process_state :: PacketState
  process_timeout :: u16
  packet_length :: u16
  packet_crc :: u16

definition PACKET_TIMEOUT :: u16 where "PACKET_TIMEOUT = 1000"

definition PACKET_CONNECT :: u8 where "PACKET_CONNECT = 0x00"
definition PACKET_GET_DATA :: u8 where "PACKET_GET_DATA = 0x02"
definition PACKET_GET_CELLS :: u8 where "PACKET_GET_CELLS = 0x03"
definition PACKET_ERASE_NEW_FW :: u8 where "PACKET_ERASE_NEW_FW = 0x04"
definition PACKET_WRITE_NEW_FW :: u8 where "PACKET_WRITE_NEW_FW = 0x05"
definition PACKET_JUMP_BOOTLOADER :: u8 where "PACKET_JUMP_BOOTLOADER = 0x06"
definition PACKET_CONFIG_SET_FIELD :: u8 where "PACKET_CONFIG_SET_FIELD = 0x07"
definition PACKET_CONFIG_GET_ALL :: u8 where "PACKET_CONFIG_GET_ALL = 0x0A"

lemmas packet_ids =
  PACKET_CONNECT_def PACKET_CONSOLE_def PACKET_GET_DATA_def PACKET_GET_CELLS_def PACKET_ERASE_NEW_FW_def
  PACKET_WRITE_NEW_FW_def PACKET_JUMP_BOOTLOADER_def PACKET_CONFIG_SET_FIELD_def PACKET_CONFIG_GET_ALL_def

definition FW_VERSION_MAJOR :: u8 where "FW_VERSION_MAJOR = 0"
definition FW_VERSION_MINOR :: u8 where "FW_VERSION_MINOR = 1"

subsection \<open>Answers\<close>

text \<open>
  The answer is built at the start of the send buffer and sent up to the index reached; a
  buffer that has become longer was written past its end.
\<close>

definition answer ::
    "'e packet_env_scheme \<Rightarrow> u8 list \<times> nat \<Rightarrow> 'a pkt_scheme \<Rightarrow> 'a pkt_scheme option" where
  "answer env b s =
     (if length (packet_send_buffer s) \<noteq> length (fst b) then None
      else packet_send_packet env (fst b) (snd b) (s\<lparr>packet_send_buffer := fst b\<rparr>))"

definition put1 :: "u8 \<Rightarrow> u8 list \<times> nat \<Rightarrow> u8 list \<times> nat" where
  "put1 x = (\<lambda>(b, inx). (b[inx := x], inx + 1))"

definition put_float :: "'e packet_env_scheme \<Rightarrow> fp \<Rightarrow> u8 list \<times> nat \<Rightarrow> u8 list \<times> nat" where
  "put_float env x = (\<lambda>(b, inx). append_float32 env b x inx)"

definition packet_connect :: "'e packet_env_scheme \<Rightarrow> 'a pkt_scheme \<Rightarrow> 'a pkt_scheme option" where
  "packet_connect env s =
     (let s1 = s\<lparr>connect_event := True\<rparr> in
      answer env (put1 (FW_VERSION_MINOR + 48) (put1 46 (put1 (FW_VERSION_MAJOR + 48)
        (put1 PACKET_CONNECT (packet_send_buffer s1, 0))))) s1)"

definition packet_console :: "'e packet_env_scheme \<Rightarrow> nat \<Rightarrow> 'a pkt_scheme \<Rightarrow> 'a pkt_scheme option" where
  "packet_console env len s =
     (if length (packet_buffer s) \<le> len + 1 then None
      else
        let data = (drop 1 (packet_buffer s))[len := 0] in
        map_option (\<lambda>(data', s1). s1\<lparr>packet_buffer := hd (packet_buffer s) # data'\<rparr>)
          (console_process_command env data s))"

definition packet_get_data :: "'e packet_env_scheme \<Rightarrow> 'a pkt_scheme \<Rightarrow> 'a pkt_scheme option" where
  "packet_get_data env s =
     (let b0 = put1 PACKET_GET_DATA (packet_send_buffer s, 0);
          b1 = put_float env (current_monitor_get_bus_voltage s) b0;
          b2 = put_float env (analog_temperature (logf env) s) b1;
          b3 = put_float env (current_monitor_get_current s) b2;
          b4 = put_float env (charger_get_output_voltage s) b3;
          b5 = put1 (faults_get_faults s) b4;
          b6 = put1 (if charger_is_charging s then 1 else 0) b5
      in answer env b6 s)"

primrec put_cells ::
    "'e packet_env_scheme \<Rightarrow> fp list \<Rightarrow> nat list \<Rightarrow> u8 list \<times> nat \<Rightarrow> (u8 list \<times> nat) option" where
  "put_cells env cs [] b = Some b"
| "put_cells env cs (i # is) b =
     (if length cs \<le> i then None else put_cells env cs is (put_float env (cs ! i) b))"

definition packet_get_cells :: "'e packet_env_scheme \<Rightarrow> 'a pkt_scheme \<Rightarrow> 'a pkt_scheme option" where
  "packet_get_cells env s =
     Option.bind (put_cells env (ltc6803_get_cell_voltages s) [0..<numCells s]
         (put1 PACKET_GET_CELLS (packet_send_buffer s, 0)))
       (\<lambda>b. answer env b s)"

definition fw_answer ::
    "'e packet_env_scheme \<Rightarrow> u8 \<Rightarrow> u16 \<Rightarrow> 'a pkt_scheme \<Rightarrow> 'a pkt_scheme option" where
  "fw_answer env cmd res s =
     answer env (put1 (if res = status_code FLASH_COMPLETE then 1 else 0)
       (put1 cmd (packet_send_buffer s, 0))) s"

definition packet_erase_fw :: "'e packet_env_scheme \<Rightarrow> 'a pkt_scheme \<Rightarrow> 'a pkt_scheme option" where
  "packet_erase_fw env s =
     (let (res, s1) = fw_updater_erase_new_firmware s in fw_answer env PACKET_ERASE_NEW_FW res s1)"

text \<open>\<open>len - inx\<close> is computed with 32 bits: a packet without an offset has a huge rest.\<close>

definition packet_write_fw :: "'e packet_env_scheme \<Rightarrow> u32 \<Rightarrow> 'a pkt_scheme \<Rightarrow> 'a pkt_scheme option" where
  "packet_write_fw env len s =
     (let data = drop 1 (packet_buffer s); (offset, inx) = parse_uint32 env data 0 in
      case fw_updater_write_firmware offset (drop inx data) (len - of_nat inx) s of
        None \<Rightarrow> None
      | Some (res, s1) \<Rightarrow> fw_answer env PACKET_WRITE_NEW_FW res s1)"

definition packet_set_field :: "'e packet_env_scheme \<Rightarrow> u32 \<Rightarrow> 'a pkt_scheme \<Rightarrow> 'a pkt_scheme option" where
  "packet_set_field env len s =
     (let data = drop 1 (packet_buffer s);
          (config_addr, readInx) = parse_uint16 env data 0;
          rest = len - of_nat readInx; n = unat rest
      in if length (stack_bytes env) < n \<or> length data < readInx + n then None
         else
           case config_write_field config_addr (reverse_copy env (stack_bytes env) (drop readInx data) n)
               (ucast rest) s of
             None \<Rightarrow> None
           | Some (res, config_value, s1) \<Rightarrow>
               let (b, inx) = append_uint16 env ((packet_send_buffer s1)[0 := PACKET_CONFIG_SET_FIELD]) config_addr 1
               in if length b < inx + n then None
                  else answer env (take inx b @ reverse_copy env (drop inx b) config_value n, inx + n) s1)"

definition packet_get_all :: "'e packet_env_scheme \<Rightarrow> 'a pkt_scheme \<Rightarrow> 'a pkt_scheme option" where
  "packet_get_all env s =
     (let (b, inx) = put1 PACKET_CONFIG_GET_ALL (packet_send_buffer s, 0)
      in answer env (put_bytes inx (take sizeof_Config (config s)) b, inx + sizeof_Config) s)"

text \<open>\<open>len\<close> is the length of the packet; its first byte names the command.\<close>

definition process_packet :: "'e packet_env_scheme \<Rightarrow> u32 \<Rightarrow> 'a pkt_scheme \<Rightarrow> 'a pkt_scheme option" where
  "process_packet env len s =
     (let cmd = packet_buffer s ! 0; len' = len - 1 in
      if cmd = PACKET_CONNECT then packet_connect env s
      else if cmd = PACKET_CONSOLE then packet_console env (unat len') s
      else if cmd = PACKET_GET_DATA then packet_get_data env s
      else if cmd = PACKET_GET_CELLS then packet_get_cells env s
      else if cmd = PACKET_ERASE_NEW_FW then packet_erase_fw env s
      else if cmd = PACKET_WRITE_NEW_FW then packet_write_fw env len' s
      else if cmd = PACKET_JUMP_BOOTLOADER then Some (fw_updater_jump_bootloader s)
      else if cmd = PACKET_CONFIG_SET_FIELD then packet_set_field env len' s
      else if cmd = PACKET_CONFIG_GET_ALL then packet_get_all env s
      else Some s)"

subsection \<open>The parser\<close>

definition to_state :: "PacketState \<Rightarrow> 'a pkt_scheme \<Rightarrow> 'a pkt_scheme" where
  "to_state st s = s\<lparr>process_state := st, process_timeout := PACKET_TIMEOUT\<rparr>"

definition packet_process_byte ::
    "'e packet_env_scheme \<Rightarrow> u8 \<Rightarrow> 'a pkt_scheme \<Rightarrow> 'a pkt_scheme option" where
  "packet_process_byte env byte s =
     (case process_state s of
        START \<Rightarrow>
          Some (if byte = PACKET_START \<or> byte = PACKET_LONG_START then
                  to_state (if byte = PACKET_START then LENGTH_LOW else LENGTH_HIGH)
                    (s\<lparr>packet_index := 0, packet_length := 0\<rparr>)
                else s)
      | LENGTH_HIGH \<Rightarrow> Some (to_state LENGTH_LOW (s\<lparr>packet_length := push_bit 8 (ucast byte)\<rparr>))
      | LENGTH_LOW \<Rightarrow>
          let s1 = s\<lparr>packet_length := packet_length s OR ucast byte\<rparr>;
              s2 = (if packet_length s1 = 0 \<or> 2048 < packet_length s1
                    then s1\<lparr>process_state := START\<rparr> else s1)
          in Some (to_state DATA s2)
      | DATA \<Rightarrow>
          (if length (packet_buffer s) \<le> unat (packet_index s) then None
           else
             let s1 = s\<lparr>packet_buffer := (packet_buffer s)[unat (packet_index s) := byte],
                        packet_index := packet_index s + 1\<rparr>
             in Some (to_state (if packet_length s1 \<le> packet_index s1 then CRC_HIGH else DATA) s1))
      | CRC_HIGH \<Rightarrow> Some (to_state CRC_LOW (s\<lparr>packet_crc := push_bit 8 (ucast byte)\<rparr>))
      | CRC_LOW \<Rightarrow> Some (to_state END (s\<lparr>packet_crc := packet_crc s OR ucast byte\<rparr>))
      | END \<Rightarrow>
          (if byte = PACKET_END then
             (if length (packet_buffer s) < unat (packet_length s) then None
              else
                map_option (\<lambda>s1. to_state START (s1\<lparr>packet_index := 0\<rparr>))
                  (if crc16 env (take (unat (packet_length s)) (packet_buffer s)) = packet_crc s
                   then process_packet env (ucast (packet_length s)) s else Some s))
           else Some s))"

definition packet_timeout :: "'a pkt_scheme \<Rightarrow> 'a pkt_scheme" where
  "packet_timeout s =
     (if 0 < process_timeout s then s\<lparr>process_timeout := process_timeout s - 1\<rparr>
      else s\<lparr>process_state := START\<rparr>)"

text \<open>The thread that calls it has no loop: it ends after one call.\<close>

definition packet_timeout_thread :: "'a pkt_scheme \<Rightarrow> 'a pkt_scheme" where
  "packet_timeout_thread s = emit (Sleep_Ms 1) (packet_timeout s)"

definition packet_connect_event :: "'a pkt_scheme \<Rightarrow> bool \<times> 'a pkt_scheme" where
  "packet_connect_event s =
     (if connect_event s then (True, s\<lparr>connect_event := False\<rparr>) else (False, s))"

subsection \<open>What the parser makes of a packet\<close>

lemma bytes_word: "be16 (of_nat (n div 256)) (of_nat n) = (of_nat n :: u16)"
proof -
  have "n div 256 = drop_bit 8 n" by (simp add: drop_bit_eq_div)
  then have "hi8 (of_nat n) = of_nat (n div 256)"
    by (simp only:) (rule bit_word_eqI, auto simp: hi8_def bit_simps)
  moreover have "lo8 (of_nat n) = of_nat n" unfolding lo8_def by (rule bit_word_eqI) (auto simp: bit_simps)
  ultimately show ?thesis by (metis be16_hi_lo)
qed

lemma small_byte: "n < 256 \<Longrightarrow> ucast (of_nat n :: u8) = (of_nat n :: u16)"
  by (simp add: unsigned_of_nat take_bit_nat_eq_self)

text \<open>The state with the length read and \<open>k\<close> of the bytes \<open>d\<close> behind it.\<close>

definition in_data :: "nat \<Rightarrow> u8 list \<Rightarrow> nat \<Rightarrow> 'a pkt_scheme \<Rightarrow> 'a pkt_scheme" where
  "in_data n d k s =
     to_state (if k = 0 \<or> k < n then DATA else CRC_HIGH)
       (s\<lparr>packet_buffer := take k d @ drop k (packet_buffer s), packet_index := of_nat k,
          packet_length := of_nat n\<rparr>)"

definition receive :: "'e packet_env_scheme \<Rightarrow> u8 list \<Rightarrow> 'a pkt_scheme \<Rightarrow> 'a pkt_scheme option" where
  "receive env = fold_opt (packet_process_byte env)"

lemma receive_append: "receive env (xs @ ys) s = Option.bind (receive env xs s) (receive env ys)"
  by (simp add: receive_def fold_opt_append)

lemma receive_Cons: "receive env (x # xs) s = Option.bind (packet_process_byte env x s) (receive env xs)"
  by (simp add: receive_def)

lemma receive_header:
  assumes "process_state s = START" and "n < 65536"
  shows "receive env (packet_header n) s = Some (in_data n d 0 s)"
proof -
  have long: "push_bit 8 (ucast h) OR ucast l = be16 h l" for h l :: u8 by (simp add: be16_def)
  have ne: "PACKET_START \<noteq> PACKET_LONG_START" by (simp add: PACKET_START_def PACKET_LONG_START_def)
  show ?thesis
  proof (cases "255 < n")
    case True
    with assms ne show ?thesis
      by (auto simp: receive_def packet_header_def packet_process_byte_def to_state_def in_data_def Let_def
          long bytes_word)
  next
    case False
    with assms ne show ?thesis
      by (auto simp: receive_def packet_header_def packet_process_byte_def to_state_def in_data_def Let_def
          small_byte)
  qed
qed

lemma receive_data:
  assumes "k \<le> length d" and "k \<le> n" and "0 < n" and "n < 65536" and "k \<le> 2048"
    and "length (packet_buffer s) = 2048"
  shows "receive env (take k d) (in_data n d 0 s) = Some (in_data n d k s)"
  using assms(1,2,5)
proof (induction k)
  case 0
  show ?case by (simp add: receive_def)
next
  case (Suc k)
  let ?t = "in_data n d k s"
  have k: "unat (of_nat k :: u16) = k" "unat (of_nat n :: u16) = n"
    using Suc.prems assms(4) by (simp_all add: unat_of_nat)
  have le: "(of_nat n :: u16) \<le> of_nat k + 1 \<longleftrightarrow> \<not> Suc k < n"
  proof -
    have "unat (of_nat (Suc k) :: u16) = Suc k" using Suc.prems by (simp add: unat_of_nat del: of_nat_Suc)
    moreover have "(of_nat k + 1 :: u16) = of_nat (Suc k)" by simp
    ultimately show ?thesis by (simp only: word_le_nat_alt k(2) not_less)
  qed
  have buf: "(take k d @ drop k (packet_buffer s))[k := d ! k] = take (Suc k) d @ drop (Suc k) (packet_buffer s)"
  proof -
    have "drop k (packet_buffer s) = packet_buffer s ! k # drop (Suc k) (packet_buffer s)"
      using Suc.prems assms(6) by (simp add: Cons_nth_drop_Suc)
    then show ?thesis using Suc.prems by (simp add: list_update_append take_Suc_conv_app_nth)
  qed
  have "process_state ?t = DATA" using Suc.prems by (simp add: in_data_def to_state_def)
  then have "packet_process_byte env (d ! k) ?t = Some (in_data n d (Suc k) s)"
    using Suc.prems assms(6) k buf le
    by (simp add: packet_process_byte_def in_data_def to_state_def Let_def add.commute)
  moreover have "take (Suc k) d = take k d @ [d ! k]" using Suc.prems by (simp add: take_Suc_conv_app_nth)
  ultimately show ?case using Suc by (simp add: receive_append receive_Cons) (simp add: receive_def)
qed

text \<open>The state in which a received packet is handled.\<close>

definition received :: "u8 list \<Rightarrow> u16 \<Rightarrow> 'a pkt_scheme \<Rightarrow> 'a pkt_scheme" where
  "received d crc s =
     to_state END (s\<lparr>packet_buffer := d @ drop (length d) (packet_buffer s), packet_index := of_nat (length d),
       packet_length := of_nat (length d), packet_crc := crc\<rparr>)"

definition packet_done :: "'a pkt_scheme \<Rightarrow> 'a pkt_scheme" where
  "packet_done s = to_state START (s\<lparr>packet_index := 0\<rparr>)"

lemma bind_end: "Option.bind x (fold_opt f []) = x"
  by (cases x) simp_all

lemma receive_frame:
  assumes "process_state s = START" and "length (packet_buffer s) = 2048"
    and "d \<noteq> []" and "length d \<le> 2048"
  shows "receive env (packet_header (length d) @ d @ [h, l, PACKET_END]) s =
    map_option packet_done
      (if crc16 env d = be16 h l then process_packet env (of_nat (length d)) (received d (be16 h l) s)
       else Some (received d (be16 h l) s))"
proof -
  let ?n = "length d"
  have n: "unat (of_nat ?n :: u16) = ?n" "ucast (of_nat ?n :: u16) = (of_nat ?n :: u32)"
    using assms(4) by (simp_all add: unat_of_nat unsigned_of_nat take_bit_nat_eq_self)
  have "receive env (packet_header ?n @ d) s = Some (in_data ?n d ?n s)"
    using receive_header[OF assms(1), of ?n env d] receive_data[of ?n d ?n s env] assms
    by (simp add: receive_append Suc_leI)
  moreover have "receive env [h, l, PACKET_END] (in_data ?n d ?n s) =
    map_option packet_done
      (if crc16 env d = be16 h l then process_packet env (of_nat ?n) (received d (be16 h l) s)
       else Some (received d (be16 h l) s))"
    using assms(2-4) n
    by (simp add: receive_def packet_process_byte_def in_data_def to_state_def received_def be16_def
        packet_done_def[abs_def] option.map_comp o_def bind_end)
  ultimately show ?thesis
    by (simp add: receive_append[of env "packet_header ?n @ d", simplified])
qed

text \<open>
  C37: What packet_send_packet sends for the bytes \<open>d\<close>, at least one and at most 506 of
  them, a parser that waits for a packet receives as just these bytes: it handles them as
  one packet of this length, once, and then waits for the next one.
\<close>

theorem packet_roundtrip:
  assumes "process_state s = START" and "length (packet_buffer s) = 2048"
    and "d \<noteq> []" and "length d \<le> 506"
  shows "\<exists>f. packet_send_packet env d (length d) t = Some (sent f t) \<and>
    receive env f s = map_option packet_done
      (process_packet env (of_nat (length d)) (received d (crc16 env d) s)) \<and>
    take (length d) (packet_buffer (received d (crc16 env d) s)) = d \<and>
    (\<forall>s'. process_state (packet_done s') = START)"
proof -
  have "packet_send_packet env d (length d) t = Some (sent (packet_frame (crc16 env) d) t)"
    using packet_sent[of "length d" d env t] assms(4) by simp
  moreover have "receive env (packet_frame (crc16 env) d) s = map_option packet_done
      (process_packet env (of_nat (length d)) (received d (crc16 env d) s))"
    using receive_frame[OF assms(1-3), of env "hi8 (crc16 env d)" "lo8 (crc16 env d)"] assms(4)
    by (simp add: packet_frame_def)
  ultimately show ?thesis
    by (intro exI[of _ "packet_frame (crc16 env) d"]) (simp add: received_def packet_done_def to_state_def)
qed

text \<open>
  A packet whose check sum does not match changes nothing but the parser's own
  variables, and the parser waits for the next packet.
\<close>

theorem packet_bad_crc:
  assumes "process_state s = START" and "length (packet_buffer s) = 2048"
    and "d \<noteq> []" and "length d \<le> 2048" and "be16 h l \<noteq> crc16 env d"
  shows "\<exists>s'. receive env (packet_header (length d) @ d @ [h, l, PACKET_END]) s = Some s' \<and>
    process_state s' = START \<and> usb.truncate s' = usb.truncate s \<and>
    packet_send_buffer s' = packet_send_buffer s \<and> connect_event s' = connect_event s"
  using receive_frame[OF assms(1-4), of env h l] assms(5)
  by (auto simp: packet_done_def to_state_def received_def usb.truncate_def)

text \<open>
  The parser's check of the length has no effect: a length above the size of its
  buffer is accepted, and after 2048 bytes the next one is written past the buffer's end.
\<close>

theorem packet_overrun:
  assumes "process_state s = START" and "length (packet_buffer s) = 2048"
    and "2048 < n" and "n < 65536" and "length d = 2048"
  shows "\<exists>s'. receive env (packet_header n @ d) s = Some s' \<and> process_state s' = DATA \<and>
    packet_process_byte env b s' = None"
proof -
  let ?s' = "in_data n d 2048 s"
  have "receive env (packet_header n @ d) s = Some ?s'"
    using receive_header[OF assms(1,4), of env d] receive_data[of 2048 d n s env] assms
    by (simp add: receive_append)
  moreover have "process_state ?s' = DATA" "packet_process_byte env b ?s' = None"
    using assms by (simp_all add: in_data_def to_state_def packet_process_byte_def)
  ultimately show ?thesis by blast
qed

text \<open>A packet of length 0 is accepted as well, and so is a packet that never ends.\<close>

lemma packet_length_zero:
  "process_state s = START \<Longrightarrow> receive env [PACKET_START, 0] s = Some (in_data 0 [] 0 s)"
  using receive_header[of s 0 env "[]"] by (simp add: packet_header_def)

lemma packet_end_waits:
  "process_state s = END \<Longrightarrow> PACKET_END \<notin> set bs \<Longrightarrow> receive env bs s = Some s"
  by (induction bs) (auto simp: receive_def packet_process_byte_def)

subsection \<open>The timeout\<close>

lemma timeout_counts:
  "k \<le> unat (process_timeout s) \<Longrightarrow>
   (packet_timeout ^^ k) s = s\<lparr>process_timeout := process_timeout s - of_nat k\<rparr>"
proof (induction k)
  case (Suc k)
  have "unat (of_nat k :: u16) = k" using Suc.prems unsigned_less[of "process_timeout s", where ?'a = nat] by (simp add: unat_of_nat)
  then have "0 < process_timeout s - of_nat k"
    using Suc.prems unat_sub[of "of_nat k" "process_timeout s"]
    by (simp add: word_less_nat_alt word_le_nat_alt)
  then show ?case using Suc by (simp add: packet_timeout_def)
qed simp

text \<open>
  Once the timeout has been counted down, at the latest with the 1001st call after the
  last byte, the parser waits for a packet, whatever it was waiting for; but the thread
  calls it once and ends, which leaves a packet that was cut off waiting for ever.
\<close>

theorem packet_timeout_resets:
  "process_state ((packet_timeout ^^ Suc (unat (process_timeout s))) s) = START \<and>
   process_state (packet_timeout_thread s) = (if process_timeout s = 0 then START else process_state s)"
  by (auto simp: timeout_counts packet_timeout_def packet_timeout_thread_def emit_def word_gt_0)

subsection \<open>An example\<close>

definition example_env :: packet_env where
  "example_env = \<lparr>crc16 = (\<lambda>d. of_nat (length d)), logf = id, core_status = 0, heap_fragments = 0,
     heap_free = 0,
     thread_first = \<lparr>th_addr = 0, th_r13 = 0, th_prio = 0, th_refs = 1, th_state = 0, th_name = ''main'', th_time = 0\<rparr>,
     thread_rest = [], append_float32 = (\<lambda>b x i. (take i b @ float_bytes x @ drop (i + 4) b, i + 4)),
     append_uint16 = (\<lambda>b w i. (b[i := hi8 w, i + 1 := lo8 w], i + 2)),
     parse_uint16 = (\<lambda>b i. (be16 (b ! i) (b ! (i + 1)), i + 2)), parse_uint32 = (\<lambda>b i. (0, i + 4)),
     reverse_copy = (\<lambda>d s n. rev (take n s) @ drop n d), stack_bytes = [0, 0, 0, 0]\<rparr>"

definition waiting :: "'a pkt_scheme \<Rightarrow> 'a pkt_scheme" where
  "waiting s = s\<lparr>process_state := START, packet_buffer := replicate 2048 0, packet_send_buffer := replicate 1024 0\<rparr>"

lemma waiting_simps: "process_state (waiting s) = START" "length (packet_buffer (waiting s)) = 2048"
  by (simp_all add: waiting_def)

lemma example_crc: "crc16 example_env d = of_nat (length d)" by (simp add: example_env_def)

lemma packet_roundtrip_witness:
  "\<forall>s :: pkt. \<exists>f. packet_send_packet example_env [0xFF] 1 s = Some (sent f s) \<and>
    receive example_env f (waiting s) = Some (packet_done (received [0xFF] 1 (waiting s)))"
proof
  fix s :: pkt
  have "process_packet example_env 1 (received [0xFF] 1 (waiting s)) = Some (received [0xFF] 1 (waiting s))"
    by (simp add: process_packet_def received_def to_state_def packet_ids)
  with packet_roundtrip[OF waiting_simps[of s], where d = "[0xFF]" and env = example_env and t = s]
  show "\<exists>f. packet_send_packet example_env [0xFF] 1 s = Some (sent f s) \<and>
    receive example_env f (waiting s) = Some (packet_done (received [0xFF] 1 (waiting s)))"
    by (auto simp: example_crc)
qed

lemma packet_bad_crc_witness:
  "\<forall>s :: pkt. \<exists>s'. receive example_env (packet_header 1 @ [0x06, 0, 0, PACKET_END]) (waiting s) = Some s' \<and>
    process_state s' = START"
  using packet_bad_crc[OF waiting_simps, where d = "[0x06]" and h = 0 and l = 0 and env = example_env]
  by (auto simp: example_env_def be16_def)

lemma packet_overrun_witness:
  "\<forall>s :: pkt. \<exists>s'. receive example_env (packet_header 2049 @ replicate 2048 7) (waiting s) = Some s' \<and>
    packet_process_byte example_env 7 s' = None"
proof
  fix s :: pkt
  have "length (replicate 2048 (7 :: u8)) = 2048" by simp
  then show "\<exists>s'. receive example_env (packet_header 2049 @ replicate 2048 7) (waiting s) = Some s' \<and>
    packet_process_byte example_env 7 s' = None"
    using packet_overrun[OF waiting_simps[of s], where n = 2049 and env = example_env and b = 7 and
        d = "replicate 2048 7"] by (simp, blast)
qed

subsection \<open>The limits of the configuration\<close>

lemma clear_flag_config: "config (FLASH_ClearFlag m s) = config s" for s :: "'a cfg_scheme"
proof -
  have "flash.more (FLASH_ClearFlag m s) = flash.more s" by (simp add: keeps)
  then show ?thesis by (cases s, cases "FLASH_ClearFlag m s") simp
qed

lemma write_loop_config: "config (snd (config_write_loop is s)) = config s"
  using config_write_loop_frame[of "is" s] by auto

text \<open>
  C38: The limit of twelve cells is enforced only where a write starts at the field: a
  write of two bytes from the start of the structure sets any number of cells.
\<close>

theorem cell_limit_bypassed:
  assumes "length (config s) = sizeof_Config"
  shows "\<exists>ok s'. config_write_field 0 [x, n] 2 s = Some (ok, [x, n], s') \<and> numCells s' = unat n"
proof -
  let ?s3 = "FLASH_ClearFlag (FLASH_FLAG_WRPERR OR FLASH_FLAG_PGERR)
      (emit Sys_Lock (s\<lparr>config := put_bytes 0 [x, n] (config s)\<rparr>))"
  have c: "config ?s3 = x # n # drop 2 (config s)"
    by (simp add: clear_flag_config put_bytes_def emit_def numeral_2_eq_2)
  obtain ok s4 where s4: "config_write_loop [0] ?s3 = (ok, s4)" by fastforce
  then have "config s4 = x # n # drop 2 (config s)" using write_loop_config[of "[0]" ?s3] c by simp
  then have "numCells (emit Sys_Unlock s4) = unat n" by (simp add: numCells_def off_numCells_def emit_def)
  moreover have "config_write_field 0 [x, n] 2 s = Some (ok, [x, n], emit Sys_Unlock s4)"
    using assms c s4
    by (simp add: config_write_field_def config_limit_def offsets sizeof_Config_def Let_def)
  ultimately show ?thesis by blast
qed

lemma cell_limit_bypassed_witness:
  "\<forall>s :: cfg. \<exists>ok s'. config_write_field 0 [1, 200] 2 (s\<lparr>config := replicate 76 0\<rparr>) = Some (ok, [1, 200], s') \<and>
    numCells s' = 200"
proof
  fix s :: cfg
  have "length (config (s\<lparr>config := replicate 76 0\<rparr>)) = sizeof_Config" by (simp add: sizeof_Config_def)
  from cell_limit_bypassed[OF this, of 1 200]
  show "\<exists>ok s'. config_write_field 0 [1, 200] 2 (s\<lparr>config := replicate 76 0\<rparr>) = Some (ok, [1, 200], s') \<and>
    numCells s' = 200" by simp
qed

end
