(* ===== verification/Buzzer.thy ===== *)
theory Buzzer
  imports Timers Packet
begin

text \<open>
  The buzzer (buzzer.c): a tone is a period of timer 15, which counts the system clock
  divided by the prescaler. A note outside the table, and a frequency whose period has no
  32-bit value, are the result None.
\<close>

definition SYSTEM_CORE_CLOCK :: int where "SYSTEM_CORE_CLOCK = 72000000"

record buz = pkt +
  hw_timers :: timers

definition with_tim :: "TIM \<Rightarrow> (tim \<Rightarrow> tim) \<Rightarrow> 'a buz_scheme \<Rightarrow> 'a buz_scheme" where
  "with_tim t f s = s\<lparr>hw_timers := on_tim t f (hw_timers s)\<rparr>"

definition RCC_APB2Periph_TIM15 :: u32 where "RCC_APB2Periph_TIM15 = 0x10000"
definition TIM_CounterMode_Up :: u16 where "TIM_CounterMode_Up = 0"
definition TIM_CKD_DIV1 :: u16 where "TIM_CKD_DIV1 = 0"
definition TIM_OCMode_PWM1 :: u32 where "TIM_OCMode_PWM1 = 0x60"
definition TIM_OutputState_Enable :: u16 where "TIM_OutputState_Enable = 1"
definition TIM_OCPolarity_High :: u16 where "TIM_OCPolarity_High = 0"
definition TIM_OCPreload_Enable :: u16 where "TIM_OCPreload_Enable = 8"

text \<open>The frequencies of the notes C0 to B9, as written in the table.\<close>

definition midi_literals :: "rat list" where
  "midi_literals =
   [
    163515978313 / 10000000000, 173239144361 / 10000000000, 183540479948 / 10000000000,
    194454364826 / 10000000000, 206017223071 / 10000000000, 218267644646 / 10000000000,
    231246514195 / 10000000000, 244997147489 / 10000000000, 259565435987 / 10000000000, 275 / 10,
    291352350949 / 10000000000, 308677063285 / 10000000000, 327031956626 / 10000000000,
    346478288721 / 10000000000, 367080959897 / 10000000000, 388908729653 / 10000000000,
    412034446141 / 10000000000, 436535289291 / 10000000000, 46249302839 / 1000000000,
    489994294977 / 10000000000, 519130871975 / 10000000000, 550 / 10, 582704701898 / 10000000000,
    61735412657 / 1000000000, 654063913251 / 10000000000, 692956577442 / 10000000000,
    734161919794 / 10000000000, 777817459305 / 10000000000, 824068892282 / 10000000000,
    873070578583 / 10000000000, 924986056779 / 10000000000, 979988589954 / 10000000000,
    103826174395 / 1000000000, 1100 / 10, 11654094038 / 100000000, 123470825314 / 1000000000,
    13081278265 / 100000000, 138591315488 / 1000000000, 146832383959 / 1000000000,
    155563491861 / 1000000000, 164813778456 / 1000000000, 174614115717 / 1000000000,
    184997211356 / 1000000000, 195997717991 / 1000000000, 20765234879 / 100000000, 2200 / 10,
    233081880759 / 1000000000, 246941650628 / 1000000000, 261625565301 / 1000000000,
    277182630977 / 1000000000, 293664767917 / 1000000000, 311126983722 / 1000000000,
    329627556913 / 1000000000, 349228231433 / 1000000000, 369994422712 / 1000000000,
    391995435982 / 1000000000, 41530469758 / 100000000, 4400 / 10, 466163761518 / 1000000000,
    493883301256 / 1000000000, 523251130601 / 1000000000, 554365261954 / 1000000000,
    587329535835 / 1000000000, 622253967444 / 1000000000, 659255113826 / 1000000000,
    698456462866 / 1000000000, 739988845423 / 1000000000, 783990871963 / 1000000000,
    83060939516 / 100000000, 8800 / 10, 932327523036 / 1000000000, 987766602512 / 1000000000,
    10465022612 / 10000000, 110873052391 / 100000000, 117465907167 / 100000000,
    124450793489 / 100000000, 131851022765 / 100000000, 139691292573 / 100000000,
    147997769085 / 100000000, 156798174393 / 100000000, 166121879032 / 100000000, 17600 / 10,
    186465504607 / 100000000, 197553320502 / 100000000, 20930045224 / 10000000,
    221746104781 / 100000000, 234931814334 / 100000000, 248901586978 / 100000000,
    26370204553 / 10000000, 279382585146 / 100000000, 295995538169 / 100000000,
    313596348785 / 100000000, 332243758064 / 100000000, 35200 / 10, 372931009214 / 100000000,
    395106641005 / 100000000, 418600904481 / 100000000, 443492209563 / 100000000,
    469863628668 / 100000000, 497803173955 / 100000000, 527404091061 / 100000000,
    558765170293 / 100000000, 591991076339 / 100000000, 627192697571 / 100000000,
    664487516128 / 100000000, 70400 / 10, 745862018429 / 100000000, 79021328201 / 10000000,
    837201808962 / 100000000, 886984419126 / 100000000, 939727257336 / 100000000,
    995606347911 / 100000000, 105480818212 / 10000000, 111753034059 / 10000000,
    118398215268 / 10000000, 125438539514 / 10000000, 132897503226 / 10000000, 140800 / 10,
    149172403686 / 10000000, 158042656402 / 10000000   ]"

definition midi :: "fp list" where
  "midi = map flit midi_literals"

definition buzzer_init :: "'a buz_scheme \<Rightarrow> 'a buz_scheme" where
  "buzzer_init s =
     (let h1 = TIM_DeInit TIM15 (hw_timers s);
          h2 = on_tim TIM15 (\<lambda>r. r\<lparr>CNT := 0\<rparr>) h1;
          h3 = rccEnableAPB2 RCC_APB2Periph_TIM15 h2;
          timerInitStructure =
            \<lparr>TIM_Prescaler = 0, TIM_CounterMode = TIM_CounterMode_Up,
             TIM_Period = of_int (SYSTEM_CORE_CLOCK div 4000), TIM_ClockDivision = TIM_CKD_DIV1,
             TIM_RepetitionCounter = 0\<rparr>;
          h4 = on_tim TIM15 (TIM_TimeBaseInit TIM15 timerInitStructure) h3;
          h5 = on_tim TIM15 (TIM_Cmd True) h4;
          outputChannelInit =
            \<lparr>TIM_OCMode = TIM_OCMode_PWM1, TIM_OutputState = TIM_OutputState_Enable,
             TIM_OutputNState = 0, TIM_Pulse = 0, TIM_OCPolarity = TIM_OCPolarity_High,
             TIM_OCNPolarity = 0, TIM_OCIdleState = 0, TIM_OCNIdleState = 0\<rparr>;
          h6 = on_tim TIM15 (TIM_OC2Init TIM15 outputChannelInit) h5;
          h7 = on_tim TIM15 (TIM_OC2PreloadConfig TIM_OCPreload_Enable) h6;
          h8 = on_tim TIM15 (\<lambda>r. r\<lparr>CCR2 := 0\<rparr>) h7
      in s\<lparr>hw_timers := on_tim TIM15 (TIM_CtrlPWMOutputs True) h8\<rparr>)"

definition to_int32 :: "fp \<Rightarrow> int option" where
  "to_int32 x =
     (case fp_trunc x of None \<Rightarrow> None
      | Some v \<Rightarrow> if -(2 ^ 31) \<le> v \<and> v < 2 ^ 31 then Some v else None)"

text \<open>The prescaler's factor for a frequency; for the highest range the code multiplies by nothing.\<close>

definition buzzer_factor :: "fp \<Rightarrow> nat" where
  "buzzer_factor freq =
     (if fp_less freq (int_f32 100) then 32
      else if fp_less freq (int_f32 200) then 16
      else if fp_less freq (int_f32 400) then 8
      else if fp_less freq (int_f32 700) then 4
      else if fp_less freq (int_f32 1300) then 2
      else 1)"

definition buzzer_set_frequency :: "fp \<Rightarrow> 'a buz_scheme \<Rightarrow> 'a buz_scheme option" where
  "buzzer_set_frequency freq s =
     (if fp_eq freq (Fin 0) then Some (with_tim TIM15 (\<lambda>r. r\<lparr>CCR2 := 0\<rparr>) s)
      else
        let k = buzzer_factor freq;
            product = (if k = 1 then freq else fp_mul rnd32 freq (int_f32 (int k)))
        in map_option
             (\<lambda>period. with_tim TIM15
                (\<lambda>r. let r1 = r\<lparr>PSC := of_nat (k - 1), ARR := of_int period\<rparr> in r1\<lparr>CCR2 := ARR r1 div 2\<rparr>) s)
             (to_int32 (fp_div rnd32 (int_f32 SYSTEM_CORE_CLOCK) product)))"

definition buzzer_play_note :: "nat \<Rightarrow> u16 \<Rightarrow> 'a buz_scheme \<Rightarrow> 'a buz_scheme option" where
  "buzzer_play_note note duration s =
     (if length midi \<le> note then None
      else map_option (emit (Sleep_Ms (ucast duration))) (buzzer_set_frequency (midi ! note) s))"

definition buzzer_play_rest :: "u16 \<Rightarrow> 'a buz_scheme \<Rightarrow> 'a buz_scheme option" where
  "buzzer_play_rest duration s = map_option (emit (Sleep_Ms (ucast duration))) (buzzer_set_frequency (Fin 0) s)"

subsection \<open>The tone\<close>

lemma clock_exact: "int_f32 SYSTEM_CORE_CLOCK = Fin 72000000"
proof -
  have "fits 24 (-149) \<bar>72000000\<bar>"
    unfolding fits_def by (rule exI[of _ 140625], rule exI[of _ 9]) simp
  then have "rnd32 72000000 = Fin 72000000" unfolding rnd32_def by (rule round_fp_exact) simp
  then show ?thesis by (simp add: int_f32_def SYSTEM_CORE_CLOCK_def)
qed

lemma fp_between:
  assumes "fp_le (Fin a) x" and "fp_le x (Fin b)"
  obtains y where "x = Fin y" and "a \<le> y" and "y \<le> b"
  using assms by (cases x) auto

text \<open>The range of the rounded product, and of the period.\<close>

lemma product_range:
  assumes "of_int a \<le> x" and "x \<le> of_int b" and "\<bar>a\<bar> < 2 ^ 24" and "\<bar>b\<bar> < 2 ^ 24"
  obtains y where "rnd32 x = Fin y" and "of_int a \<le> y" and "y \<le> of_int b"
  using fp_between[of "of_int a" "rnd32 x" "of_int b"] mono_roundD[OF mono_rnd(1) assms(1)]
    mono_roundD[OF mono_rnd(1) assms(2)] int_exact(2)[OF assms(3)] int_exact(2)[OF assms(4)]
  by (metis (no_types, lifting))

lemma period_range:
  assumes "1120 \<le> y" and "y \<le> 20000"
  obtains q where "fp_div rnd32 (Fin 72000000) (Fin y) = Fin q" and "3600 \<le> q" and "q \<le> 65535"
proof -
  have "of_int 3600 \<le> 72000000 / y" "72000000 / y \<le> of_int 65535"
    using assms by (simp_all add: field_simps)
  then obtain q where "rnd32 (72000000 / y) = Fin q" "of_int 3600 \<le> q" "q \<le> of_int 65535"
    by (rule product_range) simp_all
  with that assms show ?thesis by simp
qed

lemma factor_range:
  assumes "35 \<le> f" and "f \<le> 20000" and "rnd32 f = Fin f"
  shows "buzzer_factor (Fin f) \<in> {1, 2, 4, 8, 16, 32} \<and>
    (\<exists>y. (if buzzer_factor (Fin f) = 1 then Fin f
          else fp_mul rnd32 (Fin f) (int_f32 (int (buzzer_factor (Fin f))))) = Fin y \<and>
      1120 \<le> y \<and> y \<le> 20000)"
proof -
  have n: "int_f32 100 = Fin 100" "int_f32 200 = Fin 200" "int_f32 400 = Fin 400" "int_f32 700 = Fin 700"
    "int_f32 1300 = Fin 1300" "int_f32 32 = Fin 32" "int_f32 16 = Fin 16" "int_f32 8 = Fin 8"
    "int_f32 4 = Fin 4" "int_f32 2 = Fin 2"
    using int_exact(1)[of 100] int_exact(1)[of 200] int_exact(1)[of 400] int_exact(1)[of 700]
      int_exact(1)[of 1300] int_exact(1)[of 32] int_exact(1)[of 16] int_exact(1)[of 8]
      int_exact(1)[of 4] int_exact(1)[of 2] by simp_all
  have p: "\<exists>y. rnd32 x = Fin y \<and> 1120 \<le> y \<and> y \<le> 20000" if "1120 \<le> x" "x \<le> 20000" for x
    using product_range[of 1120 x 20000] that by auto
  consider "f < 100" | "100 \<le> f" "f < 200" | "200 \<le> f" "f < 400" | "400 \<le> f" "f < 700"
    | "700 \<le> f" "f < 1300" | "1300 \<le> f" by linarith
  then show ?thesis
    using assms p[of "f * 32"] p[of "f * 16"] p[of "f * 8"] p[of "f * 4"] p[of "f * 2"]
    by cases (simp_all add: buzzer_factor_def n)
qed

text \<open>
  For every frequency from 35 Hz to 20 kHz the period fits into the 16 bits of the
  timer's register: the register holds the whole part of the quotient the code computes,
  and the output is on for half of the period.
\<close>

theorem buzzer_period:
  assumes "35 \<le> f" and "f \<le> 20000" and "rnd32 f = Fin f"
  shows "\<exists>s' k y q. buzzer_set_frequency (Fin f) s = Some s' \<and> k \<in> {1, 2, 4, 8, 16, 32} \<and>
    (if k = 1 then Fin f else fp_mul rnd32 (Fin f) (int_f32 (int k))) = Fin y \<and>
    rnd32 (72000000 / y) = Fin q \<and> PSC (tims (hw_timers s') TIM15) = of_nat (k - 1) \<and>
    int (unat (ARR (tims (hw_timers s') TIM15))) = \<lfloor>q\<rfloor> \<and>
    unat (CCR2 (tims (hw_timers s') TIM15)) = unat (ARR (tims (hw_timers s') TIM15)) div 2"
proof -
  let ?k = "buzzer_factor (Fin f)"
  obtain y where k: "?k \<in> {1, 2, 4, 8, 16, 32}"
    and y: "(if ?k = 1 then Fin f else fp_mul rnd32 (Fin f) (int_f32 (int ?k))) = Fin y" "1120 \<le> y" "y \<le> 20000"
    using factor_range[OF assms] by blast
  obtain q where q: "fp_div rnd32 (Fin 72000000) (Fin y) = Fin q" "3600 \<le> q" "q \<le> 65535"
    using period_range[OF y(2,3)] by blast
  have i: "3600 \<le> \<lfloor>q\<rfloor>" "\<lfloor>q\<rfloor> \<le> 65535" using q(2,3) by (simp_all add: le_floor_iff floor_le_iff)
  have t: "to_int32 (fp_div rnd32 (int_f32 SYSTEM_CORE_CLOCK)
      (if ?k = 1 then Fin f else fp_mul rnd32 (Fin f) (int_f32 (int ?k)))) = Some \<lfloor>q\<rfloor>"
    unfolding y(1) clock_exact q(1) using q(2) i by (simp add: to_int32_def)
  have a: "int (unat (of_int \<lfloor>q\<rfloor> :: u16)) = \<lfloor>q\<rfloor>"
  proof -
    have "\<lfloor>q\<rfloor> mod 2 ^ 16 = \<lfloor>q\<rfloor>" by (rule mod_pos_pos_trivial) (use i in simp_all)
    then show ?thesis by (simp add: uint_word_of_int)
  qed
  obtain s' where s': "buzzer_set_frequency (Fin f) s = Some s'"
    "tims (hw_timers s') TIM15 = (tims (hw_timers s) TIM15)
      \<lparr>PSC := of_nat (?k - 1), ARR := of_int \<lfloor>q\<rfloor>, CCR2 := of_int \<lfloor>q\<rfloor> div 2\<rparr>"
    using assms(1) t
    by (simp add: buzzer_set_frequency_def Let_def fp_eq_def with_tim_def on_tim_def)
  have "rnd32 (72000000 / y) = Fin q" using q(1) y(2) by simp
  then show ?thesis using s' k y(1) a
    by (intro exI[of _ s'] exI[of _ ?k] exI[of _ y] exI[of _ q]) (simp add: unat_div)
qed

lemma buzzer_period_witness:
  "\<forall>s :: buz. \<exists>s' k y q. buzzer_set_frequency (Fin 440) s = Some s' \<and> k \<in> {1, 2, 4, 8, 16, 32} \<and>
    rnd32 (72000000 / y) = Fin q \<and> int (unat (ARR (tims (hw_timers s') TIM15))) = \<lfloor>q\<rfloor>"
proof
  fix s :: buz
  have "rnd32 440 = Fin 440" using int_exact(2)[of 440] by simp
  then show "\<exists>s' k y q. buzzer_set_frequency (Fin 440) s = Some s' \<and> k \<in> {1, 2, 4, 8, 16, 32} \<and>
    rnd32 (72000000 / y) = Fin q \<and> int (unat (ARR (tims (hw_timers s') TIM15))) = \<lfloor>q\<rfloor>"
    using buzzer_period[of 440 s] by simp blast
qed

end
