(* ===== verification/Ws2812b.thy ===== *)
theory Ws2812b
  imports Buzzer
begin

text \<open>
  The light strip (ws2812b.c) and what is switched with it (accessory.c). A buffer in memory
  holds one compare value of timer 1 for each bit of the strip's protocol; the DMA channel
  copies it to the timer over and over. powf of the C library, the address of the buffer and
  the fields of the structures on the stack that the code leaves uninitialised are
  parameters.
\<close>

definition WS2812B_CLK_HZ :: nat where "WS2812B_CLK_HZ = 800000"
definition WS2812B_LED_NUM :: nat where "WS2812B_LED_NUM = 1"
definition TIM_PERIOD :: nat where "TIM_PERIOD = 72000000 div WS2812B_CLK_HZ - 1"
definition LED_BUFFER_LEN :: nat where "LED_BUFFER_LEN = WS2812B_LED_NUM + 1"
definition BITBUFFER_PAD :: nat where "BITBUFFER_PAD = 50"
definition BITBUFFER_LEN :: nat where "BITBUFFER_LEN = 24 * LED_BUFFER_LEN + BITBUFFER_PAD"

text \<open>A double assigned to a 16-bit variable.\<close>

definition to_u16 :: "fp \<Rightarrow> u16" where
  "to_u16 x = (case fp_trunc x of None \<Rightarrow> 0 | Some v \<Rightarrow> of_int v)"

definition WS2812B_ZERO :: u16 where
  "WS2812B_ZERO = to_u16 (fp_mul rnd64 (Fin (of_nat TIM_PERIOD)) (dlit (32 / 100)))"

definition WS2812B_ONE :: u16 where
  "WS2812B_ONE = to_u16 (fp_mul rnd64 (Fin (of_nat TIM_PERIOD)) (dlit (64 / 100)))"

lemmas strip_sizes = WS2812B_LED_NUM_def LED_BUFFER_LEN_def BITBUFFER_PAD_def BITBUFFER_LEN_def

record strip = buz +
  bitbuffer :: "u16 list"
  RGBdata :: "u32 list"
  gamma_table :: "u8 list"

record strip_env =
  powf :: "fp \<Rightarrow> fp \<Rightarrow> fp"
  bitbuffer_addr :: u32
  stack_oc :: TIM_OCInitTypeDef

subsection \<open>Colours\<close>

text \<open>A colour is red, green and blue; the strip wants green, red and blue.\<close>

definition rgb_to_local :: "u8 list \<Rightarrow> u32 \<Rightarrow> u32" where
  "rgb_to_local gamma color =
     (let r = gamma ! unat (drop_bit 16 color AND 0xFF);
          g = gamma ! unat (drop_bit 8 color AND 0xFF);
          b = gamma ! unat (color AND 0xFF)
      in push_bit 16 (ucast g) OR push_bit 8 (ucast r) OR ucast b)"

text \<open>One bit into the buffer; the colour moves to the left.\<close>

definition put_bit :: "nat \<Rightarrow> nat \<Rightarrow> u32 \<times> u16 list \<Rightarrow> u32 \<times> u16 list" where
  "put_bit i n = (\<lambda>(c, b).
     (push_bit 1 c, b[n + i * 24 := (if c AND push_bit 23 1 \<noteq> 0 then WS2812B_ONE else WS2812B_ZERO)]))"

definition put_led :: "nat \<Rightarrow> u32 \<Rightarrow> u16 list \<Rightarrow> u16 list" where
  "put_led i c b = snd (fold (put_bit i) [0..<24] (c, b))"

definition set_led :: "u32 \<Rightarrow> nat \<Rightarrow> 'a strip_scheme \<Rightarrow> 'a strip_scheme" where
  "set_led color i s =
     s\<lparr>RGBdata := (RGBdata s)[i := color],
       bitbuffer := put_led i (rgb_to_local (gamma_table s) color) (bitbuffer s)\<rparr>"

definition ws2812b_set_led_color :: "int \<Rightarrow> u32 \<Rightarrow> 'a strip_scheme \<Rightarrow> 'a strip_scheme option" where
  "ws2812b_set_led_color led color s =
     (if led < int WS2812B_LED_NUM then if led < 0 then None else Some (set_led color (nat led) s)
      else Some s)"

definition ws2812b_get_led_color :: "int \<Rightarrow> 'a strip_scheme \<Rightarrow> u32 option" where
  "ws2812b_get_led_color led s =
     (if led < int WS2812B_LED_NUM then if led < 0 then None else Some (RGBdata s ! nat led)
      else Some 0)"

definition ws2812b_all_off :: "'a strip_scheme \<Rightarrow> 'a strip_scheme" where
  "ws2812b_all_off s =
     s\<lparr>RGBdata := fold (\<lambda>i d. d[i := 0]) [0..<WS2812B_LED_NUM] (RGBdata s),
       bitbuffer := fold (\<lambda>i b. b[i := WS2812B_ZERO]) [0..<WS2812B_LED_NUM * 24] (bitbuffer s)\<rparr>"

definition ws2812b_set_all :: "u32 \<Rightarrow> 'a strip_scheme \<Rightarrow> 'a strip_scheme" where
  "ws2812b_set_all color s = fold (set_led color) [0..<WS2812B_LED_NUM] s"

subsection \<open>Start\<close>

fun fp_round :: "fp \<Rightarrow> fp" where
  "fp_round (Fin x) = Fin (of_int (if x < 0 then - \<lfloor>1 / 2 - x\<rfloor> else \<lfloor>x + 1 / 2\<rfloor>))"
| "fp_round a = a"

definition gamma_entry :: "(fp \<Rightarrow> fp \<Rightarrow> fp) \<Rightarrow> nat \<Rightarrow> u8 option" where
  "gamma_entry pow i =
     (let base = to32 (fp_div rnd64 (int_f32 (int i)) (Fin 255));
          ex = to32 (fp_div rnd64 (Fin 1) (dlit (45 / 100)))
      in map_option of_int (to_int32 (fp_round (to32 (fp_mul rnd64 (pow base ex) (Fin 255))))))"

definition gamma_entries :: "(fp \<Rightarrow> fp \<Rightarrow> fp) \<Rightarrow> u8 list option" where
  "gamma_entries pow = fold_opt (\<lambda>i g. map_option (\<lambda>v. g @ [v]) (gamma_entry pow i)) [0..<256] []"

definition pad_bit :: "nat \<Rightarrow> u16 list \<Rightarrow> u16 list" where
  "pad_bit i b = b[BITBUFFER_LEN - BITBUFFER_PAD - 1 + i := 0]"

definition ws2812b_buffers :: "'a strip_scheme \<Rightarrow> 'a strip_scheme" where
  "ws2812b_buffers s =
     (let rgb = fold (\<lambda>i d. d[i := 0]) [0..<LED_BUFFER_LEN] (RGBdata s);
          b1 = fold (\<lambda>i. put_led i (rgb_to_local (gamma_table s) (rgb ! i))) [0..<LED_BUFFER_LEN] (bitbuffer s)
      in s\<lparr>RGBdata := rgb, bitbuffer := fold pad_bit [0..<BITBUFFER_PAD] b1\<rparr>)"

definition TIM1_CCR2_addr :: u32 where "TIM1_CCR2_addr = 0x40012C38"

definition strip_dma :: "strip_env \<Rightarrow> DMA_InitTypeDef" where
  "strip_dma env =
     \<lparr>DMA_PeripheralBaseAddr = TIM1_CCR2_addr, DMA_MemoryBaseAddr = bitbuffer_addr env,
      DMA_DIR = 0x10, DMA_BufferSize = of_nat BITBUFFER_LEN, DMA_PeripheralInc = 0,
      DMA_MemoryInc = 0x80, DMA_PeripheralDataSize = 0x100, DMA_MemoryDataSize = 0x400,
      DMA_Mode = 0x20, DMA_Priority = 0x3000, DMA_M2M = 0\<rparr>"

definition strip_timer :: "strip_env \<Rightarrow> u16 \<Rightarrow> timers \<Rightarrow> timers" where
  "strip_timer env pulse h =
     (let h1 = rccEnableAPB2 0x800 (RCC_AHBPeriphClockCmd 0x1 True h);
          h2 = on_dma (DMA_Init (strip_dma env)) (DMA_DeInit h1);
          TIM_TimeBaseStructure =
            \<lparr>TIM_Prescaler = 0, TIM_CounterMode = TIM_CounterMode_Up, TIM_Period = of_nat TIM_PERIOD,
             TIM_ClockDivision = 0, TIM_RepetitionCounter = 0\<rparr>;
          h3 = on_tim TIM1 (TIM_TimeBaseInit TIM1 TIM_TimeBaseStructure) h2;
          TIM_OCInitStructure =
            (stack_oc env)\<lparr>TIM_OCMode := TIM_OCMode_PWM1, TIM_OutputState := TIM_OutputState_Enable,
              TIM_Pulse := ucast pulse, TIM_OCPolarity := TIM_OCPolarity_High\<rparr>;
          h4 = on_tim TIM1 (TIM_OC2Init TIM1 TIM_OCInitStructure) h3;
          h5 = on_tim TIM1 (TIM_OC2PreloadConfig TIM_OCPreload_Enable) h4;
          h6 = on_tim TIM1 (TIM_DMACmd 0x100 True) h5;
          h7 = on_tim TIM1 (TIM_Cmd True) h6;
          h8 = on_dma (DMA_Cmd True) (on_dma (DMA_ITConfig 0x2 True) h7)
      in on_tim TIM1 (TIM_CtrlPWMOutputs True) h8)"

definition ws2812b_init :: "strip_env \<Rightarrow> 'a strip_scheme \<Rightarrow> 'a strip_scheme option" where
  "ws2812b_init env s =
     (let s1 = ws2812b_buffers s in
      map_option
        (\<lambda>g. s1\<lparr>gamma_table := g, hw_timers := strip_timer env (bitbuffer s1 ! 0) (hw_timers s1)\<rparr>)
        (gamma_entries (powf env)))"

subsection \<open>Accessories\<close>

definition accessory_init :: "strip_env \<Rightarrow> 'a strip_scheme \<Rightarrow> 'a strip_scheme option" where
  "accessory_init env s =
     ws2812b_init env
       (palSetPadMode ACC2 (PAL_MODE_ALTERNATE 6)
         (palSetPad ACC1
           (palSetPadMode ACC1 (PAL_MODE_OUTPUT_OPENDRAIN OR PAL_STM32_OSPEED_MID1) s)))"

definition accessory_update :: "'a strip_scheme \<Rightarrow> 'a strip_scheme" where
  "accessory_update s =
     (if \<not> power_is_shutdown s then ws2812b_set_all 0x00FF00 (palClearPad ACC1 s) else palSetPad ACC1 s)"

subsection \<open>What the strip receives\<close>

lemma lit_32: "rnd64 (32 / 100) = Fin (5764607523034235 / 18014398509481984)"
proof -
  have "round_even (32 / 100 / 2 powi (-54)) = 5764607523034235" by (rule round_evenI) simp_all
  then have "round_fp 53 (-1074) 1023 (32 / 100) = Fin (of_int 5764607523034235 * 2 powi (-54))"
    by (intro round_fp_eval[of "-2"]) simp_all
  then show ?thesis by (simp add: rnd64_def)
qed

lemma lit_64: "rnd64 (64 / 100) = Fin (5764607523034235 / 9007199254740992)"
proof -
  have "round_even (64 / 100 / 2 powi (-53)) = 5764607523034235" by (rule round_evenI) simp_all
  then have "round_fp 53 (-1074) 1023 (64 / 100) = Fin (of_int 5764607523034235 * 2 powi (-53))"
    by (intro round_fp_eval[of "-1"]) simp_all
  then show ?thesis by (simp add: rnd64_def)
qed

lemma mul_89: "rnd64 (513050069550046915 / 18014398509481984) = Fin (8016407336719483 / 281474976710656)"
  "rnd64 (513050069550046915 / 9007199254740992) = Fin (8016407336719483 / 140737488355328)"
proof -
  have "round_even (513050069550046915 / 18014398509481984 / 2 powi (-48)) = 8016407336719483"
    by (rule round_evenI) simp_all
  then have "round_fp 53 (-1074) 1023 (513050069550046915 / 18014398509481984) =
      Fin (of_int 8016407336719483 * 2 powi (-48))"
    by (intro round_fp_eval[of 4]) simp_all
  then show "rnd64 (513050069550046915 / 18014398509481984) = Fin (8016407336719483 / 281474976710656)"
    by (simp add: rnd64_def)
  have "round_even (513050069550046915 / 9007199254740992 / 2 powi (-47)) = 8016407336719483"
    by (rule round_evenI) simp_all
  then have "round_fp 53 (-1074) 1023 (513050069550046915 / 9007199254740992) =
      Fin (of_int 8016407336719483 * 2 powi (-47))"
    by (intro round_fp_eval[of 5]) simp_all
  then show "rnd64 (513050069550046915 / 9007199254740992) = Fin (8016407336719483 / 140737488355328)"
    by (simp add: rnd64_def)
qed

lemma floors: "\<lfloor>8016407336719483 / 281474976710656 :: rat\<rfloor> = 28"
  "\<lfloor>8016407336719483 / 140737488355328 :: rat\<rfloor> = 56"
  by (rule floor_unique; simp)+

text \<open>Of the 90 counts of a bit the output is high for 28 or 56.\<close>

lemma bit_values: "WS2812B_ZERO = 28" "WS2812B_ONE = 56"
  by (simp_all add: WS2812B_ZERO_def WS2812B_ONE_def to_u16_def TIM_PERIOD_def WS2812B_CLK_HZ_def
      lit_32[simplified] lit_64[simplified] mul_89 floors)

text \<open>The compare values for a byte, most significant bit first.\<close>

definition light_bits :: "u8 \<Rightarrow> u16 list" where
  "light_bits v = map (\<lambda>j. if bit v (7 - j) then WS2812B_ONE else WS2812B_ZERO) [0..<8]"

lemma top_bit:
  fixes c :: u32
  assumes "k < 24"
  shows "push_bit k c AND push_bit 23 1 \<noteq> 0 \<longleftrightarrow> bit c (23 - k)"
proof -
  have "push_bit k c AND push_bit 23 1 \<noteq> 0 \<longleftrightarrow> bit (push_bit k c) 23"
    by (simp only: push_bit_of_1 and_exp_eq_0_iff_not_bit not_not)
  also have "\<dots> \<longleftrightarrow> bit c (23 - k)" using assms by (simp add: bit_push_bit_iff)
  finally show ?thesis .
qed

lemma put_bits:
  assumes "i * 24 + k \<le> length b" and "k \<le> 24"
  shows "fold (put_bit i) [0..<k] (c, b) = (push_bit k c,
    take (i * 24) b @ map (\<lambda>j. if bit c (23 - j) then WS2812B_ONE else WS2812B_ZERO) [0..<k] @
    drop (i * 24 + k) b)"
  using assms
proof (induction k)
  case (Suc k)
  let ?f = "\<lambda>j. if bit c (23 - j) then WS2812B_ONE else WS2812B_ZERO"
  have d: "drop (i * 24 + k) b = b ! (i * 24 + k) # drop (i * 24 + Suc k) b"
    using Suc.prems(1) by (simp add: Cons_nth_drop_Suc)
  have "(take (i * 24) b @ map ?f [0..<k] @ drop (i * 24 + k) b)[k + i * 24 := ?f k] =
      take (i * 24) b @ map ?f [0..<Suc k] @ drop (i * 24 + Suc k) b"
    unfolding d using Suc.prems(1) by (simp add: list_update_append)
  moreover have "push_bit 1 (push_bit k c) = push_bit (Suc k) c" by (simp only: push_bit_push_bit) simp
  ultimately show ?case using Suc top_bit[of k c] by (simp add: put_bit_def del: push_bit_Suc)
qed simp

lemma local_bits:
  fixes r g b :: u8
  shows "map (\<lambda>j. if bit (push_bit 16 (ucast g) OR push_bit 8 (ucast r) OR ucast b :: u32) (23 - j)
      then WS2812B_ONE else WS2812B_ZERO) [0..<24] = light_bits g @ light_bits r @ light_bits b"
proof -
  let ?c = "push_bit 16 (ucast g) OR push_bit 8 (ucast r) OR ucast b :: u32"
  let ?f = "\<lambda>c n. if bit c n then WS2812B_ONE else WS2812B_ZERO"
  have bits: "bit ?c n \<longleftrightarrow> (if n < 8 then bit b n else if n < 16 then bit r (n - 8) else n < 24 \<and> bit g (n - 16))" for n
    using bit_imp_le_length[of g "n - 16"] bit_imp_le_length[of r "n - 8"] bit_imp_le_length[of b n]
    by (auto simp: bit_or_iff bit_push_bit_iff bit_ucast_iff)
  have "[0..<24] = [0..<8] @ map (\<lambda>j. j + 8) [0..<8] @ map (\<lambda>j. j + 16) [0..<8]"
    by (simp add: upt_conv_Cons)
  then have "map (\<lambda>j. ?f ?c (23 - j)) [0..<24] = map (\<lambda>j. ?f ?c (23 - j)) [0..<8] @
      map (\<lambda>j. ?f ?c (23 - (j + 8))) [0..<8] @ map (\<lambda>j. ?f ?c (23 - (j + 16))) [0..<8]"
    by (simp only: map_append map_map o_def)
  moreover have "bit ?c (23 - j) = bit g (7 - j)" "bit ?c (23 - (j + 8)) = bit r (7 - j)"
    "bit ?c (23 - (j + 16)) = bit b (7 - j)" if "j < 8" for j
  proof -
    have "\<not> 23 - j < 8" "\<not> 23 - j < 16" "23 - j < 24" "23 - j - 16 = 7 - j"
      "\<not> 23 - (j + 8) < 8" "23 - (j + 8) < 16" "23 - (j + 8) - 8 = 7 - j"
      "23 - (j + 16) < 8" "23 - (j + 16) = 7 - j" using that by linarith+
    then show "bit ?c (23 - j) = bit g (7 - j)" "bit ?c (23 - (j + 8)) = bit r (7 - j)"
      "bit ?c (23 - (j + 16)) = bit b (7 - j)"
      by (simp_all only: bits if_True if_False simp_thms)
  qed
  then have "map (\<lambda>j. ?f ?c (23 - j)) [0..<8] = light_bits g"
    "map (\<lambda>j. ?f ?c (23 - (j + 8))) [0..<8] = light_bits r"
    "map (\<lambda>j. ?f ?c (23 - (j + 16))) [0..<8] = light_bits b"
    unfolding light_bits_def by (intro map_cong refl, simp only: set_upt atLeastLessThan_iff)+
  ultimately show ?thesis by simp
qed

text \<open>
  After a colour is set, the first 24 compare values are those of the corrected green,
  red and blue, each with its most significant bit first, and the rest of the buffer, which
  makes the strip take the colour over, is as it was.
\<close>

theorem strip_colour:
  assumes "24 \<le> length (bitbuffer s)"
  shows "bitbuffer (ws2812b_set_all color s) =
    light_bits (gamma_table s ! unat (drop_bit 8 color AND 0xFF)) @
    light_bits (gamma_table s ! unat (drop_bit 16 color AND 0xFF)) @
    light_bits (gamma_table s ! unat (color AND 0xFF)) @ drop 24 (bitbuffer s)"
  using put_bits[of 0 24 "bitbuffer s" "rgb_to_local (gamma_table s) color"] assms
  by (simp add: ws2812b_set_all_def WS2812B_LED_NUM_def set_led_def put_led_def rgb_to_local_def Let_def local_bits)

lemma strip_colour_witness:
  "\<forall>s :: strip. take 8 (bitbuffer (ws2812b_set_all 0x00FF00
      (s\<lparr>bitbuffer := replicate 98 0, gamma_table := replicate 256 0xF0\<rparr>))) = [56, 56, 56, 56, 28, 28, 28, 28]"
proof
  fix s :: strip
  have "24 \<le> length (bitbuffer (s\<lparr>bitbuffer := replicate 98 0, gamma_table := replicate 256 0xF0\<rparr>))" by simp
  moreover have "light_bits 0xF0 = [56, 56, 56, 56, 28, 28, 28, 28]"
    by (simp add: light_bits_def upt_conv_Cons bit_values)
  ultimately show "take 8 (bitbuffer (ws2812b_set_all 0x00FF00
      (s\<lparr>bitbuffer := replicate 98 0, gamma_table := replicate 256 0xF0\<rparr>))) = [56, 56, 56, 56, 28, 28, 28, 28]"
    by (subst strip_colour) simp_all
qed

text \<open>
  The padding starts one element early: the start clears the last bit of the unused second
  colour, and leaves the last element of the buffer as it was (it is 0 in a fresh buffer).
\<close>

lemma pad_indices:
  "fold pad_bit [0..<BITBUFFER_PAD] b = fold (\<lambda>i b. b[i := 0]) [47..<97] b"
proof -
  have "[47..<97] = map (\<lambda>i. i + 47) [0..<50]" unfolding map_add_upt by simp
  then have "fold (\<lambda>i b. b[i := 0]) [47..<97] b = fold (\<lambda>i b. b[i + 47 := 0]) [0..<50] b"
    by (simp only: fold_map o_def)
  moreover have "pad_bit = (\<lambda>i b. b[i + 47 := 0])"
    by (simp add: pad_bit_def[abs_def] strip_sizes add.commute)
  ultimately show ?thesis by (simp add: BITBUFFER_PAD_def)
qed

end
