(* ===== verification/Firmware.thy ===== *)
theory Firmware
  imports Ws2812b
begin

text \<open>
  The program as a whole (main.c) with the indicator light (led_rgb.c): the start, one pass
  of the main loop and of the two threads of main.c, and the steps of the system: passes of
  the main loop, the interrupt of the alert pin, and the handling of received bytes, frames
  and USB events, in any order. A step runs to its end before the next one begins.
\<close>

subsection \<open>The indicator light\<close>

definition LED_R_CHANNEL :: nat where "LED_R_CHANNEL = 3"
definition LED_G_CHANNEL :: nat where "LED_G_CHANNEL = 2"
definition LED_B_CHANNEL :: nat where "LED_B_CHANNEL = 1"

definition led_rgb_init :: "'a board_scheme \<Rightarrow> 'a board_scheme" where
  "led_rgb_init s =
     emit (Pwm_Enable LED_B_CHANNEL 0) (emit (Pwm_Enable LED_G_CHANNEL 0)
       (emit (Pwm_Enable LED_R_CHANNEL 0) (emit Pwm_Start s)))"

definition led_rgb_set :: "u32 \<Rightarrow> 'a board_scheme \<Rightarrow> 'a board_scheme" where
  "led_rgb_set color s =
     (let s1 = emit (Pwm_Enable LED_B_CHANNEL (color AND 0xFF)) s;
          color1 = drop_bit 8 color;
          s2 = emit (Pwm_Enable LED_G_CHANNEL (color1 AND 0xFF)) s1;
          color2 = drop_bit 8 color1
      in emit (Pwm_Enable LED_R_CHANNEL (color2 AND 0xFF)) s2)"

subsection \<open>The threads of main.c\<close>

text \<open>One pass of a thread; the boolean says that the thread ends with it.\<close>

definition blink :: "u32 \<Rightarrow> u32 \<Rightarrow> u32 \<Rightarrow> 'a board_scheme \<Rightarrow> 'a board_scheme" where
  "blink color on off s =
     emit (Sleep_Ms off) (led_rgb_set 0 (emit (Sleep_Ms on) (led_rgb_set color s)))"

definition led_update :: "'a pkt_scheme \<Rightarrow> bool \<times> 'a pkt_scheme" where
  "led_update s =
     (if power_is_shutdown s then (True, led_rgb_set 0 s)
      else
        let blinkTime = (if comm_usb_is_active s then 250 else 500);
            (connect, s1) = packet_connect_event s
        in (False,
            if connect then blink 0x00FFFF 100 100 (blink 0x00FFFF 100 100 (blink 0x00FFFF 100 100 s1))
            else if power_get_power_on_event s1 = EVENT_RTCC then blink 0xFF0055 50 150 s1
            else if faults_get_faults s1 \<noteq> fault_code FAULT_NONE then blink 0xFF0000 200 200 s1
            else if charger_is_balancing s1 then blink 0x0000FF blinkTime blinkTime s1
            else if charger_is_charging s1 then blink 0xFF2200 blinkTime blinkTime s1
            else blink 0x00FF00 blinkTime blinkTime s1))"

text \<open>What follows the \<open>continue\<close> of the buzzer's loop is never reached.\<close>

definition buzzer_update :: "'a buz_scheme \<Rightarrow> (bool \<times> 'a buz_scheme) option" where
  "buzzer_update s =
     (if power_is_shutdown s then map_option (Pair True) (buzzer_set_frequency (int_f32 0) s)
      else map_option (\<lambda>s1. (False, emit (Sleep_Ms 100) s1)) (buzzer_set_frequency (int_f32 0) s))"

subsection \<open>Start and main loop\<close>

definition STM32_TIMINGR :: "u32 \<Rightarrow> u32 \<Rightarrow> u32 \<Rightarrow> u32 \<Rightarrow> u32 \<Rightarrow> u32" where
  "STM32_TIMINGR presc scldel sdadel sclh scll =
     push_bit 28 presc OR push_bit 20 scldel OR push_bit 16 sdadel OR push_bit 8 sclh OR scll"

definition i2cconfig :: u32 where
  "i2cconfig = STM32_TIMINGR 15 4 2 15 21"

definition main_init :: "strip_env \<Rightarrow> 'a strip_scheme \<Rightarrow> 'a strip_scheme option" where
  "main_init senv s =
     (let s1 = emit (Sleep_Ms 1) (gpio_init (emit Kernel_Init (emit Hal_Init s)));
          s2 = ltc6803_init (emit (I2C_Start i2cconfig) (power_init (analog_init (config_init s1))))
      in Option.bind (charger_init s2) (\<lambda>s3.
         Option.bind (current_monitor_init s3) (\<lambda>s4.
         Option.bind (accessory_init senv (rtcc_init (soc_init s4))) (\<lambda>s5.
         let s6 = emit (Thread_Start Buzzer_Update) (buzzer_init (comm_can_init s5));
             s7 = emit (Thread_Start Led_Update) (led_rgb_init s6)
         in Some (comm_usb_init s7)))))"

text \<open>
  One pass of the loop: the boolean says that it was the last one. \<open>junk\<close> is the value of
  the charger's uninitialised variable.
\<close>

definition main_pass :: "(fp \<Rightarrow> fp) \<Rightarrow> nat \<Rightarrow> 'a strip_scheme \<Rightarrow> (bool \<times> 'a strip_scheme) option" where
  "main_pass lg junk s =
     Option.bind (charger_update junk
         (soc_update (current_monitor_update (ltc6803_update (analog_update lg s))))) (\<lambda>s1.
       let s2 = comm_can_update (accessory_update (rtcc_update (power_update s1)))
       in if power_is_shutdown s2
          then map_option (Pair True) (buzzer_set_frequency (int_f32 0) (led_rgb_set 0 (comm_usb_deinit s2)))
          else Some (False, s2))"

subsection \<open>The system\<close>

datatype phase = Running | Stopped

text \<open>
  The parameters of a system: the environment of the packets, of the strip, and what the
  CAN side leaves to code that is not part of the repository.
\<close>

record system =
  sys_packet :: packet_env
  sys_ids :: can_ids
  sys_parse :: parse_float

inductive step ::
    "system \<Rightarrow> phase \<times> 'a strip_scheme \<Rightarrow> phase \<times> 'a strip_scheme \<Rightarrow> bool" for sys where
  pass: "main_pass (logf (sys_packet sys)) junk s = Some (False, s') \<Longrightarrow> step sys (Running, s) (Running, s')"
| stop: "main_pass (logf (sys_packet sys)) junk s = Some (True, s') \<Longrightarrow> step sys (Running, s) (Stopped, s')"
| alert: "step sys (p, s) (p, curr_alert s)"
| byte: "packet_process_byte (sys_packet sys) b s = Some s' \<Longrightarrow> step sys (p, s) (p, s')"
| timeout: "step sys (p, s) (p, packet_timeout_thread s)"
| frame: "step sys (p, s) (p, can_process_frame (sys_ids sys) (sys_parse sys) m s)"
| usb_start: "step sys (p, s) (p, serial_init_thread s)"
| usb: "step sys (p, s) (p, usb_event e s)"
| sof: "step sys (p, s) (p, sof_handler s)"
| led: "step sys (p, s) (p, snd (led_update s))"
| tone: "buzzer_update s = Some (fin, s') \<Longrightarrow> step sys (p, s) (p, s')"

inductive_cases stepE: "step sys (p, s) (q, t)"
inductive_simps stopped_step: "step sys (Stopped, s) (q, t)"

inductive reaches ::
    "system \<Rightarrow> phase \<times> 'a strip_scheme \<Rightarrow> phase \<times> 'a strip_scheme \<Rightarrow> bool" for sys where
  here: "reaches sys c c"
| there: "reaches sys c d \<Longrightarrow> step sys d e \<Longrightarrow> reaches sys c e"

end
