(* ===== verification/Charger_Props.thy ===== *)
theory Charger_Props
  imports Charger
begin

text \<open>
  What the charger guarantees: it stops on a full cell, balances just the cells above the
  lowest one, and what it sends to the converter is a 14-bit value.
\<close>

subsection \<open>Scanning the cells\<close>

lemma fp_less_le: "a \<noteq> NaN \<Longrightarrow> b \<noteq> NaN \<Longrightarrow> \<not> fp_less a b \<Longrightarrow> fp_le b a"
  by (cases a; cases b) (auto simp: fp_le_def fp_eq_def)

lemma fp_le_not_less: "fp_le a b \<Longrightarrow> \<not> fp_less b a"
  by (cases a; cases b) (auto simp: fp_le_def fp_eq_def)

lemma fp_less_num: "fp_less a b \<Longrightarrow> a \<noteq> NaN \<and> b \<noteq> NaN \<and> fp_le a b"
  by (cases a; cases b) (auto simp: fp_le_def)

lemma scan_cells_high:
  "scan_cells is cs (h, l, n) = Some (high, low, num) \<Longrightarrow> h \<noteq> NaN \<Longrightarrow>
   fp_le h high \<and> high \<noteq> NaN \<and> (\<forall>i\<in>set is. i < length cs \<and> (cs ! i \<noteq> NaN \<longrightarrow> fp_le (cs ! i) high))"
proof (induction "is" arbitrary: h l n)
  case Nil
  then show ?case by (cases h) auto
next
  case (Cons i "is")
  let ?h = "if fp_less h (cs ! i) then cs ! i else h"
  have i: "i < length cs" using Cons.prems(1) by (auto split: if_splits)
  have h: "?h \<noteq> NaN" "fp_le h ?h" using Cons.prems(2) fp_less_num by (auto, cases h, auto)
  have c: "cs ! i \<noteq> NaN \<longrightarrow> fp_le (cs ! i) ?h"
    using Cons.prems(2) fp_less_le[of h "cs ! i"] by (auto, cases "cs ! i", auto)
  from Cons.prems(1) i have "scan_cells is cs (?h, if fp_less (cs ! i) l then cs ! i else l,
      if fp_less (cs ! i) l then i else n) = Some (high, low, num)" by simp
  from Cons.IH[OF this h(1)] i h(2) c show ?case by (auto intro: fp_le_trans)
qed

subsection \<open>Balancing\<close>

lemma numCells_configReg [simp]: "numCells (s\<lparr>configReg := r\<rparr>) = numCells s"
  by (simp add: numCells_def)

lemma balance_cells_result:
  fixes s :: "'a chg_scheme"
  assumes "numCells s \<le> 12" and "\<not> balance_lock s" and "length (configReg s) = 6"
    and "distinct is" and "\<forall>i\<in>set is. i < numCells s"
    and "balance_cells is cs low c s = Some (c', s')"
  shows "(\<forall>d. 1 \<le> d \<and> d \<le> 12 \<longrightarrow> balanced s' d =
      (if d - 1 \<in> set is then fp_less (cs ! low) (cs ! (d - 1)) else balanced s d)) \<and>
    c' = (c \<or> (\<exists>i\<in>set is. fp_less (cs ! low) (cs ! i))) \<and> (\<exists>r. s' = s\<lparr>configReg := r\<rparr>)"
  using assms
proof (induction "is" arbitrary: s c)
  case Nil
  then have eq: "c' = c" "s' = s" by simp_all
  have "\<exists>r. s' = s\<lparr>configReg := r\<rparr>" unfolding eq by (rule exI[of _ "configReg s"]) simp
  then show ?case unfolding eq by simp
next
  case (Cons i "is")
  let ?up = "fp_less (cs ! low) (cs ! i)"
  obtain s1 where s1: "(if ?up then ltc6803_enable_balance (i + 1) s
      else ltc6803_disable_balance (i + 1) s) = Some s1"
    and run: "balance_cells is cs low (c \<or> ?up) s1 = Some (c', s')"
    using Cons.prems(6) by (auto split: if_splits option.splits)
  obtain r where r: "s1 = s\<lparr>configReg := r\<rparr>" "length r = 6"
    using balance_frame[of "i + 1" s s1] s1 Cons.prems(3) by (auto split: if_splits)
  have i: "1 \<le> i + 1" "i + 1 \<le> numCells s" using Cons.prems(5) by auto
  have d1: "balanced s1 d = (if d = i + 1 then ?up else balanced s d)" if "1 \<le> d" "d \<le> 12" for d
    using switch_balance[OF i Cons.prems(1) that Cons.prems(3)] s1 Cons.prems(2)
    by (auto split: if_splits)
  have "numCells s1 \<le> 12" "\<not> balance_lock s1" "length (configReg s1) = 6"
    "distinct is" "\<forall>i\<in>set is. i < numCells s1"
    using Cons.prems r by simp_all
  note IH = Cons.IH[OF this run]
  from IH obtain q where "s' = s1\<lparr>configReg := q\<rparr>" by blast
  then have "s' = s\<lparr>configReg := q\<rparr>" unfolding r(1) by simp
  then have "\<exists>r. s' = s\<lparr>configReg := r\<rparr>" by blast
  moreover have "balanced s' d = (if d - 1 \<in> set (i # is) then fp_less (cs ! low) (cs ! (d - 1))
      else balanced s d)" if "1 \<le> d" "d \<le> 12" for d
  proof -
    have "d = i + 1 \<longleftrightarrow> d - 1 = i" using that by auto
    with IH d1[OF that] that Cons.prems(4) show ?thesis by auto
  qed
  moreover have "c' = (c \<or> (\<exists>i\<in>set (i # is). fp_less (cs ! low) (cs ! i)))"
    using IH by auto
  ultimately show ?case by blast
qed


subsection \<open>Stopping on a full cell\<close>

lemma set_voltage_pads: "set_voltage v s = Some s' \<Longrightarrow> pads s' = pads s"
  by (auto simp: set_voltage_def Let_def board_simps split: option.splits)

lemma balance_cells_pads:
  "balance_cells is cs low c s = Some (c', s') \<Longrightarrow> pads s' = pads s"
proof (induction "is" arbitrary: s c)
  case (Cons i "is")
  obtain s1 c1 where s1: "ltc6803_enable_balance (i + 1) s = Some s1 \<or>
      ltc6803_disable_balance (i + 1) s = Some s1" and run: "balance_cells is cs low c1 s1 = Some (c', s')"
    using Cons.prems by (auto split: if_splits option.splits)
  from balance_frame[OF s1] have "pads s1 = pads s" by auto
  with Cons.IH[OF run] show ?case by simp
qed simp

lemma charger_balance_pads:
  "charger_balance low s = Some s' \<Longrightarrow> \<not> pads s' CHG_SW"
  by (auto simp: charger_balance_def Let_def split_beta board_simps
      dest!: balance_cells_pads split: if_splits option.splits)

lemma balance_start_keeps:
  "config (balance_start h l s) = config s" "\<not> fst (False, s)"
  by (simp_all add: balance_start_def Let_def split_beta board_simps)

lemma disable_all_pads [simp]: "pads (ltc6803_disable_balance_all s) = pads s"
  by (simp add: ltc6803_disable_balance_all_def)

lemma charger_charge_full:
  assumes "charger_charge junk s = Some s'" and "i < numCells s"
    and "fp_le (get_float off_highVoltageCutoff (config s)) (cell_voltages s ! i)"
  shows "\<not> pads s' CHG_SW"
proof -
  let ?s1 = "snd (chVTTimeElapsedSinceX (lastTime s) s)"
  have s1: "config ?s1 = config s" "cell_voltages ?s1 = cell_voltages s"
    by (simp_all add: board_simps)
  have n1: "numCells ?s1 = numCells s" by (simp add: numCells_def s1)
  show ?thesis
  proof (cases "balancing ?s1")
    case True
    with assms(1) have "charger_balance junk ?s1 = Some s'"
      by (simp add: charger_charge_def Let_def split_beta)
    then show ?thesis by (rule charger_balance_pads)
  next
    case False
    have "scan_cells [0..<numCells s] (cell_voltages s) (Fin 0, Fin 999, junk) \<noteq> None"
      using assms(1) False
      by (intro notI) (simp add: charger_charge_def Let_def split_beta ltc6803_get_cell_voltages_def s1 n1)
    then obtain h l n where
      scan: "scan_cells [0..<numCells s] (cell_voltages s) (Fin 0, Fin 999, junk) = Some (h, l, n)"
      by auto
    let ?s2 = "balance_start h l ?s1"
    have c2: "config ?s2 = config s" by (simp only: balance_start_keeps s1)
    have "cell_voltages s ! i \<noteq> NaN" using assms(3) by (cases "cell_voltages s ! i") auto
    with scan_cells_high[OF scan] assms(2) have "fp_le (cell_voltages s ! i) h" by auto
    then have "\<not> fp_less h (get_float off_highVoltageCutoff (config s))"
      using assms(3) fp_le_trans fp_le_not_less by blast
    then have "charger_charge junk s =
        (if balancing ?s2 then charger_balance n ?s2 else Some (palClearPad CHG_SW ?s2))"
      using False scan c2
      by (simp add: charger_charge_def Let_def split_beta ltc6803_get_cell_voltages_def s1 n1)
    with assms(1) have "charger_balance n ?s2 = Some s' \<or> s' = palClearPad CHG_SW ?s2"
      by (auto split: if_splits)
    then show ?thesis using charger_balance_pads by (auto simp: board_simps)
  qed
qed

text \<open>
  C31: With a charger connected, an update while any cell has reached the high voltage
  cut-off leaves the charge switch off.
\<close>

theorem charger_stops_when_full:
  assumes "charger_update junk s = Some s'" and "fp_less (Fin 6) (analog_charger_input_voltage s)"
    and "i < numCells s"
    and "fp_le (get_float off_highVoltageCutoff (config s)) (cell_voltages s ! i)"
  shows "\<not> pads s' CHG_SW"
proof -
  let ?s1 = "s\<lparr>input_voltage := analog_charger_input_voltage s, is_charging := fp_less (Fin 6) (analog_charger_input_voltage s)\<rparr>"
  from assms(1) obtain s2 where
    s2: "(if charge_enabled ?s1 \<and> is_charging ?s1 \<and> \<not> chargeComplete ?s1
          then charger_charge junk ?s1 else Some (charger_idle ?s1)) = Some s2"
    and pads: "pads s' = pads s2"
    by (auto simp: charger_update_def Let_def split_beta board_simps split: option.splits)
  show ?thesis
  proof (cases "charge_enabled s \<and> \<not> chargeComplete s")
    case True
    with s2 assms(2) have run: "charger_charge junk ?s1 = Some s2" by simp
    have "numCells ?s1 = numCells s" by (simp add: numCells_def)
    with charger_charge_full[OF run, of i] assms(3,4) pads show ?thesis by simp
  next
    case False
    with s2 have "s2 = charger_idle ?s1" by (auto split: if_splits)
    then show ?thesis unfolding pads using assms(2) by (simp add: charger_idle_def Let_def board_simps)
  qed
qed

text \<open>An example: one cell, at the cut-off, with a charger connected.\<close>

definition full_cell :: "chg \<Rightarrow> chg" where
  "full_cell s = s\<lparr>charge_enabled := True, chargeComplete := False, balancing := False,
     charger_input_raw := 4095, config := (replicate sizeof_Config 0)[off_numCells := 1],
     cell_voltages := [Fin 4], pads := (\<lambda>_. True)\<rparr>"

lemma get_float_0: "a + 3 < 76 \<Longrightarrow> a \<noteq> 1 \<Longrightarrow> a \<noteq> 0 \<Longrightarrow>
   get_float a ((replicate sizeof_Config 0)[off_numCells := 1]) = Fin 0"
  by (simp add: get_float_def get_u32_def get_u16_def be16_def sizeof_Config_def offsets
      nth_list_update f32_of_bits_def)

lemma full_cell_update: "\<exists>s'. charger_update junk (full_cell s) = Some s'"
proof -
  have v: "fp_less (Fin 6) (analog_charger_input_voltage (full_cell s))"
    by (rule charger_voltage_full) (simp add: full_cell_def)
  have n: "numCells (full_cell s) = 1" by (simp add: numCells_def full_cell_def offsets sizeof_Config_def)
  have c: "config (full_cell s) = (replicate sizeof_Config 0)[off_numCells := 1]"
    by (simp add: full_cell_def)
  have g: "get_float off_highVoltageCutoff (config (full_cell s)) = Fin 0"
    "get_float off_balanceStartVoltage (config (full_cell s)) = Fin 0"
    "get_float off_balanceDifferenceThreshold (config (full_cell s)) = Fin 0"
    unfolding c by (rule get_float_0; simp add: offsets)+
  have f: "charge_enabled (full_cell s)" "\<not> chargeComplete (full_cell s)" "\<not> balancing (full_cell s)"
    "cell_voltages (full_cell s) = [Fin 4]" by (simp_all add: full_cell_def)
  show ?thesis
    using v n g f
    by (simp add: fp_sub_def charger_update_def charger_charge_def balance_start_def Let_def split_beta
        board_simps numCells_def ltc6803_get_cell_voltages_def upt_rec_numeral)
qed

lemma charger_stops_when_full_witness:
  "\<forall>s. \<exists>s'. charger_update 0 (full_cell s) = Some s' \<and> \<not> pads s' CHG_SW"
proof
  fix s
  have v: "fp_less (Fin 6) (analog_charger_input_voltage (full_cell s))"
    by (rule charger_voltage_full) (simp add: full_cell_def)
  have n: "0 < numCells (full_cell s)" by (simp add: numCells_def full_cell_def offsets sizeof_Config_def)
  have "config (full_cell s) = (replicate sizeof_Config 0)[off_numCells := 1]"
    by (simp add: full_cell_def)
  then have "get_float off_highVoltageCutoff (config (full_cell s)) = Fin 0"
    by (simp only:) (rule get_float_0; simp add: offsets)
  moreover have "cell_voltages (full_cell s) ! 0 = Fin 4" by (simp add: full_cell_def)
  ultimately have g: "fp_le (get_float off_highVoltageCutoff (config (full_cell s)))
      (cell_voltages (full_cell s) ! 0)" by simp
  obtain s' where "charger_update 0 (full_cell s) = Some s'" using full_cell_update by blast
  with charger_stops_when_full[OF this v n g]
  show "\<exists>s'. charger_update 0 (full_cell s) = Some s' \<and> \<not> pads s' CHG_SW" by blast
qed


subsection \<open>The converter's value\<close>

lemma const33_64: "rnd64 (33 / 10) = Fin (7430939385161318 / 2251799813685248)"
proof -
  have "round_even (33 / 10 / 2 powi (-51)) = 7430939385161318"
    by (rule round_evenI) simp_all
  then have "round_fp 53 (-1074) 1023 (33 / 10) = Fin (of_int 7430939385161318 * 2 powi (-51))"
    by (intro round_fp_eval[of 1]) simp_all
  then show ?thesis by (simp add: rnd64_def)
qed

lemma const33_32:
  "rnd32 (7430939385161318 / 2251799813685248) = Fin (13841203 / 4194304)"
proof -
  have "round_even (7430939385161318 / 2251799813685248 / 2 powi (-22)) = 13841203"
    by (rule round_evenI) simp_all
  then have "round_fp 24 (-149) 127 (7430939385161318 / 2251799813685248) = Fin (of_int 13841203 * 2 powi (-22))"
    by (intro round_fp_eval[of 1]) simp_all
  then show ?thesis by (simp add: rnd32_def)
qed

lemma dac_voltage_range:
  assumes "v \<noteq> NaN"
  shows "\<exists>y. dac_voltage v = Fin y \<and> 0 \<le> y \<and> y \<le> 7430939385161318 / 2251799813685248"
proof -
  have nn: "rnd64 x \<noteq> NaN" "rnd32 x \<noteq> NaN" for x
    using mono_roundD[OF mono_rnd(2), of x x] mono_roundD[OF mono_rnd(1), of x x] by auto
  obtain k where k: "rnd64 (75 / 1000) = Fin k" "2 powi (-4) \<le> k"
  proof -
    have "\<exists>y. rnd64 (75 / 1000) = Fin y \<and> 0 \<le> y \<and> y \<le> 2 powi 0" by (rule rnd64_bounds) simp_all
    then obtain y where y: "rnd64 (75 / 1000) = Fin y" by blast
    have "2 powi (-4) \<le> y" by (rule rnd64_lower[OF _ _ _ y]) simp_all
    with y that show ?thesis by blast
  qed
  then have k0: "0 < k" "k \<noteq> 0" by auto
  have "fp_sub rnd64 (rnd64 (51584 / 1000)) v \<noteq> NaN"
  proof -
    have "\<exists>y. rnd64 (51584 / 1000) = Fin y \<and> 0 \<le> y \<and> y \<le> 2 powi 6" by (rule rnd64_bounds) simp_all
    then obtain w where "rnd64 (51584 / 1000) = Fin w" by blast
    then show ?thesis using assms nn by (cases v) (auto simp: fp_sub_def)
  qed
  then have "fp_mul rnd64 (rnd64 (75 / 1000)) (fp_sub rnd64 (rnd64 (51584 / 1000)) v) \<noteq> NaN"
    using nn k0 unfolding k(1) by (cases "fp_sub rnd64 (rnd64 (51584 / 1000)) v") auto
  then have d: "to32 (fp_mul rnd64 (rnd64 (75 / 1000)) (fp_sub rnd64 (rnd64 (51584 / 1000)) v)) \<noteq> NaN"
    (is "?d \<noteq> NaN")
    using nn by (cases "fp_mul rnd64 (rnd64 (75 / 1000)) (fp_sub rnd64 (rnd64 (51584 / 1000)) v)") auto
  show ?thesis
    using d const33_32 unfolding dac_voltage_def Let_def const33_64
    by (cases ?d) (auto simp: not_less intro!: exI[of _ "13841203 / 4194304"])
qed

lemma dac_value_defined:
  assumes "v \<noteq> NaN"
  shows "\<exists>value. dac_value v = Some value \<and> value \<le> 16383"
proof -
  let ?c = "7430939385161318 / 2251799813685248 :: rat"
  obtain y where y: "dac_voltage v = Fin y" "0 \<le> y" "y \<le> ?c" using dac_voltage_range[OF assms] by blast
  have "\<exists>z. rnd64 (y / ?c) = Fin z \<and> 0 \<le> z \<and> z \<le> 2 powi 0"
    by (rule rnd64_bounds) (use y in simp_all)
  then obtain z where z: "rnd64 (y / ?c) = Fin z" "0 \<le> z" "z \<le> 1" by auto
  have "fp_le (rnd64 (z * 16383)) (rnd64 16383)" "fp_le (rnd64 0) (rnd64 (z * 16383))"
    using z by (intro mono_roundD; simp)+
  then obtain w where w: "rnd64 (z * 16383) = Fin w" "0 \<le> w" "w \<le> 16383"
    by (cases "rnd64 (z * 16383)") (auto simp: num_exact)
  have "0 \<le> \<lfloor>w\<rfloor>" "\<lfloor>w\<rfloor> \<le> 16383" using w by (auto simp: floor_le_iff)
  moreover from this have "uint (of_int \<lfloor>w\<rfloor> :: u16) = \<lfloor>w\<rfloor>"
    by (simp add: uint_word_of_int_eq take_bit_int_eq_self)
  ultimately have val: "dac_value v = Some (of_int \<lfloor>w\<rfloor>)" and le: "(of_int \<lfloor>w\<rfloor> :: u16) \<le> 16383"
    using y z w by (auto simp: dac_value_def const33_64 word_le_def)
  then show ?thesis by blast
qed

text \<open>
  Whatever voltage is asked for, unless it is not a number, the converter is sent a
  value of at most 14 bits, left-aligned in the two data bytes.
\<close>

theorem set_voltage_14_bits:
  assumes "v \<noteq> NaN"
  shows "\<exists>value h l s'. set_voltage v s = Some s' \<and> value \<le> 16383 \<and>
    dac_value v = Some value \<and> be16 h l = push_bit 2 value \<and> output_voltage s' = v \<and>
    events s' = events s @ [I2C_Acquire, I2C_Transmit CHARGER_I2C_ADDRESS [0x01, h, l], I2C_Release]"
proof -
  obtain v' where val: "dac_value v = Some v'" and le: "v' \<le> 16383"
    using dac_value_defined[OF assms] by blast
  have small: "bit v' n \<Longrightarrow> n < 14" for n
  proof (rule ccontr)
    assume b: "bit v' n" and "\<not> n < 14"
    have "uint v' < 2 ^ 14" using le by (simp add: word_le_def)
    then have "take_bit 14 (uint v') = uint v'" by (simp add: take_bit_int_eq_self_iff)
    moreover have "bit (uint v') n" using b bit_imp_le_length[OF b] by (simp add: bit_uint_iff)
    ultimately have "bit (take_bit 14 (uint v')) n" by simp
    with \<open>\<not> n < 14\<close> show False by (simp add: bit_take_bit_iff)
  qed
  have m: "(0xFF :: u16) = mask 8" by (simp add: mask_eq_exp_minus_1)
  have "bit (be16 (ucast (drop_bit 6 v')) (ucast (push_bit 2 (v' AND 0xFF)))) n = bit (push_bit 2 v') n"
    if "n < 16" for n
  proof -
    have "8 \<le> n \<Longrightarrow> 6 + (n - 8) = n - 2" by simp
    then show ?thesis
      using that small[of "n - 2"] unfolding be16_def m by (cases "8 \<le> n") (auto simp: bit_simps)
  qed
  then have "be16 (ucast (drop_bit 6 v')) (ucast (push_bit 2 (v' AND 0xFF))) = push_bit 2 v'"
    by (intro bit_word_eqI) simp
  moreover obtain s' where s': "set_voltage v s = Some s'" by (simp add: set_voltage_def Let_def val)
  moreover have "output_voltage s' = v" "events s' = events s @ [I2C_Acquire, I2C_Transmit
      CHARGER_I2C_ADDRESS [0x01, ucast (drop_bit 6 v'), ucast (push_bit 2 (v' AND 0xFF))], I2C_Release]"
    using s' by (auto simp: set_voltage_def Let_def val board_simps)
  ultimately show ?thesis using val le by blast
qed

lemma set_voltage_14_bits_witness:
  "\<forall>s. \<exists>s'. set_voltage (Fin 25) s = Some s' \<and> output_voltage s' = Fin 25"
  using set_voltage_14_bits[of "Fin 25"] by blast

end
