(* ===== verification/Switches.thy ===== *)
theory Switches
  imports Firmware Charger_Props
begin

text \<open>
  Which operations leave the power switches and what decides about them alone. The
  collection \<open>calm\<close> says so of the operations that return a state, \<open>calm_some\<close> of those
  that may fail.
\<close>

named_theorems calm
named_theorems calm_some

definition switches :: "'a pwr_scheme \<Rightarrow> bool \<times> bool \<times> bool \<times> bool \<times> u8 \<times> bool" where
  "switches s = (pads s DSG_SW, pads s PCHG_SW, pads s PWR_SW, discharge_enabled s, faults s, shutdown s)"

subsection \<open>Driver calls\<close>

lemma emit_switches [calm]: "switches (emit e s) = switches s"
  by (simp add: switches_def emit_def)

lemma mode_switches [calm]: "switches (palSetPadMode p m s) = switches s"
  by (simp add: palSetPadMode_def calm)

lemma write_switches:
  "p \<notin> {DSG_SW, PCHG_SW, PWR_SW} \<Longrightarrow> switches (palWritePad p b s) = switches s"
  by (simp add: palWritePad_def calm) (auto simp: switches_def)

lemma other_pads [calm]:
  "switches (palWritePad CHG_SW b s) = switches s" "switches (palWritePad ACC1 b s) = switches s"
  "switches (palWritePad USB_DM b s) = switches s" "switches (palWritePad USB_DP b s) = switches s"
  by (rule write_switches, simp add: pad_defs)+

lemma set_switches [calm]:
  "switches (palSetPad CHG_SW s) = switches s" "switches (palClearPad CHG_SW s) = switches s"
  "switches (palSetPad ACC1 s) = switches s" "switches (palClearPad ACC1 s) = switches s"
  "switches (palClearPad USB_DM s) = switches s" "switches (palClearPad USB_DP s) = switches s"
  by (simp_all add: palSetPad_def palClearPad_def calm)

lemma read_switches [calm]:
  "switches (snd (palReadPad p s)) = switches s" "switches (snd (adcConvert c s)) = switches s"
  "switches (snd (chVTGetSystemTime s)) = switches s"
  "switches (snd (chVTTimeElapsedSinceX t s)) = switches s"
  by (simp_all add: palReadPad_def adcConvert_def chVTGetSystemTime_def chVTTimeElapsedSinceX_def
      switches_def Let_def split_beta)

lemma bus_switches [calm]:
  "switches (snd (i2cMasterTransmit a tx n s)) = switches s" "switches (i2cSend a tx s) = switches s"
  "switches (snd (spiExchange tx s)) = switches s"
  by (simp_all add: i2cMasterTransmit_def i2cSend_def spiExchange_def calm)

lemma ee_switches: "ee.more s = ee.more t \<Longrightarrow> switches s = switches t"
  by (cases s, cases t) (simp add: switches_def)

lemma flash_switches: "flash.more s = flash.more t \<Longrightarrow> switches s = switches t"
  by (rule ee_switches) (rule flash_more_ee)

text \<open>Fields the switches do not depend on.\<close>

lemma field_switches [calm]:
  "switches (s\<lparr>ios := n\<rparr>) = switches s" "switches (s\<lparr>events := es\<rparr>) = switches s"
  "switches (s\<lparr>config := c\<rparr>) = switches s"
  by (simp_all add: switches_def)

lemma ltc_switches [calm]:
  "switches (s\<lparr>configReg := r\<rparr>) = switches s" "switches (s\<lparr>cell_voltages := v\<rparr>) = switches s"
  "switches (s\<lparr>conversionStart := t\<rparr>) = switches s" "switches (s\<lparr>balance_lock := b\<rparr>) = switches s"
  "switches (s\<lparr>charger_input_raw := x\<rparr>) = switches s" "switches (s\<lparr>discharge_raw := x\<rparr>) = switches s"
  "switches (s\<lparr>thermistor := x\<rparr>) = switches s" "switches (s\<lparr>time := tm\<rparr>) = switches s"
  by (simp_all add: switches_def)

lemma cmon_switches [calm]:
  "switches (s\<lparr>current := x\<rparr>) = switches s" "switches (s\<lparr>bus_voltage := x\<rparr>) = switches s"
  by (simp_all add: switches_def)

lemma chg_switches [calm]:
  "switches (s\<lparr>coulomb_count := x\<rparr>) = switches s" "switches (s\<lparr>prevTime := t\<rparr>) = switches s"
  "switches (s\<lparr>is_charging := b\<rparr>) = switches s" "switches (s\<lparr>input_voltage := x\<rparr>) = switches s"
  "switches (s\<lparr>output_voltage := x\<rparr>) = switches s" "switches (s\<lparr>charge_enabled := b\<rparr>) = switches s"
  "switches (s\<lparr>current_control_integral := x\<rparr>) = switches s" "switches (s\<lparr>lastTime := t\<rparr>) = switches s"
  "switches (s\<lparr>balancing := b\<rparr>) = switches s" "switches (s\<lparr>balanceUpdateTime := t\<rparr>) = switches s"
  "switches (s\<lparr>chargeComplete := b\<rparr>) = switches s" "switches (s\<lparr>chargeCompleteCounter := n\<rparr>) = switches s"
  for s :: "'a chg_scheme"
  by (simp_all add: switches_def)

lemma usb_switches [calm]:
  "switches (s\<lparr>usb_state := u\<rparr>) = switches s" for s :: "'a usb_scheme"
  by (simp add: switches_def)

lemma can_switches [calm]:
  "switches (s\<lparr>infinity_current := x\<rparr>) = switches s" for s :: "'a can_scheme"
  by (simp add: switches_def)

lemma pkt_switches [calm]:
  "switches (s\<lparr>packet_index := i\<rparr>) = switches s" "switches (s\<lparr>packet_buffer := b\<rparr>) = switches s"
  "switches (s\<lparr>packet_send_buffer := b\<rparr>) = switches s" "switches (s\<lparr>connect_event := c\<rparr>) = switches s"
  "switches (s\<lparr>process_state := st\<rparr>) = switches s" "switches (s\<lparr>process_timeout := i\<rparr>) = switches s"
  "switches (s\<lparr>packet_length := i\<rparr>) = switches s" "switches (s\<lparr>packet_crc := i\<rparr>) = switches s"
  for s :: "'a pkt_scheme"
  by (simp_all add: switches_def)

lemma strip_switches [calm]:
  "switches (s\<lparr>hw_timers := h\<rparr>) = switches s" for s :: "'a buz_scheme"
  by (simp add: switches_def)

lemma strip_switches' [calm]:
  "switches (s\<lparr>RGBdata := d\<rparr>) = switches s" "switches (s\<lparr>bitbuffer := b\<rparr>) = switches s"
  "switches (s\<lparr>gamma_table := g\<rparr>) = switches s"
  for s :: "'a strip_scheme"
  by (simp_all add: switches_def)

subsection \<open>The main loop\<close>

lemma analog_init_switches [calm]: "switches (analog_init s) = switches s"
  by (simp add: analog_init_def Let_def split_beta calm)

text \<open>
  The measurements of a pass may raise a fault, and an over-current switches discharging
  off; the main switch and the shutdown flag they leave alone.
\<close>

definition latch :: "'a pwr_scheme \<Rightarrow> bool \<times> bool" where
  "latch s = (pads s PWR_SW, shutdown s)"

lemma switches_latch: "switches s = switches t \<Longrightarrow> latch s = latch t"
  by (simp add: switches_def latch_def)

lemma fault_latch: "latch (faults_set_fault f s) = latch s"
  by (simp add: latch_def faults_set_fault_def)

lemma off_latch: "latch (power_disable_discharge s) = latch s"
  by (simp add: latch_def power_disable_discharge_def board_simps)

lemma analog_latch: "latch (analog_update lg s) = latch s"
  by (auto simp: analog_update_def Let_def split_beta fault_latch calm intro!: switches_latch)

lemma rdcv_bytes_switches [calm]: "switches (snd (rdcv_bytes n s)) = switches s"
  by (induction n arbitrary: s) (simp_all add: Let_def split_beta calm)

lemma ltc_update_switches [calm]:
  "switches (ltc6803_wrcfg r s) = switches s" "switches (ltc6803_stcvad s) = switches s"
  "switches (ltc6803_rdcv s) = switches s" "switches (ltc6803_update s) = switches s"
  "switches (ltc6803_init s) = switches s"
  by (simp_all add: ltc6803_wrcfg_def ltc6803_stcvad_def ltc6803_rdcv_def ltc6803_update_def
      ltc6803_init_def Let_def split_beta calm)

lemma measure_switches [calm]: "switches (current_monitor_measure s) = switches s"
  by (simp add: current_monitor_measure_def Let_def split_beta calm)

lemma over_current_switches [calm]: "switches (snd (over_current s)) = switches s"
  by (simp add: over_current_def Let_def split_beta calm)

lemma current_latch: "latch (current_monitor_update s) = latch s"
  by (auto simp: current_monitor_update_def Let_def split_beta fault_latch off_latch calm intro!: switches_latch)

lemma soc_switches [calm]: "switches (soc_update s) = switches s" "switches (soc_init s) = switches s"
  by (simp_all add: soc_update_def soc_init_def Let_def split_beta calm)

lemma rtcc_switches [calm]:
  "switches (rtcc_update s) = switches s" "switches (rtcc_init s) = switches s" for s :: "'a pwr_scheme"
  by (simp_all add: rtcc_update_def rtcc_read_def rtcc_init_def Let_def split_beta calm)

lemma set_voltage_switches [calm_some]:
  "set_voltage v s = Some s' \<Longrightarrow> switches s' = switches s"
  by (auto simp: set_voltage_def Let_def calm split: option.splits)

lemma regulate_switches [calm_some]:
  "charger_regulate dt s = Some s' \<Longrightarrow> switches s' = switches s"
  by (auto simp: charger_regulate_def Let_def calm split: if_splits dest!: calm_some)

lemma complete_switches [calm]: "switches (charge_complete_check s) = switches s"
  by (simp add: charge_complete_check_def Let_def calm)

lemma enable_switches [calm_some]:
  "ltc6803_enable_balance c s = Some s' \<Longrightarrow> switches s' = switches s"
  "ltc6803_disable_balance c s = Some s' \<Longrightarrow> switches s' = switches s"
  using balance_frame[of c s s'] by (auto simp: calm)

lemma balance_cells_switches [calm_some]:
  "balance_cells is cs low c s = Some (c', s') \<Longrightarrow> switches s' = switches s"
proof (induction "is" arbitrary: c s)
  case (Cons i "is")
  from Cons.prems show ?case
    by (auto split: if_splits option.splits dest!: Cons.IH calm_some)
qed simp

lemma charger_balance_switches [calm_some]:
  "charger_balance n s = Some s' \<Longrightarrow> switches s' = switches s"
  by (auto simp: charger_balance_def Let_def split_beta calm split: if_splits option.splits
      dest!: calm_some)

lemma balance_start_switches [calm]: "switches (balance_start h l s) = switches s"
  by (simp add: balance_start_def Let_def split_beta calm)

lemma charger_charge_switches [calm_some]:
  "charger_charge junk s = Some s' \<Longrightarrow> switches s' = switches s"
  by (auto simp: charger_charge_def Let_def split_beta calm split: if_splits option.splits
      dest!: calm_some)

lemma disable_all_switches [calm]: "switches (ltc6803_disable_balance_all s) = switches s"
  by (simp add: ltc6803_disable_balance_all_def calm)

lemma charger_idle_switches [calm]: "switches (charger_idle s) = switches s"
  by (simp add: charger_idle_def Let_def calm)

lemma charger_switches [calm_some]:
  "charger_update junk s = Some s' \<Longrightarrow> switches s' = switches s"
  by (auto simp: charger_update_def Let_def split_beta calm split: if_splits option.splits
      dest!: calm_some)

lemma set_led_switches [calm]: "switches (set_led c i s) = switches s"
  by (simp add: set_led_def calm)

lemma strip_set_switches [calm]: "switches (ws2812b_set_all c s) = switches s"
  by (simp add: ws2812b_set_all_def WS2812B_LED_NUM_def calm)

lemma accessory_switches [calm]: "switches (accessory_update s) = switches s"
  by (simp add: accessory_update_def calm)

lemma deinit_switches [calm]:
  "switches (bus_low s) = switches s" "switches (comm_usb_deinit s) = switches s"
  by (simp_all add: bus_low_def comm_usb_deinit_def calm)

lemma led_switches [calm]: "switches (led_rgb_set c s) = switches s"
  by (simp add: led_rgb_set_def Let_def calm)

lemma buzzer_switches [calm_some]:
  "buzzer_set_frequency f s = Some s' \<Longrightarrow> switches s' = switches s"
  by (auto simp: buzzer_set_frequency_def with_tim_def Let_def calm split: if_splits)

subsection \<open>Threads and events\<close>

lemma connect_switches [calm]: "switches (snd (packet_connect_event s)) = switches s"
  by (simp add: packet_connect_event_def calm)

lemma blink_switches [calm]: "switches (blink c on off s) = switches s"
  by (simp add: blink_def calm)

lemma led_update_switches [calm]: "switches (snd (led_update s)) = switches s"
  by (simp add: led_update_def Let_def split_beta calm)

lemma buzzer_update_switches [calm_some]:
  "buzzer_update s = Some (fin, s') \<Longrightarrow> switches s' = switches s"
  by (auto simp: buzzer_update_def calm split: if_splits dest!: calm_some)

lemma usb_event_switches [calm]:
  "switches (usb_event e s) = switches s" "switches (sof_handler s) = switches s"
  "switches (serial_init_thread s) = switches s" "switches (comm_usb_init s) = switches s"
  by (simp_all add: usb_event_def sof_handler_def serial_init_thread_def comm_usb_init_def Let_def calm
      split: usbevent.splits)

lemma timeout_switches [calm]: "switches (packet_timeout_thread s) = switches s"
  by (simp add: packet_timeout_thread_def packet_timeout_def calm)

lemma can_frame_switches [calm]: "switches (can_process_frame ids parse m s) = switches s"
  by (simp add: can_process_frame_def Let_def split_beta calm)

end
