(* ===== verification/System_Props.thy ===== *)
theory System_Props
  imports Switches
begin

text \<open>
  The system as a whole: what a received byte may do to the power switches, the invariant
  of every reachable state, and the end of the main loop.
\<close>

subsection \<open>Received packets\<close>

lemma fold_opt_switches:
  assumes "\<And>x s s'. f x s = Some s' \<Longrightarrow> switches s' = switches s"
  shows "fold_opt f xs s = Some s' \<Longrightarrow> switches s' = switches s"
proof (induction xs arbitrary: s)
  case (Cons x xs)
  then obtain t where "f x s = Some t" "fold_opt f xs t = Some s'" by (auto simp: bind_eq_Some_conv)
  with Cons.IH assms show ?case by metis
qed simp

lemma send_switches [calm_some]:
  "packet_send_packet env d n s = Some s' \<Longrightarrow> switches s' = switches s"
  by (auto simp: packet_send_packet_def comm_usb_send_def Let_def calm split: if_splits)

lemma printf_switches [calm_some]:
  "console_printf env ps s = Some s' \<Longrightarrow> switches s' = switches s"
  "console_lines env ls s = Some s' \<Longrightarrow> switches s' = switches s"
proof -
  show "console_printf env ps s = Some s' \<Longrightarrow> switches s' = switches s" for ps s s'
    using console_printf_frame[of env ps s] by (auto simp: calm)
  then show "console_lines env ls s = Some s' \<Longrightarrow> switches s' = switches s"
    unfolding console_lines_def by (rule fold_opt_switches)
qed

lemma print_switches [calm_some]:
  "print_thread env tp s = Some s' \<Longrightarrow> switches s' = switches s"
  "print_cell env i s = Some s' \<Longrightarrow> switches s' = switches s"
  "drain_cell i s = Some s' \<Longrightarrow> switches s' = switches s"
  by (auto simp: print_thread_def print_cell_def drain_cell_def Let_def split: if_splits dest!: calm_some)

lemma print_all_switches [calm_some]:
  "fold_opt (print_thread env) tps s = Some s' \<Longrightarrow> switches s' = switches s"
  "fold_opt (print_cell env) is s = Some s' \<Longrightarrow> switches s' = switches s"
  "fold_opt drain_cell is s = Some s' \<Longrightarrow> switches s' = switches s"
  by (erule fold_opt_switches[rotated], erule calm_some)+

lemma lock_switches [calm]:
  "switches (ltc6803_lock s) = switches s" "switches (ltc6803_unlock s) = switches s"
  by (simp_all add: ltc6803_lock_def ltc6803_unlock_def calm)

lemma run_command_switches [calm_some]:
  "run_command env cmd s = Some s' \<Longrightarrow> switches s' = switches s"
  unfolding run_command_def Let_def
  by (simp add: bind_eq_Some_conv split_beta split: if_split_asm del: bytes_of_inject)
    (auto simp: calm bind_eq_Some_conv dest!: calm_some)

lemma console_switches [calm_some]:
  "console_process_command env c s = Some (c', s') \<Longrightarrow> switches s' = switches s"
  by (auto simp: console_process_command_def split_beta split: list.splits dest!: calm_some)

lemma answer_switches [calm_some]:
  "answer env b s = Some s' \<Longrightarrow> switches s' = switches s"
  by (auto simp: answer_def calm split: if_splits dest!: calm_some)

lemma erase_loop_more: "flash.more (snd (fw_erase_loop is s)) = flash.more s"
  by (induction "is" arbitrary: s) (simp_all add: Let_def split_beta keeps)

lemma fw_switches [calm]:
  "switches (snd (fw_updater_erase_new_firmware s)) = switches s"
proof -
  have s1: "switches (FLASH_ClearFlag m (FLASH_Unlock s)) = switches s" for m
    by (rule flash_switches) (simp add: keeps)
  show ?thesis
    using flash_switches[OF erase_loop_more, of "[0..<FW_NUM_PAGES]" "emit Sys_Lock
        (FLASH_ClearFlag (FLASH_FLAG_PGERR OR FLASH_FLAG_WRPERR) (FLASH_Unlock s))"]
    by (auto simp: fw_updater_erase_new_firmware_def Let_def s1 calm split: prod.splits option.splits)
qed

lemma fw_loop_more:
  "fw_write_loop i len offset data s = Some (r, s') \<Longrightarrow> flash.more s' = flash.more s"
proof (induction i len offset data s rule: fw_write_loop.induct)
  case (1 i len offset data s)
  obtain st t where t: "FLASH_ProgramHalfWord (NEW_FW_ADDR + offset + of_nat i)
      (be16 (data ! (i + 1)) (data ! i)) s = (st, t)" by fastforce
  then have "flash.more t = flash.more s"
    using driver_more(3)[of "NEW_FW_ADDR + offset + of_nat i" "be16 (data ! (i + 1)) (data ! i)" s] by simp
  moreover note 1(2)[unfolded fw_write_loop.simps[of i len offset data s] t Let_def prod.case]
  ultimately show ?case
    using 1(1)[OF _ _ t[symmetric] refl] by (auto split: if_splits simp del: One_nat_def)
qed

lemma fw_write_switches [calm_some]:
  "fw_updater_write_firmware offset data len s = Some (r, s') \<Longrightarrow> switches s' = switches s"
proof -
  have "switches (emit Sys_Lock (FLASH_ClearFlag m s)) = switches s" for m
    by (simp only: calm) (rule flash_switches, simp add: keeps)
  then show "fw_updater_write_firmware offset data len s = Some (r, s') \<Longrightarrow> switches s' = switches s"
    by (auto simp: fw_updater_write_firmware_def Let_def calm split: option.splits prod.splits
        dest!: fw_loop_more flash_switches)
qed

lemma overcurrent_switches [calm_some]:
  "current_monitor_set_overcurrent x s = Some s' \<Longrightarrow> switches s' = switches s"
  by (auto simp: current_monitor_set_overcurrent_def Let_def calm split: option.splits)

lemma write_loop_switches [calm]: "switches (snd (config_write_loop is s)) = switches s"
  by (rule ee_switches) (rule config_write_loop_more)

lemma config_write_switches [calm_some]:
  fixes s :: "'a pwr_scheme"
  assumes "config_write_field a d n s = Some (r, d', s')"
  shows "switches s' = switches s"
proof -
  have clear: "switches (FLASH_ClearFlag m t) = switches t" for m and t :: "'a pwr_scheme"
    by (rule flash_switches) (simp add: keeps)
  have some: "switches s1 = switches s"
    if "(if c then current_monitor_set_overcurrent x s else Some s) = Some s1" for c x s1
    using that by (auto split: if_splits dest!: calm_some)
  show ?thesis
    using assms unfolding config_write_field_def Let_def
    by (auto simp: split_beta calm clear split: option.split_asm if_split_asm dest!: calm_some some)
qed

lemma set_field_switches [calm_some]:
  "packet_set_field env len s = Some s' \<Longrightarrow> switches s' = switches s"
  unfolding packet_set_field_def Let_def
  by (auto simp: split_beta split: option.split_asm if_split_asm dest!: calm_some)

lemma command_switches [calm_some]:
  "packet_connect env s = Some s' \<Longrightarrow> switches s' = switches s"
  "packet_console env n s = Some s' \<Longrightarrow> switches s' = switches s"
  "packet_get_data env s = Some s' \<Longrightarrow> switches s' = switches s"
  "packet_get_cells env s = Some s' \<Longrightarrow> switches s' = switches s"
  "packet_get_all env s = Some s' \<Longrightarrow> switches s' = switches s"
  by (auto simp: packet_connect_def packet_console_def packet_get_data_def packet_get_cells_def
      packet_get_all_def Let_def split_beta calm bind_eq_Some_conv split: if_splits dest!: calm_some)

lemma fw_command_switches [calm_some]:
  "fw_answer env cmd res s = Some s' \<Longrightarrow> switches s' = switches s"
  "packet_erase_fw env s = Some s' \<Longrightarrow> switches s' = switches s"
  "packet_write_fw env len s = Some s' \<Longrightarrow> switches s' = switches s"
proof -
  show a: "fw_answer env cmd res s = Some s' \<Longrightarrow> switches s' = switches s" for cmd res s
    by (auto simp: fw_answer_def dest!: calm_some)
  show "packet_erase_fw env s = Some s' \<Longrightarrow> switches s' = switches s"
    by (auto simp: packet_erase_fw_def split_beta calm dest!: a)
  show "packet_write_fw env len s = Some s' \<Longrightarrow> switches s' = switches s"
    by (auto simp: packet_write_fw_def Let_def split_beta split: option.splits prod.splits
        dest!: a calm_some)
qed

lemma process_packet_switches:
  "process_packet env len s = Some s' \<Longrightarrow>
   switches s' = switches s \<or> s' = fw_updater_jump_bootloader s"
  by (auto simp: process_packet_def Let_def split: if_splits dest!: calm_some)

text \<open>The jump into the bootloader switches discharging off and changes no other switch.\<close>

lemma jump_switches:
  "switches (fw_updater_jump_bootloader s) =
     (False, pads s PCHG_SW, pads s PWR_SW, False, faults s, shutdown s)"
proof -
  have "switches (fold clear_interrupts is t) = switches t" for "is" and t :: "'a usb_scheme"
    by (induction "is" arbitrary: t) (simp_all add: clear_interrupts_def calm)
  then have "switches (fw_updater_jump_bootloader s) = switches (power_disable_discharge s)"
    by (simp add: fw_updater_jump_bootloader_def Let_def calm)
  then show ?thesis by (simp add: switches_def power_disable_discharge_def board_simps)
qed

lemma byte_switches:
  assumes "packet_process_byte env b s = Some s'"
  shows "switches s' = switches s \<or>
    switches s' = (False, pads s PCHG_SW, pads s PWR_SW, False, faults s, shutdown s)"
proof -
  have st: "switches (to_state p t) = switches t" for p and t :: "'a pkt_scheme"
    by (simp add: to_state_def calm)
  show ?thesis
    using assms unfolding packet_process_byte_def
    by (auto simp: Let_def st calm jump_switches split: PacketState.splits if_splits
        dest!: process_packet_switches)
qed

subsection \<open>The invariant\<close>

text \<open>
  The discharge switch is on only while discharging is enabled, no fault is raised, the pack
  is not shut down and the precharge switch is off; a pack that is shut down has its main
  switch off.
\<close>

definition safe :: "'a pwr_scheme \<Rightarrow> bool" where
  "safe s \<longleftrightarrow>
     (pads s DSG_SW \<longrightarrow> discharge_enabled s \<and> faults s = 0 \<and> \<not> shutdown s \<and> \<not> pads s PCHG_SW) \<and>
     (shutdown s \<longrightarrow> \<not> pads s PWR_SW)"

text \<open>\<open>safe\<close> as a predicate on the six values \<open>switches\<close> collects.\<close>

fun safe_values :: "bool \<times> bool \<times> bool \<times> bool \<times> u8 \<times> bool \<Rightarrow> bool" where
  "safe_values (dsg, pchg, pwr, enabled, flt, down) \<longleftrightarrow>
     (dsg \<longrightarrow> enabled \<and> flt = 0 \<and> \<not> down \<and> \<not> pchg) \<and> (down \<longrightarrow> \<not> pwr)"

lemma safe_switches: "safe s = safe_values (switches s)"
  by (simp add: safe_def switches_def)

lemma safe_cong: "switches s = switches t \<Longrightarrow> safe s = safe t"
  by (simp add: safe_switches)

lemma alert_safe: "safe s \<Longrightarrow> safe (curr_alert s)"
  by (simp add: safe_def curr_alert_def power_disable_discharge_def board_simps)

lemma precharge_faults:
  "\<not> fst (power_precharge s) \<Longrightarrow> faults (snd (power_precharge s)) = faults s"
  by (auto simp: power_precharge_def Let_def split_beta board_simps precharge_done_keeps split: if_splits)

lemma switches_faults:
  "\<not> fst (power_switches s) \<Longrightarrow> faults (snd (power_switches s)) = faults s"
  by (auto simp: power_switches_def Let_def split_beta board_simps precharge_faults split: if_splits)

lemma requested_faults: "faults (snd (shutdown_requested s)) = faults s"
  by (simp add: shutdown_requested_def Let_def split_beta board_simps)

lemma shutdown_faults: "faults (power_shutdown s) = faults s"
  by (simp add: power_shutdown_def Let_def split_beta board_simps requested_faults)

lemma update_safe:
  assumes "shutdown s \<longrightarrow> \<not> pads s PWR_SW"
  shows "safe (power_update s)"
proof -
  let ?s1 = "if \<not> shutdown s \<and> power_on_event s \<noteq> EVENT_USB then palSetPad PWR_SW s else s"
  let ?s2 = "snd (power_switches ?s1)"
  have up: "power_update s = (if fst (power_switches ?s1) then ?s2 else power_shutdown ?s2)"
    by (simp add: power_update_def Let_def split_beta)
  have e: "discharge_enabled ?s1 = discharge_enabled s" "faults ?s1 = faults s" "shutdown ?s1 = shutdown s"
    "shutdown s \<longrightarrow> \<not> pads ?s1 PWR_SW"
    using assms by (simp_all add: board_simps)
  have "discharge_enabled (power_update s) = discharge_enabled s"
    unfolding up using power_switches_result(4)[of ?s1] power_shutdown_result(4)[of ?s2] e by auto
  moreover have "faults (power_update s) = faults s" if "pads (power_update s) DSG_SW"
    using that power_switches_result(7)[of ?s1] switches_faults[of ?s1] shutdown_faults[of ?s2] e(2)
    unfolding up by (auto split: if_splits)
  moreover have "shutdown (power_update s) \<longrightarrow> \<not> pads (power_update s) PWR_SW"
    using power_switches_result(3,5)[of ?s1] power_shutdown_result(3)[of ?s2] e(3,4)
    unfolding up by auto
  ultimately show ?thesis using power_update_pads[of s] by (auto simp: safe_def)
qed

lemma pass_safe:
  assumes "main_pass lg junk s = Some (fin, s')" and "shutdown s \<longrightarrow> \<not> pads s PWR_SW"
  shows "safe s'" and "fin = shutdown s'"
proof -
  let ?s0 = "soc_update (current_monitor_update (ltc6803_update (analog_update lg s)))"
  obtain s1 where s1: "charger_update junk ?s0 = Some s1"
    using assms(1) by (auto simp: main_pass_def bind_eq_Some_conv)
  let ?s2 = "comm_can_update (accessory_update (rtcc_update (power_update s1)))"
  have "latch s1 = latch s"
    using switches_latch[OF charger_switches[OF s1]] switches_latch[OF soc_switches(1)]
      current_latch switches_latch[OF ltc_update_switches(4)] analog_latch by metis
  then have "safe (power_update s1)" using assms(2) by (intro update_safe) (simp add: latch_def)
  then have safe: "safe ?s2" by (simp add: comm_can_update_def safe_switches calm)
  have "switches s' = switches ?s2 \<and> fin = shutdown ?s2"
    using assms(1) s1
    by (auto simp: main_pass_def Let_def power_is_shutdown_def calm split: if_splits dest!: calm_some)
  with safe show "safe s'" and "fin = shutdown s'"
    using safe_cong[of s' ?s2] by (auto simp: switches_def)
qed

subsection \<open>The start\<close>

lemma read_loop_switches: "switches (snd (config_read_loop is s)) = switches s"
  by (induction "is" arbitrary: s) (simp_all add: calm split: prod.splits option.splits)

lemma config_init_switches [calm]: "switches (config_init s) = switches s"
proof -
  have clear: "switches (FLASH_ClearFlag m t) = switches t" "switches (FLASH_Unlock t) = switches t"
    for m and t :: "'a pwr_scheme"
    by (rule flash_switches, simp add: keeps)+
  have start: "switches (snd (EE_Init t)) = switches t" for t :: "'a pwr_scheme"
    by (rule ee_switches) (rule keeps_boardD[OF keeps_Init])
  have table: "switches (t\<lparr>VirtAddVarTab := v\<rparr>) = switches t" for v and t :: "'a pwr_scheme"
    by (simp add: switches_def)
  have all: "switches (snd (config_write_all t)) = switches t" for t :: "'a pwr_scheme"
    by (simp add: config_write_all_def Let_def split_beta calm clear)
  show ?thesis
    by (simp add: config_init_def config_read_all_def config_load_default_configuration_def Let_def split_beta
        calm clear start table all read_loop_switches)
qed

lemma pad_shutdown [simp]:
  "shutdown (palSetPadMode p m s) = shutdown s" "shutdown (palClearPad p s) = shutdown s"
  "shutdown (palSetPad p s) = shutdown s" "shutdown (emit e s) = shutdown s"
  by (simp_all add: palSetPadMode_def board_simps)

lemma gpio_shutdown: "shutdown (gpio_init s) = shutdown s"
  by (simp add: gpio_init_def Let_def)

lemma detect_keeps:
  "shutdown (power_detect_event s) = shutdown s" "pads (power_detect_event s) = pads s"
  by (simp_all add: power_detect_event_def Let_def split_beta board_simps)

lemma power_init_off:
  "\<not> shutdown s \<Longrightarrow> \<not> pads (power_init s) DSG_SW \<and> \<not> shutdown (power_init s)"
  by (auto simp: power_init_def Let_def board_simps detect_keeps)

lemma inits_switches [calm]:
  "switches (comm_can_init s) = switches s" "switches (buzzer_init t) = switches t"
  "switches (led_rgb_init s) = switches s"
  by (simp_all add: comm_can_init_def buzzer_init_def led_rgb_init_def Let_def calm)

lemma inits_switches_some [calm_some]:
  "charger_init s = Some s' \<Longrightarrow> switches s' = switches s"
  "current_monitor_init c = Some c' \<Longrightarrow> switches c' = switches c"
  "accessory_init env a = Some a' \<Longrightarrow> switches a' = switches a"
  by (auto simp: charger_init_def current_monitor_init_def accessory_init_def ws2812b_init_def
      ws2812b_buffers_def Let_def split_beta calm split: option.splits dest!: calm_some)

lemma init_safe:
  assumes "main_init senv s = Some s'" and "\<not> shutdown s"
  shows "safe s' \<and> \<not> pads s' DSG_SW \<and> \<not> shutdown s'"
proof -
  let ?s1 = "emit (Sleep_Ms 1) (gpio_init (emit Kernel_Init (emit Hal_Init s)))"
  let ?p = "power_init (analog_init (config_init ?s1))"
  have "\<not> shutdown (analog_init (config_init ?s1))"
    using switches_latch[OF trans[OF analog_init_switches config_init_switches], of ?s1] assms(2)
    by (simp add: latch_def gpio_shutdown)
  then have "\<not> pads ?p DSG_SW \<and> \<not> shutdown ?p" by (rule power_init_off)
  moreover have "switches s' = switches ?p"
    using assms(1) by (auto simp: main_init_def Let_def bind_eq_Some_conv calm dest!: calm_some)
  ultimately show ?thesis by (auto simp: safe_def switches_def)
qed

subsection \<open>Every reachable state\<close>

text \<open>What holds of a configuration of the system.\<close>

fun sound :: "phase \<times> 'a pwr_scheme \<Rightarrow> bool" where
  "sound (Running, s) = safe s"
| "sound (Stopped, s) = (safe s \<and> shutdown s)"

lemma sound_keeps:
  assumes "sound (p, s)" and "switches t = switches s"
  shows "sound (p, t)"
  using assms by (cases p) (auto simp: safe_switches, auto simp: switches_def)

lemma step_sound:
  assumes "step sys c d" and "sound c"
  shows "sound d"
  using assms
proof (cases rule: step.cases)
  case (pass junk s s')
  then show ?thesis using assms(2) pass_safe(1)[OF pass(3)] by (simp add: safe_def)
next
  case (stop junk s s')
  then show ?thesis using assms(2) pass_safe[OF stop(3)] by (simp add: safe_def)
next
  case (alert p s)
  then show ?thesis using assms(2) alert_safe[of s]
    by (cases p) (simp_all add: curr_alert_def power_disable_discharge_def board_simps)
next
  case (byte b s s' p)
  have "safe s' \<and> shutdown s' = shutdown s" if "safe s"
    using byte_switches[OF byte(3)] that by (auto simp: safe_switches switches_def)
  then show ?thesis using byte(1,2) assms(2) by (cases p) simp_all
next
  case (tone s fin s' p)
  have "safe s' \<and> shutdown s' = shutdown s" if "safe s"
    using buzzer_update_switches[OF tone(3)] that by (auto simp: safe_switches switches_def)
  then show ?thesis using tone(1,2) assms(2) by (cases p) simp_all
qed (use assms(2) in \<open>auto elim!: sound_keeps simp: calm\<close>)

lemma reaches_sound:
  assumes "reaches sys c d" and "sound c"
  shows "sound d"
  using assms by (induction rule: reaches.induct) (auto dest: step_sound)

end
