(* ===== verification/Config_Props.thy ===== *)
theory Config_Props
  imports Config
begin

text \<open>
  The configuration in memory and its copy in the EEPROM: what is written is read back,
  also after a restart, and the operations keep the two copies equal.
\<close>

subsection \<open>What does not concern the EEPROM\<close>

lemma ee_ok_other [simp]:
  "ee_ok (emit e s) = ee_ok s" "ee_ok (c\<lparr>config := b\<rparr>) = ee_ok c"
  by (simp_all add: ee_ok_def ee_ready_def flash_idle_def calm_def emit_def)

lemma ee_tab_other [simp]:
  "VirtAddVarTab (emit e s) = VirtAddVarTab s" "config (emit e c) = config c"
  by (simp_all add: emit_def)

lemma ee_get_cells:
  assumes "cells s = cells t"
  shows "ee_get v s = ee_get v t"
  unfolding ee_get_def EE_ReadVariable_def EE_FindValidPage_def assms ..

lemma ee_get_other [simp]:
  "ee_get v (emit e s) = ee_get v s" "ee_get v (c\<lparr>config := b\<rparr>) = ee_get v c"
  by (rule ee_get_cells; simp add: emit_def)+

lemma ClearFlag_ok [simp]: "ee_ok s \<Longrightarrow> FLASH_ClearFlag f s = s"
  by (simp add: FLASH_ClearFlag_def hw_write_SR_def ee_ok_def ee_ready_def flash_idle_def)

lemma set_overcurrent_other:
  "current_monitor_set_overcurrent x s = Some s' \<Longrightarrow>
   ee_ok s' = ee_ok s \<and> VirtAddVarTab s' = VirtAddVarTab s \<and> ee_get v s' = ee_get v s"
  by (auto simp: current_monitor_set_overcurrent_def i2cSend_def i2cMasterTransmit_def Let_def
      split: option.splits)

lemma set_overcurrent_config:
  fixes s :: "'a cfg_scheme"
  shows "current_monitor_set_overcurrent x s = Some s' \<Longrightarrow> config s' = config s"
  by (auto simp: current_monitor_set_overcurrent_def i2cSend_def i2cMasterTransmit_def Let_def
      split: option.splits)

subsection \<open>The loops as uses of the store\<close>

definition half :: "u8 list \<Rightarrow> nat \<Rightarrow> u16" where
  "half m i = be16 (m ! (2 * i)) (m ! (2 * i + 1))"

definition vadr :: "nat \<Rightarrow> u16" where
  "vadr i = EEPROM_BASE + of_nat i"

lemma unat_vadr:
  assumes "i < 38"
  shows "unat (vadr i) = 1000 + i"
proof -
  have "vadr i = of_nat (1000 + i)" by (simp add: vadr_def EEPROM_BASE_def)
  then show ?thesis using assms by (simp add: unat_of_nat take_bit_nat_eq_self_iff del: of_nat_add)
qed

lemma vadr_inject: "i < 38 \<Longrightarrow> j < 38 \<Longrightarrow> vadr i = vadr j \<longleftrightarrow> i = j"
  by (metis unat_vadr add_left_cancel)

lemma config_table_wf: "wf_tab config_table"
proof -
  have "vadr i \<noteq> 0xFFFF" if "i < 38" for i
  proof
    assume "vadr i = 0xFFFF"
    with unat_vadr[OF that] that show False by simp
  qed
  moreover have "set config_table \<subseteq> vadr ` {..<38} \<union> {0}"
    by (auto simp: config_table_def sizeof_Config_def simp flip: vadr_def)
  ultimately have "0xFFFF \<notin> set config_table" by (force simp: subset_iff)
  then show ?thesis
    by (simp add: wf_tab_def config_table_def NB_OF_VAR_def sizeof_Config_def)
qed

lemma vadr_in_table: "i < 38 \<Longrightarrow> vadr i \<in> set config_table"
  by (auto simp: config_table_def vadr_def sizeof_Config_def)

lemma ee_more_config:
  fixes s :: "'a cfg_scheme"
  shows "ee.more s' = ee.more s \<Longrightarrow> config s' = config s"
  by (cases s; cases s') simp

lemma config_write_loop_put_all:
  fixes s :: "'a cfg_scheme"
  assumes "ee_ok s" and "VirtAddVarTab s = config_table" and "set is \<subseteq> {..<38}"
  shows "config_write_loop is s = nv.put_all (map (\<lambda>i. (vadr i, half (config s) i)) is) s \<and>
    config (snd (config_write_loop is s)) = config s \<and>
    VirtAddVarTab (snd (config_write_loop is s)) = config_table"
  using assms
proof (induction "is" arbitrary: s)
  case (Cons i "is")
  let ?v = "half (config s) i"
  obtain st s1 where w: "EE_WriteVariable (vadr i) ?v s = (st, s1)" by fastforce
  have in_tab: "vadr i \<in> set (VirtAddVarTab s)" using Cons.prems vadr_in_table by auto
  have p: "ee_put (vadr i) ?v s = (st = status_code FLASH_COMPLETE, s1)" by (simp add: ee_put_def w)
  have s1: "st = status_code FLASH_COMPLETE" "ee_ok s1" "VirtAddVarTab s1 = config_table"
    "config s1 = config s"
    using ee_put_store(1-4)[OF Cons.prems(1) in_tab, of ?v] Cons.prems(2) ee_more_config
    by (auto simp: p)
  have step: "config_write_loop (i # is) s = config_write_loop is s1"
    using w s1(1) by (simp add: half_def vadr_def)
  have step': "nv.put_all (map (\<lambda>i. (vadr i, half (config s) i)) (i # is)) s =
      nv.put_all (map (\<lambda>i. (vadr i, half (config s) i)) is) s1"
    using p s1(1) by simp
  from Cons.prems(3) have "set is \<subseteq> {..<38}" by simp
  from Cons.IH[OF s1(2,3) this, unfolded s1(4)] show ?case unfolding step step' .
qed simp

definition cfg_ok :: "'a cfg_scheme \<Rightarrow> bool" where
  "cfg_ok s \<longleftrightarrow> ee_ok s \<and> VirtAddVarTab s = config_table \<and> length (config s) = sizeof_Config"

definition synced :: "'a cfg_scheme \<Rightarrow> bool" where
  "synced s \<longleftrightarrow> (\<forall>i<38. ee_get (vadr i) s = Some (half (config s) i))"

lemma cfg_ok_other [simp]: "cfg_ok (emit e s) = cfg_ok s" "synced (emit e s) = synced s"
  by (simp_all add: cfg_ok_def synced_def)

lemma map_of_vadr:
  assumes "j < 38"
  shows "set is \<subseteq> {..<38} \<Longrightarrow>
    map_of (map (\<lambda>i. (vadr i, f i)) is) (vadr j) = (if j \<in> set is then Some (f j) else None)"
  by (induction "is") (use assms in \<open>auto simp: vadr_inject\<close>)

lemma write_loop_result:
  assumes "cfg_ok s" and "set is \<subseteq> {..<38}" and "config_write_loop is s = (b, s')"
  shows "b" and "cfg_ok s'" and "config s' = config s"
    and "\<forall>j<38. ee_get (vadr j) s' =
      (if j \<in> set is then Some (half (config s) j) else ee_get (vadr j) s)"
proof -
  let ?kvs = "map (\<lambda>i. (vadr i, half (config s) i)) is"
  from assms(1) have ok: "ee_ok s" "VirtAddVarTab s = config_table" "length (config s) = sizeof_Config"
    by (auto simp: cfg_ok_def)
  note L = config_write_loop_put_all[OF ok(1,2) assms(2)]
  have put: "nv.put_all ?kvs s = (b, s')" using L assms(3) by simp
  show conf: "config s' = config s" using L assms(3) by simp
  have "fst ` set ?kvs \<subseteq> set (VirtAddVarTab s)"
    using assms(2) vadr_in_table ok(2) by auto
  note N = nv.put_all_spec[OF ok(1) this, unfolded put fst_conv snd_conv]
  show b using N by blast
  have tab: "VirtAddVarTab s' = config_table" using L assms(3) by simp
  show "cfg_ok s'" using N tab conf ok by (simp add: cfg_ok_def)
  show "\<forall>j<38. ee_get (vadr j) s' =
      (if j \<in> set is then Some (half (config s) j) else ee_get (vadr j) s)"
  proof (intro allI impI)
    fix j :: nat assume j: "j < 38"
    have "map_of (rev ?kvs) (vadr j) = (if j \<in> set is then Some (half (config s) j) else None)"
      using map_of_vadr[OF j, of "rev is" "half (config s)"] assms(2) by (simp add: rev_map)
    moreover have "vadr j \<in> set (VirtAddVarTab s)" using j ok(2) vadr_in_table by simp
    ultimately show "ee_get (vadr j) s' =
        (if j \<in> set is then Some (half (config s) j) else ee_get (vadr j) s)"
      using N by auto
  qed
qed

lemma read_loop_step:
  "config_read_loop (i # is) s =
     (case ee_get (vadr i) s of
        Some var \<Rightarrow>
          config_read_loop is (s\<lparr>config := (config s)[2 * i := hi8 var, 2 * i + 1 := lo8 var]\<rparr>)
      | None \<Rightarrow> (False, s))"
  by (simp add: ee_get_def vadr_def split: prod.split option.split)

lemma half_put:
  "2 * i + 1 < length m \<Longrightarrow> 2 * j + 1 < length m \<Longrightarrow>
   half (m[2 * i := hi8 v, 2 * i + 1 := lo8 v]) j = (if j = i then v else half m j)"
proof -
  have "2 * i \<noteq> Suc (2 * j)" "Suc (2 * j) \<noteq> 2 * i" for i j :: nat by presburger+
  then show "2 * i + 1 < length m \<Longrightarrow> 2 * j + 1 < length m \<Longrightarrow> ?thesis"
    by (auto simp: half_def nth_list_update)
qed

lemma read_loop_result:
  "set is \<subseteq> {..<38} \<Longrightarrow> length (config s) = sizeof_Config \<Longrightarrow> config_read_loop is s = (b, s') \<Longrightarrow>
   \<exists>c. s' = s\<lparr>config := c\<rparr> \<and> length c = sizeof_Config \<and>
     (b \<longleftrightarrow> (\<forall>i\<in>set is. ee_get (vadr i) s \<noteq> None)) \<and>
     (b \<longrightarrow> (\<forall>i\<in>set is. ee_get (vadr i) s = Some (half c i))) \<and>
     (\<forall>j<38. j \<notin> set is \<longrightarrow> half c j = half (config s) j)"
proof (induction "is" arbitrary: s)
  case Nil
  then show ?case by (intro exI[of _ "config s"]) auto
next
  case (Cons i "is")
  show ?case
  proof (cases "ee_get (vadr i) s")
    case None
    have "b = False" "s' = s" using Cons.prems(3) unfolding read_loop_step None by auto
    with None Cons.prems show ?thesis by (intro exI[of _ "config s"]) simp
  next
    case (Some v)
    let ?t = "s\<lparr>config := (config s)[2 * i := hi8 v, 2 * i + 1 := lo8 v]\<rparr>"
    have run: "config_read_loop is ?t = (b, s')" using Cons.prems(3) unfolding read_loop_step Some by simp
    have t: "length (config ?t) = sizeof_Config" "set is \<subseteq> {..<38}" using Cons.prems by simp_all
    from Cons.IH[OF t(2,1) run] obtain c where c: "s' = ?t\<lparr>config := c\<rparr>" "length c = sizeof_Config"
      "b \<longleftrightarrow> (\<forall>i\<in>set is. ee_get (vadr i) s \<noteq> None)"
      "b \<longrightarrow> (\<forall>i\<in>set is. ee_get (vadr i) s = Some (half c i))"
      "\<forall>j<38. j \<notin> set is \<longrightarrow> half c j = half (config ?t) j" by auto
    have i: "i < 38" and h: "\<And>j. j < 38 \<Longrightarrow> half (config ?t) j = (if j = i then v else half (config s) j)"
      using Cons.prems half_put[of i "config s"] by (auto simp: sizeof_Config_def)
    have "half c i = v" if b using that c(4,5) i h Some by (cases "i \<in> set is") auto
    with c h i Some show ?thesis by (intro exI[of _ c]) auto
  qed
qed

lemma half_ext:
  assumes "length c = sizeof_Config" and "length d = sizeof_Config" and "\<forall>i<38. half c i = half d i"
  shows "c = d"
proof (rule nth_equalityI)
  fix k assume k: "k < length c"
  then have "half c (k div 2) = half d (k div 2)" using assms by (simp add: sizeof_Config_def)
  then have "c ! (2 * (k div 2)) = d ! (2 * (k div 2))"
    "c ! (2 * (k div 2) + 1) = d ! (2 * (k div 2) + 1)" by (auto simp: half_def)
  moreover have "k = 2 * (k div 2) \<or> k = 2 * (k div 2) + 1" by presburger
  ultimately show "c ! k = d ! k" by metis
qed (use assms in simp)

subsection \<open>The operations\<close>

lemma write_all_result:
  assumes "cfg_ok s" and "config_write_all s = (b, s')"
  shows "b" and "cfg_ok s'" and "config s' = config s" and "synced s'"
proof -
  have "cfg_ok (emit Sys_Lock s)" using assms(1) by simp
  then have "FLASH_ClearFlag f (emit Sys_Lock s) = emit Sys_Lock s" for f
    by (simp add: cfg_ok_def)
  with assms(2) obtain t where t: "config_write_loop [0..<38] (emit Sys_Lock s) = (b, t)"
    and s': "s' = emit Sys_Unlock t"
    by (auto simp: config_write_all_def sizeof_Config_def split: prod.splits)
  have "set [0..<38] \<subseteq> {..<(38::nat)}" by auto
  note W = write_loop_result[OF \<open>cfg_ok (emit Sys_Lock s)\<close> this t]
  from W s' show "b" "cfg_ok s'" "config s' = config s" by simp_all
  from W s' show "synced s'" by (simp add: synced_def)
qed

lemma default_length [simp]:
  "length (config s) = sizeof_Config \<Longrightarrow>
   length (config (config_load_default_configuration s)) = sizeof_Config"
  by (simp add: config_load_default_configuration_def default_writes_def put_bytes_def
      sizeof_Config_def offsets float_bytes_def u32_bytes_def u16_bytes_def)

lemma default_ok [simp]: "cfg_ok s \<Longrightarrow> cfg_ok (config_load_default_configuration s)"
  using default_length[of s]
  by (simp add: cfg_ok_def) (simp add: config_load_default_configuration_def)

lemma read_all_result:
  assumes "cfg_ok s"
  shows "cfg_ok (config_read_all s)" and "synced (config_read_all s)"
    and "synced (s\<lparr>config := c\<rparr>) \<Longrightarrow> length c = sizeof_Config \<Longrightarrow> config (config_read_all s) = c"
    and "\<exists>i<38. ee_get (vadr i) s = None \<Longrightarrow>
      \<exists>d. length d = sizeof_Config \<and>
        config (config_read_all s) = fold (\<lambda>(a, bs). put_bytes a bs) default_writes d"
proof -
  obtain b t where run: "config_read_loop [0..<38] s = (b, t)" by fastforce
  have len: "length (config s) = sizeof_Config" using assms by (simp add: cfg_ok_def)
  have "set [0..<38] \<subseteq> {..<(38::nat)}" by auto
  from read_loop_result[OF this len run] obtain d where d: "t = s\<lparr>config := d\<rparr>" "length d = sizeof_Config"
    "b \<longleftrightarrow> (\<forall>i<38. ee_get (vadr i) s \<noteq> None)"
    "b \<longrightarrow> (\<forall>i<38. ee_get (vadr i) s = Some (half d i))" by (auto simp: atLeast0LessThan)
  have t: "cfg_ok t" using assms d(1,2) by (simp add: cfg_ok_def)
  obtain b' w where w: "config_write_all (config_load_default_configuration t) = (b', w)" by fastforce
  have all: "config_read_all s = (if b then t else w)"
    using run w by (simp add: config_read_all_def sizeof_Config_def)
  note W = write_all_result[OF default_ok[OF t] w]
  show "cfg_ok (config_read_all s)" using W(2) t by (simp add: all)
  show "synced (config_read_all s)" using W(4) d by (auto simp: all synced_def)
  show "config (config_read_all s) = c" if c: "synced (s\<lparr>config := c\<rparr>)" "length c = sizeof_Config"
  proof -
    from c(1) have "\<forall>i<38. ee_get (vadr i) s = Some (half c i)" by (simp add: synced_def)
    with d have "b" and "\<forall>i<38. half d i = half c i" by auto
    with half_ext[OF d(2) c(2)] d(1) show ?thesis by (simp add: all)
  qed
  show "\<exists>d. length d = sizeof_Config \<and>
        config (config_read_all s) = fold (\<lambda>(a, bs). put_bytes a bs) default_writes d"
    if "\<exists>i<38. ee_get (vadr i) s = None"
  proof -
    from that d(3) have "\<not> b" by auto
    with W(3) d(1,2) show ?thesis
      by (auto simp: all config_load_default_configuration_def)
  qed
qed

lemma init_restart:
  "config_init (power_up p s) =
     config_read_all (snd (restart p (s\<lparr>VirtAddVarTab := config_table\<rparr>)))"
proof -
  have up: "(power_up p s)\<lparr>VirtAddVarTab := config_table\<rparr> = power_up p (s\<lparr>VirtAddVarTab := config_table\<rparr>)"
    by (simp add: power_up_def)
  have flags: "FLASH_ClearFlag f (FLASH_Unlock (power_up p t)) = FLASH_Unlock (power_up p t)"
    for f and t :: "'a cfg_scheme"
    by (simp add: Unlock_power_up FLASH_ClearFlag_def hw_write_SR_def) (simp add: power_up_def)
  show ?thesis by (simp add: config_init_def up flags restart_def Let_def split_beta)
qed

text \<open>
  C11: Starting on an EEPROM that holds the half-words of a configuration loads exactly
  this configuration, whatever was in memory.
\<close>

theorem config_init_loads:
  assumes "cfg_ok s" and "synced s" and "length m = sizeof_Config"
    and "list_all calm_outcome p" and "Supply_Fails \<notin> set p"
  shows "cfg_ok (config_init (power_up p (s\<lparr>config := m\<rparr>))) \<and>
    synced (config_init (power_up p (s\<lparr>config := m\<rparr>))) \<and>
    config (config_init (power_up p (s\<lparr>config := m\<rparr>))) = config s"
proof -
  let ?s = "s\<lparr>config := m\<rparr>"
  obtain st t where run: "restart p ?s = (st, t)" by fastforce
  have tab: "VirtAddVarTab s = config_table" using assms(1) by (simp add: cfg_ok_def)
  then have same: "?s\<lparr>VirtAddVarTab := config_table\<rparr> = ?s" by (cases s) simp
  from assms(1) obtain f where f: "holds config_table (cells s) f"
    by (auto simp: cfg_ok_def ee_ok_def)
  then have "recoverable config_table 162 (cells ?s) f" by (simp add: recoverableI)
  note R = restart_holds[OF this config_table_wf _ assms(4,5) run]
  have t: "ee_ok t" "VirtAddVarTab t = config_table" "config t = m" "holds config_table (cells t) f"
    using R tab ee_more_config[of t ?s] by auto
  then have ok: "cfg_ok t" using assms(3) by (simp add: cfg_ok_def)
  have "ee_get (vadr i) t = ee_get (vadr i) s" if "i < 38" for i
    using ee_get_holds[OF f] ee_get_holds[OF t(4)] vadr_in_table[OF that] by simp
  then have "synced (t\<lparr>config := config s\<rparr>)" using assms(2) by (simp add: synced_def)
  moreover have "length (config s) = sizeof_Config" using assms(1) by (simp add: cfg_ok_def)
  ultimately show ?thesis
    using read_all_result(1-3)[OF ok] run by (simp add: init_restart same)
qed

lemma init_erased:
  assumes "cells s PAGE0_BASE_ADDRESS = ERASED" and "cells s PAGE1_BASE_ADDRESS = ERASED"
    and "length (config s) = sizeof_Config"
    and "list_all calm_outcome p" and "Supply_Fails \<notin> set p"
  shows "cfg_ok (config_init (power_up p s)) \<and> synced (config_init (power_up p s)) \<and>
    (\<exists>m. length m = sizeof_Config \<and>
      config (config_init (power_up p s)) = fold (\<lambda>(a, bs). put_bytes a bs) default_writes m)"
proof -
  let ?s = "s\<lparr>VirtAddVarTab := config_table\<rparr>"
  obtain st t where run: "restart p ?s = (st, t)" by fastforce
  have "wf_tab (VirtAddVarTab ?s)" by (simp add: config_table_wf)
  note R = restart_formats[OF this _ assms(4,5) run]
  have R: "ee_ok t" "\<forall>v\<in>set config_table. EE_ReadVariable v t = (1, None)"
    "VirtAddVarTab t = config_table" "ee.more t = ee.more ?s"
    using R assms(1,2) by (simp_all add: hdr_def sval_def base_slot)
  then have ok: "cfg_ok t" using assms(3) ee_more_config[of t ?s] by (simp add: cfg_ok_def)
  have "ee_get (vadr 0) t = None" using R(2) vadr_in_table[of 0] by (simp add: ee_get_def)
  then have "\<exists>i<38. ee_get (vadr i) t = None" by (intro exI[of _ 0]) simp
  from read_all_result(1,2,4)[OF ok] this show ?thesis by (simp add: init_restart run)
qed

definition blank_chip :: cfg where
  "blank_chip =
     \<lparr>cells = (\<lambda>_. 0xFFFF), CR = 0, SR = 0, AR = 0, busy = 0, key1 = False, plan = [],
      powered = True, DataVar = 0, VirtAddVarTab = [], ios = 0, clock_in = (\<lambda>_. 0),
      pad_in = (\<lambda>_ _. False), bus_in = (\<lambda>_ _. 0), adc_in = (\<lambda>_ _. 0), nvic_active = (\<lambda>_ _. 0),
      pads = (\<lambda>_. False), events = [], config = replicate sizeof_Config 0\<rparr>"

abbreviation started :: cfg where
  "started \<equiv> config_init (power_up [] blank_chip)"

lemma blank_chip_started: "cfg_ok started" "synced started"
  using init_erased[of blank_chip "[]"] by (simp_all add: blank_chip_def ERASED_def)

lemma config_init_loads_witness:
  "config (config_init (power_up [] (started\<lparr>config := replicate sizeof_Config 7\<rparr>))) = config started"
  using config_init_loads[OF blank_chip_started, of "replicate sizeof_Config 7" "[]"] by simp

text \<open>
  On a chip whose EEPROM pages are erased the first start takes the default
  configuration and stores all of it.
\<close>

theorem config_init_defaults:
  assumes "cells s PAGE0_BASE_ADDRESS = ERASED" and "cells s PAGE1_BASE_ADDRESS = ERASED"
    and "length (config s) = sizeof_Config"
    and "list_all calm_outcome p" and "Supply_Fails \<notin> set p"
  shows "cfg_ok (config_init (power_up p s)) \<and> synced (config_init (power_up p s)) \<and>
    (\<exists>m. length m = sizeof_Config \<and>
      config (config_init (power_up p s)) = fold (\<lambda>(a, bs). put_bytes a bs) default_writes m)"
  by (rule init_erased[OF assms])

lemma config_init_defaults_witness: "synced (config_init (power_up [Completes 3] blank_chip))"
  using config_init_defaults[of blank_chip "[Completes 3]"]
  by (simp add: blank_chip_def ERASED_def FLASH_ER_PRG_TIMEOUT_def)

text \<open>
  C10: A field written within the structure ends up in memory and in the EEPROM: both
  copies of the configuration stay equal, and nothing but the bytes of the field changes.
\<close>

theorem config_write_field_synced:
  assumes "cfg_ok s" and "synced s"
    and "config_write_field addr data sz s = Some (is_ok, data', s')"
  shows "is_ok \<and> cfg_ok s' \<and> synced s' \<and>
    config s' = put_bytes (unat addr) (take (unat sz) data') (config s)"
proof -
  let ?a = "unat addr" and ?n = "unat sz"
  from assms(3) obtain s1 where lim: "config_limit ?a data s = Some data'"
    and s1: "(if ?a = off_maxCurrentCutoff
                then current_monitor_set_overcurrent (get_float 0 data') s else Some s) = Some s1"
    and n: "\<not> (length data' < ?n \<or> length (config s1) < ?a + ?n)"
    by (auto simp: config_write_field_def Let_def split: option.splits if_splits prod.splits)
  have s1': "cfg_ok s1" "config s1 = config s" "\<forall>v. ee_get v s1 = ee_get v s"
    using s1 assms(1) set_overcurrent_other[of _ s s1] set_overcurrent_config[of _ s s1]
    by (auto simp: cfg_ok_def split: if_splits)
  let ?c = "put_bytes ?a (take ?n data') (config s1)"
  have len: "length ?c = sizeof_Config" using s1'(1) n by (auto simp: put_bytes_def cfg_ok_def)
  let ?s2 = "emit Sys_Lock (s1\<lparr>config := ?c\<rparr>)"
  have s2: "cfg_ok ?s2" using s1'(1) len by (simp add: cfg_ok_def)
  have clear: "FLASH_ClearFlag f ?s2 = ?s2" for f using s2 by (simp add: cfg_ok_def)
  have bound: "?a + ?n \<le> sizeof_Config" using n s1'(1) by (simp add: cfg_ok_def)
  then have fit: "\<not> length (config ?s2) < 2 * ((?a + ?n + 1) div 2)"
    unfolding ee_tab_other cfg.select_convs using len by (simp add: sizeof_Config_def)
  obtain t where t: "config_write_loop [?a div 2..<(?a + ?n + 1) div 2] ?s2 = (is_ok, t)"
    and s': "s' = emit Sys_Unlock t"
    using assms(3) lim s1 n clear fit
    by (auto simp: config_write_field_def Let_def split: prod.splits)
  have "set [?a div 2..<(?a + ?n + 1) div 2] \<subseteq> {..<38}" using bound by (auto simp: sizeof_Config_def)
  note W = write_loop_result[OF s2 this t]
  have "ee_get (vadr j) t = Some (half ?c j)" if j: "j < 38" for j
  proof (cases "j \<in> set [?a div 2..<(?a + ?n + 1) div 2]")
    case True
    with W(4) j show ?thesis by simp
  next
    case False
    have "half ?c j = half (config s) j"
      using False n j s1'(1,2) unfolding half_def put_bytes_def cfg_ok_def
      by (auto simp: nth_append sizeof_Config_def)
    with False W(4) j s1'(3) assms(2) show ?thesis by (simp add: synced_def)
  qed
  with W s' s1'(2) show ?thesis by (simp add: synced_def)
qed

lemma write_example:
  obtains b s' where "config_write_field 1 [20] 1 started = Some (b, [12], s')"
proof -
  have len: "length (config started) = sizeof_Config" "ee_ok started"
    using blank_chip_started by (simp_all add: cfg_ok_def)
  have "config_limit 1 [20] started = Some [12]" by (simp add: config_limit_def offsets)
  with len have "\<exists>b s'. config_write_field 1 [20] 1 started = Some (b, [12], s')"
    by (simp add: config_write_field_def Let_def offsets sizeof_Config_def put_bytes_def split_beta)
  with that show ?thesis by blast
qed

lemma config_write_field_synced_witness:
  "\<exists>s'. config_write_field 1 [20] 1 started = Some (True, [12], s') \<and> synced s' \<and>
     config s' = put_bytes 1 [12] (config started)"
proof (rule write_example)
  fix b s'
  assume run: "config_write_field 1 [20] 1 started = Some (b, [12], s')"
  from config_write_field_synced[OF blank_chip_started run] run show ?thesis by auto
qed

subsection \<open>Limits\<close>

lemma limit_floats:
  "f32_of_bits (bits_of_f32 (Fin 5)) = Fin 5" "f32_of_bits (bits_of_f32 (Fin 150)) = Fin 150"
  "f32_of_bits (bits_of_f32 (Fin 1)) = Fin 1" "f32_of_bits (bits_of_f32 (Fin 0)) = Fin 0"
  by (simp_all add: mag_bits_def binade_def log2.simps f32_of_bits_def)

definition in_limits :: "fp \<Rightarrow> fp \<Rightarrow> fp \<Rightarrow> bool" where
  "in_limits lower upper x \<longleftrightarrow> \<not> fp_less x lower \<and> \<not> fp_less upper x"

lemma clamp_within:
  assumes "clamp_float (Fin l) (Fin u) d = Some d'" and "l \<le> u"
    and "f32_of_bits (bits_of_f32 (Fin l)) = Fin l" and "f32_of_bits (bits_of_f32 (Fin u)) = Fin u"
  shows "in_limits (Fin l) (Fin u) (get_float 0 d')"
  using assms
  by (auto simp: clamp_float_def in_limits_def Let_def get_float_def float_bytes_def get_u32_put_same
      simp del: bits_of_f32.simps split: if_splits)



end
