(* ===== verification/Start_Props.thy ===== *)
theory Start_Props
  imports System_Props Config_Props Charger_Props
begin

text \<open>
  The first start of the system: with the default configuration every conversion of a
  floating-point number during the start is defined, so that the start ends, and what may
  happen from then on keeps the invariant.
\<close>

subsection \<open>Fields of the configuration\<close>

lemma get_u32_fold_other:
  assumes "list_all (\<lambda>(b, bs). (a + 4 \<le> b \<or> b + length bs \<le> a) \<and> b + length bs \<le> length d) ws"
  shows "get_u32 a (fold (\<lambda>(b, bs). put_bytes b bs) ws d) = get_u32 a d \<and>
    length (fold (\<lambda>(b, bs). put_bytes b bs) ws d) = length d"
  using assms by (induction ws arbitrary: d) (auto simp: get_u32_put_other length_put)

text \<open>A field reads as its own assignment left it, whatever else is assigned.\<close>

lemma get_u32_fold:
  assumes "ws = pre @ (a, u32_bytes w) # post" and "a + 4 \<le> length d"
    and "list_all (\<lambda>(b, bs). (a + 4 \<le> b \<or> b + length bs \<le> a) \<and> b + length bs \<le> length d) (pre @ post)"
  shows "get_u32 a (fold (\<lambda>(b, bs). put_bytes b bs) ws d) = w"
proof -
  let ?d = "fold (\<lambda>(b, bs). put_bytes b bs) pre d"
  have d: "length ?d = length d" using get_u32_fold_other[of a d pre] assms(3) by simp
  have "length (put_bytes a (u32_bytes w) ?d) = length d"
    using assms(2) d by (simp add: length_put u32_bytes_def u16_bytes_def)
  then show ?thesis
    using get_u32_fold_other[of a "put_bytes a (u32_bytes w) ?d" post] assms d
    by (simp add: get_u32_put_same)
qed

lemma bytes_length [simp]: "length (float_bytes x) = 4" "length (u16_bytes w) = 2"
  by (simp_all add: float_bytes_def u32_bytes_def u16_bytes_def)

lemma lit_252: "flit (252 / 10) = Fin (6606029 / 262144)"
proof -
  have "round_even (252 / 10 / 2 powi (-48)) = 7093169413108531" by (rule round_evenI) simp_all
  then have d: "round_fp 53 (-1074) 1023 (252 / 10) = Fin (of_int 7093169413108531 * 2 powi (-48))"
    by (intro round_fp_eval[of 4]) simp_all
  have "round_even (7093169413108531 / 281474976710656 / 2 powi (-19)) = 13212058"
    by (rule round_evenI) simp_all
  then have "round_fp 24 (-149) 127 (7093169413108531 / 281474976710656) =
      Fin (of_int 13212058 * 2 powi (-19))"
    by (intro round_fp_eval[of 4]) simp_all
  with d show ?thesis by (simp add: flit_def rnd64_def rnd32_def)
qed

lemma stored_floats:
  "f32_of_bits (bits_of_f32 (flit (252 / 10))) \<noteq> NaN"
  "f32_of_bits (bits_of_f32 (flit 120)) = Fin 120"
proof -
  have "binade (6606029 / 262144) = 4" by (rule binade_unique) simp_all
  then have "mag_bits (6606029 / 262144) = 1103731098" by (simp add: mag_bits_def)
  then show "f32_of_bits (bits_of_f32 (flit (252 / 10))) \<noteq> NaN"
    unfolding lit_252 by (simp add: f32_of_bits_def Let_def)
  have "flit 120 = Fin 120" by (simp add: flit_def num_exact)
  then show "f32_of_bits (bits_of_f32 (flit 120)) = Fin 120"
    by (simp add: mag_bits_def binade_def log2.simps f32_of_bits_def)
qed

lemma default_floats:
  assumes "length m = sizeof_Config"
  shows "get_float off_chargeVoltage (fold (\<lambda>(a, bs). put_bytes a bs) default_writes m) \<noteq> NaN"
    and "get_float off_maxCurrentCutoff (fold (\<lambda>(a, bs). put_bytes a bs) default_writes m) = Fin 120"
proof -
  have d: "default_writes = take 14 default_writes @
      (off_chargeVoltage, u32_bytes (bits_of_f32 (flit (252 / 10)))) # drop 15 default_writes"
    "default_writes = take 9 default_writes @
      (off_maxCurrentCutoff, u32_bytes (bits_of_f32 (flit 120))) # drop 10 default_writes"
    by (simp_all only: default_writes_def float_bytes_def) simp_all
  have "get_u32 off_chargeVoltage (fold (\<lambda>(a, bs). put_bytes a bs) default_writes m) =
      bits_of_f32 (flit (252 / 10))"
    by (rule get_u32_fold[OF d(1)]) (simp_all add: assms default_writes_def offsets sizeof_Config_def)
  then show "get_float off_chargeVoltage (fold (\<lambda>(a, bs). put_bytes a bs) default_writes m) \<noteq> NaN"
    unfolding get_float_def using stored_floats(1) by simp
  have "get_u32 off_maxCurrentCutoff (fold (\<lambda>(a, bs). put_bytes a bs) default_writes m) =
      bits_of_f32 (flit 120)"
    by (rule get_u32_fold[OF d(2)]) (simp_all add: assms default_writes_def offsets sizeof_Config_def)
  then show "get_float off_maxCurrentCutoff (fold (\<lambda>(a, bs). put_bytes a bs) default_writes m) = Fin 120"
    unfolding get_float_def using stored_floats(2) by simp
qed

lemma overcurrent_120: "overcurrent_value (Fin 120) \<noteq> None"
proof -
  obtain r where r: "rnd64 (5 / 10000) = Fin r" "0 \<le> r" "r \<le> 2 powi (-10)"
    using rnd64_bounds[of "5 / 10000" "-10"] by auto
  obtain q where q: "rnd64 (256 / 100000) = Fin q" "0 \<le> q" "q \<le> 2 powi (-8)"
    using rnd64_bounds[of "256 / 100000" "-8"] by auto
  have q': "2 powi (-9) \<le> q" by (rule rnd64_lower[OF _ _ _ q(1)]) simp_all
  obtain p where p: "rnd64 (120 * r) = Fin p" "0 \<le> p" "p \<le> 2 powi (-3)"
    using rnd64_bounds[of "120 * r" "-3"] r by auto
  have "p / q \<le> 2 powi (-3) / 2 powi (-9)" using p q' by (intro frac_le) simp_all
  then obtain z where z: "rnd64 (p / q) = Fin z" "0 \<le> z" "z \<le> 2 powi 6"
    using rnd64_bounds[of "p / q" 6] p q by auto
  have "0 \<le> \<lceil>z\<rceil>" "\<lceil>z\<rceil> \<le> 64" using z by (simp_all add: ceiling_le_iff)
  with r p q q' z show ?thesis by (simp add: overcurrent_value_def)
qed

lemma set_voltage_defined:
  assumes "v \<noteq> NaN"
  shows "set_voltage v s \<noteq> None"
  using dac_value_defined[OF assms] by (auto simp: set_voltage_def Let_def)

subsection \<open>The configuration after the start\<close>

lemma config_board [simp]:
  "config (emit e c) = config c" "config (palWritePad p b c) = config c"
  "config (palSetPad p c) = config c" "config (palClearPad p c) = config c"
  "config (palSetPadMode p m c) = config c" "config (i2cSend a tx c) = config c"
  "config (snd (palReadPad p c)) = config c" "config (snd (adcConvert l c)) = config c"
  "config (snd (chVTGetSystemTime c)) = config c"
  by (simp_all add: palSetPad_def palClearPad_def palWritePad_def palSetPadMode_def emit_def
      i2cSend_def i2cMasterTransmit_def palReadPad_def adcConvert_def chVTGetSystemTime_def)

lemma start_config:
  "config (analog_init a) = config a" "config (power_init p) = config p"
  "config (ltc6803_init l) = config l"
  "set_voltage v c = Some c' \<Longrightarrow> config c' = config c"
  "charger_init c = Some c' \<Longrightarrow> config c' = config c"
proof -
  show sv: "set_voltage v c = Some c' \<Longrightarrow> config c' = config c" for v c c'
    by (auto simp: set_voltage_def Let_def split: option.splits)
  show "charger_init c = Some c' \<Longrightarrow> config c' = config c"
    by (auto simp: charger_init_def Let_def split_beta split: option.splits dest!: sv)
qed (simp_all add: analog_init_def power_init_def power_detect_event_def ltc6803_init_def Let_def split_beta)

lemma power_up_emit:
  "power_up p (emit e s) = emit e (power_up p s)"
  "power_up p (palSetPadMode x m s) = palSetPadMode x m (power_up p s)"
  "power_up p (palSetPad x s) = palSetPad x (power_up p s)"
  "power_up p (palClearPad x s) = palClearPad x (power_up p s)"
  by (simp_all add: power_up_def emit_def palSetPad_def palClearPad_def palWritePad_def palSetPadMode_def)

lemma power_up_gpio: "power_up p (gpio_init s) = gpio_init (power_up p s)"
  by (simp add: gpio_init_def Let_def power_up_emit)

lemma gpio_keeps: "cells (gpio_init s) = cells s" "config (gpio_init c) = config c"
  by (simp_all add: gpio_init_def Let_def palSetPadMode_def palSetPad_def palClearPad_def
      palWritePad_def emit_def)

text \<open>The gamma curve: what \<open>powf\<close> has to give for its values to fit into a byte.\<close>

lemma gamma_entries_some:
  assumes "\<And>i. i < 256 \<Longrightarrow> gamma_entry pow i \<noteq> None"
  shows "gamma_entries pow \<noteq> None"
proof -
  have "fold_opt (\<lambda>i g. map_option (\<lambda>v. g @ [v]) (gamma_entry pow i)) is g \<noteq> None"
    if "set is \<subseteq> {0..<256}" for "is" g
    using that by (induction "is" arbitrary: g) (auto simp: assms dest: assms)
  then show ?thesis by (simp add: gamma_entries_def)
qed

lemma start_defined:
  assumes cells: "cells s PAGE0_BASE_ADDRESS = ERASED" "cells s PAGE1_BASE_ADDRESS = ERASED"
    and len: "length (config s) = sizeof_Config"
    and plan: "list_all calm_outcome p" "Supply_Fails \<notin> set p"
    and pow: "\<forall>i<256. gamma_entry (powf senv) i \<noteq> None"
  shows "main_init senv (power_up p s) \<noteq> None"
proof -
  let ?t = "emit (Sleep_Ms 1) (gpio_init (emit Kernel_Init (emit Hal_Init s)))"
  have up: "emit (Sleep_Ms 1) (gpio_init (emit Kernel_Init (emit Hal_Init (power_up p s)))) = power_up p ?t"
    by (simp add: power_up_emit power_up_gpio)
  have t: "cells ?t = cells s" "config ?t = config s" by (simp_all add: gpio_keeps emit_def)
  obtain m where m: "length m = sizeof_Config" "config (config_init (power_up p ?t)) =
      fold (\<lambda>(a, bs). put_bytes a bs) default_writes m"
    using init_erased[of ?t p] cells len plan unfolding t by blast
  let ?s2 = "ltc6803_init (emit (I2C_Start i2cconfig) (power_init (analog_init (config_init (power_up p ?t)))))"
  have c: "config ?s2 = fold (\<lambda>(a, bs). put_bytes a bs) default_writes m"
    by (simp add: start_config m)
  have "chargeVoltage (palSetPad CHG_SW ?s2) \<noteq> NaN"
    unfolding chargeVoltage_def config_board(3) c by (rule default_floats[OF m(1)])
  then have "charger_init ?s2 \<noteq> None"
    using set_voltage_defined[of "chargeVoltage (palSetPad CHG_SW ?s2)" "palSetPad CHG_SW ?s2"]
    by (auto simp: charger_init_def split_beta Let_def)
  then obtain s3 where s3: "charger_init ?s2 = Some s3" by blast
  have "current_monitor_init s3 \<noteq> None"
    using overcurrent_120
    by (auto simp: current_monitor_init_def Let_def current_monitor_set_overcurrent_def
        maxCurrentCutoff_def start_config(5)[OF s3] c default_floats m)
  then obtain s4 where s4: "current_monitor_init s3 = Some s4" by blast
  have "ws2812b_init senv x \<noteq> None" for x :: "'a strip_scheme"
    using gamma_entries_some[of "powf senv"] pow by (simp add: ws2812b_init_def Let_def)
  then have "accessory_init senv (rtcc_init (soc_init s4)) \<noteq> None" by (simp add: accessory_init_def)
  then show ?thesis using s3 s4 by (auto simp: main_init_def Let_def up)
qed

lemma stays_stopped: "reaches sys (Stopped, s) (q, t) \<Longrightarrow> q = Stopped"
  by (induction "(Stopped, s)" "(q, t)" arbitrary: q t rule: reaches.induct)
    (auto simp: stopped_step)

subsection \<open>What the system promises\<close>


definition erased_start :: "'a strip_scheme \<Rightarrow> 'a strip_scheme" where
  "erased_start s = s\<lparr>cells := (\<lambda>_. ERASED), config := replicate sizeof_Config 0, shutdown := False\<rparr>"

definition flat_gamma :: "strip_env \<Rightarrow> strip_env" where
  "flat_gamma env = env\<lparr>powf := (\<lambda>_ _. Fin 1)\<rparr>"

lemma flat_gamma_fits: "gamma_entry (powf (flat_gamma env)) i \<noteq> None"
  by (simp add: gamma_entry_def flat_gamma_def num_exact Let_def to_int32_def)




text \<open>
  C40: Once the main loop has ended, nothing that still happens (interrupts, received bytes
  and frames, the threads) starts it or switches the pack on again.
\<close>

theorem stopped_stays_off:
  assumes "shutdown s" and "\<not> pads s DSG_SW" and "\<not> pads s PWR_SW"
    and "reaches sys (Stopped, s) (q, t)"
  shows "q = Stopped \<and> shutdown t \<and> \<not> pads t DSG_SW \<and> \<not> pads t PWR_SW"
proof -
  have "sound (Stopped, s)" using assms(1-3) by (simp add: safe_def)
  then have "sound (q, t)" by (rule reaches_sound[OF assms(4)])
  moreover have "q = Stopped" by (rule stays_stopped[OF assms(4)])
  ultimately show ?thesis by (auto simp: safe_def)
qed

lemma stopped_stays_off_witness:
  "\<forall>sys m s. let off = s\<lparr>shutdown := True, pads := (\<lambda>_. False)\<rparr>;
     t = can_process_frame (sys_ids sys) (sys_parse sys) m (curr_alert off)
   in reaches sys (Stopped, off) (Stopped, t) \<and> \<not> pads t DSG_SW \<and> \<not> pads t PWR_SW"
proof (intro allI)
  fix sys m and s :: "'a strip_scheme"
  let ?off = "s\<lparr>shutdown := True, pads := (\<lambda>_. False)\<rparr>"
  have "reaches sys (Stopped, ?off)
      (Stopped, can_process_frame (sys_ids sys) (sys_parse sys) m (curr_alert ?off))"
    by (rule reaches.there[OF reaches.there[OF reaches.here step.alert] step.frame])
  from this stopped_stays_off[OF _ _ _ this]
  show "let off = ?off; t = can_process_frame (sys_ids sys) (sys_parse sys) m (curr_alert off)
    in reaches sys (Stopped, off) (Stopped, t) \<and> \<not> pads t DSG_SW \<and> \<not> pads t PWR_SW"
    by (simp add: Let_def)
qed

end
