(* ===== verification/Interrupts.thy ===== *)
theory Interrupts
  imports System_Props
begin

text \<open>
  The over-current interrupt in the middle of an update of the power control (power.c,
  current_monitor.c): \<open>power_update\<close> tests that discharging is enabled and only later sets
  the pads, so that an interrupt between the two is overruled until the next update.
\<close>

text \<open>
  The two halves of \<open>power_update\<close> with a handler that runs after the test of the first
  condition, before the pads are set. With a handler that does nothing it is the update.
\<close>

definition switches_interrupted ::
    "('a pwr_scheme \<Rightarrow> 'a pwr_scheme) \<Rightarrow> 'a pwr_scheme \<Rightarrow> bool \<times> 'a pwr_scheme" where
  "switches_interrupted handler s =
     (if discharge_enabled s \<and> faults_get_faults s = fault_code FAULT_NONE then
        let s1 = (if \<not> precharged s then
                    let (t, s') = chVTGetSystemTime s
                    in s'\<lparr>prechargeStartTime := t, precharged := True\<rparr>
                  else s)
        in power_precharge (handler s1)
      else (False, (palClearPad PCHG_SW (palClearPad DSG_SW (handler s)))\<lparr>precharged := False\<rparr>))"

definition update_interrupted ::
    "('a pwr_scheme \<Rightarrow> 'a pwr_scheme) \<Rightarrow> 'a pwr_scheme \<Rightarrow> 'a pwr_scheme" where
  "update_interrupted handler s =
     (let s1 = (if \<not> shutdown s \<and> power_on_event s \<noteq> EVENT_USB then palSetPad PWR_SW s else s);
          (short, s2) = switches_interrupted handler s1
      in if short then s2 else power_shutdown s2)"

lemma not_interrupted: "update_interrupted (\<lambda>s. s) s = power_update s"
  by (simp add: update_interrupted_def power_update_def switches_interrupted_def power_switches_def)

lemma shutdown_pads:
  "pads (power_shutdown s) DSG_SW \<longleftrightarrow> pads s DSG_SW \<and> \<not> shutdown (power_shutdown s)"
  by (auto simp: power_shutdown_def Let_def split_beta board_simps shutdown_requested_keeps
      split: if_splits)

lemma alert_keeps:
  "config (curr_alert s) = config s" "bus_voltage (curr_alert s) = bus_voltage s"
  "analog_discharge_voltage (curr_alert s) = analog_discharge_voltage s"
  "precharged (curr_alert s) = precharged s"
  by (simp_all add: curr_alert_def power_disable_discharge_def board_simps analog_discharge_voltage_def)

text \<open>A pack whose output has reached its voltage closes the switch, enabled or not.\<close>

lemma precharged_closes:
  assumes "fp_le (Fin (1 / 2)) (analog_discharge_voltage s)"
    and "fp_le (fp_sub rnd64 (bus_voltage s) (Fin 5)) (analog_discharge_voltage s)"
  shows "\<not> fst (power_precharge s)" and "pads (snd (power_precharge s)) DSG_SW"
proof -
  have v: "analog_discharge_voltage (s\<lparr>ios := n\<rparr>) = analog_discharge_voltage s" for n
    by (simp add: analog_discharge_voltage_def)
  have "\<not> fp_less (analog_discharge_voltage s) (Fin (1 / 2))"
    using assms(1) by (cases "analog_discharge_voltage s") auto
  then show "\<not> fst (power_precharge s)" and "pads (snd (power_precharge s)) DSG_SW"
    using assms(2) by (simp_all add: power_precharge_def precharge_done_def split_beta board_simps v)
qed

text \<open>
  C16: An over-current alert that arrives within an update, after its test that discharging
  is enabled, does not keep the discharge switch of a precharged pack off: the update closes
  it although the alert has disabled discharging and raised the fault, unless it shuts the
  pack down, and only the next update opens it.
\<close>

theorem alert_overruled:
  assumes "discharge_enabled s" and "faults s = 0" and "precharged s"
    and "fp_le (Fin (1 / 2)) (analog_discharge_voltage s)"
    and "fp_le (fp_sub rnd64 (bus_voltage s) (Fin 5)) (analog_discharge_voltage s)"
    and "t = update_interrupted curr_alert s"
  shows "\<not> discharge_enabled t \<and> faults_check_fault FAULT_OVERCURRENT t \<and>
    (pads t DSG_SW \<longleftrightarrow> \<not> shutdown t) \<and> \<not> pads (power_update t) DSG_SW"
proof -
  let ?s1 = "if \<not> shutdown s \<and> power_on_event s \<noteq> EVENT_USB then palSetPad PWR_SW s else s"
  let ?p = "power_precharge (curr_alert ?s1)"
  have s1: "discharge_enabled ?s1" "faults ?s1 = 0" "precharged ?s1" "bus_voltage ?s1 = bus_voltage s"
    "analog_discharge_voltage ?s1 = analog_discharge_voltage s"
    using assms(1-3) by (simp_all add: board_simps analog_discharge_voltage_def)
  have p: "\<not> fst ?p" "pads (snd ?p) DSG_SW"
    using precharged_closes[of "curr_alert ?s1"] assms(4,5) unfolding alert_keeps s1 by simp_all
  have t: "t = power_shutdown (snd ?p)"
    using p(1) s1(1-3) unfolding assms(6) update_interrupted_def switches_interrupted_def
    by (simp add: faults_get_faults_def split_beta)
  have "faults t = faults (curr_alert ?s1)" unfolding t using shutdown_faults precharge_faults[OF p(1)] by (rule trans)
  then have "faults_check_fault FAULT_OVERCURRENT t"
    using curr_alert_off(3)[of ?s1] by (simp add: faults_check_fault_def)
  moreover have "\<not> discharge_enabled t"
    unfolding t by (simp add: power_shutdown_result power_precharge_result curr_alert_off)
  ultimately show ?thesis using p(2) power_update_off t shutdown_pads by blast
qed


text \<open>A full-scale sample is a voltage of at least 8 V.\<close>

lemma full_scale_voltage:
  assumes "discharge_raw s = 4095"
  shows "\<exists>v. analog_discharge_voltage s = Fin v \<and> 8 \<le> v"
proof -
  obtain c where c: "rnd64 (33 / 10) = Fin c" "0 \<le> c" "c \<le> 2 powi 2"
    using rnd64_bounds[of "33 / 10" 2] by auto
  have c': "2 powi 1 \<le> c" by (rule rnd64_lower[OF _ _ _ c(1)]) simp_all
  obtain d where d: "rnd64 (c / 4095) = Fin d" "0 \<le> d" "d \<le> 2 powi 0"
    using rnd64_bounds[of "c / 4095" 0] c by auto
  have d': "2 powi (-11) \<le> d" by (rule rnd64_lower[OF _ _ _ d(1)]) (use c' in simp_all)
  obtain e where e: "rnd64 (4095 * d) = Fin e" "0 \<le> e" "e \<le> 2 powi 12"
    using rnd64_bounds[of "4095 * d" 12] d by auto
  have e': "2 powi 0 \<le> e" by (rule rnd64_lower[OF _ _ _ e(1)]) (use d' in simp_all)
  obtain f where f: "rnd64 (e * 212600) = Fin f" "0 \<le> f" "f \<le> 2 powi 30"
    using rnd64_bounds[of "e * 212600" 30] e by auto
  have f': "2 powi 17 \<le> f" by (rule rnd64_lower[OF _ _ _ f(1)]) (use e' in simp_all)
  obtain g where g: "rnd64 (f / 10000) = Fin g" "0 \<le> g" "g \<le> 2 powi 17"
    using rnd64_bounds[of "f / 10000" 17] f by auto
  have g': "2 powi 3 \<le> g" by (rule rnd64_lower[OF _ _ _ g(1)]) (use f' in simp_all)
  obtain h where h: "rnd32 g = Fin h" using rnd32_bounds[of g 17] g by auto
  have "2 powi 3 \<le> h" by (rule rnd32_lower[OF _ _ _ h]) (use g' in simp_all)
  with assms c d e f g h show ?thesis
    by (simp add: analog_discharge_voltage_def int_f32_def num_exact)
qed

lemma button_up_stays:
  assumes "\<not> shutdown s" and "power_on_event s = EVENT_SWITCH" and "\<And>n p. pad_in s n p"
  shows "\<not> shutdown (power_shutdown s)"
  using assms by (simp add: power_shutdown_def shutdown_requested_def Let_def split_beta board_simps)

lemma alert_overruled_witness:
  "\<forall>s. pads (update_interrupted curr_alert ((running s)\<lparr>discharge_raw := 4095\<rparr>)) DSG_SW"
proof
  fix s
  let ?s = "(running s)\<lparr>discharge_raw := 4095\<rparr>"
  obtain v where v: "analog_discharge_voltage ?s = Fin v" "8 \<le> v"
    using full_scale_voltage[of ?s] by auto
  have p: "pad_in (snd (power_precharge (curr_alert t))) = pad_in t" for t :: pwr
    by (simp add: power_precharge_def precharge_done_def curr_alert_def power_disable_discharge_def
        Let_def split_beta board_simps)
  have k: "shutdown (curr_alert t) = shutdown t" "power_on_event (curr_alert t) = power_on_event t" for t :: pwr
    by (simp_all add: curr_alert_def power_disable_discharge_def board_simps)
  have "\<not> shutdown (power_shutdown (snd (power_precharge (curr_alert (palSetPad PWR_SW ?s)))))"
    by (rule button_up_stays) (simp_all add: power_precharge_result k p, simp_all add: running_def board_simps)
  then have up: "\<not> shutdown (update_interrupted curr_alert ?s)" if "\<not> fst (power_precharge (curr_alert (palSetPad PWR_SW ?s)))"
    using that by (simp add: update_interrupted_def switches_interrupted_def running_def split_beta
        faults_get_faults_def board_simps)
  have le: "fp_le (fp_sub rnd64 (bus_voltage ?s) (Fin 5)) (analog_discharge_voltage ?s)"
    unfolding v(1) by (simp add: running_def fp_sub_def)
  have a: "analog_discharge_voltage (palSetPad PWR_SW ?s) = analog_discharge_voltage ?s"
    "bus_voltage (palSetPad PWR_SW ?s) = bus_voltage ?s"
    by (simp_all add: analog_discharge_voltage_def board_simps)
  have "\<not> fst (power_precharge (curr_alert (palSetPad PWR_SW ?s)))"
    by (rule precharged_closes(1)) (use v le in \<open>simp_all add: alert_keeps a\<close>)
  with up alert_overruled[of ?s, OF _ _ _ _ le refl] v
  show "pads (update_interrupted curr_alert ?s) DSG_SW" by (simp add: running_def)
qed

end
