(* ===== verification/Spi_Sw.thy ===== *)
theory Spi_Sw
  imports Ltc6803
begin

text \<open>
  The SPI transfer in software (\<open>spi_sw_transfer\<close> of ltc6803.c), which the firmware uses on
  hardware version 4.0. A buffer that the caller does not pass (NULL) is None.
\<close>

definition spi_sw_bit :: "u8 \<times> u8 \<times> 'a board_scheme \<Rightarrow> u8 \<times> u8 \<times> 'a board_scheme" where
  "spi_sw_bit = (\<lambda>(send, receive, s).
     let s1 = palWritePad MOSI (bit send 7) (palClearPad SCK s);
         send' = push_bit 1 send;
         s2 = emit (Sleep_Us 100) s1;
         receive1 = push_bit 1 receive;
         (miso, s3) = palReadPad MISO s2;
         receive2 = (if miso then receive1 OR 0x1 else receive1)
     in (send', receive2, emit (Sleep_Us 100) (palSetPad SCK s3)))"

definition spi_sw_byte :: "u8 \<Rightarrow> 'a board_scheme \<Rightarrow> u8 \<times> 'a board_scheme" where
  "spi_sw_byte send s = (let (_, receive, s') = (spi_sw_bit ^^ 8) (send, 0, s) in (receive, s'))"

primrec spi_sw_bytes :: "u8 list \<Rightarrow> 'a board_scheme \<Rightarrow> u8 list \<times> 'a board_scheme" where
  "spi_sw_bytes [] s = ([], s)"
| "spi_sw_bytes (b # bs) s =
     (let (r, s1) = spi_sw_byte b s; (rs, s2) = spi_sw_bytes bs s1 in (r # rs, s2))"

text \<open>The received bytes are stored only if there is a buffer for them.\<close>

definition spi_sw_transfer ::
    "u8 list option \<Rightarrow> u8 list option \<Rightarrow> nat \<Rightarrow> 'a board_scheme \<Rightarrow>
     (u8 list option \<times> 'a board_scheme) option" where
  "spi_sw_transfer in_buf out_buf n s =
     (if (case out_buf of None \<Rightarrow> False | Some out \<Rightarrow> length out < n) \<or>
         (case in_buf of None \<Rightarrow> False | Some inb \<Rightarrow> length inb < n)
      then None
      else
        let out = (case out_buf of None \<Rightarrow> replicate n 0 | Some out \<Rightarrow> take n out);
            (received, s') = spi_sw_bytes out (emit (Sleep_Us 100) (palSetPad SCK s))
        in Some (map_option (\<lambda>inb. received @ drop n inb) in_buf, s'))"

subsection \<open>What the other side of the bus sees\<close>

text \<open>The level of MOSI at every rising edge of the clock, from the levels of clock and data.\<close>

fun sampled :: "bool \<Rightarrow> bool \<Rightarrow> io_event list \<Rightarrow> bool list" where
  "sampled clk dat (Pad_Write p v # es) =
     (if p = SCK then (if v \<and> \<not> clk then dat # sampled True dat es else sampled v dat es)
      else if p = MOSI then sampled clk v es else sampled clk dat es)"
| "sampled clk dat (e # es) = sampled clk dat es"
| "sampled clk dat [] = []"

definition msb_first :: "u8 \<Rightarrow> bool list" where
  "msb_first b = map (\<lambda>k. bit b (7 - k)) [0..<8]"

text \<open>The events of one byte and the byte it receives.\<close>

definition bit_events :: "bool \<Rightarrow> io_event list" where
  "bit_events v = [Pad_Write SCK False, Pad_Write MOSI v, Sleep_Us 100, Pad_Write SCK True, Sleep_Us 100]"

definition miso_at :: "'a board_scheme \<Rightarrow> nat \<Rightarrow> bool" where
  "miso_at s i = pad_in s i MISO"

lemmas sw_defs = palWritePad_def palClearPad_def palSetPad_def palReadPad_def emit_def

lemma spi_sw_bit_effect:
  "\<exists>s'. spi_sw_bit (send, r, s) =
     (push_bit 1 send, if miso_at s (ios s + 3) then push_bit 1 r OR 1 else push_bit 1 r, s') \<and>
   ios s' = ios s + 6 \<and> events s' = events s @ bit_events (bit send 7) \<and> pad_in s' = pad_in s"
  by (simp add: spi_sw_bit_def Let_def split_beta sw_defs bit_events_def miso_at_def numeral_3_eq_3)

lemma bit_shift_in: "bit (if b then push_bit 1 r OR 1 else push_bit 1 r) j \<longleftrightarrow>
    (if j = 0 then b else j < 8 \<and> bit (r :: u8) (j - 1))"
proof -
  have "bit (push_bit 1 r) j \<longleftrightarrow> j \<noteq> 0 \<and> j < 8 \<and> bit r (j - 1)" unfolding bit_push_bit_iff by auto
  moreover have "bit (push_bit 1 r OR 1) j \<longleftrightarrow> j = 0 \<or> j < 8 \<and> bit r (j - 1)"
    unfolding bit_or_iff bit_push_bit_iff bit_1_iff by auto
  ultimately show ?thesis by (cases b) auto
qed

lemma spi_sw_bits:
  "\<exists>r s'. (spi_sw_bit ^^ n) (send, 0, s) = (push_bit n send, r, s') \<and> ios s' = ios s + 6 * n \<and>
     events s' = events s @ concat (map (\<lambda>k. bit_events (bit (push_bit k send) 7)) [0..<n]) \<and>
     pad_in s' = pad_in s \<and>
     (\<forall>j. bit r j \<longleftrightarrow> j < n \<and> j < 8 \<and> miso_at s (ios s + 6 * (n - 1 - j) + 3))"
proof (induction n)
  case (Suc n)
  then obtain r s' where q: "(spi_sw_bit ^^ n) (send, 0, s) = (push_bit n send, r, s')"
    and s': "ios s' = ios s + 6 * n" "pad_in s' = pad_in s"
      "events s' = events s @ concat (map (\<lambda>k. bit_events (bit (push_bit k send) 7)) [0..<n])"
    and r: "\<forall>j. bit r j \<longleftrightarrow> j < n \<and> j < 8 \<and> miso_at s (ios s + 6 * (n - 1 - j) + 3)" by blast
  let ?r = "if miso_at s' (ios s' + 3) then push_bit 1 r OR 1 else push_bit 1 r"
  obtain t where t: "spi_sw_bit (push_bit n send, r, s') = (push_bit 1 (push_bit n send), ?r, t)"
    "ios t = ios s' + 6" "events t = events s' @ bit_events (bit (push_bit n send) 7)"
    "pad_in t = pad_in s'" using spi_sw_bit_effect[of "push_bit n send" r s'] by blast
  have "(spi_sw_bit ^^ Suc n) (send, 0, s) = (push_bit (Suc n) send, ?r, t)"
    using q t(1) by (simp add: push_bit_push_bit)
  moreover have "bit ?r j \<longleftrightarrow> j < Suc n \<and> j < 8 \<and> miso_at s (ios s + 6 * (Suc n - 1 - j) + 3)" for j
    unfolding bit_shift_in using r[rule_format, of "j - 1"] s'(1,2)
    by (cases j) (simp_all add: miso_at_def conj_ac, linarith)
  ultimately show ?case using t(2-4) s' by (intro exI[of _ ?r] exI[of _ t] conjI) simp_all
qed simp

definition byte_events :: "u8 \<Rightarrow> io_event list" where
  "byte_events b = concat (map bit_events (msb_first b))"

text \<open>The byte received when the first of its 48 input or output operations is the \<open>i\<close>-th.\<close>

definition byte_at :: "'a board_scheme \<Rightarrow> nat \<Rightarrow> u8" where
  "byte_at s i = horner_sum of_bool 2 (map (\<lambda>j. miso_at s (i + 6 * (7 - j) + 3)) [0..<8])"

lemma bit_byte_at: "bit (byte_at s i) j \<longleftrightarrow> j < 8 \<and> miso_at s (i + 6 * (7 - j) + 3)"
  by (auto simp: byte_at_def bit_horner_sum_bit_iff nth_append)

lemma spi_sw_byte_effect:
  "\<exists>s'. spi_sw_byte b s = (byte_at s (ios s), s') \<and> ios s' = ios s + 48 \<and>
     events s' = events s @ byte_events b \<and> pad_in s' = pad_in s"
proof -
  obtain r s' where q: "(spi_sw_bit ^^ 8) (b, 0, s) = (push_bit 8 b, r, s')" "ios s' = ios s + 6 * 8"
    "events s' = events s @ concat (map (\<lambda>k. bit_events (bit (push_bit k b) 7)) [0..<8])"
    "pad_in s' = pad_in s"
    and r: "\<forall>j. bit r j \<longleftrightarrow> j < 8 \<and> j < 8 \<and> miso_at s (ios s + 6 * (8 - 1 - j) + 3)"
    using spi_sw_bits[of 8 b s] by blast
  have "r = byte_at s (ios s)" by (rule bit_word_eqI) (use r in \<open>simp add: bit_byte_at\<close>)
  moreover have "concat (map (\<lambda>k. bit_events (bit (push_bit k b) 7)) [0..<8]) = byte_events b"
    unfolding byte_events_def msb_first_def map_map o_def
    by (rule arg_cong[where f = concat], rule map_cong) (auto simp: bit_push_bit_iff)
  ultimately show ?thesis using q by (simp add: spi_sw_byte_def)
qed

lemma spi_sw_bytes_effect:
  "\<exists>s'. spi_sw_bytes bs s = (map (\<lambda>k. byte_at s (ios s + 48 * k)) [0..<length bs], s') \<and>
     events s' = events s @ concat (map byte_events bs)"
proof (induction bs arbitrary: s)
  case (Cons b bs)
  obtain t where t: "spi_sw_byte b s = (byte_at s (ios s), t)" "ios t = ios s + 48"
    "events t = events s @ byte_events b" "pad_in t = pad_in s" using spi_sw_byte_effect by blast
  obtain s' where s': "spi_sw_bytes bs t = (map (\<lambda>k. byte_at t (ios t + 48 * k)) [0..<length bs], s')"
    "events s' = events t @ concat (map byte_events bs)" using Cons.IH by blast
  have "byte_at t = byte_at s" by (simp add: byte_at_def miso_at_def t(4) fun_eq_iff)
  then have "map (\<lambda>k. byte_at t (ios t + 48 * k)) [0..<length bs] =
      map (\<lambda>k. byte_at s (ios s + 48 * k)) (map Suc [0..<length bs])" by (simp add: t(2) algebra_simps)
  with s' t show ?case by (simp add: upt_conv_Cons map_Suc_upt del: upt_Suc)
qed simp

lemma sampled_bit: "sampled True d (bit_events v @ es) = v # sampled True v es"
  by (simp add: bit_events_def pad_defs)

lemma sampled_bits: "\<exists>d'. sampled True d (concat (map bit_events vs) @ es) = vs @ sampled True d' es"
proof (induction vs arbitrary: d)
  case (Cons v vs)
  then show ?case using sampled_bit[of d v] by simp
qed (auto intro: exI[of _ d])

lemma sampled_bytes: "sampled True d (concat (map byte_events bs)) = concat (map msb_first bs)"
proof (induction bs arbitrary: d)
  case (Cons b bs)
  obtain d' where "sampled True d (byte_events b @ concat (map byte_events bs)) =
      msb_first b @ sampled True d' (concat (map byte_events bs))"
    unfolding byte_events_def using sampled_bits by blast
  with Cons.IH show ?case by simp
qed simp

text \<open>
  The transfer in software is a full-duplex exchange, most significant bit first: at
  the rising edges of the clock the data line carries the bits of the bytes to be sent, and
  the bits of the bytes received are the levels of the input before these edges.
\<close>

theorem spi_sw_exchange:
  assumes "length out \<ge> n" and "length inb \<ge> n"
  shows "\<exists>s'. spi_sw_transfer (Some inb) (Some out) n s =
      Some (Some (map (\<lambda>k. byte_at s (ios s + 2 + 48 * k)) [0..<n] @ drop n inb), s') \<and>
    sampled True d (drop (length (events s) + 2) (events s')) = concat (map msb_first (take n out))"
proof -
  let ?s = "emit (Sleep_Us 100) (palSetPad SCK s)"
  obtain s' where s': "spi_sw_bytes (take n out) ?s =
      (map (\<lambda>k. byte_at ?s (ios ?s + 48 * k)) [0..<length (take n out)], s')"
    "events s' = events ?s @ concat (map byte_events (take n out))" using spi_sw_bytes_effect by blast
  have "byte_at ?s = byte_at s" "ios ?s = ios s + 2" "length (events ?s) = length (events s) + 2"
    by (simp_all add: byte_at_def miso_at_def fun_eq_iff sw_defs)
  with s' assms show ?thesis
    by (intro exI[of _ s']) (simp add: spi_sw_transfer_def sampled_bytes)
qed

lemma spi_sw_exchange_witness:
  "\<forall>s :: board. \<exists>s'. spi_sw_transfer (Some [0]) (Some [0x80]) 1 (s\<lparr>pad_in := \<lambda>_ _. True\<rparr>) = Some (Some [0xFF], s')"
proof
  fix s :: board
  let ?s = "s\<lparr>pad_in := \<lambda>_ _. True\<rparr>"
  have "byte_at ?s i = 0xFF" for i
  proof (rule bit_word_eqI)
    fix n assume "n < LENGTH(8)"
    then show "bit (byte_at ?s i) n = bit (0xFF :: u8) n"
      using bit_mask_iff[of 8 n, where 'a = u8] by (simp add: bit_byte_at miso_at_def mask_eq_exp_minus_1)
  qed
  then show "\<exists>s'. spi_sw_transfer (Some [0]) (Some [0x80]) 1 ?s = Some (Some [0xFF], s')"
    using spi_sw_exchange[of 1 "[0x80]" "[0]" ?s] by auto
qed

end
