(* ===== verification/Ext_Driver.thy ===== *)
theory Ext_Driver
  imports Current_Monitor
begin

text \<open>
  The external interrupts: the table of current_monitor.c that attaches \<open>curr_alert\<close> to a
  line, and the driver that carries it out on the registers of the interrupt controller
  (ext.c and ext_lld.c of ChibiOS). An assertion of the driver that fails is None.
\<close>

definition EXT_CH_MODE_EDGES_MASK :: u32 where "EXT_CH_MODE_EDGES_MASK = 3"
definition EXT_CH_MODE_DISABLED :: u32 where "EXT_CH_MODE_DISABLED = 0"
definition EXT_CH_MODE_RISING_EDGE :: u32 where "EXT_CH_MODE_RISING_EDGE = 1"
definition EXT_CH_MODE_FALLING_EDGE :: u32 where "EXT_CH_MODE_FALLING_EDGE = 2"
definition EXT_CH_MODE_AUTOSTART :: u32 where "EXT_CH_MODE_AUTOSTART = 4"
definition EXT_MODE_GPIO_MASK :: u32 where "EXT_MODE_GPIO_MASK = 0xF0"
definition EXT_MODE_GPIO_OFF :: nat where "EXT_MODE_GPIO_OFF = 4"
definition EXT_MODE_GPIOB :: u32 where "EXT_MODE_GPIOB = 0x10"
definition EXT_MAX_CHANNELS :: nat where "EXT_MAX_CHANNELS = 34"
definition STM32_EXTI_IMR_MASK :: u32 where "STM32_EXTI_IMR_MASK = 0x1F800000"
definition STM32_EXTI_IMR2_MASK :: u32 where "STM32_EXTI_IMR2_MASK = 0xFFFFFFFC"

lemmas ext_consts =
  EXT_CH_MODE_EDGES_MASK_def EXT_CH_MODE_DISABLED_def EXT_CH_MODE_RISING_EDGE_def
  EXT_CH_MODE_FALLING_EDGE_def EXT_CH_MODE_AUTOSTART_def EXT_MODE_GPIO_MASK_def
  EXT_MODE_GPIO_OFF_def EXT_MODE_GPIOB_def STM32_EXTI_IMR_MASK_def STM32_EXTI_IMR2_MASK_def

text \<open>The mode of a channel, and the function it calls (\<open>None\<close> for NULL).\<close>

datatype ext_callback = Curr_Alert

type_synonym EXTChannelConfig = "u32 \<times> ext_callback option"

definition extcfg :: "EXTChannelConfig list" where
  "extcfg =
     replicate 12 (EXT_CH_MODE_DISABLED, None) @
     [(EXT_CH_MODE_FALLING_EDGE OR EXT_CH_MODE_AUTOSTART OR EXT_MODE_GPIOB, Some Curr_Alert)] @
     replicate 10 (EXT_CH_MODE_DISABLED, None) @
     replicate (EXT_MAX_CHANNELS - 23) (0, None)"

datatype extstate = EXT_STOP | EXT_ACTIVE

record exti =
  IMR :: u32
  EMR :: u32
  RTSR :: u32
  FTSR :: u32
  PR :: u32
  IMR2 :: u32
  EMR2 :: u32
  RTSR2 :: u32
  FTSR2 :: u32
  PR2 :: u32
  EXTICR :: "nat \<Rightarrow> u32"
  ext_state :: extstate
  ext_config :: "EXTChannelConfig list"
  exti_irq :: bool

definition set_bits :: "bool \<Rightarrow> u32 \<Rightarrow> u32 \<Rightarrow> u32" where
  "set_bits b m r = (if b then r OR m else r AND NOT m)"

definition cmask_of :: "nat \<Rightarrow> u32" where
  "cmask_of channel = push_bit (channel mod 32) 1"

definition select_port :: "u32 \<Rightarrow> nat \<Rightarrow> exti \<Rightarrow> exti" where
  "select_port mode channel e =
     (if channel < 16 then
        let n = channel div 4;
            m = NOT (push_bit ((channel mod 4) * 4) 0xF);
            port = push_bit ((channel mod 4) * 4) (drop_bit EXT_MODE_GPIO_OFF (mode AND EXT_MODE_GPIO_MASK))
        in e\<lparr>EXTICR := (EXTICR e)(n := (EXTICR e n AND m) OR port)\<rparr>
      else e)"

definition ext_lld_channel_enable :: "nat \<Rightarrow> exti \<Rightarrow> exti" where
  "ext_lld_channel_enable channel e =
     (let (mode, cb) = ext_config e ! channel; cmask = cmask_of channel;
          e1 = select_port mode channel e;
          rising = mode AND EXT_CH_MODE_RISING_EDGE \<noteq> 0;
          falling = mode AND EXT_CH_MODE_FALLING_EDGE \<noteq> 0
      in if channel < 32 then
           if cmask AND STM32_EXTI_IMR_MASK \<noteq> 0 then e1
           else e1\<lparr>RTSR := set_bits rising cmask (RTSR e1), FTSR := set_bits falling cmask (FTSR e1),
                   IMR := set_bits (cb \<noteq> None) cmask (IMR e1), EMR := set_bits (cb = None) cmask (EMR e1)\<rparr>
         else
           if cmask AND STM32_EXTI_IMR2_MASK \<noteq> 0 then e1
           else e1\<lparr>RTSR2 := set_bits rising cmask (RTSR2 e1), FTSR2 := set_bits falling cmask (FTSR2 e1),
                   IMR2 := set_bits (cb \<noteq> None) cmask (IMR2 e1), EMR2 := set_bits (cb = None) cmask (EMR2 e1)\<rparr>)"

text \<open>A pending bit is cleared by writing 1 to it.\<close>

definition ext_lld_channel_disable :: "nat \<Rightarrow> exti \<Rightarrow> exti" where
  "ext_lld_channel_disable channel e =
     (let cmask = cmask_of channel in
      if channel < 32 then
        e\<lparr>IMR := IMR e AND NOT cmask, EMR := EMR e AND NOT cmask, RTSR := RTSR e AND NOT cmask,
          FTSR := FTSR e AND NOT cmask, PR := PR e AND NOT cmask\<rparr>
      else
        e\<lparr>IMR2 := IMR2 e AND NOT cmask, EMR2 := EMR2 e AND NOT cmask, RTSR2 := RTSR2 e AND NOT cmask,
          FTSR2 := FTSR2 e AND NOT cmask, PR2 := PR2 e AND NOT cmask\<rparr>)"

definition start_line :: "nat \<Rightarrow> exti \<Rightarrow> exti" where
  "start_line line e =
     (if fst (ext_config e ! line) AND EXT_CH_MODE_AUTOSTART \<noteq> 0
      then ext_lld_channel_enable line e else ext_lld_channel_disable line e)"

definition ext_lld_start :: "exti \<Rightarrow> exti" where
  "ext_lld_start e =
     fold start_line [0..<EXT_MAX_CHANNELS] (if ext_state e = EXT_STOP then e\<lparr>exti_irq := True\<rparr> else e)"

definition ext_lld_stop :: "exti \<Rightarrow> exti" where
  "ext_lld_stop e =
     (if ext_state e = EXT_ACTIVE then e\<lparr>exti_irq := False\<rparr> else e)
       \<lparr>EMR := 0, IMR := STM32_EXTI_IMR_MASK, PR := PR e AND STM32_EXTI_IMR_MASK,
        IMR2 := STM32_EXTI_IMR2_MASK, PR2 := PR2 e AND STM32_EXTI_IMR2_MASK\<rparr>"

definition extObjectInit :: "exti \<Rightarrow> exti" where
  "extObjectInit e = e\<lparr>ext_state := EXT_STOP, ext_config := []\<rparr>"

definition extStart :: "EXTChannelConfig list \<Rightarrow> exti \<Rightarrow> exti" where
  "extStart cfg e = (ext_lld_start (e\<lparr>ext_config := cfg\<rparr>))\<lparr>ext_state := EXT_ACTIVE\<rparr>"

definition extStop :: "exti \<Rightarrow> exti" where
  "extStop e = (ext_lld_stop e)\<lparr>ext_state := EXT_STOP\<rparr>"

definition channel_ready :: "nat \<Rightarrow> exti \<Rightarrow> bool" where
  "channel_ready channel e \<longleftrightarrow>
     channel < EXT_MAX_CHANNELS \<and> ext_state e = EXT_ACTIVE \<and>
     fst (ext_config e ! channel) AND EXT_CH_MODE_EDGES_MASK \<noteq> EXT_CH_MODE_DISABLED"

definition extChannelEnable :: "nat \<Rightarrow> exti \<Rightarrow> exti option" where
  "extChannelEnable channel e =
     (if channel_ready channel e then Some (ext_lld_channel_enable channel e) else None)"

definition extChannelDisable :: "nat \<Rightarrow> exti \<Rightarrow> exti option" where
  "extChannelDisable channel e =
     (if channel_ready channel e then Some (ext_lld_channel_disable channel e) else None)"

subsection \<open>The alert line\<close>

text \<open>The interrupt of line \<open>l\<close> is enabled on a falling edge only.\<close>

definition falling_interrupt :: "exti \<Rightarrow> nat \<Rightarrow> bool" where
  "falling_interrupt e l \<longleftrightarrow> bit (IMR e) l \<and> bit (FTSR e) l \<and> \<not> bit (RTSR e) l"

lemma bit_cmask: "l < 32 \<Longrightarrow> c < 32 \<Longrightarrow> bit (cmask_of c) l \<longleftrightarrow> l = c"
  by (auto simp: cmask_of_def bit_exp_iff)

lemma bit_set_bits: "l < 32 \<Longrightarrow> c < 32 \<Longrightarrow>
    bit (set_bits b (cmask_of c) r) l \<longleftrightarrow> (if l = c then b else bit r l)"
  by (auto simp: set_bits_def bit_or_iff bit_and_iff bit_not_iff bit_cmask)

lemma select_port_regs:
  "IMR (select_port m c e) = IMR e" "FTSR (select_port m c e) = FTSR e" "RTSR (select_port m c e) = RTSR e"
  "ext_config (select_port m c e) = ext_config e" "ext_state (select_port m c e) = ext_state e"
  by (simp_all add: select_port_def Let_def)

lemma enable_12: "ext_config e = extcfg \<Longrightarrow> ext_lld_channel_enable 12 e =
    (let e1 = e\<lparr>EXTICR := (EXTICR e)(3 := (EXTICR e 3 AND NOT 0xF) OR 1)\<rparr> in
     e1\<lparr>RTSR := set_bits False (cmask_of 12) (RTSR e), FTSR := set_bits True (cmask_of 12) (FTSR e),
        IMR := set_bits True (cmask_of 12) (IMR e), EMR := set_bits False (cmask_of 12) (EMR e)\<rparr>)"
  by (simp add: ext_lld_channel_enable_def extcfg_def nth_append ext_consts select_port_def cmask_of_def)

lemma autostart_iff: "l < 34 \<Longrightarrow> fst (extcfg ! l) AND EXT_CH_MODE_AUTOSTART \<noteq> 0 \<longleftrightarrow> l = 12"
  by (auto simp: extcfg_def nth_append ext_consts EXT_MAX_CHANNELS_def nth_Cons')

lemma start_line_effect:
  assumes "ext_config e = extcfg" and "c < 34" and "l < 32"
  shows "ext_config (start_line c e) = extcfg"
    and "falling_interrupt (start_line c e) l \<longleftrightarrow> (if l = c then c = 12 else falling_interrupt e l)"
    and "bit (IMR (start_line c e)) l \<longleftrightarrow> (if l = c then c = 12 else bit (IMR e) l)"
    and "EXTICR (start_line c e) 3 AND 0xF = (if c = 12 then 1 else EXTICR e 3 AND 0xF)"
proof -
  have "ext_config (start_line c e) = extcfg \<and>
      (falling_interrupt (start_line c e) l \<longleftrightarrow> (if l = c then c = 12 else falling_interrupt e l)) \<and>
      (bit (IMR (start_line c e)) l \<longleftrightarrow> (if l = c then c = 12 else bit (IMR e) l)) \<and>
      EXTICR (start_line c e) 3 AND 0xF = (if c = 12 then 1 else EXTICR e 3 AND 0xF)"
  proof (cases "c = 12")
    case True
    have "(x AND NOT 0xF OR 1) AND 0xF = (1 :: u32)" for x
      by (simp add: and.assoc bit.conj_disj_distrib2)
    with True assms show ?thesis
      by (simp add: start_line_def autostart_iff enable_12 falling_interrupt_def bit_set_bits Let_def)
  next
    case False
    with assms show ?thesis
      by (cases "c < 32")
        (auto simp: start_line_def autostart_iff ext_lld_channel_disable_def Let_def falling_interrupt_def
          bit_and_iff bit_not_iff bit_cmask)
  qed
  then show "ext_config (start_line c e) = extcfg"
    and "falling_interrupt (start_line c e) l \<longleftrightarrow> (if l = c then c = 12 else falling_interrupt e l)"
    and "bit (IMR (start_line c e)) l \<longleftrightarrow> (if l = c then c = 12 else bit (IMR e) l)"
    and "EXTICR (start_line c e) 3 AND 0xF = (if c = 12 then 1 else EXTICR e 3 AND 0xF)" by blast+
qed

lemma start_lines_effect:
  assumes "ext_config e = extcfg" and "\<forall>c \<in> set cs. c < 34" and "l < 32"
  shows "ext_config (fold start_line cs e) = extcfg \<and>
    (falling_interrupt (fold start_line cs e) l \<longleftrightarrow> (if l \<in> set cs then l = 12 else falling_interrupt e l)) \<and>
    (bit (IMR (fold start_line cs e)) l \<longleftrightarrow> (if l \<in> set cs then l = 12 else bit (IMR e) l)) \<and>
    EXTICR (fold start_line cs e) 3 AND 0xF = (if 12 \<in> set cs then 1 else EXTICR e 3 AND 0xF)"
  using assms(1,2)
proof (induction cs arbitrary: e)
  case (Cons c cs)
  then show ?case using start_line_effect[OF Cons.prems(1) _ assms(3), of c] by auto
qed simp

lemma bit_1F800000_12: "cmask_of 12 AND STM32_EXTI_IMR_MASK = 0"
  by (simp add: cmask_of_def STM32_EXTI_IMR_MASK_def)

text \<open>
  After the current monitor has started the driver, whatever the registers held
  before, the interrupt of one line is enabled and no other: the line of the alert pin, on
  its port, on the falling edge, with the handler attached.
\<close>

theorem alert_line:
  "\<exists>e'. extChannelEnable (snd CURR_ALERT) (extStart extcfg e) = Some e' \<and>
    {l. bit (IMR e') l} = {snd CURR_ALERT} \<and> falling_interrupt e' (snd CURR_ALERT) \<and>
    EXTICR e' 3 AND 0xF = 1 \<and> fst CURR_ALERT = GPIOB \<and>
    snd (ext_config e' ! snd CURR_ALERT) = Some Curr_Alert"
proof -
  let ?s = "extStart extcfg e"
  obtain b where b: "ext_config b = extcfg" and s: "?s = (fold start_line [0..<34] b)\<lparr>ext_state := EXT_ACTIVE\<rparr>"
    by (rule that[of "if ext_state e = EXT_STOP then e\<lparr>ext_config := extcfg, exti_irq := True\<rparr>
          else e\<lparr>ext_config := extcfg\<rparr>"])
      (simp_all add: extStart_def ext_lld_start_def EXT_MAX_CHANNELS_def cong: if_cong)
  have E: "ext_config (fold start_line [0..<34] b) = extcfg \<and>
      (falling_interrupt (fold start_line [0..<34] b) l \<longleftrightarrow> l = 12) \<and>
      (bit (IMR (fold start_line [0..<34] b)) l \<longleftrightarrow> l = 12)" if "l < 32" for l
    using start_lines_effect[OF b, of "[0..<34]" l] that by auto
  have cfg: "ext_config ?s = extcfg" using E[of 0] by (simp add: s)
  have bits: "bit (IMR ?s) l \<longleftrightarrow> l = 12" "falling_interrupt ?s l \<longleftrightarrow> l = 12" if "l < 32" for l
    using E[OF that] by (auto simp: s falling_interrupt_def)
  have "channel_ready 12 ?s"
    unfolding channel_ready_def cfg
    by (simp add: s) (simp add: extcfg_def nth_append ext_consts EXT_MAX_CHANNELS_def)
  then have r: "extChannelEnable 12 ?s = Some (ext_lld_channel_enable 12 ?s)"
    by (simp add: extChannelEnable_def)
  have port: "(x AND NOT 0xF OR 1) AND 0xF = (1 :: u32)" for x
    by (simp add: and.assoc bit.conj_disj_distrib2)
  have "bit (IMR (ext_lld_channel_enable 12 ?s)) l \<longleftrightarrow> l = 12" for l
  proof (cases "l < 32")
    case True
    with bits(1)[OF True] show ?thesis by (simp add: enable_12[OF cfg] Let_def bit_set_bits)
  qed (auto dest: bit_imp_le_length)
  then have "{l. bit (IMR (ext_lld_channel_enable 12 ?s)) l} = {12}" by simp
  moreover have "EXTICR (ext_lld_channel_enable 12 ?s) 3 AND 0xF = 1"
  proof -
    have "EXTICR (ext_lld_channel_enable 12 ?s) 3 = EXTICR ?s 3 AND NOT 0xF OR 1"
      by (simp add: enable_12[OF cfg])
    then show ?thesis by (simp only: port)
  qed
  moreover have "falling_interrupt (ext_lld_channel_enable 12 ?s) 12"
    "ext_config (ext_lld_channel_enable 12 ?s) = extcfg"
    by (simp_all add: enable_12[OF cfg] falling_interrupt_def bit_set_bits cfg)
  moreover have "snd (extcfg ! 12) = Some Curr_Alert" by (simp add: extcfg_def nth_append)
  ultimately show ?thesis by (simp add: CURR_ALERT_def r)
qed

end
