(* ===== verification/Io_Buffers.thy ===== *)
theory Io_Buffers
  imports Config
begin

text \<open>
  The queues of buffers of the serial driver (hal_buffers.c, hal_buffers.h). A queue is a
  ring of buffers in one piece of memory, each with its used size in its first four bytes;
  pointers are offsets from its start. One side exchanges whole buffers with the hardware,
  the other reads or writes bytes through a current buffer.

  A thread that waits for the queue does so with a script of what happens meanwhile: for
  each time it is woken, the effect of the interrupts until then and the message it gets.
  A thread whose script ends waits for ever, which is None. Assertions of the code are
  checks of a debug build and leave no trace in the model.
\<close>

subsection \<open>The queue\<close>

record bq =
  bcounter :: u32
  bwrptr :: nat
  brdptr :: nat
  btop :: nat
  bsize :: nat
  bn :: nat
  buf_ptr :: "nat option"
  buf_top :: nat
  buffers :: "u8 list"

record 'q world =
  wakes :: "(('q \<Rightarrow> 'q) \<times> int) list"
  clock_at :: "nat \<Rightarrow> u32"
  clock_reads :: nat

definition sizeof_size_t :: nat where "sizeof_size_t = 4"

definition MSG_OK :: int where "MSG_OK = 0"
definition MSG_TIMEOUT :: int where "MSG_TIMEOUT = -1"
definition MSG_RESET :: int where "MSG_RESET = -2"
definition TIME_IMMEDIATE :: u32 where "TIME_IMMEDIATE = 0"
definition TIME_INFINITE :: u32 where "TIME_INFINITE = 0xFFFFFFFF"

definition bqSizeX :: "'a bq_scheme \<Rightarrow> nat" where "bqSizeX q = bn q"
definition bqSpaceI :: "'a bq_scheme \<Rightarrow> u32" where "bqSpaceI q = bcounter q"

text \<open>A pointer moved to the next buffer.\<close>

definition next_buffer :: "'a bq_scheme \<Rightarrow> nat \<Rightarrow> nat" where
  "next_buffer q p = (if btop q \<le> p + bsize q then 0 else p + bsize q)"

text \<open>The size field of a buffer.\<close>

definition read_size :: "nat \<Rightarrow> 'a bq_scheme \<Rightarrow> u32 option" where
  "read_size p q = (if length (buffers q) < p + sizeof_size_t then None else Some (get_u32 p (buffers q)))"

definition store_size :: "nat \<Rightarrow> u32 \<Rightarrow> 'a bq_scheme \<Rightarrow> 'a bq_scheme option" where
  "store_size p n q =
     (if length (buffers q) < p + sizeof_size_t then None
      else Some (q\<lparr>buffers := put_bytes p (u32_bytes n) (buffers q)\<rparr>))"

text \<open>The system time, and the wait in the queue of threads.\<close>

definition osalOsGetSystemTimeX :: "'q world \<Rightarrow> u32 \<times> 'q world" where
  "osalOsGetSystemTimeX w = (clock_at w (clock_reads w), w\<lparr>clock_reads := Suc (clock_reads w)\<rparr>)"

definition enqueue_wait ::
    "u32 \<Rightarrow> 'q world \<Rightarrow> 'q \<Rightarrow> (int \<times> 'q world \<times> 'q) option" where
  "enqueue_wait timeout w q =
     (if timeout = TIME_IMMEDIATE then Some (MSG_TIMEOUT, w, q)
      else case wakes w of [] \<Rightarrow> None
        | (isr, msg) # ws \<Rightarrow> Some (msg, w\<lparr>wakes := ws\<rparr>, isr q))"

text \<open>
  The wait for a condition: the loop of both directions. The last component says that the
  condition was met.
\<close>

definition wait_body ::
    "u32 \<Rightarrow> int \<times> 'q world \<times> 'q \<Rightarrow> (int \<times> 'q world \<times> 'q) option" where
  "wait_body timeout = (\<lambda>(_, w, q). enqueue_wait timeout w q)"

definition wait_while ::
    "('q \<Rightarrow> bool) \<Rightarrow> u32 \<Rightarrow> 'q world \<Rightarrow> 'q \<Rightarrow> (int \<times> 'q world \<times> 'q) option" where
  "wait_while c timeout w q =
     loop_while (\<lambda>(msg, _, q). MSG_OK \<le> msg \<and> c q) (wait_body timeout) (MSG_OK, w, q)"

subsection \<open>Input queues\<close>

definition ibqIsEmptyI :: "'a bq_scheme \<Rightarrow> bool" where
  "ibqIsEmptyI q \<longleftrightarrow> bqSpaceI q = 0"

definition ibqIsFullI :: "'a bq_scheme \<Rightarrow> bool" where
  "ibqIsFullI q \<longleftrightarrow> bwrptr q = brdptr q \<and> bcounter q \<noteq> 0"

definition ibqObjectInit :: "nat \<Rightarrow> nat \<Rightarrow> 'a bq_scheme \<Rightarrow> 'a bq_scheme" where
  "ibqObjectInit sz n q =
     q\<lparr>bcounter := 0, brdptr := 0, bwrptr := 0, btop := (sz + sizeof_size_t) * n,
       bsize := sz + sizeof_size_t, bn := n, buf_ptr := None, buf_top := 0\<rparr>"

definition ibqResetI :: "'a bq_scheme \<Rightarrow> 'a bq_scheme" where
  "ibqResetI q = q\<lparr>bcounter := 0, brdptr := 0, bwrptr := 0, buf_ptr := None, buf_top := 0\<rparr>"

definition ibqGetEmptyBufferI :: "'a bq_scheme \<Rightarrow> nat option" where
  "ibqGetEmptyBufferI q = (if ibqIsFullI q then None else Some (bwrptr q + sizeof_size_t))"

definition ibqPostFullBufferI :: "u32 \<Rightarrow> 'a bq_scheme \<Rightarrow> 'a bq_scheme option" where
  "ibqPostFullBufferI n q =
     map_option (\<lambda>q1. q1\<lparr>bcounter := bcounter q1 + 1, bwrptr := next_buffer q1 (bwrptr q1)\<rparr>)
       (store_size (bwrptr q) n q)"

definition ibq_acquire :: "'a bq_scheme \<Rightarrow> 'a bq_scheme option" where
  "ibq_acquire q =
     map_option (\<lambda>n. q\<lparr>buf_ptr := Some (brdptr q + sizeof_size_t),
         buf_top := brdptr q + sizeof_size_t + unat n\<rparr>)
       (read_size (brdptr q) q)"

definition ibqGetFullBufferTimeoutS ::
    "u32 \<Rightarrow> 'a bq_scheme world \<Rightarrow> 'a bq_scheme \<Rightarrow> (int \<times> 'a bq_scheme world \<times> 'a bq_scheme) option" where
  "ibqGetFullBufferTimeoutS timeout w q =
     Option.bind (wait_while ibqIsEmptyI timeout w q) (\<lambda>(msg, w1, q1).
       if msg < MSG_OK then Some (msg, w1, q1)
       else map_option (\<lambda>q2. (MSG_OK, w1, q2)) (ibq_acquire q1))"

definition ibqReleaseEmptyBufferS ::
    "('a bq_scheme \<Rightarrow> 'a bq_scheme) \<Rightarrow> 'a bq_scheme \<Rightarrow> 'a bq_scheme" where
  "ibqReleaseEmptyBufferS notify q =
     notify (q\<lparr>bcounter := bcounter q - 1, brdptr := next_buffer q (brdptr q), buf_ptr := None\<rparr>)"

definition ibq_take ::
    "('a bq_scheme \<Rightarrow> 'a bq_scheme) \<Rightarrow> 'a bq_scheme \<Rightarrow> (int \<times> 'a bq_scheme) option" where
  "ibq_take notify q =
     (case buf_ptr q of None \<Rightarrow> None
      | Some p \<Rightarrow>
          if length (buffers q) \<le> p then None
          else
            let q1 = q\<lparr>buf_ptr := Some (p + 1)\<rparr>
            in Some (uint (buffers q ! p),
                 if buf_top q1 \<le> p + 1 then ibqReleaseEmptyBufferS notify q1 else q1))"

definition ibqGetTimeout ::
    "('a bq_scheme \<Rightarrow> 'a bq_scheme) \<Rightarrow> u32 \<Rightarrow> 'a bq_scheme world \<Rightarrow> 'a bq_scheme \<Rightarrow>
     (int \<times> 'a bq_scheme world \<times> 'a bq_scheme) option" where
  "ibqGetTimeout notify timeout w q =
     Option.bind
       (if buf_ptr q = None then ibqGetFullBufferTimeoutS timeout w q else Some (MSG_OK, w, q))
       (\<lambda>(msg, w1, q1).
         if msg \<noteq> MSG_OK then Some (msg, w1, q1)
         else map_option (\<lambda>(b, q2). (b, w1, q2)) (ibq_take notify q1))"

text \<open>
  The buffer of one round of a transfer: the wait with the timeout left; the boolean is
  false when the operation ends here.
\<close>

definition transfer_buffer ::
    "(u32 \<Rightarrow> 'a bq_scheme world \<Rightarrow> 'a bq_scheme \<Rightarrow> (int \<times> 'a bq_scheme world \<times> 'a bq_scheme) option) \<Rightarrow>
     u32 \<Rightarrow> u32 \<Rightarrow> 'a bq_scheme world \<Rightarrow> 'a bq_scheme \<Rightarrow> (bool \<times> 'a bq_scheme world \<times> 'a bq_scheme) option" where
  "transfer_buffer get timeout deadline w q =
     (if buf_ptr q \<noteq> None then Some (True, w, q)
      else if timeout = TIME_INFINITE \<or> timeout = TIME_IMMEDIATE then
        map_option (\<lambda>(msg, w1, q1). (msg = MSG_OK, w1, q1)) (get timeout w q)
      else
        let (t, w1) = osalOsGetSystemTimeX w; next_timeout = deadline - t
        in if timeout < next_timeout then Some (False, w1, q)
           else map_option (\<lambda>(msg, w2, q1). (msg = MSG_OK, w2, q1)) (get next_timeout w1 q))"

text \<open>The size of the piece moved in one round, at most 64 bytes.\<close>

definition chunk_size :: "nat \<Rightarrow> nat \<Rightarrow> nat \<Rightarrow> nat" where
  "chunk_size p stop wanted =
     (let avail = unat (of_nat stop - of_nat p :: u32);
          sz = (if wanted < avail then wanted else avail)
      in if 64 < sz then 64 else sz)"

definition ibq_move ::
    "('a bq_scheme \<Rightarrow> 'a bq_scheme) \<Rightarrow> nat \<Rightarrow> 'a bq_scheme \<Rightarrow> (u8 list \<times> 'a bq_scheme) option" where
  "ibq_move notify wanted q =
     (case buf_ptr q of None \<Rightarrow> None
      | Some p \<Rightarrow>
          let k = chunk_size p (buf_top q) wanted in
          if length (buffers q) < p + k then None
          else
            let q1 = q\<lparr>buf_ptr := Some (p + k)\<rparr>
            in Some (take k (drop p (buffers q)),
                 if buf_top q1 \<le> p + k then ibqReleaseEmptyBufferS notify q1 else q1))"

text \<open>One round of the read loop: the bytes so far, and whether the function has returned.\<close>

definition ibq_read_body ::
    "('a bq_scheme \<Rightarrow> 'a bq_scheme) \<Rightarrow> nat \<Rightarrow> u32 \<Rightarrow> u32 \<Rightarrow>
     u8 list \<times> bool \<times> 'a bq_scheme world \<times> 'a bq_scheme \<Rightarrow>
     (u8 list \<times> bool \<times> 'a bq_scheme world \<times> 'a bq_scheme) option" where
  "ibq_read_body notify n timeout deadline = (\<lambda>(bs, _, w, q).
     Option.bind (transfer_buffer ibqGetFullBufferTimeoutS timeout deadline w q) (\<lambda>(go, w1, q1).
       if \<not> go then Some (bs, True, w1, q1)
       else map_option (\<lambda>(cs, q2). (bs @ cs, n \<le> length (bs @ cs), w1, q2))
              (ibq_move notify (n - length bs) q1)))"

definition ibqReadTimeout ::
    "('a bq_scheme \<Rightarrow> 'a bq_scheme) \<Rightarrow> nat \<Rightarrow> u32 \<Rightarrow> 'a bq_scheme world \<Rightarrow> 'a bq_scheme \<Rightarrow>
     (u8 list \<times> 'a bq_scheme world \<times> 'a bq_scheme) option" where
  "ibqReadTimeout notify n timeout w q =
     (let (t, w1) = osalOsGetSystemTimeX w
      in map_option (\<lambda>(bs, _, w2, q2). (bs, w2, q2))
           (loop_while (\<lambda>(_, stop, _, _). \<not> stop) (ibq_read_body notify n timeout (t + timeout))
             ([], False, w1, q)))"

subsection \<open>Output queues\<close>

definition obqIsEmptyI :: "'a bq_scheme \<Rightarrow> bool" where
  "obqIsEmptyI q \<longleftrightarrow> bwrptr q = brdptr q \<and> bcounter q \<noteq> 0"

definition obqIsFullI :: "'a bq_scheme \<Rightarrow> bool" where
  "obqIsFullI q \<longleftrightarrow> bqSpaceI q = 0"

definition obqObjectInit :: "nat \<Rightarrow> nat \<Rightarrow> 'a bq_scheme \<Rightarrow> 'a bq_scheme" where
  "obqObjectInit sz n q =
     q\<lparr>bcounter := of_nat n, brdptr := 0, bwrptr := 0, btop := (sz + sizeof_size_t) * n,
       bsize := sz + sizeof_size_t, bn := n, buf_ptr := None, buf_top := 0\<rparr>"

definition obqResetI :: "'a bq_scheme \<Rightarrow> 'a bq_scheme" where
  "obqResetI q =
     q\<lparr>bcounter := of_nat (bqSizeX q), brdptr := 0, bwrptr := 0, buf_ptr := None, buf_top := 0\<rparr>"

text \<open>The buffer to be sent, with its size: None inside is the null pointer.\<close>

definition obqGetFullBufferI :: "'a bq_scheme \<Rightarrow> (u32 \<times> nat) option option" where
  "obqGetFullBufferI q =
     (if obqIsEmptyI q then Some None
      else map_option (\<lambda>n. Some (n, brdptr q + sizeof_size_t)) (read_size (brdptr q) q))"

definition obqReleaseEmptyBufferI :: "'a bq_scheme \<Rightarrow> 'a bq_scheme" where
  "obqReleaseEmptyBufferI q = q\<lparr>bcounter := bcounter q + 1, brdptr := next_buffer q (brdptr q)\<rparr>"

definition obqGetEmptyBufferTimeoutS ::
    "u32 \<Rightarrow> 'a bq_scheme world \<Rightarrow> 'a bq_scheme \<Rightarrow> (int \<times> 'a bq_scheme world \<times> 'a bq_scheme) option" where
  "obqGetEmptyBufferTimeoutS timeout w q =
     map_option (\<lambda>(msg, w1, q1).
       if msg < MSG_OK then (msg, w1, q1)
       else (MSG_OK, w1, q1\<lparr>buf_ptr := Some (bwrptr q1 + sizeof_size_t), buf_top := bwrptr q1 + bsize q1\<rparr>))
       (wait_while obqIsFullI timeout w q)"

text \<open>What posting a buffer does before the callback.\<close>

definition obq_post :: "u32 \<Rightarrow> 'a bq_scheme \<Rightarrow> 'a bq_scheme option" where
  "obq_post n q =
     map_option (\<lambda>q1. q1\<lparr>bcounter := bcounter q1 - 1, bwrptr := next_buffer q1 (bwrptr q1), buf_ptr := None\<rparr>)
       (store_size (bwrptr q) n q)"

definition obqPostFullBufferS ::
    "('a bq_scheme \<Rightarrow> 'a bq_scheme) \<Rightarrow> u32 \<Rightarrow> 'a bq_scheme \<Rightarrow> 'a bq_scheme option" where
  "obqPostFullBufferS notify n q = map_option notify (obq_post n q)"

text \<open>The current buffer moved on, and posted when it is full.\<close>

definition obq_advance ::
    "('a bq_scheme \<Rightarrow> 'a bq_scheme) \<Rightarrow> nat \<Rightarrow> u8 list \<Rightarrow> 'a bq_scheme \<Rightarrow> 'a bq_scheme option" where
  "obq_advance notify p bs q =
     (if length (buffers q) < p + length bs then None
      else
        let q1 = q\<lparr>buffers := put_bytes p bs (buffers q), buf_ptr := Some (p + length bs)\<rparr>
        in if buf_top q1 \<le> p + length bs
           then obqPostFullBufferS notify (of_nat (bsize q1 - sizeof_size_t)) q1 else Some q1)"

definition obqPutTimeout ::
    "('a bq_scheme \<Rightarrow> 'a bq_scheme) \<Rightarrow> u8 \<Rightarrow> u32 \<Rightarrow> 'a bq_scheme world \<Rightarrow> 'a bq_scheme \<Rightarrow>
     (int \<times> 'a bq_scheme world \<times> 'a bq_scheme) option" where
  "obqPutTimeout notify b timeout w q =
     Option.bind
       (if buf_ptr q = None then obqGetEmptyBufferTimeoutS timeout w q else Some (MSG_OK, w, q))
       (\<lambda>(msg, w1, q1).
         if msg \<noteq> MSG_OK then Some (msg, w1, q1)
         else case buf_ptr q1 of None \<Rightarrow> None
           | Some p \<Rightarrow> map_option (\<lambda>q2. (MSG_OK, w1, q2)) (obq_advance notify p [b] q1))"

definition obq_write_body ::
    "('a bq_scheme \<Rightarrow> 'a bq_scheme) \<Rightarrow> u8 list \<Rightarrow> u32 \<Rightarrow> u32 \<Rightarrow>
     nat \<times> bool \<times> 'a bq_scheme world \<times> 'a bq_scheme \<Rightarrow>
     (nat \<times> bool \<times> 'a bq_scheme world \<times> 'a bq_scheme) option" where
  "obq_write_body notify bs timeout deadline = (\<lambda>(k, _, w, q).
     Option.bind (transfer_buffer obqGetEmptyBufferTimeoutS timeout deadline w q) (\<lambda>(go, w1, q1).
       if \<not> go then Some (k, True, w1, q1)
       else case buf_ptr q1 of None \<Rightarrow> None
         | Some p \<Rightarrow>
             let m = chunk_size p (buf_top q1) (length bs - k)
             in map_option (\<lambda>q2. (k + m, length bs \<le> k + m, w1, q2))
                  (obq_advance notify p (take m (drop k bs)) q1)))"

definition obqWriteTimeout ::
    "('a bq_scheme \<Rightarrow> 'a bq_scheme) \<Rightarrow> u8 list \<Rightarrow> u32 \<Rightarrow> 'a bq_scheme world \<Rightarrow> 'a bq_scheme \<Rightarrow>
     (nat \<times> 'a bq_scheme world \<times> 'a bq_scheme) option" where
  "obqWriteTimeout notify bs timeout w q =
     (let (t, w1) = osalOsGetSystemTimeX w
      in map_option (\<lambda>(k, _, w2, q2). (k, w2, q2))
           (loop_while (\<lambda>(_, stop, _, _). \<not> stop) (obq_write_body notify bs timeout (t + timeout))
             (0, False, w1, q)))"

definition obqTryFlushI :: "'a bq_scheme \<Rightarrow> (bool \<times> 'a bq_scheme) option" where
  "obqTryFlushI q =
     (case buf_ptr q of
        Some p \<Rightarrow>
          if obqIsEmptyI q then
            let n = of_nat p - (of_nat (bwrptr q) + of_nat sizeof_size_t) :: u32
            in if 0 < n then map_option (Pair True) (obq_post n q) else Some (False, q)
          else Some (False, q)
      | None \<Rightarrow> Some (False, q))"

definition obqFlush :: "('a bq_scheme \<Rightarrow> 'a bq_scheme) \<Rightarrow> 'a bq_scheme \<Rightarrow> 'a bq_scheme option" where
  "obqFlush notify q =
     (case buf_ptr q of
        Some p \<Rightarrow>
          let n = of_nat p - of_nat (bwrptr q) - of_nat sizeof_size_t :: u32
          in if 0 < n then obqPostFullBufferS notify n q else Some q
      | None \<Rightarrow> Some q)"

end
