(* ===== verification/Io_Ring.thy ===== *)
theory Io_Ring
  imports Io_Buffers
begin

text \<open>
  The ring of buffers in a queue's memory: which buffers are filled, what is in each, and
  what posting and releasing a buffer do to them. Both directions rest on this.
\<close>

subsection \<open>The ring of buffers\<close>

definition ring_slots :: "nat \<Rightarrow> nat \<Rightarrow> nat \<Rightarrow> nat list" where
  "ring_slots i c n = map (\<lambda>k. (i + k) mod n) [0..<c]"

lemma ring_slots_0 [simp]: "ring_slots i 0 n = []"
  by (simp add: ring_slots_def)

lemma ring_slots_snoc: "ring_slots i (Suc c) n = ring_slots i c n @ [(i + c) mod n]"
  by (simp add: ring_slots_def)

lemma ring_slots_Cons:
  assumes "i < n"
  shows "ring_slots i (Suc c) n = i # ring_slots (Suc i mod n) c n"
proof -
  have "(i + Suc k) mod n = (Suc i mod n + k) mod n" for k by (simp add: mod_simps)
  then show ?thesis
    using assms by (simp add: ring_slots_def upt_conv_Cons map_Suc_upt[symmetric] o_def del: upt_Suc)
qed

lemma ring_slots_less: "0 < n \<Longrightarrow> k \<in> set (ring_slots i c n) \<Longrightarrow> k < n"
  by (auto simp: ring_slots_def)

lemma ring_slots_fresh:
  assumes "c < n"
  shows "(i + c) mod n \<notin> set (ring_slots i c n)"
proof
  assume "(i + c) mod n \<in> set (ring_slots i c n)"
  then obtain k where k: "k < c" "(i + c) mod n = (i + k) mod n" by (auto simp: ring_slots_def)
  then have "n dvd (i + c) - (i + k)" by (simp add: mod_eq_dvd_iff_nat)
  with k(1) assms show False by (auto dest: dvd_imp_le)
qed

text \<open>The bytes of a buffer, and the geometry of a queue with \<open>c\<close> filled buffers from slot \<open>i\<close>.\<close>

definition size_of :: "'a bq_scheme \<Rightarrow> nat \<Rightarrow> nat" where
  "size_of q k = unat (get_u32 (bsize q * k) (buffers q))"

definition chunk :: "'a bq_scheme \<Rightarrow> nat \<Rightarrow> u8 list" where
  "chunk q k = take (size_of q k) (drop (bsize q * k + 4) (buffers q))"

definition geometry :: "'a bq_scheme \<Rightarrow> nat \<Rightarrow> nat \<Rightarrow> bool" where
  "geometry q i c \<longleftrightarrow> 4 < bsize q \<and> btop q = bsize q * bn q \<and> btop q < 2 ^ 32 \<and>
     length (buffers q) = btop q \<and> i < bn q \<and> c \<le> bn q \<and>
     brdptr q = bsize q * i \<and> bwrptr q = bsize q * ((i + c) mod bn q) \<and>
     list_all (\<lambda>k. size_of q k + 4 \<le> bsize q) (ring_slots i c (bn q))"

lemma slot_end: "k < n \<Longrightarrow> b * k + b \<le> b * (n :: nat)"
  using mult_le_mono2[of "Suc k" n b] by simp

lemma next_slot:
  assumes "geometry q i c" and "j < bn q"
  shows "next_buffer q (bsize q * j) = bsize q * (Suc j mod bn q)"
proof (cases "Suc j = bn q")
  case True
  then have "btop q = bsize q * j + bsize q" using assms(1) by (simp add: geometry_def flip: True)
  then show ?thesis using True by (simp add: next_buffer_def)
next
  case False
  then have "Suc j < bn q" using assms(2) by simp
  moreover have "bsize q * j + bsize q < btop q"
  proof -
    have "bsize q * Suc j + bsize q \<le> bsize q * bn q" using calculation by (rule slot_end)
    moreover have "btop q = bsize q * bn q" "0 < bsize q" using assms(1) by (simp_all add: geometry_def)
    ultimately show ?thesis unfolding mult_Suc_right by linarith
  qed
  ultimately show ?thesis by (simp add: next_buffer_def algebra_simps)
qed

text \<open>A slot sees only its own part of the memory.\<close>

lemma slot_disjoint:
  assumes "k \<noteq> (j :: nat)" and "b * j \<le> a" and "a + l \<le> b * j + b"
  shows "b * k + b \<le> a \<or> a + l \<le> b * k"
proof (cases "k < j")
  case True
  from slot_end[OF this, of b] assms show ?thesis by linarith
next
  case False
  with assms(1) have "j < k" by simp
  from slot_end[OF this, of b] assms show ?thesis by linarith
qed

lemma take_drop_put:
  assumes "b + l \<le> a \<or> a + length xs \<le> b" and "a + length xs \<le> length m"
  shows "take l (drop b (put_bytes a xs m)) = take l (drop b m)"
proof (rule nth_equalityI)
  show "length (take l (drop b (put_bytes a xs m))) = length (take l (drop b m))"
    using assms(2) by (simp add: length_put)
next
  fix x
  assume "x < length (take l (drop b (put_bytes a xs m)))"
  then have x: "x < l" "b + x < length m" using assms(2) by (auto simp: length_put)
  then have "put_bytes a xs m ! (b + x) = m ! (b + x)" using assms by (intro nth_put) auto
  then show "take l (drop b (put_bytes a xs m)) ! x = take l (drop b m) ! x"
    using x assms(2) by (simp add: length_put)
qed

lemma slot_put:
  assumes "k \<noteq> j" and "bsize q * j \<le> a" and "a + length xs \<le> bsize q * j + bsize q"
    and "4 < bsize q" and "a + length xs \<le> length (buffers q)"
  shows "size_of (q\<lparr>buffers := put_bytes a xs (buffers q)\<rparr>) k = size_of q k"
    and "size_of q k + 4 \<le> bsize q \<Longrightarrow>
      chunk (q\<lparr>buffers := put_bytes a xs (buffers q)\<rparr>) k = chunk q k"
proof -
  have d: "bsize q * k + bsize q \<le> a \<or> a + length xs \<le> bsize q * k"
    using assms(1-3) by (rule slot_disjoint)
  then show s: "size_of (q\<lparr>buffers := put_bytes a xs (buffers q)\<rparr>) k = size_of q k"
    using assms(4,5) by (auto simp: size_of_def get_u32_put_other)
  assume "size_of q k + 4 \<le> bsize q"
  then have "take (size_of q k) (drop (bsize q * k + 4) (put_bytes a xs (buffers q))) =
      take (size_of q k) (drop (bsize q * k + 4) (buffers q))"
    using d assms(5) by (intro take_drop_put) auto
  then show "chunk (q\<lparr>buffers := put_bytes a xs (buffers q)\<rparr>) k = chunk q k"
    by (simp add: chunk_def s)
qed

text \<open>Bytes put behind the size field, then their number into it.\<close>

lemma chunk_filled:
  assumes "geometry q i c" and "j < bn q" and "length bs + 4 \<le> bsize q"
  shows "chunk (q\<lparr>buffers := put_bytes (bsize q * j) (u32_bytes (of_nat (length bs)))
      (put_bytes (bsize q * j + 4) bs (buffers q))\<rparr>) j = bs"
    and "size_of (q\<lparr>buffers := put_bytes (bsize q * j) (u32_bytes (of_nat (length bs)))
      (put_bytes (bsize q * j + 4) bs (buffers q))\<rparr>) j = length bs"
proof -
  let ?a = "bsize q * j"
  have e: "?a + bsize q \<le> length (buffers q)" "btop q < 2 ^ 32" "btop q = length (buffers q)"
    using slot_end[OF assms(2), of "bsize q"] assms(1) by (simp_all add: geometry_def)
  have l: "length (put_bytes (?a + 4) bs (buffers q)) = length (buffers q)"
    using e assms(3) by (simp add: length_put)
  have "length bs < 2 ^ 32" using e assms(3) by linarith
  then have n: "unat (of_nat (length bs) :: u32) = length bs" by (simp add: unat_of_nat take_bit_nat_eq_self_iff)
  show s: "size_of (q\<lparr>buffers := put_bytes ?a (u32_bytes (of_nat (length bs)))
      (put_bytes (?a + 4) bs (buffers q))\<rparr>) j = length bs"
    using e l assms(3) n by (simp add: size_of_def get_u32_put_same)
  have u: "length (u32_bytes w) = 4" for w by (simp add: u32_bytes_def u16_bytes_def)
  have "take (length bs) (drop (?a + 4) (put_bytes ?a (u32_bytes (of_nat (length bs)))
      (put_bytes (?a + 4) bs (buffers q)))) =
    take (length bs) (drop (?a + 4) (put_bytes (?a + 4) bs (buffers q)))"
    using e l assms(3) by (intro take_drop_put) (simp_all add: u)
  also have "\<dots> = bs" using e assms(3) by (simp add: put_bytes_def)
  finally show "chunk (q\<lparr>buffers := put_bytes ?a (u32_bytes (of_nat (length bs)))
      (put_bytes (?a + 4) bs (buffers q))\<rparr>) j = bs"
    by (simp add: chunk_def s)
qed

subsection \<open>Filling and releasing a buffer\<close>

definition filled :: "'a bq_scheme \<Rightarrow> nat \<Rightarrow> nat \<Rightarrow> u8 list" where
  "filled q i c = concat (map (chunk q) (ring_slots i c (bn q)))"

lemma chunk_other [simp]:
  "chunk (q\<lparr>bcounter := n\<rparr>) = chunk q" "chunk (q\<lparr>buf_ptr := p\<rparr>) = chunk q"
  "chunk (q\<lparr>buf_top := t\<rparr>) = chunk q" "chunk (bq.more_update f q) = chunk q"
  "chunk (q\<lparr>brdptr := t\<rparr>) = chunk q" "chunk (q\<lparr>bwrptr := t\<rparr>) = chunk q"
  "size_of (q\<lparr>bcounter := n\<rparr>) = size_of q" "size_of (q\<lparr>buf_ptr := p\<rparr>) = size_of q"
  "size_of (q\<lparr>buf_top := t\<rparr>) = size_of q" "size_of (bq.more_update f q) = size_of q"
  "size_of (q\<lparr>brdptr := t\<rparr>) = size_of q" "size_of (q\<lparr>bwrptr := t\<rparr>) = size_of q"
  by (simp_all add: fun_eq_iff chunk_def size_of_def)

lemma geometry_other [simp]:
  "geometry (q\<lparr>bcounter := n\<rparr>) = geometry q" "geometry (q\<lparr>buf_ptr := p\<rparr>) = geometry q"
  "geometry (q\<lparr>buf_top := t\<rparr>) = geometry q" "geometry (bq.more_update f q) = geometry q"
  "geometry (q\<lparr>bcounter := n, brdptr := t\<rparr>) = geometry (q\<lparr>brdptr := t\<rparr>)"
  "filled (q\<lparr>bcounter := n\<rparr>) = filled q" "filled (q\<lparr>buf_ptr := p\<rparr>) = filled q"
  "filled (q\<lparr>buf_top := t\<rparr>) = filled q" "filled (bq.more_update f q) = filled q"
  "filled (q\<lparr>brdptr := t\<rparr>) = filled q" "filled (q\<lparr>bwrptr := t\<rparr>) = filled q"
  by (simp_all add: fun_eq_iff geometry_def filled_def)

lemma geometry_bounds:
  assumes "geometry q i c"
  shows "bn q < 2 ^ 32" "brdptr q + bsize q \<le> btop q" "bwrptr q + bsize q \<le> btop q"
    "brdptr q div bsize q = i" "bsize q < 2 ^ 32"
proof -
  note g = assms[unfolded geometry_def]
  have "bn q \<le> bsize q * bn q" using g by simp
  then show "bn q < 2 ^ 32" using g by linarith
  show "brdptr q + bsize q \<le> btop q" using g slot_end[of i "bn q" "bsize q"] by simp
  have "(i + c) mod bn q < bn q" using g by simp
  then show "bwrptr q + bsize q \<le> btop q" using g slot_end[of "(i + c) mod bn q" "bn q" "bsize q"] by simp
  then show "bsize q < 2 ^ 32" using g by linarith
  show "brdptr q div bsize q = i" using g by simp
qed

text \<open>Bytes written into the part of the next buffer behind its size field are not seen.\<close>

lemma geometry_unseen:
  assumes "geometry q i c" and "c < bn q" and "bwrptr q \<le> a" and "a + length bs \<le> bwrptr q + bsize q"
  shows "geometry (q\<lparr>buffers := put_bytes a bs (buffers q)\<rparr>) i c"
    and "filled (q\<lparr>buffers := put_bytes a bs (buffers q)\<rparr>) i c = filled q i c"
    and "k \<in> set (ring_slots i c (bn q)) \<Longrightarrow>
      size_of (q\<lparr>buffers := put_bytes a bs (buffers q)\<rparr>) k = size_of q k"
    and "k \<in> set (ring_slots i c (bn q)) \<Longrightarrow>
      chunk (q\<lparr>buffers := put_bytes a bs (buffers q)\<rparr>) k = chunk q k"
proof -
  let ?q = "q\<lparr>buffers := put_bytes a bs (buffers q)\<rparr>"
  let ?j = "(i + c) mod bn q"
  note g = assms(1)[unfolded geometry_def]
  have a: "bsize q * ?j \<le> a" "a + length bs \<le> bsize q * ?j + bsize q" "a + length bs \<le> length (buffers q)"
    using g assms(3,4) geometry_bounds(3)[OF assms(1)] by simp_all
  have same: "size_of ?q k = size_of q k \<and> chunk ?q k = chunk q k"
    if "k \<in> set (ring_slots i c (bn q))" for k
  proof -
    have "k \<noteq> ?j" using that ring_slots_fresh[OF assms(2), of i] by metis
    moreover have "size_of q k + 4 \<le> bsize q" using g that by (simp add: list_all_iff)
    ultimately show ?thesis using slot_put[of k ?j q a bs] a g by simp
  qed
  then have "list_all (\<lambda>k. size_of ?q k + 4 \<le> bsize q) (ring_slots i c (bn q))"
    using g by (simp add: list_all_iff)
  then show "geometry ?q i c" using g a by (simp add: geometry_def length_put)
  show "filled ?q i c = filled q i c"
    unfolding filled_def using same by (auto intro!: arg_cong[where f = concat])
  show "k \<in> set (ring_slots i c (bn q)) \<Longrightarrow> size_of ?q k = size_of q k"
    "k \<in> set (ring_slots i c (bn q)) \<Longrightarrow> chunk ?q k = chunk q k" using same by blast+
qed

text \<open>A buffer posted with its size behind the filled ones.\<close>

definition posted :: "nat \<Rightarrow> 'a bq_scheme \<Rightarrow> 'a bq_scheme" where
  "posted n q = q\<lparr>buffers := put_bytes (bwrptr q) (u32_bytes (of_nat n)) (buffers q),
     bwrptr := next_buffer q (bwrptr q)\<rparr>"

lemma put_own: "a + l \<le> length m \<Longrightarrow> put_bytes a (take l (drop a m)) m = m"
  by (auto simp: put_bytes_def intro!: nth_equalityI simp: nth_append)

lemma size_bytes [simp]: "length (u32_bytes w) = 4"
  by (simp add: u32_bytes_def u16_bytes_def)

lemma geometry_grow:
  assumes "geometry q i c" and "c < bn q" and "size_of q ((i + c) mod bn q) + 4 \<le> bsize q"
    and "w = bsize q * ((i + Suc c) mod bn q)"
  shows "geometry (q\<lparr>bwrptr := w\<rparr>) i (Suc c)"
  using assms by (simp add: geometry_def ring_slots_snoc)

lemma geometry_posted:
  assumes "geometry q i c" and "c < bn q" and "n + 4 \<le> bsize q"
  shows "geometry (posted n q) i (Suc c)"
    and "filled (posted n q) i (Suc c) = filled q i c @ take n (drop (bwrptr q + 4) (buffers q))"
    and "k \<in> set (ring_slots i c (bn q)) \<Longrightarrow> size_of (posted n q) k = size_of q k"
    and "k \<in> set (ring_slots i c (bn q)) \<Longrightarrow> chunk (posted n q) k = chunk q k"
    and "size_of (posted n q) ((i + c) mod bn q) = n"
proof -
  let ?j = "(i + c) mod bn q" and ?bs = "take n (drop (bwrptr q + 4) (buffers q))"
  let ?q = "q\<lparr>buffers := put_bytes (bwrptr q) (u32_bytes (of_nat n)) (buffers q)\<rparr>"
  note g = assms(1)[unfolded geometry_def]
  have j: "?j < bn q" and w: "bwrptr q = bsize q * ?j" using g by simp_all
  have len: "length ?bs = n" using geometry_bounds(3)[OF assms(1)] g assms(3) by simp
  have own: "put_bytes (bwrptr q + 4) ?bs (buffers q) = buffers q"
    using geometry_bounds(3)[OF assms(1)] g assms(3) by (intro put_own) simp
  have new: "chunk ?q ?j = ?bs" "size_of ?q ?j = n"
    using chunk_filled[OF assms(1) j, of ?bs] assms(3) unfolding len w[symmetric] own by simp_all
  have old: "geometry ?q i c" "filled ?q i c = filled q i c"
    using geometry_unseen[OF assms(1,2), of "bwrptr q" "u32_bytes (of_nat n)"] g by simp_all
  have nb: "next_buffer q (bwrptr q) = bsize q * ((i + Suc c) mod bn q)"
    unfolding w next_slot[OF assms(1) j] by (simp add: mod_simps)
  have p: "posted n q = ?q\<lparr>bwrptr := next_buffer q (bwrptr q)\<rparr>" by (simp add: posted_def)
  show "k \<in> set (ring_slots i c (bn q)) \<Longrightarrow> size_of (posted n q) k = size_of q k"
    "k \<in> set (ring_slots i c (bn q)) \<Longrightarrow> chunk (posted n q) k = chunk q k"
    unfolding p using geometry_unseen(3,4)[OF assms(1,2), of "bwrptr q" "u32_bytes (of_nat n)"] g by simp_all
  show "size_of (posted n q) ((i + c) mod bn q) = n" unfolding p using new(2) by simp
  show "geometry (posted n q) i (Suc c)"
    unfolding p using old(1) assms(2,3) new(2) nb by (intro geometry_grow) simp_all
  show "filled (posted n q) i (Suc c) = filled q i c @ ?bs"
    unfolding p using old(2) new(1) by (simp add: filled_def ring_slots_snoc)
qed

lemma geometry_released:
  assumes "geometry q i (Suc c)"
  shows "geometry (q\<lparr>brdptr := next_buffer q (brdptr q)\<rparr>) (Suc i mod bn q) c"
    and "filled q i (Suc c) = chunk q i @ filled q (Suc i mod bn q) c"
    and "length (chunk q i) = size_of q i" and "size_of q i + 4 \<le> bsize q"
proof -
  note g = assms[unfolded geometry_def]
  have i: "i < bn q" using g by simp
  have "next_buffer q (brdptr q) = bsize q * (Suc i mod bn q)" using next_slot[OF assms i] g by simp
  then show "geometry (q\<lparr>brdptr := next_buffer q (brdptr q)\<rparr>) (Suc i mod bn q) c"
    using g by (simp add: geometry_def ring_slots_Cons[OF i] mod_simps)
  show "filled q i (Suc c) = chunk q i @ filled q (Suc i mod bn q) c"
    by (simp add: filled_def ring_slots_Cons[OF i])
  show s: "size_of q i + 4 \<le> bsize q" using g by (simp add: ring_slots_Cons[OF i])
  show "length (chunk q i) = size_of q i"
    using s g geometry_bounds(2)[OF assms] by (simp add: chunk_def)
qed

subsection \<open>Counters, waits and loops\<close>

definition rd_slot :: "'a bq_scheme \<Rightarrow> nat" where
  "rd_slot q = brdptr q div bsize q"

lemma rd_slot_other [simp]:
  "rd_slot (q\<lparr>bcounter := n\<rparr>) = rd_slot q" "rd_slot (q\<lparr>buf_ptr := p\<rparr>) = rd_slot q"
  "rd_slot (q\<lparr>buf_top := t\<rparr>) = rd_slot q" "rd_slot (bq.more_update f q) = rd_slot q"
  "rd_slot (q\<lparr>buffers := m\<rparr>) = rd_slot q" "rd_slot (q\<lparr>bwrptr := t\<rparr>) = rd_slot q"
  by (simp_all add: rd_slot_def)

lemma unat_inc: "unat w < 2 ^ 32 - 1 \<Longrightarrow> unat (w + 1 :: u32) = Suc (unat w)"
proof -
  assume "unat w < 2 ^ 32 - 1"
  moreover have "w + 1 = of_nat (Suc (unat w))" by simp
  ultimately show ?thesis by (simp only: unat_of_nat) (simp add: take_bit_nat_eq_self_iff)
qed

lemma unat_dec: "w \<noteq> 0 \<Longrightarrow> unat (w - 1 :: u32) = unat w - 1"
  by (rule unat_minus_one)

lemma wrapped: "i < n \<Longrightarrow> c \<le> n \<Longrightarrow> (i + c) mod n = i \<longleftrightarrow> c = 0 \<or> c = (n :: nat)"
  by (auto simp: mod_if)

lemma full_iff:
  assumes "geometry q i c"
  shows "bwrptr q = brdptr q \<longleftrightarrow> c = 0 \<or> c = bn q"
  using assms wrapped[of i "bn q" c] by (auto simp: geometry_def)

lemma ring_slots_first: "i < n \<Longrightarrow> 0 < c \<Longrightarrow> i \<in> set (ring_slots i c n)"
  by (cases c) (simp_all add: ring_slots_Cons)

lemma piece_eq:
  assumes "p \<le> stop" and "stop < 2 ^ 32"
  shows "chunk_size p stop wanted = min 64 (min wanted (stop - p))"
proof -
  have "(of_nat stop - of_nat p :: u32) = of_nat (stop - p)" using assms(1) by (simp add: of_nat_diff)
  then have "unat (of_nat stop - of_nat p :: u32) = stop - p"
    using assms(2) by (simp only: unat_of_nat) (simp add: take_bit_nat_eq_self_iff)
  then show ?thesis by (simp add: chunk_size_def Let_def)
qed

lemma loop_stop: "\<not> c s \<Longrightarrow> loop_while c f s = Some s"
  by (simp add: loop_while.simps)

lemma loop_step: "c s \<Longrightarrow> f s = Some s' \<Longrightarrow> loop_while c f s = loop_while c f s'"
  by (subst loop_while.simps) simp

lemma wait_ready: "\<not> c q \<Longrightarrow> wait_while c timeout w q = Some (MSG_OK, w, q)"
  by (subst wait_while_def, subst loop_while.simps) simp

lemma wait_immediate: "c q \<Longrightarrow> wait_while c TIME_IMMEDIATE w q = Some (MSG_TIMEOUT, w, q)"
  by (subst wait_while_def, subst loop_while.simps)
    (simp add: wait_body_def enqueue_wait_def MSG_OK_def MSG_TIMEOUT_def loop_while.simps)

text \<open>
  The callback of a queue starts transfers of the hardware, and leaves the queue's own
  fields alone.
\<close>

locale quiet_callback =
  fixes notify :: "'a bq_scheme \<Rightarrow> 'a bq_scheme"
  assumes quiet: "\<exists>f. notify q = bq.more_update f q"
begin

lemma quiet_keeps [simp]:
  "bcounter (notify q) = bcounter q" "bwrptr (notify q) = bwrptr q" "brdptr (notify q) = brdptr q"
  "bsize (notify q) = bsize q" "bn (notify q) = bn q" "buf_ptr (notify q) = buf_ptr q"
  "buf_top (notify q) = buf_top q" "buffers (notify q) = buffers q"
  "geometry (notify q) = geometry q" "filled (notify q) = filled q" "size_of (notify q) = size_of q"
  "rd_slot (notify q) = rd_slot q"
proof -
  obtain f where "notify q = bq.more_update f q" using quiet by blast
  then show "bcounter (notify q) = bcounter q" "bwrptr (notify q) = bwrptr q" "brdptr (notify q) = brdptr q"
    "bsize (notify q) = bsize q" "bn (notify q) = bn q" "buf_ptr (notify q) = buf_ptr q"
    "buf_top (notify q) = buf_top q" "buffers (notify q) = buffers q"
    "geometry (notify q) = geometry q" "filled (notify q) = filled q" "size_of (notify q) = size_of q"
    "rd_slot (notify q) = rd_slot q"
    by simp_all
qed

end

end
