(* ===== verification/Io_Input.thy ===== *)
theory Io_Input
  imports Io_Ring
begin

text \<open>
  An input queue as a queue of bytes: what the hardware posts in buffers is read as one
  stream of bytes, in order, with no byte lost or doubled, wherever the borders of the
  buffers and of the ring are.
\<close>

subsection \<open>The invariant and the stream\<close>

definition ibq_inv :: "'a bq_scheme \<Rightarrow> bool" where
  "ibq_inv q \<longleftrightarrow> geometry q (rd_slot q) (unat (bcounter q)) \<and>
     (case buf_ptr q of None \<Rightarrow> True
      | Some p \<Rightarrow> bcounter q \<noteq> 0 \<and> brdptr q + 4 \<le> p \<and> p \<le> buf_top q \<and>
          buf_top q = brdptr q + 4 + size_of q (rd_slot q))"

text \<open>The stream of bytes that are still to be read.\<close>

definition ibq_bytes :: "'a bq_scheme \<Rightarrow> u8 list" where
  "ibq_bytes q = drop (case buf_ptr q of None \<Rightarrow> 0 | Some p \<Rightarrow> p - (brdptr q + 4))
     (filled q (rd_slot q) (unat (bcounter q)))"

text \<open>What the hardware does with an empty buffer: it puts the bytes of a transfer into it.\<close>

definition ibq_fill :: "u8 list \<Rightarrow> 'a bq_scheme \<Rightarrow> 'a bq_scheme" where
  "ibq_fill bs q = q\<lparr>buffers := put_bytes (bwrptr q + sizeof_size_t) bs (buffers q)\<rparr>"

text \<open>The hardware's part: an empty buffer filled and posted.\<close>

definition ibq_filled :: "u8 list \<Rightarrow> 'a bq_scheme \<Rightarrow> 'a bq_scheme" where
  "ibq_filled bs q = posted (length bs) (ibq_fill bs q)"

lemma geometry_filled:
  assumes "geometry q i c" and "c < bn q" and "length bs + 4 \<le> bsize q"
  shows "geometry (ibq_filled bs q) i (Suc c)"
    and "filled (ibq_filled bs q) i (Suc c) = filled q i c @ bs"
    and "k \<in> set (ring_slots i c (bn q)) \<Longrightarrow> size_of (ibq_filled bs q) k = size_of q k"
proof -
  obtain f where f: "f = ibq_fill bs q" by blast
  note U = geometry_unseen[OF assms(1,2), of "bwrptr q + 4" bs]
  have e: "bwrptr f = bwrptr q" "bn f = bn q" "bsize f = bsize q"
    "take (length bs) (drop (bwrptr f + 4) (buffers f)) = bs"
    using geometry_bounds(3)[OF assms(1)] assms by (simp_all add: f ibq_fill_def sizeof_size_t_def put_bytes_def geometry_def)
  have g: "geometry f i c" "filled f i c = filled q i c"
    "\<And>k. k \<in> set (ring_slots i c (bn q)) \<Longrightarrow> size_of f k = size_of q k"
    using U assms(3) by (simp_all add: f ibq_fill_def sizeof_size_t_def)
  note P = geometry_posted[OF g(1), unfolded e(2,3), OF assms(2,3)]
  show "geometry (ibq_filled bs q) i (Suc c)" using P(1) by (simp add: ibq_filled_def f)
  show "filled (ibq_filled bs q) i (Suc c) = filled q i c @ bs" using P(2) e(4) g(2) by (simp add: ibq_filled_def f)
  show "k \<in> set (ring_slots i c (bn q)) \<Longrightarrow> size_of (ibq_filled bs q) k = size_of q k"
    using P(3) g(3) by (simp add: ibq_filled_def f)
qed

lemma ibq_filled_keeps [simp]:
  "brdptr (ibq_filled bs q) = brdptr q" "bsize (ibq_filled bs q) = bsize q" "bn (ibq_filled bs q) = bn q"
  "buf_ptr (ibq_filled bs q) = buf_ptr q" "buf_top (ibq_filled bs q) = buf_top q"
  "bq.more (ibq_filled bs q) = bq.more q" "rd_slot (ibq_filled bs q) = rd_slot q"
  "bcounter (ibq_filled bs q) = bcounter q"
  by (simp_all add: ibq_filled_def posted_def ibq_fill_def rd_slot_def)

lemma ibq_post_run:
  assumes "geometry q i c" and "length bs + 4 \<le> bsize q"
  shows "ibqPostFullBufferI (of_nat (length bs)) (ibq_fill bs q) =
    Some ((ibq_filled bs q)\<lparr>bcounter := bcounter q + 1\<rparr>)"
proof -
  have "bwrptr q + bsize q \<le> length (buffers q)"
    using geometry_bounds(3)[OF assms(1)] assms(1) by (simp only: geometry_def)
  then have "length (buffers (ibq_fill bs q)) = length (buffers q)"
    "\<not> length (buffers q) < bwrptr q + sizeof_size_t"
    using assms(2) by (simp_all add: ibq_fill_def sizeof_size_t_def length_put)
  moreover have "bwrptr (ibq_fill bs q) = bwrptr q" "bcounter (ibq_fill bs q) = bcounter q"
    by (simp_all add: ibq_fill_def)
  ultimately show ?thesis
    by (simp add: ibqPostFullBufferI_def store_size_def ibq_filled_def posted_def next_buffer_def)
qed

lemma ibq_post:
  assumes "ibq_inv q" and "\<not> ibqIsFullI q" and "length bs + 4 \<le> bsize q"
  shows "\<exists>q'. ibqPostFullBufferI (of_nat (length bs)) (ibq_fill bs q) = Some q' \<and> ibq_inv q' \<and>
    ibq_bytes q' = ibq_bytes q @ bs \<and> unat (bcounter q') = Suc (unat (bcounter q)) \<and>
    bsize q' = bsize q \<and> bn q' = bn q \<and> bq.more q' = bq.more q"
proof -
  let ?i = "rd_slot q" and ?c = "unat (bcounter q)"
  have g: "geometry q ?i ?c" using assms(1) by (simp add: ibq_inv_def)
  have c: "?c < bn q"
    using assms(2) full_iff[OF g] g by (auto simp: ibqIsFullI_def unat_eq_zero geometry_def)
  note F = geometry_filled[OF g c assms(3)]
  have n: "unat (bcounter q + 1) = Suc ?c" using c geometry_bounds(1)[OF g] by (intro unat_inc) linarith
  then have nz: "bcounter q + 1 \<noteq> 0" by auto
  obtain q' where q': "q' = (ibq_filled bs q)\<lparr>bcounter := bcounter q + 1\<rparr>" by blast
  have first: "size_of (ibq_filled bs q) ?i = size_of q ?i" "size_of q ?i \<le> length (filled q ?i ?c)"
    if "bcounter q \<noteq> 0"
  proof -
    have "0 < ?c" using that by (simp add: unat_gt_0)
    then obtain c' where c': "?c = Suc c'" using gr0_implies_Suc by blast
    then show "size_of (ibq_filled bs q) ?i = size_of q ?i"
      using F(3)[of ?i] ring_slots_first[of ?i "bn q" ?c] g by (simp add: geometry_def)
    show "size_of q ?i \<le> length (filled q ?i ?c)" using geometry_released[OF g[unfolded c']] by (simp add: c')
  qed
  have "ibq_inv q'"
    using assms(1) F(1) n nz first(1) by (auto simp: ibq_inv_def q' split: option.splits)
  moreover have "ibq_bytes q' = ibq_bytes q @ bs"
  proof (cases "buf_ptr q")
    case None
    then show ?thesis using F(2) n by (simp add: ibq_bytes_def q')
  next
    case (Some p)
    then have "bcounter q \<noteq> 0" "p - (brdptr q + 4) \<le> size_of q ?i" using assms(1) by (auto simp: ibq_inv_def)
    with first(2) have "p - (brdptr q + 4) \<le> length (filled q ?i ?c)" by linarith
    then show ?thesis using F(2) n Some by (simp add: ibq_bytes_def q')
  qed
  ultimately show ?thesis
    using n ibq_post_run[OF g assms(3)] by (intro exI[of _ q']) (simp add: q')
qed

text \<open>Bytes that the hardware puts into an empty buffer are not seen before it is posted.\<close>

lemma ibq_unseen:
  assumes "ibq_inv q" and "\<not> ibqIsFullI q" and "bwrptr q \<le> a" and "a + length bs \<le> bwrptr q + bsize q"
  shows "ibq_inv (q\<lparr>buffers := put_bytes a bs (buffers q)\<rparr>)"
    and "ibq_bytes (q\<lparr>buffers := put_bytes a bs (buffers q)\<rparr>) = ibq_bytes q"
proof -
  let ?i = "rd_slot q" and ?c = "unat (bcounter q)"
  have g: "geometry q ?i ?c" using assms(1) by (simp add: ibq_inv_def)
  have c: "?c < bn q"
    using assms(2) full_iff[OF g] g by (auto simp: ibqIsFullI_def unat_eq_zero geometry_def)
  note U = geometry_unseen[OF g c assms(3,4)]
  have "size_of (q\<lparr>buffers := put_bytes a bs (buffers q)\<rparr>) ?i = size_of q ?i" if "bcounter q \<noteq> 0"
    using that ring_slots_first[of ?i "bn q" ?c] g by (intro U(3)) (simp add: geometry_def unat_gt_0)
  then show "ibq_inv (q\<lparr>buffers := put_bytes a bs (buffers q)\<rparr>)"
    using assms(1) U(1) by (auto simp: ibq_inv_def split: option.splits)
  show "ibq_bytes (q\<lparr>buffers := put_bytes a bs (buffers q)\<rparr>) = ibq_bytes q"
    using U(2) by (simp add: ibq_bytes_def split: option.splits)
qed

lemma put_behind:
  assumes "a + k + length bs \<le> length m"
  shows "put_bytes a (take k (drop a m) @ bs) m = put_bytes (a + k) bs m"
    and "take (k + length bs) (drop a (put_bytes (a + k) bs m)) = take k (drop a m) @ bs"
proof -
  show e: "put_bytes a (take k (drop a m) @ bs) m = put_bytes (a + k) bs m"
    using assms by (simp add: put_bytes_def take_add add.assoc)
  show "take (k + length bs) (drop a (put_bytes (a + k) bs m)) = take k (drop a m) @ bs"
    using assms unfolding e[symmetric] by (simp add: put_bytes_def)
qed

text \<open>What is in front of the stream: the buffer that is read, and the bytes in it.\<close>

lemma ibq_front:
  assumes "ibq_inv q" and "bcounter q \<noteq> 0"
  obtains c where "unat (bcounter q) = Suc c" "geometry q (rd_slot q) (Suc c)"
    "filled q (rd_slot q) (Suc c) = chunk q (rd_slot q) @ filled q (Suc (rd_slot q) mod bn q) c"
    "length (chunk q (rd_slot q)) = size_of q (rd_slot q)"
    "brdptr q + 4 + size_of q (rd_slot q) \<le> length (buffers q)" "length (buffers q) < 2 ^ 32"
    "chunk q (rd_slot q) = take (size_of q (rd_slot q)) (drop (brdptr q + 4) (buffers q))"
proof -
  have "0 < unat (bcounter q)" using assms(2) by (simp add: unat_gt_0)
  then obtain c where c: "unat (bcounter q) = Suc c" using gr0_implies_Suc by blast
  then have g: "geometry q (rd_slot q) (Suc c)" using assms(1) by (simp add: ibq_inv_def)
  note R = geometry_released[OF g]
  have "brdptr q + 4 + size_of q (rd_slot q) \<le> length (buffers q)" "length (buffers q) < 2 ^ 32"
    "bsize q * rd_slot q = brdptr q"
    using R(4) geometry_bounds(2)[OF g] g by (simp_all add: geometry_def)
  then show thesis using that[OF c g R(2,3)] by (simp add: chunk_def)
qed

lemma ibq_current_bytes:
  assumes "ibq_inv q" and "buf_ptr q = Some p"
  shows "ibq_bytes q = take (buf_top q - p) (drop p (buffers q)) @
      drop (size_of q (rd_slot q)) (filled q (rd_slot q) (unat (bcounter q)))"
    and "p \<le> buf_top q" and "buf_top q \<le> length (buffers q)" and "buf_top q < 2 ^ 32" and "bcounter q \<noteq> 0"
proof -
  show nz: "bcounter q \<noteq> 0" and p: "p \<le> buf_top q" using assms by (simp_all add: ibq_inv_def)
  obtain c where c: "unat (bcounter q) = Suc c"
    "filled q (rd_slot q) (Suc c) = chunk q (rd_slot q) @ filled q (Suc (rd_slot q) mod bn q) c"
    "length (chunk q (rd_slot q)) = size_of q (rd_slot q)"
    "brdptr q + 4 + size_of q (rd_slot q) \<le> length (buffers q)" "length (buffers q) < 2 ^ 32"
    "chunk q (rd_slot q) = take (size_of q (rd_slot q)) (drop (brdptr q + 4) (buffers q))"
    by (rule ibq_front[OF assms(1) nz]) blast
  have t: "brdptr q + 4 \<le> p" "buf_top q = brdptr q + 4 + size_of q (rd_slot q)"
    using assms by (simp_all add: ibq_inv_def)
  show "buf_top q \<le> length (buffers q)" "buf_top q < 2 ^ 32" using c(4,5) t(2) by linarith+
  define d where "d = p - (brdptr q + 4)"
  have d: "p = brdptr q + 4 + d" "d \<le> size_of q (rd_slot q)" "buf_top q - p = size_of q (rd_slot q) - d"
    using t p by (simp_all add: d_def)
  have b: "ibq_bytes q = drop d (chunk q (rd_slot q) @ filled q (Suc (rd_slot q) mod bn q) c)"
    unfolding ibq_bytes_def assms(2) c(1) option.case c(2) by (simp add: d_def)
  have "drop d (chunk q (rd_slot q)) = take (buf_top q - p) (drop p (buffers q))"
    unfolding c(6) drop_take drop_drop d(3) unfolding d(1) by (simp add: add.commute)
  then show "ibq_bytes q = take (buf_top q - p) (drop p (buffers q)) @
      drop (size_of q (rd_slot q)) (filled q (rd_slot q) (unat (bcounter q)))"
    unfolding b c(1,2) using c(3) d(2) by simp
qed

subsection \<open>Reading\<close>

context quiet_callback
begin

lemma quiet_input [simp]: "ibq_inv (notify q) = ibq_inv q" "ibq_bytes (notify q) = ibq_bytes q"
  by (simp_all add: ibq_inv_def ibq_bytes_def split: option.splits)

lemma released:
  assumes "ibq_inv q" and "bcounter q \<noteq> 0"
  shows "ibq_inv (ibqReleaseEmptyBufferS notify q)"
    and "ibq_bytes (ibqReleaseEmptyBufferS notify q) =
      drop (size_of q (rd_slot q)) (filled q (rd_slot q) (unat (bcounter q)))"
    and "unat (bcounter (ibqReleaseEmptyBufferS notify q)) = unat (bcounter q) - 1"
    and "buf_ptr (ibqReleaseEmptyBufferS notify q) = None"
proof -
  obtain c where c: "unat (bcounter q) = Suc c" "geometry q (rd_slot q) (Suc c)"
    "filled q (rd_slot q) (Suc c) = chunk q (rd_slot q) @ filled q (Suc (rd_slot q) mod bn q) c"
    "length (chunk q (rd_slot q)) = size_of q (rd_slot q)"
    by (rule ibq_front[OF assms]) blast
  obtain r where r: "r = q\<lparr>bcounter := bcounter q - 1, brdptr := next_buffer q (brdptr q), buf_ptr := None\<rparr>"
    by blast
  have rel: "ibqReleaseEmptyBufferS notify q = notify r" by (simp add: ibqReleaseEmptyBufferS_def r)
  have n: "unat (bcounter q - 1) = c" using unat_dec[OF assms(2)] c(1) by simp
  note g = geometry_released(1)[OF c(2)]
  have slot: "rd_slot r = Suc (rd_slot q) mod bn q"
    using geometry_bounds(4)[OF g] by (simp add: rd_slot_def r)
  have "ibq_inv r" using g n slot by (simp add: ibq_inv_def r)
  moreover have "ibq_bytes r = filled q (Suc (rd_slot q) mod bn q) c"
    using n slot by (simp add: ibq_bytes_def r)
  ultimately show "ibq_inv (ibqReleaseEmptyBufferS notify q)"
    "ibq_bytes (ibqReleaseEmptyBufferS notify q) =
      drop (size_of q (rd_slot q)) (filled q (rd_slot q) (unat (bcounter q)))"
    "unat (bcounter (ibqReleaseEmptyBufferS notify q)) = unat (bcounter q) - 1"
    "buf_ptr (ibqReleaseEmptyBufferS notify q) = None"
    using c n by (simp_all add: rel r)
qed

end

text \<open>
  What the hardware's side needs of the queue, whatever the reader's side does: it does not
  depend on the reader's current buffer, and the callback restores it after a release.
\<close>

locale linked_input = quiet_callback notify for notify :: "'a bq_scheme \<Rightarrow> 'a bq_scheme" +
  fixes link :: "'a bq_scheme \<Rightarrow> bool"
  assumes link_current: "link (q\<lparr>buf_ptr := p\<rparr>) = link q" "link (q\<lparr>buf_top := t\<rparr>) = link q"
    and link_release: "link q \<Longrightarrow> ibq_inv q \<Longrightarrow> bcounter q \<noteq> 0 \<Longrightarrow> link (ibqReleaseEmptyBufferS notify q)"
begin

text \<open>One piece copied: the front of the stream, with progress towards its end.\<close>

lemma moved:
  assumes "ibq_inv q" and "buf_ptr q = Some p" and "0 < n"
  shows "\<exists>k q'. ibq_move notify n q = Some (take k (ibq_bytes q), q') \<and> ibq_inv q' \<and>
    ibq_bytes q' = drop k (ibq_bytes q) \<and> k \<le> n \<and> k \<le> length (ibq_bytes q) \<and>
    length (ibq_bytes q') + unat (bcounter q') < length (ibq_bytes q) + unat (bcounter q) \<and> (link q \<longrightarrow> link q')"
proof -
  note C = ibq_current_bytes[OF assms(1,2)]
  let ?rest = "drop (size_of q (rd_slot q)) (filled q (rd_slot q) (unat (bcounter q)))"
  obtain k where k: "k = chunk_size p (buf_top q) n" by blast
  have km: "k = min 64 (min n (buf_top q - p))" unfolding k by (rule piece_eq[OF C(2,4)])
  have le: "k \<le> n" "k \<le> buf_top q - p" "p + k \<le> buf_top q" using km C(2) by auto
  have len: "length (take (buf_top q - p) (drop p (buffers q))) = buf_top q - p" using C(2,3) by simp
  have b: "take k (drop p (buffers q)) = take k (ibq_bytes q)" "k \<le> length (ibq_bytes q)"
    using le(2) len unfolding C(1) by (simp_all add: min_absorb1)
  obtain q1 where q1: "q1 = q\<lparr>buf_ptr := Some (p + k)\<rparr>" by blast
  obtain q' where q': "q' = (if buf_top q1 \<le> p + k then ibqReleaseEmptyBufferS notify q1 else q1)" by blast
  have run: "ibq_move notify n q = Some (take k (ibq_bytes q), q')"
    using le(3) C(3) b(1) by (simp add: ibq_move_def assms(2) Let_def q' q1 flip: k)
  have i1: "ibq_inv q1" "bcounter q1 \<noteq> 0" "buf_ptr q1 = Some (p + k)" "buf_top q1 = buf_top q"
    using assms(1,2) le(3) by (auto simp: ibq_inv_def q1)
  have lk: "link q \<longrightarrow> link q'"
    using link_release[OF _ i1(1,2)] link_current(1)[of "Some (p + k)" q] by (simp add: q' flip: q1)
  have rest: "drop (size_of q1 (rd_slot q1)) (filled q1 (rd_slot q1) (unat (bcounter q1))) = ?rest"
    by (simp add: q1)
  have b1: "ibq_bytes q1 = drop k (ibq_bytes q)"
    unfolding ibq_current_bytes(1)[OF i1(1,3)] rest i1(4) C(1) using le(2,3) len
    by (simp add: q1 drop_take drop_drop add.commute diff_diff_left)
  show ?thesis
  proof (cases "buf_top q \<le> p + k")
    case True
    with le(2) C(2) have ke: "k = buf_top q - p" by linarith
    note R = released[OF i1(1,2)]
    have "ibq_bytes q' = drop k (ibq_bytes q)"
      using True i1(4) R(2) len unfolding q' rest C(1) by (simp add: ke append_eq_conv_conj[symmetric])
    moreover have "0 < unat (bcounter q)" using i1(2) by (simp add: q1 unat_gt_0)
    then have "unat (bcounter q') < unat (bcounter q)" using True i1(4) R(3) by (simp add: q' q1)
    ultimately show ?thesis
      using run R(1) True i1(4) le(1) b(2) lk by (intro exI[of _ k] exI[of _ q']) (simp add: q')
  next
    case False
    then have "0 < k" using km assms(3) by auto
    then show ?thesis
      using run False i1 b1 le(1) b(2) lk by (intro exI[of _ k] exI[of _ q']) (auto simp: q' q1)
  qed
qed

end

text \<open>A filled buffer taken up for reading: the stream stays as it is.\<close>

lemma acquired:
  assumes "ibq_inv q" and "bcounter q \<noteq> 0" and "buf_ptr q = None"
  shows "\<exists>q' p. ibqGetFullBufferTimeoutS timeout w q = Some (MSG_OK, w, q') \<and> ibq_inv q' \<and>
    buf_ptr q' = Some p \<and> ibq_bytes q' = ibq_bytes q \<and> bcounter q' = bcounter q \<and>
    (\<exists>t. q' = q\<lparr>buf_ptr := Some p, buf_top := t\<rparr>)"
proof -
  have f: "brdptr q + 4 + size_of q (rd_slot q) \<le> length (buffers q)"
    by (rule ibq_front[OF assms(1,2)]) blast
  have g: "geometry q (rd_slot q) (unat (bcounter q))" using assms(1) by (simp add: ibq_inv_def)
  obtain q' where q': "q' = q\<lparr>buf_ptr := Some (brdptr q + 4), buf_top := brdptr q + 4 + size_of q (rd_slot q)\<rparr>"
    by blast
  have "bsize q * rd_slot q = brdptr q" using g by (simp add: geometry_def)
  then have "ibq_acquire q = Some q'"
    using f by (simp add: ibq_acquire_def read_size_def sizeof_size_t_def size_of_def q')
  then have "ibqGetFullBufferTimeoutS timeout w q = Some (MSG_OK, w, q')"
    using assms(2) by (simp add: ibqGetFullBufferTimeoutS_def wait_ready ibqIsEmptyI_def bqSpaceI_def MSG_OK_def)
  moreover have "ibq_inv q'" "ibq_bytes q' = ibq_bytes q" "bcounter q' = bcounter q" "buf_ptr q' = Some (brdptr q + 4)"
    using g assms(2,3) by (simp_all add: q' ibq_inv_def ibq_bytes_def)
  ultimately show ?thesis using q' by blast
qed

lemma acquired_none:
  assumes "bcounter q = 0"
  shows "ibqGetFullBufferTimeoutS TIME_IMMEDIATE w q = Some (MSG_TIMEOUT, w, q)"
  using assms by (simp add: ibqGetFullBufferTimeoutS_def wait_immediate ibqIsEmptyI_def bqSpaceI_def
      MSG_TIMEOUT_def MSG_OK_def)

lemma empty_bytes: "bcounter q = 0 \<Longrightarrow> buf_ptr q = None \<Longrightarrow> ibq_bytes q = []"
  by (simp add: ibq_bytes_def filled_def)

text \<open>The read loop, for a queue that has the bytes or a call that does not wait.\<close>

context linked_input
begin

lemma read_round:
  assumes "ibq_inv q" and "0 < n" and "t = TIME_INFINITE \<or> t = TIME_IMMEDIATE"
    and "bcounter q \<noteq> 0"
  shows "\<exists>w' q1 p. transfer_buffer ibqGetFullBufferTimeoutS t deadline w q = Some (True, w', q1) \<and>
    ibq_inv q1 \<and> buf_ptr q1 = Some p \<and> ibq_bytes q1 = ibq_bytes q \<and> bcounter q1 = bcounter q \<and>
    link q1 = link q"
proof (cases "buf_ptr q")
  case None
  from acquired[OF assms(1,4) None, of t w] show ?thesis
    using assms(3) None link_current by (auto simp: transfer_buffer_def)
next
  case (Some p)
  then show ?thesis using assms(1) by (auto simp: transfer_buffer_def)
qed

lemma read_loop:
  assumes "ibq_inv q" and "0 < n - length bs"
    and "t = TIME_INFINITE \<and> n - length bs \<le> length (ibq_bytes q) \<or> t = TIME_IMMEDIATE"
  shows "\<exists>w' q'. loop_while (\<lambda>(_, stop, _, _). \<not> stop) (ibq_read_body notify n t deadline) (bs, False, w, q) =
      Some (bs @ take (n - length bs) (ibq_bytes q), True, w', q') \<and>
    ibq_inv q' \<and> ibq_bytes q' = drop (n - length bs) (ibq_bytes q) \<and> (link q \<longrightarrow> link q')"
  using assms
proof (induction "length (ibq_bytes q) + unat (bcounter q)" arbitrary: bs w q rule: less_induct)
  case less
  let ?m = "n - length bs"
  have t: "t = TIME_INFINITE \<or> t = TIME_IMMEDIATE" using less.prems(3) by blast
  show ?case
  proof (cases "bcounter q = 0")
    case True
    then have none: "buf_ptr q = None" using less.prems(1) by (auto simp: ibq_inv_def split: option.splits)
    then have e: "ibq_bytes q = []" using True by (intro empty_bytes)
    with less.prems(2,3) have "t = TIME_IMMEDIATE" by auto
    then have "ibq_read_body notify n t deadline (bs, False, w, q) = Some (bs, True, w, q)"
      using True none by (simp add: ibq_read_body_def transfer_buffer_def acquired_none MSG_TIMEOUT_def MSG_OK_def)
    then show ?thesis using less.prems(1) e
      by (intro exI[of _ w] exI[of _ q]) (subst loop_while.simps, simp add: loop_while.simps)
  next
    case False
    obtain w1 q1 p where r: "transfer_buffer ibqGetFullBufferTimeoutS t deadline w q = Some (True, w1, q1)"
      "ibq_inv q1" "buf_ptr q1 = Some p" "ibq_bytes q1 = ibq_bytes q" "bcounter q1 = bcounter q"
      "link q1 = link q"
      using read_round[OF less.prems(1,2) t False, of deadline w] by blast
    obtain k q2 where m: "ibq_move notify ?m q1 = Some (take k (ibq_bytes q), q2)" "ibq_inv q2"
      "ibq_bytes q2 = drop k (ibq_bytes q)" "k \<le> ?m" "k \<le> length (ibq_bytes q)"
      "length (ibq_bytes q2) + unat (bcounter q2) < length (ibq_bytes q) + unat (bcounter q)" "link q \<longrightarrow> link q2"
      using moved[OF r(2,3) less.prems(2)] unfolding r(4,5,6) by blast
    obtain cs where cs: "cs = bs @ take k (ibq_bytes q)" by blast
    have l: "length cs = length bs + k" using m(5) by (simp add: cs)
    have body: "ibq_read_body notify n t deadline (bs, False, w, q) = Some (cs, n \<le> length cs, w1, q2)"
      by (simp add: ibq_read_body_def r(1) m(1) cs)
    note step = loop_step[of _ "(bs, False, w, q)" "ibq_read_body notify n t deadline", OF _ body]
    show ?thesis
    proof (cases "n \<le> length cs")
      case True
      then have "k = ?m" using m(4) l by linarith
      then show ?thesis using body True m(2,3,7)
        by (intro exI[of _ w1] exI[of _ q2]) (simp add: step loop_stop, simp add: cs)
    next
      case False
      have "0 < n - length cs" "t = TIME_INFINITE \<and> n - length cs \<le> length (ibq_bytes q2) \<or> t = TIME_IMMEDIATE"
        using False less.prems(3) m(3) l by auto
      from less.hyps[OF m(6) m(2) this, of w1] obtain w' q' where h:
        "loop_while (\<lambda>(_, stop, _, _). \<not> stop) (ibq_read_body notify n t deadline) (cs, False, w1, q2) =
           Some (cs @ take (n - length cs) (ibq_bytes q2), True, w', q')"
        "ibq_inv q'" "ibq_bytes q' = drop (n - length cs) (ibq_bytes q2)" "link q2 \<longrightarrow> link q'" by blast
      have "?m = k + (n - length cs)" using False l by linarith
      then have "cs @ take (n - length cs) (ibq_bytes q2) = bs @ take ?m (ibq_bytes q)"
        "drop (n - length cs) (ibq_bytes q2) = drop ?m (ibq_bytes q)"
        by (simp_all add: cs m(3) take_add add.commute)
      then show ?thesis using h m(7) body False
        by (intro exI[of _ w'] exI[of _ q']) (simp add: step)
    qed
  qed
qed

lemma reads_stream:
  assumes "ibq_inv q" and "0 < n"
    and "t = TIME_INFINITE \<and> n \<le> length (ibq_bytes q) \<or> t = TIME_IMMEDIATE"
  shows "\<exists>w' q'. ibqReadTimeout notify n t w q = Some (take n (ibq_bytes q), w', q') \<and>
    ibq_inv q' \<and> ibq_bytes q' = drop n (ibq_bytes q) \<and> (link q \<longrightarrow> link q')"
proof -
  obtain t0 w1 where w1: "osalOsGetSystemTimeX w = (t0, w1)" by fastforce
  from read_loop[of q n "[]" t "t0 + t" w1] assms show ?thesis by (auto simp: ibqReadTimeout_def w1)
qed

end

end
