(* ===== verification/Usb_Lld.thy ===== *)
theory Usb_Lld
  imports Usb_Descriptors Io_Buffers "HOL-Library.Monad_Syntax"
begin

text \<open>
  The low-level USB driver of the STM32 (usb_lld.c, stm32_usb.h of USBv1): the endpoint
  registers, the packet memory, and the operations on endpoints. Writing to an endpoint
  register follows the register's description: the data toggles and the two status fields
  change where a one is written, the two transfer flags can only be cleared, the setup
  flag is read-only, and the rest takes the value written.

  A transfer's buffer is a place in one of the objects the firmware hands to the driver.
  Reading or filling beyond the object, except for the one byte that an odd number of bytes
  makes the driver read too much, using a null pointer and writing to a constant are None; so
  is an access outside the 512 bytes of the packet memory.
\<close>

subsection \<open>The driver's state\<close>

datatype usbepstatus = EP_STATUS_DISABLED | EP_STATUS_STALLED | EP_STATUS_ACTIVE

datatype usbep0state =
  USB_EP0_WAITING_SETUP | USB_EP0_TX | USB_EP0_WAITING_TX0 | USB_EP0_WAITING_STS
  | USB_EP0_RX | USB_EP0_SENDING_STS | USB_EP0_ERROR

datatype mem =
  Mem_Null | Mem_Const "u8 list" | Mem_Setup | Mem_Status | Mem_Configuration | Mem_Linecoding
  | Mem_Ib | Mem_Ob

text \<open>
  A transfer of an endpoint. In the driver the state of a transmission and of a reception
  have the same layout, and those of endpoint 0 are one object; a reception keeps its number
  of packets in the low half of the last word.
\<close>

record xfer =
  xsize :: u32
  xcnt :: u32
  xbuf :: "mem \<times> nat"
  xlast :: u32

datatype sdustate = SDU_UNINIT | SDU_STOP | SDU_READY

record usbd =
  drv_state :: usbstate
  transmitting :: u16
  receiving :: u16
  epc :: "nat \<Rightarrow> USBEndpointConfig option"
  in_params :: "nat \<Rightarrow> bool"
  out_params :: "nat \<Rightarrow> bool"
  ep0state :: usbep0state
  ep0next :: "mem \<times> nat"
  ep0n :: u32
  ep0endcb :: bool
  setup_packet :: "u8 list"
  status :: u16
  address :: u8
  configuration :: u8
  pmnext :: u32
  xfers :: "nat \<Rightarrow> xfer"
  epr :: "nat \<Rightarrow> u16"
  pma :: "u16 list"
  usb_clock :: bool
  usb_vectors :: bool
  fnr :: u16
  cntr :: u16
  istr :: u16
  daddr :: u16
  linecoding :: "u8 list"
  stray :: u8
  sdu_state :: sdustate
  sdu_flags :: u32
  ibqueue :: bq
  obqueue :: bq

definition USB_MAX_ENDPOINTS :: nat where "USB_MAX_ENDPOINTS = 7"
definition STM32_USB_PMA_SIZE :: nat where "STM32_USB_PMA_SIZE = 512"

definition in_slot :: "nat \<Rightarrow> nat" where "in_slot ep = (if ep = 0 then 0 else 2 * ep)"
definition out_slot :: "nat \<Rightarrow> nat" where "out_slot ep = (if ep = 0 then 0 else 2 * ep + 1)"

definition zero_xfer :: xfer where
  "zero_xfer = \<lparr>xsize = 0, xcnt = 0, xbuf = (Mem_Null, 0), xlast = 0\<rparr>"

definition rxpkts :: "xfer \<Rightarrow> u16" where "rxpkts x = ucast (xlast x)"

definition set_rxpkts :: "u16 \<Rightarrow> xfer \<Rightarrow> xfer" where
  "set_rxpkts n x = x\<lparr>xlast := (xlast x AND 0xFFFF0000) OR ucast n\<rparr>"

definition set_xfer :: "nat \<Rightarrow> (xfer \<Rightarrow> xfer) \<Rightarrow> usbd \<Rightarrow> usbd" where
  "set_xfer i f d = d\<lparr>xfers := (xfers d)(i := f (xfers d i))\<rparr>"

text \<open>The endpoint's state structures, None for a null pointer.\<close>

definition in_state :: "nat \<Rightarrow> USBEndpointConfig \<Rightarrow> nat option" where
  "in_state ep c = (if has_in_state c then Some (in_slot ep) else None)"

definition out_state :: "nat \<Rightarrow> USBEndpointConfig \<Rightarrow> nat option" where
  "out_state ep c = (if has_out_state c then Some (out_slot ep) else None)"

subsection \<open>Memory\<close>

primrec contents :: "mem \<Rightarrow> usbd \<Rightarrow> u8 list" where
  "contents Mem_Null d = []"
| "contents (Mem_Const bs) d = bs"
| "contents Mem_Setup d = setup_packet d"
| "contents Mem_Status d = u16_bytes (status d)"
| "contents Mem_Configuration d = [configuration d]"
| "contents Mem_Linecoding d = linecoding d"
| "contents Mem_Ib d = buffers (ibqueue d)"
| "contents Mem_Ob d = buffers (obqueue d)"

definition fetch :: "mem \<times> nat \<Rightarrow> nat \<Rightarrow> usbd \<Rightarrow> u8 list option" where
  "fetch p n d =
     (let bs = drop (snd p) (contents (fst p) d @ [stray d])
      in if length bs < n then None else Some (take n bs))"

definition store_at :: "mem \<times> nat \<Rightarrow> u8 list \<Rightarrow> usbd \<Rightarrow> usbd option" where
  "store_at p bs d =
     (if bs = [] then Some d
      else if length (contents (fst p) d) < snd p + length bs then None
      else case fst p of
          Mem_Setup \<Rightarrow> Some (d\<lparr>setup_packet := put_bytes (snd p) bs (setup_packet d)\<rparr>)
        | Mem_Status \<Rightarrow> Some (d\<lparr>status := get_u16 0 (put_bytes (snd p) bs (u16_bytes (status d)))\<rparr>)
        | Mem_Configuration \<Rightarrow> Some (d\<lparr>configuration := hd bs\<rparr>)
        | Mem_Linecoding \<Rightarrow> Some (d\<lparr>linecoding := put_bytes (snd p) bs (linecoding d)\<rparr>)
        | Mem_Ib \<Rightarrow> Some (d\<lparr>ibqueue := (ibqueue d)\<lparr>buffers := put_bytes (snd p) bs (buffers (ibqueue d))\<rparr>\<rparr>)
        | Mem_Ob \<Rightarrow> Some (d\<lparr>obqueue := (obqueue d)\<lparr>buffers := put_bytes (snd p) bs (buffers (obqueue d))\<rparr>\<rparr>)
        | _ \<Rightarrow> None)"

definition pma_get :: "nat \<Rightarrow> usbd \<Rightarrow> u16 option" where
  "pma_get i d = (if i < length (pma d) then Some (pma d ! i) else None)"

definition pma_put :: "nat \<Rightarrow> u16 \<Rightarrow> usbd \<Rightarrow> usbd option" where
  "pma_put i v d = (if i < length (pma d) then Some (d\<lparr>pma := (pma d)[i := v]\<rparr>) else None)"

text \<open>The endpoint's descriptor in the packet memory, and the place of an address in it.\<close>

definition TXADDR0 :: "nat \<Rightarrow> nat" where "TXADDR0 ep = 4 * ep"
definition TXCOUNT0 :: "nat \<Rightarrow> nat" where "TXCOUNT0 ep = 4 * ep + 1"
definition RXADDR0 :: "nat \<Rightarrow> nat" where "RXADDR0 ep = 4 * ep + 2"
definition RXCOUNT0 :: "nat \<Rightarrow> nat" where "RXCOUNT0 ep = 4 * ep + 3"

definition USB_ADDR2PTR :: "u16 \<Rightarrow> nat" where "USB_ADDR2PTR a = unat a div 2"

subsection \<open>The endpoint registers\<close>

definition EPR_STAT_TX_MASK :: u16 where "EPR_STAT_TX_MASK = 0x0030"
definition EPR_STAT_TX_DIS :: u16 where "EPR_STAT_TX_DIS = 0x0000"
definition EPR_STAT_TX_STALL :: u16 where "EPR_STAT_TX_STALL = 0x0010"
definition EPR_STAT_TX_NAK :: u16 where "EPR_STAT_TX_NAK = 0x0020"
definition EPR_STAT_TX_VALID :: u16 where "EPR_STAT_TX_VALID = 0x0030"
definition EPR_DTOG_TX :: u16 where "EPR_DTOG_TX = 0x0040"
definition EPR_CTR_TX :: u16 where "EPR_CTR_TX = 0x0080"
definition EPR_EP_TYPE_BULK :: u16 where "EPR_EP_TYPE_BULK = 0x0000"
definition EPR_EP_TYPE_CONTROL :: u16 where "EPR_EP_TYPE_CONTROL = 0x0200"
definition EPR_EP_TYPE_INTERRUPT :: u16 where "EPR_EP_TYPE_INTERRUPT = 0x0600"
definition EPR_SETUP :: u16 where "EPR_SETUP = 0x0800"
definition EPR_STAT_RX_MASK :: u16 where "EPR_STAT_RX_MASK = 0x3000"
definition EPR_STAT_RX_DIS :: u16 where "EPR_STAT_RX_DIS = 0x0000"
definition EPR_STAT_RX_STALL :: u16 where "EPR_STAT_RX_STALL = 0x1000"
definition EPR_STAT_RX_NAK :: u16 where "EPR_STAT_RX_NAK = 0x2000"
definition EPR_STAT_RX_VALID :: u16 where "EPR_STAT_RX_VALID = 0x3000"
definition EPR_DTOG_RX :: u16 where "EPR_DTOG_RX = 0x4000"
definition EPR_CTR_RX :: u16 where "EPR_CTR_RX = 0x8000"
definition EPR_CTR_MASK :: u16 where "EPR_CTR_MASK = EPR_CTR_TX OR EPR_CTR_RX"

definition EPR_TOGGLE_MASK :: u16 where
  "EPR_TOGGLE_MASK = EPR_STAT_TX_MASK OR EPR_DTOG_TX OR EPR_STAT_RX_MASK OR EPR_DTOG_RX OR EPR_SETUP"

lemmas epr_bits = EPR_STAT_TX_MASK_def EPR_STAT_TX_DIS_def EPR_STAT_TX_STALL_def EPR_STAT_TX_NAK_def
  EPR_STAT_TX_VALID_def EPR_DTOG_TX_def EPR_CTR_TX_def EPR_EP_TYPE_BULK_def EPR_EP_TYPE_CONTROL_def
  EPR_EP_TYPE_INTERRUPT_def EPR_SETUP_def EPR_STAT_RX_MASK_def EPR_STAT_RX_DIS_def EPR_STAT_RX_STALL_def
  EPR_STAT_RX_NAK_def EPR_STAT_RX_VALID_def EPR_DTOG_RX_def EPR_CTR_RX_def EPR_CTR_MASK_def EPR_TOGGLE_MASK_def

definition epr_next :: "u16 \<Rightarrow> u16 \<Rightarrow> u16" where
  "epr_next old v = ((old XOR v) AND 0x7070) OR (v AND 0x070F) OR (old AND v AND 0x8080) OR (old AND 0x0800)"

definition epr_store :: "nat \<Rightarrow> u16 \<Rightarrow> usbd \<Rightarrow> usbd" where
  "epr_store ep v d = d\<lparr>epr := (epr d)(ep := epr_next (epr d ep) v)\<rparr>"

definition EPR_SET :: "nat \<Rightarrow> u16 \<Rightarrow> usbd \<Rightarrow> usbd" where
  "EPR_SET ep e d = epr_store ep ((e AND NOT EPR_TOGGLE_MASK) OR EPR_CTR_MASK) d"

definition EPR_TOGGLE :: "nat \<Rightarrow> u16 \<Rightarrow> usbd \<Rightarrow> usbd" where
  "EPR_TOGGLE ep e d = epr_store ep ((epr d ep XOR (e AND EPR_TOGGLE_MASK)) OR EPR_CTR_MASK) d"

definition EPR_SET_STAT_RX :: "nat \<Rightarrow> u16 \<Rightarrow> usbd \<Rightarrow> usbd" where
  "EPR_SET_STAT_RX ep e d =
     epr_store ep (((epr d ep AND NOT (EPR_TOGGLE_MASK AND NOT EPR_STAT_RX_MASK)) XOR e) OR EPR_CTR_MASK) d"

definition EPR_SET_STAT_TX :: "nat \<Rightarrow> u16 \<Rightarrow> usbd \<Rightarrow> usbd" where
  "EPR_SET_STAT_TX ep e d =
     epr_store ep (((epr d ep AND NOT (EPR_TOGGLE_MASK AND NOT EPR_STAT_TX_MASK)) XOR e) OR EPR_CTR_MASK) d"

definition EPR_CLEAR_CTR_RX :: "nat \<Rightarrow> usbd \<Rightarrow> usbd" where
  "EPR_CLEAR_CTR_RX ep d =
     epr_store ep ((epr d ep AND NOT EPR_CTR_RX AND NOT EPR_TOGGLE_MASK) OR EPR_CTR_TX) d"

definition EPR_CLEAR_CTR_TX :: "nat \<Rightarrow> usbd \<Rightarrow> usbd" where
  "EPR_CLEAR_CTR_TX ep d =
     epr_store ep ((epr d ep AND NOT EPR_CTR_TX AND NOT EPR_TOGGLE_MASK) OR EPR_CTR_RX) d"

subsection \<open>The packet memory\<close>

definition usb_pm_reset :: "usbd \<Rightarrow> usbd" where
  "usb_pm_reset d = d\<lparr>pmnext := 64\<rparr>"

definition usb_pm_alloc :: "u32 \<Rightarrow> usbd \<Rightarrow> u32 \<times> usbd" where
  "usb_pm_alloc n d = (pmnext d, d\<lparr>pmnext := pmnext d + ((n + 1) AND NOT 1)\<rparr>)"

text \<open>The copying loops: half-words out of the packet memory, and into it.\<close>

fun pma_load :: "nat \<Rightarrow> nat \<Rightarrow> u16 list \<Rightarrow> u8 list option" where
  "pma_load i n m =
     (if n = 0 then Some []
      else if length m \<le> i then None
      else if n = 1 then Some [lo8 (m ! i)]
      else map_option (\<lambda>bs. lo8 (m ! i) # hi8 (m ! i) # bs) (pma_load (Suc i) (n - 2) m))"

declare pma_load.simps [simp del]

fun pma_fill :: "nat \<Rightarrow> u8 list \<Rightarrow> u16 list \<Rightarrow> u16 list option" where
  "pma_fill i (l # h # bs) m = (if length m \<le> i then None else pma_fill (Suc i) bs (m[i := be16 h l]))"
| "pma_fill i _ m = Some m"

definition usb_packet_read_to_buffer :: "nat \<Rightarrow> mem \<times> nat \<Rightarrow> usbd \<Rightarrow> (nat \<times> usbd) option" where
  "usb_packet_read_to_buffer ep p d = do {
     a \<leftarrow> pma_get (RXADDR0 ep) d;
     c \<leftarrow> pma_get (RXCOUNT0 ep) d;
     let n = unat (c AND 0x03FF);
     bs \<leftarrow> pma_load (USB_ADDR2PTR a) n (pma d);
     d1 \<leftarrow> store_at p bs d;
     Some (n, d1) }"

definition usb_packet_write_from_buffer :: "nat \<Rightarrow> mem \<times> nat \<Rightarrow> nat \<Rightarrow> usbd \<Rightarrow> usbd option" where
  "usb_packet_write_from_buffer ep p n d = do {
     a \<leftarrow> pma_get (TXADDR0 ep) d;
     d1 \<leftarrow> pma_put (TXCOUNT0 ep) (of_nat n) d;
     bs \<leftarrow> fetch p (n + n mod 2) d1;
     m \<leftarrow> pma_fill (USB_ADDR2PTR a) bs (pma d1);
     Some (d1\<lparr>pma := m\<rparr>) }"

subsection \<open>Operations on endpoints\<close>

definition ep0config :: USBEndpointConfig where
  "ep0config = \<lparr>ep_mode = USB_EP_MODE_TYPE_CTRL, setup_cb = Some Ep0_Setup, in_cb = Some Ep0_In,
     out_cb = Some Ep0_Out, in_maxsize = 0x40, out_maxsize = 0x40,
     has_in_state = True, has_out_state = True, ep_buffers = 1\<rparr>"

definition ep_type :: "ep_mode \<Rightarrow> u16" where
  "ep_type m = (case m of USB_EP_MODE_TYPE_ISOC \<Rightarrow> EPR_EP_TYPE_BULK
     | USB_EP_MODE_TYPE_BULK \<Rightarrow> EPR_EP_TYPE_BULK
     | USB_EP_MODE_TYPE_INTR \<Rightarrow> EPR_EP_TYPE_INTERRUPT
     | USB_EP_MODE_TYPE_CTRL \<Rightarrow> EPR_EP_TYPE_CONTROL)"

definition rx_blocks :: "u16 \<Rightarrow> u16" where
  "rx_blocks sz =
     (let w = ucast sz :: u32
      in if 62 < w then ucast (push_bit 10 (drop_bit 5 (((w - 1) OR 0x1F) + 1)) OR 0x8000)
         else ucast (push_bit 10 (drop_bit 1 (((w - 1) OR 1) + 1))))"

definition init_in :: "nat \<Rightarrow> USBEndpointConfig \<Rightarrow> usbd \<Rightarrow> usbd option" where
  "init_in ep c d =
     (if has_in_state c then do {
        d1 \<leftarrow> pma_put (TXCOUNT0 ep) 0 d;
        let (a, d2) = usb_pm_alloc (ucast (in_maxsize c)) d1;
        pma_put (TXADDR0 ep) (ucast a) d2 }
      else Some d)"

definition init_out :: "nat \<Rightarrow> USBEndpointConfig \<Rightarrow> usbd \<Rightarrow> usbd option" where
  "init_out ep c d =
     (if has_out_state c then do {
        d1 \<leftarrow> pma_put (RXCOUNT0 ep) (rx_blocks (out_maxsize c)) d;
        let (a, d2) = usb_pm_alloc (ucast (out_maxsize c)) d1;
        pma_put (RXADDR0 ep) (ucast a) d2 }
      else Some d)"

definition usb_lld_init_endpoint :: "nat \<Rightarrow> usbd \<Rightarrow> usbd option" where
  "usb_lld_init_endpoint ep d = do {
     c \<leftarrow> epc d ep;
     d1 \<leftarrow> init_in ep c d;
     d2 \<leftarrow> init_out ep c d1;
     let e = ep_type (ep_mode c) OR (if has_in_state c then EPR_STAT_TX_NAK else 0)
               OR (if has_out_state c then EPR_STAT_RX_NAK else 0);
     Some (EPR_TOGGLE ep e (EPR_SET ep (e OR of_nat ep) d2)) }"

definition usb_lld_disable_endpoints :: "usbd \<Rightarrow> usbd" where
  "usb_lld_disable_endpoints d =
     fold (\<lambda>i d. EPR_SET i 0 (EPR_TOGGLE i 0 d)) [1..<8] (usb_pm_reset d)"

definition usb_lld_set_address :: "usbd \<Rightarrow> usbd" where
  "usb_lld_set_address d = d\<lparr>daddr := ucast (address d) OR 0x0080\<rparr>"

definition usb_lld_get_status_out :: "nat \<Rightarrow> usbd \<Rightarrow> usbepstatus" where
  "usb_lld_get_status_out ep d =
     (let s = epr d ep AND EPR_STAT_RX_MASK
      in if s = EPR_STAT_RX_DIS then EP_STATUS_DISABLED
         else if s = EPR_STAT_RX_STALL then EP_STATUS_STALLED else EP_STATUS_ACTIVE)"

definition usb_lld_get_status_in :: "nat \<Rightarrow> usbd \<Rightarrow> usbepstatus" where
  "usb_lld_get_status_in ep d =
     (let s = epr d ep AND EPR_STAT_TX_MASK
      in if s = EPR_STAT_TX_DIS then EP_STATUS_DISABLED
         else if s = EPR_STAT_TX_STALL then EP_STATUS_STALLED else EP_STATUS_ACTIVE)"

definition usb_lld_read_setup :: "nat \<Rightarrow> usbd \<Rightarrow> usbd option" where
  "usb_lld_read_setup ep d = do {
     a \<leftarrow> pma_get (RXADDR0 ep) d;
     bs \<leftarrow> pma_load (USB_ADDR2PTR a) 8 (pma d);
     Some (d\<lparr>setup_packet := bs\<rparr>) }"

definition usb_lld_start_out :: "nat \<Rightarrow> usbd \<Rightarrow> usbd option" where
  "usb_lld_start_out ep d = do {
     c \<leftarrow> epc d ep;
     i \<leftarrow> out_state ep c;
     let x = xfers d i;
     n \<leftarrow> if xsize x = 0 then Some 1
       else if out_maxsize c = 0 then None
       else Some (ucast ((xsize x + ucast (out_maxsize c) - 1) div ucast (out_maxsize c)));
     Some (EPR_SET_STAT_RX ep EPR_STAT_RX_VALID (set_xfer i (set_rxpkts n) d)) }"

definition usb_lld_start_in :: "nat \<Rightarrow> usbd \<Rightarrow> usbd option" where
  "usb_lld_start_in ep d = do {
     c \<leftarrow> epc d ep;
     i \<leftarrow> in_state ep c;
     let x = xfers d i;
     let n = (if ucast (in_maxsize c) < xsize x then ucast (in_maxsize c) else xsize x);
     d1 \<leftarrow> usb_packet_write_from_buffer ep (xbuf x) (unat n) (set_xfer i (xlast_update (\<lambda>_. n)) d);
     Some (EPR_SET_STAT_TX ep EPR_STAT_TX_VALID d1) }"

definition usb_lld_stall_out :: "nat \<Rightarrow> usbd \<Rightarrow> usbd" where
  "usb_lld_stall_out ep d = EPR_SET_STAT_RX ep EPR_STAT_RX_STALL d"

definition usb_lld_stall_in :: "nat \<Rightarrow> usbd \<Rightarrow> usbd" where
  "usb_lld_stall_in ep d = EPR_SET_STAT_TX ep EPR_STAT_TX_STALL d"

definition usb_lld_clear_out :: "nat \<Rightarrow> usbd \<Rightarrow> usbd" where
  "usb_lld_clear_out ep d =
     (if epr d ep AND EPR_STAT_RX_MASK \<noteq> EPR_STAT_RX_VALID then EPR_SET_STAT_TX ep EPR_STAT_RX_NAK d else d)"

definition usb_lld_clear_in :: "nat \<Rightarrow> usbd \<Rightarrow> usbd" where
  "usb_lld_clear_in ep d =
     (if epr d ep AND EPR_STAT_TX_MASK \<noteq> EPR_STAT_TX_VALID then EPR_SET_STAT_TX ep EPR_STAT_TX_NAK d else d)"

end
