(* ===== verification/Usb_Core.thy ===== *)
theory Usb_Core
  imports Usb_Lld
begin

text \<open>
  The USB core (usb.c): the driver's life cycle, transactions on endpoints, the standard
  requests, and the state machine of the control endpoint; and the interrupt handler of the
  low-level driver (usb_lld.c), which calls back into it. The functions of a configuration
  (USBConfig) are a record of functions; it is set before the interrupts are switched on
  and never taken back. The functions that an endpoint names are run by an argument.
\<close>

record usb_config =
  event_cb :: "(usbevent \<Rightarrow> usbd \<Rightarrow> usbd option) option"
  get_descriptor_cb :: "u8 \<Rightarrow> u8 \<Rightarrow> u16 \<Rightarrow> u8 list option"
  requests_hook_cb :: "(usbd \<Rightarrow> bool \<times> usbd) option"
  sof_cb :: "(usbd \<Rightarrow> usbd option) option"

definition usb_isr_invoke_event_cb :: "usb_config \<Rightarrow> usbevent \<Rightarrow> usbd \<Rightarrow> usbd option" where
  "usb_isr_invoke_event_cb cfg e d = (case event_cb cfg of None \<Rightarrow> Some d | Some f \<Rightarrow> f e d)"

definition ep_bit :: "nat \<Rightarrow> u16" where "ep_bit ep = push_bit ep 1"

definition usbGetTransmitStatusI :: "usbd \<Rightarrow> nat \<Rightarrow> bool" where
  "usbGetTransmitStatusI d ep \<longleftrightarrow> transmitting d AND ep_bit ep \<noteq> 0"

definition usbGetReceiveStatusI :: "usbd \<Rightarrow> nat \<Rightarrow> bool" where
  "usbGetReceiveStatusI d ep \<longleftrightarrow> receiving d AND ep_bit ep \<noteq> 0"

definition usbSetupTransfer :: "mem \<times> nat \<Rightarrow> u32 \<Rightarrow> bool \<Rightarrow> usbd \<Rightarrow> usbd" where
  "usbSetupTransfer p n endcb d = d\<lparr>ep0next := p, ep0n := n, ep0endcb := endcb\<rparr>"

subsection \<open>Life cycle\<close>

definition usbObjectInit :: "usbd \<Rightarrow> usbd" where
  "usbObjectInit d =
     d\<lparr>drv_state := USB_STOP,
       in_params := (\<lambda>i. if i < USB_MAX_ENDPOINTS then False else in_params d i),
       out_params := (\<lambda>i. if i < USB_MAX_ENDPOINTS then False else out_params d i),
       transmitting := 0, receiving := 0\<rparr>"

definition usb_lld_reset :: "usb_config \<Rightarrow> usbd \<Rightarrow> usbd option" where
  "usb_lld_reset cfg d =
     (let d1 = d\<lparr>istr := 0, daddr := 0x0080,
                 cntr := 0x9C00 OR (if sof_cb cfg \<noteq> None then 0x0200 else 0)\<rparr>;
          d2 = usb_pm_reset d1
      in usb_lld_init_endpoint 0 (d2\<lparr>epc := (epc d2)(0 := Some ep0config)\<rparr>))"

definition clear_endpoints :: "nat \<Rightarrow> usbd \<Rightarrow> usbd" where
  "clear_endpoints from d =
     d\<lparr>epc := (\<lambda>i. if from \<le> i \<and> i \<le> USB_MAX_ENDPOINTS then None else epc d i)\<rparr>"

definition usb_reset :: "usb_config \<Rightarrow> usbd \<Rightarrow> usbd option" where
  "usb_reset cfg d = do {
     let d1 = d\<lparr>drv_state := USB_READY, status := 0, address := 0, configuration := 0,
                transmitting := 0, receiving := 0\<rparr>;
     let d2 = (clear_endpoints 0 d1)\<lparr>ep0state := USB_EP0_WAITING_SETUP\<rparr>;
     d3 \<leftarrow> usb_lld_reset cfg d2;
     usb_isr_invoke_event_cb cfg USB_EVENT_RESET d3 }"

definition usb_suspend :: "usb_config \<Rightarrow> usbd \<Rightarrow> usbd option" where
  "usb_suspend cfg d = usb_isr_invoke_event_cb cfg USB_EVENT_SUSPEND (d\<lparr>drv_state := USB_SUSPENDED\<rparr>)"

definition usb_wakeup :: "usb_config \<Rightarrow> usbd \<Rightarrow> usbd option" where
  "usb_wakeup cfg d = usb_isr_invoke_event_cb cfg USB_EVENT_WAKEUP (d\<lparr>drv_state := USB_ACTIVE\<rparr>)"

definition usb_lld_start :: "usb_config \<Rightarrow> usbd \<Rightarrow> usbd option" where
  "usb_lld_start cfg d =
     (if drv_state d = USB_STOP
      then usb_reset cfg (d\<lparr>usb_clock := True, usb_vectors := True, cntr := 0\<rparr>) else Some d)"

definition usb_lld_stop :: "usbd \<Rightarrow> usbd" where
  "usb_lld_stop d =
     (if drv_state d = USB_STOP then d\<lparr>usb_vectors := False, cntr := 0x0003, usb_clock := False\<rparr> else d)"

definition usbStart :: "usb_config \<Rightarrow> usbd \<Rightarrow> usbd option" where
  "usbStart cfg d =
     map_option (drv_state_update (\<lambda>_. USB_READY)) (usb_lld_start cfg (clear_endpoints 0 d))"

definition usbStop :: "usbd \<Rightarrow> usbd" where
  "usbStop d = clear_endpoints 0 ((usb_lld_stop d)\<lparr>drv_state := USB_STOP\<rparr>)"

subsection \<open>Endpoints and transactions\<close>

definition clear_xfer :: "nat option \<Rightarrow> usbd \<Rightarrow> usbd" where
  "clear_xfer p d = (case p of None \<Rightarrow> d | Some i \<Rightarrow> set_xfer i (\<lambda>_. zero_xfer) d)"

definition usbInitEndpointI :: "nat \<Rightarrow> USBEndpointConfig \<Rightarrow> usbd \<Rightarrow> usbd option" where
  "usbInitEndpointI ep c d =
     usb_lld_init_endpoint ep
       (clear_xfer (out_state ep c) (clear_xfer (in_state ep c) (d\<lparr>epc := (epc d)(ep := Some c)\<rparr>)))"

definition usbDisableEndpointsI :: "usbd \<Rightarrow> usbd" where
  "usbDisableEndpointsI d =
     usb_lld_disable_endpoints
       (clear_endpoints 1 (d\<lparr>transmitting := transmitting d AND NOT 1, receiving := receiving d AND NOT 1\<rparr>))"

definition usbStartReceiveI :: "nat \<Rightarrow> mem \<times> nat \<Rightarrow> u32 \<Rightarrow> usbd \<Rightarrow> usbd option" where
  "usbStartReceiveI ep p n d = do {
     c \<leftarrow> epc d ep;
     i \<leftarrow> out_state ep c;
     usb_lld_start_out ep
       (set_xfer i (\<lambda>x. x\<lparr>xbuf := p, xsize := n, xcnt := 0\<rparr>) (d\<lparr>receiving := receiving d OR ep_bit ep\<rparr>)) }"

definition usbStartTransmitI :: "nat \<Rightarrow> mem \<times> nat \<Rightarrow> u32 \<Rightarrow> usbd \<Rightarrow> usbd option" where
  "usbStartTransmitI ep p n d = do {
     c \<leftarrow> epc d ep;
     i \<leftarrow> in_state ep c;
     usb_lld_start_in ep
       (set_xfer i (\<lambda>x. x\<lparr>xbuf := p, xsize := n, xcnt := 0\<rparr>) (d\<lparr>transmitting := transmitting d OR ep_bit ep\<rparr>)) }"

definition usbStallReceiveI :: "nat \<Rightarrow> usbd \<Rightarrow> bool \<times> usbd" where
  "usbStallReceiveI ep d = (if usbGetReceiveStatusI d ep then (True, d) else (False, usb_lld_stall_out ep d))"

definition usbStallTransmitI :: "nat \<Rightarrow> usbd \<Rightarrow> bool \<times> usbd" where
  "usbStallTransmitI ep d = (if usbGetTransmitStatusI d ep then (True, d) else (False, usb_lld_stall_in ep d))"

definition usbGetReceiveTransactionSizeX :: "nat \<Rightarrow> usbd \<Rightarrow> u32 option" where
  "usbGetReceiveTransactionSizeX ep d = do {
     c \<leftarrow> epc d ep;
     i \<leftarrow> out_state ep c;
     Some (xcnt (xfers d i)) }"

subsection \<open>The standard requests\<close>

definition get_hword :: "nat \<Rightarrow> u8 list \<Rightarrow> u16" where
  "get_hword i bs = ucast (bs ! i) OR push_bit 8 (ucast (bs ! (i + 1)))"

definition set_address :: "usb_config \<Rightarrow> usbd \<Rightarrow> usbd option" where
  "set_address cfg d =
     map_option (drv_state_update (\<lambda>_. USB_SELECTED))
       (usb_isr_invoke_event_cb cfg USB_EVENT_ADDRESS
         (usb_lld_set_address (d\<lparr>address := setup_packet d ! 2\<rparr>)))"

definition zero_status :: "u8 list" where "zero_status = [0x00, 0x00]"
definition active_status :: "u8 list" where "active_status = [0x00, 0x00]"
definition halted_status :: "u8 list" where "halted_status = [0x01, 0x00]"

definition send_status :: "usbepstatus \<Rightarrow> usbd \<Rightarrow> bool \<times> usbd" where
  "send_status s d =
     (case s of
        EP_STATUS_STALLED \<Rightarrow> (True, usbSetupTransfer (Mem_Const halted_status, 0) 2 False d)
      | EP_STATUS_ACTIVE \<Rightarrow> (True, usbSetupTransfer (Mem_Const active_status, 0) 2 False d)
      | EP_STATUS_DISABLED \<Rightarrow> (False, d))"

definition no_data :: "bool \<Rightarrow> usbd \<Rightarrow> usbd" where
  "no_data endcb d = usbSetupTransfer (Mem_Null, 0) 0 endcb d"

definition device_request :: "usb_config \<Rightarrow> u8 \<Rightarrow> usbd \<Rightarrow> (bool \<times> usbd) option" where
  "device_request cfg r d =
     (let s = setup_packet d in
      if r = 0 then Some (True, usbSetupTransfer (Mem_Status, 0) 2 False d)
      else if r = 1 then
        if s ! 2 = 1 then Some (True, no_data False (d\<lparr>status := status d AND NOT 2\<rparr>)) else Some (False, d)
      else if r = 3 then
        if s ! 2 = 1 then Some (True, no_data False (d\<lparr>status := status d OR 2\<rparr>)) else Some (False, d)
      else if r = 5 then Some (True, no_data True d)
      else if r = 6 then
        case get_descriptor_cb cfg (s ! 3) (s ! 2) (get_hword 4 s) of
          None \<Rightarrow> Some (False, d)
        | Some bs \<Rightarrow> Some (True, usbSetupTransfer (Mem_Const bs, 0) (of_nat (length bs)) False d)
      else if r = 8 then Some (True, usbSetupTransfer (Mem_Configuration, 0) 1 False d)
      else if r = 9 then
        let d1 = d\<lparr>configuration := s ! 2,
                   drv_state := (if s ! 2 = 0 then USB_SELECTED else USB_ACTIVE)\<rparr>
        in map_option (\<lambda>d2. (True, no_data False d2)) (usb_isr_invoke_event_cb cfg USB_EVENT_CONFIGURED d1)
      else Some (False, d))"

definition endpoint_request :: "u8 \<Rightarrow> usbd \<Rightarrow> bool \<times> usbd" where
  "endpoint_request r d =
     (let s = setup_packet d; ep = unat (s ! 4 AND 0x0F); in_ep = (s ! 4 AND 0x80 \<noteq> 0) in
      if r = 12 then (True, usbSetupTransfer (Mem_Const zero_status, 0) 2 False d)
      else if r = 0 then
        send_status (if in_ep then usb_lld_get_status_in ep d else usb_lld_get_status_out ep d) d
      else if r = 1 then
        if s ! 2 \<noteq> 0 then (False, d)
        else (True, no_data False
               (if ep \<noteq> 0 then if in_ep then usb_lld_clear_in ep d else usb_lld_clear_out ep d else d))
      else if r = 3 then
        if s ! 2 \<noteq> 0 then (False, d)
        else (True, no_data False
               (if ep \<noteq> 0 then if in_ep then usb_lld_stall_in ep d else usb_lld_stall_out ep d else d))
      else (False, d))"

definition default_handler :: "usb_config \<Rightarrow> usbd \<Rightarrow> (bool \<times> usbd) option" where
  "default_handler cfg d =
     (let t = setup_packet d ! 0 AND 0x7F; r = setup_packet d ! 1 in
      if t = 0 then device_request cfg r d
      else if t = 1 then
        if r = 0 then Some (True, usbSetupTransfer (Mem_Const zero_status, 0) 2 False d) else Some (False, d)
      else if t = 2 then Some (endpoint_request r d)
      else Some (False, d))"

subsection \<open>The control endpoint\<close>

definition ep0_error :: "usb_config \<Rightarrow> usbd \<Rightarrow> usbd option" where
  "ep0_error cfg d =
     map_option (ep0state_update (\<lambda>_. USB_EP0_ERROR))
       (usb_isr_invoke_event_cb cfg USB_EVENT_STALLED (usb_lld_stall_out 0 (usb_lld_stall_in 0 d)))"

definition ep0_phase :: "usbd \<Rightarrow> usbd option" where
  "ep0_phase d =
     (let limit = ucast (get_hword 6 (setup_packet d));
          d1 = (if limit < ep0n d then d\<lparr>ep0n := limit\<rparr> else d)
      in if setup_packet d1 ! 0 AND 0x80 = 0x80 then
           if ep0n d1 \<noteq> 0 then usbStartTransmitI 0 (ep0next d1) (ep0n d1) (d1\<lparr>ep0state := USB_EP0_TX\<rparr>)
           else usbStartReceiveI 0 (Mem_Null, 0) 0 (d1\<lparr>ep0state := USB_EP0_WAITING_STS\<rparr>)
         else
           if ep0n d1 \<noteq> 0 then usbStartReceiveI 0 (ep0next d1) (ep0n d1) (d1\<lparr>ep0state := USB_EP0_RX\<rparr>)
           else usbStartTransmitI 0 (Mem_Null, 0) 0 (d1\<lparr>ep0state := USB_EP0_SENDING_STS\<rparr>))"

definition ep0_request :: "usb_config \<Rightarrow> usbd \<Rightarrow> usbd option" where
  "ep0_request cfg d = do {
     let (hooked, d1) = (case requests_hook_cb cfg of None \<Rightarrow> (False, d) | Some h \<Rightarrow> h d);
     (handled, d2) \<leftarrow>
       (if hooked then Some (True, d1)
        else if setup_packet d1 ! 0 AND 0x60 \<noteq> 0 then Some (False, d1)
        else default_handler cfg d1);
     if handled then ep0_phase d2 else ep0_error cfg d2 }"

definition usb_ep0setup :: "usb_config \<Rightarrow> nat \<Rightarrow> usbd \<Rightarrow> usbd option" where
  "usb_ep0setup cfg ep d =
     Option.bind (usb_lld_read_setup ep (d\<lparr>ep0state := USB_EP0_WAITING_SETUP\<rparr>)) (ep0_request cfg)"

definition ep0_finish :: "usb_config \<Rightarrow> usbd \<Rightarrow> usbd option" where
  "ep0_finish cfg d =
     map_option (ep0state_update (\<lambda>_. USB_EP0_WAITING_SETUP)) (if ep0endcb d then set_address cfg d else Some d)"

definition usb_ep0in :: "usb_config \<Rightarrow> usbd \<Rightarrow> usbd option" where
  "usb_ep0in cfg d =
     (if ep0state d = USB_EP0_TX \<or> ep0state d = USB_EP0_WAITING_TX0 then do {
        c \<leftarrow> epc d 0;
        if ep0state d = USB_EP0_TX \<and> ep0n d < ucast (get_hword 6 (setup_packet d)) \<and>
           ep0n d mod ucast (in_maxsize c) = 0
        then map_option (ep0state_update (\<lambda>_. USB_EP0_WAITING_TX0)) (usbStartTransmitI 0 (Mem_Null, 0) 0 d)
        else usbStartReceiveI 0 (Mem_Null, 0) 0 (d\<lparr>ep0state := USB_EP0_WAITING_STS\<rparr>) }
      else if ep0state d = USB_EP0_SENDING_STS then ep0_finish cfg d
      else ep0_error cfg d)"

definition usb_ep0out :: "usb_config \<Rightarrow> usbd \<Rightarrow> usbd option" where
  "usb_ep0out cfg d =
     (if ep0state d = USB_EP0_RX
      then usbStartTransmitI 0 (Mem_Null, 0) 0 (d\<lparr>ep0state := USB_EP0_SENDING_STS\<rparr>)
      else if ep0state d = USB_EP0_WAITING_STS then do {
        n \<leftarrow> usbGetReceiveTransactionSizeX 0 d;
        if n \<noteq> 0 then Some d else ep0_finish cfg d }
      else ep0_error cfg d)"

subsection \<open>The interrupt handler\<close>

definition usb_isr_invoke_in_cb ::
    "(ep_callback \<Rightarrow> nat \<Rightarrow> usbd \<Rightarrow> usbd option) \<Rightarrow> nat \<Rightarrow> usbd \<Rightarrow> usbd option" where
  "usb_isr_invoke_in_cb run ep d = do {
     c \<leftarrow> epc d ep;
     let d1 = d\<lparr>transmitting := transmitting d AND NOT (ep_bit ep)\<rparr>;
     case in_cb c of None \<Rightarrow> Some d1 | Some f \<Rightarrow> run f ep d1 }"

definition usb_isr_invoke_out_cb ::
    "(ep_callback \<Rightarrow> nat \<Rightarrow> usbd \<Rightarrow> usbd option) \<Rightarrow> nat \<Rightarrow> usbd \<Rightarrow> usbd option" where
  "usb_isr_invoke_out_cb run ep d = do {
     c \<leftarrow> epc d ep;
     let d1 = d\<lparr>receiving := receiving d AND NOT (ep_bit ep)\<rparr>;
     case out_cb c of None \<Rightarrow> Some d1 | Some f \<Rightarrow> run f ep d1 }"

definition serve_in ::
    "(ep_callback \<Rightarrow> nat \<Rightarrow> usbd \<Rightarrow> usbd option) \<Rightarrow> nat \<Rightarrow> USBEndpointConfig \<Rightarrow> usbd \<Rightarrow> usbd option" where
  "serve_in run ep c d = do {
     i \<leftarrow> in_state ep c;
     let x = xfers d i;
     let k = xcnt x + xlast x;
     let d1 = set_xfer i (xcnt_update (\<lambda>_. k)) (EPR_CLEAR_CTR_TX ep d);
     let n = xsize x - k;
     if 0 < n then do {
       let m = (if ucast (in_maxsize c) < n then ucast (in_maxsize c) else n);
       let p = (fst (xbuf x), snd (xbuf x) + unat (xlast x));
       d2 \<leftarrow> usb_packet_write_from_buffer ep p (unat m) (set_xfer i (\<lambda>x. x\<lparr>xbuf := p, xlast := m\<rparr>) d1);
       Some (EPR_SET_STAT_TX ep EPR_STAT_TX_VALID d2) }
     else usb_isr_invoke_in_cb run ep d1 }"

definition serve_out ::
    "(ep_callback \<Rightarrow> nat \<Rightarrow> usbd \<Rightarrow> usbd option) \<Rightarrow> nat \<Rightarrow> USBEndpointConfig \<Rightarrow> usbd \<Rightarrow> usbd option" where
  "serve_out run ep c d = do {
     i \<leftarrow> out_state ep c;
     (n, d1) \<leftarrow> usb_packet_read_to_buffer ep (xbuf (xfers d i)) d;
     let d2 = set_xfer i (\<lambda>x. set_rxpkts (rxpkts x - 1)
           (x\<lparr>xbuf := (fst (xbuf x), snd (xbuf x) + n), xcnt := xcnt x + of_nat n,
              xsize := xsize x - of_nat n\<rparr>)) d1;
     if n < unat (out_maxsize c) \<or> rxpkts (xfers d2 i) = 0 then usb_isr_invoke_out_cb run ep d2
     else Some (EPR_SET_STAT_RX ep EPR_STAT_RX_VALID d2) }"

definition invoke_setup_cb ::
    "(ep_callback \<Rightarrow> nat \<Rightarrow> usbd \<Rightarrow> usbd option) \<Rightarrow> nat \<Rightarrow> usbd \<Rightarrow> usbd option" where
  "invoke_setup_cb run ep d = do { c \<leftarrow> epc d ep; f \<leftarrow> setup_cb c; run f ep d }"

definition usb_serve_endpoints ::
    "(ep_callback \<Rightarrow> nat \<Rightarrow> usbd \<Rightarrow> usbd option) \<Rightarrow> nat \<Rightarrow> usbd \<Rightarrow> usbd option" where
  "usb_serve_endpoints run ep d = do {
     let e = epr d ep;
     let epcp = epc d ep;
     d1 \<leftarrow> if e AND EPR_CTR_TX \<noteq> 0 then do { c \<leftarrow> epcp; serve_in run ep c d } else Some d;
     if e AND EPR_CTR_RX \<noteq> 0 then do {
       let d2 = EPR_CLEAR_CTR_RX ep d1;
       if e AND EPR_SETUP \<noteq> 0 then invoke_setup_cb run ep d2 else do { c \<leftarrow> epcp; serve_out run ep c d2 } }
     else Some d1 }"

text \<open>
  The interrupt status: the flags of the bus events, and the flag of the transfers with
  the first endpoint that has one.
\<close>

definition USB_ISTR :: "usbd \<Rightarrow> u16" where
  "USB_ISTR d =
     (case filter (\<lambda>ep. epr d ep AND EPR_CTR_MASK \<noteq> 0) [0..<8] of
        [] \<Rightarrow> istr d
      | ep # _ \<Rightarrow> istr d OR 0x8000 OR of_nat ep)"

definition clear_istr :: "u16 \<Rightarrow> usbd \<Rightarrow> usbd" where
  "clear_istr f d = d\<lparr>istr := istr d AND NOT f\<rparr>"

definition serve_loop ::
    "(ep_callback \<Rightarrow> nat \<Rightarrow> usbd \<Rightarrow> usbd option) \<Rightarrow> u16 \<Rightarrow> usbd \<Rightarrow> (u16 \<times> usbd) option" where
  "serve_loop run i d =
     loop_while (\<lambda>(i, _). i AND 0x8000 \<noteq> 0)
       (\<lambda>(i, d). map_option (\<lambda>d1. (USB_ISTR d1, d1)) (usb_serve_endpoints run (unat (i AND 0x000F)) d)) (i, d)"

definition usb_lp_handler ::
    "usb_config \<Rightarrow> (ep_callback \<Rightarrow> nat \<Rightarrow> usbd \<Rightarrow> usbd option) \<Rightarrow> usbd \<Rightarrow> usbd option" where
  "usb_lp_handler cfg run d = do {
     let i = USB_ISTR d;
     d1 \<leftarrow> if i AND 0x0400 \<noteq> 0 then usb_reset cfg (clear_istr 0x0400 d) else Some d;
     d2 \<leftarrow> if i AND 0x0800 \<noteq> 0
       then usb_suspend cfg (clear_istr 0x0800 (d1\<lparr>cntr := cntr d1 OR 0x0008\<rparr>)) else Some d1;
     d3 \<leftarrow> if i AND 0x1000 \<noteq> 0
       then map_option (clear_istr 0x1000)
         (if fnr d2 AND 0x8000 = 0 then usb_wakeup cfg (d2\<lparr>cntr := cntr d2 AND NOT 0x0008\<rparr>) else Some d2)
       else Some d2;
     d4 \<leftarrow> if i AND 0x0200 \<noteq> 0
       then map_option (clear_istr 0x0200) (case sof_cb cfg of None \<Rightarrow> Some d3 | Some f \<Rightarrow> f d3)
       else Some d3;
     map_option snd (serve_loop run i d4) }"

end
