(* ===== verification/Serial_Usb.thy ===== *)
theory Serial_Usb
  imports Usb_Core
begin

text \<open>
  The serial driver on top of the USB core (serial_usb.c), with the firmware's endpoints
  and buffers: its queues, the callbacks of queues and endpoints, and the stream functions
  that threads call. The callback of a queue reaches the driver through the queue's link: a
  queue in use carries the driver in its extension, None after an access through a null
  pointer.
\<close>

record SerialUSBConfig =
  bulk_in :: nat
  bulk_out :: nat
  int_in :: nat

definition serusbcfg :: SerialUSBConfig where
  "serusbcfg = \<lparr>bulk_in = unat USBD1_DATA_REQUEST_EP, bulk_out = unat USBD1_DATA_AVAILABLE_EP,
     int_in = unat USBD1_INTERRUPT_REQUEST_EP\<rparr>"

definition SERIAL_USB_BUFFERS_SIZE :: nat where "SERIAL_USB_BUFFERS_SIZE = 256"
definition SERIAL_USB_BUFFERS_NUMBER :: nat where "SERIAL_USB_BUFFERS_NUMBER = 2"

definition CHN_CONNECTED :: u32 where "CHN_CONNECTED = 1"
definition CHN_DISCONNECTED :: u32 where "CHN_DISCONNECTED = 2"
definition CHN_INPUT_AVAILABLE :: u32 where "CHN_INPUT_AVAILABLE = 4"
definition CHN_OUTPUT_EMPTY :: u32 where "CHN_OUTPUT_EMPTY = 8"

text \<open>The line coding at the start: 38400 baud, one stop bit, no parity, 8 bits.\<close>

definition linecoding_start :: "u8 list" where
  "linecoding_start = [0x00, 0x96, 0x00, 0x00, 0, 0, 8]"

definition chnAddFlagsI :: "u32 \<Rightarrow> usbd \<Rightarrow> usbd" where
  "chnAddFlagsI f d = d\<lparr>sdu_flags := sdu_flags d OR f\<rparr>"

subsection \<open>The queues in use\<close>

definition in_view :: "usbd \<Rightarrow> usbd option bq_scheme" where
  "in_view d = bq.extend (ibqueue d) (Some d)"

definition in_back :: "usbd option bq_scheme \<Rightarrow> usbd option" where
  "in_back q = map_option (ibqueue_update (\<lambda>_. bq.truncate q)) (bq.more q)"

definition out_view :: "usbd \<Rightarrow> usbd option bq_scheme" where
  "out_view d = bq.extend (obqueue d) (Some d)"

definition out_back :: "usbd option bq_scheme \<Rightarrow> usbd option" where
  "out_back q = map_option (obqueue_update (\<lambda>_. bq.truncate q)) (bq.more q)"

definition sdu_idle :: "usbd \<Rightarrow> bool" where
  "sdu_idle d \<longleftrightarrow> drv_state d \<noteq> USB_ACTIVE \<or> sdu_state d \<noteq> SDU_READY"

definition start_receive :: "usbd \<Rightarrow> usbd option" where
  "start_receive d =
     (case ibqGetEmptyBufferI (ibqueue d) of None \<Rightarrow> Some d
      | Some p \<Rightarrow> usbStartReceiveI (bulk_out serusbcfg) (Mem_Ib, p) (of_nat SERIAL_USB_BUFFERS_SIZE) d)"

definition ibnotify :: "usbd option bq_scheme \<Rightarrow> usbd option bq_scheme" where
  "ibnotify q =
     bq.more_update (\<lambda>_. Option.bind (in_back q) (\<lambda>d.
       if sdu_idle d \<or> usbGetReceiveStatusI d (bulk_out serusbcfg) then Some d else start_receive d)) q"

definition obnotify :: "usbd option bq_scheme \<Rightarrow> usbd option bq_scheme" where
  "obnotify q =
     bq.more_update (\<lambda>_. Option.bind (out_back q) (\<lambda>d.
       if sdu_idle d \<or> usbGetTransmitStatusI d (bulk_in serusbcfg) then Some d
       else Option.bind (obqGetFullBufferI (obqueue d)) (\<lambda>b. case b of None \<Rightarrow> Some d
         | Some (n, p) \<Rightarrow> usbStartTransmitI (bulk_in serusbcfg) (Mem_Ob, p) n d))) q"

subsection \<open>Life cycle\<close>

definition sduObjectInit :: "usbd \<Rightarrow> usbd" where
  "sduObjectInit d =
     d\<lparr>sdu_state := SDU_STOP,
       ibqueue := ibqObjectInit SERIAL_USB_BUFFERS_SIZE SERIAL_USB_BUFFERS_NUMBER (ibqueue d),
       obqueue := obqObjectInit SERIAL_USB_BUFFERS_SIZE SERIAL_USB_BUFFERS_NUMBER (obqueue d)\<rparr>"

definition set_params :: "bool \<Rightarrow> usbd \<Rightarrow> usbd" where
  "set_params b d =
     (let d1 = d\<lparr>in_params := (in_params d)(bulk_in serusbcfg - 1 := b),
                 out_params := (out_params d)(bulk_out serusbcfg - 1 := b)\<rparr>
      in if 0 < int_in serusbcfg
         then d1\<lparr>in_params := (in_params d1)(int_in serusbcfg - 1 := b)\<rparr> else d1)"

definition sduStart :: "usbd \<Rightarrow> usbd" where
  "sduStart d = (set_params True d)\<lparr>sdu_state := SDU_READY\<rparr>"

definition sduDisconnectI :: "usbd \<Rightarrow> usbd" where
  "sduDisconnectI d =
     (let d1 = chnAddFlagsI CHN_DISCONNECTED d
      in d1\<lparr>ibqueue := ibqResetI (ibqueue d1), obqueue := obqResetI (obqueue d1)\<rparr>)"

definition sduStop :: "usbd \<Rightarrow> usbd" where
  "sduStop d = sduDisconnectI ((set_params False d)\<lparr>sdu_state := SDU_STOP\<rparr>)"

definition sduConfigureHookI :: "usbd \<Rightarrow> usbd option" where
  "sduConfigureHookI d = do {
     let d1 = chnAddFlagsI CHN_CONNECTED
       (d\<lparr>ibqueue := ibqResetI (ibqueue d), obqueue := obqResetI (obqueue d)\<rparr>);
     let p = (case ibqGetEmptyBufferI (ibqueue d1) of None \<Rightarrow> (Mem_Null, 0) | Some p \<Rightarrow> (Mem_Ib, p));
     usbStartReceiveI (bulk_out serusbcfg) p (of_nat SERIAL_USB_BUFFERS_SIZE) d1 }"

subsection \<open>Hooks and callbacks\<close>

definition sduRequestsHook :: "usbd \<Rightarrow> bool \<times> usbd" where
  "sduRequestsHook d =
     (let s = setup_packet d in
      if s ! 0 AND 0x60 = 0x20 then
        if s ! 1 = 0x21 then (True, usbSetupTransfer (Mem_Linecoding, 0) 7 False d)
        else if s ! 1 = 0x20 then (True, usbSetupTransfer (Mem_Linecoding, 0) 7 False d)
        else if s ! 1 = 0x22 then (True, usbSetupTransfer (Mem_Null, 0) 0 False d)
        else (False, d)
      else (False, d))"

definition sduSOFHookI :: "usbd \<Rightarrow> usbd option" where
  "sduSOFHookI d =
     (if sdu_idle d \<or> usbGetTransmitStatusI d (bulk_in serusbcfg) then Some d
      else do {
        (flushed, q) \<leftarrow> obqTryFlushI (obqueue d);
        let d1 = d\<lparr>obqueue := q\<rparr>;
        if \<not> flushed then Some d1
        else do {
          b \<leftarrow> obqGetFullBufferI q;
          (n, p) \<leftarrow> b;
          usbStartTransmitI (bulk_in serusbcfg) (Mem_Ob, p) n d1 } })"

definition sduDataTransmitted :: "nat \<Rightarrow> usbd \<Rightarrow> usbd option" where
  "sduDataTransmitted ep d =
     (if \<not> in_params d (ep - 1) then Some d
      else do {
        c \<leftarrow> epc d ep;
        i \<leftarrow> in_state ep c;
        let d1 = chnAddFlagsI CHN_OUTPUT_EMPTY d;
        let n0 = xsize (xfers d i);
        let d2 = (if 0 < n0 then d1\<lparr>obqueue := obqReleaseEmptyBufferI (obqueue d1)\<rparr> else d1);
        b \<leftarrow> obqGetFullBufferI (obqueue d2);
        case b of
          Some (n, p) \<Rightarrow> usbStartTransmitI ep (Mem_Ob, p) n d2
        | None \<Rightarrow>
            if 0 < n0 \<and> n0 AND (ucast (in_maxsize c) - 1) = 0
            then usbStartTransmitI ep (Mem_Setup, 0) 0 d2 else Some d2 })"

definition sduDataReceived :: "nat \<Rightarrow> usbd \<Rightarrow> usbd option" where
  "sduDataReceived ep d =
     (if \<not> out_params d (ep - 1) then Some d
      else do {
        let d1 = chnAddFlagsI CHN_INPUT_AVAILABLE d;
        n \<leftarrow> usbGetReceiveTransactionSizeX (bulk_out serusbcfg) d1;
        q \<leftarrow> ibqPostFullBufferI n (ibqueue d1);
        start_receive (d1\<lparr>ibqueue := q\<rparr>) })"

definition sduInterruptTransmitted :: "nat \<Rightarrow> usbd \<Rightarrow> usbd" where
  "sduInterruptTransmitted ep d = d"

subsection \<open>The stream functions\<close>

definition sdu_writet ::
    "u8 list \<Rightarrow> u32 \<Rightarrow> usbd option bq_scheme world \<Rightarrow> usbd \<Rightarrow> (nat \<times> usbd option bq_scheme world \<times> usbd) option" where
  "sdu_writet bs timeout w d =
     (if drv_state d \<noteq> USB_ACTIVE then Some (0, w, d)
      else do {
        (k, w1, q) \<leftarrow> obqWriteTimeout obnotify bs timeout w (out_view d);
        d1 \<leftarrow> out_back q;
        Some (k, w1, d1) })"

definition sdu_readt ::
    "nat \<Rightarrow> u32 \<Rightarrow> usbd option bq_scheme world \<Rightarrow> usbd \<Rightarrow> (u8 list \<times> usbd option bq_scheme world \<times> usbd) option" where
  "sdu_readt n timeout w d =
     (if drv_state d \<noteq> USB_ACTIVE then Some ([], w, d)
      else do {
        (bs, w1, q) \<leftarrow> ibqReadTimeout ibnotify n timeout w (in_view d);
        d1 \<leftarrow> in_back q;
        Some (bs, w1, d1) })"

definition sdu_putt ::
    "u8 \<Rightarrow> u32 \<Rightarrow> usbd option bq_scheme world \<Rightarrow> usbd \<Rightarrow> (int \<times> usbd option bq_scheme world \<times> usbd) option" where
  "sdu_putt b timeout w d =
     (if drv_state d \<noteq> USB_ACTIVE then Some (MSG_RESET, w, d)
      else do {
        (msg, w1, q) \<leftarrow> obqPutTimeout obnotify b timeout w (out_view d);
        d1 \<leftarrow> out_back q;
        Some (msg, w1, d1) })"

definition sdu_gett ::
    "u32 \<Rightarrow> usbd option bq_scheme world \<Rightarrow> usbd \<Rightarrow> (int \<times> usbd option bq_scheme world \<times> usbd) option" where
  "sdu_gett timeout w d =
     (if drv_state d \<noteq> USB_ACTIVE then Some (MSG_RESET, w, d)
      else do {
        (msg, w1, q) \<leftarrow> ibqGetTimeout ibnotify timeout w (in_view d);
        d1 \<leftarrow> in_back q;
        Some (msg, w1, d1) })"

definition sdu_write where "sdu_write bs = sdu_writet bs TIME_INFINITE"
definition sdu_read where "sdu_read n = sdu_readt n TIME_INFINITE"
definition sdu_put where "sdu_put b = sdu_putt b TIME_INFINITE"
definition sdu_get where "sdu_get = sdu_gett TIME_INFINITE"

subsection \<open>The firmware's configuration of the driver\<close>

definition vcom_event :: "usbevent \<Rightarrow> usbd \<Rightarrow> usbd option" where
  "vcom_event e d =
     (case e of
        USB_EVENT_CONFIGURED \<Rightarrow> do {
          d1 \<leftarrow> usbInitEndpointI (unat USBD1_DATA_REQUEST_EP) ep1config d;
          d2 \<leftarrow> usbInitEndpointI (unat USBD1_INTERRUPT_REQUEST_EP) ep2config d1;
          sduConfigureHookI d2 }
      | USB_EVENT_SUSPEND \<Rightarrow> Some (sduDisconnectI d)
      | _ \<Rightarrow> Some d)"

definition usbcfg :: usb_config where
  "usbcfg = \<lparr>event_cb = Some vcom_event, get_descriptor_cb = get_descriptor,
     requests_hook_cb = Some sduRequestsHook, sof_cb = Some sduSOFHookI\<rparr>"

definition run_cb :: "ep_callback \<Rightarrow> nat \<Rightarrow> usbd \<Rightarrow> usbd option" where
  "run_cb f ep d =
     (case f of
        Ep0_Setup \<Rightarrow> usb_ep0setup usbcfg ep d
      | Ep0_In \<Rightarrow> usb_ep0in usbcfg d
      | Ep0_Out \<Rightarrow> usb_ep0out usbcfg d
      | Data_Transmitted \<Rightarrow> sduDataTransmitted ep d
      | Data_Received \<Rightarrow> sduDataReceived ep d
      | Interrupt_Transmitted \<Rightarrow> Some (sduInterruptTransmitted ep d))"

definition usb_irq :: "usbd \<Rightarrow> usbd option" where
  "usb_irq = usb_lp_handler usbcfg run_cb"

end
