(* ===== verification/Usb_Regs.thy ===== *)
theory Usb_Regs
  imports Serial_Usb
begin

text \<open>
  What the driver's accesses do to the endpoint registers and the packet memory, and the
  host's side of a transfer: the tokens that the peripheral answers from both.
\<close>

subsection \<open>The endpoint registers\<close>

lemma below_16: "n < (16 :: nat) \<Longrightarrow> n \<in> {0, 1, 2, 3, 4, 5, 6, 7, 8, 9, 10, 11, 12, 13, 14, 15}"
  by (auto simp: less_Suc_eq eval_nat_numeral)

lemma u16_bits_eqI:
  assumes "\<And>k. k \<in> {0, 1, 2, 3, 4, 5, 6, 7, 8, 9, 10, 11, 12, 13, 14, 15} \<Longrightarrow> bit v k = bit w k"
  shows "v = (w :: u16)"
  using assms below_16 by (intro bit_word_eqI) auto

lemma bit_u16:
  assumes "\<And>k. k \<in> {0, 1, 2, 3, 4, 5, 6, 7, 8, 9, 10, 11, 12, 13, 14, 15} \<Longrightarrow> bit w k = (k \<in> S)"
    and "Ball S (\<lambda>k. k < 16)"
  shows "bit (w :: u16) n \<longleftrightarrow> n \<in> S"
proof (cases "n < 16")
  case True
  then show ?thesis using assms(1) below_16 by blast
next
  case False
  then show ?thesis using assms(2) bit_imp_le_length[of w n] by auto
qed

lemma epr_masks:
  "bit (0x7070 :: u16) n \<longleftrightarrow> n \<in> {4, 5, 6, 12, 13, 14}"
  "bit (0x070F :: u16) n \<longleftrightarrow> n \<in> {0, 1, 2, 3, 8, 9, 10}"
  "bit (0x8080 :: u16) n \<longleftrightarrow> n \<in> {7, 15}"
  "bit (0x0800 :: u16) n \<longleftrightarrow> n \<in> {11}"
  "bit EPR_TOGGLE_MASK n \<longleftrightarrow> n \<in> {4, 5, 6, 11, 12, 13, 14}"
  "bit EPR_STAT_TX_MASK n \<longleftrightarrow> n \<in> {4, 5}"
  "bit EPR_STAT_RX_MASK n \<longleftrightarrow> n \<in> {12, 13}"
  "bit EPR_CTR_MASK n \<longleftrightarrow> n \<in> {7, 15}"
  "bit EPR_CTR_TX n \<longleftrightarrow> n \<in> {7}"
  "bit EPR_CTR_RX n \<longleftrightarrow> n \<in> {15}"
  "bit EPR_STAT_RX_NAK n \<longleftrightarrow> n \<in> {13}"
  unfolding epr_bits by (rule bit_u16; force simp: bit_numeral_rec bit_simps)+

lemma field_bits:
  assumes "e AND NOT m = (0 :: u16)" and "bit e n"
  shows "bit m n"
proof (rule ccontr)
  assume "\<not> bit m n"
  then have "bit (e AND NOT m) n" using assms(2) bit_imp_le_length[OF assms(2)] by (simp add: bit_simps)
  then show False by (simp add: assms(1))
qed

text \<open>Setting a status field sets this field and nothing else; clearing a flag clears just it.\<close>

lemma EPR_SET_STAT_TX_eq:
  assumes "e AND NOT EPR_STAT_TX_MASK = 0"
  shows "EPR_SET_STAT_TX ep e d =
    d\<lparr>epr := (epr d)(ep := (epr d ep AND NOT EPR_STAT_TX_MASK) OR e)\<rparr>"
proof -
  let ?r = "epr d ep"
  have e: "bit e n \<Longrightarrow> n \<in> {4, 5}" for n using field_bits[OF assms, of n] by (simp add: epr_masks)
  have "epr_next ?r (((?r AND NOT (EPR_TOGGLE_MASK AND NOT EPR_STAT_TX_MASK)) XOR e) OR EPR_CTR_MASK) =
      (?r AND NOT EPR_STAT_TX_MASK) OR e"
    by (rule u16_bits_eqI, elim insertE emptyE; use e in \<open>force simp: epr_next_def bit_simps epr_masks\<close>)
  then show ?thesis by (simp add: EPR_SET_STAT_TX_def epr_store_def)
qed

lemma EPR_SET_STAT_RX_eq:
  assumes "e AND NOT EPR_STAT_RX_MASK = 0"
  shows "EPR_SET_STAT_RX ep e d =
    d\<lparr>epr := (epr d)(ep := (epr d ep AND NOT EPR_STAT_RX_MASK) OR e)\<rparr>"
proof -
  let ?r = "epr d ep"
  have e: "bit e n \<Longrightarrow> n \<in> {12, 13}" for n using field_bits[OF assms, of n] by (simp add: epr_masks)
  have "epr_next ?r (((?r AND NOT (EPR_TOGGLE_MASK AND NOT EPR_STAT_RX_MASK)) XOR e) OR EPR_CTR_MASK) =
      (?r AND NOT EPR_STAT_RX_MASK) OR e"
    by (rule u16_bits_eqI, elim insertE emptyE; use e in \<open>force simp: epr_next_def bit_simps epr_masks\<close>)
  then show ?thesis by (simp add: EPR_SET_STAT_RX_def epr_store_def)
qed

lemma EPR_CLEAR_CTR_TX_eq:
  "EPR_CLEAR_CTR_TX ep d = d\<lparr>epr := (epr d)(ep := epr d ep AND NOT EPR_CTR_TX)\<rparr>"
proof -
  let ?r = "epr d ep"
  have "epr_next ?r ((?r AND NOT EPR_CTR_TX AND NOT EPR_TOGGLE_MASK) OR EPR_CTR_RX) = ?r AND NOT EPR_CTR_TX"
    by (rule u16_bits_eqI, elim insertE emptyE; force simp: epr_next_def bit_simps epr_masks)
  then show ?thesis by (simp add: EPR_CLEAR_CTR_TX_def epr_store_def)
qed

lemma EPR_CLEAR_CTR_RX_eq:
  "EPR_CLEAR_CTR_RX ep d = d\<lparr>epr := (epr d)(ep := epr d ep AND NOT EPR_CTR_RX)\<rparr>"
proof -
  let ?r = "epr d ep"
  have "epr_next ?r ((?r AND NOT EPR_CTR_RX AND NOT EPR_TOGGLE_MASK) OR EPR_CTR_TX) = ?r AND NOT EPR_CTR_RX"
    by (rule u16_bits_eqI, elim insertE emptyE; force simp: epr_next_def bit_simps epr_masks)
  then show ?thesis by (simp add: EPR_CLEAR_CTR_RX_def epr_store_def)
qed

text \<open>The fields of a register, and how they change.\<close>

definition stat_tx :: "u16 \<Rightarrow> u16" where "stat_tx r = r AND EPR_STAT_TX_MASK"
definition stat_rx :: "u16 \<Rightarrow> u16" where "stat_rx r = r AND EPR_STAT_RX_MASK"

definition with_tx :: "u16 \<Rightarrow> u16 \<Rightarrow> u16" where "with_tx e r = (r AND NOT EPR_STAT_TX_MASK) OR e"
definition with_rx :: "u16 \<Rightarrow> u16 \<Rightarrow> u16" where "with_rx e r = (r AND NOT EPR_STAT_RX_MASK) OR e"

lemma status_macros:
  "EPR_SET_STAT_TX ep EPR_STAT_TX_VALID d = d\<lparr>epr := (epr d)(ep := with_tx EPR_STAT_TX_VALID (epr d ep))\<rparr>"
  "EPR_SET_STAT_TX ep EPR_STAT_TX_STALL d = d\<lparr>epr := (epr d)(ep := with_tx EPR_STAT_TX_STALL (epr d ep))\<rparr>"
  "EPR_SET_STAT_TX ep EPR_STAT_TX_NAK d = d\<lparr>epr := (epr d)(ep := with_tx EPR_STAT_TX_NAK (epr d ep))\<rparr>"
  "EPR_SET_STAT_RX ep EPR_STAT_RX_VALID d = d\<lparr>epr := (epr d)(ep := with_rx EPR_STAT_RX_VALID (epr d ep))\<rparr>"
  "EPR_SET_STAT_RX ep EPR_STAT_RX_STALL d = d\<lparr>epr := (epr d)(ep := with_rx EPR_STAT_RX_STALL (epr d ep))\<rparr>"
  by (simp_all add: EPR_SET_STAT_TX_eq EPR_SET_STAT_RX_eq epr_bits with_tx_def with_rx_def)

lemma status_fields [simp]:
  "stat_tx (with_tx EPR_STAT_TX_VALID r) = EPR_STAT_TX_VALID"
  "stat_tx (with_tx EPR_STAT_TX_STALL r) = EPR_STAT_TX_STALL"
  "stat_tx (with_tx EPR_STAT_TX_NAK r) = EPR_STAT_TX_NAK"
  "stat_rx (with_rx EPR_STAT_RX_VALID r) = EPR_STAT_RX_VALID"
  "stat_rx (with_rx EPR_STAT_RX_STALL r) = EPR_STAT_RX_STALL"
  "stat_rx (with_rx EPR_STAT_RX_NAK r) = EPR_STAT_RX_NAK"
proof -
  have v: "bit EPR_STAT_TX_VALID n \<longleftrightarrow> n \<in> {4, 5}" "bit EPR_STAT_TX_STALL n \<longleftrightarrow> n \<in> {4}"
    "bit EPR_STAT_TX_NAK n \<longleftrightarrow> n \<in> {5}" "bit EPR_STAT_RX_VALID n \<longleftrightarrow> n \<in> {12, 13}"
    "bit EPR_STAT_RX_STALL n \<longleftrightarrow> n \<in> {12}" for n
    unfolding epr_bits by (rule bit_u16; force simp: bit_numeral_rec bit_simps)+
  show "stat_tx (with_tx EPR_STAT_TX_VALID r) = EPR_STAT_TX_VALID"
    "stat_tx (with_tx EPR_STAT_TX_STALL r) = EPR_STAT_TX_STALL"
    "stat_tx (with_tx EPR_STAT_TX_NAK r) = EPR_STAT_TX_NAK"
    "stat_rx (with_rx EPR_STAT_RX_VALID r) = EPR_STAT_RX_VALID"
    "stat_rx (with_rx EPR_STAT_RX_STALL r) = EPR_STAT_RX_STALL"
    "stat_rx (with_rx EPR_STAT_RX_NAK r) = EPR_STAT_RX_NAK"
    unfolding stat_tx_def stat_rx_def with_tx_def with_rx_def
    by (rule u16_bits_eqI, elim insertE emptyE; force simp: bit_simps v epr_masks)+
qed

subsection \<open>The packet memory\<close>

lemma pma_load_0 [simp]: "pma_load i 0 m = Some []"
  by (simp add: pma_load.simps)

lemma pma_fill_load:
  assumes "even (length bs)" and "i + length bs div 2 \<le> length m"
  shows "\<exists>m'. pma_fill i bs m = Some m' \<and> length m' = length m \<and>
    (\<forall>n \<le> length bs. pma_load i n m' = Some (take n bs)) \<and>
    (\<forall>j. j < i \<or> i + length bs div 2 \<le> j \<longrightarrow> m' ! j = m ! j)"
  using assms
proof (induction i bs m rule: pma_fill.induct)
  case (1 i l h bs m)
  from 1(3) have "i < length m" by simp
  moreover have "even (length bs)" "Suc i + length bs div 2 \<le> length (m[i := be16 h l])" using 1(2,3) by simp_all
  ultimately obtain m' where m': "pma_fill (Suc i) bs (m[i := be16 h l]) = Some m'"
    "length m' = length (m[i := be16 h l])"
    "\<forall>n \<le> length bs. pma_load (Suc i) n m' = Some (take n bs)"
    "\<forall>j. j < Suc i \<or> Suc i + length bs div 2 \<le> j \<longrightarrow> m' ! j = m[i := be16 h l] ! j"
    using 1(1) by (metis not_le)
  have i: "m' ! i = be16 h l" using m'(4) \<open>i < length m\<close> by simp
  have "pma_load i n m' = Some (take n (l # h # bs))" if "n \<le> length (l # h # bs)" for n
  proof (cases "n \<le> 1")
    case True
    then show ?thesis using i m'(2) \<open>i < length m\<close> by (cases n) (simp_all add: pma_load.simps)
  next
    case False
    then obtain k where k: "n = Suc (Suc k)" by (metis not_less_eq_eq One_nat_def Suc_le_D)
    then show ?thesis using that i m'(2,3) \<open>i < length m\<close> by (subst pma_load.simps) simp
  qed
  moreover have "m' ! j = m ! j" if "j < i \<or> i + length (l # h # bs) div 2 \<le> j" for j
    using that m'(4) by auto
  ultimately show ?case using m'(1,2) \<open>i < length m\<close> by (intro exI[of _ m']) auto
qed auto

text \<open>The area of a direction of an endpoint: an even address behind the descriptors, in the memory.\<close>

definition pma_area :: "nat \<Rightarrow> nat \<Rightarrow> usbd \<Rightarrow> bool" where
  "pma_area i n d \<longleftrightarrow> length (pma d) = 256 \<and> i < 32 \<and> 64 \<le> unat (pma d ! i) \<and> even (unat (pma d ! i)) \<and>
     even n \<and> n < 1024 \<and> unat (pma d ! i) + n \<le> 512"

lemma unat_ucast_u16 [simp]: "unat (ucast (w :: u16) :: u32) = unat w"
  by (simp add: unsigned_ucast_eq take_bit_nat_eq_self_iff order_less_le_trans[OF unsigned_less])

lemma count_mask: "n < 1024 \<Longrightarrow> unat ((of_nat n :: u16) AND 0x03FF) = n"
proof -
  assume n: "n < 1024"
  have "(of_nat n :: u16) AND 0x03FF = take_bit 10 (of_nat n)" by (simp add: take_bit_eq_mask mask_eq_exp_minus_1)
  then show ?thesis
    using n by (simp only: unsigned_take_bit_eq unat_of_nat) (simp add: take_bit_nat_eq_self_iff)
qed

text \<open>What the host reads at the next token is what was last copied.\<close>

definition in_packet :: "nat \<Rightarrow> usbd \<Rightarrow> u8 list option" where
  "in_packet ep d = do {
     a \<leftarrow> pma_get (TXADDR0 ep) d;
     c \<leftarrow> pma_get (TXCOUNT0 ep) d;
     pma_load (USB_ADDR2PTR a) (unat (c AND 0x03FF)) (pma d) }"

lemma contents_pma [simp]: "contents m (d\<lparr>pma := p\<rparr>) = contents m d"
  by (cases m) simp_all

lemma contents_epr [simp]: "contents m (d\<lparr>epr := p\<rparr>) = contents m d"
  by (cases m) simp_all

lemma contents_xfers [simp]: "contents m (set_xfer i f d) = contents m d"
  by (cases m) (simp_all add: set_xfer_def)

lemma contents_transmitting [simp]: "contents m (d\<lparr>transmitting := t\<rparr>) = contents m d"
  by (cases m) simp_all

lemma fetch_other [simp]:
  "fetch p n (d\<lparr>transmitting := t\<rparr>) = fetch p n d"
  "fetch p n (d\<lparr>pma := m\<rparr>) = fetch p n d" "fetch p n (d\<lparr>epr := e\<rparr>) = fetch p n d"
  "fetch p n (set_xfer i f d) = fetch p n d"
  by (simp_all add: fetch_def) (simp_all add: set_xfer_def)

lemma fetch_length: "fetch p n d = Some bs \<Longrightarrow> length bs = n"
proof -
  obtain xs where "xs = drop (snd p) (contents (fst p) d @ [stray d])" by blast
  then show "fetch p n d = Some bs \<Longrightarrow> length bs = n"
    unfolding fetch_def Let_def by (auto simp del: drop_append split: if_splits)
qed

lemma packet_copied:
  assumes "pma_area (TXADDR0 ep) sz d" and "n \<le> sz" and "fetch p (n + n mod 2) d = Some bs"
  shows "\<exists>m. usb_packet_write_from_buffer ep p n d = Some (d\<lparr>pma := m\<rparr>) \<and> length m = 256 \<and>
    in_packet ep (d\<lparr>pma := m\<rparr>) = Some (take n bs) \<and>
    (\<forall>j. j \<noteq> TXCOUNT0 ep \<and> (j < unat (pma d ! TXADDR0 ep) div 2 \<or> unat (pma d ! TXADDR0 ep) + sz \<le> 2 * j) \<longrightarrow> m ! j = pma d ! j)"
proof -
  define a where "a = pma d ! TXADDR0 ep"
  define i where "i = unat a div 2"
  note A = assms(1)[unfolded pma_area_def, folded a_def]
  have a2: "unat a = 2 * i" using A by (simp add: i_def)
  have c: "TXCOUNT0 ep < 32" "TXCOUNT0 ep = Suc (TXADDR0 ep)" using A by (simp_all add: TXCOUNT0_def TXADDR0_def)
  define m1 where "m1 = (pma d)[TXCOUNT0 ep := of_nat n]"
  have len: "length bs = n + n mod 2" using assms(3) by (rule fetch_length)
  have ev: "even (length bs)" unfolding len by presburger
  have half: "2 * (length bs div 2) = n + n mod 2" using ev len by simp
  have fit: "n + n mod 2 \<le> sz" using assms(2) A by presburger
  have "i + length bs div 2 \<le> length m1" using A half fit a2 by (simp add: m1_def)
  from pma_fill_load[OF ev this] obtain m where m: "pma_fill i bs m1 = Some m" "length m = length m1"
    "\<And>k. k \<le> length bs \<Longrightarrow> pma_load i k m = Some (take k bs)"
    "\<And>j. j < i \<or> i + length bs div 2 \<le> j \<Longrightarrow> m ! j = m1 ! j" by blast
  have low: "m ! j = m1 ! j" if "j < 32" for j using m(4)[of j] that A a2 by simp
  have run: "usb_packet_write_from_buffer ep p n d = Some (d\<lparr>pma := m\<rparr>)"
    using A c(1) m(1)[unfolded m1_def] assms(3)
    by (simp add: usb_packet_write_from_buffer_def pma_get_def pma_put_def USB_ADDR2PTR_def a_def[symmetric]
        i_def[symmetric])
  have e: "m ! TXADDR0 ep = a" "m ! TXCOUNT0 ep = of_nat n"
    using low[of "TXADDR0 ep"] low[OF c(1)] A c by (simp_all add: m1_def a_def)
  have lm: "length m = 256" using m(2) A by (simp add: m1_def)
  have "n < 1024" using A fit by linarith
  note n = count_mask[OF this]
  have "pma_load i n m = Some (take n bs)" using m(3)[of n] len by simp
  moreover have "TXADDR0 ep < 256" "TXCOUNT0 ep < 256" using c(1) A by simp_all
  ultimately have "in_packet ep (d\<lparr>pma := m\<rparr>) = Some (take n bs)"
    by (simp add: in_packet_def pma_get_def lm e USB_ADDR2PTR_def) (simp only: n i_def)
  moreover have "m ! j = pma d ! j"
    if "j \<noteq> TXCOUNT0 ep" "j < unat a div 2 \<or> unat a + sz \<le> 2 * j" for j
  proof -
    have "j < i \<or> i + length bs div 2 \<le> j" using that(2)[folded i_def] half fit a2 by linarith
    then show ?thesis using m(4)[of j] that(1) by (simp add: m1_def)
  qed
  ultimately show ?thesis using run lm by (intro exI[of _ m]) (simp add: a_def)
qed

end
