(* ===== verification/Usb_In.thy ===== *)
theory Usb_In
  imports Usb_Regs
begin

text \<open>
  Transfers to the host: a buffer handed to the driver goes out in packets of the
  endpoint's size, the last one shorter or, for an empty buffer, of length 0; the endpoint's
  callback runs once, after the host has taken the last packet.
\<close>

subsection \<open>The host reads\<close>

text \<open>
  The token of a host that wants data: answered if the endpoint is valid for transmission,
  with the bytes of the packet memory; then the endpoint refuses until it is set again, and
  its transfer flag is up.
\<close>

definition after_in :: "u16 \<Rightarrow> u16" where
  "after_in r = (with_tx EPR_STAT_TX_NAK r XOR EPR_DTOG_TX) OR EPR_CTR_TX"

definition host_in :: "nat \<Rightarrow> usbd \<Rightarrow> (u8 list \<times> usbd) option" where
  "host_in ep d =
     (if stat_tx (epr d ep) \<noteq> EPR_STAT_TX_VALID then None
      else map_option (\<lambda>bs. (bs, d\<lparr>epr := (epr d)(ep := after_in (epr d ep))\<rparr>)) (in_packet ep d))"

text \<open>The host reads packets, and each is served before the next.\<close>

primrec host_reads ::
    "(ep_callback \<Rightarrow> nat \<Rightarrow> usbd \<Rightarrow> usbd option) \<Rightarrow> nat \<Rightarrow> nat \<Rightarrow> usbd \<Rightarrow> (u8 list list \<times> usbd) option" where
  "host_reads run ep 0 d = Some ([], d)"
| "host_reads run ep (Suc k) d = do {
     (bs, d1) \<leftarrow> host_in ep d;
     d2 \<leftarrow> usb_serve_endpoints run ep d1;
     (ps, d3) \<leftarrow> host_reads run ep k d2;
     Some (bs # ps, d3) }"

lemma after_in_fields:
  "after_in r AND EPR_CTR_TX \<noteq> 0" "after_in r AND EPR_CTR_RX = r AND EPR_CTR_RX"
  "stat_rx (after_in r) = stat_rx r" "after_in r AND EPR_SETUP = r AND EPR_SETUP"
  "stat_rx (with_tx e r AND NOT EPR_CTR_TX) = stat_rx r \<or> e AND NOT EPR_STAT_TX_MASK \<noteq> 0"
proof -
  have b: "bit EPR_STAT_TX_NAK n \<longleftrightarrow> n \<in> {5}" "bit EPR_DTOG_TX n \<longleftrightarrow> n \<in> {6}" "bit EPR_SETUP n \<longleftrightarrow> n \<in> {11}" for n
    unfolding epr_bits by (rule bit_u16; force simp: bit_numeral_rec bit_simps)+
  note defs = after_in_def with_tx_def stat_rx_def
  have "bit (after_in r AND EPR_CTR_TX) 7" by (simp add: defs bit_simps epr_masks)
  then show "after_in r AND EPR_CTR_TX \<noteq> 0" by auto
  show "after_in r AND EPR_CTR_RX = r AND EPR_CTR_RX" "stat_rx (after_in r) = stat_rx r"
    "after_in r AND EPR_SETUP = r AND EPR_SETUP"
    unfolding defs by (rule u16_bits_eqI, elim insertE emptyE; force simp: bit_simps b epr_masks)+
  show "stat_rx (with_tx e r AND NOT EPR_CTR_TX) = stat_rx r \<or> e AND NOT EPR_STAT_TX_MASK \<noteq> 0"
  proof (rule disjCI)
    assume "\<not> e AND NOT EPR_STAT_TX_MASK \<noteq> 0"
    then have e: "bit e n \<Longrightarrow> n \<in> {4, 5}" for n using field_bits[of e EPR_STAT_TX_MASK n] by (simp add: epr_masks)
    show "stat_rx (with_tx e r AND NOT EPR_CTR_TX) = stat_rx r"
      unfolding defs by (rule u16_bits_eqI, elim insertE emptyE; use e in \<open>force simp: bit_simps epr_masks\<close>)
  qed
qed

subsection \<open>The state in a transfer\<close>

definition in_upd :: "nat \<Rightarrow> xfer \<Rightarrow> u16 \<Rightarrow> u16 list \<Rightarrow> usbd \<Rightarrow> usbd" where
  "in_upd ep x e m d = d\<lparr>xfers := (xfers d)(in_slot ep := x), epr := (epr d)(ep := e), pma := m\<rparr>"

lemma in_upd_simps [simp]:
  "in_upd ep x' e' m' (in_upd ep x e m d) = in_upd ep x' e' m' d"
  "xfers (in_upd ep x e m d) (in_slot ep) = x" "epr (in_upd ep x e m d) ep = e" "pma (in_upd ep x e m d) = m"
  "epc (in_upd ep x e m d) = epc d" "transmitting (in_upd ep x e m d) = transmitting d"
  "set_xfer (in_slot ep) f (in_upd ep x e m d) = in_upd ep (f x) e m d"
  "(in_upd ep x e m d)\<lparr>pma := m'\<rparr> = in_upd ep x e m' d"
  "(in_upd ep x e m d)\<lparr>epr := (epr (in_upd ep x e m d))(ep := e')\<rparr> = in_upd ep x e' m d"
  by (simp_all add: in_upd_def set_xfer_def)

lemma fetch_in_upd [simp]: "fetch p n (in_upd ep x e m d) = fetch p n d"
proof -
  have "contents a (in_upd ep x e m d) = contents a d" for a by (cases a) (simp_all add: in_upd_def)
  then show ?thesis by (simp add: fetch_def) (simp add: in_upd_def)
qed

definition in_ep :: "nat \<Rightarrow> USBEndpointConfig \<Rightarrow> nat \<Rightarrow> usbd \<Rightarrow> bool" where
  "in_ep ep c sz d \<longleftrightarrow> epc d ep = Some c \<and> has_in_state c \<and> unat (in_maxsize c) = sz \<and> 0 < sz \<and>
     pma_area (TXADDR0 ep) sz d"

text \<open>
  A transfer of \<open>n\<close> bytes from \<open>p\<close> of which \<open>k\<close> have been taken, with the next packet in the
  packet memory.
\<close>

definition in_going ::
    "nat \<Rightarrow> USBEndpointConfig \<Rightarrow> nat \<Rightarrow> mem \<times> nat \<Rightarrow> u8 list \<Rightarrow> nat \<Rightarrow> usbd \<Rightarrow> bool" where
  "in_going ep c sz p bs k d \<longleftrightarrow> in_ep ep c sz d \<and> stat_tx (epr d ep) = EPR_STAT_TX_VALID \<and>
     epr d ep AND EPR_CTR_RX = 0 \<and> epr d ep AND EPR_CTR_TX = 0 \<and> even k \<and> k \<le> length bs \<and>
     (let x = xfers d (in_slot ep) in
        unat (xsize x) = length bs \<and> unat (xcnt x) = k \<and> unat (xlast x) = min sz (length bs - k) \<and>
        xbuf x = (fst p, snd p + k)) \<and>
     in_packet ep d = Some (take sz (drop k bs)) \<and>
     (\<exists>cs. fetch p (length bs + length bs mod 2) d = Some cs \<and> take (length bs) cs = bs)"

text \<open>A part of the buffer, read with the byte that an odd length makes the driver read too much.\<close>

lemma fetch_part:
  assumes "fetch p (length bs + length bs mod 2) d = Some cs" and "take (length bs) cs = bs"
    and "k \<le> length bs" and "even k" and "m = min sz (length bs - k)" and "even sz"
  shows "\<exists>ds. fetch (fst p, snd p + k) (m + m mod 2) d = Some ds \<and> take m ds = take sz (drop k bs)"
proof -
  obtain xs where xs: "xs = drop (snd p) (contents (fst p) d @ [stray d])" by blast
  have l: "length bs + length bs mod 2 \<le> length xs" and cs: "cs = take (length bs + length bs mod 2) xs"
    using assms(1) unfolding fetch_def Let_def xs[symmetric] by (auto split: if_splits)
  have m: "k + (m + m mod 2) \<le> length bs + length bs mod 2"
  proof (cases "sz \<le> length bs - k")
    case True
    then have "m = sz" "m mod 2 = 0" using assms(5,6) by (simp_all add: even_iff_mod_2_eq_zero)
    then show ?thesis using True assms(3) by linarith
  next
    case False
    then have "m = length bs - k" using assms(5) by simp
    moreover from this have "m mod 2 = length bs mod 2" using assms(3,4) by (simp add: mod2_eq_if)
    ultimately show ?thesis using assms(3) by linarith
  qed
  then have "fetch (fst p, snd p + k) (m + m mod 2) d = Some (take (m + m mod 2) (drop k xs))"
    using l by (simp add: fetch_def Let_def xs drop_drop[symmetric] add.commute del: drop_append drop_drop)
  moreover have "take m (take (m + m mod 2) (drop k xs)) = take m (drop k xs)" by (simp add: min_def)
  moreover have b: "take (length bs) xs = bs" using assms(2) unfolding cs by (simp add: min_def split: if_splits)
  have "take sz (drop k bs) = take m (drop k bs)" using assms(5) by (simp add: min_def)
  then have "take m (drop k xs) = take sz (drop k bs)"
    using m assms(5) by (subst (asm) b[symmetric]) (simp add: drop_take min_def)
  ultimately show ?thesis by simp
qed

lemma of_nat_unat_eq: "unat w = n \<longleftrightarrow> w = of_nat n" if "n < 2 ^ 32" for w :: u32
  using that by (auto simp: unat_of_nat take_bit_nat_eq_self_iff)

lemma with_tx_flags [simp]:
  "with_tx EPR_STAT_TX_VALID r AND EPR_CTR_RX = r AND EPR_CTR_RX"
  "with_tx EPR_STAT_TX_VALID r AND EPR_CTR_TX = r AND EPR_CTR_TX"
  "stat_rx (with_tx EPR_STAT_TX_VALID r) = stat_rx r"
  "stat_rx (r AND NOT EPR_CTR_TX) = stat_rx r" "(r AND NOT EPR_CTR_TX) AND EPR_CTR_TX = 0"
  "(r AND NOT EPR_CTR_TX) AND EPR_CTR_RX = r AND EPR_CTR_RX"
proof -
  have v: "bit EPR_STAT_TX_VALID n \<longleftrightarrow> n \<in> {4, 5}" for n
    unfolding epr_bits by (rule bit_u16; force simp: bit_numeral_rec bit_simps)
  show "with_tx EPR_STAT_TX_VALID r AND EPR_CTR_RX = r AND EPR_CTR_RX"
    "with_tx EPR_STAT_TX_VALID r AND EPR_CTR_TX = r AND EPR_CTR_TX"
    "stat_rx (with_tx EPR_STAT_TX_VALID r) = stat_rx r"
    "stat_rx (r AND NOT EPR_CTR_TX) = stat_rx r" "(r AND NOT EPR_CTR_TX) AND EPR_CTR_TX = 0"
    "(r AND NOT EPR_CTR_TX) AND EPR_CTR_RX = r AND EPR_CTR_RX"
    unfolding with_tx_def stat_rx_def
    by (rule u16_bits_eqI, elim insertE emptyE; force simp: bit_simps v epr_masks)+
qed

text \<open>The next packet put into the packet memory.\<close>

lemma next_packet:
  assumes "in_ep ep c sz d" and "fetch p (length bs + length bs mod 2) d = Some cs" and "take (length bs) cs = bs"
    and "even k" and "k \<le> length bs" and "n = min sz (length bs - k)"
  shows "\<exists>m. usb_packet_write_from_buffer ep (fst p, snd p + k) n d = Some (d\<lparr>pma := m\<rparr>) \<and>
    in_ep ep c sz (d\<lparr>pma := m\<rparr>) \<and> in_packet ep (d\<lparr>pma := m\<rparr>) = Some (take sz (drop k bs)) \<and>
    length m = 256 \<and> (\<forall>j. j \<noteq> TXCOUNT0 ep \<and>
      (j < unat (pma d ! TXADDR0 ep) div 2 \<or> unat (pma d ! TXADDR0 ep) + sz \<le> 2 * j) \<longrightarrow> m ! j = pma d ! j)"
proof -
  note I = assms(1)[unfolded in_ep_def]
  have area: "pma_area (TXADDR0 ep) sz d" using I by simp
  then have "even sz" "TXADDR0 ep < 32" "64 \<le> unat (pma d ! TXADDR0 ep)" by (simp_all add: pma_area_def)
  obtain ds where ds: "fetch (fst p, snd p + k) (n + n mod 2) d = Some ds" "take n ds = take sz (drop k bs)"
    using fetch_part[OF assms(2,3,5,4,6) \<open>even sz\<close>] by blast
  have "n \<le> sz" using assms(6) by simp
  from packet_copied[OF area this ds(1)] obtain m where m:
    "usb_packet_write_from_buffer ep (fst p, snd p + k) n d = Some (d\<lparr>pma := m\<rparr>)" "length m = 256"
    "in_packet ep (d\<lparr>pma := m\<rparr>) = Some (take n ds)"
    "\<forall>j. j \<noteq> TXCOUNT0 ep \<and> (j < unat (pma d ! TXADDR0 ep) div 2 \<or> unat (pma d ! TXADDR0 ep) + sz \<le> 2 * j)
      \<longrightarrow> m ! j = pma d ! j" by blast
  have "m ! TXADDR0 ep = pma d ! TXADDR0 ep"
    using m(4) \<open>TXADDR0 ep < 32\<close> \<open>64 \<le> _\<close> by (simp add: TXCOUNT0_def TXADDR0_def)
  then have "in_ep ep c sz (d\<lparr>pma := m\<rparr>)" using I m(2) by (simp add: in_ep_def pma_area_def)
  then show ?thesis using m ds(2) by metis
qed

subsection \<open>The steps of a transfer\<close>

lemma in_packet_cong: "pma d = pma d' \<Longrightarrow> in_packet ep d = in_packet ep d'"
  by (simp add: in_packet_def pma_get_def)

lemma in_ep_cong: "pma d = pma d' \<Longrightarrow> epc d = epc d' \<Longrightarrow> in_ep ep c sz d = in_ep ep c sz d'"
  by (simp add: in_ep_def pma_area_def)

lemma in_going_upd:
  assumes "in_ep ep c sz (d\<lparr>pma := m\<rparr>)" and "in_packet ep (d\<lparr>pma := m\<rparr>) = Some (take sz (drop k bs))"
    and "fetch p (length bs + length bs mod 2) d = Some cs" and "take (length bs) cs = bs"
    and "even k" and "k \<le> length bs" and "r AND EPR_CTR_RX = 0" and "r AND EPR_CTR_TX = 0"
    and "unat (xsize x) = length bs" and "unat (xcnt x) = k" and "unat (xlast x) = min sz (length bs - k)"
    and "xbuf x = (fst p, snd p + k)"
  shows "in_going ep c sz p bs k (in_upd ep x (with_tx EPR_STAT_TX_VALID r) m d)"
proof -
  have "in_packet ep (in_upd ep x e m d) = in_packet ep (d\<lparr>pma := m\<rparr>)" for e
    by (rule in_packet_cong) simp
  moreover have "in_ep ep c sz (in_upd ep x e m d) = in_ep ep c sz (d\<lparr>pma := m\<rparr>)" for e
    by (rule in_ep_cong) simp_all
  ultimately show ?thesis using assms by (simp add: in_going_def Let_def)
qed

lemma start_in_run:
  assumes "epc d ep = Some c" and "has_in_state c" and "x = xfers d (in_slot ep)"
    and "(if ucast (in_maxsize c) < xsize x then ucast (in_maxsize c) else xsize x) = l"
  shows "usb_lld_start_in ep d = map_option (EPR_SET_STAT_TX ep EPR_STAT_TX_VALID)
    (usb_packet_write_from_buffer ep (xbuf x) (unat l) (set_xfer (in_slot ep) (xlast_update (\<lambda>_. l)) d))"
  unfolding usb_lld_start_in_def assms(1) assms(3)[symmetric] in_state_def
  by (simp add: assms(2) assms(3)[symmetric] assms(4) map_conv_bind_option comp_def)

lemma in_started:
  assumes "in_ep ep c sz d" and "fetch p (length bs + length bs mod 2) d = Some cs" and "take (length bs) cs = bs"
    and "unat n = length bs" and "epr d ep AND EPR_CTR_RX = 0" and "epr d ep AND EPR_CTR_TX = 0"
  shows "\<exists>x m. usbStartTransmitI ep p n d =
      Some (in_upd ep x (with_tx EPR_STAT_TX_VALID (epr d ep)) m (d\<lparr>transmitting := transmitting d OR ep_bit ep\<rparr>)) \<and>
    in_going ep c sz p bs 0
      (in_upd ep x (with_tx EPR_STAT_TX_VALID (epr d ep)) m (d\<lparr>transmitting := transmitting d OR ep_bit ep\<rparr>)) \<and>
    length m = 256 \<and> (\<forall>j. j \<noteq> TXCOUNT0 ep \<and>
      (j < unat (pma d ! TXADDR0 ep) div 2 \<or> unat (pma d ! TXADDR0 ep) + sz \<le> 2 * j) \<longrightarrow> m ! j = pma d ! j)"
proof -
  note I = assms(1)[unfolded in_ep_def]
  define k where "k = min sz (length bs)"
  define x where "x = \<lparr>xsize = n, xcnt = 0, xbuf = p, xlast = of_nat k\<rparr>"
  define d1 where "d1 = in_upd ep x (epr d ep) (pma d) (d\<lparr>transmitting := transmitting d OR ep_bit ep\<rparr>)"
  have big: "length bs < 2 ^ 32" using assms(4) unsigned_less[of n, where ?'a = nat] by simp
  then have k: "unat (of_nat k :: u32) = k"
    by (simp only: unat_of_nat) (simp add: k_def take_bit_nat_eq_self_iff)
  have cut: "(if ucast (in_maxsize c) < n then ucast (in_maxsize c) else n) = (of_nat k :: u32)"
  proof -
    have "unat (ucast (in_maxsize c) :: u32) = sz" using I by simp
    then have "unat (if ucast (in_maxsize c) < n then ucast (in_maxsize c) else n) = k"
      using assms(4) by (simp add: word_less_nat_alt k_def min_def)
    then show ?thesis using big of_nat_unat_eq[of k] by (simp add: k_def)
  qed
  have d1: "in_ep ep c sz d1" "pma d1 = pma d" "fetch p (length bs + length bs mod 2) d1 = Some cs"
    using I assms(2) by (simp_all add: d1_def in_ep_def pma_area_def)
  from next_packet[OF d1(1,3) assms(3), of 0 k] obtain m where m:
    "usb_packet_write_from_buffer ep p k d1 = Some (d1\<lparr>pma := m\<rparr>)" "in_ep ep c sz (d1\<lparr>pma := m\<rparr>)"
    "in_packet ep (d1\<lparr>pma := m\<rparr>) = Some (take sz (drop 0 bs))" "length m = 256"
    "\<forall>j. j \<noteq> TXCOUNT0 ep \<and> (j < unat (pma d ! TXADDR0 ep) div 2 \<or> unat (pma d ! TXADDR0 ep) + sz \<le> 2 * j)
      \<longrightarrow> m ! j = pma d ! j" by (auto simp: k_def d1(2))
  have x: "y\<lparr>xbuf := p, xsize := n, xcnt := 0, xlast := of_nat k\<rparr> = x" for y :: xfer
    by (cases y) (simp add: x_def)
  define d0 where "d0 = set_xfer (in_slot ep) (\<lambda>x. x\<lparr>xbuf := p, xsize := n, xcnt := 0\<rparr>)
    (d\<lparr>transmitting := transmitting d OR ep_bit ep\<rparr>)"
  have d0: "set_xfer (in_slot ep) (xlast_update (\<lambda>_. of_nat k)) d0 = d1" "epc d0 ep = Some c"
    "xsize (xfers d0 (in_slot ep)) = n" "xbuf (xfers d0 (in_slot ep)) = p"
    using I by (simp_all add: set_xfer_def d0_def d1_def in_upd_def) (simp add: x)
  have cut0: "(if ucast (in_maxsize c) < xsize (xfers d0 (in_slot ep)) then ucast (in_maxsize c)
      else xsize (xfers d0 (in_slot ep))) = of_nat k"
    unfolding d0(3) by (rule cut)
  have "usb_lld_start_in ep d0 = Some (EPR_SET_STAT_TX ep EPR_STAT_TX_VALID (d1\<lparr>pma := m\<rparr>))"
    using start_in_run[OF d0(2) _ refl cut0] I m(1) by (simp add: d0 k)
  then have "usbStartTransmitI ep p n d = Some (EPR_SET_STAT_TX ep EPR_STAT_TX_VALID (d1\<lparr>pma := m\<rparr>))"
    using I by (simp add: usbStartTransmitI_def in_state_def d0_def)
  moreover have "EPR_SET_STAT_TX ep EPR_STAT_TX_VALID (d1\<lparr>pma := m\<rparr>) =
      in_upd ep x (with_tx EPR_STAT_TX_VALID (epr d ep)) m (d\<lparr>transmitting := transmitting d OR ep_bit ep\<rparr>)"
    by (simp add: status_macros d1_def)
  moreover have "in_going ep c sz p bs 0
      (in_upd ep x (with_tx EPR_STAT_TX_VALID (epr d ep)) m (d\<lparr>transmitting := transmitting d OR ep_bit ep\<rparr>))"
  proof (rule in_going_upd)
    show "in_ep ep c sz (d\<lparr>transmitting := transmitting d OR ep_bit ep, pma := m\<rparr>)"
      using m(2) by (rule in_ep_cong[THEN iffD1, rotated 2]) (simp_all add: d1_def)
    show "in_packet ep (d\<lparr>transmitting := transmitting d OR ep_bit ep, pma := m\<rparr>) = Some (take sz (drop 0 bs))"
      using m(3) by (subst in_packet_cong[where d' = "d1\<lparr>pma := m\<rparr>"]) simp_all
    show "fetch p (length bs + length bs mod 2) (d\<lparr>transmitting := transmitting d OR ep_bit ep\<rparr>) = Some cs"
      using assms(2) by simp
  qed (use assms(3-6) k in \<open>simp_all add: x_def k_def\<close>)
  ultimately show ?thesis using m(4,5) by (intro exI[of _ x] exI[of _ m]) simp
qed

lemma host_in_going:
  assumes "in_going ep c sz p bs k d"
  shows "host_in ep d = Some (take sz (drop k bs), d\<lparr>epr := (epr d)(ep := after_in (epr d ep))\<rparr>)"
  using assms by (simp add: host_in_def in_going_def)

definition in_served :: "u16 \<Rightarrow> u16" where
  "in_served r = after_in r AND NOT EPR_CTR_TX"

lemma in_served_fields:
  "in_served r AND EPR_CTR_TX = 0" "in_served r AND EPR_CTR_RX = r AND EPR_CTR_RX"
  "stat_rx (in_served r) = stat_rx r"
  by (simp_all add: in_served_def after_in_fields)

lemma serve_in_run:
  assumes "has_in_state c" and "x = xfers d (in_slot ep)" and "xcnt x + xlast x = k" and "xsize x - k = n"
    and "(if ucast (in_maxsize c) < n then ucast (in_maxsize c) else n) = m"
    and "d1 = set_xfer (in_slot ep) (xcnt_update (\<lambda>_. k)) (EPR_CLEAR_CTR_TX ep d)"
    and "q = (fst (xbuf x), snd (xbuf x) + unat (xlast x))"
  shows "serve_in run ep c d =
    (if 0 < n then map_option (EPR_SET_STAT_TX ep EPR_STAT_TX_VALID)
       (usb_packet_write_from_buffer ep q (unat m) (set_xfer (in_slot ep) (\<lambda>x. x\<lparr>xbuf := q, xlast := m\<rparr>) d1))
     else usb_isr_invoke_in_cb run ep d1)"
  unfolding serve_in_def in_state_def
  by (simp only: assms(1) if_True Option.bind.simps Let_def assms(2)[symmetric] assms(3,4,5) assms(6,7)[symmetric]
      map_conv_bind_option comp_def)

text \<open>What serving a taken packet comes down to.\<close>

lemma served_in:
  assumes "in_going ep c sz p bs k d" and "x = xfers d (in_slot ep)" and "j = k + min sz (length bs - k)"
  shows "usb_serve_endpoints run ep (d\<lparr>epr := (epr d)(ep := after_in (epr d ep))\<rparr>) =
    (let d1 = in_upd ep (x\<lparr>xcnt := of_nat j\<rparr>) (in_served (epr d ep)) (pma d) d;
         n = min sz (length bs - j) in
     if j < length bs then
       map_option (EPR_SET_STAT_TX ep EPR_STAT_TX_VALID)
         (usb_packet_write_from_buffer ep (fst p, snd p + j) n
           (set_xfer (in_slot ep) (\<lambda>x. x\<lparr>xbuf := (fst p, snd p + j), xlast := of_nat n\<rparr>) d1))
     else usb_isr_invoke_in_cb run ep d1)"
proof -
  let ?d = "d\<lparr>epr := (epr d)(ep := after_in (epr d ep))\<rparr>"
  note G = assms(1)[unfolded in_going_def Let_def, folded assms(2)]
  note I = G[THEN conjunct1, unfolded in_ep_def]
  have big: "length bs < 2 ^ 32" using G unsigned_less[of "xsize x", where ?'a = nat] by simp
  have "k \<le> length bs" using G by simp
  then have j: "j \<le> length bs" by (auto simp: assms(3) min_def)
  have cnt: "xcnt x + xlast x = of_nat j"
  proof -
    have "xcnt x = of_nat k" "xlast x = of_nat (min sz (length bs - k))"
      using G big of_nat_unat_eq[of k "xcnt x"] of_nat_unat_eq[of "min sz (length bs - k)" "xlast x"] by auto
    then show ?thesis by (simp add: assms(3))
  qed
  have size: "xsize x = of_nat (length bs)" using G big of_nat_unat_eq[of "length bs" "xsize x"] by auto
  have left: "xsize x - of_nat j = of_nat (length bs - j)" using j by (simp add: size of_nat_diff)
  have u: "unat (of_nat (length bs - j) :: u32) = length bs - j"
    using big of_nat_unat_eq[of "length bs - j" "of_nat (length bs - j)"] by simp
  have more: "0 < (of_nat (length bs - j) :: u32) \<longleftrightarrow> j < length bs"
    unfolding word_less_nat_alt u by simp
  have cut: "(if ucast (in_maxsize c) < (of_nat (length bs - j) :: u32) then ucast (in_maxsize c)
      else of_nat (length bs - j)) = (of_nat (min sz (length bs - j)) :: u32)"
  proof -
    have "unat (if ucast (in_maxsize c) < (of_nat (length bs - j) :: u32) then ucast (in_maxsize c)
      else of_nat (length bs - j) :: u32) = min sz (length bs - j)"
      using I by (simp add: word_less_nat_alt u min_def)
    then show ?thesis using big of_nat_unat_eq[of "min sz (length bs - j)"] by simp
  qed
  have umin: "unat (of_nat (min sz (length bs - j)) :: u32) = min sz (length bs - j)"
    using big of_nat_unat_eq[of "min sz (length bs - j)" "of_nat (min sz (length bs - j))"] by simp
  have buf: "(fst (xbuf x), snd (xbuf x) + unat (xlast x)) = (fst p, snd p + j)"
    using G assms(3) by simp
  have st: "set_xfer (in_slot ep) (xcnt_update (\<lambda>_. of_nat j)) (EPR_CLEAR_CTR_TX ep ?d) =
      in_upd ep (x\<lparr>xcnt := of_nat j\<rparr>) (in_served (epr d ep)) (pma d) d"
    by (simp add: EPR_CLEAR_CTR_TX_eq set_xfer_def in_upd_def in_served_def assms(2))
  have "usb_serve_endpoints run ep ?d = serve_in run ep c ?d"
    using I G by (simp add: usb_serve_endpoints_def after_in_fields)
  also have "\<dots> = (if 0 < (of_nat (length bs - j) :: u32) then map_option (EPR_SET_STAT_TX ep EPR_STAT_TX_VALID)
       (usb_packet_write_from_buffer ep (fst p, snd p + j) (unat (of_nat (min sz (length bs - j)) :: u32))
         (set_xfer (in_slot ep) (\<lambda>x. x\<lparr>xbuf := (fst p, snd p + j), xlast := of_nat (min sz (length bs - j))\<rparr>)
           (in_upd ep (x\<lparr>xcnt := of_nat j\<rparr>) (in_served (epr d ep)) (pma d) d)))
     else usb_isr_invoke_in_cb run ep (in_upd ep (x\<lparr>xcnt := of_nat j\<rparr>) (in_served (epr d ep)) (pma d) d))"
    using I assms(2) by (intro serve_in_run[OF _ _ cnt left cut st[symmetric] buf[symmetric]]) simp_all
  finally show ?thesis unfolding more umin Let_def .
qed

text \<open>What a transfer leaves alone in the packet memory.\<close>

definition tx_same :: "nat \<Rightarrow> nat \<Rightarrow> u16 list \<Rightarrow> u16 list \<Rightarrow> bool" where
  "tx_same ep sz m m' \<longleftrightarrow> length m' = length m \<and> (\<forall>j. j \<noteq> TXCOUNT0 ep \<and>
     (j < unat (m ! TXADDR0 ep) div 2 \<or> unat (m ! TXADDR0 ep) + sz \<le> 2 * j) \<longrightarrow> m' ! j = m ! j)"

lemma tx_same_refl [simp]: "tx_same ep sz m m"
  by (simp add: tx_same_def)

lemma tx_same_trans:
  assumes "in_ep ep c sz d" and "tx_same ep sz (pma d) m" and "tx_same ep sz m m'"
  shows "tx_same ep sz (pma d) m'"
proof -
  have "64 \<le> unat (pma d ! TXADDR0 ep)" "TXADDR0 ep < 32"
    using assms(1) by (simp_all add: in_ep_def pma_area_def)
  then have a: "TXADDR0 ep \<noteq> TXCOUNT0 ep" "TXADDR0 ep < unat (pma d ! TXADDR0 ep) div 2"
    using div_le_mono[of 64 "unat (pma d ! TXADDR0 ep)" 2] by (simp_all add: TXADDR0_def TXCOUNT0_def)
  then have "m ! TXADDR0 ep = pma d ! TXADDR0 ep" using assms(2) by (simp add: tx_same_def)
  then show ?thesis using assms(2,3) by (simp add: tx_same_def)
qed

lemma in_going_ep: "in_going ep c sz p bs k d \<Longrightarrow> in_ep ep c sz d"
  by (simp add: in_going_def)

lemma in_more:
  assumes "in_going ep c sz p bs k d" and "k + sz < length bs" and "x = xfers d (in_slot ep)"
  shows "\<exists>y m. usb_serve_endpoints run ep (d\<lparr>epr := (epr d)(ep := after_in (epr d ep))\<rparr>) =
      Some (in_upd ep y (with_tx EPR_STAT_TX_VALID (in_served (epr d ep))) m d) \<and>
    in_going ep c sz p bs (k + sz) (in_upd ep y (with_tx EPR_STAT_TX_VALID (in_served (epr d ep))) m d) \<and>
    xsize y = xsize x \<and> tx_same ep sz (pma d) m"
proof -
  note G = assms(1)[unfolded in_going_def Let_def, folded assms(3)]
  have I: "in_ep ep c sz d" using G by simp
  then have ev: "even sz" by (simp add: in_ep_def pma_area_def)
  obtain cs where cs: "fetch p (length bs + length bs mod 2) d = Some cs" "take (length bs) cs = bs" using G by blast
  define j n where "j = k + sz" and "n = min sz (length bs - j)"
  have jj: "j = k + min sz (length bs - k)" "j < length bs" "even j" "j \<le> length bs"
    using assms(2) G ev by (simp_all add: j_def)
  define y where "y = x\<lparr>xcnt := of_nat j, xbuf := (fst p, snd p + j), xlast := of_nat n\<rparr>"
  define d1 where "d1 = in_upd ep y (in_served (epr d ep)) (pma d) d"
  have "in_ep ep c sz d1" using I by (rule in_ep_cong[THEN iffD1, rotated 2]) (simp_all add: d1_def)
  moreover have "fetch p (length bs + length bs mod 2) d1 = Some cs" using cs(1) by (simp add: d1_def)
  ultimately obtain m where m: "usb_packet_write_from_buffer ep (fst p, snd p + j) n d1 = Some (d1\<lparr>pma := m\<rparr>)"
    "in_ep ep c sz (d1\<lparr>pma := m\<rparr>)" "in_packet ep (d1\<lparr>pma := m\<rparr>) = Some (take sz (drop j bs))" "length m = 256"
    "\<forall>i. i \<noteq> TXCOUNT0 ep \<and> (i < unat (pma d1 ! TXADDR0 ep) div 2 \<or> unat (pma d1 ! TXADDR0 ep) + sz \<le> 2 * i)
      \<longrightarrow> m ! i = pma d1 ! i"
    using next_packet[OF _ _ cs(2) jj(3,4) n_def] by blast
  have "usb_serve_endpoints run ep (d\<lparr>epr := (epr d)(ep := after_in (epr d ep))\<rparr>) =
      Some (in_upd ep y (with_tx EPR_STAT_TX_VALID (in_served (epr d ep))) m d)"
    unfolding served_in[OF assms(1,3) jj(1)] Let_def n_def[symmetric]
    using jj(2) m(1) by (simp add: y_def[symmetric] d1_def[symmetric] status_macros) (simp add: d1_def in_upd_def)
  moreover have "in_going ep c sz p bs j (in_upd ep y (with_tx EPR_STAT_TX_VALID (in_served (epr d ep))) m d)"
  proof (rule in_going_upd)
    show "in_ep ep c sz (d\<lparr>pma := m\<rparr>)"
      using m(2) by (rule in_ep_cong[THEN iffD1, rotated 2]) (simp_all add: d1_def)
    show "in_packet ep (d\<lparr>pma := m\<rparr>) = Some (take sz (drop j bs))"
      using m(3) by (subst in_packet_cong[where d' = "d1\<lparr>pma := m\<rparr>"]) simp_all
    have big: "length bs < 2 ^ 32" using G unsigned_less[of "xsize x", where ?'a = nat] by simp
    show "unat (xcnt y) = j" using big jj(4) of_nat_unat_eq[of j "of_nat j"] by (simp add: y_def)
    show "unat (xlast y) = min sz (length bs - j)"
      using big of_nat_unat_eq[of n "of_nat n"] by (simp add: y_def n_def)
  qed (use G cs jj in \<open>simp_all add: in_served_fields y_def\<close>)
  moreover have "tx_same ep sz (pma d) m"
    using m(4,5) I by (simp add: tx_same_def d1_def in_ep_def pma_area_def)
  ultimately show ?thesis by (intro exI[of _ y] exI[of _ m]) (simp add: j_def y_def)
qed

lemma in_last:
  assumes "in_going ep c sz p bs k d" and "length bs \<le> k + sz" and "x = xfers d (in_slot ep)"
  shows "usb_serve_endpoints run ep (d\<lparr>epr := (epr d)(ep := after_in (epr d ep))\<rparr>) =
    usb_isr_invoke_in_cb run ep (in_upd ep (x\<lparr>xcnt := xsize x\<rparr>) (in_served (epr d ep)) (pma d) d)"
proof -
  note G = assms(1)[unfolded in_going_def Let_def, folded assms(3)]
  have big: "length bs < 2 ^ 32" using G unsigned_less[of "xsize x", where ?'a = nat] by simp
  have "length bs = k + min sz (length bs - k)" using assms(2) G by simp
  from served_in[OF assms(1,3) this] show ?thesis
    using G big of_nat_unat_eq[of "length bs" "xsize x"] by simp
qed

subsection \<open>A whole transfer\<close>

lemma ctr_flags: "r AND EPR_CTR_MASK = 0 \<longleftrightarrow> r AND EPR_CTR_TX = 0 \<and> r AND EPR_CTR_RX = 0"
  by (simp add: EPR_CTR_MASK_def bit.conj_disj_distrib or_eq_0_iff)

function chunks :: "nat \<Rightarrow> u8 list \<Rightarrow> u8 list list" where
  "chunks sz bs = (if sz = 0 \<or> length bs \<le> sz then [bs] else take sz bs # chunks sz (drop sz bs))"
  by pat_completeness auto
termination
  by (relation "measure (\<lambda>(_, bs). length bs)") auto

declare chunks.simps [simp del]

lemma concat_chunks: "concat (chunks sz bs) = bs"
proof (induction sz bs rule: chunks.induct)
  case (1 sz bs)
  then show ?case by (subst chunks.simps) auto
qed

lemma in_rest:
  assumes "in_going ep c sz p bs k d" and "x = xfers d (in_slot ep)"
  shows "\<exists>y e m. host_reads run ep (length (chunks sz (drop k bs))) d =
      map_option (Pair (chunks sz (drop k bs))) (usb_isr_invoke_in_cb run ep (in_upd ep y e m d)) \<and>
    xsize y = xsize x \<and> xcnt y = xsize x \<and> stat_rx e = stat_rx (epr d ep) \<and>
    e AND EPR_CTR_TX = 0 \<and> e AND EPR_CTR_RX = 0 \<and> tx_same ep sz (pma d) m"
  using assms
proof (induction "length bs - k" arbitrary: k d x rule: less_induct)
  case less
  have sz: "0 < sz" using in_going_ep[OF less.prems(1)] by (simp add: in_ep_def)
  have flags: "epr d ep AND EPR_CTR_RX = 0" using less.prems(1) by (simp add: in_going_def)
  show ?case
  proof (cases "k + sz < length bs")
    case True
    obtain y m where ym: "usb_serve_endpoints run ep (d\<lparr>epr := (epr d)(ep := after_in (epr d ep))\<rparr>) =
        Some (in_upd ep y (with_tx EPR_STAT_TX_VALID (in_served (epr d ep))) m d)"
      "in_going ep c sz p bs (k + sz) (in_upd ep y (with_tx EPR_STAT_TX_VALID (in_served (epr d ep))) m d)"
      "xsize y = xsize x" "tx_same ep sz (pma d) m"
      using in_more[OF less.prems(1) True less.prems(2), of run] by blast
    have "length bs - (k + sz) < length bs - k" using True sz by linarith
    from less.hyps[OF this ym(2) refl] obtain z e m' where z:
      "host_reads run ep (length (chunks sz (drop (k + sz) bs)))
          (in_upd ep y (with_tx EPR_STAT_TX_VALID (in_served (epr d ep))) m d) =
        map_option (Pair (chunks sz (drop (k + sz) bs))) (usb_isr_invoke_in_cb run ep (in_upd ep z e m' d))"
      "xsize z = xsize y" "xcnt z = xsize y" "stat_rx e = stat_rx (epr d ep)"
      "e AND EPR_CTR_TX = 0" "e AND EPR_CTR_RX = 0" "tx_same ep sz m m'"
      by (auto simp: in_served_fields)
    have ch: "chunks sz (drop k bs) = take sz (drop k bs) # chunks sz (drop (k + sz) bs)"
    proof -
      have "\<not> length bs - k \<le> sz" using True by linarith
      then show ?thesis using sz by (subst chunks.simps) (simp add: add.commute)
    qed
    have "tx_same ep sz (pma d) m'" using in_going_ep[OF less.prems(1)] ym(4) z(7) by (rule tx_same_trans)
    then show ?thesis
      using z(2-6) ym(3) unfolding ch
      by (intro exI[of _ z] exI[of _ e] exI[of _ m'])
        (simp add: host_in_going[OF less.prems(1)] ym(1) z(1), cases "usb_isr_invoke_in_cb run ep (in_upd ep z e m' d)"; simp)
  next
    case False
    then have "length bs - k \<le> sz" by linarith
    then have ch: "chunks sz (drop k bs) = [drop k bs]" "take sz (drop k bs) = drop k bs"
      by (simp_all add: chunks.simps)
    show ?thesis
      using False flags unfolding ch
      by (intro exI[of _ "x\<lparr>xcnt := xsize x\<rparr>"] exI[of _ "in_served (epr d ep)"] exI[of _ "pma d"])
        (simp add: host_in_going[OF less.prems(1)] ch(2) in_last[OF less.prems(1) _ less.prems(2)] in_served_fields map_conv_bind_option comp_def)
  qed
qed

text \<open>
  C27: A buffer given to the driver for an endpoint reaches the host as packets of the
  endpoint's size, the last one shorter if the sizes do not divide, an empty buffer as one
  empty packet, and the packets joined are the buffer. Then, and not before, the endpoint's
  callback runs, with the whole size counted.
\<close>

theorem in_transfer:
  assumes "in_ep ep c sz d" and "fetch p (length bs + length bs mod 2) d = Some cs" and "take (length bs) cs = bs"
    and "unat n = length bs" and "epr d ep AND EPR_CTR_MASK = 0"
  shows "\<exists>d0 y e m. usbStartTransmitI ep p n d = Some d0 \<and>
    host_reads run ep (length (chunks sz bs)) d0 =
      map_option (Pair (chunks sz bs)) (usb_isr_invoke_in_cb run ep (in_upd ep y e m d0)) \<and>
    concat (chunks sz bs) = bs \<and> xsize y = n \<and> xcnt y = n \<and> e AND EPR_CTR_MASK = 0"
proof -
  obtain x m where st: "usbStartTransmitI ep p n d =
      Some (in_upd ep x (with_tx EPR_STAT_TX_VALID (epr d ep)) m (d\<lparr>transmitting := transmitting d OR ep_bit ep\<rparr>))"
    "in_going ep c sz p bs 0
      (in_upd ep x (with_tx EPR_STAT_TX_VALID (epr d ep)) m (d\<lparr>transmitting := transmitting d OR ep_bit ep\<rparr>))"
    using in_started[OF assms(1-4)] assms(5) by (auto simp: ctr_flags)
  obtain d0 where d0: "d0 = in_upd ep x (with_tx EPR_STAT_TX_VALID (epr d ep)) m
      (d\<lparr>transmitting := transmitting d OR ep_bit ep\<rparr>)" by blast
  have x: "xsize (xfers d0 (in_slot ep)) = n"
    using st(2) assms(4) by (auto simp: in_going_def Let_def d0[symmetric] word_unat_eq_iff)
  from in_rest[OF st(2)[folded d0] refl, of run] show ?thesis
    unfolding x st(1) d0[symmetric] by (auto simp: ctr_flags concat_chunks)
qed

end
