(* ===== verification/Usb_Out.thy ===== *)
theory Usb_Out
  imports Usb_In
begin

text \<open>
  Transfers from the host: the packets that arrive on an endpoint are copied behind each
  other into the buffer handed to the driver, until one is shorter than the endpoint's size
  or the announced number has come; then the endpoint's callback runs.
\<close>

subsection \<open>The host sends\<close>

text \<open>
  A packet of the host in the packet memory with its length, whatever the peripheral writes
  behind an odd last byte; the endpoint refuses further packets and has its flag up.
\<close>

definition rx_packet :: "nat \<Rightarrow> u8 list \<Rightarrow> usbd \<Rightarrow> usbd option" where
  "rx_packet ep bs d = do {
     a \<leftarrow> pma_get (RXADDR0 ep) d;
     c \<leftarrow> pma_get (RXCOUNT0 ep) d;
     m \<leftarrow> pma_fill (USB_ADDR2PTR a) (if even (length bs) then bs else bs @ [stray d]) (pma d);
     Some (d\<lparr>pma := m[RXCOUNT0 ep := (c AND 0xFC00) OR of_nat (length bs)]\<rparr>) }"

definition after_out :: "u16 \<Rightarrow> u16" where
  "after_out r = ((with_rx EPR_STAT_RX_NAK r XOR EPR_DTOG_RX) AND NOT EPR_SETUP) OR EPR_CTR_RX"

definition host_out :: "nat \<Rightarrow> u8 list \<Rightarrow> usbd \<Rightarrow> usbd option" where
  "host_out ep bs d =
     (if stat_rx (epr d ep) \<noteq> EPR_STAT_RX_VALID then None
      else map_option (\<lambda>d1. d1\<lparr>epr := (epr d1)(ep := after_out (epr d ep))\<rparr>) (rx_packet ep bs d))"

text \<open>A setup packet is always taken; both directions of the endpoint then refuse.\<close>

definition after_setup :: "u16 \<Rightarrow> u16" where
  "after_setup r =
     with_rx EPR_STAT_RX_NAK (with_tx EPR_STAT_TX_NAK r) OR EPR_DTOG_TX OR EPR_DTOG_RX OR EPR_SETUP OR EPR_CTR_RX"

definition host_setup :: "u8 list \<Rightarrow> usbd \<Rightarrow> usbd option" where
  "host_setup bs d =
     map_option (\<lambda>d1. d1\<lparr>epr := (epr d1)(0 := after_setup (epr d 0))\<rparr>) (rx_packet 0 bs d)"

definition out_served :: "u16 \<Rightarrow> u16" where "out_served r = after_out r AND NOT EPR_CTR_RX"
definition setup_served :: "u16 \<Rightarrow> u16" where "setup_served r = after_setup r AND NOT EPR_CTR_RX"

lemma out_fields:
  "after_out r AND EPR_CTR_RX \<noteq> 0" "after_out r AND EPR_CTR_TX = r AND EPR_CTR_TX" "after_out r AND EPR_SETUP = 0"
  "after_setup r AND EPR_CTR_RX \<noteq> 0" "after_setup r AND EPR_CTR_TX = r AND EPR_CTR_TX"
  "after_setup r AND EPR_SETUP \<noteq> 0"
  "out_served r AND EPR_CTR_RX = 0" "out_served r AND EPR_CTR_TX = r AND EPR_CTR_TX" "stat_tx (out_served r) = stat_tx r"
  "setup_served r AND EPR_CTR_RX = 0" "setup_served r AND EPR_CTR_TX = r AND EPR_CTR_TX"
proof -
  have b: "bit EPR_STAT_TX_NAK n \<longleftrightarrow> n \<in> {5}" "bit EPR_DTOG_TX n \<longleftrightarrow> n \<in> {6}" "bit EPR_SETUP n \<longleftrightarrow> n \<in> {11}"
    "bit EPR_DTOG_RX n \<longleftrightarrow> n \<in> {14}" for n
    unfolding epr_bits by (rule bit_u16; force simp: bit_numeral_rec bit_simps)+
  note defs = after_out_def after_setup_def out_served_def setup_served_def with_tx_def with_rx_def stat_tx_def
  have "bit (after_out r AND EPR_CTR_RX) 15" "bit (after_setup r AND EPR_CTR_RX) 15"
    "bit (after_setup r AND EPR_SETUP) 11" by (simp_all add: defs bit_simps epr_masks b)
  then show "after_out r AND EPR_CTR_RX \<noteq> 0" "after_setup r AND EPR_CTR_RX \<noteq> 0"
    "after_setup r AND EPR_SETUP \<noteq> 0" by auto
  show "after_out r AND EPR_CTR_TX = r AND EPR_CTR_TX" "after_out r AND EPR_SETUP = 0"
    "after_setup r AND EPR_CTR_TX = r AND EPR_CTR_TX"
    "out_served r AND EPR_CTR_RX = 0" "out_served r AND EPR_CTR_TX = r AND EPR_CTR_TX" "stat_tx (out_served r) = stat_tx r"
    "setup_served r AND EPR_CTR_RX = 0" "setup_served r AND EPR_CTR_TX = r AND EPR_CTR_TX"
    unfolding defs by (rule u16_bits_eqI, elim insertE emptyE; force simp: bit_simps b epr_masks)+
qed

text \<open>What reception leaves alone in the packet memory.\<close>

definition rx_same :: "nat \<Rightarrow> nat \<Rightarrow> u16 list \<Rightarrow> u16 list \<Rightarrow> bool" where
  "rx_same ep sz m m' \<longleftrightarrow> length m' = length m \<and> (\<forall>j. j \<noteq> RXCOUNT0 ep \<and>
     (j < unat (m ! RXADDR0 ep) div 2 \<or> unat (m ! RXADDR0 ep) + sz \<le> 2 * j) \<longrightarrow> m' ! j = m ! j)"

lemma count_merge: "n < 1024 \<Longrightarrow> ((c AND 0xFC00) OR of_nat n) AND 0x03FF = (of_nat n :: u16)"
proof -
  assume n: "n < 1024"
  have "take_bit 10 (of_nat n) = (of_nat n :: u16)"
    using n by (simp add: word_unat_eq_iff unsigned_take_bit_eq unat_of_nat take_bit_nat_eq_self_iff)
  then have hi: "bit (of_nat n :: u16) k \<Longrightarrow> k < 10" for k by (metis bit_take_bit_iff)
  have v: "bit (0xFC00 :: u16) k \<longleftrightarrow> k \<in> {10, 11, 12, 13, 14, 15}"
    "bit (0x03FF :: u16) k \<longleftrightarrow> k \<in> {0, 1, 2, 3, 4, 5, 6, 7, 8, 9}" for k
    by (rule bit_u16; force simp: bit_numeral_rec bit_simps)+
  obtain w where w: "w = (of_nat n :: u16)" by blast
  have "bit (((c AND 0xFC00) OR w) AND 0x03FF) k = bit w k"
    if "k \<in> {0, 1, 2, 3, 4, 5, 6, 7, 8, 9, 10, 11, 12, 13, 14, 15}" for k
    using that hi[of k, folded w] by (auto simp: bit_simps v)
  then show ?thesis unfolding w[symmetric] by (intro u16_bits_eqI)
qed

lemma pma_load_cong:
  "\<forall>j\<ge>i. m ! j = m' ! j \<Longrightarrow> length m = length m' \<Longrightarrow> pma_load i n m = pma_load i n m'"
proof (induction i n m rule: pma_load.induct)
  case (1 i n m)
  then show ?case by (subst (1 2) pma_load.simps) auto
qed

lemma received:
  assumes "pma_area (RXADDR0 ep) sz d" and "length bs \<le> sz" and "ep < 8"
  shows "\<exists>m. rx_packet ep bs d = Some (d\<lparr>pma := m\<rparr>) \<and> length m = 256 \<and> rx_same ep sz (pma d) m \<and>
    m ! RXADDR0 ep = pma d ! RXADDR0 ep \<and> unat (m ! RXCOUNT0 ep AND 0x03FF) = length bs \<and>
    (\<forall>n \<le> length bs. pma_load (USB_ADDR2PTR (pma d ! RXADDR0 ep)) n m = Some (take n bs))"
proof -
  define a i where "a = pma d ! RXADDR0 ep" and "i = unat a div 2"
  note A = assms(1)[unfolded pma_area_def, folded a_def]
  have a2: "unat a = 2 * i" "32 \<le> i" using A by (auto simp: i_def)
  define cs where "cs = (if even (length bs) then bs else bs @ [stray d])"
  have ev: "even (length cs)" by (simp add: cs_def)
  have half: "2 * (length cs div 2) = length bs + length bs mod 2" by (auto simp: cs_def) presburger
  have fit: "length bs + length bs mod 2 \<le> sz" using assms(2) A by presburger
  have "i + length cs div 2 \<le> length (pma d)" using A half fit a2 by linarith
  from pma_fill_load[OF ev this] obtain m0 where m0: "pma_fill i cs (pma d) = Some m0" "length m0 = length (pma d)"
    "\<And>k. k \<le> length cs \<Longrightarrow> pma_load i k m0 = Some (take k cs)"
    "\<And>j. j < i \<or> i + length cs div 2 \<le> j \<Longrightarrow> m0 ! j = pma d ! j" by blast
  define m where "m = m0[RXCOUNT0 ep := (pma d ! RXCOUNT0 ep AND 0xFC00) OR of_nat (length bs)]"
  have slots: "RXADDR0 ep < 32" "RXCOUNT0 ep < 32" "RXADDR0 ep \<noteq> RXCOUNT0 ep"
    using assms(3) by (simp_all add: RXADDR0_def RXCOUNT0_def)
  have lm: "length m = 256" "length m0 = 256" using m0(2) A by (simp_all add: m_def)
  have run: "rx_packet ep bs d = Some (d\<lparr>pma := m\<rparr>)"
    using A slots m0(1) by (simp add: rx_packet_def pma_get_def USB_ADDR2PTR_def a_def[symmetric] i_def[symmetric]
        cs_def[symmetric] m_def)
  have "pma_load i n m = pma_load i n m0" for n
    using slots a2(2) lm by (intro pma_load_cong) (simp_all add: m_def)
  then have load: "pma_load i n m = Some (take n bs)" if "n \<le> length bs" for n
    using m0(3)[of n] that by (cases "even (length bs)") (simp_all add: cs_def)
  have "length bs < 1024" using assms(2) A by linarith
  then have cnt: "unat (m ! RXCOUNT0 ep AND 0x03FF) = length bs"
    using slots lm by (simp add: m_def count_merge unat_of_nat take_bit_nat_eq_self_iff)
  have same: "rx_same ep sz (pma d) m"
    unfolding rx_same_def
  proof (intro conjI allI impI)
    show "length m = length (pma d)" using lm A by simp
    fix j
    assume j: "j \<noteq> RXCOUNT0 ep \<and> (j < unat (pma d ! RXADDR0 ep) div 2 \<or> unat (pma d ! RXADDR0 ep) + sz \<le> 2 * j)"
    then have "j < i \<or> i + length cs div 2 \<le> j" using half fit a2 by (auto simp: a_def[symmetric])
    then show "m ! j = pma d ! j" using m0(4)[of j] j by (simp add: m_def)
  qed
  have "m ! RXADDR0 ep = a" using m0(4)[of "RXADDR0 ep"] slots a2(2) by (simp add: m_def a_def)
  then show ?thesis
    using run lm(1) same cnt load by (intro exI[of _ m]) (simp add: a_def[symmetric] USB_ADDR2PTR_def i_def[symmetric])
qed

subsection \<open>Serving a packet\<close>

definition out_ep :: "nat \<Rightarrow> USBEndpointConfig \<Rightarrow> nat \<Rightarrow> usbd \<Rightarrow> bool" where
  "out_ep ep c sz d \<longleftrightarrow> epc d ep = Some c \<and> has_out_state c \<and> unat (out_maxsize c) = sz \<and> 0 < sz \<and> ep < 8 \<and>
     pma_area (RXADDR0 ep) sz d"

text \<open>The transfer's state after a packet of \<open>k\<close> bytes.\<close>

definition out_adv :: "nat \<Rightarrow> xfer \<Rightarrow> xfer" where
  "out_adv k x = set_rxpkts (rxpkts x - 1)
     (x\<lparr>xbuf := (fst (xbuf x), snd (xbuf x) + k), xcnt := xcnt x + of_nat k, xsize := xsize x - of_nat k\<rparr>)"

lemma store_pma_epr:
  "store_at p bs (d\<lparr>pma := m, epr := e\<rparr>) = map_option (\<lambda>d. d\<lparr>pma := m, epr := e\<rparr>) (store_at p bs d)"
  by (cases "fst p") (simp_all add: store_at_def)

lemma store_keeps:
  "store_at p bs d = Some d' \<Longrightarrow> pma d' = pma d" "store_at p bs d = Some d' \<Longrightarrow> epr d' = epr d"
  "store_at p bs d = Some d' \<Longrightarrow> epc d' = epc d" "store_at p bs d = Some d' \<Longrightarrow> xfers d' = xfers d"
  unfolding store_at_def by (cases "fst p"; simp split: if_split_asm; clarsimp)+

lemma served_out:
  assumes "out_ep ep c sz d" and "stat_rx (epr d ep) = EPR_STAT_RX_VALID" and "epr d ep AND EPR_CTR_MASK = 0"
    and "length bs \<le> sz" and "x = xfers d (out_slot ep)"
  shows "\<exists>m d1. host_out ep bs d = Some d1 \<and> rx_same ep sz (pma d) m \<and> m ! RXADDR0 ep = pma d ! RXADDR0 ep \<and>
    usb_serve_endpoints run ep d1 =
      Option.bind (store_at (xbuf x) bs (d\<lparr>pma := m, epr := (epr d)(ep := out_served (epr d ep))\<rparr>)) (\<lambda>d2.
        let d3 = set_xfer (out_slot ep) (out_adv (length bs)) d2 in
        if length bs < sz \<or> rxpkts (out_adv (length bs) x) = 0 then usb_isr_invoke_out_cb run ep d3
        else Some (EPR_SET_STAT_RX ep EPR_STAT_RX_VALID d3))"
proof -
  note O = assms(1)[unfolded out_ep_def]
  obtain m where m: "rx_packet ep bs d = Some (d\<lparr>pma := m\<rparr>)" "length m = 256" "rx_same ep sz (pma d) m"
    "m ! RXADDR0 ep = pma d ! RXADDR0 ep" "unat (m ! RXCOUNT0 ep AND 0x03FF) = length bs"
    "\<forall>n \<le> length bs. pma_load (USB_ADDR2PTR (pma d ! RXADDR0 ep)) n m = Some (take n bs)"
    using received[of ep sz d bs] O assms(4) by auto
  define d1 where "d1 = d\<lparr>pma := m, epr := (epr d)(ep := after_out (epr d ep))\<rparr>"
  define d2 where "d2 = d\<lparr>pma := m, epr := (epr d)(ep := out_served (epr d ep))\<rparr>"
  have host: "host_out ep bs d = Some d1" using assms(2) m(1) by (simp add: host_out_def d1_def)
  have slots: "RXADDR0 ep < 256" "RXCOUNT0 ep < 256" using O by (simp_all add: RXADDR0_def RXCOUNT0_def)
  have rd: "usb_packet_read_to_buffer ep p d2 = map_option (Pair (length bs)) (store_at p bs d2)" for p
    using slots m(2,5,6) by (simp add: usb_packet_read_to_buffer_def pma_get_def d2_def m(4) Let_def
        map_conv_bind_option comp_def)
  have c: "EPR_CLEAR_CTR_RX ep d1 = d2"
    by (simp add: EPR_CLEAR_CTR_RX_eq d1_def d2_def out_served_def)
  have adv: "(\<lambda>x. set_rxpkts (rxpkts x - 1) (x\<lparr>xbuf := (fst (xbuf x), snd (xbuf x) + length bs),
      xcnt := xcnt x + of_nat (length bs), xsize := xsize x - of_nat (length bs)\<rparr>)) = out_adv (length bs)"
    by (simp add: fun_eq_iff out_adv_def)
  have x2: "xfers d2 (out_slot ep) = x" by (simp add: d2_def assms(5))
  have "usb_serve_endpoints run ep d1 = serve_out run ep c d2"
  proof -
    have "epr d1 ep = after_out (epr d ep)" "epc d1 ep = Some c" using O by (simp_all add: d1_def)
    then show ?thesis using assms(3) by (simp add: usb_serve_endpoints_def out_fields ctr_flags c)
  qed
  also have "\<dots> = Option.bind (store_at (xbuf x) bs d2) (\<lambda>d2.
        let d3 = set_xfer (out_slot ep) (out_adv (length bs)) d2 in
        if length bs < sz \<or> rxpkts (out_adv (length bs) x) = 0 then usb_isr_invoke_out_cb run ep d3
        else Some (EPR_SET_STAT_RX ep EPR_STAT_RX_VALID d3))"
  proof (cases "store_at (xbuf x) bs d2")
    case None
    then show ?thesis using O by (simp add: serve_out_def out_state_def rd x2)
  next
    case (Some d')
    have "xfers d' (out_slot ep) = x" using store_keeps(4)[OF Some] by (simp add: d2_def assms(5))
    then have "xfers (set_xfer (out_slot ep) (out_adv (length bs)) d') (out_slot ep) = out_adv (length bs) x"
      by (simp add: set_xfer_def)
    then show ?thesis
      using O Some by (simp add: serve_out_def out_state_def rd x2 adv Let_def)
  qed
  finally show ?thesis using host m(3,4) unfolding d2_def by blast
qed

end
