(* ===== verification/Usb_Control.thy ===== *)
theory Usb_Control
  imports Usb_Out
begin

text \<open>
  The control endpoint: every setup packet is answered, with the transfer that belongs to
  its request or with a stall; a control read delivers what was asked for; the address is
  taken over only after the host has the answer.
\<close>

subsection \<open>A setup packet\<close>

definition ep0_ok :: "usbd \<Rightarrow> bool" where
  "ep0_ok d \<longleftrightarrow> epc d 0 = Some ep0config \<and> pma_area (TXADDR0 0) 64 d \<and> pma_area (RXADDR0 0) 64 d \<and>
     epr d 0 AND EPR_CTR_MASK = 0"

lemma ep0_in_ep: "ep0_ok d \<Longrightarrow> in_ep 0 ep0config 64 d"
  by (simp add: ep0_ok_def in_ep_def ep0config_def)

lemma ep0_out_ep: "ep0_ok d \<Longrightarrow> out_ep 0 ep0config 64 d"
  by (simp add: ep0_ok_def out_ep_def ep0config_def)

lemma ep0_ok_cong:
  "pma d = pma d' \<Longrightarrow> epc d 0 = epc d' 0 \<Longrightarrow> epr d 0 = epr d' 0 \<Longrightarrow> ep0_ok d = ep0_ok d'"
  by (simp add: ep0_ok_def pma_area_def)

lemma ep0_slots [simp]: "in_slot 0 = 0" "out_slot 0 = 0"
  by (simp_all add: in_slot_def out_slot_def)

lemma area_head:
  assumes "pma_area (TXADDR0 0) 64 d" and "pma_area (RXADDR0 0) 64 d" and "rx_same 0 64 (pma d) m"
  shows "m ! TXADDR0 0 = pma d ! TXADDR0 0" and "m ! RXADDR0 0 = pma d ! RXADDR0 0"
proof -
  obtain u where u: "u = unat (pma d ! RXADDR0 0)" by blast
  have "64 \<le> u" using assms(2) by (simp add: pma_area_def u)
  then have "TXADDR0 0 < u div 2" "RXADDR0 0 < u div 2"
    using div_le_mono[of 64 u 2] by (simp_all add: TXADDR0_def RXADDR0_def)
  then show "m ! TXADDR0 0 = pma d ! TXADDR0 0" "m ! RXADDR0 0 = pma d ! RXADDR0 0"
    using assms(3) by (simp_all add: rx_same_def u TXADDR0_def RXADDR0_def RXCOUNT0_def)
qed

lemma setup_served:
  assumes "ep0_ok d" and "length s = 8"
  shows "\<exists>m d1. host_setup s d = Some d1 \<and> rx_same 0 64 (pma d) m \<and>
    ep0_ok (d\<lparr>pma := m, epr := (epr d)(0 := setup_served (epr d 0))\<rparr>) \<and>
    usb_serve_endpoints run_cb 0 d1 = ep0_request usbcfg
      (d\<lparr>pma := m, epr := (epr d)(0 := setup_served (epr d 0)), ep0state := USB_EP0_WAITING_SETUP,
         setup_packet := s\<rparr>)"
proof -
  note O = assms(1)[unfolded ep0_ok_def]
  obtain m where m: "rx_packet 0 s d = Some (d\<lparr>pma := m\<rparr>)" "length m = 256" "rx_same 0 64 (pma d) m"
    "\<forall>n \<le> length s. pma_load (USB_ADDR2PTR (pma d ! RXADDR0 0)) n m = Some (take n s)"
    using received[of 0 64 d s] O assms(2) by auto
  have a: "m ! TXADDR0 0 = pma d ! TXADDR0 0" "m ! RXADDR0 0 = pma d ! RXADDR0 0"
    using area_head[OF _ _ m(3)] O by simp_all
  define d1 where "d1 = d\<lparr>pma := m, epr := (epr d)(0 := after_setup (epr d 0))\<rparr>"
  define d2 where "d2 = d\<lparr>pma := m, epr := (epr d)(0 := setup_served (epr d 0))\<rparr>"
  have host: "host_setup s d = Some d1" using m(1) by (simp add: host_setup_def d1_def)
  have c: "EPR_CLEAR_CTR_RX 0 d1 = d2" by (simp add: EPR_CLEAR_CTR_RX_eq d1_def d2_def setup_served_def)
  have ok: "ep0_ok d2"
    using O m(2) a by (simp add: ep0_ok_def d2_def pma_area_def ctr_flags out_fields)
  have rd: "usb_lld_read_setup 0 (d2\<lparr>ep0state := USB_EP0_WAITING_SETUP\<rparr>) =
      Some (d2\<lparr>ep0state := USB_EP0_WAITING_SETUP, setup_packet := s\<rparr>)"
    using m(2,4) a assms(2) by (simp add: usb_lld_read_setup_def pma_get_def RXADDR0_def d2_def)
  have "epr d1 0 = after_setup (epr d 0)" "epc d1 0 = Some ep0config" "epc d2 0 = Some ep0config"
    using O by (simp_all add: d1_def d2_def)
  then have "usb_serve_endpoints run_cb 0 d1 = usb_ep0setup usbcfg 0 d2"
    using O by (simp add: usb_serve_endpoints_def out_fields ctr_flags c invoke_setup_cb_def ep0config_def run_cb_def)
  also have "\<dots> = ep0_request usbcfg (d2\<lparr>ep0state := USB_EP0_WAITING_SETUP, setup_packet := s\<rparr>)"
    by (simp add: usb_ep0setup_def rd)
  finally show ?thesis using host ok m(3) unfolding d2_def by (intro exI[of _ m] exI[of _ d1]) simp
qed

subsection \<open>Data and status to the host\<close>

lemma tx_head:
  assumes "ep0_ok d" and "tx_same 0 64 (pma d) m"
  shows "m ! TXADDR0 0 = pma d ! TXADDR0 0" and "m ! RXADDR0 0 = pma d ! RXADDR0 0" and "length m = 256"
proof -
  obtain u where u: "u = unat (pma d ! TXADDR0 0)" by blast
  have "64 \<le> u" "length (pma d) = 256" using assms(1) by (simp_all add: ep0_ok_def pma_area_def u)
  then have "TXADDR0 0 < u div 2" "RXADDR0 0 < u div 2"
    using div_le_mono[of 64 u 2] by (simp_all add: TXADDR0_def RXADDR0_def)
  then show "m ! TXADDR0 0 = pma d ! TXADDR0 0" "m ! RXADDR0 0 = pma d ! RXADDR0 0" "length m = 256"
    using assms(2) \<open>length (pma d) = 256\<close> by (simp_all add: tx_same_def u TXADDR0_def TXCOUNT0_def RXADDR0_def)
qed

lemma in_upd_outer:
  "(in_upd ep x e m d)\<lparr>transmitting := t\<rparr> = in_upd ep x e m (d\<lparr>transmitting := t\<rparr>)"
  by (simp add: in_upd_def)

lemma ep0_sent:
  assumes "ep0_ok d" and "fetch p (length bs + length bs mod 2) d = Some cs" and "take (length bs) cs = bs"
    and "unat n = length bs"
  obtains x e m t y e' m' t' where
    "usbStartTransmitI 0 p n d = Some (in_upd 0 x e m (d\<lparr>transmitting := t\<rparr>))"
    "host_reads run_cb 0 (length (chunks 64 bs)) (in_upd 0 x e m (d\<lparr>transmitting := t\<rparr>)) =
      map_option (Pair (chunks 64 bs)) (usb_ep0in usbcfg (in_upd 0 y e' m' (d\<lparr>transmitting := t'\<rparr>)))"
    "ep0_ok (in_upd 0 y e' m' (d\<lparr>transmitting := t'\<rparr>))"
proof -
  note O = assms(1)[unfolded ep0_ok_def]
  have flags: "epr d 0 AND EPR_CTR_RX = 0" "epr d 0 AND EPR_CTR_TX = 0" using O by (simp_all add: ctr_flags)
  obtain x m where st: "usbStartTransmitI 0 p n d =
      Some (in_upd 0 x (with_tx EPR_STAT_TX_VALID (epr d 0)) m (d\<lparr>transmitting := transmitting d OR ep_bit 0\<rparr>))"
    "in_going 0 ep0config 64 p bs 0
      (in_upd 0 x (with_tx EPR_STAT_TX_VALID (epr d 0)) m (d\<lparr>transmitting := transmitting d OR ep_bit 0\<rparr>))"
    "length m = 256"
    "\<forall>j. j \<noteq> TXCOUNT0 0 \<and> (j < unat (pma d ! TXADDR0 0) div 2 \<or> unat (pma d ! TXADDR0 0) + 64 \<le> 2 * j)
      \<longrightarrow> m ! j = pma d ! j"
    using in_started[OF ep0_in_ep[OF assms(1)] assms(2-4) flags] by blast
  define d0 where "d0 = in_upd 0 x (with_tx EPR_STAT_TX_VALID (epr d 0)) m
      (d\<lparr>transmitting := transmitting d OR ep_bit 0\<rparr>)"
  obtain y e m' where r: "host_reads run_cb 0 (length (chunks 64 bs)) d0 =
      map_option (Pair (chunks 64 bs)) (usb_isr_invoke_in_cb run_cb 0 (in_upd 0 y e m' d0))"
    "e AND EPR_CTR_TX = 0" "e AND EPR_CTR_RX = 0" "tx_same 0 64 m m'"
    using in_rest[OF st(2)[folded d0_def] refl, of run_cb] by (auto simp: d0_def)
  define t where "t = transmitting d0 AND NOT (ep_bit 0)"
  have cb: "usb_isr_invoke_in_cb run_cb 0 (in_upd 0 y e m' d0) =
      usb_ep0in usbcfg (in_upd 0 y e m' (d\<lparr>transmitting := t\<rparr>))"
  proof -
    have "epc (in_upd 0 y e m' d0) 0 = Some ep0config" using O by (simp add: d0_def)
    moreover have "(in_upd 0 y e m' d0)\<lparr>transmitting := t\<rparr> = in_upd 0 y e m' (d\<lparr>transmitting := t\<rparr>)"
      by (simp add: d0_def in_upd_def)
    moreover have "transmitting (in_upd 0 y e m' d0) AND NOT (ep_bit 0) = t" by (simp add: t_def)
    moreover have "in_cb ep0config = Some Ep0_In" by (simp add: ep0config_def)
    ultimately show ?thesis
      unfolding usb_isr_invoke_in_cb_def by (simp only: Option.bind.simps Let_def option.case run_cb_def ep_callback.case)
  qed
  have "tx_same 0 64 (pma d) m" using st(3,4) O by (simp add: tx_same_def pma_area_def)
  note head = tx_head[OF assms(1) tx_same_trans[OF ep0_in_ep[OF assms(1)] this r(4)]]
  have "ep0_ok (in_upd 0 y e m' (d\<lparr>transmitting := t\<rparr>))"
    using O r(2,3) head by (simp add: ep0_ok_def pma_area_def ctr_flags)
  then show thesis by (rule that[OF st(1) r(1)[unfolded cb, unfolded d0_def]])
qed

subsection \<open>The address\<close>

text \<open>
  A host gives the device its address: the device answers under the old address, with
  an empty packet, and takes the new one over only when the host has taken the answer.
\<close>

theorem set_address_late:
  assumes "ep0_ok d" and "length s = 8" and "s ! 0 = 0" and "s ! 1 = 5"
  shows "\<exists>d1 d2 d3. host_setup s d = Some d1 \<and> usb_serve_endpoints run_cb 0 d1 = Some d2 \<and>
    daddr d2 = daddr d \<and> drv_state d2 = drv_state d \<and> host_reads run_cb 0 1 d2 = Some ([[]], d3) \<and>
    daddr d3 = ucast (s ! 2) OR 0x80 \<and> drv_state d3 = USB_SELECTED \<and> ep0state d3 = USB_EP0_WAITING_SETUP \<and>
    ep0_ok d3"
proof -
  obtain m d1 where st: "host_setup s d = Some d1"
    "ep0_ok (d\<lparr>pma := m, epr := (epr d)(0 := setup_served (epr d 0))\<rparr>)"
    "usb_serve_endpoints run_cb 0 d1 = ep0_request usbcfg
      (d\<lparr>pma := m, epr := (epr d)(0 := setup_served (epr d 0)), ep0state := USB_EP0_WAITING_SETUP,
         setup_packet := s\<rparr>)"
    using setup_served[OF assms(1,2)] by blast
  define b where "b = d\<lparr>pma := m, epr := (epr d)(0 := setup_served (epr d 0)), setup_packet := s,
    ep0next := (Mem_Null, 0), ep0n := 0, ep0endcb := True, ep0state := USB_EP0_SENDING_STS\<rparr>"
  have ok: "ep0_ok b" using st(2) by (rule ep0_ok_cong[THEN iffD1, rotated 3]) (simp_all add: b_def)
  have req: "usb_serve_endpoints run_cb 0 d1 = usbStartTransmitI 0 (Mem_Null, 0) 0 b"
    unfolding st(3) using assms(3,4)
    by (simp add: ep0_request_def usbcfg_def sduRequestsHook_def default_handler_def device_request_def
        no_data_def usbSetupTransfer_def ep0_phase_def b_def Let_def)
  have f: "fetch (Mem_Null, 0) (length ([] :: u8 list) + length ([] :: u8 list) mod 2) b = Some []"
    by (simp add: fetch_def)
  have c0: "chunks 64 [] = [[]]" by (simp add: chunks.simps)
  obtain x e m0 t y e1 m1 t1 where d2:
    "usbStartTransmitI 0 (Mem_Null, 0) 0 b = Some (in_upd 0 x e m0 (b\<lparr>transmitting := t\<rparr>))"
    "host_reads run_cb 0 (length (chunks 64 [])) (in_upd 0 x e m0 (b\<lparr>transmitting := t\<rparr>)) =
      map_option (Pair (chunks 64 [])) (usb_ep0in usbcfg (in_upd 0 y e1 m1 (b\<lparr>transmitting := t1\<rparr>)))"
    "ep0_ok (in_upd 0 y e1 m1 (b\<lparr>transmitting := t1\<rparr>))"
    by (rule ep0_sent[OF ok f, of 0]) simp_all
  define d2 where "d2 = in_upd 0 x e m0 (b\<lparr>transmitting := t\<rparr>)"
  define z where "z = in_upd 0 y e1 m1 (b\<lparr>transmitting := t1\<rparr>)"
  have zf: "ep0state z = USB_EP0_SENDING_STS" "ep0endcb z" "setup_packet z = s" "epr z = epr z" "epc z 0 = epc z 0"
    by (simp_all add: z_def b_def in_upd_def)
  define d3 where "d3 = z\<lparr>address := s ! 2, daddr := ucast (s ! 2) OR 0x80, drv_state := USB_SELECTED,
    ep0state := USB_EP0_WAITING_SETUP\<rparr>"
  have "usb_ep0in usbcfg z = Some d3"
    by (simp add: usb_ep0in_def zf ep0_finish_def set_address_def usb_isr_invoke_event_cb_def usbcfg_def
        vcom_event_def usb_lld_set_address_def d3_def)
  moreover have "ep0_ok d3" using d2(3)[folded z_def] by (rule ep0_ok_cong[THEN iffD1, rotated 3]) (simp_all add: d3_def)
  moreover have "daddr d2 = daddr d" "drv_state d2 = drv_state d" by (simp_all add: d2_def in_upd_def b_def)
  moreover have "host_reads run_cb 0 1 d2 = map_option (Pair [[]]) (usb_ep0in usbcfg z)"
    using d2(2) unfolding c0 d2_def z_def by simp
  ultimately show ?thesis
    using st(1) req d2(1) by (intro exI[of _ d1] exI[of _ d2] exI[of _ d3]) (simp add: d3_def d2_def[symmetric])
qed

subsection \<open>A control read\<close>

lemma host_reads_append:
  "host_reads run ep (j + k) d = do {
     (ps, d1) \<leftarrow> host_reads run ep j d;
     (qs, d2) \<leftarrow> host_reads run ep k d1;
     Some (ps @ qs, d2) }"
proof (induction j arbitrary: d)
  case 0
  show ?case by (cases "host_reads run ep k d") auto
next
  case (Suc j)
  show ?case
    by (auto simp: Suc split: Option.bind_splits)
qed

lemma contents_ep0state [simp]: "contents m (d\<lparr>ep0state := e\<rparr>) = contents m d"
  by (cases m) simp_all

lemma ep0state_commutes:
  "set_xfer i f (d\<lparr>ep0state := e\<rparr>) = (set_xfer i f d)\<lparr>ep0state := e\<rparr>"
  "EPR_SET_STAT_TX ep v (d\<lparr>ep0state := e\<rparr>) = (EPR_SET_STAT_TX ep v d)\<lparr>ep0state := e\<rparr>"
  "pma_get j (d\<lparr>ep0state := e\<rparr>) = pma_get j d"
  "pma_put j w (d\<lparr>ep0state := e\<rparr>) = map_option (ep0state_update (\<lambda>_. e)) (pma_put j w d)"
  "fetch p n (d\<lparr>ep0state := e\<rparr>) = fetch p n d"
  by (simp_all add: set_xfer_def EPR_SET_STAT_TX_def epr_store_def pma_get_def pma_put_def fetch_def)

lemma ep0state_swap:
  "d\<lparr>ep0state := e, pma := m\<rparr> = d\<lparr>pma := m, ep0state := e\<rparr>"
  "d\<lparr>ep0state := e, transmitting := t\<rparr> = d\<lparr>transmitting := t, ep0state := e\<rparr>"
  by simp_all

lemma write_ep0state:
  "usb_packet_write_from_buffer ep p n (d\<lparr>ep0state := e\<rparr>) =
    map_option (ep0state_update (\<lambda>_. e)) (usb_packet_write_from_buffer ep p n d)"
proof (cases "pma_put (TXCOUNT0 ep) (of_nat n) d")
  case (Some d1)
  then show ?thesis
    by (cases "pma_get (TXADDR0 ep) d"; cases "fetch p (n + n mod 2) d1")
      (simp_all add: usb_packet_write_from_buffer_def ep0state_commutes ep0state_swap map_conv_bind_option comp_def)
qed (cases "pma_get (TXADDR0 ep) d"; simp add: usb_packet_write_from_buffer_def ep0state_commutes)

lemma start_in_ep0state:
  "usb_lld_start_in ep (d\<lparr>ep0state := e\<rparr>) = map_option (ep0state_update (\<lambda>_. e)) (usb_lld_start_in ep d)"
proof (cases "epc d ep")
  case (Some c)
  then show ?thesis
    by (cases "has_in_state c")
      (simp_all add: usb_lld_start_in_def in_state_def ep0state_commutes write_ep0state Let_def bind_map_option
        map_conv_bind_option comp_def)
qed (simp add: usb_lld_start_in_def)

lemma start_transmit_ep0state:
  "usbStartTransmitI ep p n (d\<lparr>ep0state := e\<rparr>) = map_option (ep0state_update (\<lambda>_. e)) (usbStartTransmitI ep p n d)"
proof (cases "epc d ep")
  case (Some c)
  then show ?thesis
    by (cases "has_in_state c")
      (simp_all add: usbStartTransmitI_def in_state_def ep0state_swap ep0state_commutes start_in_ep0state)
qed (simp add: usbStartTransmitI_def)

text \<open>The endpoint set up for the status packet of the host.\<close>

lemma ep0_status:
  assumes "ep0_ok d"
  shows "\<exists>d'. usbStartReceiveI 0 (Mem_Null, 0) 0 d = Some d' \<and> usbGetReceiveStatusI d' 0 \<and>
    stat_rx (epr d' 0) = EPR_STAT_RX_VALID \<and> ep0state d' = ep0state d"
proof -
  have c: "epc d 0 = Some ep0config" using assms by (simp add: ep0_ok_def)
  have "(receiving d OR ep_bit 0) AND ep_bit 0 \<noteq> 0"
    by (simp add: ep_bit_def bit.conj_disj_distrib2)
  then show ?thesis
    using c by (simp add: usbStartReceiveI_def usb_lld_start_out_def out_state_def ep0config_def set_xfer_def
        status_macros usbGetReceiveStatusI_def)
qed

lemma get_descriptor_length:
  "get_descriptor t i l = Some ds \<Longrightarrow> ds \<noteq> [] \<and> length ds < 256"
proof -
  have "\<forall>ds\<in>set vcom_strings. ds \<noteq> [] \<and> length ds < 256"
    by (simp add: vcom_strings_def vcom_string0_def vcom_string1_def vcom_string2_def vcom_string3_def
        desc_defs wide_def)
  moreover have "unat i < 4" if "i < 4" for i :: u8 using that by (simp add: word_less_nat_alt)
  moreover have "length vcom_strings = 4" by (simp add: vcom_strings_def)
  ultimately show "get_descriptor t i l = Some ds \<Longrightarrow> ds \<noteq> [] \<and> length ds < 256"
    by (auto simp: get_descriptor_def vcom_device_descriptor_data_def vcom_configuration_descriptor_data_def desc_defs
        split: if_splits dest!: nth_mem)
qed

lemma ep0n_swap: "d\<lparr>ep0n := n, ep0endcb := c\<rparr> = d\<lparr>ep0endcb := c, ep0n := n\<rparr>"
  by simp

text \<open>After the last data packet: an empty packet if the host cannot tell the end otherwise.\<close>

definition ends_empty :: "nat \<Rightarrow> nat \<Rightarrow> bool" where
  "ends_empty n limit \<longleftrightarrow> n < limit \<and> n mod 64 = 0"

lemma ep0_data_end:
  assumes "ep0_ok z" and "ep0state z = USB_EP0_TX" and "unat (ep0n z) = n"
    and "unat (get_hword 6 (setup_packet z)) = limit"
  shows "\<exists>z1 z2. usb_ep0in usbcfg z = Some z1 \<and>
    host_reads run_cb 0 (if ends_empty n limit then 1 else 0) z1 =
      Some (if ends_empty n limit then [[]] else [], z2) \<and>
    ep0state z2 = USB_EP0_WAITING_STS \<and> usbGetReceiveStatusI z2 0"
proof -
  have c: "epc z 0 = Some ep0config" using assms(1) by (simp add: ep0_ok_def)
  have z: "ep0n z < ucast (get_hword 6 (setup_packet z)) \<longleftrightarrow> n < limit"
    using assms(3,4) by (simp add: word_less_nat_alt)
  have m: "ep0n z mod 64 = 0 \<longleftrightarrow> n mod 64 = 0"
    using assms(3) by (simp add: word_unat_eq_iff unat_mod)
  have in_tx: "usb_ep0in usbcfg z = (if ends_empty n limit
      then map_option (ep0state_update (\<lambda>_. USB_EP0_WAITING_TX0)) (usbStartTransmitI 0 (Mem_Null, 0) 0 z)
      else usbStartReceiveI 0 (Mem_Null, 0) 0 (z\<lparr>ep0state := USB_EP0_WAITING_STS\<rparr>))"
    using c z m by (simp add: usb_ep0in_def assms(2) ends_empty_def ep0config_def)
  show ?thesis
  proof (cases "ends_empty n limit")
    case False
    have "ep0_ok (z\<lparr>ep0state := USB_EP0_WAITING_STS\<rparr>)"
      using assms(1) by (rule ep0_ok_cong[THEN iffD1, rotated 3]) simp_all
    from ep0_status[OF this] False in_tx show ?thesis by auto
  next
    case True
    define b where "b = z\<lparr>ep0state := USB_EP0_WAITING_TX0\<rparr>"
    have ok: "ep0_ok b" using assms(1) by (rule ep0_ok_cong[THEN iffD1, rotated 3]) (simp_all add: b_def)
    have f: "fetch (Mem_Null, 0) (length ([] :: u8 list) + length ([] :: u8 list) mod 2) b = Some []"
      by (simp add: fetch_def)
    have c0: "chunks 64 [] = [[]]" by (simp add: chunks.simps)
    obtain x e m0 t y e1 m1 t1 where t:
      "usbStartTransmitI 0 (Mem_Null, 0) 0 b = Some (in_upd 0 x e m0 (b\<lparr>transmitting := t\<rparr>))"
      "host_reads run_cb 0 (length (chunks 64 [])) (in_upd 0 x e m0 (b\<lparr>transmitting := t\<rparr>)) =
        map_option (Pair (chunks 64 [])) (usb_ep0in usbcfg (in_upd 0 y e1 m1 (b\<lparr>transmitting := t1\<rparr>)))"
      "ep0_ok (in_upd 0 y e1 m1 (b\<lparr>transmitting := t1\<rparr>))"
      by (rule ep0_sent[OF ok f, of 0]) simp_all
    define v where "v = in_upd 0 y e1 m1 (b\<lparr>transmitting := t1\<rparr>)"
    have v: "ep0state v = USB_EP0_WAITING_TX0" "epc v 0 = Some ep0config"
      using c by (simp_all add: v_def b_def in_upd_def)
    have "ep0_ok (v\<lparr>ep0state := USB_EP0_WAITING_STS\<rparr>)"
      using t(3)[folded v_def] by (rule ep0_ok_cong[THEN iffD1, rotated 3]) simp_all
    from ep0_status[OF this] obtain z2 where
      "usbStartReceiveI 0 (Mem_Null, 0) 0 (v\<lparr>ep0state := USB_EP0_WAITING_STS\<rparr>) = Some z2"
      "ep0state z2 = USB_EP0_WAITING_STS" "usbGetReceiveStatusI z2 0" by auto
    moreover from this(1) have "usb_ep0in usbcfg v = Some z2" by (simp add: usb_ep0in_def v)
    moreover have "usb_ep0in usbcfg z = Some (in_upd 0 x e m0 (b\<lparr>transmitting := t\<rparr>))"
      using True t(1) by (simp add: in_tx start_transmit_ep0state[symmetric] flip: b_def)
    ultimately show ?thesis using True t(2)[unfolded c0, folded v_def] by auto
  qed
qed

text \<open>
  C25: A host that asks for a descriptor gets its first bytes, as many as it asked for, in
  packets of 64 bytes, and one more, empty packet exactly when it asked for more than there
  is and the last packet is full; then the device waits for the host's status packet.
\<close>

theorem descriptor_read:
  assumes "ep0_ok d" and "length s = 8" and "s ! 0 = 0x80" and "s ! 1 = 6" and "get_hword 6 s \<noteq> 0"
    and "get_descriptor (s ! 3) (s ! 2) (get_hword 4 s) = Some ds"
  shows "\<exists>d1 d2 d3 ps. host_setup s d = Some d1 \<and> usb_serve_endpoints run_cb 0 d1 = Some d2 \<and>
    host_reads run_cb 0 (length ps) d2 = Some (ps, d3) \<and> concat ps = take (unat (get_hword 6 s)) ds \<and>
    ps = chunks 64 (take (unat (get_hword 6 s)) ds) @
      (if length ds < unat (get_hword 6 s) \<and> length ds mod 64 = 0 then [[]] else []) \<and>
    ep0state d3 = USB_EP0_WAITING_STS \<and> usbGetReceiveStatusI d3 0"
proof -
  define limit where "limit = unat (get_hword 6 s)"
  define bs where "bs = take limit ds"
  have ds: "ds \<noteq> []" "length ds < 256" using get_descriptor_length[OF assms(6)] by auto
  have l0: "0 < limit" using assms(5) by (simp add: limit_def unat_gt_0)
  obtain m d1 where st: "host_setup s d = Some d1"
    "ep0_ok (d\<lparr>pma := m, epr := (epr d)(0 := setup_served (epr d 0))\<rparr>)"
    "usb_serve_endpoints run_cb 0 d1 = ep0_request usbcfg
      (d\<lparr>pma := m, epr := (epr d)(0 := setup_served (epr d 0)), ep0state := USB_EP0_WAITING_SETUP,
         setup_packet := s\<rparr>)"
    using setup_served[OF assms(1,2)] by blast
  define b where "b = d\<lparr>pma := m, epr := (epr d)(0 := setup_served (epr d 0)), setup_packet := s,
    ep0next := (Mem_Const ds, 0), ep0endcb := False, ep0n := of_nat (length bs), ep0state := USB_EP0_TX\<rparr>"
  have ok: "ep0_ok b" using st(2) by (rule ep0_ok_cong[THEN iffD1, rotated 3]) (simp_all add: b_def)
  have lds: "unat (of_nat (length ds) :: u32) = length ds"
    using ds(2) by (simp add: unat_of_nat take_bit_nat_eq_self_iff)
  have lbs: "unat (of_nat (length bs) :: u32) = length bs" "length bs \<noteq> 0" "length bs \<le> length ds"
    using ds l0 by (simp_all add: bs_def unat_of_nat take_bit_nat_eq_self_iff)
  then have nz: "(of_nat (length bs) :: u32) \<noteq> 0" by (metis unat_0)
  have cut: "(if ucast (get_hword 6 s) < (of_nat (length ds) :: u32) then ucast (get_hword 6 s) else of_nat (length ds))
      = (of_nat (length bs) :: u32)"
    using lds lbs(1) by (simp add: word_less_nat_alt word_unat_eq_iff bs_def limit_def min_def)
  have req: "usb_serve_endpoints run_cb 0 d1 = usbStartTransmitI 0 (Mem_Const ds, 0) (of_nat (length bs)) b"
  proof -
    define l :: u32 where "l = ucast (get_hword 6 s)"
    define n :: u32 where "n = of_nat (length ds)"
    have "usb_serve_endpoints run_cb 0 d1 = ep0_phase (d\<lparr>pma := m, epr := (epr d)(0 := setup_served (epr d 0)),
        ep0state := USB_EP0_WAITING_SETUP, setup_packet := s, ep0next := (Mem_Const ds, 0), ep0n := n, ep0endcb := False\<rparr>)"
      unfolding st(3) n_def using assms(3,4,6)
      by (simp add: ep0_request_def usbcfg_def sduRequestsHook_def default_handler_def device_request_def
          usbSetupTransfer_def Let_def)
    also have "\<dots> = usbStartTransmitI 0 (Mem_Const ds, 0) (of_nat (length bs)) b"
      using assms(3) cut[folded l_def n_def] nz by (cases "l < n") (simp_all add: ep0_phase_def l_def[symmetric] b_def ep0n_swap Let_def)
    finally show ?thesis .
  qed
  have "length bs + length bs mod 2 \<le> length (ds @ [stray b])" using lbs(3) by (cases "even (length bs)") (simp_all add: mod2_eq_if)
  then have f: "fetch (Mem_Const ds, 0) (length bs + length bs mod 2) b = Some (take (length bs + length bs mod 2) (ds @ [stray b]))"
    by (simp add: fetch_def Let_def del: take_append)
  have tk: "take (length bs) (take (length bs + length bs mod 2) (ds @ [stray b])) = bs"
    using lbs(3) by (simp add: bs_def min_def)
  obtain x e m0 t y e1 m1 t1 where t:
    "usbStartTransmitI 0 (Mem_Const ds, 0) (of_nat (length bs)) b = Some (in_upd 0 x e m0 (b\<lparr>transmitting := t\<rparr>))"
    "host_reads run_cb 0 (length (chunks 64 bs)) (in_upd 0 x e m0 (b\<lparr>transmitting := t\<rparr>)) =
      map_option (Pair (chunks 64 bs)) (usb_ep0in usbcfg (in_upd 0 y e1 m1 (b\<lparr>transmitting := t1\<rparr>)))"
    "ep0_ok (in_upd 0 y e1 m1 (b\<lparr>transmitting := t1\<rparr>))"
    by (rule ep0_sent[OF ok f tk lbs(1)])
  define z where "z = in_upd 0 y e1 m1 (b\<lparr>transmitting := t1\<rparr>)"
  have z: "ep0state z = USB_EP0_TX" "unat (ep0n z) = length bs" "unat (get_hword 6 (setup_packet z)) = limit"
    by (simp_all add: z_def b_def in_upd_def lbs(1) limit_def)
  obtain z1 z2 where e: "usb_ep0in usbcfg z = Some z1"
    "host_reads run_cb 0 (if ends_empty (length bs) limit then 1 else 0) z1 =
      Some (if ends_empty (length bs) limit then [[]] else [], z2)"
    "ep0state z2 = USB_EP0_WAITING_STS" "usbGetReceiveStatusI z2 0"
    using ep0_data_end[OF t(3)[folded z_def] z] by blast
  have empty: "ends_empty (length bs) limit \<longleftrightarrow> length ds < limit \<and> length ds mod 64 = 0"
    by (auto simp: ends_empty_def bs_def)
  define ps where "ps = chunks 64 bs @ (if length ds < limit \<and> length ds mod 64 = 0 then [[]] else [])"
  have len: "length ps = length (chunks 64 bs) + (if ends_empty (length bs) limit then 1 else 0)"
    by (simp add: ps_def empty)
  have "host_reads run_cb 0 (length ps) (in_upd 0 x e m0 (b\<lparr>transmitting := t\<rparr>)) = Some (ps, z2)"
    unfolding len host_reads_append t(2)[folded z_def] e(1) using e(2) by (simp add: ps_def empty)
  moreover have "concat ps = bs" by (simp add: ps_def concat_chunks)
  ultimately show ?thesis
    using st(1) req t(1) e(3,4) unfolding limit_def[symmetric] bs_def[symmetric]
    by (intro exI[of _ d1] exI[of _ "in_upd 0 x e m0 (b\<lparr>transmitting := t\<rparr>)"] exI[of _ z2] exI[of _ ps]) (simp add: ps_def)
qed

end
