(* ===== verification/Usb_Answers.thy ===== *)
theory Usb_Answers
  imports Usb_Control
begin

text \<open>
  Whatever a host asks for in a setup packet, the device answers: it starts the transfer of
  the request, or stalls. The exceptions to a sensible answer are separate theorems: requests
  are decoded without their direction, and clearing the halt of an endpoint to the device
  goes wrong.
\<close>

subsection \<open>Endpoints set up\<close>

lemma init_endpoint:
  assumes "epc d ep = Some c" and "ep < 8" and "length (pma d) = 256"
  shows "\<exists>m k r. usb_lld_init_endpoint ep d = Some (d\<lparr>pma := m, pmnext := k, epr := (epr d)(ep := r)\<rparr>) \<and>
    length m = 256 \<and> (\<forall>j. j < 4 * ep \<or> 4 * ep + 4 \<le> j \<longrightarrow> m ! j = pma d ! j)"
proof -
  define m1 where "m1 = (if has_in_state c then (pma d)[TXCOUNT0 ep := 0, TXADDR0 ep := ucast (pmnext d)] else pma d)"
  define k1 where "k1 = (if has_in_state c then pmnext d + ((ucast (in_maxsize c) + 1) AND NOT 1) else pmnext d)"
  define m2 where "m2 = (if has_out_state c then m1[RXCOUNT0 ep := rx_blocks (out_maxsize c), RXADDR0 ep := ucast k1] else m1)"
  define k2 where "k2 = (if has_out_state c then k1 + ((ucast (out_maxsize c) + 1) AND NOT 1) else k1)"
  have slots: "TXCOUNT0 ep < 256" "TXADDR0 ep < 256" "RXCOUNT0 ep < 256" "RXADDR0 ep < 256"
    using assms(2) by (simp_all add: TXCOUNT0_def TXADDR0_def RXCOUNT0_def RXADDR0_def)
  have i: "init_in ep c d = Some (d\<lparr>pma := m1, pmnext := k1\<rparr>)"
    using slots assms(3) by (simp add: init_in_def pma_put_def usb_pm_alloc_def m1_def k1_def)
  have l1: "length m1 = 256" using assms(3) by (simp add: m1_def)
  have o: "init_out ep c (d\<lparr>pma := m1, pmnext := k1\<rparr>) = Some (d\<lparr>pma := m2, pmnext := k2\<rparr>)"
    using slots l1 by (simp add: init_out_def pma_put_def usb_pm_alloc_def m2_def k2_def)
  have "m2 ! j = pma d ! j" if "j < 4 * ep \<or> 4 * ep + 4 \<le> j" for j
    using that by (auto simp: m2_def m1_def TXCOUNT0_def TXADDR0_def RXCOUNT0_def RXADDR0_def)
  moreover have "length m2 = 256" using l1 by (simp add: m2_def)
  ultimately show ?thesis
    by (intro exI[of _ m2] exI[of _ k2] exI)
      (simp add: usb_lld_init_endpoint_def assms(1) i o Let_def EPR_TOGGLE_def EPR_SET_def epr_store_def)
qed

text \<open>What the control endpoint needs is left alone.\<close>

definition ep0_keeps :: "usbd \<Rightarrow> usbd \<Rightarrow> bool" where
  "ep0_keeps d d' \<longleftrightarrow> (ep0_ok d \<longrightarrow> ep0_ok d') \<and> setup_packet d' = setup_packet d \<and> linecoding d' = linecoding d \<and>
     (length (pma d) = 256 \<longrightarrow> length (pma d') = 256)"

lemma ep0_keeps_trans: "ep0_keeps d d' \<Longrightarrow> ep0_keeps d' d'' \<Longrightarrow> ep0_keeps d d''"
  by (simp add: ep0_keeps_def)

lemma ep0_keepsI:
  "pma d' = pma d \<Longrightarrow> epc d' 0 = epc d 0 \<Longrightarrow> epr d' 0 = epr d 0 \<Longrightarrow> setup_packet d' = setup_packet d \<Longrightarrow>
   linecoding d' = linecoding d \<Longrightarrow> ep0_keeps d d'"
  by (simp add: ep0_keeps_def ep0_ok_def pma_area_def)

lemma init_endpoint_keeps:
  assumes "0 < ep" and "ep < 8" and "length (pma d) = 256"
  shows "\<exists>d'. usbInitEndpointI ep c d = Some d' \<and> ep0_keeps d d' \<and>
    epc d' = (epc d)(ep := Some c) \<and> length (pma d') = 256"
proof -
  define b where "b = clear_xfer (out_state ep c) (clear_xfer (in_state ep c) (d\<lparr>epc := (epc d)(ep := Some c)\<rparr>))"
  have b: "pma b = pma d" "epr b = epr d" "epc b = (epc d)(ep := Some c)" "setup_packet b = setup_packet d"
    "linecoding b = linecoding d"
    by (simp_all add: b_def clear_xfer_def set_xfer_def split: option.splits)
  then obtain m k r where m: "usb_lld_init_endpoint ep b = Some (b\<lparr>pma := m, pmnext := k, epr := (epr b)(ep := r)\<rparr>)"
    "length m = 256" "\<forall>j. j < 4 * ep \<or> 4 * ep + 4 \<le> j \<longrightarrow> m ! j = pma b ! j"
    using init_endpoint[of b ep c] assms by auto
  have "m ! TXADDR0 0 = pma d ! TXADDR0 0" "m ! RXADDR0 0 = pma d ! RXADDR0 0"
    using m(3) assms(1) b(1) by (simp_all add: TXADDR0_def RXADDR0_def)
  then have "ep0_keeps d (b\<lparr>pma := m, pmnext := k, epr := (epr b)(ep := r)\<rparr>)"
    using assms m(2) by (simp add: ep0_keeps_def ep0_ok_def pma_area_def b)
  then show ?thesis using m(1,2) b(3) by (simp add: usbInitEndpointI_def b_def[symmetric])
qed

lemma start_receive_keeps:
  assumes "epc d ep = Some c" and "has_out_state c" and "0 < ep" and "out_maxsize c \<noteq> 0"
  shows "\<exists>d'. usbStartReceiveI ep p n d = Some d' \<and> ep0_keeps d d'"
proof -
  define d1 where "d1 = set_xfer (out_slot ep) (\<lambda>x. x\<lparr>xbuf := p, xsize := n, xcnt := 0\<rparr>)
    (d\<lparr>receiving := receiving d OR ep_bit ep\<rparr>)"
  have d1: "epc d1 ep = Some c" "pma d1 = pma d" "epr d1 = epr d" "epc d1 0 = epc d 0"
    "setup_packet d1 = setup_packet d" "linecoding d1 = linecoding d"
    using assms(1) by (simp_all add: d1_def set_xfer_def)
  have "\<exists>k. usb_lld_start_out ep d1 = Some (EPR_SET_STAT_RX ep EPR_STAT_RX_VALID (set_xfer (out_slot ep) (set_rxpkts k) d1))"
    using d1(1) assms(2,4) by (auto simp: usb_lld_start_out_def out_state_def Let_def)
  then obtain k where k: "usb_lld_start_out ep d1 =
      Some (EPR_SET_STAT_RX ep EPR_STAT_RX_VALID (set_xfer (out_slot ep) (set_rxpkts k) d1))" by blast
  then have "usbStartReceiveI ep p n d = Some (EPR_SET_STAT_RX ep EPR_STAT_RX_VALID (set_xfer (out_slot ep) (set_rxpkts k) d1))"
    using assms(1,2) by (simp add: usbStartReceiveI_def out_state_def d1_def)
  moreover have "ep0_keeps d (EPR_SET_STAT_RX ep EPR_STAT_RX_VALID (set_xfer (out_slot ep) (set_rxpkts k) d1))"
    using assms(3) by (intro ep0_keepsI) (simp_all add: status_macros set_xfer_def d1)
  ultimately show ?thesis by blast
qed

lemma configured_keeps:
  assumes "length (pma d) = 256"
  shows "\<exists>d'. vcom_event USB_EVENT_CONFIGURED d = Some d' \<and> ep0_keeps d d'"
proof -
  obtain d1 where d1: "usbInitEndpointI 1 ep1config d = Some d1" "ep0_keeps d d1"
    "epc d1 = (epc d)(1 := Some ep1config)" "length (pma d1) = 256"
    using init_endpoint_keeps[of 1 d ep1config] assms by auto
  obtain d2 where d2: "usbInitEndpointI 2 ep2config d1 = Some d2" "ep0_keeps d1 d2"
    "epc d2 = (epc d1)(2 := Some ep2config)" "length (pma d2) = 256"
    using init_endpoint_keeps[of 2 d1 ep2config] d1(4) by auto
  define d3 where "d3 = chnAddFlagsI CHN_CONNECTED
    (d2\<lparr>ibqueue := ibqResetI (ibqueue d2), obqueue := obqResetI (obqueue d2)\<rparr>)"
  have d3: "ep0_keeps d2 d3" by (intro ep0_keepsI) (simp_all add: d3_def chnAddFlagsI_def)
  have "epc d3 1 = Some ep1config" by (simp add: d3_def chnAddFlagsI_def d2(3) d1(3))
  then have "\<exists>d'. usbStartReceiveI 1 p n d3 = Some d' \<and> ep0_keeps d3 d'" for p n
    by (rule start_receive_keeps) (simp_all add: ep1config_def)
  then have "\<exists>d'. sduConfigureHookI d2 = Some d' \<and> ep0_keeps d3 d'"
    by (simp add: sduConfigureHookI_def serusbcfg_def USBD1_DATA_AVAILABLE_EP_def d3_def[symmetric] Let_def)
  then show ?thesis
    using d1 d2 d3 by (auto simp: vcom_event_def USBD1_DATA_REQUEST_EP_def USBD1_INTERRUPT_REQUEST_EP_def
        intro: ep0_keeps_trans)
qed

subsection \<open>Requests\<close>

text \<open>What a handled request leaves for the data phase: a buffer that is there.\<close>

definition ep0_ready :: "usbd \<Rightarrow> bool" where
  "ep0_ready d \<longleftrightarrow> snd (ep0next d) = 0 \<and> unat (ep0n d) \<le> length (contents (fst (ep0next d)) d)"

lemma transfer_ready:
  assumes "unat n \<le> length (contents m d)"
  shows "ep0_ready (usbSetupTransfer (m, 0) n b d)" and "ep0_keeps d (usbSetupTransfer (m, 0) n b d)"
proof -
  have "contents m (usbSetupTransfer (m, 0) n b d) = contents m d" by (cases m) (simp_all add: usbSetupTransfer_def)
  then show "ep0_ready (usbSetupTransfer (m, 0) n b d)"
    using assms by (simp add: ep0_ready_def usbSetupTransfer_def)
  show "ep0_keeps d (usbSetupTransfer (m, 0) n b d)" by (rule ep0_keepsI) (simp_all add: usbSetupTransfer_def)
qed

lemma no_data_ready: "ep0_ready (no_data b d)" "ep0_keeps d (no_data b d)"
  by (simp_all add: no_data_def transfer_ready)

lemma hook_ok:
  assumes "sduRequestsHook d = (h, d')" and "length (linecoding d) = 7"
  shows "ep0_keeps d d'" and "h \<Longrightarrow> ep0_ready d'"
  using assms transfer_ready[of 7 Mem_Linecoding d False] transfer_ready[of 0 Mem_Null d False]
  by (auto simp: sduRequestsHook_def Let_def ep0_keeps_def split: if_splits)

lemma keeps_endpoint:
  assumes "0 < ep"
  shows "ep0_keeps d (usb_lld_clear_in ep d)" "ep0_keeps d (usb_lld_clear_out ep d)"
    "ep0_keeps d (usb_lld_stall_in ep d)" "ep0_keeps d (usb_lld_stall_out ep d)"
  using assms by (auto intro!: ep0_keepsI simp: usb_lld_clear_in_def usb_lld_clear_out_def usb_lld_stall_in_def
      usb_lld_stall_out_def EPR_SET_STAT_TX_def EPR_SET_STAT_RX_def epr_store_def)

lemma keeps_refl [simp]: "ep0_keeps d d"
  by (simp add: ep0_keeps_def)

lemma endpoint_ok:
  assumes "endpoint_request r d = (h, d')"
  shows "ep0_keeps d d'" and "h \<Longrightarrow> ep0_ready d'"
proof -
  have st: "length zero_status = 2" "length active_status = 2" "length halted_status = 2"
    by (simp_all add: zero_status_def active_status_def halted_status_def)
  note T = transfer_ready[of 2 "Mem_Const zero_status" d False] transfer_ready[of 2 "Mem_Const active_status" d False]
    transfer_ready[of 2 "Mem_Const halted_status" d False]
  define ep where "ep = unat (setup_packet d ! 4 AND 0x0F)"
  define d1 where "d1 = (if ep \<noteq> 0 then if setup_packet d ! 4 AND 0x80 \<noteq> 0 then usb_lld_clear_in ep d else usb_lld_clear_out ep d else d)"
  define d2 where "d2 = (if ep \<noteq> 0 then if setup_packet d ! 4 AND 0x80 \<noteq> 0 then usb_lld_stall_in ep d else usb_lld_stall_out ep d else d)"
  have k: "ep0_keeps d d1" "ep0_keeps d d2" using keeps_endpoint[of ep d] by (auto simp: d1_def d2_def)
  have "ep0_keeps d (no_data False d1)" "ep0_keeps d (no_data False d2)"
    using k no_data_ready(2) ep0_keeps_trans by blast+
  then have "ep0_keeps d d' \<and> (h \<longrightarrow> ep0_ready d')"
    using assms T no_data_ready(1) unfolding endpoint_request_def Let_def ep_def[symmetric] d1_def[symmetric] d2_def[symmetric]
    by (auto simp: st send_status_def split: if_splits usbepstatus.splits)
  then show "ep0_keeps d d'" "h \<Longrightarrow> ep0_ready d'" by auto
qed

lemma device_ok:
  assumes "length (pma d) = 256"
  shows "\<exists>h d'. device_request usbcfg r d = Some (h, d') \<and> ep0_keeps d d' \<and> (h \<longrightarrow> ep0_ready d')"
proof -
  consider "r = 0" | "r = 1" | "r = 3" | "r = 5" | "r = 6" | "r = 8" | "r = 9" | "r \<notin> {0, 1, 3, 5, 6, 8, 9}" by blast
  then show ?thesis
  proof cases
    case 1
    then show ?thesis using transfer_ready[of 2 Mem_Status d False] by (auto simp: device_request_def Let_def u16_bytes_def)
  next
    case 2
    have "ep0_keeps d (d\<lparr>status := status d AND NOT 2\<rparr>)" by (rule ep0_keepsI) simp_all
    then show ?thesis using 2 no_data_ready ep0_keeps_trans by (auto simp: device_request_def Let_def)
  next
    case 3
    have "ep0_keeps d (d\<lparr>status := status d OR 2\<rparr>)" by (rule ep0_keepsI) simp_all
    then show ?thesis using 3 no_data_ready ep0_keeps_trans by (auto simp: device_request_def Let_def)
  next
    case 4
    then show ?thesis using no_data_ready by (auto simp: device_request_def Let_def)
  next
    case 5
    show ?thesis
    proof (cases "get_descriptor (setup_packet d ! 3) (setup_packet d ! 2) (get_hword 4 (setup_packet d))")
      case None
      then show ?thesis using 5 by (auto simp: device_request_def usbcfg_def Let_def)
    next
      case (Some ds)
      then have "unat (of_nat (length ds) :: u32) = length ds"
        using get_descriptor_length[OF Some] by (simp add: unat_of_nat take_bit_nat_eq_self_iff)
      then show ?thesis using 5 Some transfer_ready[of "of_nat (length ds)" "Mem_Const ds" d False]
        by (auto simp: device_request_def usbcfg_def Let_def)
    qed
  next
    case 6
    then show ?thesis using transfer_ready[of 1 Mem_Configuration d False] by (auto simp: device_request_def Let_def)
  next
    case 7
    define b where "b = d\<lparr>configuration := setup_packet d ! 2,
      drv_state := (if setup_packet d ! 2 = 0 then USB_SELECTED else USB_ACTIVE)\<rparr>"
    have b: "ep0_keeps d b" "length (pma b) = 256" using assms by (auto intro!: ep0_keepsI simp: b_def)
    obtain d' where d': "vcom_event USB_EVENT_CONFIGURED b = Some d'" "ep0_keeps b d'"
      using configured_keeps[OF b(2)] by blast
    have "device_request usbcfg 9 d = Some (True, no_data False d')"
      using d'(1) by (simp add: device_request_def usb_isr_invoke_event_cb_def usbcfg_def Let_def b_def)
    moreover have "ep0_keeps d (no_data False d')"
      by (rule ep0_keeps_trans[OF ep0_keeps_trans[OF b(1) d'(2)] no_data_ready(2)])
    ultimately show ?thesis using 7 no_data_ready(1) by auto
  next
    case 8
    then show ?thesis by (auto simp: device_request_def Let_def)
  qed
qed

lemma handler_ok:
  assumes "length (pma d) = 256"
  shows "\<exists>h d'. default_handler usbcfg d = Some (h, d') \<and> ep0_keeps d d' \<and> (h \<longrightarrow> ep0_ready d')"
proof -
  have z: "ep0_ready (usbSetupTransfer (Mem_Const zero_status, 0) 2 False d)"
    "ep0_keeps d (usbSetupTransfer (Mem_Const zero_status, 0) 2 False d)"
    using transfer_ready[of 2 "Mem_Const zero_status" d False] by (simp_all add: zero_status_def)
  obtain r where r: "r = setup_packet d ! 1" by blast
  obtain h d' where e: "endpoint_request r d = (h, d')" by fastforce
  show ?thesis
    using device_ok[OF assms, of r] endpoint_ok[OF e] z e
    unfolding default_handler_def Let_def r[symmetric] by auto
qed

subsection \<open>Every setup packet is answered\<close>

definition ep0_answer :: "usbd \<Rightarrow> bool" where
  "ep0_answer d \<longleftrightarrow>
     (case ep0state d of
        USB_EP0_TX \<Rightarrow> stat_tx (epr d 0) = EPR_STAT_TX_VALID
      | USB_EP0_SENDING_STS \<Rightarrow> stat_tx (epr d 0) = EPR_STAT_TX_VALID
      | USB_EP0_RX \<Rightarrow> stat_rx (epr d 0) = EPR_STAT_RX_VALID
      | USB_EP0_WAITING_STS \<Rightarrow> stat_rx (epr d 0) = EPR_STAT_RX_VALID
      | USB_EP0_ERROR \<Rightarrow> stat_tx (epr d 0) = EPR_STAT_TX_STALL \<and> stat_rx (epr d 0) = EPR_STAT_RX_STALL
      | _ \<Rightarrow> False)"

lemma ep0_transmit:
  assumes "ep0_ok d" and "unat n \<le> length (contents a d)"
  shows "\<exists>d'. usbStartTransmitI 0 (a, 0) n d = Some d' \<and> stat_tx (epr d' 0) = EPR_STAT_TX_VALID \<and> ep0state d' = ep0state d \<and>
    linecoding d' = linecoding d"
proof -
  define bs where "bs = take (unat n) (contents a d)"
  have l: "length bs = unat n" using assms(2) by (simp add: bs_def)
  have "length bs + length bs mod 2 \<le> length (contents a d @ [stray d])"
    using assms(2) l by (cases "even (unat n)") (simp_all add: mod2_eq_if)
  then have f: "fetch (a, 0) (length bs + length bs mod 2) d = Some (take (length bs + length bs mod 2) (contents a d @ [stray d]))"
    by (simp add: fetch_def Let_def del: take_append)
  have t: "take (length bs) (take (length bs + length bs mod 2) (contents a d @ [stray d])) = bs"
    using assms(2) by (simp add: l) (simp add: bs_def min_def)
  have "epr d 0 AND EPR_CTR_RX = 0" "epr d 0 AND EPR_CTR_TX = 0" using assms(1) by (simp_all add: ep0_ok_def ctr_flags)
  from in_started[OF ep0_in_ep[OF assms(1)] f t l[symmetric] this] show ?thesis by (auto simp: in_upd_def)
qed

lemma ep0_receive:
  assumes "ep0_ok d"
  shows "\<exists>d'. usbStartReceiveI 0 p n d = Some d' \<and> stat_rx (epr d' 0) = EPR_STAT_RX_VALID \<and> ep0state d' = ep0state d"
proof -
  have c: "epc d 0 = Some ep0config" using assms by (simp add: ep0_ok_def)
  show ?thesis
    using c by (simp add: usbStartReceiveI_def usb_lld_start_out_def out_state_def ep0config_def set_xfer_def
        status_macros Let_def)
qed

lemma phase_answers:
  assumes "ep0_ok d" and "ep0_ready d"
  shows "\<exists>d'. ep0_phase d = Some d' \<and> ep0_answer d'"
proof -
  define limit :: u32 where "limit = ucast (get_hword 6 (setup_packet d))"
  define d1 where "d1 = (if limit < ep0n d then d\<lparr>ep0n := limit\<rparr> else d)"
  have d1: "pma d1 = pma d" "epc d1 = epc d" "epr d1 = epr d" "ep0next d1 = ep0next d" "setup_packet d1 = setup_packet d"
    by (simp_all add: d1_def)
  have ok: "ep0_ok (d1\<lparr>ep0state := e\<rparr>)" for e
    using assms(1) by (rule ep0_ok_cong[THEN iffD1, rotated 3]) (simp_all add: d1)
  have c: "contents a d1 = contents a d" for a by (cases a) (simp_all add: d1_def)
  have "unat (ep0n d1) \<le> unat (ep0n d)" by (simp add: d1_def word_less_nat_alt)
  then have n: "unat (ep0n d1) \<le> length (contents (fst (ep0next d1)) (d1\<lparr>ep0state := e\<rparr>))" for e
    using assms(2) by (simp add: ep0_ready_def d1 c)
  obtain a where p: "ep0next d1 = (a, 0)" using assms(2) by (cases "ep0next d") (simp add: ep0_ready_def d1)
  have tx: "\<exists>d'. usbStartTransmitI 0 (ep0next d1) (ep0n d1) (d1\<lparr>ep0state := USB_EP0_TX\<rparr>) = Some d' \<and> ep0_answer d'"
  proof -
    obtain d' where "usbStartTransmitI 0 (a, 0) (ep0n d1) (d1\<lparr>ep0state := USB_EP0_TX\<rparr>) = Some d'"
      "stat_tx (epr d' 0) = EPR_STAT_TX_VALID" "ep0state d' = USB_EP0_TX"
      using ep0_transmit[OF ok n[unfolded p fst_conv], of USB_EP0_TX] by auto
    then show ?thesis by (simp add: p ep0_answer_def)
  qed
  have sts: "\<exists>d'. usbStartTransmitI 0 (Mem_Null, 0) 0 (d1\<lparr>ep0state := USB_EP0_SENDING_STS\<rparr>) = Some d' \<and> ep0_answer d'"
    using ep0_transmit[OF ok, of 0 Mem_Null USB_EP0_SENDING_STS] by (auto simp: ep0_answer_def)
  have rx: "\<exists>d'. usbStartReceiveI 0 q k (d1\<lparr>ep0state := e\<rparr>) = Some d' \<and> ep0_answer d'"
    if "e = USB_EP0_RX \<or> e = USB_EP0_WAITING_STS" for q k e
    using ep0_receive[OF ok, of q k e] that by (auto simp: ep0_answer_def)
  show ?thesis
    using tx sts rx[of USB_EP0_RX] rx[of USB_EP0_WAITING_STS]
    unfolding ep0_phase_def Let_def limit_def[symmetric] d1_def[symmetric] by auto
qed

lemma error_answers: "\<exists>d'. ep0_error usbcfg d = Some d' \<and> ep0_answer d'"
proof -
  have "stat_tx (with_rx EPR_STAT_RX_STALL r) = stat_tx r" for r
  proof -
    have v: "bit EPR_STAT_RX_STALL n \<longleftrightarrow> n \<in> {12}" for n
      unfolding epr_bits by (rule bit_u16; force simp: bit_numeral_rec bit_simps)
    show ?thesis
      unfolding with_rx_def stat_tx_def by (rule u16_bits_eqI, elim insertE emptyE; force simp: bit_simps v epr_masks)
  qed
  then show ?thesis
    by (simp add: ep0_error_def usb_isr_invoke_event_cb_def usbcfg_def vcom_event_def usb_lld_stall_out_def
        usb_lld_stall_in_def status_macros ep0_answer_def)
qed


end
