(* ===== verification/Usb_Receive.thy ===== *)
theory Usb_Receive
  imports Io_Input Usb_Answers
begin

text \<open>
  The serial port's input from end to end: the bytes of the packets that the host sends to
  the data endpoint are, in their order, the bytes that threads read from the port. The
  invariant ties the transfer in progress to the queue's next empty buffer; only while both
  buffers of the queue wait to be read, no transfer is in progress, and the endpoint
  refuses packets.
\<close>

subsection \<open>The invariant\<close>

lemma ibq_full_iff: "ibq_inv q \<Longrightarrow> ibqIsFullI q \<longleftrightarrow> unat (bcounter q) = bn q"
  using full_iff[of q "rd_slot q" "unat (bcounter q)"]
  by (auto simp: ibq_inv_def ibqIsFullI_def geometry_def unat_eq_zero)

text \<open>The driver is in use, with the data endpoint as the firmware configures it.\<close>

definition sdu_up :: "usbd \<Rightarrow> bool" where
  "sdu_up d \<longleftrightarrow> drv_state d = USB_ACTIVE \<and> sdu_state d = SDU_READY \<and> epc d 1 = Some ep1config \<and>
     in_params d 0 \<and> out_params d 0 \<and> epr d 1 AND EPR_CTR_MASK = 0 \<and>
     pma_area (RXADDR0 1) 64 d \<and> pma_area (TXADDR0 1) 64 d \<and>
     (unat (pma d ! TXADDR0 1) + 64 \<le> unat (pma d ! RXADDR0 1) \<or>
      unat (pma d ! RXADDR0 1) + 64 \<le> unat (pma d ! TXADDR0 1))"

text \<open>
  The reception with the queue: a transfer of \<open>k\<close> packets so far into the next empty
  buffer, or none and a full queue.
\<close>

definition rx_going :: "nat \<Rightarrow> 'a bq_scheme \<Rightarrow> usbd \<Rightarrow> bool" where
  "rx_going k q d \<longleftrightarrow> k < 4 \<and> \<not> ibqIsFullI q \<and> stat_rx (epr d 1) = EPR_STAT_RX_VALID \<and>
     (let x = xfers d (out_slot 1) in
        xcnt x = of_nat (64 * k) \<and> xbuf x = (Mem_Ib, bwrptr q + 4 + 64 * k) \<and> rxpkts x = of_nat (4 - k))"

definition sdu_rx :: "'a bq_scheme \<Rightarrow> usbd \<Rightarrow> bool" where
  "sdu_rx q d \<longleftrightarrow> bsize q = 260 \<and> bn q = 2 \<and>
     (if usbGetReceiveStatusI d 1 then \<exists>k. rx_going k q d
      else ibqIsFullI q \<and> stat_rx (epr d 1) \<noteq> EPR_STAT_RX_VALID)"

definition sdu_in :: "usbd \<Rightarrow> bool" where
  "sdu_in d \<longleftrightarrow> sdu_up d \<and> ibq_inv (ibqueue d) \<and> sdu_rx (ibqueue d) d"

text \<open>The bytes accepted from the host and not yet read.\<close>

definition rx_count :: "usbd \<Rightarrow> nat" where
  "rx_count d = (if usbGetReceiveStatusI d 1 then unat (xcnt (xfers d (out_slot 1))) else 0)"

definition in_stream :: "usbd \<Rightarrow> u8 list" where
  "in_stream d = ibq_bytes (ibqueue d) @
     take (rx_count d) (drop (bwrptr (ibqueue d) + sizeof_size_t) (buffers (ibqueue d)))"

text \<open>What the input side leaves alone for the output side.\<close>

definition rx_frame :: "usbd \<Rightarrow> usbd \<Rightarrow> bool" where
  "rx_frame d d' \<longleftrightarrow> transmitting d' = transmitting d \<and> obqueue d' = obqueue d \<and>
     xfers d' (in_slot 1) = xfers d (in_slot 1) \<and> stat_tx (epr d' 1) = stat_tx (epr d 1) \<and>
     setup_packet d' = setup_packet d \<and> linecoding d' = linecoding d \<and> stray d' = stray d \<and>
     (\<forall>j. j < TXADDR0 1 + 2 \<or>
        unat (pma d ! TXADDR0 1) div 2 \<le> j \<and> 2 * j < unat (pma d ! TXADDR0 1) + 64 \<longrightarrow> pma d' ! j = pma d ! j)"

lemma rx_frame_refl [simp]: "rx_frame d d"
  by (simp add: rx_frame_def)

subsection \<open>The callback of the input queue\<close>

lemma with_rx_flags [simp]:
  "with_rx EPR_STAT_RX_VALID r AND EPR_CTR_MASK = r AND EPR_CTR_MASK"
  "stat_tx (with_rx EPR_STAT_RX_VALID r) = stat_tx r"
proof -
  have v: "bit EPR_STAT_RX_VALID n \<longleftrightarrow> n \<in> {12, 13}" for n
    unfolding epr_bits by (rule bit_u16; force simp: bit_numeral_rec bit_simps)
  show "with_rx EPR_STAT_RX_VALID r AND EPR_CTR_MASK = r AND EPR_CTR_MASK"
    "stat_tx (with_rx EPR_STAT_RX_VALID r) = stat_tx r"
    unfolding with_rx_def stat_tx_def
    by (rule u16_bits_eqI, elim insertE emptyE; force simp: bit_simps v epr_masks)+
qed

lemma endpoint_1 [simp]: "out_slot 1 = 3" "in_slot 1 = 2" "bulk_out serusbcfg = 1" "bulk_in serusbcfg = 1"
  "out_slot (Suc 0) = 3" "in_slot (Suc 0) = 2"
  by (simp_all add: out_slot_def in_slot_def serusbcfg_def USBD1_DATA_AVAILABLE_EP_def USBD1_DATA_REQUEST_EP_def)

lemma ep_bit_1: "ep_bit 1 = 2"
  by (simp add: ep_bit_def)

lemma bit_set: "(r OR 2) AND 2 \<noteq> (0 :: u16)"
proof -
  have "bit ((r OR 2) AND 2 :: u16) 1" by (simp add: bit_simps bit_numeral_rec)
  then show ?thesis by auto
qed

text \<open>The start of a reception into an empty buffer.\<close>

definition receive_start :: "nat \<Rightarrow> usbd \<Rightarrow> usbd" where
  "receive_start p d = d\<lparr>receiving := receiving d OR 2,
     xfers := (xfers d)(3 := set_rxpkts 4 ((xfers d 3)\<lparr>xbuf := (Mem_Ib, p), xsize := 256, xcnt := 0\<rparr>)),
     epr := (epr d)(1 := with_rx EPR_STAT_RX_VALID (epr d 1))\<rparr>"

lemma receive_start:
  assumes "epc d 1 = Some ep1config"
  shows "usbStartReceiveI 1 (Mem_Ib, p) (of_nat SERIAL_USB_BUFFERS_SIZE) d = Some (receive_start p d)"
  using assms by (simp add: usbStartReceiveI_def usb_lld_start_out_def out_state_def ep1config_def set_xfer_def
      status_macros Let_def SERIAL_USB_BUFFERS_SIZE_def receive_start_def ep_bit_1[simplified])

lemma rxpkts_set [simp]: "rxpkts (set_rxpkts n x) = n" "xbuf (set_rxpkts n x) = xbuf x" "xcnt (set_rxpkts n x) = xcnt x"
proof -
  have "ucast ((w AND 0xFFFF0000) OR ucast n :: u32) = n" for w :: u32
    by (rule bit_word_eqI) (auto simp: bit_simps bit_numeral_rec less_Suc_eq eval_nat_numeral)
  then show "rxpkts (set_rxpkts n x) = n" by (simp add: rxpkts_def set_rxpkts_def)
qed (simp_all add: set_rxpkts_def)

lemma receive_started:
  assumes "sdu_up d" and "\<not> ibqIsFullI q" and "bsize q = 260" and "bn q = 2"
  shows "sdu_up (receive_start (bwrptr q + sizeof_size_t) d)"
    and "sdu_rx q (receive_start (bwrptr q + sizeof_size_t) d)"
    and "rx_count (receive_start (bwrptr q + sizeof_size_t) d) = 0"
    and "rx_frame d (receive_start (bwrptr q + sizeof_size_t) d)"
proof -
  obtain d' where d': "d' = receive_start (bwrptr q + sizeof_size_t) d" by blast
  have on: "usbGetReceiveStatusI d' 1" "xcnt (xfers d' 3) = 0"
    using bit_set[of "receiving d"] by (simp_all add: d' receive_start_def usbGetReceiveStatusI_def ep_bit_1[simplified])
  have "rx_going 0 q d'"
    using assms(2) by (simp add: rx_going_def d' receive_start_def sizeof_size_t_def)
  then have "sdu_rx q d'" using on assms(3,4) by (auto simp: sdu_rx_def)
  moreover have "rx_count d' = 0" using on by (simp add: rx_count_def)
  moreover have "sdu_up d'" using assms(1) by (simp add: sdu_up_def d' receive_start_def pma_area_def)
  moreover have "rx_frame d d'" by (simp add: rx_frame_def d' receive_start_def)
  ultimately show "sdu_up (receive_start (bwrptr q + sizeof_size_t) d)"
    "sdu_rx q (receive_start (bwrptr q + sizeof_size_t) d)"
    "rx_count (receive_start (bwrptr q + sizeof_size_t) d) = 0"
    "rx_frame d (receive_start (bwrptr q + sizeof_size_t) d)"
    unfolding d' by blast+
qed

text \<open>
  While a thread reads: the reception as it was before, or one newly started because the
  thread has released a buffer of a full queue.
\<close>

definition in_link :: "usbd \<Rightarrow> usbd option bq_scheme \<Rightarrow> bool" where
  "in_link d0 q \<longleftrightarrow> (case bq.more q of None \<Rightarrow> False
     | Some d \<Rightarrow> sdu_up d \<and> sdu_rx q d \<and> rx_count d = rx_count d0 \<and> rx_frame d0 d \<and>
         bwrptr q = bwrptr (ibqueue d0) \<and> buffers q = buffers (ibqueue d0))"

lemma rx_frame_trans: "rx_frame d d' \<Longrightarrow> rx_frame d' d'' \<Longrightarrow> rx_frame d d''"
proof -
  assume a: "rx_frame d d'" "rx_frame d' d''"
  then have "pma d' ! TXADDR0 1 = pma d ! TXADDR0 1" by (simp add: rx_frame_def TXADDR0_def)
  with a show ?thesis by (simp add: rx_frame_def)
qed

lemma sdu_rx_cong:
  "bsize q' = bsize q \<Longrightarrow> bn q' = bn q \<Longrightarrow> ibqIsFullI q' = ibqIsFullI q \<Longrightarrow> bwrptr q' = bwrptr q \<Longrightarrow>
   sdu_rx q' d = sdu_rx q d"
  by (simp add: sdu_rx_def rx_going_def)

lemma ibqueue_irrelevant [simp]:
  "sdu_up (d\<lparr>ibqueue := q\<rparr>) = sdu_up d" "sdu_rx r (d\<lparr>ibqueue := q\<rparr>) = sdu_rx r d"
  "rx_count (d\<lparr>ibqueue := q\<rparr>) = rx_count d" "rx_frame e (d\<lparr>ibqueue := q\<rparr>) = rx_frame e d"
  by (simp_all add: sdu_up_def sdu_rx_def rx_going_def rx_count_def rx_frame_def usbGetReceiveStatusI_def pma_area_def)

interpretation ib: quiet_callback ibnotify
  by unfold_locales (auto simp: ibnotify_def)

lemma released_free:
  fixes q r :: "usbd option bq_scheme"
  assumes "ibq_inv q" and "bcounter q \<noteq> 0" and "bn q = 2"
    and "r = q\<lparr>bcounter := bcounter q - 1, brdptr := next_buffer q (brdptr q), buf_ptr := None\<rparr>"
  shows "\<not> ibqIsFullI r"
proof -
  have rel: "ibqReleaseEmptyBufferS ibnotify q = ibnotify r" by (simp add: ibqReleaseEmptyBufferS_def assms(4))
  note R = ib.released[OF assms(1,2), unfolded rel ib.quiet_input ib.quiet_keeps]
  have "unat (bcounter q) \<le> 2" "bn r = 2" using assms by (simp_all add: ibq_inv_def geometry_def)
  moreover have "0 < unat (bcounter q)" using assms(2) by (simp add: unat_gt_0)
  ultimately show ?thesis using R(3) ibq_full_iff[OF R(1)] by simp
qed

text \<open>What the callback finds and leaves.\<close>

lemma ibnotify_run:
  assumes "bq.more r = Some d" and "sdu_up d" and "\<not> ibqIsFullI r" and "bsize r = 260" and "bn r = 2"
    and "usbGetReceiveStatusI d 1 \<Longrightarrow> sdu_rx r d"
  shows "\<exists>d'. bq.more (ibnotify r) = Some d' \<and> sdu_up d' \<and> sdu_rx r d' \<and> rx_count d' = rx_count d \<and> rx_frame d d'"
proof -
  obtain e where e: "e = d\<lparr>ibqueue := bq.truncate r\<rparr>" by blast
  have bk: "in_back r = Some e" using assms(1) by (simp add: in_back_def e)
  have up: "sdu_up e" "\<not> sdu_idle e" using assms(2) by (simp_all add: e, simp add: sdu_idle_def sdu_up_def)
  have more: "bq.more (ibnotify r) = (if usbGetReceiveStatusI e 1 then Some e else start_receive e)"
    using bk up by (simp add: ibnotify_def)
  have st: "usbGetReceiveStatusI e 1 = usbGetReceiveStatusI d 1" by (simp add: e usbGetReceiveStatusI_def)
  show ?thesis
  proof (cases "usbGetReceiveStatusI d 1")
    case True
    then show ?thesis using more st assms(2) assms(6)[OF True] by (simp add: e)
  next
    case False
    have q: "ibqIsFullI (ibqueue e) = ibqIsFullI r" "bwrptr (ibqueue e) = bwrptr r"
      by (simp_all add: e bq.truncate_def ibqIsFullI_def)
    have "epc e 1 = Some ep1config" using up(1) by (simp add: sdu_up_def)
    then have "start_receive e = Some (receive_start (bwrptr r + sizeof_size_t) e)"
      using assms(3) q receive_start by (simp add: start_receive_def ibqGetEmptyBufferI_def)
    moreover have "rx_count d = 0" using False by (simp add: rx_count_def)
    moreover note receive_started[OF up(1) assms(3-5)]
    moreover have "rx_frame d e" by (simp add: e)
    ultimately show ?thesis using more st False by (auto intro: rx_frame_trans)
  qed
qed

interpretation sdu_in: linked_input ibnotify "in_link d0" for d0
proof
  fix q :: "usbd option bq_scheme" and p t
  show "in_link d0 (q\<lparr>buf_ptr := p\<rparr>) = in_link d0 q" "in_link d0 (q\<lparr>buf_top := t\<rparr>) = in_link d0 q"
    by (auto simp: in_link_def sdu_rx_def rx_going_def ibqIsFullI_def split: option.splits)
  assume l: "in_link d0 q" and i: "ibq_inv q" and n: "bcounter q \<noteq> 0"
  obtain r where r: "r = q\<lparr>bcounter := bcounter q - 1, brdptr := next_buffer q (brdptr q), buf_ptr := None\<rparr>" by blast
  obtain d where d: "bq.more q = Some d" "sdu_up d" "sdu_rx q d" "rx_count d = rx_count d0" "rx_frame d0 d"
    "bwrptr q = bwrptr (ibqueue d0)" "buffers q = buffers (ibqueue d0)"
    using l by (auto simp: in_link_def split: option.splits)
  have g: "bsize q = 260" "bn q = 2" using d(3) by (simp_all add: sdu_rx_def)
  note nf = released_free[OF i n g(2) r]
  have rg: "bsize r = 260" "bn r = 2" "bq.more r = Some d" "bwrptr r = bwrptr q" "buffers r = buffers q"
    using g d(1) by (simp_all add: r)
  have "sdu_rx r d" if "usbGetReceiveStatusI d 1"
    using that d(3) nf rg by (auto simp: sdu_rx_def rx_going_def)
  from ibnotify_run[OF rg(3) d(2) nf rg(1,2) this] obtain d' where d': "bq.more (ibnotify r) = Some d'"
    "sdu_up d'" "sdu_rx r d'" "rx_count d' = rx_count d" "rx_frame d d'" by blast
  have "sdu_rx (ibnotify r) d'" using d'(3) by (subst sdu_rx_cong[of _ r]) (simp_all add: ibqIsFullI_def)
  then have "in_link d0 (ibnotify r)"
    using d' d rg by (auto simp: in_link_def intro: rx_frame_trans)
  then show "in_link d0 (ibqReleaseEmptyBufferS ibnotify q)" by (simp add: ibqReleaseEmptyBufferS_def r)
qed

subsection \<open>Reading from the port\<close>

lemma queue_fields [simp]:
  "bcounter (bq.extend q m) = bcounter q" "bwrptr (bq.extend q m) = bwrptr q" "brdptr (bq.extend q m) = brdptr q" "btop (bq.extend q m) = btop q"
  "bsize (bq.extend q m) = bsize q" "bn (bq.extend q m) = bn q" "buf_ptr (bq.extend q m) = buf_ptr q" "buf_top (bq.extend q m) = buf_top q"
  "buffers (bq.extend q m) = buffers q" "bq.more (bq.extend q m) = m"
  "bcounter (bq.truncate q') = bcounter q'" "bwrptr (bq.truncate q') = bwrptr q'" "brdptr (bq.truncate q') = brdptr q'" "btop (bq.truncate q') = btop q'"
  "bsize (bq.truncate q') = bsize q'" "bn (bq.truncate q') = bn q'" "buf_ptr (bq.truncate q') = buf_ptr q'" "buf_top (bq.truncate q') = buf_top q'"
  "buffers (bq.truncate q') = buffers q'"
  by (simp_all add: bq.extend_def bq.truncate_def)

lemma queue_parts [simp]:
  "ibq_inv (bq.extend q m) = ibq_inv q" "ibq_inv (bq.truncate q') = ibq_inv q'"
  "ibq_bytes (bq.extend q m) = ibq_bytes q" "ibq_bytes (bq.truncate q') = ibq_bytes q'"
  "sdu_rx (bq.extend q m) d = sdu_rx q d" "sdu_rx (bq.truncate q') d = sdu_rx q' d"
proof -
  have s: "size_of (bq.extend q m) = size_of q" "size_of (bq.truncate q') = size_of q'"
    "chunk (bq.extend q m) = chunk q" "chunk (bq.truncate q') = chunk q'"
    by (simp_all add: fun_eq_iff chunk_def size_of_def)
  show "ibq_inv (bq.extend q m) = ibq_inv q" "ibq_inv (bq.truncate q') = ibq_inv q'"
    "ibq_bytes (bq.extend q m) = ibq_bytes q" "ibq_bytes (bq.truncate q') = ibq_bytes q'"
    "sdu_rx (bq.extend q m) d = sdu_rx q d" "sdu_rx (bq.truncate q') d = sdu_rx q' d"
    by (simp_all add: ibq_inv_def ibq_bytes_def geometry_def filled_def rd_slot_def sdu_rx_def rx_going_def
        ibqIsFullI_def s cong: option.case_cong)
qed

lemma sdu_reads:
  assumes "sdu_in d" and "0 < n"
    and "t = TIME_INFINITE \<and> n \<le> length (ibq_bytes (ibqueue d)) \<or> t = TIME_IMMEDIATE"
  shows "\<exists>bs w' d'. sdu_readt n t w d = Some (bs, w', d') \<and> bs = take n (ibq_bytes (ibqueue d)) \<and>
    sdu_in d' \<and> in_stream d = bs @ in_stream d' \<and> rx_frame d d'"
proof -
  note I = assms(1)[unfolded sdu_in_def]
  have "in_link d (in_view d)"
    using I by (simp add: in_link_def in_view_def)
  moreover have "ibq_inv (in_view d)" "ibq_bytes (in_view d) = ibq_bytes (ibqueue d)"
    using I by (simp_all add: in_view_def)
  ultimately obtain w' q' where q': "ibqReadTimeout ibnotify n t w (in_view d) =
      Some (take n (ibq_bytes (ibqueue d)), w', q')" "ibq_inv q'" "ibq_bytes q' = drop n (ibq_bytes (ibqueue d))"
    "in_link d q'"
    using sdu_in.reads_stream[of "in_view d" n t w d] assms(2,3) by auto
  obtain e where e: "bq.more q' = Some e" "sdu_up e" "sdu_rx q' e" "rx_count e = rx_count d" "rx_frame d e"
    "bwrptr q' = bwrptr (ibqueue d)" "buffers q' = buffers (ibqueue d)"
    using q'(4) by (auto simp: in_link_def split: option.splits)
  obtain d' where d': "d' = e\<lparr>ibqueue := bq.truncate q'\<rparr>" by blast
  have "sdu_readt n t w d = Some (take n (ibq_bytes (ibqueue d)), w', d')"
    using I q'(1) e(1) by (simp add: sdu_readt_def sdu_up_def in_back_def d')
  moreover have "sdu_in d'" using e q'(2) by (simp add: sdu_in_def d')
  moreover have "in_stream d = take n (ibq_bytes (ibqueue d)) @ in_stream d'"
    using e q'(3) by (simp add: in_stream_def d')
  moreover have "rx_frame d d'" using e(5) by (simp add: d')
  ultimately show ?thesis by blast
qed

subsection \<open>Packets from the host\<close>

lemma out_served_status:
  "stat_rx (out_served r) = EPR_STAT_RX_NAK" "EPR_STAT_RX_NAK \<noteq> EPR_STAT_RX_VALID"
proof -
  have b: "bit EPR_DTOG_RX n \<longleftrightarrow> n \<in> {14}" "bit EPR_SETUP n \<longleftrightarrow> n \<in> {11}" for n
    unfolding epr_bits by (rule bit_u16; force simp: bit_numeral_rec bit_simps)+
  show "stat_rx (out_served r) = EPR_STAT_RX_NAK"
    unfolding out_served_def after_out_def stat_rx_def with_rx_def
    by (rule u16_bits_eqI, elim insertE emptyE; force simp: bit_simps b epr_masks)
  show "EPR_STAT_RX_NAK \<noteq> EPR_STAT_RX_VALID" by (simp add: epr_bits)
qed

text \<open>The queue when a packet's bytes are behind those of the transfer so far.\<close>

lemma packet_stored:
  assumes "sdu_in d" and "rx_going k (ibqueue d) d" and "length bs \<le> 64"
    and "q = (ibqueue d)\<lparr>buffers := put_bytes (bwrptr (ibqueue d) + 4 + 64 * k) bs (buffers (ibqueue d))\<rparr>"
  shows "ibq_inv q" and "ibq_bytes q = ibq_bytes (ibqueue d)" and "\<not> ibqIsFullI q"
    and "take (64 * k + length bs) (drop (bwrptr q + sizeof_size_t) (buffers q)) =
      take (64 * k) (drop (bwrptr (ibqueue d) + sizeof_size_t) (buffers (ibqueue d))) @ bs"
    and "bwrptr (ibqueue d) + 4 + 64 * k + length bs \<le> length (buffers (ibqueue d))"
    and "q = ibq_fill (take (64 * k + length bs) (drop (bwrptr q + sizeof_size_t) (buffers q))) q"
proof -
  let ?q = "ibqueue d"
  have i: "ibq_inv ?q" "bsize ?q = 260" using assms(1) by (simp_all add: sdu_in_def sdu_rx_def)
  have k: "k < 4" "\<not> ibqIsFullI ?q" using assms(2) by (simp_all add: rx_going_def)
  have g: "geometry ?q (rd_slot ?q) (unat (bcounter ?q))" using i(1) by (simp add: ibq_inv_def)
  have fit: "bwrptr ?q + 4 + 64 * k + length bs \<le> bwrptr ?q + bsize ?q" using k(1) i(2) assms(3) by simp
  then show l: "bwrptr ?q + 4 + 64 * k + length bs \<le> length (buffers ?q)"
    using geometry_bounds(3)[OF g] g by (simp add: geometry_def)
  show "ibq_inv q" "ibq_bytes q = ibq_bytes ?q"
    using ibq_unseen[OF i(1) k(2), of "bwrptr ?q + 4 + 64 * k" bs] fit unfolding assms(4) by simp_all
  show "\<not> ibqIsFullI q" using k(2) by (simp add: assms(4) ibqIsFullI_def)
  have e: "bwrptr q = bwrptr ?q" "buffers q = put_bytes (bwrptr ?q + 4 + 64 * k) bs (buffers ?q)"
    by (simp_all add: assms(4))
  show "take (64 * k + length bs) (drop (bwrptr q + sizeof_size_t) (buffers q)) =
      take (64 * k) (drop (bwrptr ?q + sizeof_size_t) (buffers ?q)) @ bs"
    using put_behind(2)[OF l] by (simp add: e sizeof_size_t_def)
  have "length (buffers q) = length (buffers ?q)" using l by (simp add: e length_put)
  then have "put_bytes (bwrptr q + sizeof_size_t)
      (take (64 * k + length bs) (drop (bwrptr q + sizeof_size_t) (buffers q))) (buffers q) = buffers q"
    using l by (intro put_own) (simp add: e(1) sizeof_size_t_def)
  then show "q = ibq_fill (take (64 * k + length bs) (drop (bwrptr q + sizeof_size_t) (buffers q))) q"
    by (simp add: ibq_fill_def)
qed

text \<open>What a packet leaves as it was.\<close>

lemma packet_frame:
  assumes "sdu_up d" and "rx_same 1 64 (pma d) (pma e)" and "epr e 1 = out_served (epr d 1)"
    and "drv_state e = drv_state d" "sdu_state e = sdu_state d" "epc e = epc d" "in_params e = in_params d"
      "out_params e = out_params d" "transmitting e = transmitting d" "obqueue e = obqueue d"
      "xfers e 2 = xfers d 2" "setup_packet e = setup_packet d" "linecoding e = linecoding d" "stray e = stray d"
  shows "sdu_up e" and "rx_frame d e"
proof -
  note U = assms(1)[unfolded sdu_up_def]
  obtain u where u: "u = unat (pma d ! RXADDR0 1)" by blast
  have u2: "64 \<le> u" "even u" using U by (simp_all add: pma_area_def u)
  have same: "pma e ! j = pma d ! j" if "j \<noteq> RXCOUNT0 1" "j < u div 2 \<or> u + 64 \<le> 2 * j" for j
    using that assms(2) by (simp add: rx_same_def u)
  have lu: "32 \<le> u div 2" using u2(1) by simp
  have h: "pma e ! TXADDR0 1 = pma d ! TXADDR0 1" "pma e ! RXADDR0 1 = pma d ! RXADDR0 1"
    using lu same[of "TXADDR0 1"] same[of "RXADDR0 1"] by (simp_all add: TXADDR0_def RXADDR0_def RXCOUNT0_def)
  have l: "length (pma e) = length (pma d)" using assms(2) by (simp add: rx_same_def)
  have "epr e 1 AND EPR_CTR_MASK = 0" using U assms(3) by (simp add: ctr_flags out_fields)
  then show "sdu_up e" using U h l assms(4-8) by (simp add: sdu_up_def pma_area_def)
  have "pma e ! j = pma d ! j" if "j < TXADDR0 1 + 2 \<or>
      unat (pma d ! TXADDR0 1) div 2 \<le> j \<and> 2 * j < unat (pma d ! TXADDR0 1) + 64" for j
    using that
  proof
    assume "j < TXADDR0 1 + 2"
    then show ?thesis using lu by (intro same) (simp_all add: TXADDR0_def RXCOUNT0_def)
  next
    obtain v where v: "v = unat (pma d ! TXADDR0 1)" by blast
    assume j: "unat (pma d ! TXADDR0 1) div 2 \<le> j \<and> 2 * j < unat (pma d ! TXADDR0 1) + 64"
    have vv: "64 \<le> v" "even v" "v + 64 \<le> u \<or> u + 64 \<le> v" using U by (auto simp: pma_area_def u v)
    have "32 \<le> j" using j vv(1) unfolding v[symmetric] by linarith
    moreover have "j < u div 2 \<or> u + 64 \<le> 2 * j"
      using j vv(2,3) u2(2) unfolding v[symmetric] by (auto elim!: evenE)
    ultimately show ?thesis by (intro same) (simp_all add: RXCOUNT0_def)
  qed
  moreover have "stat_tx (epr e 1) = stat_tx (epr d 1)" using assms(3) by (simp add: out_fields)
  ultimately show "rx_frame d e" using assms(4-14) by (simp add: rx_frame_def)
qed

text \<open>The end of a transfer: the buffer is posted, and the next one received into if there is one.\<close>

lemma transfer_posted:
  assumes "sdu_up e" and "ibq_inv (ibqueue e)" and "\<not> ibqIsFullI (ibqueue e)" and "bsize (ibqueue e) = 260"
    and "bn (ibqueue e) = 2" and "ibqueue e = ibq_fill ds (ibqueue e)" and "length ds \<le> 256"
    and "xcnt (xfers e 3) = of_nat (length ds)" and "stat_rx (epr e 1) = EPR_STAT_RX_NAK"
  shows "\<exists>d'. usb_isr_invoke_out_cb run_cb 1 e = Some d' \<and> sdu_in d' \<and>
    in_stream d' = ibq_bytes (ibqueue e) @ ds \<and> rx_frame e d'"
proof -
  note U = assms(1)[unfolded sdu_up_def]
  obtain q' where q': "ibqPostFullBufferI (of_nat (length ds)) (ibqueue e) = Some q'" "ibq_inv q'"
    "ibq_bytes q' = ibq_bytes (ibqueue e) @ ds" "bsize q' = 260" "bn q' = 2"
    using ibq_post[OF assms(2,3), of ds] assms(4-7) by auto
  obtain b where b: "b = (chnAddFlagsI CHN_INPUT_AVAILABLE (e\<lparr>receiving := receiving e AND NOT (ep_bit 1)\<rparr>))\<lparr>ibqueue := q'\<rparr>"
    by blast
  have run: "usb_isr_invoke_out_cb run_cb 1 e = start_receive b"
    using U q'(1) assms(8)
    by (simp add: usb_isr_invoke_out_cb_def run_cb_def sduDataReceived_def usbGetReceiveTransactionSizeX_def
        ep1config_def out_state_def chnAddFlagsI_def b)
  have off: "\<not> usbGetReceiveStatusI b 1"
  proof -
    have "(w AND NOT 2) AND 2 = (0 :: u16)" for w by (rule bit_word_eqI) (simp add: bit_simps)
    then show ?thesis by (simp add: b usbGetReceiveStatusI_def ep_bit_1[simplified] chnAddFlagsI_def)
  qed
  have f: "rx_frame e b" by (simp add: b rx_frame_def chnAddFlagsI_def)
  have up: "sdu_up b" using U by (simp add: b sdu_up_def chnAddFlagsI_def pma_area_def)
  have qb: "ibqueue b = q'" by (simp add: b)
  show ?thesis
  proof (cases "ibqIsFullI q'")
    case True
    have "stat_rx (epr b 1) \<noteq> EPR_STAT_RX_VALID"
      using assms(9) out_served_status(2) by (simp add: b chnAddFlagsI_def)
    then have "sdu_in b" using True off up q' by (simp add: sdu_in_def sdu_rx_def qb)
    moreover have "in_stream b = ibq_bytes (ibqueue e) @ ds" using off q'(3) by (simp add: in_stream_def rx_count_def qb)
    ultimately show ?thesis using True f run by (simp add: start_receive_def ibqGetEmptyBufferI_def qb)
  next
    case False
    note R = receive_started[OF up False q'(4,5)]
    have "epc b 1 = Some ep1config" using up by (simp add: sdu_up_def)
    then have "start_receive b = Some (receive_start (bwrptr q' + sizeof_size_t) b)"
      using False receive_start by (simp add: start_receive_def ibqGetEmptyBufferI_def qb)
    moreover have "ibqueue (receive_start p b) = q'" for p by (simp add: receive_start_def qb)
    ultimately show ?thesis
      using R q'(2,3) run rx_frame_trans[OF f] by (simp add: sdu_in_def in_stream_def)
  qed
qed

lemma store_ib:
  assumes "a + length bs \<le> length (buffers (ibqueue d))"
  shows "store_at (Mem_Ib, a) bs d =
    Some (d\<lparr>ibqueue := (ibqueue d)\<lparr>buffers := put_bytes a bs (buffers (ibqueue d))\<rparr>\<rparr>)"
  using assms by (simp add: store_at_def put_bytes_def)

lemma host_packet:
  assumes "sdu_in d" and "usbGetReceiveStatusI d 1" and "length bs \<le> 64"
  shows "\<exists>d1 d2. host_out 1 bs d = Some d1 \<and> usb_serve_endpoints run_cb 1 d1 = Some d2 \<and> sdu_in d2 \<and>
    in_stream d2 = in_stream d @ bs \<and> rx_frame d d2"
proof -
  have up: "sdu_up d" and rx: "sdu_rx (ibqueue d) d" using assms(1) by (simp_all add: sdu_in_def)
  obtain k where going: "rx_going k (ibqueue d) d" using rx assms(2) by (auto simp: sdu_rx_def)
  obtain x where x: "x = xfers d 3" by blast
  note G = going[unfolded rx_going_def endpoint_1 Let_def, folded x]
  note U = up[unfolded sdu_up_def]
  have oe: "out_ep 1 ep1config 64 d" using U by (simp add: out_ep_def ep1config_def)
  obtain a where a: "a = bwrptr (ibqueue d) + 4 + 64 * k" by blast
  obtain q where q: "q = (ibqueue d)\<lparr>buffers := put_bytes a bs (buffers (ibqueue d))\<rparr>" by blast
  note S = packet_stored[OF assms(1) going assms(3) q[unfolded a], folded a]
  obtain m d1 where h: "host_out 1 bs d = Some d1" "rx_same 1 64 (pma d) m"
    "usb_serve_endpoints run_cb 1 d1 =
      Option.bind (store_at (xbuf x) bs (d\<lparr>pma := m, epr := (epr d)(1 := out_served (epr d 1))\<rparr>)) (\<lambda>d2.
        let d3 = set_xfer 3 (out_adv (length bs)) d2 in
        if length bs < 64 \<or> rxpkts (out_adv (length bs) x) = 0 then usb_isr_invoke_out_cb run_cb 1 d3
        else Some (EPR_SET_STAT_RX 1 EPR_STAT_RX_VALID d3))"
    using served_out[OF oe _ _ assms(3) x[folded endpoint_1(1)], of run_cb] G U by (auto simp del: One_nat_def)
  obtain e where e: "e = set_xfer 3 (out_adv (length bs)) (d\<lparr>pma := m, epr := (epr d)(1 := out_served (epr d 1)), ibqueue := q\<rparr>)"
    by blast
  have "store_at (xbuf x) bs (d\<lparr>pma := m, epr := (epr d)(1 := out_served (epr d 1))\<rparr>) =
      Some (d\<lparr>pma := m, epr := (epr d)(1 := out_served (epr d 1)), ibqueue := q\<rparr>)"
    using G S(5) by (simp add: store_ib a[symmetric] q)
  then have run: "usb_serve_endpoints run_cb 1 d1 =
      (if length bs < 64 \<or> rxpkts (out_adv (length bs) x) = 0 then usb_isr_invoke_out_cb run_cb 1 e
       else Some (EPR_SET_STAT_RX 1 EPR_STAT_RX_VALID e))"
    using h(3) by (simp add: e Let_def)
  have fr: "sdu_up e" "rx_frame d e"
    using packet_frame[OF up, of e] h(2) by (simp_all add: e set_xfer_def)
  have cnt: "xcnt (xfers e 3) = of_nat (64 * k + length bs)" "rxpkts (out_adv (length bs) x) = of_nat (3 - k)"
    "xbuf (xfers e 3) = (Mem_Ib, a + length bs)"
  proof -
    have "(of_nat (4 - k) :: u16) - 1 = of_nat (3 - k)" using G by (simp add: of_nat_diff)
    then show "xcnt (xfers e 3) = of_nat (64 * k + length bs)" "rxpkts (out_adv (length bs) x) = of_nat (3 - k)"
      "xbuf (xfers e 3) = (Mem_Ib, a + length bs)"
      using G by (simp_all add: e set_xfer_def out_adv_def x[symmetric] a)
  qed
  obtain ds where ds: "ds = take (64 * k + length bs) (drop (bwrptr q + sizeof_size_t) (buffers q))" by blast
  have l: "length ds = 64 * k + length bs" using S(4,5) a q by (simp add: ds sizeof_size_t_def length_put)
  have geo: "bsize q = 260" "bn q = 2" "ibqueue e = q" "bwrptr q = bwrptr (ibqueue d)"
    using rx by (simp_all add: sdu_rx_def q e set_xfer_def)
  have part: "rx_count d = 64 * k"
    using assms(2) G by (simp add: rx_count_def x[symmetric] unat_of_nat take_bit_nat_eq_self_iff flip: of_nat_mult)
  have str: "ibq_bytes q @ ds = in_stream d @ bs"
    using S(2,4) by (simp add: in_stream_def part ds)
  have nak: "stat_rx (epr e 1) = EPR_STAT_RX_NAK" by (simp add: e set_xfer_def out_served_status)
  show ?thesis
  proof (cases "length bs < 64 \<or> rxpkts (out_adv (length bs) x) = 0")
    case True
    obtain d' where "usb_isr_invoke_out_cb run_cb 1 e = Some d'" "sdu_in d'" "in_stream d' = ibq_bytes q @ ds" "rx_frame e d'"
      using transfer_posted[OF fr(1), unfolded geo(3), OF S(1,3) geo(1,2) S(6)[folded ds]] l G assms(3) cnt(1) nak by auto
    then show ?thesis using h(1) run True str rx_frame_trans[OF fr(2)] by auto
  next
    case False
    then have full: "length bs = 64" "of_nat (3 - k) \<noteq> (0 :: u16)" using assms(3) cnt(2) by auto
    then have k: "Suc k < 4" by (cases "k = 3") (use G in auto)
    obtain d' where d': "d' = EPR_SET_STAT_RX 1 EPR_STAT_RX_VALID e" by blast
    have d'e: "d' = e\<lparr>epr := (epr e)(1 := with_rx EPR_STAT_RX_VALID (epr e 1))\<rparr>" by (simp only: d' status_macros)
    have "rx_going (Suc k) q d'"
      using k S(3) cnt full(1) G by (simp add: rx_going_def d'e Let_def a geo e set_xfer_def out_adv_def x[symmetric])
    moreover have on: "usbGetReceiveStatusI d' 1"
      using assms(2) by (simp add: d'e e set_xfer_def usbGetReceiveStatusI_def)
    ultimately have "sdu_in d'"
      using fr(1) S(1) geo by (auto simp: sdu_in_def d'e sdu_rx_def sdu_up_def pma_area_def)
    moreover have "in_stream d' = in_stream d @ bs"
    proof -
      have "rx_count d' = length ds"
        using on cnt(1) l k full(1) by (simp add: rx_count_def d'e unat_of_nat take_bit_nat_eq_self_iff del: of_nat_add of_nat_mult)
      then show ?thesis using str geo(3) l by (simp add: in_stream_def d'e ds)
    qed
    moreover have "rx_frame e d'" by (simp add: d'e rx_frame_def)
    ultimately show ?thesis using h(1) run False rx_frame_trans[OF fr(2)] by (auto simp: d')
  qed
qed

end
