(* ===== verification/Io_Output.thy ===== *)
theory Io_Output
  imports Io_Ring
begin

text \<open>
  An output queue as a queue of bytes: what is written as a stream is handed out in
  buffers, in order, with no byte lost or doubled; a write takes as much as there is space.
\<close>

subsection \<open>The invariant and the stream\<close>

definition obq_count :: "'a bq_scheme \<Rightarrow> nat" where
  "obq_count q = bn q - unat (bcounter q)"

definition obq_inv :: "'a bq_scheme \<Rightarrow> bool" where
  "obq_inv q \<longleftrightarrow> geometry q (rd_slot q) (obq_count q) \<and> unat (bcounter q) \<le> bn q \<and>
     (case buf_ptr q of None \<Rightarrow> True
      | Some p \<Rightarrow> bcounter q \<noteq> 0 \<and> bwrptr q + 4 \<le> p \<and> p < buf_top q \<and> buf_top q = bwrptr q + bsize q)"

text \<open>The bytes in the current buffer, the stream that is still to be sent, and the space left.\<close>

definition obq_pending :: "'a bq_scheme \<Rightarrow> nat" where
  "obq_pending q = (case buf_ptr q of None \<Rightarrow> 0 | Some p \<Rightarrow> p - (bwrptr q + 4))"

definition obq_bytes :: "'a bq_scheme \<Rightarrow> u8 list" where
  "obq_bytes q = filled q (rd_slot q) (obq_count q) @
     take (obq_pending q) (drop (bwrptr q + 4) (buffers q))"

definition obq_space :: "'a bq_scheme \<Rightarrow> nat" where
  "obq_space q = unat (bcounter q) * (bsize q - 4) - obq_pending q"

lemma obq_free:
  assumes "obq_inv q"
  shows "unat (bcounter q) + obq_count q = bn q" and "bcounter q \<noteq> 0 \<Longrightarrow> obq_count q < bn q"
    and "geometry q (rd_slot q) (obq_count q)"
proof -
  show s: "unat (bcounter q) + obq_count q = bn q" using assms by (simp add: obq_inv_def obq_count_def)
  show "obq_count q < bn q" if "bcounter q \<noteq> 0"
  proof -
    from that have "0 < unat (bcounter q)" by (simp add: unat_gt_0)
    with s show ?thesis by linarith
  qed
  show "geometry q (rd_slot q) (obq_count q)" using assms by (simp add: obq_inv_def)
qed

text \<open>The current buffer.\<close>

lemma obq_current:
  assumes "obq_inv q" and "buf_ptr q = Some p"
  shows "bcounter q \<noteq> 0" "p = bwrptr q + 4 + obq_pending q" "obq_pending q + 4 < bsize q"
    "buf_top q = bwrptr q + bsize q" "buf_top q \<le> length (buffers q)" "length (buffers q) < 2 ^ 32"
proof -
  note g = obq_free(3)[OF assms(1)]
  show "bcounter q \<noteq> 0" "p = bwrptr q + 4 + obq_pending q" "obq_pending q + 4 < bsize q"
    "buf_top q = bwrptr q + bsize q"
    using assms by (auto simp: obq_inv_def obq_pending_def)
  then show "buf_top q \<le> length (buffers q)" "length (buffers q) < 2 ^ 32"
    using geometry_bounds(3)[OF g] g by (simp_all add: geometry_def)
qed

subsection \<open>Posting the current buffer\<close>

lemma obq_post_run:
  assumes "obq_inv q" and "buf_ptr q = Some p"
  shows "obq_post (of_nat n) q = Some ((posted n q)\<lparr>bcounter := bcounter q - 1, buf_ptr := None\<rparr>)"
proof -
  have "\<not> length (buffers q) < bwrptr q + sizeof_size_t"
    using obq_current(4,5)[OF assms] obq_free(3)[OF assms(1)] by (simp add: sizeof_size_t_def geometry_def)
  then show ?thesis by (simp add: obq_post_def store_size_def posted_def next_buffer_def)
qed

lemma obq_posted:
  assumes "geometry q (rd_slot q) (obq_count q)" and "unat (bcounter q) \<le> bn q" and "bcounter q \<noteq> 0"
    and "n + 4 \<le> bsize q" and "q' = (posted n q)\<lparr>bcounter := bcounter q - 1, buf_ptr := None\<rparr>"
  shows "obq_inv q'"
    and "obq_bytes q' = filled q (rd_slot q) (obq_count q) @ take n (drop (bwrptr q + 4) (buffers q))"
    and "obq_space q' + (bsize q - 4) = unat (bcounter q) * (bsize q - 4)"
    and "obq_count q' = Suc (obq_count q)"
proof -
  have pos: "0 < unat (bcounter q)" using assms(3) by (simp add: unat_gt_0)
  have n: "unat (bcounter q - 1) = unat (bcounter q) - 1" using assms(3) by (rule unat_dec)
  have lt: "obq_count q < bn q" using pos assms(2) by (simp add: obq_count_def)
  note P = geometry_posted[OF assms(1) lt assms(4)]
  have s: "rd_slot q' = rd_slot q" "bn q' = bn q" "bsize q' = bsize q" "bcounter q' = bcounter q - 1"
    "buf_ptr q' = None" "geometry q' = geometry (posted n q)" "filled q' = filled (posted n q)"
    by (simp_all add: assms(5) posted_def rd_slot_def)
  have c: "obq_count q' = Suc (obq_count q)"
    using pos assms(2) unfolding obq_count_def s n by linarith
  then show "obq_count q' = Suc (obq_count q)" .
  show "obq_inv q'" using P(1) c assms(2) unfolding obq_inv_def s n by simp
  show "obq_bytes q' = filled q (rd_slot q) (obq_count q) @ take n (drop (bwrptr q + 4) (buffers q))"
    using P(2) unfolding obq_bytes_def c s by (simp add: obq_pending_def s)
  obtain c' where "unat (bcounter q) = Suc c'" using pos gr0_implies_Suc by blast
  then show "obq_space q' + (bsize q - 4) = unat (bcounter q) * (bsize q - 4)"
    unfolding obq_space_def s n by (simp add: obq_pending_def s)
qed

text \<open>Bytes put into the current buffer.\<close>

lemma obq_filling:
  assumes "obq_inv q" and "buf_ptr q = Some p" and "p + length bs \<le> buf_top q"
    and "q1 = q\<lparr>buffers := put_bytes p bs (buffers q), buf_ptr := Some (p + length bs)\<rparr>"
  shows "geometry q1 (rd_slot q1) (obq_count q1)" and "rd_slot q1 = rd_slot q" and "obq_count q1 = obq_count q"
    and "filled q1 (rd_slot q) (obq_count q) = filled q (rd_slot q) (obq_count q)"
    and "take (obq_pending q + length bs) (drop (bwrptr q + 4) (buffers q1)) =
      take (obq_pending q) (drop (bwrptr q + 4) (buffers q)) @ bs"
proof -
  note C = obq_current[OF assms(1,2)]
  note F = obq_free(3)[OF assms(1)] obq_free(2)[OF assms(1) C(1)]
  have in_buf: "bwrptr q \<le> p" "p + length bs \<le> bwrptr q + bsize q" using C(2,4) assms(3) by simp_all
  note U = geometry_unseen[OF F in_buf]
  show s: "rd_slot q1 = rd_slot q" "obq_count q1 = obq_count q" by (simp_all add: assms(4) obq_count_def rd_slot_def)
  have e: "geometry q1 = geometry (q\<lparr>buffers := put_bytes p bs (buffers q)\<rparr>)"
    "filled q1 = filled (q\<lparr>buffers := put_bytes p bs (buffers q)\<rparr>)"
    unfolding assms(4) by (simp_all add: fun_eq_iff geometry_def filled_def chunk_def size_of_def)
  show "geometry q1 (rd_slot q1) (obq_count q1)" unfolding s e by (rule U(1))
  show "filled q1 (rd_slot q) (obq_count q) = filled q (rd_slot q) (obq_count q)" unfolding e by (rule U(2))
  have l: "p + length bs \<le> length (buffers q)" using assms(3) C(5) by linarith
  show "take (obq_pending q + length bs) (drop (bwrptr q + 4) (buffers q1)) =
      take (obq_pending q) (drop (bwrptr q + 4) (buffers q)) @ bs"
  proof -
    have "put_bytes p bs (buffers q) = take p (buffers q) @ bs @ drop (p + length bs) (buffers q)"
      by (simp add: put_bytes_def)
    moreover have "drop (bwrptr q + 4) (take p (buffers q)) = take (obq_pending q) (drop (bwrptr q + 4) (buffers q))"
      unfolding C(2) by (simp add: drop_take)
    moreover have "length (take (obq_pending q) (drop (bwrptr q + 4) (buffers q))) = obq_pending q"
      using l C(2) by simp
    ultimately show ?thesis using l C(2) by (simp add: assms(4))
  qed
qed

text \<open>An empty buffer taken up for writing.\<close>

lemma obq_acquired:
  assumes "obq_inv q" and "bcounter q \<noteq> 0" and "buf_ptr q = None"
  shows "\<exists>q' p. obqGetEmptyBufferTimeoutS timeout w q = Some (MSG_OK, w, q') \<and> obq_inv q' \<and>
    buf_ptr q' = Some p \<and> obq_bytes q' = obq_bytes q \<and> obq_space q' = obq_space q \<and>
    (\<exists>t. q' = q\<lparr>buf_ptr := Some p, buf_top := t\<rparr>)"
proof -
  obtain q' where q': "q' = q\<lparr>buf_ptr := Some (bwrptr q + 4), buf_top := bwrptr q + bsize q\<rparr>" by blast
  note g = obq_free(3)[OF assms(1)]
  have "obqGetEmptyBufferTimeoutS timeout w q = Some (MSG_OK, w, q')"
    using assms(2) by (simp add: obqGetEmptyBufferTimeoutS_def wait_ready obqIsFullI_def bqSpaceI_def
        MSG_OK_def sizeof_size_t_def q')
  moreover have "4 < bsize q" using g by (simp add: geometry_def)
  then have "obq_inv q'" "obq_bytes q' = obq_bytes q" "obq_space q' = obq_space q" "buf_ptr q' = Some (bwrptr q + 4)"
    using assms by (simp_all add: q' obq_inv_def obq_count_def obq_bytes_def obq_pending_def obq_space_def)
  ultimately show ?thesis using q' by blast
qed

lemma obq_acquired_none:
  assumes "bcounter q = 0"
  shows "obqGetEmptyBufferTimeoutS TIME_IMMEDIATE w q = Some (MSG_TIMEOUT, w, q)"
  using assms by (simp add: obqGetEmptyBufferTimeoutS_def wait_immediate obqIsFullI_def bqSpaceI_def
      MSG_TIMEOUT_def MSG_OK_def)

subsection \<open>The hardware's side\<close>

lemma obq_empty_iff:
  assumes "obq_inv q"
  shows "obqIsEmptyI q \<longleftrightarrow> obq_count q = 0"
proof -
  note F = obq_free[OF assms]
  have "bcounter q = 0 \<longleftrightarrow> obq_count q = bn q" using F(1) by (auto simp: unat_eq_zero)
  moreover have "0 < bn q" using F(3) by (auto simp: geometry_def)
  ultimately show ?thesis using full_iff[OF F(3)] by (auto simp: obqIsEmptyI_def)
qed

lemma obq_front:
  assumes "obq_inv q" and "obq_count q \<noteq> 0"
  shows "\<exists>n. obqGetFullBufferI q = Some (Some (n, brdptr q + sizeof_size_t)) \<and>
    brdptr q + sizeof_size_t + unat n \<le> length (buffers q) \<and> unat n + 4 \<le> bsize q \<and>
    take (unat n) (drop (brdptr q + sizeof_size_t) (buffers q)) = take (unat n) (obq_bytes q) \<and>
    obq_inv (obqReleaseEmptyBufferI q) \<and>
    obq_bytes (obqReleaseEmptyBufferI q) = drop (unat n) (obq_bytes q) \<and>
    unat n \<le> length (obq_bytes q) \<and> unat n = size_of q (rd_slot q) \<and>
    chunk q (rd_slot q) = take (unat n) (obq_bytes q) \<and>
    obq_count (obqReleaseEmptyBufferI q) = obq_count q - 1 \<and>
    rd_slot (obqReleaseEmptyBufferI q) = Suc (rd_slot q) mod bn q"
proof -
  obtain c where c: "obq_count q = Suc c" using assms(2) not0_implies_Suc by blast
  note F = obq_free[OF assms(1)]
  note g = F(3)[unfolded c]
  note R = geometry_released[OF g]
  let ?i = "rd_slot q" and ?n = "get_u32 (brdptr q) (buffers q)"
  have rd: "bsize q * ?i = brdptr q" "length (buffers q) = btop q" using g by (simp_all add: geometry_def)
  have n: "unat ?n = size_of q ?i" by (simp add: size_of_def rd)
  have fits: "brdptr q + 4 + size_of q ?i \<le> length (buffers q)"
    using R(4) geometry_bounds(2)[OF g] rd(2) by linarith
  have get: "obqGetFullBufferI q = Some (Some (?n, brdptr q + sizeof_size_t))"
    using fits assms by (simp add: obqGetFullBufferI_def obq_empty_iff read_size_def sizeof_size_t_def)
  have ch: "chunk q ?i = take (unat ?n) (drop (brdptr q + sizeof_size_t) (buffers q))"
    by (simp add: chunk_def n rd sizeof_size_t_def)
  have b: "obq_bytes q = chunk q ?i @ filled q (Suc ?i mod bn q) c @
      take (obq_pending q) (drop (bwrptr q + 4) (buffers q))"
    by (simp add: obq_bytes_def c R(2))
  obtain r where r: "r = obqReleaseEmptyBufferI q" by blast
  have s: "brdptr r = next_buffer q (brdptr q)" "bn r = bn q" "bsize r = bsize q" "bcounter r = bcounter q + 1"
    "buf_ptr r = buf_ptr q" "bwrptr r = bwrptr q" "buffers r = buffers q" "buf_top r = buf_top q"
    "geometry r = geometry (q\<lparr>brdptr := next_buffer q (brdptr q)\<rparr>)" "filled r = filled q"
    by (simp_all add: r obqReleaseEmptyBufferI_def fun_eq_iff geometry_def filled_def chunk_def size_of_def)
  have "unat (bcounter q) < 2 ^ 32 - 1" using F(1) c geometry_bounds(1)[OF g] by linarith
  then have cnt: "unat (bcounter q + 1) = Suc (unat (bcounter q))" by (rule unat_inc)
  have oc: "obq_count r = c" using F(1) c unfolding obq_count_def s cnt by linarith
  have slot: "rd_slot r = Suc ?i mod bn q"
    using geometry_bounds(4)[OF R(1)] by (simp add: rd_slot_def s)
  have "bcounter r \<noteq> 0" using cnt by (auto simp: s)
  then have "obq_inv r"
    using assms(1) R(1) F(1) c cnt unfolding obq_inv_def oc slot s by (auto split: option.splits)
  moreover have "obq_bytes r = filled q (Suc ?i mod bn q) c @
      take (obq_pending q) (drop (bwrptr q + 4) (buffers q))"
    by (cases "buf_ptr q") (simp_all add: obq_bytes_def oc slot s obq_pending_def)
  ultimately show ?thesis
    using get fits R(3,4) b n ch c oc slot by (intro exI[of _ ?n]) (simp add: r[symmetric] sizeof_size_t_def)
qed

text \<open>A buffer that is only partly written is posted when nothing else waits to be sent.\<close>

lemma obq_flush:
  assumes "obq_inv q"
  shows "\<exists>b q'. obqTryFlushI q = Some (b, q') \<and> obq_inv q' \<and> obq_bytes q' = obq_bytes q \<and>
    (b \<longrightarrow> obq_count q' = 1 \<and> size_of q' (rd_slot q') \<noteq> 0 \<and> bsize q' = bsize q \<and> bn q' = bn q) \<and> (\<not> b \<longrightarrow> q' = q) \<and> (b \<longleftrightarrow> obq_count q = 0 \<and> obq_bytes q \<noteq> [])"
proof -
  note F = obq_free[OF assms]
  have pend: "length (obq_bytes q) = obq_pending q" if "obq_count q = 0"
  proof -
    have "obq_pending q \<le> length (drop (bwrptr q + 4) (buffers q))"
    proof (cases "buf_ptr q")
      case (Some p)
      with obq_current(3-5)[OF assms Some] show ?thesis by simp
    qed (simp add: obq_pending_def)
    with that show ?thesis by (simp add: obq_bytes_def filled_def)
  qed
  show ?thesis
  proof (cases "obq_count q = 0 \<and> obq_pending q \<noteq> 0")
    case True
    then obtain p where p: "buf_ptr q = Some p" by (auto simp: obq_pending_def split: option.splits)
    note C = obq_current[OF assms p]
    obtain q' where q': "q' = (posted (obq_pending q) q)\<lparr>bcounter := bcounter q - 1, buf_ptr := None\<rparr>" by blast
    have "(of_nat p - (of_nat (bwrptr q) + of_nat sizeof_size_t) :: u32) = of_nat (obq_pending q)"
      unfolding C(2) by (simp add: sizeof_size_t_def)
    moreover have "obq_pending q < 2 ^ 32" using C(3-6) by linarith
    then have "unat (of_nat (obq_pending q) :: u32) = obq_pending q"
      by (simp only: unat_of_nat) (simp add: take_bit_nat_eq_self_iff)
    then have "(of_nat (obq_pending q) :: u32) > 0" using True by (metis unat_gt_0 gr0I word_gt_0)
    ultimately have run: "obqTryFlushI q = Some (True, q')"
      using True assms by (simp add: obqTryFlushI_def p obq_empty_iff Let_def obq_post_run[OF assms p] q')
    note P = obq_posted[OF F(3) _ C(1) _ q']
    have q: "obq_inv q'" "obq_bytes q' = obq_bytes q" "obq_count q' = 1"
      using P assms C(3) True by (simp_all add: obq_inv_def obq_bytes_def)
    have s: "rd_slot q' = rd_slot q" "size_of q' = size_of (posted (obq_pending q) q)" "bsize q' = bsize q" "bn q' = bn q"
      by (simp_all add: q' posted_def rd_slot_def)
    have "rd_slot q < bn q" using F(3) by (simp add: geometry_def)
    then have "size_of q' (rd_slot q') \<noteq> 0"
      using geometry_posted(5)[OF F(3) F(2)[OF C(1)], of "obq_pending q"] C(3) True by (simp add: s)
    note q s(3,4) this
    moreover have "obq_bytes q \<noteq> []" using pend True by auto
    ultimately show ?thesis using run True by (intro exI[of _ True] exI[of _ q']) simp
  next
    case False
    have "obqTryFlushI q = Some (False, q)"
    proof (cases "buf_ptr q")
      case (Some p)
      note C = obq_current[OF assms Some]
      have "of_nat p - (of_nat (bwrptr q) + of_nat sizeof_size_t) = (0 :: u32)" if "obq_pending q = 0"
        using C(2) that by (simp add: sizeof_size_t_def)
      then show ?thesis using False assms by (auto simp: obqTryFlushI_def Some obq_empty_iff Let_def)
    qed (simp add: obqTryFlushI_def)
    moreover have "\<not> (obq_count q = 0 \<and> obq_bytes q \<noteq> [])" using False pend by (metis length_0_conv)
    ultimately show ?thesis using assms by (intro exI[of _ False] exI[of _ q]) simp
  qed
qed

subsection \<open>Writing\<close>

context quiet_callback
begin

lemma quiet_output [simp]:
  "obq_inv (notify q) = obq_inv q" "obq_bytes (notify q) = obq_bytes q" "obq_space (notify q) = obq_space q"
  by (simp_all add: obq_inv_def obq_bytes_def obq_space_def obq_count_def obq_pending_def split: option.splits)

end

text \<open>
  What the hardware's side needs of the queue, whatever the writer's side does: it depends
  neither on the writer's current buffer nor on the bytes in it, and the callback restores
  it after a buffer is posted.
\<close>

locale linked_output = quiet_callback notify for notify :: "'a bq_scheme \<Rightarrow> 'a bq_scheme" +
  fixes link :: "'a bq_scheme \<Rightarrow> bool"
  assumes link_current: "link (q\<lparr>buf_ptr := p\<rparr>) = link q" "link (q\<lparr>buf_top := t\<rparr>) = link q"
    and link_put: "link q \<Longrightarrow> obq_inv q \<Longrightarrow> bcounter q \<noteq> 0 \<Longrightarrow> bwrptr q \<le> a \<Longrightarrow> a + length bs \<le> bwrptr q + bsize q \<Longrightarrow>
      link (q\<lparr>buffers := put_bytes a bs (buffers q)\<rparr>)"
    and link_post: "link q \<Longrightarrow> geometry q (rd_slot q) (obq_count q) \<Longrightarrow> unat (bcounter q) \<le> bn q \<Longrightarrow> bcounter q \<noteq> 0 \<Longrightarrow>
      0 < n \<Longrightarrow> n + 4 \<le> bsize q \<Longrightarrow> link (notify ((posted n q)\<lparr>bcounter := bcounter q - 1, buf_ptr := None\<rparr>))"
begin

lemma advanced:
  assumes "obq_inv q" and "buf_ptr q = Some p" and "p + length bs \<le> buf_top q"
  shows "\<exists>q'. obq_advance notify p bs q = Some q' \<and> obq_inv q' \<and> obq_bytes q' = obq_bytes q @ bs \<and>
    obq_space q' + length bs = obq_space q \<and> (link q \<longrightarrow> link q')"
proof -
  obtain q1 where q1: "q1 = q\<lparr>buffers := put_bytes p bs (buffers q), buf_ptr := Some (p + length bs)\<rparr>" by blast
  note C = obq_current[OF assms(1,2)] and F = obq_filling[OF assms q1]
  have l: "\<not> length (buffers q) < p + length bs" using assms(3) C(5) by linarith
  have s: "bcounter q1 = bcounter q" "bn q1 = bn q" "bsize q1 = bsize q" "bwrptr q1 = bwrptr q"
    "buf_ptr q1 = Some (p + length bs)" "buf_top q1 = buf_top q" by (simp_all add: q1)
  have "obq_pending q1 = p + length bs - (bwrptr q + 4)" by (simp add: obq_pending_def s)
  with C(2) have pend: "obq_pending q1 = obq_pending q + length bs" by linarith
  have bytes: "obq_bytes q1 = obq_bytes q @ bs" unfolding obq_bytes_def pend s F(2-5) by simp
  have fit: "obq_pending q + length bs + 4 \<le> bsize q" using assms(3) C(2,4) by linarith
  have cnt: "unat (bcounter q1) \<le> bn q1" using assms(1) by (simp add: s obq_inv_def)
  have pos: "0 < unat (bcounter q)" using C(1) by (simp add: unat_gt_0)
  obtain c where c: "unat (bcounter q) = Suc c" using pos gr0_implies_Suc by blast
  have lk: "link q \<longrightarrow> link q1"
    using link_put[OF _ assms(1) C(1), of p bs] link_current(1)[of "Some (p + length bs)"] C(2,4) assms(3)
    by (simp add: q1)
  show ?thesis
  proof (cases "buf_top q \<le> p + length bs")
    case True
    then have full: "obq_pending q1 = bsize q - 4" using assms(3) C(2,4) pend by linarith
    obtain q2 where q2: "q2 = (posted (bsize q1 - 4) q1)\<lparr>bcounter := bcounter q1 - 1, buf_ptr := None\<rparr>" by blast
    have n: "bsize q1 - 4 + 4 \<le> bsize q1" using C(3) by (simp add: s)
    note P = obq_posted[OF F(1) cnt _ n q2, unfolded s(1), OF C(1)]
    have "\<not> length (buffers q1) < bwrptr q1 + sizeof_size_t"
      using l C(2) by (simp add: q1 length_put sizeof_size_t_def)
    then have "obq_post (of_nat (bsize q1 - 4)) q1 = Some q2"
      by (simp add: obq_post_def store_size_def posted_def next_buffer_def q2)
    then have "obq_advance notify p bs q = Some (notify q2)"
      using True l by (simp add: obq_advance_def obqPostFullBufferS_def sizeof_size_t_def s q1[symmetric] Let_def)
    moreover have "obq_bytes q1 = filled q1 (rd_slot q1) (obq_count q1) @
        take (bsize q1 - 4) (drop (bwrptr q1 + 4) (buffers q1))"
      by (simp add: obq_bytes_def full s)
    then have "obq_bytes q2 = obq_bytes q @ bs" using P(2) bytes by simp
    moreover have "obq_space q2 + length bs = obq_space q"
      using P(3) full pend unfolding obq_space_def s c by simp
    moreover have "link q1 \<longrightarrow> link (notify q2)"
      using link_post[OF _ F(1) cnt, of "bsize q1 - 4"] C(1,3) n by (simp add: q2 s)
    ultimately show ?thesis using P(1) lk by simp
  next
    case False
    have "obq_inv q1"
      using F(1) cnt False C(1,2) s by (simp add: obq_inv_def) (simp add: C(4))
    moreover have "obq_space q1 + length bs = obq_space q"
      using fit pend unfolding obq_space_def s c by simp
    moreover have "obq_advance notify p bs q = Some q1"
      using False l by (simp add: obq_advance_def s q1[symmetric] Let_def)
    ultimately show ?thesis using bytes lk by blast
  qed
qed

lemma write_round:
  assumes "obq_inv q" and "t = TIME_INFINITE \<or> t = TIME_IMMEDIATE" and "bcounter q \<noteq> 0"
  shows "\<exists>w' q1 p. transfer_buffer obqGetEmptyBufferTimeoutS t deadline w q = Some (True, w', q1) \<and>
    obq_inv q1 \<and> buf_ptr q1 = Some p \<and> obq_bytes q1 = obq_bytes q \<and> obq_space q1 = obq_space q \<and>
    link q1 = link q"
proof (cases "buf_ptr q")
  case None
  from obq_acquired[OF assms(1,3) None, of t w] show ?thesis
    using assms(2) None link_current by (auto simp: transfer_buffer_def)
next
  case (Some p)
  then show ?thesis using assms(1) by (auto simp: transfer_buffer_def)
qed

lemma write_loop:
  assumes "obq_inv q" and "k < length bs"
    and "t = TIME_INFINITE \<and> length bs - k \<le> obq_space q \<or> t = TIME_IMMEDIATE"
  shows "\<exists>w' q'. loop_while (\<lambda>(_, stop, _, _). \<not> stop) (obq_write_body notify bs t deadline) (k, False, w, q) =
      Some (k + min (length bs - k) (obq_space q), True, w', q') \<and> obq_inv q' \<and>
    obq_bytes q' = obq_bytes q @ take (obq_space q) (drop k bs) \<and>
    obq_space q' = obq_space q - (length bs - k) \<and> (link q \<longrightarrow> link q')"
  using assms
proof (induction "length bs - k" arbitrary: k w q rule: less_induct)
  case less
  have t: "t = TIME_INFINITE \<or> t = TIME_IMMEDIATE" using less.prems(3) by blast
  show ?case
  proof (cases "bcounter q = 0")
    case True
    then have none: "buf_ptr q = None" using less.prems(1) by (auto simp: obq_inv_def split: option.splits)
    have e: "obq_space q = 0" by (simp add: obq_space_def True)
    with less.prems(2,3) have "t = TIME_IMMEDIATE" by auto
    then have body: "obq_write_body notify bs t deadline (k, False, w, q) = Some (k, True, w, q)"
      using True none by (simp add: obq_write_body_def transfer_buffer_def obq_acquired_none MSG_TIMEOUT_def MSG_OK_def)
    show ?thesis using less.prems(1) e
      by (intro exI[of _ w] exI[of _ q])
        (simp add: loop_step[of _ "(k, False, w, q)" "obq_write_body notify bs t deadline", OF _ body] loop_stop)
  next
    case False
    obtain w1 q1 p where r: "transfer_buffer obqGetEmptyBufferTimeoutS t deadline w q = Some (True, w1, q1)"
      "obq_inv q1" "buf_ptr q1 = Some p" "obq_bytes q1 = obq_bytes q" "obq_space q1 = obq_space q"
      "link q1 = link q"
      using write_round[OF less.prems(1) t False, of deadline w] by blast
    note C = obq_current[OF r(2,3)]
    obtain m where m: "m = chunk_size p (buf_top q1) (length bs - k)" by blast
    have pt: "p < buf_top q1" "buf_top q1 < 2 ^ 32" using C(2-6) by linarith+
    have me: "m = min 64 (min (length bs - k) (buf_top q1 - p))" unfolding m
      using pt by (intro piece_eq) simp_all
    have m0: "0 < m" "m \<le> length bs - k" "p + m \<le> buf_top q1" using me pt less.prems(2) by auto
    obtain cs where cs: "cs = take m (drop k bs)" "length cs = m" using m0(2) by simp
    obtain q2 where a: "obq_advance notify p cs q1 = Some q2" "obq_inv q2" "obq_bytes q2 = obq_bytes q @ cs"
      "obq_space q2 + m = obq_space q" "link q \<longrightarrow> link q2"
      using advanced[OF r(2,3), of cs] m0(3) unfolding cs(2) r(4,5,6) by blast
    have body: "obq_write_body notify bs t deadline (k, False, w, q) = Some (k + m, length bs \<le> k + m, w1, q2)"
      using a(1) by (simp add: obq_write_body_def r(1,3) m[symmetric] cs(1)[symmetric] Let_def)
    note step = loop_step[of _ "(k, False, w, q)" "obq_write_body notify bs t deadline", OF _ body]
    show ?thesis
    proof (cases "length bs \<le> k + m")
      case True
      then have "m = length bs - k" using m0(2) by linarith
      then show ?thesis using True a(2-5) cs(1)
        by (intro exI[of _ w1] exI[of _ q2]) (auto simp: step loop_stop)
    next
      case False
      then have lt: "length bs - (k + m) < length bs - k" "k + m < length bs" using m0(1) by linarith+
      have "t = TIME_INFINITE \<and> length bs - (k + m) \<le> obq_space q2 \<or> t = TIME_IMMEDIATE"
        using less.prems(3) a(4) by auto
      from less.hyps[OF lt(1) a(2) lt(2) this, of w1] obtain w' q' where h:
        "loop_while (\<lambda>(_, stop, _, _). \<not> stop) (obq_write_body notify bs t deadline) (k + m, False, w1, q2) =
           Some (k + m + min (length bs - (k + m)) (obq_space q2), True, w', q')" "obq_inv q'"
        "obq_bytes q' = obq_bytes q2 @ take (obq_space q2) (drop (k + m) bs)"
        "obq_space q' = obq_space q2 - (length bs - (k + m))" "link q2 \<longrightarrow> link q'" by blast
      have "k + m + min (length bs - (k + m)) (obq_space q2) = k + min (length bs - k) (obq_space q)"
        "obq_space q' = obq_space q - (length bs - k)"
        using a(4) h(4) m0(2) False by linarith+
      moreover have "obq_bytes q' = obq_bytes q @ take (obq_space q) (drop k bs)"
        unfolding h(3) a(3) a(4)[symmetric] cs(1) by (simp add: take_add add.commute)
      ultimately show ?thesis using h(1,2,5) a(5) False
        by (intro exI[of _ w'] exI[of _ q']) (simp add: step)
    qed
  qed
qed

lemma writes_stream:
  assumes "obq_inv q" and "bs \<noteq> []"
    and "t = TIME_INFINITE \<and> length bs \<le> obq_space q \<or> t = TIME_IMMEDIATE"
  shows "\<exists>w' q'. obqWriteTimeout notify bs t w q = Some (min (length bs) (obq_space q), w', q') \<and>
    obq_inv q' \<and> obq_bytes q' = obq_bytes q @ take (obq_space q) bs \<and>
    obq_space q' = obq_space q - length bs \<and> (link q \<longrightarrow> link q')"
proof -
  obtain t0 w1 where w1: "osalOsGetSystemTimeX w = (t0, w1)" by fastforce
  from write_loop[of q 0 bs t "t0 + t" w1] assms show ?thesis by (auto simp: obqWriteTimeout_def w1)
qed

end

end
