(* ===== verification/Usb_Send.thy ===== *)
theory Usb_Send
  imports Usb_Receive Io_Output
begin

text \<open>
  The serial port's output from end to end: the bytes that threads write to the port are, in
  their order, the bytes of the packets that the host gets from the data endpoint. The
  invariant ties the transfer in progress to the queue's oldest full buffer; the rest of a
  buffer is sent at the next start of a frame, and a packet of length 0 ends a transfer
  that fills its last packet.
\<close>

subsection \<open>The invariant\<close>

definition ob_at :: "'a bq_scheme \<Rightarrow> usbd \<Rightarrow> usbd" where
  "ob_at q d = d\<lparr>obqueue := bq.truncate q\<rparr>"

text \<open>A transfer of the oldest full buffer, of which \<open>k\<close> bytes have been taken, or of nothing.\<close>

definition tx_going :: "nat \<Rightarrow> 'a bq_scheme \<Rightarrow> usbd \<Rightarrow> bool" where
  "tx_going k q d \<longleftrightarrow>
     obq_count q \<noteq> 0 \<and> k < size_of q (rd_slot q) \<and>
       in_going 1 ep1config 64 (Mem_Ob, brdptr q + sizeof_size_t) (chunk q (rd_slot q)) k (ob_at q d)
     \<or> k = 0 \<and> in_going 1 ep1config 64 (Mem_Setup, 0) [] 0 (ob_at q d)"

definition tx_count :: "usbd \<Rightarrow> nat" where
  "tx_count d = (if usbGetTransmitStatusI d 1 then unat (xcnt (xfers d (in_slot 1))) else 0)"

definition sdu_tx :: "'a bq_scheme \<Rightarrow> usbd \<Rightarrow> bool" where
  "sdu_tx q d \<longleftrightarrow> bsize q = 260 \<and> bn q = 2 \<and>
     list_all (\<lambda>k. 0 < size_of q k) (ring_slots (rd_slot q) (obq_count q) (bn q)) \<and>
     (if usbGetTransmitStatusI d 1 then tx_going (tx_count d) q d
      else obq_count q = 0 \<and> stat_tx (epr d 1) \<noteq> EPR_STAT_TX_VALID)"

definition sdu_out :: "usbd \<Rightarrow> bool" where
  "sdu_out d \<longleftrightarrow> sdu_up d \<and> obq_inv (obqueue d) \<and> sdu_tx (obqueue d) d"

text \<open>The bytes written and not yet taken by the host.\<close>

definition out_stream :: "usbd \<Rightarrow> u8 list" where
  "out_stream d = drop (tx_count d) (obq_bytes (obqueue d))"

text \<open>The transmission of nothing that ends a transfer with a full last packet.\<close>

definition tx_closing :: "usbd \<Rightarrow> bool" where
  "tx_closing d \<longleftrightarrow> usbGetTransmitStatusI d 1 \<and> xsize (xfers d 2) = 0"

text \<open>What the output side leaves alone for the input side.\<close>

definition tx_frame :: "usbd \<Rightarrow> usbd \<Rightarrow> bool" where
  "tx_frame d d' \<longleftrightarrow> receiving d' = receiving d \<and> ibqueue d' = ibqueue d \<and>
     xfers d' 3 = xfers d 3 \<and> stat_rx (epr d' 1) = stat_rx (epr d 1) \<and>
     setup_packet d' = setup_packet d \<and> linecoding d' = linecoding d \<and> stray d' = stray d \<and>
     tx_same 1 64 (pma d) (pma d')"

lemma tx_frame_refl [simp]: "tx_frame d d"
  by (simp add: tx_frame_def)

lemma tx_frame_trans: "sdu_up d \<Longrightarrow> tx_frame d d' \<Longrightarrow> tx_frame d' d'' \<Longrightarrow> tx_frame d d''"
  using tx_same_trans[of 1 ep1config 64 d "pma d'" "pma d''"]
  by (auto simp: tx_frame_def sdu_up_def in_ep_def ep1config_def)

lemma up_in_ep: "sdu_up d \<Longrightarrow> in_ep 1 ep1config 64 d"
  by (simp add: sdu_up_def in_ep_def ep1config_def)

subsection \<open>Starting a transmission\<close>

lemma in_going_queue:
  assumes "in_going ep c sz p bs k d" and "pma d' = pma d" and "epc d' = epc d" and "epr d' ep = epr d ep"
    and "xfers d' (in_slot ep) = xfers d (in_slot ep)"
    and "fetch p (length bs + length bs mod 2) d' = Some cs" and "take (length bs) cs = bs"
  shows "in_going ep c sz p bs k d'"
  using assms in_packet_cong[OF assms(2)] in_ep_cong[OF assms(2,3)] by (simp add: in_going_def)

lemma front_fetch:
  assumes "obq_inv q" and "obq_count q \<noteq> 0" and "obqueue d = bq.truncate q"
  shows "\<exists>cs. fetch (Mem_Ob, brdptr q + sizeof_size_t)
      (length (chunk q (rd_slot q)) + length (chunk q (rd_slot q)) mod 2) d = Some cs \<and>
    take (length (chunk q (rd_slot q))) cs = chunk q (rd_slot q)"
    and "length (chunk q (rd_slot q)) = size_of q (rd_slot q)" and "size_of q (rd_slot q) + 4 \<le> bsize q"
proof -
  obtain n :: u32 where n: "brdptr q + sizeof_size_t + unat n \<le> length (buffers q)" "unat n + 4 \<le> bsize q"
    "take (unat n) (drop (brdptr q + sizeof_size_t) (buffers q)) = take (unat n) (obq_bytes q)"
    "unat n \<le> length (obq_bytes q)" "unat n = size_of q (rd_slot q)"
    "chunk q (rd_slot q) = take (unat n) (obq_bytes q)"
    using obq_front[OF assms(1,2)] by blast
  show l: "length (chunk q (rd_slot q)) = size_of q (rd_slot q)" and "size_of q (rd_slot q) + 4 \<le> bsize q"
    using n by simp_all
  define xs where "xs = drop (brdptr q + sizeof_size_t) (buffers q @ [stray d])"
  have x: "take (unat n) xs = chunk q (rd_slot q)" "unat n + unat n mod 2 \<le> length xs"
    using n by (auto simp: xs_def)
  moreover have "fetch (Mem_Ob, brdptr q + sizeof_size_t) m d = (if length xs < m then None else Some (take m xs))" for m
    by (simp add: fetch_def Let_def assms(3) xs_def del: drop_append)
  ultimately show "\<exists>cs. fetch (Mem_Ob, brdptr q + sizeof_size_t)
      (length (chunk q (rd_slot q)) + length (chunk q (rd_slot q)) mod 2) d = Some cs \<and>
    take (length (chunk q (rd_slot q))) cs = chunk q (rd_slot q)"
    unfolding l n(5)[symmetric] by (simp add: min_def)
qed

lemma tx_up:
  assumes "sdu_up d" and "tx_same 1 64 (pma d) (pma e)" and "epr e 1 AND EPR_CTR_MASK = 0"
    and "drv_state e = drv_state d" "sdu_state e = sdu_state d" "epc e = epc d" "in_params e = in_params d"
      "out_params e = out_params d"
  shows "sdu_up e"
proof -
  note U = assms(1)[unfolded sdu_up_def]
  have "64 \<le> unat (pma d ! TXADDR0 1)" using U by (simp add: pma_area_def)
  then have u: "32 \<le> unat (pma d ! TXADDR0 1) div 2" by linarith
  have "pma e ! j = pma d ! j" if "j < 32" "j \<noteq> TXCOUNT0 1" for j
    using assms(2) u that by (simp add: tx_same_def)
  then have "pma e ! TXADDR0 1 = pma d ! TXADDR0 1" "pma e ! RXADDR0 1 = pma d ! RXADDR0 1"
    by (simp_all add: TXADDR0_def RXADDR0_def TXCOUNT0_def)
  moreover have "length (pma e) = length (pma d)" using assms(2) by (simp add: tx_same_def)
  ultimately show ?thesis using U assms(3-8) by (simp add: sdu_up_def pma_area_def)
qed

lemma going_count: "in_going 1 c sz p bs k d \<Longrightarrow> unat (xcnt (xfers d 2)) = k"
  by (simp add: in_going_def Let_def)

lemma transmit_run:
  assumes "sdu_up d" and "fetch p (length bs + length bs mod 2) d = Some cs" and "take (length bs) cs = bs"
    and "length bs < 2 ^ 32"
  shows "\<exists>d'. usbStartTransmitI 1 p (of_nat (length bs)) d = Some d' \<and> sdu_up d' \<and> tx_frame d d' \<and>
    in_going 1 ep1config 64 p bs 0 d' \<and> usbGetTransmitStatusI d' 1 \<and> tx_count d' = 0 \<and> obqueue d' = obqueue d"
proof -
  note U = assms(1)[unfolded sdu_up_def]
  have f: "epr d 1 AND EPR_CTR_RX = 0" "epr d 1 AND EPR_CTR_TX = 0" using U by (simp_all add: ctr_flags)
  have n: "unat (of_nat (length bs) :: u32) = length bs" using of_nat_unat_eq[OF assms(4)] by simp
  obtain x m where st: "usbStartTransmitI 1 p (of_nat (length bs)) d =
      Some (in_upd 1 x (with_tx EPR_STAT_TX_VALID (epr d 1)) m (d\<lparr>transmitting := transmitting d OR ep_bit 1\<rparr>))"
    "in_going 1 ep1config 64 p bs 0
      (in_upd 1 x (with_tx EPR_STAT_TX_VALID (epr d 1)) m (d\<lparr>transmitting := transmitting d OR ep_bit 1\<rparr>))"
    "length m = 256" "\<forall>j. j \<noteq> TXCOUNT0 1 \<and>
      (j < unat (pma d ! TXADDR0 1) div 2 \<or> unat (pma d ! TXADDR0 1) + 64 \<le> 2 * j) \<longrightarrow> m ! j = pma d ! j"
    using in_started[OF up_in_ep[OF assms(1)] assms(2,3) n f] by blast
  obtain d' where d': "d' = in_upd 1 x (with_tx EPR_STAT_TX_VALID (epr d 1)) m
    (d\<lparr>transmitting := transmitting d OR ep_bit 1\<rparr>)" by blast
  have sm: "tx_same 1 64 (pma d) m" using st(3,4) U by (simp add: tx_same_def pma_area_def)
  have "sdu_up d'" using f sm by (intro tx_up[OF assms(1)]) (simp_all add: d' in_upd_def ctr_flags del: One_nat_def)
  moreover have "tx_frame d d'" using sm by (simp add: tx_frame_def d' in_upd_def)
  moreover have on: "usbGetTransmitStatusI d' 1"
    using bit_set[of "transmitting d"] by (simp add: d' in_upd_def usbGetTransmitStatusI_def ep_bit_1[simplified])
  moreover have "tx_count d' = 0" using going_count[OF st(2)[folded d']] on by (simp add: tx_count_def)
  ultimately show ?thesis using st(1,2) by (auto simp: d' in_upd_def)
qed

text \<open>The oldest full buffer, or nothing, handed to the endpoint.\<close>

lemma front_started:
  assumes "sdu_up d" and "obq_inv q" and "obq_count q \<noteq> 0" and "obqueue d = bq.truncate q"
    and "bsize q = 260" and "bn q = 2"
    and "list_all (\<lambda>k. 0 < size_of q k) (ring_slots (rd_slot q) (obq_count q) (bn q))"
  shows "\<exists>n d'. obqGetFullBufferI q = Some (Some (n, brdptr q + sizeof_size_t)) \<and>
    usbStartTransmitI 1 (Mem_Ob, brdptr q + sizeof_size_t) n d = Some d' \<and> sdu_up d' \<and> sdu_tx q d' \<and>
    tx_frame d d' \<and> tx_count d' = 0 \<and> obqueue d' = obqueue d \<and> \<not> tx_closing d'"
proof -
  obtain n where n: "obqGetFullBufferI q = Some (Some (n, brdptr q + sizeof_size_t))" "unat n = size_of q (rd_slot q)"
    using obq_front[OF assms(2,3)] by blast
  obtain bs where bs: "bs = chunk q (rd_slot q)" by blast
  obtain cs where cs: "fetch (Mem_Ob, brdptr q + sizeof_size_t) (length bs + length bs mod 2) d = Some cs"
    "take (length bs) cs = bs" "length bs = size_of q (rd_slot q)" "size_of q (rd_slot q) + 4 \<le> bsize q"
    using front_fetch[OF assms(2-4)] unfolding bs[symmetric] by blast
  have l: "length bs < 2 ^ 32" using cs(3,4) assms(5) by simp
  then have nl: "n = of_nat (length bs)" using n(2) cs(3) by (metis of_nat_unat_eq)
  obtain d' where d': "usbStartTransmitI 1 (Mem_Ob, brdptr q + sizeof_size_t) n d = Some d'" "sdu_up d'" "tx_frame d d'"
    "in_going 1 ep1config 64 (Mem_Ob, brdptr q + sizeof_size_t) bs 0 d'" "usbGetTransmitStatusI d' 1"
    "tx_count d' = 0" "obqueue d' = obqueue d"
    using transmit_run[OF assms(1) cs(1,2) l] unfolding nl by blast
  have pos: "0 < size_of q (rd_slot q)"
  proof -
    have "rd_slot q < bn q" using obq_free(3)[OF assms(2)] by (simp add: geometry_def)
    then show ?thesis using assms(3,7) ring_slots_first[of "rd_slot q" "bn q" "obq_count q"] by (auto simp: list_all_iff)
  qed
  have "ob_at q d' = d'" using d'(7) assms(4) by (simp add: ob_at_def)
  with pos have "tx_going (tx_count d') q d'" using d'(4,6) assms(3) by (simp add: tx_going_def bs)
  moreover have "unat (xsize (xfers d' 2)) = length bs" using d'(4) by (simp add: in_going_def Let_def)
  then have "\<not> tx_closing d'" using pos cs(3) by (auto simp: tx_closing_def)
  ultimately show ?thesis using n(1) d' assms(5-7) by (auto simp: sdu_tx_def)
qed

subsection \<open>The callback of the output queue\<close>

lemma out_queue_parts [simp]:
  "obq_count (bq.extend q m) = obq_count q" "obq_count (bq.truncate q') = obq_count q'"
  "size_of (bq.extend q m) = size_of q" "size_of (bq.truncate q') = size_of q'"
  "chunk (bq.extend q m) = chunk q" "chunk (bq.truncate q') = chunk q'"
  "rd_slot (bq.extend q m) = rd_slot q" "rd_slot (bq.truncate q') = rd_slot q'"
  by (simp_all add: fun_eq_iff obq_count_def size_of_def chunk_def rd_slot_def)

lemma out_queue_bytes [simp]:
  "obq_inv (bq.extend q m) = obq_inv q" "obq_inv (bq.truncate q') = obq_inv q'"
  "obq_bytes (bq.extend q m) = obq_bytes q" "obq_bytes (bq.truncate q') = obq_bytes q'"
  "obq_space (bq.extend q m) = obq_space q"
  "obqGetFullBufferI (bq.truncate q') = obqGetFullBufferI q'"
proof -
  have p: "obq_pending (bq.extend q m) = obq_pending q" "obq_pending (bq.truncate q') = obq_pending q'"
    by (simp_all add: obq_pending_def cong: option.case_cong)
  show "obq_inv (bq.extend q m) = obq_inv q" "obq_inv (bq.truncate q') = obq_inv q'"
    "obq_bytes (bq.extend q m) = obq_bytes q" "obq_bytes (bq.truncate q') = obq_bytes q'"
    "obq_space (bq.extend q m) = obq_space q"
    "obqGetFullBufferI (bq.truncate q') = obqGetFullBufferI q'"
    by (simp_all add: obq_inv_def obq_bytes_def obq_space_def geometry_def filled_def p obqGetFullBufferI_def
        obqIsEmptyI_def read_size_def cong: option.case_cong)
qed

lemma obqueue_irrelevant [simp]:
  "sdu_up (d\<lparr>obqueue := r\<rparr>) = sdu_up d" "tx_count (d\<lparr>obqueue := r\<rparr>) = tx_count d"
  "tx_frame e (d\<lparr>obqueue := r\<rparr>) = tx_frame e d" "ob_at q (d\<lparr>obqueue := r\<rparr>) = ob_at q d"
  by (simp_all add: sdu_up_def tx_count_def tx_frame_def usbGetTransmitStatusI_def pma_area_def ob_at_def)

lemma sdu_tx_irrelevant [simp]:
  "sdu_tx q (d\<lparr>obqueue := r\<rparr>) = sdu_tx q d"
  by (simp add: sdu_tx_def tx_going_def usbGetTransmitStatusI_def)

lemma ob_at_cong:
  assumes "buffers q' = buffers q"
  shows "in_going ep c sz p bs k (ob_at q' d) = in_going ep c sz p bs k (ob_at q d)"
proof -
  have "contents a (ob_at q' d) = contents a (ob_at q d)" for a
    using assms by (cases a) (simp_all add: ob_at_def)
  then have "fetch p n (ob_at q' d) = fetch p n (ob_at q d)" for n
    by (simp add: fetch_def) (simp add: ob_at_def)
  moreover have "in_packet ep (ob_at q' d) = in_packet ep (ob_at q d)" "in_ep ep c sz (ob_at q' d) = in_ep ep c sz (ob_at q d)"
    by (rule in_packet_cong in_ep_cong; simp add: ob_at_def)+
  ultimately show ?thesis by (simp add: in_going_def) (simp add: ob_at_def)
qed

lemma sdu_tx_current [simp]:
  "sdu_tx (q\<lparr>buf_ptr := p\<rparr>) d = sdu_tx q d" "sdu_tx (q\<lparr>buf_top := t\<rparr>) d = sdu_tx q d"
  "sdu_tx (bq.more_update f q) d = sdu_tx q d"
proof -
  have "obq_count (q\<lparr>buf_ptr := p\<rparr>) = obq_count q" "obq_count (q\<lparr>buf_top := t\<rparr>) = obq_count q"
    "obq_count (bq.more_update f q) = obq_count q" by (simp_all add: obq_count_def)
  moreover have "in_going ep c sz a bs k (ob_at (q\<lparr>buf_ptr := p\<rparr>) d) = in_going ep c sz a bs k (ob_at q d)"
    "in_going ep c sz a bs k (ob_at (q\<lparr>buf_top := t\<rparr>) d) = in_going ep c sz a bs k (ob_at q d)"
    "in_going ep c sz a bs k (ob_at (bq.more_update f q) d) = in_going ep c sz a bs k (ob_at q d)" for ep c sz a bs k
    by (rule ob_at_cong; simp)+
  ultimately show "sdu_tx (q\<lparr>buf_ptr := p\<rparr>) d = sdu_tx q d" "sdu_tx (q\<lparr>buf_top := t\<rparr>) d = sdu_tx q d"
    "sdu_tx (bq.more_update f q) d = sdu_tx q d"
    by (simp_all add: sdu_tx_def tx_going_def)
qed

lemma sdu_tx_parts [simp]: "sdu_tx (bq.extend q m) d = sdu_tx q d" "sdu_tx (bq.truncate q') d = sdu_tx q' d"
proof -
  have "ob_at (bq.extend q m) d = ob_at q d" "ob_at (bq.truncate q') d = ob_at q' d"
    by (simp_all add: ob_at_def bq.truncate_def bq.extend_def)
  then show "sdu_tx (bq.extend q m) d = sdu_tx q d" "sdu_tx (bq.truncate q') d = sdu_tx q' d"
    by (simp_all add: sdu_tx_def tx_going_def)
qed

text \<open>A transmission is not disturbed by what happens behind the oldest buffer.\<close>

lemma tx_going_moved:
  assumes "tx_going k q d" and "obq_inv q'" and "rd_slot q' = rd_slot q" and "brdptr q' = brdptr q"
    and "obq_count q \<noteq> 0 \<Longrightarrow> obq_count q' \<noteq> 0 \<and> chunk q' (rd_slot q) = chunk q (rd_slot q) \<and>
      size_of q' (rd_slot q) = size_of q (rd_slot q)"
  shows "tx_going k q' d"
proof (cases "obq_count q \<noteq> 0 \<and> in_going 1 ep1config 64 (Mem_Ob, brdptr q + sizeof_size_t) (chunk q (rd_slot q)) k (ob_at q d) \<and>
    k < size_of q (rd_slot q)")
  case True
  note n = assms(5)[OF True[THEN conjunct1]]
  have ob: "obqueue (ob_at q' d) = bq.truncate q'" by (simp add: ob_at_def)
  obtain cs where "fetch (Mem_Ob, brdptr q' + sizeof_size_t)
      (length (chunk q' (rd_slot q')) + length (chunk q' (rd_slot q')) mod 2) (ob_at q' d) = Some cs"
    "take (length (chunk q' (rd_slot q'))) cs = chunk q' (rd_slot q')"
    using front_fetch(1)[OF assms(2) _ ob] n by blast
  then have "in_going 1 ep1config 64 (Mem_Ob, brdptr q + sizeof_size_t) (chunk q (rd_slot q)) k (ob_at q' d)"
    using n assms(3,4) by (intro in_going_queue[OF True[THEN conjunct2, THEN conjunct1]]) (simp_all add: ob_at_def)
  then show ?thesis using n True assms(3,4) by (simp add: tx_going_def)
next
  case False
  then have z: "k = 0" "in_going 1 ep1config 64 (Mem_Setup, 0) [] 0 (ob_at q d)"
    using assms(1) by (auto simp: tx_going_def)
  have "fetch (Mem_Setup, 0) 0 (ob_at q' d) = Some []" by (simp add: fetch_def)
  then have "in_going 1 ep1config 64 (Mem_Setup, 0) [] 0 (ob_at q' d)"
    by (intro in_going_queue[OF z(2)]) (simp_all add: ob_at_def)
  then show ?thesis using z(1) by (simp add: tx_going_def)
qed

lemma sdu_tx_put:
  assumes "sdu_tx q d" and "obq_inv q" and "bcounter q \<noteq> 0" and "bwrptr q \<le> a" and "a + length bs \<le> bwrptr q + bsize q"
  shows "sdu_tx (q\<lparr>buffers := put_bytes a bs (buffers q)\<rparr>) d"
proof -
  obtain q' where q': "q' = q\<lparr>buffers := put_bytes a bs (buffers q)\<rparr>" by blast
  note F = obq_free[OF assms(2)]
  note U = geometry_unseen[OF F(3) F(2)[OF assms(3)] assms(4,5), folded q']
  have s: "obq_count q' = obq_count q" "rd_slot q' = rd_slot q" "brdptr q' = brdptr q" "bsize q' = bsize q" "bn q' = bn q"
    by (simp_all add: q' obq_count_def)
  have i: "obq_inv q'"
    using assms(2) U(1) unfolding obq_inv_def s by (simp add: q' cong: option.case_cong)
  have front: "rd_slot q \<in> set (ring_slots (rd_slot q) (obq_count q) (bn q))" if "obq_count q \<noteq> 0"
    using that F(3) by (intro ring_slots_first) (simp_all add: geometry_def)
  have "tx_going k q' d" if "tx_going k q d" for k
    using that i s front U(3,4) by (intro tx_going_moved[OF that i]) simp_all
  moreover have "list_all (\<lambda>k. 0 < size_of q' k) (ring_slots (rd_slot q) (obq_count q) (bn q))"
    using assms(1) U(3) by (simp add: sdu_tx_def list_all_iff)
  ultimately show ?thesis using assms(1) unfolding q'[symmetric] sdu_tx_def s
    by (cases "usbGetTransmitStatusI d 1") simp_all
qed

text \<open>A buffer posted: sent at once if nothing is being sent.\<close>

lemma posted_started:
  assumes "bq.more q = Some d" and "sdu_up d" and "sdu_tx q d" and "geometry q (rd_slot q) (obq_count q)"
    and "unat (bcounter q) \<le> bn q" and "bcounter q \<noteq> 0" and "0 < n" and "n + 4 \<le> bsize q"
    and "r = (posted n q)\<lparr>bcounter := bcounter q - 1, buf_ptr := None\<rparr>"
  shows "\<exists>d'. bq.more (obnotify r) = Some d' \<and> sdu_up d' \<and> sdu_tx r d' \<and> tx_count d' = tx_count d \<and> tx_frame d d'"
proof -
  note P = obq_posted[OF assms(4-6,8,9)]
  have "0 < unat (bcounter q)" using assms(6) by (simp add: unat_gt_0)
  then have lt: "obq_count q < bn q" using assms(5) by (simp add: obq_count_def)
  note G = geometry_posted[OF assms(4) lt assms(8)]
  have s: "rd_slot r = rd_slot q" "brdptr r = brdptr q" "bsize r = bsize q" "bn r = bn q" "bq.more r = bq.more q"
    "size_of r = size_of (posted n q)" "chunk r = chunk (posted n q)"
    by (simp_all add: assms(9) posted_def rd_slot_def)
  have rn: "rd_slot q < bn q" using assms(4) by (simp add: geometry_def)
  have sizes: "list_all (\<lambda>k. 0 < size_of r k) (ring_slots (rd_slot r) (obq_count r) (bn r))"
    using assms(3,7) G(3,5) unfolding s P(4) ring_slots_snoc by (simp add: sdu_tx_def list_all_iff)
  have geo: "bsize r = 260" "bn r = 2" using assms(3) s by (simp_all add: sdu_tx_def)
  obtain e where e: "e = d\<lparr>obqueue := bq.truncate r\<rparr>" by blast
  have bk: "out_back r = Some e" using assms(1) s(5) by (simp add: out_back_def e)
  have up: "sdu_up e" "\<not> sdu_idle e" using assms(2) by (simp_all add: e, simp add: sdu_idle_def sdu_up_def)
  have st: "usbGetTransmitStatusI e 1 = usbGetTransmitStatusI d 1" by (simp add: e usbGetTransmitStatusI_def)
  have fr: "tx_frame d e" "tx_count e = tx_count d" by (simp_all add: e)
  show ?thesis
  proof (cases "usbGetTransmitStatusI d 1")
    case True
    have "tx_going (tx_count d) r d"
    proof (rule tx_going_moved[OF _ P(1) s(1,2)])
      show "tx_going (tx_count d) q d" using True assms(3) by (simp add: sdu_tx_def)
      show "obq_count r \<noteq> 0 \<and> chunk r (rd_slot q) = chunk q (rd_slot q) \<and> size_of r (rd_slot q) = size_of q (rd_slot q)"
        if "obq_count q \<noteq> 0"
        using G(3,4)[of "rd_slot q"] ring_slots_first[OF rn, of "obq_count q"] that by (simp add: s P(4))
    qed
    then have "sdu_tx r e" using True sizes geo by (simp add: e, simp add: sdu_tx_def)
    moreover have "bq.more (obnotify r) = Some e" using bk up True st by (simp add: obnotify_def)
    ultimately show ?thesis using up(1) fr by blast
  next
    case False
    then have c: "obq_count r \<noteq> 0" using P(4) by simp
    have ob: "obqueue e = bq.truncate r" by (simp add: e)
    obtain m d' where d': "obqGetFullBufferI r = Some (Some (m, brdptr r + sizeof_size_t))"
      "usbStartTransmitI 1 (Mem_Ob, brdptr r + sizeof_size_t) m e = Some d'" "sdu_up d'" "sdu_tx r d'"
      "tx_frame e d'" "tx_count d' = 0"
      using front_started[OF up(1) P(1) c ob geo sizes] by blast
    have "bq.more (obnotify r) = Some d'" using bk up False st d'(1,2) by (simp add: obnotify_def ob)
    moreover have "tx_count d = 0" using False by (simp add: tx_count_def)
    ultimately show ?thesis using d'(3-6) tx_frame_trans[OF assms(2) fr(1)] by auto
  qed
qed

definition out_link :: "usbd \<Rightarrow> usbd option bq_scheme \<Rightarrow> bool" where
  "out_link d0 q \<longleftrightarrow> sdu_up d0 \<and> (case bq.more q of None \<Rightarrow> False
     | Some d \<Rightarrow> sdu_up d \<and> sdu_tx q d \<and> tx_count d = tx_count d0 \<and> tx_frame d0 d)"

lemma link_more: "out_link d0 q \<longleftrightarrow> sdu_up d0 \<and> (\<exists>d. bq.more q = Some d \<and> sdu_up d \<and> sdu_tx q d \<and> tx_count d = tx_count d0 \<and> tx_frame d0 d)"
  by (simp add: out_link_def split: option.splits)

interpretation sdu_out: linked_output obnotify "out_link d0" for d0
proof
  fix q :: "usbd option bq_scheme" and p t
  show "\<exists>f. obnotify q = bq.more_update f q" by (auto simp: obnotify_def)
  show "out_link d0 (q\<lparr>buf_ptr := p\<rparr>) = out_link d0 q" "out_link d0 (q\<lparr>buf_top := t\<rparr>) = out_link d0 q"
    by (simp_all add: link_more)
next
  fix q :: "usbd option bq_scheme" and a and bs :: "u8 list"
  assume a: "out_link d0 q" "obq_inv q" "bcounter q \<noteq> 0" "bwrptr q \<le> a" "a + length bs \<le> bwrptr q + bsize q"
  then show "out_link d0 (q\<lparr>buffers := put_bytes a bs (buffers q)\<rparr>)"
    using sdu_tx_put[OF _ a(2-5)] by (auto simp: link_more)
next
  fix q :: "usbd option bq_scheme" and n
  assume a: "out_link d0 q" "geometry q (rd_slot q) (obq_count q)" "unat (bcounter q) \<le> bn q" "bcounter q \<noteq> 0"
    "0 < n" "n + 4 \<le> bsize q"
  obtain r where r: "r = (posted n q)\<lparr>bcounter := bcounter q - 1, buf_ptr := None\<rparr>" by blast
  obtain d where d: "bq.more q = Some d" "sdu_up d" "sdu_tx q d" "tx_count d = tx_count d0" "tx_frame d0 d" "sdu_up d0"
    using a(1) by (auto simp: link_more)
  obtain d' where d': "bq.more (obnotify r) = Some d'" "sdu_up d'" "sdu_tx r d'" "tx_count d' = tx_count d" "tx_frame d d'"
    using posted_started[OF d(1-3) a(2-6) r] by blast
  have "obnotify r = bq.more_update (\<lambda>_. bq.more (obnotify r)) r" by (cases r) (simp add: obnotify_def)
  then have "sdu_tx (obnotify r) d'" using d'(3) by (metis sdu_tx_current(3))
  then show "out_link d0 (obnotify ((posted n q)\<lparr>bcounter := bcounter q - 1, buf_ptr := None\<rparr>))"
    using d' d(4,6) tx_frame_trans[OF d(6,5) d'(5)] unfolding r[symmetric] link_more by auto
qed

subsection \<open>Writing to the port\<close>

lemma tx_count_le:
  assumes "sdu_tx q d" and "obq_inv q"
  shows "tx_count d \<le> length (obq_bytes q)"
proof (cases "obq_count q \<noteq> 0")
  case True
  obtain n :: u32 where "unat n \<le> length (obq_bytes q)" "unat n = size_of q (rd_slot q)"
    using obq_front[OF assms(2) True] by blast
  then show ?thesis using assms(1) by (auto simp: sdu_tx_def tx_going_def tx_count_def split: if_splits)
next
  case False
  then show ?thesis using assms(1) by (auto simp: sdu_tx_def tx_going_def tx_count_def split: if_splits)
qed

lemma sdu_writes:
  assumes "sdu_out d" and "bs \<noteq> []"
    and "t = TIME_INFINITE \<and> length bs \<le> obq_space (obqueue d) \<or> t = TIME_IMMEDIATE"
  shows "\<exists>k w' d'. sdu_writet bs t w d = Some (k, w', d') \<and> k = min (length bs) (obq_space (obqueue d)) \<and>
    sdu_out d' \<and> out_stream d' = out_stream d @ take k bs \<and> tx_frame d d'"
proof -
  note I = assms(1)[unfolded sdu_out_def]
  obtain v where v: "v = out_view d" by blast
  have vq: "obq_inv v" "obq_bytes v = obq_bytes (obqueue d)" "obq_space v = obq_space (obqueue d)" "bq.more v = Some d"
    using I by (simp_all add: v out_view_def)
  have "sdu_tx v d" using I by (simp add: v out_view_def)
  then have "out_link d v" using I vq(4) by (simp add: link_more)
  then obtain w' q' where q': "obqWriteTimeout obnotify bs t w v = Some (min (length bs) (obq_space (obqueue d)), w', q')"
    "obq_inv q'" "obq_bytes q' = obq_bytes (obqueue d) @ take (obq_space (obqueue d)) bs" "out_link d q'"
    using sdu_out.writes_stream[OF vq(1) assms(2), of t w d] assms(3) unfolding vq by blast
  obtain e where e: "bq.more q' = Some e" "sdu_up e" "sdu_tx q' e" "tx_count e = tx_count d" "tx_frame d e"
    using q'(4) by (auto simp: link_more)
  obtain d' where d': "d' = e\<lparr>obqueue := bq.truncate q'\<rparr>" by blast
  have "sdu_writet bs t w d = Some (min (length bs) (obq_space (obqueue d)), w', d')"
    using I q'(1) e(1) by (simp add: sdu_writet_def sdu_up_def out_back_def d' v)
  moreover have "sdu_out d'" using e q'(2) by (simp add: sdu_out_def d')
  moreover have "out_stream d' = out_stream d @ take (min (length bs) (obq_space (obqueue d))) bs"
    using q'(3) e(4) tx_count_le[of "obqueue d" d] I by (simp add: out_stream_def d' min_def)
  moreover have "tx_frame d d'" using e(5) by (simp add: d')
  ultimately show ?thesis by blast
qed

text \<open>The start of a frame: a partly filled buffer is sent when nothing else is.\<close>

lemma ob_self [simp]: "ob_at (obqueue d) d = d" "bq.truncate (q :: bq) = q"
  by (simp_all add: ob_at_def bq.truncate_def)

lemma sof_flushes:
  assumes "sdu_out d"
  shows "\<exists>d'. sduSOFHookI d = Some d' \<and> sdu_out d' \<and> out_stream d' = out_stream d \<and> tx_frame d d' \<and>
    (out_stream d \<noteq> [] \<longrightarrow> usbGetTransmitStatusI d' 1) \<and> (\<not> tx_closing d \<longrightarrow> \<not> tx_closing d')"
proof (cases "usbGetTransmitStatusI d 1")
  case True
  then show ?thesis using assms by (auto simp: sduSOFHookI_def)
next
  case False
  note I = assms[unfolded sdu_out_def]
  have c: "obq_count (obqueue d) = 0" "tx_count d = 0" using I False by (simp_all add: sdu_tx_def tx_count_def)
  have ni: "\<not> sdu_idle d" using I by (simp add: sdu_idle_def sdu_up_def)
  obtain b q' where q': "obqTryFlushI (obqueue d) = Some (b, q')" "obq_inv q'" "obq_bytes q' = obq_bytes (obqueue d)"
    "b \<longrightarrow> obq_count q' = 1 \<and> size_of q' (rd_slot q') \<noteq> 0 \<and> bsize q' = bsize (obqueue d) \<and> bn q' = bn (obqueue d)"
    "\<not> b \<longrightarrow> q' = obqueue d" "b \<longleftrightarrow> obq_count (obqueue d) = 0 \<and> obq_bytes (obqueue d) \<noteq> []"
    using obq_flush[of "obqueue d"] I by blast
  have os: "out_stream d = obq_bytes (obqueue d)" by (simp add: out_stream_def c)
  show ?thesis
  proof (cases b)
    case True
    obtain d1 where d1: "d1 = d\<lparr>obqueue := q'\<rparr>" by blast
    have geo: "obq_count q' \<noteq> 0" "bsize q' = 260" "bn q' = 2" "sdu_up d1" "obqueue d1 = bq.truncate q'"
      using q'(4) True I by (simp_all add: sdu_tx_def d1)
    have "rd_slot q' < bn q'" using obq_free(3)[OF q'(2)] by (simp add: geometry_def)
    then have sizes: "list_all (\<lambda>k. 0 < size_of q' k) (ring_slots (rd_slot q') (obq_count q') (bn q'))"
      using q'(4) True by (simp add: ring_slots_def)
    obtain n d' where d': "obqGetFullBufferI q' = Some (Some (n, brdptr q' + sizeof_size_t))"
      "usbStartTransmitI 1 (Mem_Ob, brdptr q' + sizeof_size_t) n d1 = Some d'" "sdu_up d'" "sdu_tx q' d'"
      "tx_frame d1 d'" "tx_count d' = 0" "obqueue d' = q'" "\<not> tx_closing d'"
      using front_started[OF geo(4) q'(2) geo(1,5,2,3) sizes] geo(5) by auto
    have "sduSOFHookI d = Some d'"
      using ni False q'(1) True d'(1,2) by (simp add: sduSOFHookI_def d1)
    moreover have "sdu_out d'" using d' q'(2) by (simp add: sdu_out_def)
    moreover have "out_stream d' = out_stream d" using d'(6,7) q'(3) os by (simp add: out_stream_def)
    moreover have "tx_frame d d'"
      using tx_frame_trans[of d d1 d'] I d'(5) by (simp add: d1)
    moreover have "usbGetTransmitStatusI d' 1" using d'(4) geo(1) by (auto simp: sdu_tx_def split: if_splits)
    ultimately show ?thesis using d'(8) by blast
  next
    case no: False
    then have "sduSOFHookI d = Some d" using ni False q'(1,5) by (simp add: sduSOFHookI_def)
    moreover have "out_stream d = []" using no q'(6) c os by simp
    ultimately show ?thesis using assms by simp
  qed
qed

subsection \<open>Packets to the host\<close>

lemma transmit_bit: "(w AND NOT 2) AND 2 = (0 :: u16)"
  by (rule bit_word_eqI) (simp add: bit_simps)

lemma in_served_status: "stat_tx (in_served r) = EPR_STAT_TX_NAK" "EPR_STAT_TX_NAK \<noteq> EPR_STAT_TX_VALID"
proof -
  have b: "bit EPR_DTOG_TX n \<longleftrightarrow> n \<in> {6}" "bit EPR_STAT_TX_NAK n \<longleftrightarrow> n \<in> {5}" for n
    unfolding epr_bits by (rule bit_u16; force simp: bit_numeral_rec bit_simps)+
  show "stat_tx (in_served r) = EPR_STAT_TX_NAK"
    unfolding in_served_def after_in_def stat_tx_def with_tx_def
    by (rule u16_bits_eqI, elim insertE emptyE; force simp: bit_simps b epr_masks)
  show "EPR_STAT_TX_NAK \<noteq> EPR_STAT_TX_VALID" by (simp add: epr_bits)
qed

text \<open>The next buffer after one is sent, or the end of the transmission.\<close>

lemma next_started:
  assumes "sdu_up d" and "\<not> usbGetTransmitStatusI d 1" and "obq_inv (obqueue d)" and "bsize (obqueue d) = 260"
    and "bn (obqueue d) = 2" and "stat_tx (epr d 1) = EPR_STAT_TX_NAK"
    and "list_all (\<lambda>k. 0 < size_of (obqueue d) k) (ring_slots (rd_slot (obqueue d)) (obq_count (obqueue d)) (bn (obqueue d)))"
    and "r = Option.bind (obqGetFullBufferI (obqueue d)) (\<lambda>b. case b of
        Some (n, p) \<Rightarrow> usbStartTransmitI 1 (Mem_Ob, p) n d
      | None \<Rightarrow> if z then usbStartTransmitI 1 (Mem_Setup, 0) 0 d else Some d)"
  shows "\<exists>d'. r = Some d' \<and> sdu_out d' \<and> out_stream d' = obq_bytes (obqueue d) \<and> tx_frame d d' \<and>
    (\<not> z \<longrightarrow> \<not> tx_closing d')"
proof (cases "obq_count (obqueue d) = 0")
  case False
  obtain n d' where d': "obqGetFullBufferI (obqueue d) = Some (Some (n, brdptr (obqueue d) + sizeof_size_t))"
    "usbStartTransmitI 1 (Mem_Ob, brdptr (obqueue d) + sizeof_size_t) n d = Some d'" "sdu_up d'" "sdu_tx (obqueue d) d'"
    "tx_frame d d'" "tx_count d' = 0" "obqueue d' = obqueue d" "\<not> tx_closing d'"
    using front_started[OF assms(1,3) False _ assms(4,5,7)] by auto
  then show ?thesis using assms(3) by (auto simp: assms(8) sdu_out_def out_stream_def)
next
  case True
  then have e: "obqGetFullBufferI (obqueue d) = Some None" using assms(3) by (simp add: obqGetFullBufferI_def obq_empty_iff)
  show ?thesis
  proof (cases z)
    case z: True
    have "fetch (Mem_Setup, 0) (length ([] :: u8 list) + length ([] :: u8 list) mod 2) d = Some []" by (simp add: fetch_def)
    from transmit_run[OF assms(1) this] obtain d' where d': "usbStartTransmitI 1 (Mem_Setup, 0) 0 d = Some d'"
      "sdu_up d'" "tx_frame d d'" "in_going 1 ep1config 64 (Mem_Setup, 0) [] 0 d'" "usbGetTransmitStatusI d' 1"
      "tx_count d' = 0" "obqueue d' = obqueue d" by auto
    have "ob_at (obqueue d) d' = d'" using d'(7) by (metis ob_self(1))
    then have "tx_going (tx_count d') (obqueue d) d'" using d'(4,6) by (simp add: tx_going_def)
    then have "sdu_out d'" using d' assms(3-5,7) by (simp add: sdu_out_def sdu_tx_def)
    then show ?thesis using d' e z by (simp add: assms(8) out_stream_def)
  next
    case z: False
    have "sdu_out d" using assms True in_served_status(2) by (simp add: sdu_out_def sdu_tx_def)
    then show ?thesis using assms(2) e z by (simp add: assms(8) out_stream_def tx_count_def tx_closing_def)
  qed
qed

lemma transmission_ended:
  assumes "sdu_up d" and "x = xfers d 2" and "e = in_upd 1 (x\<lparr>xcnt := xsize x\<rparr>) (in_served (epr d 1)) (pma d) d"
    and "Q = (if 0 < xsize x then obqReleaseEmptyBufferI (obqueue d) else obqueue d)"
    and "obq_inv Q" and "bsize Q = 260" and "bn Q = 2"
    and "list_all (\<lambda>k. 0 < size_of Q k) (ring_slots (rd_slot Q) (obq_count Q) (bn Q))"
  shows "\<exists>d'. usb_isr_invoke_in_cb run_cb 1 e = Some d' \<and> sdu_out d' \<and> out_stream d' = obq_bytes Q \<and> tx_frame d d' \<and>
    (xsize x = 0 \<longrightarrow> \<not> tx_closing d')"
proof -
  note U = assms(1)[unfolded sdu_up_def]
  obtain b where b: "b = (chnAddFlagsI CHN_OUTPUT_EMPTY (e\<lparr>transmitting := transmitting d AND NOT 2\<rparr>))\<lparr>obqueue := Q\<rparr>"
    by blast
  have f: "pma b = pma d" "epc b = epc d" "in_params b = in_params d" "out_params b = out_params d" "epr b 1 = in_served (epr d 1)"
    "drv_state b = drv_state d" "sdu_state b = sdu_state d" "obqueue b = Q" "transmitting b = transmitting d AND NOT 2"
    "receiving b = receiving d" "ibqueue b = ibqueue d" "xfers b 3 = xfers d 3" "setup_packet b = setup_packet d"
    "linecoding b = linecoding d" "stray b = stray d" "xfers b 2 = x\<lparr>xcnt := xsize x\<rparr>"
    "epr b (Suc 0) = in_served (epr d (Suc 0))"
    by (simp_all add: b assms(3) chnAddFlagsI_def in_upd_def)
  have up: "sdu_up b"
    using U by (intro tx_up[OF assms(1)]) (simp_all add: f ctr_flags in_served_fields)
  have fr: "tx_frame d b" by (simp add: tx_frame_def f in_served_fields)
  have off: "\<not> usbGetTransmitStatusI b 1"
    unfolding usbGetTransmitStatusI_def f ep_bit_1 transmit_bit by simp
  have nak: "stat_tx (epr b 1) = EPR_STAT_TX_NAK" by (simp only: f in_served_status)
  obtain z where z: "z \<longleftrightarrow> 0 < xsize x \<and> xsize x AND (ucast (in_maxsize ep1config) - 1) = 0" by blast
  have tb: "e\<lparr>transmitting := transmitting e AND NOT (ep_bit 1)\<rparr> = e\<lparr>transmitting := transmitting d AND NOT 2\<rparr>"
    by (simp add: assms(3) ep_bit_1[simplified])
  have ee: "epc e 1 = Some ep1config" "in_params e 0" "xfers e 2 = x\<lparr>xcnt := xsize x\<rparr>" "obqueue e = obqueue d"
    using U by (simp_all add: assms(3) in_upd_def)
  obtain e1 where e1: "e1 = chnAddFlagsI CHN_OUTPUT_EMPTY (e\<lparr>transmitting := transmitting d AND NOT 2\<rparr>)" by blast
  have b2: "0 < xsize x \<Longrightarrow> e1\<lparr>obqueue := obqReleaseEmptyBufferI (obqueue e1)\<rparr> = b" "\<not> 0 < xsize x \<Longrightarrow> e1 = b"
    using ee(4) by (simp_all add: e1 b assms(4) chnAddFlagsI_def)
  have icb: "in_cb ep1config = Some Data_Transmitted" "in_state 1 ep1config = Some 2"
    by (simp_all add: ep1config_def in_state_def)
  have "usb_isr_invoke_in_cb run_cb 1 e = sduDataTransmitted 1 (e\<lparr>transmitting := transmitting d AND NOT 2\<rparr>)"
    using ee(1) by (simp add: usb_isr_invoke_in_cb_def tb[simplified] icb run_cb_def)
  also have "\<dots> = Option.bind (obqGetFullBufferI (obqueue b)) (\<lambda>y. case y of
        Some (n, p) \<Rightarrow> usbStartTransmitI 1 (Mem_Ob, p) n b
      | None \<Rightarrow> if z then usbStartTransmitI 1 (Mem_Setup, 0) 0 b else Some b)"
    using ee icb b2 unfolding sduDataTransmitted_def Let_def e1[symmetric]
    by (cases "0 < xsize x") (simp_all add: z)
  finally have r: "usb_isr_invoke_in_cb run_cb 1 e = \<dots>" .
  show ?thesis
    using next_started[OF up off _ _ _ nak _ r] assms(5-8) tx_frame_trans[OF assms(1) fr] z unfolding f(8) by auto
qed

text \<open>One packet of a transfer of \<open>bs\<close>: more to come, or the end.\<close>

lemma packet_more:
  assumes "sdu_up d" and "in_going 1 ep1config 64 p bs k d" and "k + 64 < length bs" and "usbGetTransmitStatusI d 1"
  shows "\<exists>d'. usb_serve_endpoints run_cb 1 (d\<lparr>epr := (epr d)(1 := after_in (epr d 1))\<rparr>) = Some d' \<and> sdu_up d' \<and>
    in_going 1 ep1config 64 p bs (k + 64) d' \<and> usbGetTransmitStatusI d' 1 \<and> obqueue d' = obqueue d \<and> tx_frame d d'"
proof -
  note U = assms(1)[unfolded sdu_up_def]
  obtain y m where m: "usb_serve_endpoints run_cb 1 (d\<lparr>epr := (epr d)(1 := after_in (epr d 1))\<rparr>) =
      Some (in_upd 1 y (with_tx EPR_STAT_TX_VALID (in_served (epr d 1))) m d)"
    "in_going 1 ep1config 64 p bs (k + 64) (in_upd 1 y (with_tx EPR_STAT_TX_VALID (in_served (epr d 1))) m d)"
    "tx_same 1 64 (pma d) m"
    using in_more[OF assms(2,3) refl, of run_cb] by blast
  obtain d' where d': "d' = in_upd 1 y (with_tx EPR_STAT_TX_VALID (in_served (epr d 1))) m d" by blast
  have f: "pma d' = m" "epr d' 1 = with_tx EPR_STAT_TX_VALID (in_served (epr d 1))"
    "drv_state d' = drv_state d" "sdu_state d' = sdu_state d" "epc d' = epc d" "in_params d' = in_params d"
    "out_params d' = out_params d" "receiving d' = receiving d" "ibqueue d' = ibqueue d" "xfers d' 3 = xfers d 3"
    "setup_packet d' = setup_packet d" "linecoding d' = linecoding d" "stray d' = stray d" "obqueue d' = obqueue d"
    "transmitting d' = transmitting d"
    by (simp_all add: d' in_upd_def)
  have "epr d' 1 AND EPR_CTR_MASK = 0" unfolding f(2) using U by (simp add: ctr_flags in_served_fields)
  then have "sdu_up d'" using m(3) by (intro tx_up[OF assms(1)]) (simp_all only: f)
  moreover have "stat_rx (epr d' 1) = stat_rx (epr d 1)" unfolding f(2) by (simp add: in_served_fields)
  then have "tx_frame d d'" using m(3) by (simp add: tx_frame_def f del: One_nat_def)
  moreover have "usbGetTransmitStatusI d' 1" using assms(4) by (simp add: usbGetTransmitStatusI_def f)
  ultimately show ?thesis using m(1,2) f(14) unfolding d'[symmetric] by blast
qed

lemma packet_taken:
  assumes "sdu_out d" and "usbGetTransmitStatusI d 1"
  shows "\<exists>bs d1 d2. host_in 1 d = Some (bs, d1) \<and> usb_serve_endpoints run_cb 1 d1 = Some d2 \<and> sdu_out d2 \<and>
    out_stream d = bs @ out_stream d2 \<and> length bs \<le> 64 \<and> tx_frame d d2 \<and>
    (bs = [] \<longrightarrow> tx_closing d \<and> \<not> tx_closing d2)"
proof -
  have up: "sdu_up d" and i: "obq_inv (obqueue d)" and tx: "sdu_tx (obqueue d) d" using assms(1) by (simp_all add: sdu_out_def)
  obtain q where q: "q = obqueue d" by blast
  obtain x where x: "x = xfers d 2" by blast
  have T: "bsize q = 260" "bn q = 2" "list_all (\<lambda>k. 0 < size_of q k) (ring_slots (rd_slot q) (obq_count q) 2)"
    using tx unfolding sdu_tx_def q by auto
  have going: "tx_going (tx_count d) q d" using tx assms(2) by (simp add: sdu_tx_def q)
  obtain k where k: "k = tx_count d" by blast
  obtain e where e: "e = in_upd 1 (x\<lparr>xcnt := xsize x\<rparr>) (in_served (epr d 1)) (pma d) d" by blast
  show ?thesis
  proof (cases "obq_count q \<noteq> 0 \<and> k < size_of q (rd_slot q) \<and>
      in_going 1 ep1config 64 (Mem_Ob, brdptr q + sizeof_size_t) (chunk q (rd_slot q)) k (ob_at q d)")
    case True
    obtain bs where bs: "bs = chunk q (rd_slot q)" by blast
    have g: "in_going 1 ep1config 64 (Mem_Ob, brdptr q + sizeof_size_t) bs k d" using True by (simp add: q bs)
    note host = host_in_going[OF g]
    obtain n :: u32 where n: "unat n \<le> length (obq_bytes q)" "unat n = size_of q (rd_slot q)" "bs = take (unat n) (obq_bytes q)"
      "obq_inv (obqReleaseEmptyBufferI q)" "obq_bytes (obqReleaseEmptyBufferI q) = drop (unat n) (obq_bytes q)"
      "obq_count (obqReleaseEmptyBufferI q) = obq_count q - 1"
      "rd_slot (obqReleaseEmptyBufferI q) = Suc (rd_slot q) mod bn q"
      using obq_front[OF i[folded q]] True unfolding bs by blast
    have lb: "length bs = unat n" "k < length bs" using n(1-3) True by simp_all
    have split: "out_stream d = take 64 (drop k bs) @ drop (k + 64) bs @ drop (length bs) (obq_bytes q)"
    proof -
      have ob: "obq_bytes q = bs @ drop (length bs) (obq_bytes q)" using n(3) lb(1) by simp
      have "out_stream d = drop k (bs @ drop (length bs) (obq_bytes q))" using ob by (simp add: out_stream_def k q)
      also have "\<dots> = drop k bs @ drop (length bs) (obq_bytes q)" using lb(2) by simp
      also have "drop k bs = take 64 (drop k bs) @ drop (k + 64) bs" by (metis append_take_drop_id drop_drop add.commute)
      finally show ?thesis by simp
    qed
    show ?thesis
    proof (cases "k + 64 < length bs")
      case more: True
      obtain d' where d': "usb_serve_endpoints run_cb 1 (d\<lparr>epr := (epr d)(1 := after_in (epr d 1))\<rparr>) = Some d'" "sdu_up d'"
        "in_going 1 ep1config 64 (Mem_Ob, brdptr q + sizeof_size_t) bs (k + 64) d'" "usbGetTransmitStatusI d' 1"
        "obqueue d' = obqueue d" "tx_frame d d'"
        using packet_more[OF up g more assms(2)] by blast
      have cnt: "tx_count d' = k + 64" using d'(4) going_count[OF d'(3)] by (simp add: tx_count_def)
      have "ob_at q d' = d'" unfolding q d'(5)[symmetric] by simp
      then have "tx_going (tx_count d') q d'" using d'(3) True lb more n(2) by (simp add: tx_going_def cnt bs)
      then have "sdu_tx (obqueue d') d'" using T d'(4) by (simp add: sdu_tx_def d'(5) q)
      then have "sdu_out d'" using d'(2,5) i by (simp add: sdu_out_def)
      moreover have "out_stream d' = drop (k + 64) bs @ drop (length bs) (obq_bytes q)"
      proof -
        have "obq_bytes q = bs @ drop (length bs) (obq_bytes q)" using n(3) lb(1) by simp
        then have "drop (k + 64) (obq_bytes q) = drop (k + 64) (bs @ drop (length bs) (obq_bytes q))" by simp
        then show ?thesis using more by (simp add: out_stream_def cnt d'(5) q)
      qed
      moreover have "take 64 (drop k bs) \<noteq> []" using lb(2) by simp
      ultimately show ?thesis using host d'(1,6) split by auto
    next
      case False
      have last: "usb_serve_endpoints run_cb 1 (d\<lparr>epr := (epr d)(1 := after_in (epr d 1))\<rparr>) = usb_isr_invoke_in_cb run_cb 1 e"
        using in_last[OF g _ x[folded endpoint_1(2)], of run_cb] False by (simp add: e del: One_nat_def)
      have "unat (xsize x) = length bs" using g by (simp add: in_going_def Let_def x)
      then have pos: "0 < xsize x" using lb(2) by (metis gr_zeroI less_nat_zero_code unat_gt_0 unat_0 word_gt_0)
      have Q: "obqReleaseEmptyBufferI q = (if 0 < xsize x then obqReleaseEmptyBufferI (obqueue d) else obqueue d)"
        using pos by (simp add: q)
      have "bsize (obqReleaseEmptyBufferI q) = 260" "bn (obqReleaseEmptyBufferI q) = 2"
        "size_of (obqReleaseEmptyBufferI q) = size_of q"
        using T by (simp_all add: obqReleaseEmptyBufferI_def size_of_def fun_eq_iff)
      moreover have "list_all (\<lambda>k. 0 < size_of q k)
          (ring_slots (rd_slot (obqReleaseEmptyBufferI q)) (obq_count (obqReleaseEmptyBufferI q)) 2)"
      proof -
        obtain c where c: "obq_count q = Suc c" using True not0_implies_Suc by blast
        have "rd_slot q < bn q" using obq_free(3)[OF i] by (simp add: geometry_def q)
        then show ?thesis using T n(6,7) by (simp add: c ring_slots_Cons)
      qed
      ultimately obtain d' where d': "usb_isr_invoke_in_cb run_cb 1 e = Some d'" "sdu_out d'"
        "out_stream d' = obq_bytes (obqReleaseEmptyBufferI q)" "tx_frame d d'"
        using transmission_ended[OF up x e Q n(4)] by auto
      have "out_stream d = take 64 (drop k bs) @ out_stream d'" using split False d'(3) n(5) lb(1) by simp
      moreover have "take 64 (drop k bs) \<noteq> []" using lb(2) by simp
      ultimately show ?thesis using host last d' by auto
    qed
  next
    case False
    then have z: "k = 0" "in_going 1 ep1config 64 (Mem_Setup, 0) [] 0 d" using going by (auto simp: tx_going_def k q)
    note host = host_in_going[OF z(2)]
    have last: "usb_serve_endpoints run_cb 1 (d\<lparr>epr := (epr d)(1 := after_in (epr d 1))\<rparr>) = usb_isr_invoke_in_cb run_cb 1 e"
      using in_last[OF z(2) _ x[folded endpoint_1(2)], of run_cb] by (simp add: e del: One_nat_def)
    have "unat (xsize x) = 0" using z(2) by (simp add: in_going_def Let_def x)
    then have x0: "xsize x = 0" by (simp add: unat_eq_zero)
    then have Q: "q = (if 0 < xsize x then obqReleaseEmptyBufferI (obqueue d) else obqueue d)" by (simp add: q)
    obtain d' where d': "usb_isr_invoke_in_cb run_cb 1 e = Some d'" "sdu_out d'" "out_stream d' = obq_bytes q" "tx_frame d d'"
      "\<not> tx_closing d'"
      using transmission_ended[OF up x e Q] i T x0 by (auto simp: q)
    have "out_stream d = out_stream d'" using d'(3) z(1) by (simp add: out_stream_def k q)
    moreover have "tx_closing d" using assms(2) x0 by (simp add: tx_closing_def x)
    ultimately show ?thesis using host last d' by auto
  qed
qed

end
