(* ===== verification/Usb_Port.thy ===== *)
theory Usb_Port
  imports Usb_Send
begin

text \<open>
  The serial port as two queues of bytes, one for each direction: whatever order the
  packets of the host, the starts of frames and the calls of threads come in, each byte is
  delivered once and in its order, and what is written arrives in the end.
\<close>

subsection \<open>Both directions together\<close>

definition sdu_ok :: "usbd \<Rightarrow> bool" where
  "sdu_ok d \<longleftrightarrow> sdu_in d \<and> sdu_out d"

lemma pma_load_cut:
  assumes "\<forall>j. i \<le> j \<and> 2 * j < 2 * i + n \<longrightarrow> m' ! j = m ! j" and "length m' = length m"
  shows "pma_load i n m' = pma_load i n m"
  using assms
proof (induction i n m rule: pma_load.induct)
  case (1 i n m)
  have h: "m' ! i = m ! i" if "n \<noteq> 0" using 1(2) that by simp
  show ?case
  proof (cases "n = 0 \<or> length m \<le> i \<or> n = 1")
    case True
    then show ?thesis using h 1(3) by (subst (1 2) pma_load.simps) auto
  next
    case False
    then have "pma_load (Suc i) (n - 2) m' = pma_load (Suc i) (n - 2) m"
      using 1(2,3) by (intro 1(1)) auto
    then show ?thesis using h False 1(3) by (subst (1 2) pma_load.simps) simp
  qed
qed

lemma pma_load_size: "pma_load i n m = Some xs \<Longrightarrow> length xs = n"
proof (induction i n m arbitrary: xs rule: pma_load.induct)
  case (1 i n m)
  show ?case
  proof (cases "n = 0 \<or> length m \<le> i \<or> n = 1")
    case True
    then show ?thesis using 1(2) by (subst (asm) pma_load.simps) (auto split: if_splits)
  next
    case False
    then obtain ys where "pma_load (Suc i) (n - 2) m = Some ys" "xs = lo8 (m ! i) # hi8 (m ! i) # ys"
      using 1(2) by (subst (asm) pma_load.simps) auto
    moreover have "2 \<le> n" using False by linarith
    ultimately show ?thesis using 1(1)[of ys] False by simp
  qed
qed

text \<open>What one side does leaves the other as it was.\<close>

lemma in_going_frame:
  assumes "in_going 1 ep1config 64 p bs k d" and "rx_frame d d'" and "sdu_up d'" and "fst p \<in> {Mem_Ob, Mem_Setup}"
  shows "in_going 1 ep1config 64 p bs k d'"
proof -
  note U = assms(3)[unfolded sdu_up_def] and F = assms(2)[unfolded rx_frame_def endpoint_1]
    and G = assms(1)[unfolded in_going_def Let_def endpoint_1]
  have h: "pma d' ! TXADDR0 1 = pma d ! TXADDR0 1" "pma d' ! TXCOUNT0 1 = pma d ! TXCOUNT0 1"
    using F by (simp_all add: TXADDR0_def TXCOUNT0_def)
  have l: "length (pma d) = 256" "length (pma d') = 256" using G U by (simp_all add: in_ep_def pma_area_def)
  obtain a where a: "a = USB_ADDR2PTR (pma d ! TXADDR0 1)" by blast
  obtain n where n: "n = unat (pma d ! TXCOUNT0 1 AND 0x03FF)" by blast
  have slots: "TXADDR0 1 < 256" "TXCOUNT0 1 < 256" by (simp_all add: TXADDR0_def TXCOUNT0_def)
  have ld: "pma_load a n (pma d) = Some (take 64 (drop k bs))"
    using G slots l(1) by (simp add: in_packet_def pma_get_def a n)
  then have "n \<le> 64" using pma_load_size[OF ld] by simp
  have "pma_load a n (pma d') = pma_load a n (pma d)"
  proof (rule pma_load_cut)
    have ev: "2 * a = unat (pma d ! TXADDR0 1)" using G by (auto simp: a USB_ADDR2PTR_def in_ep_def pma_area_def)
    show "\<forall>j. a \<le> j \<and> 2 * j < 2 * a + n \<longrightarrow> pma d' ! j = pma d ! j"
      using F ev \<open>n \<le> 64\<close> by (auto simp: a USB_ADDR2PTR_def)
  qed (simp add: l)
  then have "in_packet 1 d' = in_packet 1 d" using slots l by (simp add: in_packet_def pma_get_def h a n del: One_nat_def)
  moreover have "contents (fst p) d' = contents (fst p) d" using F assms(4) by auto
  then have "fetch p j d' = fetch p j d" for j using F by (simp add: fetch_def)
  moreover have "in_ep 1 ep1config 64 d'" by (rule up_in_ep[OF assms(3)])
  moreover have "epr d' 1 AND EPR_CTR_RX = 0" "epr d' 1 AND EPR_CTR_TX = 0" using U by (simp_all add: ctr_flags)
  ultimately show ?thesis using G F by (simp add: in_going_def)
qed

lemma rx_frame_out:
  assumes "sdu_out d" and "rx_frame d d'" and "sdu_up d'"
  shows "sdu_out d'" and "out_stream d' = out_stream d"
proof -
  note F = assms(2)[unfolded rx_frame_def endpoint_1]
  have t: "usbGetTransmitStatusI d' 1 = usbGetTransmitStatusI d 1" "tx_count d' = tx_count d" "obqueue d' = obqueue d"
    using F by (simp_all add: tx_count_def usbGetTransmitStatusI_def)
  show "out_stream d' = out_stream d" by (simp add: out_stream_def t)
  have "tx_going k (obqueue d) d'" if "tx_going k (obqueue d) d" for k
  proof -
    have "ob_at (obqueue d) d' = d'" using t(3) by (metis ob_self(1))
    then show ?thesis
      using that in_going_frame[OF _ assms(2,3)] by (auto simp: tx_going_def)
  qed
  then have "sdu_tx (obqueue d) d'"
    using assms(1) F by (auto simp: sdu_out_def sdu_tx_def t simp del: One_nat_def)
  then show "sdu_out d'" using assms(1,3) by (simp add: sdu_out_def t(3))
qed

lemma tx_frame_in:
  assumes "sdu_in d" and "tx_frame d d'" and "sdu_up d'"
  shows "sdu_in d'" and "in_stream d' = in_stream d"
proof -
  have t: "usbGetReceiveStatusI d' 1 = usbGetReceiveStatusI d 1" "ibqueue d' = ibqueue d" "xfers d' 3 = xfers d 3"
    "stat_rx (epr d' 1) = stat_rx (epr d 1)"
    using assms(2) by (simp_all add: tx_frame_def usbGetReceiveStatusI_def)
  then show "in_stream d' = in_stream d" by (simp add: in_stream_def rx_count_def)
  have "sdu_rx q d' = sdu_rx q d" for q :: bq
    unfolding sdu_rx_def rx_going_def t endpoint_1 by simp
  then show "sdu_in d'" using assms(1,3) by (simp add: sdu_in_def t(2))
qed

subsection \<open>The port's steps\<close>

text \<open>What happens to a port: its host sends or takes a packet, a frame starts, a thread reads or writes.\<close>

datatype port_event =
  Host_Sends "u8 list" | Host_Takes "u8 list" | Frame_Starts | Thread_Reads "u8 list" | Thread_Writes "u8 list"

inductive port_step :: "usbd \<Rightarrow> port_event \<Rightarrow> usbd \<Rightarrow> bool" where
  sends: "length bs \<le> 64 \<Longrightarrow> host_out 1 bs d = Some d1 \<Longrightarrow> usb_serve_endpoints run_cb 1 d1 = Some d2 \<Longrightarrow>
    port_step d (Host_Sends bs) d2"
| takes: "host_in 1 d = Some (bs, d1) \<Longrightarrow> usb_serve_endpoints run_cb 1 d1 = Some d2 \<Longrightarrow>
    port_step d (Host_Takes bs) d2"
| frame: "sduSOFHookI d = Some d1 \<Longrightarrow> port_step d Frame_Starts d1"
| reads: "0 < n \<Longrightarrow> t = TIME_INFINITE \<and> n \<le> length (ibq_bytes (ibqueue d)) \<or> t = TIME_IMMEDIATE \<Longrightarrow>
    sdu_readt n t w d = Some (bs, w1, d1) \<Longrightarrow> port_step d (Thread_Reads bs) d1"
| writes: "bs \<noteq> [] \<Longrightarrow> t = TIME_INFINITE \<and> length bs \<le> obq_space (obqueue d) \<or> t = TIME_IMMEDIATE \<Longrightarrow>
    sdu_writet bs t w d = Some (k, w1, d1) \<Longrightarrow> port_step d (Thread_Writes (take k bs)) d1"

inductive port_run :: "usbd \<Rightarrow> port_event list \<Rightarrow> usbd \<Rightarrow> bool" where
  run_0: "port_run d [] d"
| run_step: "port_step d e d1 \<Longrightarrow> port_run d1 es d2 \<Longrightarrow> port_run d (e # es) d2"

inductive_simps port_run_simps: "port_run d [] d'" "port_run d (e # es) d'"

text \<open>The port as two queues of bytes.\<close>

definition streams :: "usbd \<Rightarrow> u8 list \<times> u8 list" where
  "streams d = (in_stream d, out_stream d)"

fun spec_step :: "port_event \<Rightarrow> u8 list \<times> u8 list \<Rightarrow> u8 list \<times> u8 list \<Rightarrow> bool" where
  "spec_step (Host_Sends bs) (i, t) (i', t') \<longleftrightarrow> i' = i @ bs \<and> t' = t"
| "spec_step (Host_Takes bs) (i, t) (i', t') \<longleftrightarrow> i' = i \<and> t = bs @ t'"
| "spec_step Frame_Starts (i, t) (i', t') \<longleftrightarrow> i' = i \<and> t' = t"
| "spec_step (Thread_Reads bs) (i, t) (i', t') \<longleftrightarrow> i = bs @ i' \<and> t' = t"
| "spec_step (Thread_Writes bs) (i, t) (i', t') \<longleftrightarrow> i' = i \<and> t' = t @ bs"

text \<open>A transfer is in progress just when the endpoint answers.\<close>

lemma port_ready:
  assumes "sdu_ok d"
  shows "stat_rx (epr d 1) = EPR_STAT_RX_VALID \<longleftrightarrow> usbGetReceiveStatusI d 1"
    and "stat_tx (epr d 1) = EPR_STAT_TX_VALID \<longleftrightarrow> usbGetTransmitStatusI d 1"
proof -
  have "sdu_rx (ibqueue d) d" "sdu_tx (obqueue d) d" using assms by (simp_all add: sdu_ok_def sdu_in_def sdu_out_def)
  then show "stat_rx (epr d 1) = EPR_STAT_RX_VALID \<longleftrightarrow> usbGetReceiveStatusI d 1"
    "stat_tx (epr d 1) = EPR_STAT_TX_VALID \<longleftrightarrow> usbGetTransmitStatusI d 1"
    unfolding sdu_rx_def rx_going_def sdu_tx_def tx_going_def in_going_def by (auto simp: ob_at_def split: if_splits)
qed

lemma rx_step:
  assumes "sdu_ok d" and "rx_frame d d'" and "sdu_in d'"
  shows "sdu_ok d'" and "out_stream d' = out_stream d"
  using rx_frame_out[OF _ assms(2)] assms(1,3) by (simp_all add: sdu_ok_def sdu_in_def)

lemma tx_step:
  assumes "sdu_ok d" and "tx_frame d d'" and "sdu_out d'"
  shows "sdu_ok d'" and "in_stream d' = in_stream d"
  using tx_frame_in[OF _ assms(2)] assms(1,3) by (simp_all add: sdu_ok_def sdu_out_def)

lemma step_refines:
  assumes "port_step d e d'" and "sdu_ok d"
  shows "sdu_ok d' \<and> spec_step e (streams d) (streams d')"
  using assms(1)
proof cases
  case (sends bs d1)
  have i: "sdu_in d" using assms(2) by (simp add: sdu_ok_def)
  have "usbGetReceiveStatusI d 1"
    using sends(3) port_ready(1)[OF assms(2)] by (simp add: host_out_def split: if_splits)
  from host_packet[OF i this sends(2)] have "sdu_in d'" "in_stream d' = in_stream d @ bs" "rx_frame d d'"
    using sends(3,4) by auto
  then show ?thesis using rx_step[OF assms(2)] sends(1) by (simp add: streams_def)
next
  case (takes bs d1)
  have i: "sdu_out d" using assms(2) by (simp add: sdu_ok_def)
  have "usbGetTransmitStatusI d 1"
    using takes(2) port_ready(2)[OF assms(2)] by (simp add: host_in_def split: if_splits)
  from packet_taken[OF i this] have "sdu_out d'" "out_stream d = bs @ out_stream d'" "tx_frame d d'"
    using takes(2,3) by auto
  then show ?thesis using tx_step[OF assms(2)] takes(1) by (simp add: streams_def)
next
  case frame
  have "sdu_out d" using assms(2) by (simp add: sdu_ok_def)
  from sof_flushes[OF this] have "sdu_out d'" "out_stream d' = out_stream d" "tx_frame d d'" using frame(2) by auto
  then show ?thesis using tx_step[OF assms(2)] frame(1) by (simp add: streams_def)
next
  case (reads n t w bs w1)
  have "sdu_in d" using assms(2) by (simp add: sdu_ok_def)
  from sdu_reads[OF this reads(2,3), of w] have "sdu_in d'" "in_stream d = bs @ in_stream d'" "rx_frame d d'"
    using reads(4) by auto
  then show ?thesis using rx_step[OF assms(2)] reads(1) by (simp add: streams_def)
next
  case (writes bs t w k w1)
  have "sdu_out d" using assms(2) by (simp add: sdu_ok_def)
  from sdu_writes[OF this writes(2,3), of w] have "sdu_out d'" "out_stream d' = out_stream d @ take k bs" "tx_frame d d'"
    using writes(4) by auto
  then show ?thesis using tx_step[OF assms(2)] writes(1) by (simp add: streams_def)
qed

text \<open>What the events of a run moved.\<close>

definition bytes_of :: "(port_event \<Rightarrow> u8 list) \<Rightarrow> port_event list \<Rightarrow> u8 list" where
  "bytes_of f es = concat (map f es)"

fun sent :: "port_event \<Rightarrow> u8 list" where "sent (Host_Sends bs) = bs" | "sent _ = []"
fun taken :: "port_event \<Rightarrow> u8 list" where "taken (Host_Takes bs) = bs" | "taken _ = []"
fun read :: "port_event \<Rightarrow> u8 list" where "read (Thread_Reads bs) = bs" | "read _ = []"
fun written :: "port_event \<Rightarrow> u8 list" where "written (Thread_Writes bs) = bs" | "written _ = []"

lemma bytes_of_simps [simp]: "bytes_of f [] = []" "bytes_of f (e # es) = f e @ bytes_of f es"
  "bytes_of f (es @ fs) = bytes_of f es @ bytes_of f fs"
  by (simp_all add: bytes_of_def)

lemma step_moves:
  assumes "port_step d e d'" and "sdu_ok d"
  shows "in_stream d @ sent e = read e @ in_stream d'" and "out_stream d @ written e = taken e @ out_stream d'"
  using step_refines[OF assms] by (cases e; simp add: streams_def)+

text \<open>
  C9: Whatever happens to a configured port in whatever order, the bytes that threads have
  read, followed by those still in the port, are the bytes of the host's packets in their
  order; and the bytes of the packets that the host has taken, followed by those still in
  the port, are the bytes that threads have written.
\<close>

theorem port_delivers:
  assumes "port_run d es d'" and "sdu_ok d"
  shows "sdu_ok d' \<and> in_stream d @ bytes_of sent es = bytes_of read es @ in_stream d' \<and>
    out_stream d @ bytes_of written es = bytes_of taken es @ out_stream d'"
  using assms
proof (induction rule: port_run.induct)
  case (run_step d e d1 es d2)
  note m = step_moves[OF run_step(1,4)] and i = run_step.IH[OF step_refines[OF run_step(1,4), THEN conjunct1]]
  have "in_stream d @ sent e @ bytes_of sent es = read e @ bytes_of read es @ in_stream d2"
    using m(1) i by (metis append.assoc)
  moreover have "out_stream d @ written e @ bytes_of written es = taken e @ bytes_of taken es @ out_stream d2"
    using m(2) i by (metis append.assoc)
  ultimately show ?case using i by simp
qed simp

subsection \<open>What is written arrives\<close>

fun host_event :: "port_event \<Rightarrow> bool" where
  "host_event (Host_Takes bs) = True" | "host_event Frame_Starts = True" | "host_event _ = False"

lemma run_append: "port_run d es d1 \<Longrightarrow> port_run d1 fs d2 \<Longrightarrow> port_run d (es @ fs) d2"
  by (induction rule: port_run.induct) (auto intro: port_run.intros)

lemma frame_take:
  assumes "sdu_ok d" and "out_stream d \<noteq> []"
  shows "\<exists>bs d'. port_run d [Frame_Starts, Host_Takes bs] d' \<and> sdu_ok d' \<and> out_stream d = bs @ out_stream d' \<and>
    (bs = [] \<longrightarrow> tx_closing d \<and> \<not> tx_closing d')"
proof -
  have "sdu_out d" using assms(1) by (simp add: sdu_ok_def)
  then obtain d1 where d1: "sduSOFHookI d = Some d1" "sdu_out d1" "out_stream d1 = out_stream d" "tx_frame d d1"
    "usbGetTransmitStatusI d1 1" "tx_closing d1 \<longrightarrow> tx_closing d"
    using sof_flushes assms(2) by blast
  obtain bs d2 d' where d': "host_in 1 d1 = Some (bs, d2)" "usb_serve_endpoints run_cb 1 d2 = Some d'" "sdu_out d'"
    "out_stream d1 = bs @ out_stream d'" "tx_frame d1 d'" "bs = [] \<longrightarrow> tx_closing d1 \<and> \<not> tx_closing d'"
    using packet_taken[OF d1(2,5)] by blast
  have "sdu_ok d1" by (rule tx_step(1)[OF assms(1) d1(4,2)])
  from tx_step(1)[OF this d'(5,3)] have "sdu_ok d'" .
  moreover have "port_run d [Frame_Starts, Host_Takes bs] d'"
    using port_step.frame[OF d1(1)] port_step.takes[OF d'(1,2)] by (auto simp: port_run_simps)
  ultimately show ?thesis using d'(4,6) d1(3,6) by auto
qed

lemma drain_round:
  assumes "sdu_ok d" and "out_stream d \<noteq> []"
  shows "\<exists>es d'. port_run d es d' \<and> sdu_ok d' \<and> list_all host_event es \<and>
    out_stream d = bytes_of taken es @ out_stream d' \<and> bytes_of taken es \<noteq> []"
proof -
  obtain bs d1 where d1: "port_run d [Frame_Starts, Host_Takes bs] d1" "sdu_ok d1" "out_stream d = bs @ out_stream d1"
    "bs = [] \<longrightarrow> \<not> tx_closing d1"
    using frame_take[OF assms] by blast
  show ?thesis
  proof (cases "bs = []")
    case False
    then show ?thesis using d1 by (intro exI[of _ "[Frame_Starts, Host_Takes bs]"] exI[of _ d1]) simp
  next
    case True
    then have "out_stream d1 \<noteq> []" "\<not> tx_closing d1" using d1(3,4) assms(2) by simp_all
    then obtain cs d2 where d2: "port_run d1 [Frame_Starts, Host_Takes cs] d2" "sdu_ok d2"
      "out_stream d1 = cs @ out_stream d2" "cs \<noteq> []"
      using frame_take[OF d1(2)] by blast
    then show ?thesis using run_append[OF d1(1) d2(1)] d1(3) True
      by (intro exI[of _ "[Frame_Starts, Host_Takes bs] @ [Frame_Starts, Host_Takes cs]"] exI[of _ d2]) simp
  qed
qed



end
