(* ===== verification/Usb_Start.thy ===== *)
theory Usb_Start
  imports Usb_Answers
begin

text \<open>
  The start of the driver: the control endpoint is ready for the host's first request, the
  queues of the serial driver are built, and nothing is configured.
\<close>

text \<open>The driver's memory when the firmware starts, and its part of the start.\<close>

definition usbd_boot :: usbd where
  "usbd_boot = \<lparr>drv_state = USB_UNINIT, transmitting = 0, receiving = 0, epc = \<lambda>_. None,
     in_params = \<lambda>_. False, out_params = \<lambda>_. False, ep0state = USB_EP0_WAITING_SETUP, ep0next = (Mem_Null, 0),
     ep0n = 0, ep0endcb = False, setup_packet = replicate 8 0, status = 0, address = 0, configuration = 0,
     pmnext = 0, xfers = \<lambda>_. zero_xfer, epr = \<lambda>_. 0, pma = replicate 256 0, usb_clock = False,
     usb_vectors = False, fnr = 0, cntr = 3, istr = 0, daddr = 0, linecoding = linecoding_start, stray = 0,
     sdu_state = SDU_UNINIT, sdu_flags = 0,
     ibqueue = \<lparr>bcounter = 0, bwrptr = 0, brdptr = 0, btop = 0, bsize = 0, bn = 0, buf_ptr = None, buf_top = 0,
       buffers = replicate 520 0\<rparr>,
     obqueue = \<lparr>bcounter = 0, bwrptr = 0, brdptr = 0, btop = 0, bsize = 0, bn = 0, buf_ptr = None, buf_top = 0,
       buffers = replicate 520 0\<rparr>\<rparr>"

definition usb_startup :: "usbd \<Rightarrow> usbd option" where
  "usb_startup d = usbStart usbcfg (sduStart (sduObjectInit (usbObjectInit d)))"

lemma epr_next_flags:
  assumes "r AND EPR_CTR_MASK = 0"
  shows "epr_next r v AND EPR_CTR_MASK = 0"
proof -
  have "\<not> bit r n" if "n \<in> {7, 15}" for n
  proof
    assume "bit r n"
    then have "bit (r AND EPR_CTR_MASK) n" using that by (auto simp: bit_simps epr_masks)
    then show False by (simp add: assms)
  qed
  then have "\<not> bit r 7" "\<not> bit r 15" by simp_all
  then show ?thesis
    by (intro u16_bits_eqI, elim insertE emptyE) (simp_all add: epr_next_def bit_simps epr_masks)
qed

lemma reset_ready:
  assumes "length (pma d) = 256" and "epr d 0 AND EPR_CTR_MASK = 0"
  shows "\<exists>d'. usb_reset usbcfg d = Some d' \<and> ep0_ok d' \<and> drv_state d' = USB_READY \<and>
    ep0state d' = USB_EP0_WAITING_SETUP \<and> pmnext d' = 192 \<and> transmitting d' = 0 \<and> receiving d' = 0 \<and>
    (\<forall>i\<in>{1..7}. epc d' i = None) \<and> linecoding d' = linecoding d \<and> sdu_state d' = sdu_state d \<and>
    ibqueue d' = ibqueue d \<and> obqueue d' = obqueue d \<and> in_params d' = in_params d \<and> out_params d' = out_params d \<and>
    epr d' 1 = epr d 1"
proof -
  define b where "b = (usb_pm_reset ((clear_endpoints 0 (d\<lparr>drv_state := USB_READY, status := 0, address := 0,
      configuration := 0, transmitting := 0, receiving := 0\<rparr>))\<lparr>ep0state := USB_EP0_WAITING_SETUP, istr := 0,
      daddr := 0x80, cntr := 0x9E00\<rparr>))"
  define b1 where "b1 = b\<lparr>epc := (epc b)(0 := Some ep0config)\<rparr>"
  define m where "m = (pma d)[TXCOUNT0 0 := 0, TXADDR0 0 := 64, RXCOUNT0 0 := rx_blocks 0x40, RXADDR0 0 := 128]"
  define e where "e = EPR_EP_TYPE_CONTROL OR EPR_STAT_TX_NAK OR EPR_STAT_RX_NAK"
  define r1 where "r1 = epr_next (epr d 0) ((e AND NOT EPR_TOGGLE_MASK) OR EPR_CTR_MASK)"
  define r where "r = epr_next r1 ((r1 XOR (e AND EPR_TOGGLE_MASK)) OR EPR_CTR_MASK)"
  have b: "pma b1 = pma d" "epr b1 = epr d" "pmnext b1 = 64" "epc b1 0 = Some ep0config"
    by (simp_all add: b1_def b_def usb_pm_reset_def clear_endpoints_def)
  have "usb_lld_init_endpoint 0 b1 = Some (b1\<lparr>pma := m, pmnext := 192, epr := (epr b1)(0 := r)\<rparr>)"
  proof -
    have "pma d \<noteq> []" using assms(1) by auto
    have "init_in 0 ep0config b1 = Some (b1\<lparr>pma := (pma d)[TXCOUNT0 0 := 0, TXADDR0 0 := 64], pmnext := 128\<rparr>)"
      using assms(1) b \<open>pma d \<noteq> []\<close> by (simp add: init_in_def ep0config_def pma_put_def usb_pm_alloc_def TXCOUNT0_def TXADDR0_def)
    moreover have "init_out 0 ep0config (b1\<lparr>pma := (pma d)[TXCOUNT0 0 := 0, TXADDR0 0 := 64], pmnext := 128\<rparr>) =
        Some (b1\<lparr>pma := m, pmnext := 192\<rparr>)"
      using assms(1) by (simp add: init_out_def ep0config_def pma_put_def usb_pm_alloc_def m_def RXCOUNT0_def RXADDR0_def)
    moreover have "ep_type (ep_mode ep0config) OR (if has_in_state ep0config then EPR_STAT_TX_NAK else 0)
        OR (if has_out_state ep0config then EPR_STAT_RX_NAK else 0) = e"
      by (simp add: ep0config_def ep_type_def e_def)
    ultimately show ?thesis
      using b by (simp add: usb_lld_init_endpoint_def EPR_TOGGLE_def EPR_SET_def epr_store_def r_def r1_def Let_def)
  qed
  moreover have "usb_reset usbcfg d = usb_lld_init_endpoint 0 b1"
  proof -
    have "usb_isr_invoke_event_cb usbcfg USB_EVENT_RESET = Some"
      by (simp add: fun_eq_iff usb_isr_invoke_event_cb_def usbcfg_def vcom_event_def)
    moreover have "sof_cb usbcfg \<noteq> None" by (simp add: usbcfg_def)
    ultimately show ?thesis by (simp add: usb_reset_def usb_lld_reset_def b1_def b_def Let_def)
  qed
  moreover have "r AND EPR_CTR_MASK = 0" unfolding r_def r1_def by (intro epr_next_flags assms(2))
  then have "ep0_ok (b1\<lparr>pma := m, pmnext := 192, epr := (epr b1)(0 := r)\<rparr>)"
    using assms(1) b by (simp add: ep0_ok_def pma_area_def m_def TXADDR0_def RXADDR0_def TXCOUNT0_def RXCOUNT0_def)
  ultimately show ?thesis
    by (simp add: b1_def b_def usb_pm_reset_def clear_endpoints_def USB_MAX_ENDPOINTS_def)
qed

text \<open>A start makes the device ready for the host's first request.\<close>

lemma startup_ready:
  assumes "length (pma d) = 256" and "epr d 0 AND EPR_CTR_MASK = 0"
  shows "\<exists>d'. usb_startup d = Some d' \<and> ep0_ok d' \<and> drv_state d' = USB_READY \<and> pmnext d' = 192 \<and>
    ep0state d' = USB_EP0_WAITING_SETUP \<and> (\<forall>i\<in>{1..7}. epc d' i = None) \<and> linecoding d' = linecoding d \<and>
    sdu_state d' = SDU_READY \<and> transmitting d' = 0 \<and> receiving d' = 0 \<and> in_params d' 0 \<and> out_params d' 0 \<and>
    epr d' 1 = epr d 1 \<and> ibqueue d' = ibqObjectInit SERIAL_USB_BUFFERS_SIZE SERIAL_USB_BUFFERS_NUMBER (ibqueue d) \<and>
    obqueue d' = obqObjectInit SERIAL_USB_BUFFERS_SIZE SERIAL_USB_BUFFERS_NUMBER (obqueue d)"
proof -
  define b where "b = (clear_endpoints 0 (sduStart (sduObjectInit (usbObjectInit d))))\<lparr>usb_clock := True,
    usb_vectors := True, cntr := 0\<rparr>"
  have b: "pma b = pma d" "epr b = epr d" "linecoding b = linecoding d" "sdu_state b = SDU_READY"
    "in_params b 0" "out_params b 0"
    "ibqueue b = ibqObjectInit SERIAL_USB_BUFFERS_SIZE SERIAL_USB_BUFFERS_NUMBER (ibqueue d)"
    "obqueue b = obqObjectInit SERIAL_USB_BUFFERS_SIZE SERIAL_USB_BUFFERS_NUMBER (obqueue d)"
    by (simp_all add: b_def clear_endpoints_def sduStart_def set_params_def sduObjectInit_def usbObjectInit_def Let_def
        serusbcfg_def USBD1_DATA_REQUEST_EP_def USBD1_DATA_AVAILABLE_EP_def USBD1_INTERRUPT_REQUEST_EP_def)
  have "drv_state (clear_endpoints 0 (sduStart (sduObjectInit (usbObjectInit d)))) = USB_STOP"
    by (simp add: clear_endpoints_def sduStart_def set_params_def sduObjectInit_def usbObjectInit_def Let_def)
  then have "usb_startup d = map_option (drv_state_update (\<lambda>_. USB_READY)) (usb_reset usbcfg b)"
    by (simp add: usb_startup_def usbStart_def usb_lld_start_def b_def)
  moreover obtain d' where d': "usb_reset usbcfg b = Some d'" "ep0_ok d'" "drv_state d' = USB_READY"
    "ep0state d' = USB_EP0_WAITING_SETUP" "pmnext d' = 192" "transmitting d' = 0" "receiving d' = 0"
    "\<forall>i\<in>{1..7}. epc d' i = None" "linecoding d' = linecoding d" "sdu_state d' = SDU_READY"
    "in_params d' = in_params b" "out_params d' = out_params b" "epr d' 1 = epr d 1" "ibqueue d' = ibqueue b"
    "obqueue d' = obqueue b"
    using reset_ready[of b] assms unfolding b(1-4) by metis
  moreover have "ep0_ok (d'\<lparr>drv_state := USB_READY\<rparr>)"
    using d'(2) by (rule ep0_ok_cong[THEN iffD1, rotated 3]) simp_all
  ultimately show ?thesis using b(5-8) by simp
qed

text \<open>A started driver, for the examples.\<close>

definition usbd_started :: usbd where "usbd_started = the (usb_startup usbd_boot)"

lemma usbd_started: "ep0_ok usbd_started" "length (linecoding usbd_started) = 7" "drv_state usbd_started = USB_READY"
  "epc usbd_started 1 = None" "sdu_state usbd_started = SDU_READY" "transmitting usbd_started = 0"
  "pmnext usbd_started = 192" "in_params usbd_started 0" "out_params usbd_started 0" "epr usbd_started 1 = 0"
  "ibqueue usbd_started = ibqObjectInit 256 2 (ibqueue usbd_boot)" "obqueue usbd_started = obqObjectInit 256 2 (obqueue usbd_boot)"
proof -
  have "length (pma usbd_boot) = 256" "epr usbd_boot 0 AND EPR_CTR_MASK = 0" by (simp_all add: usbd_boot_def)
  from startup_ready[OF this] show "ep0_ok usbd_started" "length (linecoding usbd_started) = 7"
    "drv_state usbd_started = USB_READY" "epc usbd_started 1 = None" "sdu_state usbd_started = SDU_READY"
    "transmitting usbd_started = 0" "pmnext usbd_started = 192" "in_params usbd_started 0" "out_params usbd_started 0"
    "epr usbd_started 1 = 0" "ibqueue usbd_started = ibqObjectInit 256 2 (ibqueue usbd_boot)"
    "obqueue usbd_started = obqObjectInit 256 2 (obqueue usbd_boot)"
    by (auto simp: usbd_started_def usbd_boot_def linecoding_start_def SERIAL_USB_BUFFERS_SIZE_def
        SERIAL_USB_BUFFERS_NUMBER_def)
qed

end
