(* ===== verification/Usb_Configured.thy ===== *)
theory Usb_Configured
  imports Usb_Port Usb_Start
begin

text \<open>
  The configuration of the device by the host: it sets up the data endpoint with its areas
  of the packet memory, empties the port and starts the first reception. With the start of
  the driver this gives the states in which the theorems on the port and on the control
  endpoint apply.
\<close>

subsection \<open>The data endpoint\<close>

text \<open>What the initialisation of an endpoint leaves as it was.\<close>

definition ep_frame :: "usbd \<Rightarrow> usbd \<Rightarrow> bool" where
  "ep_frame d d' \<longleftrightarrow> drv_state d' = drv_state d \<and> sdu_state d' = sdu_state d \<and> in_params d' = in_params d \<and>
     out_params d' = out_params d \<and> transmitting d' = transmitting d \<and> receiving d' = receiving d \<and>
     ibqueue d' = ibqueue d \<and> obqueue d' = obqueue d \<and> configuration d' = configuration d"

lemma data_endpoint:
  assumes "length (pma d) = 256" and "pmnext d = of_nat k" and "k < 512" and "epr d 1 AND EPR_CTR_MASK = 0"
  shows "\<exists>d'. usbInitEndpointI 1 ep1config d = Some d' \<and> ep_frame d d' \<and> length (pma d') = 256 \<and>
    pma d' ! TXADDR0 1 = of_nat k \<and> pma d' ! RXADDR0 1 = of_nat (k + 64) \<and> epc d' = (epc d)(1 := Some ep1config) \<and>
    epr d' 1 AND EPR_CTR_MASK = 0 \<and> stat_tx (epr d' 1) = EPR_STAT_TX_NAK"
proof -
  define b where "b = clear_xfer (Some 3) (clear_xfer (Some 2) (d\<lparr>epc := (epc d)(1 := Some ep1config)\<rparr>))"
  define m where "m = (pma d)[TXCOUNT0 1 := 0, TXADDR0 1 := of_nat k, RXCOUNT0 1 := rx_blocks 0x40, RXADDR0 1 := of_nat (k + 64)]"
  define e where "e = EPR_EP_TYPE_BULK OR EPR_STAT_TX_NAK OR EPR_STAT_RX_NAK"
  define r1 where "r1 = epr_next (epr d 1) (((e OR 1) AND NOT EPR_TOGGLE_MASK) OR EPR_CTR_MASK)"
  define r where "r = epr_next r1 ((r1 XOR (e AND EPR_TOGGLE_MASK)) OR EPR_CTR_MASK)"
  have ne: "pma d \<noteq> []" using assms(1) by auto
  have b: "pma b = pma d" "epr b = epr d" "pmnext b = of_nat k" "epc b 1 = Some ep1config" "epc b = (epc d)(1 := Some ep1config)"
    by (simp_all add: b_def clear_xfer_def set_xfer_def assms(2))
  have kk: "ucast (of_nat k :: u32) = (of_nat k :: u16)" "ucast (of_nat k + 64 :: u32) = (of_nat (k + 64) :: u16)"
  proof -
    have "ucast (of_nat n :: u32) = (of_nat n :: u16)" for n
      by (simp add: word_unat_eq_iff unsigned_ucast_eq unat_of_nat take_bit_eq_mod mod_mod_cancel)
    from this[of k] this[of "k + 64"] show "ucast (of_nat k :: u32) = (of_nat k :: u16)"
      "ucast (of_nat k + 64 :: u32) = (of_nat (k + 64) :: u16)" by simp_all
  qed
  have "init_in 1 ep1config b = Some (b\<lparr>pma := (pma d)[TXCOUNT0 1 := 0, TXADDR0 1 := of_nat k], pmnext := of_nat k + 64\<rparr>)"
    using assms(1) ne b kk by (simp add: init_in_def ep1config_def pma_put_def usb_pm_alloc_def TXCOUNT0_def TXADDR0_def)
  moreover have "init_out 1 ep1config (b\<lparr>pma := (pma d)[TXCOUNT0 1 := 0, TXADDR0 1 := of_nat k], pmnext := of_nat k + 64\<rparr>) =
      Some (b\<lparr>pma := m, pmnext := of_nat k + 128\<rparr>)"
    using assms(1) ne kk by (simp add: init_out_def ep1config_def pma_put_def usb_pm_alloc_def m_def RXCOUNT0_def RXADDR0_def)
  moreover have "ep_type (ep_mode ep1config) OR (if has_in_state ep1config then EPR_STAT_TX_NAK else 0)
        OR (if has_out_state ep1config then EPR_STAT_RX_NAK else 0) = e"
    by (simp add: ep1config_def ep_type_def e_def)
  ultimately have "usb_lld_init_endpoint 1 b = Some (b\<lparr>pma := m, pmnext := of_nat k + 128, epr := (epr b)(1 := r)\<rparr>)"
    using b by (simp add: usb_lld_init_endpoint_def EPR_TOGGLE_def EPR_SET_def epr_store_def r_def r1_def Let_def)
  moreover have "in_state 1 ep1config = Some 2" "out_state 1 ep1config = Some 3"
    by (simp_all add: in_state_def out_state_def ep1config_def)
  ultimately have run: "usbInitEndpointI 1 ep1config d = Some (b\<lparr>pma := m, pmnext := of_nat k + 128, epr := (epr b)(1 := r)\<rparr>)"
    by (simp add: usbInitEndpointI_def b_def)
  have flags: "r AND EPR_CTR_MASK = 0" unfolding r_def r1_def by (intro epr_next_flags assms(4))
  have st: "stat_tx r = EPR_STAT_TX_NAK"
  proof -
    have v: "bit e n \<longleftrightarrow> n \<in> {5, 13}" "bit EPR_STAT_TX_NAK n \<longleftrightarrow> n \<in> {5}" for n
      unfolding e_def epr_bits by (rule bit_u16; force simp: bit_numeral_rec bit_simps)+
    show ?thesis
      unfolding r_def stat_tx_def
      by (rule u16_bits_eqI, elim insertE emptyE; simp add: epr_next_def bit_simps epr_masks v)
  qed
  have slots: "m ! TXADDR0 1 = of_nat k" "m ! RXADDR0 1 = of_nat (k + 64)" "length m = 256"
    using assms(1) ne by (simp_all add: m_def TXADDR0_def TXCOUNT0_def RXADDR0_def RXCOUNT0_def)
  have fr: "ep_frame d (b\<lparr>pma := m, pmnext := of_nat k + 128, epr := (epr b)(1 := r)\<rparr>)"
    by (simp add: ep_frame_def b_def clear_xfer_def set_xfer_def)
  show ?thesis using run fr slots b(5) flags st by (intro exI[of _ "b\<lparr>pma := m, pmnext := of_nat k + 128, epr := (epr b)(1 := r)\<rparr>"]) simp
qed

lemma interrupt_endpoint:
  assumes "length (pma d) = 256"
  shows "\<exists>d'. usbInitEndpointI 2 ep2config d = Some d' \<and> ep_frame d d' \<and> length (pma d') = 256 \<and>
    (\<forall>j < 8. pma d' ! j = pma d ! j) \<and> epc d' = (epc d)(2 := Some ep2config) \<and> epr d' 1 = epr d 1"
proof -
  define b where "b = clear_xfer (out_state 2 ep2config) (clear_xfer (in_state 2 ep2config) (d\<lparr>epc := (epc d)(2 := Some ep2config)\<rparr>))"
  have b: "pma b = pma d" "epr b = epr d" "epc b = (epc d)(2 := Some ep2config)" "ep_frame d b"
    by (simp_all add: b_def clear_xfer_def set_xfer_def ep_frame_def split: option.splits)
  obtain m k r where m: "usb_lld_init_endpoint 2 b = Some (b\<lparr>pma := m, pmnext := k, epr := (epr b)(2 := r)\<rparr>)"
    "length m = 256" "\<forall>j. j < 4 * 2 \<or> 4 * 2 + 4 \<le> j \<longrightarrow> m ! j = pma b ! j"
    using init_endpoint[of b 2 ep2config] assms b(1,3) by auto
  have "ep_frame d (b\<lparr>pma := m, pmnext := k, epr := (epr b)(2 := r)\<rparr>)" using b(4) by (simp add: ep_frame_def)
  then show ?thesis
    using m b by (intro exI[of _ "b\<lparr>pma := m, pmnext := k, epr := (epr b)(2 := r)\<rparr>"])
      (simp add: usbInitEndpointI_def b_def[symmetric])
qed

subsection \<open>The configured port\<close>

text \<open>The memory of the queues as the start builds it.\<close>

definition queue_built :: "bq \<Rightarrow> bool" where
  "queue_built q \<longleftrightarrow> bsize q = 260 \<and> bn q = 2 \<and> btop q = 520 \<and> length (buffers q) = 520"

lemma built_reset:
  assumes "queue_built q"
  shows "ibq_inv (ibqResetI q)" "ibq_bytes (ibqResetI q) = []" "\<not> ibqIsFullI (ibqResetI q)"
    "bsize (ibqResetI q) = 260" "bn (ibqResetI q) = 2"
    and "obq_inv (obqResetI q)" "obq_bytes (obqResetI q) = []" "obq_count (obqResetI q) = 0"
    "bsize (obqResetI q) = 260" "bn (obqResetI q) = 2" "obq_space (obqResetI q) = 512"
  using assms by (simp_all add: queue_built_def ibq_inv_def ibq_bytes_def geometry_def ibqResetI_def rd_slot_def
      filled_def ibqIsFullI_def obq_inv_def obq_count_def obqResetI_def obq_bytes_def obq_pending_def bqSizeX_def
      obq_space_def)

definition port_startable :: "nat \<Rightarrow> usbd \<Rightarrow> bool" where
  "port_startable k d \<longleftrightarrow> length (pma d) = 256 \<and> pmnext d = of_nat k \<and> 64 \<le> k \<and> even k \<and> k + 128 \<le> 512 \<and>
     epr d 1 AND EPR_CTR_MASK = 0 \<and> transmitting d = 0 \<and> sdu_state d = SDU_READY \<and> in_params d 0 \<and> out_params d 0 \<and>
     queue_built (ibqueue d) \<and> queue_built (obqueue d)"

lemma port_opened:
  assumes "port_startable k d" and "drv_state d = USB_ACTIVE"
  shows "\<exists>d'. vcom_event USB_EVENT_CONFIGURED d = Some d' \<and> sdu_ok d' \<and> streams d' = ([], []) \<and>
    usbGetReceiveStatusI d' 1 \<and> obq_space (obqueue d') = 512 \<and> configuration d' = configuration d"
proof -
  note S = assms(1)[unfolded port_startable_def]
  obtain d1 where d1: "usbInitEndpointI 1 ep1config d = Some d1" "ep_frame d d1" "length (pma d1) = 256"
    "pma d1 ! TXADDR0 1 = of_nat k" "pma d1 ! RXADDR0 1 = of_nat (k + 64)" "epc d1 = (epc d)(1 := Some ep1config)"
    "epr d1 1 AND EPR_CTR_MASK = 0" "stat_tx (epr d1 1) = EPR_STAT_TX_NAK"
    using data_endpoint[of d k] S by auto
  obtain d2 where d2: "usbInitEndpointI 2 ep2config d1 = Some d2" "ep_frame d1 d2" "length (pma d2) = 256"
    "\<forall>j < 8. pma d2 ! j = pma d1 ! j" "epc d2 = (epc d1)(2 := Some ep2config)" "epr d2 1 = epr d1 1"
    using interrupt_endpoint[OF d1(3)] by blast
  define d3 where "d3 = chnAddFlagsI CHN_CONNECTED (d2\<lparr>ibqueue := ibqResetI (ibqueue d2), obqueue := obqResetI (obqueue d2)\<rparr>)"
  have fr: "drv_state d3 = USB_ACTIVE" "sdu_state d3 = SDU_READY" "in_params d3 0" "out_params d3 0" "transmitting d3 = 0"
    "ibqueue d3 = ibqResetI (ibqueue d)" "obqueue d3 = obqResetI (obqueue d)" "pma d3 = pma d2" "epc d3 1 = Some ep1config"
    "epr d3 1 AND EPR_CTR_MASK = 0" "stat_tx (epr d3 1) = EPR_STAT_TX_NAK"
    using d1 d2 S assms(2) by (simp_all add: d3_def chnAddFlagsI_def ep_frame_def)
  have ad: "unat (pma d3 ! TXADDR0 1) = k" "unat (pma d3 ! RXADDR0 1) = k + 64"
    using d1(4,5) d2(4) S fr(8) by (simp_all add: TXADDR0_def RXADDR0_def unat_of_nat take_bit_nat_eq_self_iff del: of_nat_add)
  have up: "sdu_up d3"
    using fr ad d2(3) S by (simp add: sdu_up_def pma_area_def) (simp add: TXADDR0_def RXADDR0_def)
  note I = built_reset(1-5)[of "ibqueue d"] and O = built_reset(6-11)[of "obqueue d"]
  have q: "queue_built (ibqueue d)" "queue_built (obqueue d)" using S by simp_all
  have p: "bwrptr (ibqResetI (ibqueue d)) = 0" by (simp add: ibqResetI_def)
  obtain d' where d': "d' = receive_start (bwrptr (ibqueue d3) + sizeof_size_t) d3" by blast
  have "ibqGetEmptyBufferI (ibqueue d3) = Some (bwrptr (ibqueue d3) + sizeof_size_t)"
    using I(3)[OF q(1)] by (simp add: ibqGetEmptyBufferI_def fr(6))
  then have hook: "sduConfigureHookI d2 = Some d'"
    using receive_start[OF fr(9)] by (simp add: sduConfigureHookI_def d3_def[symmetric] Let_def d')
  have ev: "vcom_event USB_EVENT_CONFIGURED d = Some d'"
    using d1(1) d2(1) hook by (simp add: vcom_event_def USBD1_DATA_REQUEST_EP_def USBD1_INTERRUPT_REQUEST_EP_def)
  note R = receive_started[OF up I(3)[OF q(1), folded fr(6)] I(4)[OF q(1), folded fr(6)] I(5)[OF q(1), folded fr(6)], folded d']
  have qs: "ibqueue d' = ibqueue d3" "obqueue d' = obqueue d3" by (simp_all add: d' receive_start_def)
  have "sdu_in d'" using R(1,2) I(1)[OF q(1)] by (simp add: sdu_in_def qs fr(6))
  moreover have "sdu_out d3"
    using up O[OF q(2)] fr in_served_status(2) by (simp add: sdu_out_def sdu_tx_def usbGetTransmitStatusI_def)
  then have out: "sdu_out d'" "out_stream d' = out_stream d3" by (rule rx_frame_out[OF _ R(4,1)])+
  moreover have "out_stream d3 = []" using O(2)[OF q(2)] by (simp add: out_stream_def fr(7))
  moreover have "in_stream d' = []" using R(3) I(2)[OF q(1)] by (simp add: in_stream_def qs fr(6))
  moreover have "usbGetReceiveStatusI d' 1"
    using R(2) I(3)[OF q(1)] by (auto simp: sdu_rx_def fr(6) split: if_splits)
  moreover have "configuration d' = configuration d" "obq_space (obqueue d') = 512"
    using d1(2) d2(2) O(6)[OF q(2)] by (simp_all add: d' receive_start_def d3_def chnAddFlagsI_def ep_frame_def)
  ultimately show ?thesis using ev by (simp add: sdu_ok_def streams_def)
qed

lemma no_data_ok:
  assumes "sdu_ok d"
  shows "sdu_ok (no_data b d)" and "streams (no_data b d) = streams d"
proof -
  obtain d' where d': "d' = no_data b d" by blast
  have f: "drv_state d' = drv_state d" "sdu_state d' = sdu_state d" "epc d' = epc d" "in_params d' = in_params d"
    "out_params d' = out_params d" "epr d' = epr d" "pma d' = pma d" "ibqueue d' = ibqueue d" "obqueue d' = obqueue d"
    "xfers d' = xfers d" "receiving d' = receiving d" "transmitting d' = transmitting d"
    "setup_packet d' = setup_packet d" "linecoding d' = linecoding d" "stray d' = stray d"
    by (simp_all add: d' no_data_def usbSetupTransfer_def)
  have i: "sdu_in d' = sdu_in d" "in_stream d' = in_stream d"
    by (simp_all add: sdu_in_def sdu_up_def sdu_rx_def rx_going_def in_stream_def rx_count_def
        usbGetReceiveStatusI_def pma_area_def f)
  have "rx_frame d d'" by (simp add: rx_frame_def f)
  from rx_step[OF assms this] show "sdu_ok (no_data b d)" "streams (no_data b d) = streams d"
    using i assms by (simp_all add: d' streams_def sdu_ok_def)
qed

text \<open>
  C26: The host's choice of a configuration opens the port: the data endpoint has its two
  areas of the packet memory, apart from each other, both queues are empty, and the first
  reception is under way.
\<close>

theorem port_configured:
  assumes "port_startable k d" and "setup_packet d ! 2 \<noteq> 0"
  shows "\<exists>d'. device_request usbcfg 9 d = Some (True, d') \<and> configuration d' = setup_packet d ! 2 \<and>
    sdu_ok d' \<and> streams d' = ([], []) \<and> usbGetReceiveStatusI d' 1"
proof -
  define b where "b = d\<lparr>configuration := setup_packet d ! 2, drv_state := USB_ACTIVE\<rparr>"
  have "port_startable k b" "drv_state b = USB_ACTIVE" using assms(1) by (simp_all add: b_def port_startable_def)
  from port_opened[OF this] obtain d' where d': "vcom_event USB_EVENT_CONFIGURED b = Some d'" "sdu_ok d'"
    "streams d' = ([], [])" "usbGetReceiveStatusI d' 1" "configuration d' = setup_packet d ! 2" by (auto simp: b_def)
  have "device_request usbcfg 9 d = Some (True, no_data False d')"
    using d'(1) assms(2) by (simp add: device_request_def usb_isr_invoke_event_cb_def usbcfg_def Let_def b_def)
  moreover have "usbGetReceiveStatusI (no_data False d') 1" "configuration (no_data False d') = setup_packet d ! 2"
    using d'(4,5) by (simp_all add: no_data_def usbSetupTransfer_def usbGetReceiveStatusI_def)
  ultimately show ?thesis using no_data_ok[OF d'(2), of False] d'(3) by simp
qed

subsection \<open>Examples\<close>

lemma started_startable: "port_startable 192 usbd_started"
proof -
  have "length (pma usbd_started) = 256" using usbd_started(1) by (simp add: ep0_ok_def pma_area_def)
  moreover have "queue_built (ibqueue usbd_started)" "queue_built (obqueue usbd_started)"
    unfolding usbd_started(11,12)
    by (simp_all add: queue_built_def ibqObjectInit_def obqObjectInit_def sizeof_size_t_def usbd_boot_def)
  ultimately show ?thesis using usbd_started by (simp add: port_startable_def)
qed

lemma open_port:
  "\<exists>d. sdu_ok d \<and> in_stream d = [] \<and> out_stream d = [] \<and> usbGetReceiveStatusI d 1 \<and> obq_space (obqueue d) = 512"
proof -
  have "port_startable 192 (usbd_started\<lparr>drv_state := USB_ACTIVE\<rparr>)"
    using started_startable by (simp add: port_startable_def)
  from port_opened[OF this] show ?thesis by (auto simp: streams_def)
qed

lemma port_configured_witness:
  "\<exists>d'. device_request usbcfg 9 (usbd_started\<lparr>setup_packet := [0, 9, 1, 0, 0, 0, 0, 0]\<rparr>) = Some (True, d') \<and> sdu_ok d'"
proof -
  have "port_startable 192 (usbd_started\<lparr>setup_packet := [0, 9, 1, 0, 0, 0, 0, 0]\<rparr>)"
    using started_startable by (simp add: port_startable_def)
  from port_configured[OF this] show ?thesis by auto
qed

text \<open>A port that has got a packet, and one to which a byte has been written.\<close>

lemma port_delivers_witness:
  "\<exists>d d'. port_run d [Host_Sends [1, 2, 3]] d' \<and> in_stream d' = [1, 2, 3] \<and> out_stream d' = []"
proof -
  obtain d where d: "sdu_ok d" "in_stream d = []" "out_stream d = []" "usbGetReceiveStatusI d 1" using open_port by blast
  obtain d1 d2 where d2: "host_out 1 [1, 2, 3] d = Some d1" "usb_serve_endpoints run_cb 1 d1 = Some d2"
    using host_packet[OF _ d(4), of "[1, 2, 3]"] d(1) by (auto simp: sdu_ok_def)
  have run: "port_run d [Host_Sends [1, 2, 3]] d2"
    using port_step.sends[OF _ d2] by (simp add: port_run_simps)
  have "in_stream d2 = [1, 2, 3]" "out_stream d2 = []"
    using port_delivers[OF run d(1)] d(2,3) by (simp_all add: bytes_of_def)
  then show ?thesis using run by blast
qed



lemma in_transfer_witness:
  "\<exists>d0 e. usbStartTransmitI 0 (Mem_Const [1, 2, 3], 0) 3 usbd_started = Some d0 \<and>
    host_reads run_cb 0 1 d0 = map_option (Pair [[1, 2, 3]]) e"
proof -
  note O = usbd_started(1)
  have "fetch (Mem_Const [1, 2, 3], 0) (length [1, 2, 3 :: u8] + length [1, 2, 3 :: u8] mod 2) usbd_started =
      Some [1, 2, 3, stray usbd_started]" by (simp add: fetch_def)
  from in_transfer[OF ep0_in_ep[OF O] this, of 3 run_cb] O show ?thesis
    by (auto simp: ep0_ok_def chunks.simps)
qed

lemma set_address_late_witness:
  "\<exists>d1 d2 d3. host_setup [0, 5, 12, 0, 0, 0, 0, 0] usbd_started = Some d1 \<and>
    usb_serve_endpoints run_cb 0 d1 = Some d2 \<and> host_reads run_cb 0 1 d2 = Some ([[]], d3) \<and>
    daddr d3 = 0x8C"
  using set_address_late[OF usbd_started(1), of "[0, 5, 12, 0, 0, 0, 0, 0]"] by auto

lemma descriptor_read_witness:
  "\<exists>d1 d2 d3. host_setup [0x80, 6, 0, 1, 0, 0, 18, 0] usbd_started = Some d1 \<and>
    usb_serve_endpoints run_cb 0 d1 = Some d2 \<and>
    host_reads run_cb 0 1 d2 = Some ([vcom_device_descriptor_data], d3)"
proof -
  have "get_descriptor 1 0 0 = Some vcom_device_descriptor_data"
    by (simp add: get_descriptor_def USB_DESCRIPTOR_DEVICE_def)
  moreover have "length vcom_device_descriptor_data = 18" by (simp add: vcom_device_descriptor_data_def desc_defs)
  ultimately show ?thesis
    using descriptor_read[OF usbd_started(1), of "[0x80, 6, 0, 1, 0, 0, 18, 0]" vcom_device_descriptor_data]
    by (auto simp: get_hword_def chunks.simps)
qed


end
