(* ===== verification/Usb_Faults.thy ===== *)
theory Usb_Faults
  imports Usb_Configured
begin

text \<open>
  What goes wrong in the driver: the halt of an endpoint to the device is cleared in the
  wrong field, the data of a request are not limited to its buffer, requests are decoded
  without their direction, a wake-up makes a device active that was never configured, and a
  suspension empties the queues under a transfer in progress.
\<close>

subsection \<open>Clearing a halt\<close>

text \<open>
  A host that clears the halt of an endpoint to the device does not get it back: the
  operation writes the wrong status field, so that the endpoint takes packets at once,
  where it should refuse until a transfer is started, and its other direction is disabled.
\<close>

theorem clear_halt_out:
  assumes "stat_rx (epr d ep) = EPR_STAT_RX_STALL"
  shows "stat_rx (epr (usb_lld_clear_out ep d) ep) = EPR_STAT_RX_VALID \<and>
    stat_tx (epr (usb_lld_clear_out ep d) ep) = EPR_STAT_TX_DIS"
proof -
  obtain r where r: "r = epr d ep" by blast
  have st: "bit r 12" "\<not> bit r 13"
  proof -
    have "bit (stat_rx r) n = bit EPR_STAT_RX_STALL n" for n using assms by (simp add: r)
    from this[of 12] this[of 13] show "bit r 12" "\<not> bit r 13"
      by (simp_all add: stat_rx_def bit_simps epr_masks) (simp_all add: EPR_STAT_RX_STALL_def bit_simps bit_numeral_rec)
  qed
  have "EPR_STAT_RX_STALL \<noteq> EPR_STAT_RX_VALID" by (simp add: epr_bits)
  then have run: "epr (usb_lld_clear_out ep d) ep =
      epr_next r (((r AND NOT (EPR_TOGGLE_MASK AND NOT EPR_STAT_TX_MASK)) XOR EPR_STAT_RX_NAK) OR EPR_CTR_MASK)"
    using assms by (simp add: usb_lld_clear_out_def stat_rx_def EPR_SET_STAT_TX_def epr_store_def r)
  have v: "bit EPR_STAT_RX_VALID n \<longleftrightarrow> n \<in> {12, 13}" "bit EPR_STAT_TX_DIS n \<longleftrightarrow> False" for n
    unfolding epr_bits by (rule bit_u16; force simp: bit_numeral_rec bit_simps) simp
  show ?thesis
    unfolding run stat_rx_def stat_tx_def
    by (intro conjI u16_bits_eqI; elim insertE emptyE; simp add: epr_next_def bit_simps epr_masks v st)
qed

lemma clear_halt_out_witness:
  "stat_tx (epr (usb_lld_clear_out 1 (usbd_started\<lparr>epr := \<lambda>_. 0x1030\<rparr>)) 1) = EPR_STAT_TX_DIS"
  using clear_halt_out[of "usbd_started\<lparr>epr := \<lambda>_. 0x1030\<rparr>" 1] by (simp add: stat_rx_def epr_bits)

subsection \<open>A wake-up without a configuration\<close>

text \<open>
  A suspension and a wake-up make the device active even if the host has not configured
  it; when a thread has then written to the port, the next start of a frame goes through
  the null pointer of the data endpoint.
\<close>

theorem wakeup_unconfigured:
  assumes "epc d 1 = None" and "sdu_state d = SDU_READY" and "\<not> usbGetTransmitStatusI d 1"
    and "obq_inv q" and "obq_count q = 0" and "obq_bytes q \<noteq> []"
  shows "\<exists>d1 d2. usb_suspend usbcfg d = Some d1 \<and> usb_wakeup usbcfg d1 = Some d2 \<and> drv_state d2 = USB_ACTIVE \<and>
    sduSOFHookI (d2\<lparr>obqueue := q\<rparr>) = None"
proof -
  define d1 where "d1 = sduDisconnectI (d\<lparr>drv_state := USB_SUSPENDED\<rparr>)"
  define d2 where "d2 = d1\<lparr>drv_state := USB_ACTIVE\<rparr>"
  have run: "usb_suspend usbcfg d = Some d1" "usb_wakeup usbcfg d1 = Some d2"
    by (simp_all add: usb_suspend_def usb_wakeup_def usb_isr_invoke_event_cb_def usbcfg_def vcom_event_def d1_def d2_def)
  have f: "drv_state d2 = USB_ACTIVE" "epc d2 1 = None" "sdu_state d2 = SDU_READY" "transmitting d2 = transmitting d"
    using assms(1,2) by (simp_all add: d2_def d1_def sduDisconnectI_def chnAddFlagsI_def Let_def)
  obtain q' where q': "obqTryFlushI q = Some (True, q')" "obq_inv q'" "obq_count q' = 1"
    using obq_flush[OF assms(4)] assms(5,6) by auto
  then obtain n p where n: "obqGetFullBufferI q' = Some (Some (n, p))" using obq_front[OF q'(2)] by auto
  have "\<not> sdu_idle (d2\<lparr>obqueue := q\<rparr>)" "\<not> usbGetTransmitStatusI (d2\<lparr>obqueue := q\<rparr>) 1"
    using f assms(3) by (simp_all add: sdu_idle_def usbGetTransmitStatusI_def)
  moreover have "usbStartTransmitI 1 (Mem_Ob, p) n (d2\<lparr>obqueue := q'\<rparr>) = None"
    using f(2) by (simp add: usbStartTransmitI_def)
  ultimately have "sduSOFHookI (d2\<lparr>obqueue := q\<rparr>) = None"
    using q'(1) n by (simp add: sduSOFHookI_def)
  then show ?thesis using run f(1) by blast
qed

subsection \<open>The data of a request\<close>

lemma line_coding_request:
  assumes "ep0_ok d" and "length s = 8" and "s ! 0 = 0x21" and "s ! 1 = 0x20" and "7 \<le> unat (get_hword 6 s)"
  shows "\<exists>d1 d2. host_setup s d = Some d1 \<and> usb_serve_endpoints run_cb 0 d1 = Some d2 \<and> ep0_ok d2 \<and>
    ep0state d2 = USB_EP0_RX \<and> stat_rx (epr d2 0) = EPR_STAT_RX_VALID \<and> linecoding d2 = linecoding d \<and>
    xbuf (xfers d2 0) = (Mem_Linecoding, 0)"
proof -
  obtain m d1 where st: "host_setup s d = Some d1"
    "ep0_ok (d\<lparr>pma := m, epr := (epr d)(0 := setup_served (epr d 0))\<rparr>)"
    "usb_serve_endpoints run_cb 0 d1 = ep0_request usbcfg
      (d\<lparr>pma := m, epr := (epr d)(0 := setup_served (epr d 0)), ep0state := USB_EP0_WAITING_SETUP,
         setup_packet := s\<rparr>)"
    using setup_served[OF assms(1,2)] by blast
  define b where "b = d\<lparr>pma := m, epr := (epr d)(0 := setup_served (epr d 0)), ep0state := USB_EP0_WAITING_SETUP,
         setup_packet := s\<rparr>"
  define b1 where "b1 = (usbSetupTransfer (Mem_Linecoding, 0) 7 False b)\<lparr>ep0state := USB_EP0_RX\<rparr>"
  have s: "setup_packet b = s" by (simp add: b_def)
  have "sduRequestsHook b = (True, usbSetupTransfer (Mem_Linecoding, 0) 7 False b)"
    using assms(3,4) by (simp add: sduRequestsHook_def s)
  then have "ep0_request usbcfg b = ep0_phase (usbSetupTransfer (Mem_Linecoding, 0) 7 False b)"
    by (simp add: ep0_request_def usbcfg_def)
  also have "\<dots> = usbStartReceiveI 0 (Mem_Linecoding, 0) 7 b1"
  proof -
    have "\<not> ucast (get_hword 6 s) < (7 :: u32)" using assms(5) by (simp add: word_less_nat_alt)
    then show ?thesis using assms(3) by (simp add: ep0_phase_def usbSetupTransfer_def s b1_def Let_def)
  qed
  finally have serve: "usb_serve_endpoints run_cb 0 d1 = usbStartReceiveI 0 (Mem_Linecoding, 0) 7 b1"
    using st(3) by (simp add: b_def)
  have ok: "ep0_ok b1"
    using st(2) by (rule ep0_ok_cong[THEN iffD1, rotated 3]) (simp_all add: b1_def b_def usbSetupTransfer_def)
  then have c: "epc b1 0 = Some ep0config" by (simp add: ep0_ok_def)
  obtain k where k: "usbStartReceiveI 0 (Mem_Linecoding, 0) 7 b1 = Some (EPR_SET_STAT_RX 0 EPR_STAT_RX_VALID
      (set_xfer 0 (set_rxpkts k) (set_xfer 0 (\<lambda>x. x\<lparr>xbuf := (Mem_Linecoding, 0), xsize := 7, xcnt := 0\<rparr>)
        (b1\<lparr>receiving := receiving b1 OR ep_bit 0\<rparr>))))"
    using c by (simp add: usbStartReceiveI_def usb_lld_start_out_def out_state_def ep0config_def set_xfer_def Let_def)
  define d2 where "d2 = EPR_SET_STAT_RX 0 EPR_STAT_RX_VALID
      (set_xfer 0 (set_rxpkts k) (set_xfer 0 (\<lambda>x. x\<lparr>xbuf := (Mem_Linecoding, 0), xsize := 7, xcnt := 0\<rparr>)
        (b1\<lparr>receiving := receiving b1 OR ep_bit 0\<rparr>)))"
  have f: "pma d2 = pma b1" "epc d2 = epc b1" "epr d2 0 = with_rx EPR_STAT_RX_VALID (epr b1 0)" "ep0state d2 = USB_EP0_RX"
    "linecoding d2 = linecoding d" "xbuf (xfers d2 0) = (Mem_Linecoding, 0)"
    by (simp_all add: d2_def status_macros set_xfer_def b1_def b_def usbSetupTransfer_def)
  have "ep0_ok d2" using ok by (simp add: ep0_ok_def f pma_area_def)
  then show ?thesis using st(1) serve k f by (simp add: d2_def[symmetric])
qed

text \<open>
  C28: A host that sets the line coding with the seven bytes it has, or fewer, replaces just
  these and gets the status packet; but a longer packet is copied as a whole, beyond the
  structure, for neither the length asked for nor the rest of the transfer limits it.
\<close>

theorem line_coding_set:
  assumes "ep0_ok d" and "length (linecoding d) = 7" and "length s = 8" and "s ! 0 = 0x21" and "s ! 1 = 0x20"
    and "7 \<le> unat (get_hword 6 s)" and "bs \<noteq> []" and "length bs \<le> 64"
  shows "\<exists>d1 d2 d3. host_setup s d = Some d1 \<and> usb_serve_endpoints run_cb 0 d1 = Some d2 \<and>
    host_out 0 bs d2 = Some d3 \<and>
    (if length bs \<le> 7
     then \<exists>d4. usb_serve_endpoints run_cb 0 d3 = Some d4 \<and> linecoding d4 = bs @ drop (length bs) (linecoding d) \<and>
       ep0state d4 = USB_EP0_SENDING_STS \<and> stat_tx (epr d4 0) = EPR_STAT_TX_VALID
     else usb_serve_endpoints run_cb 0 d3 = None)"
proof -
  obtain d1 d2 where st: "host_setup s d = Some d1" "usb_serve_endpoints run_cb 0 d1 = Some d2" "ep0_ok d2"
    "ep0state d2 = USB_EP0_RX" "stat_rx (epr d2 0) = EPR_STAT_RX_VALID" "linecoding d2 = linecoding d"
    "xbuf (xfers d2 0) = (Mem_Linecoding, 0)"
    using line_coding_request[OF assms(1,3-6)] by blast
  note O = st(3)[unfolded ep0_ok_def]
  obtain m d3 where h: "host_out 0 bs d2 = Some d3" "rx_same 0 64 (pma d2) m"
    "usb_serve_endpoints run_cb 0 d3 =
      Option.bind (store_at (Mem_Linecoding, 0) bs (d2\<lparr>pma := m, epr := (epr d2)(0 := out_served (epr d2 0))\<rparr>)) (\<lambda>d4.
        let d5 = set_xfer 0 (out_adv (length bs)) d4 in
        if length bs < 64 \<or> rxpkts (out_adv (length bs) (xfers d2 0)) = 0 then usb_isr_invoke_out_cb run_cb 0 d5
        else Some (EPR_SET_STAT_RX 0 EPR_STAT_RX_VALID d5))"
    using served_out[OF ep0_out_ep[OF st(3)] st(5) O[THEN conjunct2, THEN conjunct2, THEN conjunct2] assms(8) refl,
        of run_cb, unfolded ep0_slots st(7)] by (elim exE conjE) (rule that)
  show ?thesis
  proof (cases "length bs \<le> 7")
    case False
    then have "store_at (Mem_Linecoding, 0) bs (d2\<lparr>pma := m, epr := (epr d2)(0 := out_served (epr d2 0))\<rparr>) = None"
      using assms(2,7) by (simp add: store_at_def st(6))
    then show ?thesis using st(1,2) h False by simp
  next
    case True
    define lc where "lc = bs @ drop (length bs) (linecoding d)"
    define e where "e = set_xfer 0 (out_adv (length bs)) (d2\<lparr>pma := m, epr := (epr d2)(0 := out_served (epr d2 0)), linecoding := lc\<rparr>)"
    have "store_at (Mem_Linecoding, 0) bs (d2\<lparr>pma := m, epr := (epr d2)(0 := out_served (epr d2 0))\<rparr>) =
        Some (d2\<lparr>pma := m, epr := (epr d2)(0 := out_served (epr d2 0)), linecoding := lc\<rparr>)"
      using assms(2,7) True by (simp add: store_at_def st(6) lc_def put_bytes_def)
    then have "usb_serve_endpoints run_cb 0 d3 = usb_isr_invoke_out_cb run_cb 0 e"
      using h(3) True by (simp add: e_def Let_def)
    define e1 where "e1 = e\<lparr>receiving := receiving e AND NOT (ep_bit 0), ep0state := USB_EP0_SENDING_STS\<rparr>"
    have a: "m ! TXADDR0 0 = pma d2 ! TXADDR0 0" "m ! RXADDR0 0 = pma d2 ! RXADDR0 0" "length m = 256"
      using area_head[OF _ _ h(2)] O h(2) by (simp_all add: rx_same_def pma_area_def)
    have f: "pma e1 = m" "epr e1 0 = out_served (epr d2 0)" "epc e1 0 = Some ep0config" "linecoding e1 = lc"
      using O by (simp_all add: e1_def e_def set_xfer_def)
    have es: "ep0state e1 = USB_EP0_SENDING_STS" by (simp add: e1_def)
    have "ep0_ok e1" using O a by (simp add: ep0_ok_def f pma_area_def ctr_flags out_fields)
    from ep0_transmit[OF this, of 0 Mem_Null] obtain d4 where d4: "usbStartTransmitI 0 (Mem_Null, 0) 0 e1 = Some d4"
      "stat_tx (epr d4 0) = EPR_STAT_TX_VALID" "ep0state d4 = USB_EP0_SENDING_STS" "linecoding d4 = lc"
      by (auto simp: es f)
    have "usb_isr_invoke_out_cb run_cb 0 e = usbStartTransmitI 0 (Mem_Null, 0) 0 e1"
      using O st(4) by (simp add: usb_isr_invoke_out_cb_def run_cb_def usb_ep0out_def ep0config_def e1_def e_def set_xfer_def)
    with \<open>usb_serve_endpoints run_cb 0 d3 = usb_isr_invoke_out_cb run_cb 0 e\<close> show ?thesis
      using st(1,2) h(1) d4 True by (simp add: lc_def)
  qed
qed

lemma line_coding_set_witness:
  "\<exists>d1 d2 d3. host_setup [0x21, 0x20, 0, 0, 0, 0, 7, 0] usbd_started = Some d1 \<and>
    usb_serve_endpoints run_cb 0 d1 = Some d2 \<and> host_out 0 (replicate 8 1) d2 = Some d3 \<and>
    usb_serve_endpoints run_cb 0 d3 = None"
proof -
  have "get_hword 6 [0x21, 0x20, 0, 0, 0, 0, 7, 0] = 7" by (simp add: get_hword_def)
  then show ?thesis
    using line_coding_set[OF usbd_started(1,2), of "[0x21, 0x20, 0, 0, 0, 0, 7, 0]" "replicate 8 1"] by simp
qed

lemma wakeup_unconfigured_witness:
  "\<exists>q d1 d2. usb_suspend usbcfg usbd_started = Some d1 \<and> usb_wakeup usbcfg d1 = Some d2 \<and>
    drv_state d2 = USB_ACTIVE \<and> sduSOFHookI (d2\<lparr>obqueue := q\<rparr>) = None"
proof -
  define q where "q = \<lparr>bcounter = 2, bwrptr = 0, brdptr = 0, btop = 520, bsize = 260, bn = 2, buf_ptr = Some 5,
    buf_top = 260, buffers = replicate 520 7\<rparr>"
  have "obq_inv q" "obq_count q = 0" "obq_bytes q \<noteq> []"
    by (simp_all add: q_def obq_inv_def obq_count_def geometry_def rd_slot_def obq_bytes_def obq_pending_def filled_def)
  moreover have "\<not> usbGetTransmitStatusI usbd_started 1" by (simp add: usbGetTransmitStatusI_def usbd_started)
  ultimately show ?thesis using wakeup_unconfigured[OF usbd_started(4,5)] by blast
qed

subsection \<open>A suspension during a reception\<close>

lemma ib_built: "ibq_inv q \<Longrightarrow> bsize q = 260 \<Longrightarrow> bn q = 2 \<Longrightarrow> queue_built q"
  by (simp add: ibq_inv_def geometry_def queue_built_def)

text \<open>
  C29: A suspension empties the input queue but leaves the reception in progress: it goes on
  into the buffer it was started with, and at its end the queue posts its first buffer. When
  the reception was into the second one, a thread then gets as many bytes as the host has
  sent, but old ones that were in the first buffer.
\<close>

theorem suspend_delivers_stale:
  assumes "sdu_in d" and "usbGetReceiveStatusI d 1" and "bwrptr (ibqueue d) = 260" and "length bs < 64"
  shows "\<exists>d1 d2 d3 d4. usb_suspend usbcfg d = Some d1 \<and> usb_wakeup usbcfg d1 = Some d2 \<and>
    host_out 1 bs d2 = Some d3 \<and> usb_serve_endpoints run_cb 1 d3 = Some d4 \<and> sdu_in d4 \<and>
    in_stream d4 = take (rx_count d + length bs) (drop 4 (buffers (ibqueue d)))"
proof -
  define d1 where "d1 = sduDisconnectI (d\<lparr>drv_state := USB_SUSPENDED\<rparr>)"
  define d2 where "d2 = d1\<lparr>drv_state := USB_ACTIVE\<rparr>"
  have run: "usb_suspend usbcfg d = Some d1" "usb_wakeup usbcfg d1 = Some d2"
    by (simp_all add: usb_suspend_def usb_wakeup_def usb_isr_invoke_event_cb_def usbcfg_def vcom_event_def d1_def d2_def)
  note I = assms(1)[unfolded sdu_in_def]
  have up: "sdu_up d2" using I by (simp add: sdu_up_def d2_def d1_def sduDisconnectI_def chnAddFlagsI_def pma_area_def Let_def)
  have f: "ibqueue d2 = ibqResetI (ibqueue d)" "xfers d2 = xfers d" "epr d2 = epr d" "receiving d2 = receiving d" "pma d2 = pma d"
    by (simp_all add: d2_def d1_def sduDisconnectI_def chnAddFlagsI_def Let_def)
  have geo: "bsize (ibqueue d) = 260" "bn (ibqueue d) = 2" and inv: "ibq_inv (ibqueue d)" using I by (simp_all add: sdu_rx_def)
  obtain k where "rx_going k (ibqueue d) d" using I assms(2) by (auto simp: sdu_rx_def)
  then have G: "k < 4" "stat_rx (epr d2 1) = EPR_STAT_RX_VALID" "xcnt (xfers d2 3) = of_nat (64 * k)"
    "xbuf (xfers d2 3) = (Mem_Ib, 264 + 64 * k)"
    using assms(3) by (simp_all add: rx_going_def Let_def f)
  note U = up[unfolded sdu_up_def]
  have oe: "out_ep 1 ep1config 64 d2" using U by (simp add: out_ep_def ep1config_def)
  have len: "length bs \<le> 64" and flags: "epr d2 1 AND EPR_CTR_MASK = 0" using assms(4) U by simp_all
  obtain m d3 where h: "host_out 1 bs d2 = Some d3" "rx_same 1 64 (pma d2) m"
    "usb_serve_endpoints run_cb 1 d3 =
      Option.bind (store_at (Mem_Ib, 264 + 64 * k) bs (d2\<lparr>pma := m, epr := (epr d2)(1 := out_served (epr d2 1))\<rparr>)) (\<lambda>x.
        let d3 = set_xfer 3 (out_adv (length bs)) x in
        if length bs < 64 \<or> rxpkts (out_adv (length bs) (xfers d2 3)) = 0 then usb_isr_invoke_out_cb run_cb 1 d3
        else Some (EPR_SET_STAT_RX 1 EPR_STAT_RX_VALID d3))"
    using served_out[OF oe G(2) flags len refl, of run_cb, unfolded endpoint_1 G(4)] by (elim exE conjE) (rule that)
  define q where "q = (ibqResetI (ibqueue d))\<lparr>buffers := put_bytes (264 + 64 * k) bs (buffers (ibqueue d))\<rparr>"
  have b: "length (buffers (ibqueue d)) = 520" using ib_built[OF inv geo] by (simp add: queue_built_def)
  have fit: "264 + 64 * k + length bs \<le> 520" using G(1) assms(4) by simp
  have q: "q = ibqResetI ((ibqueue d)\<lparr>buffers := put_bytes (264 + 64 * k) bs (buffers (ibqueue d))\<rparr>)"
    by (simp add: q_def ibqResetI_def)
  have "queue_built ((ibqueue d)\<lparr>buffers := put_bytes (264 + 64 * k) bs (buffers (ibqueue d))\<rparr>)"
    using ib_built[OF inv geo] fit b by (simp add: queue_built_def length_put)
  note R = built_reset(1-5)[OF this, folded q]
  define e where "e = set_xfer 3 (out_adv (length bs)) (d2\<lparr>pma := m, epr := (epr d2)(1 := out_served (epr d2 1)), ibqueue := q\<rparr>)"
  have "store_at (Mem_Ib, 264 + 64 * k) bs (d2\<lparr>pma := m, epr := (epr d2)(1 := out_served (epr d2 1))\<rparr>) =
      Some (d2\<lparr>pma := m, epr := (epr d2)(1 := out_served (epr d2 1)), ibqueue := q\<rparr>)"
    using fit b by (simp add: store_ib f ibqResetI_def q_def)
  then have serve: "usb_serve_endpoints run_cb 1 d3 = usb_isr_invoke_out_cb run_cb 1 e"
    using h(3) assms(4) by (simp add: e_def Let_def)
  have ue: "sdu_up e" using packet_frame(1)[OF up, of e] h(2) by (simp add: e_def set_xfer_def)
  define ds where "ds = take (64 * k + length bs) (drop 4 (buffers q))"
  have stale: "ds = take (64 * k + length bs) (drop 4 (buffers (ibqueue d)))"
    using fit b G(1) assms(4) unfolding ds_def q_def by (simp add: take_drop_put)
  have lds: "length ds = 64 * k + length bs" using b fit unfolding stale by simp
  have p: "bwrptr q = 0" "ibqueue e = q" by (simp_all add: q ibqResetI_def e_def set_xfer_def)
  have fill: "q = ibq_fill ds q"
  proof -
    have "length (buffers q) = 520" using b fit by (simp add: q_def length_put)
    then have "put_bytes 4 ds (buffers q) = buffers q" unfolding ds_def using fit by (intro put_own) simp
    then show ?thesis by (simp add: ibq_fill_def p sizeof_size_t_def)
  qed
  have cnt: "xcnt (xfers e 3) = of_nat (length ds)" using G(3) by (simp add: e_def set_xfer_def out_adv_def lds)
  have nak: "stat_rx (epr e 1) = EPR_STAT_RX_NAK" by (simp add: e_def set_xfer_def out_served_status)
  have "length ds \<le> 256" using lds G(1) assms(4) by simp
  from transfer_posted[OF ue, unfolded p(2), OF R(1,3,4,5) fill this cnt nak] obtain d4 where
    d4: "usb_isr_invoke_out_cb run_cb 1 e = Some d4" "sdu_in d4" "in_stream d4 = ds" using R(2) by auto
  have "rx_count d = 64 * k"
    using assms(2) G(1,3) by (simp add: rx_count_def f unat_of_nat take_bit_nat_eq_self_iff flip: of_nat_mult)
  then show ?thesis using run h(1) serve d4 stale by auto
qed

text \<open>A port with the bytes 1, 2, 3 in its first buffer, that is receiving into the second one.\<close>

definition usbd_half :: usbd where
  "usbd_half = usbd_boot\<lparr>drv_state := USB_ACTIVE, sdu_state := SDU_READY, epc := \<lambda>_. Some ep1config,
     in_params := \<lambda>_. True, out_params := \<lambda>_. True, epr := \<lambda>_. 0x3000, receiving := 2,
     pma := (replicate 256 0)[4 := 192, 6 := 256],
     xfers := \<lambda>_. set_rxpkts 4 \<lparr>xsize = 256, xcnt = 0, xbuf = (Mem_Ib, 264), xlast = 0\<rparr>,
     ibqueue := \<lparr>bcounter = 1, bwrptr = 260, brdptr = 0, btop = 520, bsize = 260, bn = 2, buf_ptr = None, buf_top = 0,
       buffers = [3, 0, 0, 0, 1, 2, 3] @ replicate 513 9\<rparr>\<rparr>"

lemma usbd_half: "sdu_in usbd_half" "usbGetReceiveStatusI usbd_half 1" "rx_count usbd_half = 0"
proof -
  have on: "usbGetReceiveStatusI usbd_half 1" by (simp add: usbd_half_def usbGetReceiveStatusI_def ep_bit_1[simplified])
  have "sdu_up usbd_half"
  proof -
    have "(0x3000 :: u16) AND EPR_CTR_MASK = 0" by (simp add: epr_bits)
    then show ?thesis by (simp add: sdu_up_def usbd_half_def pma_area_def TXADDR0_def RXADDR0_def)
  qed
  moreover have "ibq_inv (ibqueue usbd_half)"
    by (simp add: usbd_half_def ibq_inv_def geometry_def rd_slot_def ring_slots_def size_of_def get_u32_def get_u16_def be16_def)
  moreover have "rx_going 0 (ibqueue usbd_half) usbd_half"
    by (simp add: rx_going_def usbd_half_def ibqIsFullI_def stat_rx_def epr_bits)
  ultimately show "sdu_in usbd_half" using on by (auto simp: sdu_in_def sdu_rx_def) (simp_all add: usbd_half_def)
  show "usbGetReceiveStatusI usbd_half 1" by (rule on)
  show "rx_count usbd_half = 0" using on by (simp add: rx_count_def usbd_half_def)
qed

lemma suspend_delivers_stale_witness:
  "\<exists>d2 d3 d4. host_out 1 [8, 8] d2 = Some d3 \<and> usb_serve_endpoints run_cb 1 d3 = Some d4 \<and> in_stream d4 = [1, 2]"
proof -
  have "bwrptr (ibqueue usbd_half) = 260" "take 2 (drop 4 (buffers (ibqueue usbd_half))) = [1, 2]"
    by (simp_all add: usbd_half_def)
  then show ?thesis
    using suspend_delivers_stale[OF usbd_half(1,2), of "[8, 8]"] by (auto simp: usbd_half(3) numeral_2_eq_2)
qed

end
