(* ===== verification/Ch_Sched.thy ===== *)
theory Ch_Sched
  imports Io_Buffers
begin

text \<open>
  The scheduler of the real-time kernel (chschd.c, chschd.h) in the firmware's
  configuration: threads with their priorities and states, the queues they are in, and the
  switch from one thread to the next. A queue is the list of its threads, front first,
  in place of the ring of pointers. A thread that does not exist yet is in the final state.
  Taking a thread from an empty queue, which would give the queue's header, and scanning past
  the header of the ready list are None.

  A function that puts its caller to sleep ends there in the model; what it does after the
  caller has been woken is a definition of its own.
\<close>

subsection \<open>The state of the kernel\<close>

datatype tstate =
  CH_STATE_READY | CH_STATE_CURRENT | CH_STATE_WTSTART | CH_STATE_SUSPENDED | CH_STATE_QUEUED
  | CH_STATE_WTSEM | CH_STATE_WTMTX | CH_STATE_WTCOND | CH_STATE_SLEEPING | CH_STATE_WTEXIT
  | CH_STATE_WTOREVT | CH_STATE_WTANDEVT | CH_STATE_SNDMSGQ | CH_STATE_SNDMSG | CH_STATE_WTMSG
  | CH_STATE_FINAL

text \<open>The union in a thread's structure, by the member written last.\<close>

datatype state_data =
  U_Msg int | U_Exit int | U_Ref nat | U_Sem nat | U_Mutex nat | U_Cond nat | U_Events u32

record ch_thread =
  p_prio :: u32
  p_realprio :: u32
  p_state :: tstate
  p_flags :: u8
  p_u :: state_data
  p_mtxlist :: "nat option"
  p_epending :: u32
  p_waiting :: "nat list"

text \<open>The queues: the ready list, and those of the objects threads wait for.\<close>

datatype qid = Q_Ready | Q_Mutex nat | Q_Cond nat | Q_Sem nat | Q_Threads nat

record kernel =
  thr :: "nat \<Rightarrow> ch_thread"
  tqueue :: "qid \<Rightarrow> nat list"
  currp :: nat
  m_owner :: "nat \<Rightarrow> nat option"
  m_next :: "nat \<Rightarrow> nat option"
  s_cnt :: "nat \<Rightarrow> int"
  tref :: "nat \<Rightarrow> nat option"
  vtlist :: "(nat \<times> u32) list"
  vt_systime :: u32

definition NOPRIO :: u32 where "NOPRIO = 0"
definition IDLEPRIO :: u32 where "IDLEPRIO = 1"
definition NORMALPRIO :: u32 where "NORMALPRIO = 64"

abbreviation prio :: "kernel \<Rightarrow> nat \<Rightarrow> u32" where "prio k t \<equiv> p_prio (thr k t)"
abbreviation tst :: "kernel \<Rightarrow> nat \<Rightarrow> tstate" where "tst k t \<equiv> p_state (thr k t)"

definition set_thr :: "nat \<Rightarrow> (ch_thread \<Rightarrow> ch_thread) \<Rightarrow> kernel \<Rightarrow> kernel" where
  "set_thr t f k = k\<lparr>thr := (thr k)(t := f (thr k t))\<rparr>"

definition set_queue :: "qid \<Rightarrow> nat list \<Rightarrow> kernel \<Rightarrow> kernel" where
  "set_queue q ts k = k\<lparr>tqueue := (tqueue k)(q := ts)\<rparr>"

subsection \<open>Queues\<close>

text \<open>The scan for a place: before the first element at which it does not go on.\<close>

primrec put_before :: "(nat \<Rightarrow> bool) \<Rightarrow> nat \<Rightarrow> nat list \<Rightarrow> nat list" where
  "put_before go t [] = [t]"
| "put_before go t (c # cs) = (if go c then c # put_before go t cs else t # c # cs)"

definition queue_prio_insert :: "nat \<Rightarrow> qid \<Rightarrow> kernel \<Rightarrow> kernel" where
  "queue_prio_insert t q k = set_queue q (put_before (\<lambda>c. prio k t \<le> prio k c) t (tqueue k q)) k"

definition queue_insert :: "nat \<Rightarrow> qid \<Rightarrow> kernel \<Rightarrow> kernel" where
  "queue_insert t q k = set_queue q (tqueue k q @ [t]) k"

definition queue_fifo_remove :: "qid \<Rightarrow> kernel \<Rightarrow> (nat \<times> kernel) option" where
  "queue_fifo_remove q k = (case tqueue k q of [] \<Rightarrow> None | t # ts \<Rightarrow> Some (t, set_queue q ts k))"

definition queue_dequeue :: "nat \<Rightarrow> kernel \<Rightarrow> kernel" where
  "queue_dequeue t k = k\<lparr>tqueue := (\<lambda>q. remove1 t (tqueue k q))\<rparr>"

definition queue_notempty :: "qid \<Rightarrow> kernel \<Rightarrow> bool" where
  "queue_notempty q k \<longleftrightarrow> tqueue k q \<noteq> []"

definition firstprio :: "kernel \<Rightarrow> u32" where
  "firstprio k = (case tqueue k Q_Ready of [] \<Rightarrow> NOPRIO | t # _ \<Rightarrow> prio k t)"

subsection \<open>The scheduler\<close>

definition chSchReadyI :: "nat \<Rightarrow> kernel \<Rightarrow> kernel option" where
  "chSchReadyI t k =
     (let k1 = set_thr t (p_state_update (\<lambda>_. CH_STATE_READY)) k
      in if prio k1 t \<le> NOPRIO then None
         else Some (set_queue Q_Ready (put_before (\<lambda>c. prio k1 t \<le> prio k1 c) t (tqueue k1 Q_Ready)) k1))"

text \<open>The first thread of the ready list becomes the current one.\<close>

definition run_next :: "kernel \<Rightarrow> kernel option" where
  "run_next k =
     map_option (\<lambda>(t, k1). set_thr t (p_state_update (\<lambda>_. CH_STATE_CURRENT)) (k1\<lparr>currp := t\<rparr>))
       (queue_fifo_remove Q_Ready k)"

definition chSchGoSleepS :: "tstate \<Rightarrow> kernel \<Rightarrow> kernel option" where
  "chSchGoSleepS newstate k = run_next (set_thr (currp k) (p_state_update (\<lambda>_. newstate)) k)"

definition chSchDoRescheduleBehind :: "kernel \<Rightarrow> kernel option" where
  "chSchDoRescheduleBehind k = Option.bind (run_next k) (chSchReadyI (currp k))"

definition chSchDoRescheduleAhead :: "kernel \<Rightarrow> kernel option" where
  "chSchDoRescheduleAhead k =
     map_option (\<lambda>k1.
       let otp = currp k; k2 = set_thr otp (p_state_update (\<lambda>_. CH_STATE_READY)) k1
       in set_queue Q_Ready (put_before (\<lambda>c. prio k2 otp < prio k2 c) otp (tqueue k2 Q_Ready)) k2)
     (run_next k)"

definition chSchIsRescRequiredI :: "kernel \<Rightarrow> bool" where
  "chSchIsRescRequiredI k \<longleftrightarrow> prio k (currp k) < firstprio k"

definition chSchRescheduleS :: "kernel \<Rightarrow> kernel option" where
  "chSchRescheduleS k = (if chSchIsRescRequiredI k then chSchDoRescheduleAhead k else Some k)"

definition chSchIsPreemptionRequired :: "kernel \<Rightarrow> bool" where
  "chSchIsPreemptionRequired k \<longleftrightarrow> prio k (currp k) < firstprio k"

definition chSchDoReschedule :: "kernel \<Rightarrow> kernel option" where
  "chSchDoReschedule = chSchDoRescheduleAhead"

definition chSchPreemption :: "kernel \<Rightarrow> kernel option" where
  "chSchPreemption k = (if prio k (currp k) \<le> firstprio k then chSchDoRescheduleAhead k else Some k)"

definition chSchDoYieldS :: "kernel \<Rightarrow> kernel option" where
  "chSchDoYieldS k = (if prio k (currp k) \<le> firstprio k then chSchDoRescheduleBehind k else Some k)"

definition chSchWakeupS :: "nat \<Rightarrow> int \<Rightarrow> kernel \<Rightarrow> kernel option" where
  "chSchWakeupS ntp msg k =
     (let k1 = set_thr ntp (p_u_update (\<lambda>_. U_Msg msg)) k; otp = currp k
      in if prio k1 ntp \<le> prio k1 otp then chSchReadyI ntp k1
         else map_option (\<lambda>k2. set_thr ntp (p_state_update (\<lambda>_. CH_STATE_CURRENT)) (k2\<lparr>currp := ntp\<rparr>))
                (chSchReadyI otp k1))"

end
