(* ===== verification/Ch_Queues.thy ===== *)
theory Ch_Queues
  imports Ch_Sched
begin

text \<open>
  The order of the kernel's queues: each thread is in the one queue that its state says, the
  ready list and the queues of mutexes and condition variables are sorted by priority, and
  one thread is the current one. A queue operation is a removal followed by an insertion; in
  between, everything holds but for the thread on its way.
\<close>

subsection \<open>The invariant\<close>

fun seated :: "qid \<Rightarrow> ch_thread \<Rightarrow> bool" where
  "seated Q_Ready th \<longleftrightarrow> p_state th = CH_STATE_READY"
| "seated (Q_Mutex m) th \<longleftrightarrow> p_state th = CH_STATE_WTMTX \<and> p_u th = U_Mutex m"
| "seated (Q_Cond c) th \<longleftrightarrow> p_state th = CH_STATE_WTCOND \<and> p_u th = U_Cond c"
| "seated (Q_Sem s) th \<longleftrightarrow> p_state th = CH_STATE_WTSEM \<and> p_u th = U_Sem s"
| "seated (Q_Threads x) th \<longleftrightarrow> p_state th = CH_STATE_QUEUED"

definition queued_state :: "tstate \<Rightarrow> bool" where
  "queued_state s \<longleftrightarrow>
     s \<in> {CH_STATE_READY, CH_STATE_WTMTX, CH_STATE_WTCOND, CH_STATE_WTSEM, CH_STATE_QUEUED}"

fun by_prio :: "qid \<Rightarrow> bool" where
  "by_prio Q_Ready \<longleftrightarrow> True"
| "by_prio (Q_Mutex m) \<longleftrightarrow> True"
| "by_prio (Q_Cond c) \<longleftrightarrow> True"
| "by_prio _ \<longleftrightarrow> False"

definition ordered :: "kernel \<Rightarrow> nat list \<Rightarrow> bool" where
  "ordered k ts \<longleftrightarrow> sorted_wrt (\<lambda>a b. prio k b \<le> prio k a) ts"

text \<open>All is well in the queues, but for a set of threads, which are in none.\<close>

definition queues_but :: "nat set \<Rightarrow> kernel \<Rightarrow> bool" where
  "queues_but X k \<longleftrightarrow>
     (\<forall>q. distinct (tqueue k q)) \<and>
     (\<forall>q t. t \<in> set (tqueue k q) \<longrightarrow> seated q (thr k t) \<and> t \<notin> X) \<and>
     (\<forall>q q' t. t \<in> set (tqueue k q) \<longrightarrow> t \<in> set (tqueue k q') \<longrightarrow> q = q') \<and>
     (\<forall>t. queued_state (tst k t) \<longrightarrow> t \<notin> X \<longrightarrow> (\<exists>q. t \<in> set (tqueue k q))) \<and>
     (\<forall>q. by_prio q \<longrightarrow> ordered k (tqueue k q)) \<and>
     (\<forall>t. tst k t \<noteq> CH_STATE_FINAL \<longrightarrow> t \<notin> X \<longrightarrow> 0 < prio k t)"

abbreviation queues_ok :: "kernel \<Rightarrow> bool" where "queues_ok k \<equiv> queues_but {} k"

definition sched_ok :: "kernel \<Rightarrow> bool" where
  "sched_ok k \<longleftrightarrow> queues_ok k \<and> (\<forall>t. tst k t = CH_STATE_CURRENT \<longleftrightarrow> t = currp k) \<and>
     (\<forall>t\<in>set (tqueue k Q_Ready). prio k t \<le> prio k (currp k))"

subsection \<open>Fields\<close>

lemma set_thr_simps [simp]:
  "thr (set_thr t f k) = (thr k)(t := f (thr k t))" "tqueue (set_thr t f k) = tqueue k"
  "currp (set_thr t f k) = currp k" "m_owner (set_thr t f k) = m_owner k" "m_next (set_thr t f k) = m_next k"
  "s_cnt (set_thr t f k) = s_cnt k" "tref (set_thr t f k) = tref k" "vtlist (set_thr t f k) = vtlist k"
  "vt_systime (set_thr t f k) = vt_systime k"
  by (simp_all add: set_thr_def)

lemma set_queue_simps [simp]:
  "tqueue (set_queue q ts k) = (tqueue k)(q := ts)" "thr (set_queue q ts k) = thr k"
  "currp (set_queue q ts k) = currp k" "m_owner (set_queue q ts k) = m_owner k"
  "m_next (set_queue q ts k) = m_next k" "s_cnt (set_queue q ts k) = s_cnt k" "tref (set_queue q ts k) = tref k"
  "vtlist (set_queue q ts k) = vtlist k" "vt_systime (set_queue q ts k) = vt_systime k"
  by (simp_all add: set_queue_def)

lemma queue_dequeue_simps [simp]:
  "tqueue (queue_dequeue t k) q = remove1 t (tqueue k q)" "thr (queue_dequeue t k) = thr k"
  "currp (queue_dequeue t k) = currp k" "m_owner (queue_dequeue t k) = m_owner k"
  "m_next (queue_dequeue t k) = m_next k" "s_cnt (queue_dequeue t k) = s_cnt k" "tref (queue_dequeue t k) = tref k"
  "vtlist (queue_dequeue t k) = vtlist k" "vt_systime (queue_dequeue t k) = vt_systime k"
  by (simp_all add: queue_dequeue_def)

lemma ordered_simps [simp]:
  "ordered k []" "ordered k (t # ts) \<longleftrightarrow> (\<forall>u\<in>set ts. prio k u \<le> prio k t) \<and> ordered k ts"
  by (simp_all add: ordered_def)

lemma ordered_cong: "(\<And>u. u \<in> set ts \<Longrightarrow> prio k' u = prio k u) \<Longrightarrow> ordered k' ts = ordered k ts"
  by (induction ts) auto

lemma ordered_state [simp]: "ordered (set_thr t (p_state_update f) k) = ordered k"
  by (rule ext, rule ordered_cong) simp

lemma queues_seated: "queues_but X k \<Longrightarrow> t \<in> set (tqueue k q) \<Longrightarrow> seated q (thr k t)"
  by (simp add: queues_but_def)

lemma queues_cong: "thr k' = thr k \<Longrightarrow> tqueue k' = tqueue k \<Longrightarrow> queues_but X k' = queues_but X k"
  by (simp add: queues_but_def ordered_def)

lemma ordered_remove1: "ordered k ts \<Longrightarrow> ordered k (remove1 t ts)"
  by (induction ts) (auto dest: notin_set_remove1)

subsection \<open>Insertion by scanning\<close>

lemma put_before_set [simp]: "set (put_before go t ts) = insert t (set ts)"
  by (induction ts) auto

lemma put_before_distinct: "distinct ts \<Longrightarrow> t \<notin> set ts \<Longrightarrow> distinct (put_before go t ts)"
  by (induction ts) auto

lemma put_before_cong: "(\<And>u. u \<in> set ts \<Longrightarrow> go' u = go u) \<Longrightarrow> put_before go' t ts = put_before go t ts"
  by (induction ts) auto

text \<open>Both scans, behind and ahead of the threads of the same priority, keep the order.\<close>

lemma put_before_ordered:
  assumes "ordered k ts" and "\<And>c. go c \<Longrightarrow> prio k t \<le> prio k c" and "\<And>c. \<not> go c \<Longrightarrow> prio k c \<le> prio k t"
  shows "ordered k (put_before go t ts)"
  using assms(1)
proof (induction ts)
  case (Cons c cs)
  show ?case
  proof (cases "go c")
    case True
    then show ?thesis using Cons assms(2)[OF True] by auto
  next
    case False
    then show ?thesis using Cons.prems assms(3)[OF False] by fastforce
  qed
qed simp

subsection \<open>A thread taken out, changed, and put in again\<close>

lemma queues_dequeue: "queues_ok k \<Longrightarrow> queues_but {t} (queue_dequeue t k)"
  unfolding queues_but_def
proof (intro conjI allI impI; elim conjE)
  fix q
  assume o: "\<forall>q. by_prio q \<longrightarrow> ordered k (tqueue k q)" and p: "by_prio q"
  show "ordered (queue_dequeue t k) (tqueue (queue_dequeue t k) q)"
    using ordered_remove1[of k "tqueue k q" t] o p ordered_cong[of "remove1 t (tqueue k q)" "queue_dequeue t k" k] by simp
next
  fix u
  assume a: "queued_state (tst (queue_dequeue t k) u)" "u \<notin> {t}"
    "\<forall>t. queued_state (tst k t) \<longrightarrow> t \<notin> {} \<longrightarrow> (\<exists>q. t \<in> set (tqueue k q))"
  then obtain q where "u \<in> set (tqueue k q)" by auto
  then show "\<exists>q. u \<in> set (tqueue (queue_dequeue t k) q)" using a(2) by (intro exI[of _ q]) simp
qed (auto dest: notin_set_remove1)

lemma queues_set_thr:
  assumes "queues_but X k" and "t \<in> X"
  shows "queues_but X (set_thr t f k)"
proof -
  have n: "t \<notin> set (tqueue k q)" for q using assms by (auto simp: queues_but_def)
  have "ordered (set_thr t f k) (tqueue k q) = ordered k (tqueue k q)" for q
    by (rule ordered_cong) (use n in auto)
  then show ?thesis using assms n unfolding queues_but_def by auto
qed

lemma queues_insert:
  assumes "queues_but (insert t X) k" and "seated q (thr k t)" and "0 < prio k t" and "t \<notin> X"
    and "set ts = insert t (set (tqueue k q))" and "distinct ts" and "by_prio q \<Longrightarrow> ordered k ts"
  shows "queues_but X (set_queue q ts k)"
proof -
  have n: "t \<notin> set (tqueue k p)" for p using assms(1) by (auto simp: queues_but_def)
  have o: "ordered (set_queue q ts k) = ordered k" by (simp add: fun_eq_iff ordered_def)
  show ?thesis
    unfolding queues_but_def o
  proof (intro conjI allI impI)
    fix u assume u: "queued_state (tst (set_queue q ts k) u)" "u \<notin> X"
    show "\<exists>p. u \<in> set (tqueue (set_queue q ts k) p)"
    proof (cases "u = t")
      case True
      then show ?thesis using assms(5) by (intro exI[of _ q]) simp
    next
      case False
      then obtain p where "u \<in> set (tqueue k p)" using u assms(1) by (auto simp: queues_but_def)
      then show ?thesis using assms(5) by (intro exI[of _ p]) auto
    qed
  next
    fix p assume "by_prio p" then show "ordered k (tqueue (set_queue q ts k) p)"
      using assms(1,7) by (auto simp: queues_but_def)
  next
    fix p p' u assume "u \<in> set (tqueue (set_queue q ts k) p)" "u \<in> set (tqueue (set_queue q ts k) p')"
    then show "p = p'" using assms(1,5) n unfolding queues_but_def by (auto split: if_splits)
  qed (use assms n in \<open>auto simp: queues_but_def split: if_splits\<close>)
qed

lemma seated_queued: "seated q th \<Longrightarrow> queued_state (p_state th)"
  by (cases q) (auto simp: queued_state_def)

lemma queues_add: "queues_but X k \<Longrightarrow> \<not> queued_state (tst k t) \<Longrightarrow> queues_but (insert t X) k"
  unfolding queues_but_def using seated_queued by blast

lemma queues_settled:
  assumes "queues_but (insert t X) k" and "\<not> queued_state (tst k t)" and "tst k t = CH_STATE_FINAL \<or> 0 < prio k t"
  shows "queues_but X k"
  using assms unfolding queues_but_def by auto

lemma queues_fifo_remove:
  assumes "queues_ok k" and "queue_fifo_remove q k = Some (t, k1)"
  shows "queues_but {t} k1 \<and> seated q (thr k t) \<and> k1 = queue_dequeue t k"
proof -
  obtain ts where ts: "tqueue k q = t # ts" "k1 = set_queue q ts k"
    using assms(2) by (auto simp: queue_fifo_remove_def split: list.splits)
  have d: "distinct (tqueue k q)" "seated q (thr k t)" and u: "\<And>p. p \<noteq> q \<Longrightarrow> t \<notin> set (tqueue k p)"
    using assms(1) ts(1) unfolding queues_but_def by (metis list.set_intros(1))+
  have "tqueue k1 p = tqueue (queue_dequeue t k) p" for p
    using u[of p] ts by (cases "p = q") (simp_all add: remove1_idem)
  then have "tqueue k1 = tqueue (queue_dequeue t k)" by (rule ext)
  then have "k1 = queue_dequeue t k" using ts(2) by (simp add: set_queue_def queue_dequeue_def)
  then show ?thesis using queues_dequeue[OF assms(1)] d(2) by simp
qed

end
