(* ===== verification/Ch_Switch.thy ===== *)
theory Ch_Switch
  imports Ch_Queues
begin

text \<open>
  The scheduler keeps the order of the queues, and at the end of each of its operations the
  current thread has the highest priority of all threads that can run. What else a
  component promises is left alone: a switch changes nothing but which of these threads
  runs.
\<close>

subsection \<open>What a switch may change\<close>

definition runnable :: "tstate \<Rightarrow> bool" where
  "runnable s \<longleftrightarrow> s = CH_STATE_READY \<or> s = CH_STATE_CURRENT"

definition resched :: "kernel \<Rightarrow> kernel \<Rightarrow> bool" where
  "resched k k' \<longleftrightarrow>
     m_owner k' = m_owner k \<and> m_next k' = m_next k \<and> s_cnt k' = s_cnt k \<and> tref k' = tref k \<and>
     vtlist k' = vtlist k \<and> vt_systime k' = vt_systime k \<and>
     (\<forall>q. q \<noteq> Q_Ready \<longrightarrow> tqueue k' q = tqueue k q) \<and>
     (\<forall>t. thr k' t = thr k t \<or> runnable (tst k t) \<and> runnable (tst k' t) \<and>
        thr k' t = (thr k t)\<lparr>p_state := tst k' t\<rparr>)"

lemma resched_refl [simp]: "resched k k"
  by (simp add: resched_def)

lemma resched_trans: "resched k1 k2 \<Longrightarrow> resched k2 k3 \<Longrightarrow> resched k1 k3"
  unfolding resched_def
proof (elim conjE, intro conjI allI)
  fix t
  assume a: "\<forall>t. thr k2 t = thr k1 t \<or> runnable (tst k1 t) \<and> runnable (tst k2 t) \<and> thr k2 t = (thr k1 t)\<lparr>p_state := tst k2 t\<rparr>"
    "\<forall>t. thr k3 t = thr k2 t \<or> runnable (tst k2 t) \<and> runnable (tst k3 t) \<and> thr k3 t = (thr k2 t)\<lparr>p_state := tst k3 t\<rparr>"
  show "thr k3 t = thr k1 t \<or> runnable (tst k1 t) \<and> runnable (tst k3 t) \<and> thr k3 t = (thr k1 t)\<lparr>p_state := tst k3 t\<rparr>"
    using a(1)[rule_format, of t] a(2)[rule_format, of t]
    by (elim disjE conjE) (simp_all, (metis (no_types, lifting) ch_thread.update_convs(3) ch_thread.surjective)+)
qed simp_all

subsection \<open>A thread made ready\<close>

definition readied :: "nat \<Rightarrow> kernel \<Rightarrow> kernel" where
  "readied t k = set_queue Q_Ready (put_before (\<lambda>c. prio k t \<le> prio k c) t (tqueue k Q_Ready))
     (set_thr t (p_state_update (\<lambda>_. CH_STATE_READY)) k)"

lemma chSchReadyI_eq: "0 < prio k t \<Longrightarrow> chSchReadyI t k = Some (readied t k)"
  by (auto simp: chSchReadyI_def readied_def NOPRIO_def Let_def fun_upd_def intro!: arg_cong[of _ _ "\<lambda>ts. set_queue _ ts _"] put_before_cong)

lemma readied_simps [simp]:
  "thr (readied t k) = (thr k)(t := (thr k t)\<lparr>p_state := CH_STATE_READY\<rparr>)"
  "currp (readied t k) = currp k" "m_owner (readied t k) = m_owner k" "m_next (readied t k) = m_next k"
  "s_cnt (readied t k) = s_cnt k" "tref (readied t k) = tref k" "vtlist (readied t k) = vtlist k"
  "vt_systime (readied t k) = vt_systime k"
  "q \<noteq> Q_Ready \<Longrightarrow> tqueue (readied t k) q = tqueue k q"
  "set (tqueue (readied t k) Q_Ready) = insert t (set (tqueue k Q_Ready))"
  by (simp_all add: readied_def)

lemma queues_readied:
  assumes "queues_but (insert t X) k" and "0 < prio k t" and "t \<notin> X"
  shows "queues_but X (readied t k)"
  unfolding readied_def
proof (rule queues_insert)
  show "queues_but (insert t X) (set_thr t (p_state_update (\<lambda>_. CH_STATE_READY)) k)"
    using assms(1) by (rule queues_set_thr) simp
  have "ordered k (tqueue k Q_Ready)" "distinct (tqueue k Q_Ready)" "t \<notin> set (tqueue k Q_Ready)"
    using assms(1) by (auto simp: queues_but_def)
  then show "distinct (put_before (\<lambda>c. prio k t \<le> prio k c) t (tqueue k Q_Ready))"
    "ordered (set_thr t (p_state_update (\<lambda>_. CH_STATE_READY)) k)
       (put_before (\<lambda>c. prio k t \<le> prio k c) t (tqueue k Q_Ready))"
    by (auto intro: put_before_distinct put_before_ordered)
qed (use assms(2,3) in simp_all)

subsection \<open>The next thread\<close>

definition current_ok :: "kernel \<Rightarrow> bool" where
  "current_ok k \<longleftrightarrow> (\<forall>t. tst k t = CH_STATE_CURRENT \<longleftrightarrow> t = currp k)"

lemma sched_ok_iff: "sched_ok k \<longleftrightarrow> queues_ok k \<and> current_ok k \<and> (\<forall>t\<in>set (tqueue k Q_Ready). prio k t \<le> prio k (currp k))"
  by (simp add: sched_ok_def current_ok_def)

text \<open>A function to look at the state after a switch by its parts.\<close>

lemma run_next_ok:
  assumes "queues_ok k" and "tqueue k Q_Ready \<noteq> []" and "\<forall>t. tst k t \<noteq> CH_STATE_CURRENT"
  obtains n k' where "run_next k = Some k'" and "tqueue k Q_Ready = n # tqueue k' Q_Ready" and "currp k' = n"
    and "sched_ok k'" and "thr k' = (thr k)(n := (thr k n)\<lparr>p_state := CH_STATE_CURRENT\<rparr>)" and "tst k n = CH_STATE_READY"
    and "resched k k'"
proof -
  obtain n ts where ts: "tqueue k Q_Ready = n # ts" using assms(2) by (cases "tqueue k Q_Ready") auto
  define k1 where "k1 = set_queue Q_Ready ts k"
  define k' where "k' = set_thr n (p_state_update (\<lambda>_. CH_STATE_CURRENT)) (k1\<lparr>currp := n\<rparr>)"
  have r: "queue_fifo_remove Q_Ready k = Some (n, k1)" by (simp add: queue_fifo_remove_def ts k1_def)
  note q = queues_fifo_remove[OF assms(1) r]
  have st: "tst k n = CH_STATE_READY" using q by simp
  have pos: "0 < prio k n" using assms(1) st by (simp add: queues_but_def)
  have "queues_but {n} (k1\<lparr>currp := n\<rparr>)" using conjunct1[OF q] queues_cong[of "k1\<lparr>currp := n\<rparr>" k1] by simp
  then have "queues_but {n} k'" unfolding k'_def by (rule queues_set_thr) simp
  then have "queues_ok k'"
    by (rule queues_settled) (use pos in \<open>simp_all add: k'_def k1_def queued_state_def\<close>)
  moreover have "\<forall>t\<in>set (tqueue k' Q_Ready). prio k' t \<le> prio k' (currp k')"
    using assms(1) ts by (auto simp: queues_but_def k'_def k1_def dest!: spec[of _ Q_Ready])
  moreover have "current_ok k'" using assms(3) by (simp add: current_ok_def k'_def k1_def)
  moreover have "resched k k'" using st by (auto simp: resched_def runnable_def k'_def k1_def)
  ultimately show ?thesis
    by (intro that[of k' n]) (simp_all add: run_next_def r k'_def k1_def ts st sched_ok_iff)
qed

text \<open>Putting the current thread to sleep, once it is in the queue of what it waits for.\<close>

lemma go_sleep_ok:
  assumes "queues_ok (set_thr (currp k) (p_state_update (\<lambda>_. s)) k)" and "current_ok k" and "tqueue k Q_Ready \<noteq> []"
    and "s \<noteq> CH_STATE_CURRENT" and "s \<noteq> CH_STATE_READY"
  obtains k' where "chSchGoSleepS s k = Some k'" and "sched_ok k'" and "tst k (currp k') = CH_STATE_READY"
    and "tqueue k Q_Ready = currp k' # tqueue k' Q_Ready"
    and "resched (set_thr (currp k) (p_state_update (\<lambda>_. s)) k) k'"
proof -
  define k1 where "k1 = set_thr (currp k) (p_state_update (\<lambda>_. s)) k"
  have "\<forall>t. tst k1 t \<noteq> CH_STATE_CURRENT" using assms(2,4) by (simp add: k1_def current_ok_def)
  moreover have "tqueue k1 Q_Ready \<noteq> []" using assms(3) by (simp add: k1_def)
  ultimately obtain n k' where r: "run_next k1 = Some k'" "tqueue k1 Q_Ready = n # tqueue k' Q_Ready" "currp k' = n"
    "sched_ok k'" "tst k1 n = CH_STATE_READY" "resched k1 k'"
    using assms(1) run_next_ok[of k1] unfolding k1_def by metis
  then show ?thesis using that[of k'] assms(5) by (simp add: chSchGoSleepS_def k1_def split: if_splits)
qed

subsection \<open>Rescheduling\<close>

text \<open>The current thread put into the ready list behind the first one, which takes over.\<close>

lemma swap_ok:
  assumes "queues_ok k" and "current_ok k" and "tqueue k Q_Ready = n # ts" and "go n"
    and "\<And>c. go c \<Longrightarrow> prio k (currp k) \<le> prio k c" and "\<And>c. \<not> go c \<Longrightarrow> prio k c \<le> prio k (currp k)"
    and "k' = set_queue Q_Ready (put_before go (currp k) ts)
      (set_thr (currp k) (p_state_update (\<lambda>_. CH_STATE_READY)) (set_thr n (p_state_update (\<lambda>_. CH_STATE_CURRENT))
        (set_queue Q_Ready ts k\<lparr>currp := n\<rparr>)))"
    and "0 < prio k (currp k)"
  shows "sched_ok k' \<and> resched k k' \<and> currp k' = n"
proof -
  have c: "tst k (currp k) = CH_STATE_CURRENT" using assms(2) by (simp add: current_ok_def)
  have "n \<in> set (tqueue k Q_Ready)" using assms(3) by simp
  then have n: "tst k n = CH_STATE_READY" using queues_seated[OF assms(1)] by fastforce
  with c have ne: "n \<noteq> currp k" by auto
  define k1 where "k1 = set_queue Q_Ready (put_before go (currp k) (tqueue k Q_Ready))
      (set_thr (currp k) (p_state_update (\<lambda>_. CH_STATE_READY)) k)"
  have b: "queues_but {currp k} k" using assms(1) by (rule queues_add) (simp add: c queued_state_def)
  have "queues_ok k1"
    unfolding k1_def
  proof (rule queues_insert)
    show "queues_but {currp k} (set_thr (currp k) (p_state_update (\<lambda>_. CH_STATE_READY)) k)"
      using b by (rule queues_set_thr) simp
    have "ordered k (tqueue k Q_Ready)" "distinct (tqueue k Q_Ready)" "currp k \<notin> set (tqueue k Q_Ready)"
      using b by (auto simp: queues_but_def)
    then show "distinct (put_before go (currp k) (tqueue k Q_Ready))"
      "ordered (set_thr (currp k) (p_state_update (\<lambda>_. CH_STATE_READY)) k) (put_before go (currp k) (tqueue k Q_Ready))"
      using put_before_ordered[of k _ go, OF _ assms(5,6)] by (simp_all add: put_before_distinct)
  qed (use assms(8) in simp_all)
  moreover have "\<forall>t. tst k1 t \<noteq> CH_STATE_CURRENT" using assms(2) by (simp add: k1_def current_ok_def)
  moreover have q: "tqueue k1 Q_Ready = n # put_before go (currp k) ts" using assms(3,4) by (simp add: k1_def)
  ultimately obtain m k2 where r: "run_next k1 = Some k2" "tqueue k1 Q_Ready = m # tqueue k2 Q_Ready" "currp k2 = m"
      "sched_ok k2" "resched k1 k2"
    using run_next_ok[of k1] by (metis list.distinct(1))
  have "k2 = k'"
    using r(1) q ne assms(7) by (auto simp: run_next_def queue_fifo_remove_def k1_def set_thr_def set_queue_def fun_upd_twist)
  moreover have "resched k k1"
    using assms(2) by (auto simp: resched_def runnable_def k1_def current_ok_def)
  ultimately show ?thesis using r q resched_trans[of k k1 k2] by simp
qed

lemma sched_pos: "queues_ok k \<Longrightarrow> current_ok k \<Longrightarrow> 0 < prio k (currp k)"
  unfolding queues_but_def current_ok_def by (metis empty_iff tstate.distinct(57))

lemma reschedule_ok:
  assumes "queues_ok k" and "current_ok k"
  obtains k' where "chSchRescheduleS k = Some k'" and "sched_ok k'" and "resched k k'"
proof (cases "chSchIsRescRequiredI k")
  case True
  then obtain n ts where ts: "tqueue k Q_Ready = n # ts" "prio k (currp k) < prio k n"
    by (auto simp: chSchIsRescRequiredI_def firstprio_def NOPRIO_def split: list.splits)
  define k1 where "k1 = set_thr n (p_state_update (\<lambda>_. CH_STATE_CURRENT)) (set_queue Q_Ready ts k\<lparr>currp := n\<rparr>)"
  define k' where "k' = set_queue Q_Ready (put_before (\<lambda>c. prio k (currp k) < prio k c) (currp k) ts)
      (set_thr (currp k) (p_state_update (\<lambda>_. CH_STATE_READY)) k1)"
  have "sched_ok k' \<and> resched k k' \<and> currp k' = n"
    using swap_ok[OF assms ts(1), of "\<lambda>c. prio k (currp k) < prio k c"] ts(2) sched_pos[OF assms]
    by (simp add: k'_def k1_def)
  moreover have "chSchRescheduleS k = Some k'"
    using True ts
    by (auto simp: chSchRescheduleS_def chSchDoRescheduleAhead_def run_next_def queue_fifo_remove_def Let_def k'_def k1_def
        intro!: arg_cong[of _ _ "\<lambda>ts. set_queue _ ts _"] put_before_cong)
  ultimately show ?thesis using that by blast
next
  case False
  have "ordered k (tqueue k Q_Ready)" using assms(1) by (simp add: queues_but_def)
  then have "\<forall>t\<in>set (tqueue k Q_Ready). prio k t \<le> prio k (currp k)"
    using False by (cases "tqueue k Q_Ready") (auto simp: chSchIsRescRequiredI_def firstprio_def)
  then show ?thesis using that[of k] False assms by (simp add: chSchRescheduleS_def sched_ok_iff)
qed

lemma yield_ok:
  assumes "sched_ok k"
  obtains k' where "chSchDoYieldS k = Some k'" and "sched_ok k'" and "resched k k'"
proof (cases "prio k (currp k) \<le> firstprio k")
  case True
  have ok: "queues_ok k" "current_ok k" using assms by (simp_all add: sched_ok_iff)
  note pos = sched_pos[OF ok]
  then obtain n ts where ts: "tqueue k Q_Ready = n # ts" "prio k (currp k) \<le> prio k n"
    using True by (auto simp: firstprio_def NOPRIO_def split: list.splits)
  define k1 where "k1 = set_thr n (p_state_update (\<lambda>_. CH_STATE_CURRENT)) (set_queue Q_Ready ts k\<lparr>currp := n\<rparr>)"
  define k' where "k' = set_queue Q_Ready (put_before (\<lambda>c. prio k (currp k) \<le> prio k c) (currp k) ts)
      (set_thr (currp k) (p_state_update (\<lambda>_. CH_STATE_READY)) k1)"
  have "sched_ok k' \<and> resched k k' \<and> currp k' = n"
    using swap_ok[OF ok ts(1), of "\<lambda>c. prio k (currp k) \<le> prio k c"] ts(2) pos
    by (simp add: k'_def k1_def)
  moreover have "chSchDoYieldS k = Some k'"
    using True ts pos
    by (auto simp: chSchDoYieldS_def chSchDoRescheduleBehind_def run_next_def queue_fifo_remove_def Let_def k'_def k1_def
        chSchReadyI_def NOPRIO_def intro!: arg_cong[of _ _ "\<lambda>ts. set_queue _ ts _"] put_before_cong)
  ultimately show ?thesis using that by blast
next
  case False
  then show ?thesis using that[of k] assms by (simp add: chSchDoYieldS_def)
qed

text \<open>A thread that is in no queue, woken: it runs at once if its priority is higher.\<close>

lemma wakeup_ok:
  assumes "sched_ok k" and "queues_but {t} k" and "t \<noteq> currp k" and "0 < prio k t"
  obtains k' where "chSchWakeupS t msg k = Some k'" and "sched_ok k'"
    and "resched (set_thr t (\<lambda>th. th\<lparr>p_state := CH_STATE_READY, p_u := U_Msg msg\<rparr>) k) k'"
proof -
  define k1 where "k1 = set_thr t (p_u_update (\<lambda>_. U_Msg msg)) k"
  have b: "queues_but {t} k1" unfolding k1_def using assms(2) by (rule queues_set_thr) simp
  have c: "current_ok k1" "tst k1 (currp k) = CH_STATE_CURRENT" "currp k1 = currp k"
    using assms(1,3) by (auto simp: k1_def current_ok_def sched_ok_iff)
  show ?thesis
  proof (cases "prio k t \<le> prio k (currp k)")
    case True
    have "sched_ok (readied t k1)"
      using queues_readied[OF b] assms(1,3,4) True c
      by (auto simp: sched_ok_iff current_ok_def k1_def)
    moreover have "chSchWakeupS t msg k = Some (readied t k1)"
      using True assms(4) chSchReadyI_eq[of k1 t] by (simp add: chSchWakeupS_def k1_def Let_def)
    moreover have "resched (set_thr t (\<lambda>th. th\<lparr>p_state := CH_STATE_READY, p_u := U_Msg msg\<rparr>) k) (readied t k1)"
      by (simp add: resched_def k1_def)
    ultimately show ?thesis by (intro that[of "readied t k1"])
  next
    case False
    define k2 where "k2 = readied (currp k) k1"
    define k' where "k' = set_thr t (p_state_update (\<lambda>_. CH_STATE_CURRENT)) (k2\<lparr>currp := t\<rparr>)"
    have pc: "0 < prio k (currp k)" using sched_pos assms(1) by (simp add: sched_ok_iff)
    have "queues_but {currp k, t} k1" using queues_add[OF b, of "currp k"] c(2) by (simp add: queued_state_def)
    then have "queues_but {t} k2"
      unfolding k2_def using pc assms(3) by (intro queues_readied) (simp_all add: k1_def)
    then have "queues_but {t} k'"
      unfolding k'_def using queues_cong[of "k2\<lparr>currp := t\<rparr>" k2] by (intro queues_set_thr) simp_all
    then have "queues_ok k'"
      by (rule queues_settled) (use assms(4) in \<open>auto simp: k'_def k2_def k1_def queued_state_def\<close>)
    moreover have "\<forall>u\<in>set (tqueue k' Q_Ready). prio k' u \<le> prio k' (currp k')"
      using assms(1) False by (auto simp: k'_def k2_def k1_def sched_ok_iff)
    moreover have "tst k u = CH_STATE_CURRENT \<longleftrightarrow> u = currp k" for u
      using assms(1) by (simp add: sched_ok_iff current_ok_def)
    then have "current_ok k'" using assms(3) by (simp add: k'_def k2_def k1_def current_ok_def)
    ultimately have "sched_ok k'" by (simp add: sched_ok_iff)
    moreover have "resched (set_thr t (\<lambda>th. th\<lparr>p_state := CH_STATE_READY, p_u := U_Msg msg\<rparr>) k) k'"
      using c assms(3) by (auto simp: resched_def k'_def k2_def k1_def runnable_def)
    moreover have "chSchWakeupS t msg k = Some k'"
      using False pc chSchReadyI_eq[of k1 "currp k"] assms(3) by (simp add: chSchWakeupS_def k1_def k'_def k2_def Let_def)
    ultimately show ?thesis using that by blast
  qed
qed

end
