(* ===== verification/Ch_Mutex.thy ===== *)
theory Ch_Mutex
  imports Ch_Switch
begin

text \<open>
  The kernel's mutexes (chmtx.c) in the firmware's configuration, without recursion, and
  their protocol of inherited priorities: a thread that waits for a mutex lends its
  priority to the owner, to the owner of what that one waits for, and so on.
\<close>

text \<open>The owner's list of mutexes starts with the new one.\<close>

definition give_mutex :: "nat \<Rightarrow> nat \<Rightarrow> kernel \<Rightarrow> kernel" where
  "give_mutex m t k =
     set_thr t (p_mtxlist_update (\<lambda>_. Some m))
       (k\<lparr>m_owner := (m_owner k)(m := Some t), m_next := (m_next k)(m := p_mtxlist (thr k t))\<rparr>)"

definition chMtxObjectInit :: "nat \<Rightarrow> kernel \<Rightarrow> kernel" where
  "chMtxObjectInit m k = (set_queue (Q_Mutex m) [] k)\<lparr>m_owner := (m_owner k)(m := None)\<rparr>"

text \<open>The queue of the object a thread waits for.\<close>

definition wait_queue :: "ch_thread \<Rightarrow> qid option" where
  "wait_queue th = (case p_u th of U_Mutex m \<Rightarrow> Some (Q_Mutex m) | U_Cond c \<Rightarrow> Some (Q_Cond c) | _ \<Rightarrow> None)"

text \<open>
  One round of the loop that hands the current thread's priority on: the thread to look at,
  if the loop goes on.
\<close>

definition boost_body :: "nat option \<times> kernel \<Rightarrow> (nat option \<times> kernel) option" where
  "boost_body = (\<lambda>(p, k). Option.bind p (\<lambda>tp.
     let k1 = set_thr tp (p_prio_update (\<lambda>_. prio k (currp k))) k;
         k2 = queue_dequeue tp k1
     in case tst k1 tp of
          CH_STATE_WTMTX \<Rightarrow>
            (case p_u (thr k1 tp) of
               U_Mutex m \<Rightarrow>
                 map_option (\<lambda>tp'. (Some tp', queue_prio_insert tp (Q_Mutex m) k2)) (m_owner k2 m)
             | _ \<Rightarrow> None)
        | CH_STATE_WTCOND \<Rightarrow>
            map_option (\<lambda>q. (None, queue_prio_insert tp q k2)) (wait_queue (thr k1 tp))
        | CH_STATE_READY \<Rightarrow> map_option (Pair None) (chSchReadyI tp k2)
        | _ \<Rightarrow> Some (None, k1)))"

definition boost_goes_on :: "nat option \<times> kernel \<Rightarrow> bool" where
  "boost_goes_on = (\<lambda>(p, k). case p of None \<Rightarrow> False | Some tp \<Rightarrow> prio k tp < prio k (currp k))"

definition boost :: "nat \<Rightarrow> kernel \<Rightarrow> kernel option" where
  "boost tp k = map_option snd (loop_while boost_goes_on boost_body (Some tp, k))"

definition chMtxLockS :: "nat \<Rightarrow> kernel \<Rightarrow> kernel option" where
  "chMtxLockS m k =
     (let ctp = currp k in
      case m_owner k m of
        None \<Rightarrow> Some (give_mutex m ctp k)
      | Some tp \<Rightarrow>
          Option.bind (boost tp k) (\<lambda>k1.
            chSchGoSleepS CH_STATE_WTMTX
              (set_thr ctp (p_u_update (\<lambda>_. U_Mutex m)) (queue_prio_insert ctp (Q_Mutex m) k1))))"

definition chMtxTryLockS :: "nat \<Rightarrow> kernel \<Rightarrow> bool \<times> kernel" where
  "chMtxTryLockS m k = (if m_owner k m \<noteq> None then (False, k) else (True, give_mutex m (currp k) k))"

text \<open>The priority of the first waiting thread of a mutex, if it is higher.\<close>

definition raised_by :: "kernel \<Rightarrow> nat \<Rightarrow> u32 \<Rightarrow> u32" where
  "raised_by k m newprio =
     (case tqueue k (Q_Mutex m) of [] \<Rightarrow> newprio
      | w # _ \<Rightarrow> if newprio < prio k w then prio k w else newprio)"

definition scan_owned :: "kernel \<Rightarrow> u32 \<Rightarrow> nat option \<Rightarrow> u32 option" where
  "scan_owned k newprio lmp =
     map_option fst (loop_while (\<lambda>(_, lmp). lmp \<noteq> None)
       (\<lambda>(v, lmp). map_option (\<lambda>m. (raised_by k m v, m_next k m)) lmp) (newprio, lmp))"

text \<open>The first waiting thread becomes the owner and is made ready.\<close>

definition hand_over :: "nat \<Rightarrow> kernel \<Rightarrow> kernel option" where
  "hand_over m k =
     Option.bind (queue_fifo_remove (Q_Mutex m) k) (\<lambda>(tp, k1). chSchReadyI tp (give_mutex m tp k1))"

definition chMtxUnlockS :: "nat \<Rightarrow> kernel \<Rightarrow> kernel option" where
  "chMtxUnlockS m k =
     (let ctp = currp k; k1 = set_thr ctp (p_mtxlist_update (\<lambda>_. m_next k m)) k in
      if queue_notempty (Q_Mutex m) k1 then
        Option.bind (scan_owned k1 (p_realprio (thr k1 ctp)) (p_mtxlist (thr k1 ctp))) (\<lambda>newprio.
          hand_over m (set_thr ctp (p_prio_update (\<lambda>_. newprio)) k1))
      else Some (k1\<lparr>m_owner := (m_owner k1)(m := None)\<rparr>))"

definition chMtxUnlock :: "nat \<Rightarrow> kernel \<Rightarrow> kernel option" where
  "chMtxUnlock m k =
     (if queue_notempty (Q_Mutex m) k then Option.bind (chMtxUnlockS m k) chSchRescheduleS
      else chMtxUnlockS m k)"

definition unlock_first :: "kernel \<Rightarrow> kernel option" where
  "unlock_first k =
     Option.bind (p_mtxlist (thr k (currp k))) (\<lambda>m.
       let k1 = set_thr (currp k) (p_mtxlist_update (\<lambda>_. m_next k m)) k
       in if queue_notempty (Q_Mutex m) k1 then hand_over m k1
          else Some (k1\<lparr>m_owner := (m_owner k1)(m := None)\<rparr>))"

definition chMtxUnlockAll :: "kernel \<Rightarrow> kernel option" where
  "chMtxUnlockAll k =
     (if p_mtxlist (thr k (currp k)) = None then Some k
      else Option.bind (loop_while (\<lambda>k. p_mtxlist (thr k (currp k)) \<noteq> None) unlock_first k) (\<lambda>k1.
        chSchRescheduleS (set_thr (currp k1) (\<lambda>th. th\<lparr>p_prio := p_realprio th\<rparr>) k1)))"

subsection \<open>Inherited priorities\<close>

text \<open>
  A priority fits if it is the thread's own one or that of a thread it blocks, whichever is
  the highest.
\<close>

definition balanced :: "(nat \<Rightarrow> u32) \<Rightarrow> (nat \<Rightarrow> u32) \<Rightarrow> (nat \<Rightarrow> nat option) \<Rightarrow> nat \<Rightarrow> u32 \<Rightarrow> bool" where
  "balanced pr rl bl t v \<longleftrightarrow>
     rl t \<le> v \<and> (\<forall>w. bl w = Some t \<longrightarrow> pr w \<le> v) \<and> (v = rl t \<or> (\<exists>w. bl w = Some t \<and> pr w = v))"

lemma balanced_raise:
  assumes "pr t < p" and "\<forall>u. u \<noteq> t \<longrightarrow> balanced pr rl bl u (pr u)" and "balanced pr rl bl t p"
  shows "bl t = Some b \<Longrightarrow> u \<noteq> b \<Longrightarrow> balanced (pr(t := p)) rl bl u ((pr(t := p)) u)"
    and "bl t = Some b \<Longrightarrow> balanced (pr(t := p)) rl bl b (max ((pr(t := p)) b) p)"
    and "bl t = None \<Longrightarrow> balanced (pr(t := p)) rl bl u ((pr(t := p)) u)"
proof -
  have e: "balanced (pr(t := p)) rl bl u v = balanced pr rl bl u v" if "bl t \<noteq> Some u" for u v
    using that by (auto simp: balanced_def)
  show "balanced (pr(t := p)) rl bl u ((pr(t := p)) u)" if "bl t = Some b" "u \<noteq> b"
    using e[of u] that assms(2) assms(3) by (cases "u = t") auto
  show "balanced (pr(t := p)) rl bl u ((pr(t := p)) u)" if "bl t = None"
    using e[of u] that assms(2) assms(3) by (cases "u = t") auto
  show "balanced (pr(t := p)) rl bl b (max ((pr(t := p)) b) p)" if bl: "bl t = Some b"
  proof (cases "b = t")
    case True
    then show ?thesis using assms(1,3) unfolding balanced_def by (auto simp: less_imp_le) 
  next
    case False
    have b: "balanced pr rl bl b (pr b)" using assms(2) False by simp
    show ?thesis
    proof (cases "pr b \<le> p")
      case True
      have "rl b \<le> p" "\<forall>w. bl w = Some b \<longrightarrow> pr w \<le> p" using b True unfolding balanced_def by (auto intro: order_trans)
      then show ?thesis using False True bl unfolding balanced_def by auto
    next
      case False': False
      then have "w \<noteq> t" if "pr w = pr b" for w using that assms(1) by auto
      then show ?thesis using False False' assms(1) b unfolding balanced_def by (auto simp: max_def) 
    qed
  qed
qed

end
