(* ===== verification/Ch_Inherit.thy ===== *)
theory Ch_Inherit
  imports Ch_Mutex
begin

text \<open>
  The loop that hands a priority on: it ends, also when threads wait for each other in a
  circle, it keeps the order of the queues, and after it each thread has the highest priority
  of those it blocks, with the thread that is about to wait taken into account.
\<close>

lemma loop_while_measure:
  fixes m :: "'s \<Rightarrow> nat"
  assumes "\<And>s. I s \<Longrightarrow> c s \<Longrightarrow> \<exists>s'. f s = Some s' \<and> I s' \<and> (c s' \<longrightarrow> m s' < m s)" and "I s"
  shows "\<exists>s'. loop_while c f s = Some s' \<and> I s' \<and> \<not> c s'"
  using assms(2)
proof (induction "m s" arbitrary: s rule: less_induct)
  case less
  show ?case
  proof (cases "c s")
    case True
    obtain s' where s': "f s = Some s'" "I s'" "c s' \<longrightarrow> m s' < m s" using assms(1)[OF less.prems True] by blast
    show ?thesis
    proof (cases "c s'")
      case True': True
      then obtain s2 where "loop_while c f s' = Some s2" "I s2" "\<not> c s2" using less.hyps[of s'] s' by blast
      then show ?thesis using True s'(1) by (subst loop_while.simps) auto
    next
      case False
      then show ?thesis using True s' by (intro exI[of _ s']) (subst loop_while.simps, simp add: loop_while.simps[of c f s'])
    qed
  next
    case False
    then show ?thesis using less.prems by (intro exI[of _ s]) (simp add: loop_while.simps)
  qed
qed

subsection \<open>Who blocks whom\<close>

definition blocker :: "kernel \<Rightarrow> nat \<Rightarrow> nat option" where
  "blocker k w =
     (if tst k w = CH_STATE_WTMTX
      then (case p_u (thr k w) of U_Mutex m \<Rightarrow> m_owner k m | _ \<Rightarrow> None) else None)"

abbreviation rprio :: "kernel \<Rightarrow> nat \<Rightarrow> u32" where "rprio k t \<equiv> p_realprio (thr k t)"

text \<open>A change of priorities and of the places in the queues that go with them.\<close>

definition boosted :: "kernel \<Rightarrow> kernel \<Rightarrow> bool" where
  "boosted k k' \<longleftrightarrow>
     currp k' = currp k \<and> m_owner k' = m_owner k \<and> m_next k' = m_next k \<and> s_cnt k' = s_cnt k \<and> tref k' = tref k \<and>
     vtlist k' = vtlist k \<and> vt_systime k' = vt_systime k \<and>
     (\<forall>t. thr k' t = (thr k t)\<lparr>p_prio := prio k' t\<rparr>) \<and> (\<forall>q. set (tqueue k' q) = set (tqueue k q)) \<and>
     (\<forall>t. prio k t \<le> prio k' t) \<and> prio k' (currp k) = prio k (currp k)"

lemma boosted_refl [simp]: "boosted k k"
  by (simp add: boosted_def)

lemma boosted_trans:
  assumes "boosted k1 k2" and "boosted k2 k3"
  shows "boosted k1 k3"
proof -
  have "thr k3 t = (thr k1 t)\<lparr>p_prio := prio k3 t\<rparr>" for t
    using assms unfolding boosted_def by (metis (no_types, lifting) ch_thread.update_convs(1) ch_thread.surjective)
  moreover have "prio k1 t \<le> prio k3 t" for t using assms unfolding boosted_def by (meson order_trans)
  ultimately show ?thesis using assms by (simp add: boosted_def)
qed

lemma boosted_same:
  assumes "boosted k k'"
  shows "tst k' t = tst k t" and "p_u (thr k' t) = p_u (thr k t)" and "rprio k' t = rprio k t"
    and "p_mtxlist (thr k' t) = p_mtxlist (thr k t)" and "p_epending (thr k' t) = p_epending (thr k t)"
    and "blocker k' t = blocker k t"
proof -
  have e: "thr k' t = (thr k t)\<lparr>p_prio := prio k' t\<rparr>" using assms by (simp add: boosted_def)
  show "tst k' t = tst k t" "p_u (thr k' t) = p_u (thr k t)" "rprio k' t = rprio k t"
    "p_mtxlist (thr k' t) = p_mtxlist (thr k t)" "p_epending (thr k' t) = p_epending (thr k t)"
    by (subst e, simp)+
  moreover have "m_owner k' = m_owner k" using assms by (simp add: boosted_def)
  ultimately show "blocker k' t = blocker k t" by (simp add: blocker_def cong: state_data.case_cong)
qed

subsection \<open>One round\<close>

lemma boosted_insert:
  assumes "queues_ok k" and "t \<in> set (tqueue k q)" and "prio k t < p" and "t \<noteq> currp k" and "by_prio q"
    and "k' = set_queue q (put_before (\<lambda>c. p \<le> prio k c) t (remove1 t (tqueue k q)))
      (queue_dequeue t (set_thr t (p_prio_update (\<lambda>_. p)) k))"
  shows "queues_ok k' \<and> boosted k k'"
proof -
  define k1 where "k1 = queue_dequeue t (set_thr t (p_prio_update (\<lambda>_. p)) k)"
  have "k1 = set_thr t (p_prio_update (\<lambda>_. p)) (queue_dequeue t k)" by (simp add: k1_def queue_dequeue_def set_thr_def)
  then have b: "queues_but {t} k1" using queues_set_thr[OF queues_dequeue[OF assms(1), of t]] by simp
  have d: "distinct (tqueue k q)" "t \<notin> set (remove1 t (tqueue k q))" "ordered k1 (tqueue k1 q)"
    using assms(1,5) b by (auto simp: queues_but_def)
  have e: "put_before (\<lambda>c. p \<le> prio k c) t (remove1 t (tqueue k q)) = put_before (\<lambda>c. prio k1 t \<le> prio k1 c) t (tqueue k1 q)"
    using d(2) by (auto simp: k1_def intro!: put_before_cong)
  have "queues_ok k'"
    unfolding assms(6) k1_def[symmetric]
  proof (rule queues_insert[OF b])
    show "seated q (thr k1 t)"
      using queues_seated[OF assms(1,2)] assms(5) by (cases q) (auto simp: k1_def)
    show "0 < prio k1 t" using assms(3) by (simp add: k1_def) (metis word_gt_0 word_not_simps(1))
    show "set (put_before (\<lambda>c. p \<le> prio k c) t (remove1 t (tqueue k q))) = insert t (set (tqueue k1 q))" by (simp add: k1_def)
    show "distinct (put_before (\<lambda>c. p \<le> prio k c) t (remove1 t (tqueue k q)))" using d(1,2) by (simp add: put_before_distinct)
    show "ordered k1 (put_before (\<lambda>c. p \<le> prio k c) t (remove1 t (tqueue k q)))"
      unfolding e using d(3) by (rule put_before_ordered) auto
  qed simp
  moreover have "set (tqueue k' r) = set (tqueue k r)" for r
  proof (cases "r = q")
    case False
    then have "t \<notin> set (tqueue k r)" using assms(1,2) unfolding queues_but_def by blast
    then show ?thesis using False by (simp add: assms(6) remove1_idem)
  next
    case True
    then show ?thesis using assms(2) d(1) by (auto simp: assms(6))
  qed
  ultimately show ?thesis using assms(3,4) by (auto simp: boosted_def assms(6))
qed

lemma boosted_prio:
  assumes "queues_ok k" and "\<And>q. by_prio q \<Longrightarrow> t \<notin> set (tqueue k q)" and "prio k t < p" and "t \<noteq> currp k"
  shows "queues_ok (set_thr t (p_prio_update (\<lambda>_. p)) k) \<and> boosted k (set_thr t (p_prio_update (\<lambda>_. p)) k)"
proof -
  define k1 where "k1 = set_thr t (p_prio_update (\<lambda>_. p)) k"
  have f: "tst k1 u = tst k u" "prio k1 u = (if u = t then p else prio k u)" "tqueue k1 = tqueue k" for u
    by (simp_all add: k1_def)
  have s: "seated q (thr k1 u) = seated q (thr k u)" for q u by (cases q) (simp_all add: k1_def)
  have o: "ordered k1 (tqueue k q) = ordered k (tqueue k q)" if "by_prio q" for q
    by (rule ordered_cong) (use assms(2)[OF that] in \<open>auto simp: k1_def\<close>)
  have "0 < p" using assms(3) by (metis word_gt_0 word_not_simps(1))
  then have "queues_ok k1" using assms(1) o unfolding queues_but_def f s by simp
  moreover have "boosted k k1" using assms(3,4) by (auto simp: boosted_def k1_def)
  ultimately show ?thesis by (simp add: k1_def)
qed

subsection \<open>The loop\<close>

definition boost_inv :: "kernel \<Rightarrow> (nat \<Rightarrow> nat option) \<Rightarrow> nat option \<times> kernel \<Rightarrow> bool" where
  "boost_inv k bl = (\<lambda>(p, k').
     queues_ok k' \<and> boosted k k' \<and>
     (\<forall>u. p \<noteq> Some u \<longrightarrow> balanced (prio k') (rprio k) bl u (prio k' u)) \<and>
     (\<forall>u. p = Some u \<longrightarrow> balanced (prio k') (rprio k) bl u (max (prio k' u) (prio k (currp k)))))"

lemma boost_round:
  assumes inv: "boost_inv k bl s" and go: "boost_goes_on s" and bl: "\<And>w. w \<noteq> currp k \<Longrightarrow> bl w = blocker k w"
    and own: "\<And>m. m_owner k m = None \<Longrightarrow> tqueue k (Q_Mutex m) = []"
    and fin: "finite {t. tst k t = CH_STATE_WTMTX}"
  shows "\<exists>s'. boost_body s = Some s' \<and> boost_inv k bl s' \<and>
    (boost_goes_on s' \<longrightarrow>
      card {t. tst k t = CH_STATE_WTMTX \<and> prio (snd s') t < prio k (currp k)}
      < card {t. tst k t = CH_STATE_WTMTX \<and> prio (snd s) t < prio k (currp k)})"
proof -
  obtain t k1 where s: "s = (Some t, k1)" using go by (cases s) (auto simp: boost_goes_on_def split: option.splits)
  let ?p = "prio k (currp k)"
  have q1: "queues_ok k1" and b1: "boosted k k1" using inv by (simp_all add: s boost_inv_def)
  note same = boosted_same[OF b1]
  have c: "currp k1 = currp k" "prio k1 (currp k) = ?p" using b1 by (simp_all add: boosted_def)
  have lt: "prio k1 t < ?p" using go c by (simp add: s boost_goes_on_def)
  then have ne: "t \<noteq> currp k1" using c by auto
  define pr where "pr = (prio k1)(t := ?p)"
  have others: "\<forall>u. u \<noteq> t \<longrightarrow> balanced (prio k1) (rprio k) bl u (prio k1 u)"
    using inv by (auto simp: s boost_inv_def)
  have this: "balanced (prio k1) (rprio k) bl t ?p"
    using inv lt by (simp add: s boost_inv_def max_absorb2 less_imp_le)
  note raise = balanced_raise[of "prio k1", OF lt others this, folded pr_def]
  have done_: "\<exists>s'. boost_body s = Some s' \<and> boost_inv k bl s' \<and>
      (boost_goes_on s' \<longrightarrow> card {t. tst k t = CH_STATE_WTMTX \<and> prio (snd s') t < ?p}
        < card {t. tst k t = CH_STATE_WTMTX \<and> prio (snd s) t < ?p})"
    if "boost_body s = Some (None, k2)" "queues_ok k2 \<and> boosted k1 k2" "\<forall>u. prio k2 u = pr u" "bl t = None" for k2
    using that boosted_trans[OF b1] raise(3)[OF that(4)]
    by (intro exI[of _ "(None, k2)"]) (simp add: boost_inv_def boost_goes_on_def)
  have blt: "bl t = blocker k t" using bl ne c by simp
  have in_queue: "\<exists>q. t \<in> set (tqueue k1 q)" if "queued_state (tst k1 t)"
    using q1 that by (simp add: queues_but_def)
  have seat: "seated q (thr k1 t)" if "t \<in> set (tqueue k1 q)" for q using queues_seated[OF q1 that] .
  show ?thesis
  proof (cases "tst k1 t = CH_STATE_WTMTX")
    case True
    then obtain q where q: "t \<in> set (tqueue k1 q)" using in_queue by (auto simp: queued_state_def)
    then obtain m where m: "q = Q_Mutex m" "p_u (thr k1 t) = U_Mutex m" using seat[OF q] True by (cases q) auto
    have "m_owner k1 m \<noteq> None" using own[of m] b1 q m(1) by (fastforce simp: boosted_def)
    then obtain b where b: "m_owner k1 m = Some b" by blast
    then have bt: "bl t = Some b" using blt True m(2) same b1 by (simp add: blocker_def boosted_def)
    define k2 where "k2 = set_queue q (put_before (\<lambda>c. ?p \<le> prio k1 c) t (remove1 t (tqueue k1 q)))
      (queue_dequeue t (set_thr t (p_prio_update (\<lambda>_. ?p)) k1))"
    have ok: "queues_ok k2 \<and> boosted k1 k2"
      using boosted_insert[OF q1 q lt ne] m(1) k2_def by simp
    have pr2: "\<forall>u. prio k2 u = pr u" by (simp add: k2_def pr_def)
    have nt: "t \<notin> set (remove1 t (tqueue k1 q))" using q1 by (simp add: queues_but_def)
    have "queue_prio_insert t q (queue_dequeue t (set_thr t (p_prio_update (\<lambda>_. ?p)) k1)) = k2"
      unfolding queue_prio_insert_def k2_def using nt by (auto intro!: arg_cong[of _ _ "\<lambda>ts. set_queue _ ts _"] put_before_cong)
    then have body: "boost_body s = Some (Some b, k2)"
      using True m b c by (simp add: boost_body_def s Let_def)
    have inv2: "boost_inv k bl (Some b, k2)"
      using ok boosted_trans[OF b1] raise(1,2)[OF bt] pr2 by (simp add: boost_inv_def)
    have "card {u. tst k u = CH_STATE_WTMTX \<and> pr u < ?p} < card {u. tst k u = CH_STATE_WTMTX \<and> prio k1 u < ?p}"
      by (intro psubset_card_mono finite_subset[OF _ fin])
        (use True lt same(1) in \<open>auto simp: pr_def psubset_eq split: if_splits\<close>)
    then show ?thesis using body inv2 pr2 by (intro exI[of _ "(Some b, k2)"]) (simp add: s)
  next
    case False
    then have bt: "bl t = None" using blt same(1) by (simp add: blocker_def)
    show ?thesis
    proof (cases "tst k1 t = CH_STATE_READY \<or> tst k1 t = CH_STATE_WTCOND")
      case True
      then obtain q where q: "t \<in> set (tqueue k1 q)" using in_queue by (auto simp: queued_state_def)
      have bp: "by_prio q" using seat[OF q] True False by (cases q) auto
      define k2 where "k2 = set_queue q (put_before (\<lambda>c. ?p \<le> prio k1 c) t (remove1 t (tqueue k1 q)))
        (queue_dequeue t (set_thr t (p_prio_update (\<lambda>_. ?p)) k1))"
      have ok: "queues_ok k2 \<and> boosted k1 k2" using boosted_insert[OF q1 q lt ne bp k2_def] .
      have pr2: "\<forall>u. prio k2 u = pr u" by (simp add: k2_def pr_def)
      have nt: "t \<notin> set (remove1 t (tqueue k1 q))" using q1 by (simp add: queues_but_def)
      have ins: "queue_prio_insert t q (queue_dequeue t (set_thr t (p_prio_update (\<lambda>_. ?p)) k1)) = k2"
        unfolding queue_prio_insert_def k2_def using nt by (auto intro!: arg_cong[of _ _ "\<lambda>ts. set_queue _ ts _"] put_before_cong)
      have "boost_body s = Some (None, k2)"
      proof (cases "tst k1 t = CH_STATE_READY")
        case True
        have "q = Q_Ready" using seat[OF q] True by (cases q) auto
        moreover have "0 < ?p" using lt by (metis word_gt_0 word_not_simps(1))
        moreover have "(thr k1)(t := (thr k1 t)\<lparr>p_prio := ?p, p_state := CH_STATE_READY\<rparr>) = (thr k1)(t := (thr k1 t)\<lparr>p_prio := ?p\<rparr>)"
          using True by (simp add: fun_eq_iff)
        ultimately show ?thesis
          using True ins c by (auto simp: boost_body_def s chSchReadyI_def NOPRIO_def queue_prio_insert_def set_thr_def set_queue_def queue_dequeue_def Let_def)
      next
        case False
        then show ?thesis using \<open>tst k1 t = _ \<or> _\<close> seat[OF q] ins c by (cases q) (auto simp: boost_body_def s Let_def wait_queue_def)
      qed
      then show ?thesis using done_ ok pr2 bt by blast
    next
      case False': False
      define k2 where "k2 = set_thr t (p_prio_update (\<lambda>_. ?p)) k1"
      have "t \<notin> set (tqueue k1 q)" if "by_prio q" for q using seat[of q] False False' that by (cases q) auto
      then have "queues_ok k2 \<and> boosted k1 k2" using boosted_prio[OF q1 _ lt ne] by (simp add: k2_def)
      moreover have "\<forall>u. prio k2 u = pr u" by (simp add: k2_def pr_def)
      moreover have "boost_body s = Some (None, k2)"
        using False False' c by (cases "tst k1 t") (simp_all add: boost_body_def s Let_def k2_def)
      ultimately show ?thesis using done_ bt by blast
    qed
  qed
qed

lemma boost_ends:
  assumes "queues_ok k" and "\<And>w. w \<noteq> currp k \<Longrightarrow> bl w = blocker k w"
    and "\<And>m. m_owner k m = None \<Longrightarrow> tqueue k (Q_Mutex m) = []" and "finite {t. tst k t = CH_STATE_WTMTX}"
    and "\<And>u. u \<noteq> t \<Longrightarrow> balanced (prio k) (rprio k) bl u (prio k u)"
    and "balanced (prio k) (rprio k) bl t (max (prio k t) (prio k (currp k)))"
  obtains k' where "boost t k = Some k'" and "queues_ok k'" and "boosted k k'"
    and "\<And>u. balanced (prio k') (rprio k) bl u (prio k' u)"
proof -
  have i: "boost_inv k bl (Some t, k)" using assms(1,5,6) by (simp add: boost_inv_def)
  have "\<exists>s'. loop_while boost_goes_on boost_body (Some t, k) = Some s' \<and> boost_inv k bl s' \<and> \<not> boost_goes_on s'"
  proof (rule loop_while_measure[where I = "boost_inv k bl"])
    fix s assume "boost_inv k bl s" "boost_goes_on s"
    from boost_round[OF this assms(2-4)]
    show "\<exists>s'. boost_body s = Some s' \<and> boost_inv k bl s' \<and> (boost_goes_on s' \<longrightarrow>
      card {t. tst k t = CH_STATE_WTMTX \<and> prio (snd s') t < prio k (currp k)}
      < card {t. tst k t = CH_STATE_WTMTX \<and> prio (snd s) t < prio k (currp k)})" .
  qed (rule i)
  then obtain p k' where l: "loop_while boost_goes_on boost_body (Some t, k) = Some (p, k')" "boost_inv k bl (p, k')"
    "\<not> boost_goes_on (p, k')" by (metis surj_pair)
  have b: "currp k' = currp k" "prio k' (currp k) = prio k (currp k)" using l(2) by (simp_all add: boost_inv_def boosted_def)
  have "balanced (prio k') (rprio k) bl u (prio k' u)" for u
  proof (cases "p = Some u")
    case True
    then have "max (prio k' u) (prio k (currp k)) = prio k' u" using l(3) b by (simp add: boost_goes_on_def max_def)
    then show ?thesis using l(2) True by (simp add: boost_inv_def)
  next
    case False
    then show ?thesis using l(2) by (simp add: boost_inv_def)
  qed
  then show ?thesis using that[of k'] l(1,2) by (simp add: boost_def boost_inv_def)
qed

end
