(* ===== verification/Ch_Protocol.thy ===== *)
theory Ch_Protocol
  imports Ch_Inherit
begin

text \<open>
  The operations on mutexes keep what the kernel promises: each mutex is in the list of its
  owner and in no other, threads wait only for mutexes that are owned, and the priority of
  each thread is the highest of its own and those of the threads it blocks.
\<close>

subsection \<open>The invariant\<close>

fun chain :: "(nat \<Rightarrow> nat option) \<Rightarrow> nat option \<Rightarrow> nat list \<Rightarrow> bool" where
  "chain nx p [] \<longleftrightarrow> p = None"
| "chain nx p (m # ms) \<longleftrightarrow> p = Some m \<and> chain nx (nx m) ms"

definition owns :: "kernel \<Rightarrow> nat \<Rightarrow> nat list \<Rightarrow> bool" where
  "owns k t ms \<longleftrightarrow> chain (m_next k) (p_mtxlist (thr k t)) ms \<and> distinct ms \<and> (\<forall>m. m \<in> set ms \<longleftrightarrow> m_owner k m = Some t)"

definition mutex_but :: "nat set \<Rightarrow> kernel \<Rightarrow> bool" where
  "mutex_but X k \<longleftrightarrow>
     (\<forall>t. \<exists>ms. owns k t ms) \<and>
     (\<forall>m. m_owner k m = None \<longrightarrow> tqueue k (Q_Mutex m) = []) \<and>
     (\<forall>t. t \<notin> X \<longrightarrow> balanced (prio k) (rprio k) (blocker k) t (prio k t)) \<and>
     finite {t. tst k t = CH_STATE_WTMTX} \<and> (\<forall>t. tst k t \<noteq> CH_STATE_FINAL \<longrightarrow> 0 < rprio k t)"

abbreviation mutex_ok :: "kernel \<Rightarrow> bool" where "mutex_ok k \<equiv> mutex_but {} k"

text \<open>The idle thread can always run.\<close>

definition IDLE :: nat where "IDLE = 0"

definition kernel_ok :: "kernel \<Rightarrow> bool" where
  "kernel_ok k \<longleftrightarrow> sched_ok k \<and> mutex_ok k \<and> runnable (tst k IDLE)"

lemma chain_cong: "(\<And>m. m \<in> set ms \<Longrightarrow> nx' m = nx m) \<Longrightarrow> chain nx' p ms = chain nx p ms"
  by (induction ms arbitrary: p) auto

lemma waits_iff:
  assumes "queues_ok k"
  shows "w \<in> set (tqueue k (Q_Mutex m)) \<longleftrightarrow> tst k w = CH_STATE_WTMTX \<and> p_u (thr k w) = U_Mutex m"
proof
  assume a: "tst k w = CH_STATE_WTMTX \<and> p_u (thr k w) = U_Mutex m"
  then obtain q where q: "w \<in> set (tqueue k q)" using assms by (auto simp: queues_but_def queued_state_def)
  then have "seated q (thr k w)" by (rule queues_seated[OF assms])
  then show "w \<in> set (tqueue k (Q_Mutex m))" using a q by (cases q) auto
qed (use queues_seated[OF assms] in fastforce)

lemma blocker_iff:
  assumes "queues_ok k"
  shows "blocker k w = Some t \<longleftrightarrow> (\<exists>m. w \<in> set (tqueue k (Q_Mutex m)) \<and> m_owner k m = Some t)"
  unfolding waits_iff[OF assms] blocker_def by (auto split: state_data.splits)

lemma resched_same:
  assumes "resched k k'"
  shows "prio k' t = prio k t" and "rprio k' t = rprio k t" and "p_mtxlist (thr k' t) = p_mtxlist (thr k t)"
    and "p_u (thr k' t) = p_u (thr k t)" and "p_epending (thr k' t) = p_epending (thr k t)"
    and "s \<noteq> CH_STATE_READY \<Longrightarrow> s \<noteq> CH_STATE_CURRENT \<Longrightarrow> tst k' t = s \<longleftrightarrow> tst k t = s"
    and "runnable (tst k' t) \<longleftrightarrow> runnable (tst k t)" and "blocker k' t = blocker k t"
proof -
  have e: "thr k' t = thr k t \<or> runnable (tst k t) \<and> runnable (tst k' t) \<and> thr k' t = (thr k t)\<lparr>p_state := tst k' t\<rparr>"
    using assms by (simp add: resched_def)
  then have e': "thr k' t = (thr k t)\<lparr>p_state := tst k' t\<rparr>" by auto
  show f: "prio k' t = prio k t" "rprio k' t = rprio k t" "p_mtxlist (thr k' t) = p_mtxlist (thr k t)"
    "p_u (thr k' t) = p_u (thr k t)" "p_epending (thr k' t) = p_epending (thr k t)"
    by (subst e', simp)+
  show s: "tst k' t = s \<longleftrightarrow> tst k t = s" if "s \<noteq> CH_STATE_READY" "s \<noteq> CH_STATE_CURRENT" for s
    using e that unfolding runnable_def by metis
  show "runnable (tst k' t) \<longleftrightarrow> runnable (tst k t)" using e by metis
  have "m_owner k' = m_owner k" using assms by (simp add: resched_def)
  then show "blocker k' t = blocker k t" using s f(4) by (simp add: blocker_def cong: state_data.case_cong)
qed

lemma mutex_resched:
  assumes "resched k k'" and "mutex_but X k"
  shows "mutex_but X k'"
proof -
  note f = resched_same[OF assms(1)]
  have o: "owns k' t ms = owns k t ms" for t ms using assms(1) f(3)[of t] by (simp add: owns_def resched_def)
  have "tqueue k' (Q_Mutex m) = tqueue k (Q_Mutex m)" "m_owner k' = m_owner k" for m using assms(1) by (simp_all add: resched_def)
  moreover have "blocker k' = blocker k" using f(8) by blast
  ultimately show ?thesis using assms(2) by (simp add: mutex_but_def o f(1,2,6))
qed

text \<open>What an operation on mutexes leaves alone: only its caller and threads that wait for a mutex change their state.\<close>

definition unharmed :: "nat \<Rightarrow> kernel \<Rightarrow> kernel \<Rightarrow> bool" where
  "unharmed c k k' \<longleftrightarrow>
     tref k' = tref k \<and> vtlist k' = vtlist k \<and> vt_systime k' = vt_systime k \<and>
     (\<forall>u. p_epending (thr k' u) = p_epending (thr k u) \<and> p_waiting (thr k' u) = p_waiting (thr k u) \<and>
        (\<forall>s. s \<noteq> CH_STATE_WTMTX \<longrightarrow> \<not> runnable s \<longrightarrow>
           (tst k' u = s \<longleftrightarrow> tst k u = s) \<and> (tst k u = s \<longrightarrow> p_u (thr k' u) = p_u (thr k u))) \<and>
        (u \<noteq> c \<longrightarrow> runnable (tst k u) \<longrightarrow> runnable (tst k' u)))"

lemma unharmed_refl [simp]: "unharmed c k k"
  by (simp add: unharmed_def)

lemma unharmed_trans: "unharmed c k1 k2 \<Longrightarrow> unharmed c k2 k3 \<Longrightarrow> unharmed c k1 k3"
  unfolding unharmed_def by (intro conjI allI impI) metis+

lemma unharmed_resched:
  assumes "resched k k'"
  shows "unharmed c k k'"
proof -
  have e: "thr k' u = thr k u \<or> runnable (tst k u) \<and> runnable (tst k' u) \<and> thr k' u = (thr k u)\<lparr>p_state := tst k' u\<rparr>" for u
    using assms by (simp add: resched_def)
  have "thr k' u = (thr k u)\<lparr>p_state := tst k' u\<rparr>" for u using e[of u] by (elim disjE) auto
  then have "p_waiting (thr k' u) = p_waiting (thr k u)" for u by (metis ch_thread.select_convs(8) ch_thread.surjective ch_thread.update_convs(3))
  moreover have "tst k' u = s \<longleftrightarrow> tst k u = s" if "\<not> runnable s" for u s using e[of u] that by metis
  ultimately show ?thesis using resched_same[OF assms] assms by (simp add: unharmed_def resched_def)
qed

lemma unharmed_boosted: "boosted k k' \<Longrightarrow> unharmed c k k'"
proof -
  assume b: "boosted k k'"
  then have "thr k' u = (thr k u)\<lparr>p_prio := prio k' u\<rparr>" for u by (simp add: boosted_def)
  then have "p_waiting (thr k' u) = p_waiting (thr k u)" for u by (metis ch_thread.select_convs(8) ch_thread.surjective ch_thread.update_convs(1))
  then show ?thesis using boosted_same[OF b] b by (simp add: unharmed_def boosted_def)
qed

lemma kernel_resched:
  assumes "resched k k'" and "sched_ok k'" and "mutex_ok k" and "runnable (tst k IDLE)"
  shows "kernel_ok k'"
  using assms mutex_resched[OF assms(1,3)] resched_same(7)[OF assms(1)] by (simp add: kernel_ok_def)

lemma idle_ready:
  assumes "queues_ok k" and "current_ok k" and "runnable (tst k IDLE)" and "currp k \<noteq> IDLE"
  shows "IDLE \<in> set (tqueue k Q_Ready)"
proof -
  have "tst k IDLE = CH_STATE_READY" using assms(2-4) by (auto simp: runnable_def current_ok_def)
  then obtain q where q: "IDLE \<in> set (tqueue k q)" using assms(1) by (auto simp: queues_but_def queued_state_def)
  then show ?thesis using queues_seated[OF assms(1) q] \<open>tst k IDLE = _\<close> by (cases q) auto
qed

subsection \<open>Locking\<close>

lemma give_simps [simp]:
  "thr (give_mutex m t k) = (thr k)(t := (thr k t)\<lparr>p_mtxlist := Some m\<rparr>)" "tqueue (give_mutex m t k) = tqueue k"
  "currp (give_mutex m t k) = currp k" "m_owner (give_mutex m t k) = (m_owner k)(m := Some t)"
  "m_next (give_mutex m t k) = (m_next k)(m := p_mtxlist (thr k t))" "s_cnt (give_mutex m t k) = s_cnt k"
  "tref (give_mutex m t k) = tref k" "vtlist (give_mutex m t k) = vtlist k" "vt_systime (give_mutex m t k) = vt_systime k"
  by (simp_all add: give_mutex_def)

text \<open>Data of threads that the queues do not depend on.\<close>

lemma queues_data:
  assumes "tqueue k' = tqueue k" and "\<And>t. tst k' t = tst k t" and "\<And>t. prio k' t = prio k t" and "\<And>t. p_u (thr k' t) = p_u (thr k t)"
  shows "queues_but X k' = queues_but X k"
proof -
  have "seated q (thr k' t) = seated q (thr k t)" for q t using assms(2,4) by (cases q) simp_all
  then show ?thesis using assms(1-3) by (simp add: queues_but_def ordered_def)
qed

lemma sched_data:
  assumes "tqueue k' = tqueue k" and "\<And>t. tst k' t = tst k t" and "\<And>t. prio k' t = prio k t" and "\<And>t. p_u (thr k' t) = p_u (thr k t)"
    and "currp k' = currp k"
  shows "sched_ok k' = sched_ok k"
  using queues_data[OF assms(1-4)] assms by (simp add: sched_ok_iff current_ok_def)

lemma owns_give:
  assumes "\<And>t. \<exists>ms. owns k t ms" and "m_owner k m = None"
  shows "\<exists>ms. owns (give_mutex m t k) u ms"
proof -
  obtain ms where ms: "owns k u ms" using assms(1) by blast
  then have n: "m \<notin> set ms" using assms(2) by (auto simp: owns_def)
  have c: "chain (m_next (give_mutex m t k)) p ms = chain (m_next k) p ms" for p
    by (rule chain_cong) (use n in auto)
  show ?thesis
  proof (cases "u = t")
    case True
    then have "owns (give_mutex m t k) u (m # ms)" using ms n c by (auto simp: owns_def)
    then show ?thesis by blast
  next
    case False
    then have "owns (give_mutex m t k) u ms" using ms n c by (auto simp: owns_def)
    then show ?thesis by blast
  qed
qed

lemma take_free_ok:
  assumes "kernel_ok k" and "m_owner k m = None"
  shows "kernel_ok (give_mutex m (currp k) k)"
proof -
  let ?k = "give_mutex m (currp k) k"
  have k: "sched_ok k" "mutex_ok k" "runnable (tst k IDLE)" and q: "queues_ok k"
    using assms(1) by (simp_all add: kernel_ok_def sched_ok_iff)
  have s: "tst ?k t = tst k t" "prio ?k t = prio k t" "p_u (thr ?k t) = p_u (thr k t)" "rprio ?k t = rprio k t" for t by simp_all
  have "sched_ok ?k" using sched_data[of ?k k] k(1) by simp
  moreover have e: "tqueue k (Q_Mutex m) = []" using k(2) assms(2) by (simp add: mutex_but_def)
  have "blocker ?k w = blocker k w" for w
  proof -
    have "p_u (thr k w) \<noteq> U_Mutex m" if "tst k w = CH_STATE_WTMTX" using waits_iff[OF q, of w m] e that by simp
    then show ?thesis by (auto simp: blocker_def s split: state_data.splits)
  qed
  then have "blocker ?k = blocker k" by blast
  then have "mutex_ok ?k" using k(2) owns_give[OF _ assms(2)] unfolding mutex_but_def s by auto
  ultimately show ?thesis using k(3) by (simp add: kernel_ok_def)
qed

lemma trylock_ok: "kernel_ok k \<Longrightarrow> kernel_ok (snd (chMtxTryLockS m k))"
  by (auto simp: chMtxTryLockS_def take_free_ok)

lemma lock_free: "m_owner k m = None \<Longrightarrow> chMtxLockS m k = Some (give_mutex m (currp k) k)"
  by (simp add: chMtxLockS_def)

text \<open>A mutex that has an owner: the caller waits, and its priority is handed on.\<close>

lemma lock_waits:
  assumes "kernel_ok k" and "m_owner k m = Some t" and "currp k \<noteq> IDLE"
  obtains k' where "chMtxLockS m k = Some k'" and "kernel_ok k'" and "m_owner k' = m_owner k"
    and "currp k \<in> set (tqueue k' (Q_Mutex m))" and "prio k' (currp k) = prio k (currp k)"
    and "\<And>u. prio k u \<le> prio k' u" and "\<And>u. rprio k' u = rprio k u"
    and "unharmed (currp k) k k'"
proof -
  let ?c = "currp k"
  have q: "queues_ok k" and cur: "current_ok k" and mu: "mutex_ok k" and idle: "runnable (tst k IDLE)"
    using assms(1) by (simp_all add: kernel_ok_def sched_ok_iff)
  have st: "tst k ?c = CH_STATE_CURRENT" using cur by (simp add: current_ok_def)
  define bl where "bl = (blocker k)(?c := Some t)"
  have bc: "blocker k ?c = None" by (simp add: blocker_def st)
  have bal: "balanced (prio k) (rprio k) (blocker k) u (prio k u)" for u using mu by (simp add: mutex_but_def)
  have o: "balanced (prio k) (rprio k) bl u (prio k u)" if "u \<noteq> t" for u
  proof -
    have "bl w = Some u \<longleftrightarrow> blocker k w = Some u" for w using that bc by (simp add: bl_def)
    then show ?thesis using bal[of u] by (simp add: balanced_def)
  qed
  have t: "balanced (prio k) (rprio k) bl t (max (prio k t) (prio k ?c))"
  proof -
    have e: "bl w = Some t \<longleftrightarrow> blocker k w = Some t \<or> w = ?c" for w by (simp add: bl_def)
    show ?thesis
    proof (cases "prio k t \<le> prio k ?c")
      case True
      then have "rprio k t \<le> prio k ?c" "\<forall>w. blocker k w = Some t \<longrightarrow> prio k w \<le> prio k ?c"
        using bal[of t] by (auto simp: balanced_def intro: order_trans)
      then show ?thesis using True by (auto simp: balanced_def e max_def)
    next
      case False
      then have "max (prio k t) (prio k ?c) = prio k t" "prio k ?c \<le> prio k t" by auto
      then show ?thesis using bal[of t] unfolding balanced_def e by auto
    qed
  qed
  obtain k1 where k1: "boost t k = Some k1" "queues_ok k1" "boosted k k1" "\<And>u. balanced (prio k1) (rprio k) bl u (prio k1 u)"
    using boost_ends[OF q _ _ _ o t] mu by (auto simp: bl_def mutex_but_def)
  note f = boosted_same[OF k1(3)]
  have c1: "currp k1 = ?c" "m_owner k1 = m_owner k" "m_next k1 = m_next k" "prio k1 ?c = prio k ?c"
    "set (tqueue k1 r) = set (tqueue k r)" "prio k u \<le> prio k1 u" for r u
    using k1(3) by (simp_all add: boosted_def)
  define k3 where "k3 = set_thr ?c (p_u_update (\<lambda>_. U_Mutex m)) (queue_prio_insert ?c (Q_Mutex m) k1)"
  define k4 where "k4 = set_thr ?c (p_state_update (\<lambda>_. CH_STATE_WTMTX)) k3"
  have nin: "?c \<notin> set (tqueue k1 r)" for r using queues_seated[OF q, of ?c r] c1(5) st by (cases r) auto
  have "queues_ok k4"
  proof -
    define kk where "kk = set_thr ?c (p_state_update (\<lambda>_. CH_STATE_WTMTX)) (set_thr ?c (p_u_update (\<lambda>_. U_Mutex m)) k1)"
    have b: "queues_but {?c} kk"
      unfolding kk_def by (intro queues_set_thr queues_add k1(2)) (simp_all add: f(1) st queued_state_def)
    have "prio kk u = prio k1 u" for u by (simp add: kk_def)
    then have ok: "ordered kk = ordered k1" "tqueue kk = tqueue k1" by (simp_all add: fun_eq_iff ordered_def) (simp add: kk_def)
    have "queues_ok (set_queue (Q_Mutex m) (put_before (\<lambda>c. prio k1 ?c \<le> prio k1 c) ?c (tqueue k1 (Q_Mutex m))) kk)"
    proof (rule queues_insert[OF b])
      show "0 < prio kk ?c" using sched_pos[OF q cur] c1(4) by (simp add: kk_def)
      have "distinct (tqueue k1 (Q_Mutex m))" "ordered k1 (tqueue k1 (Q_Mutex m))" using k1(2) by (auto simp: queues_but_def)
      then show "distinct (put_before (\<lambda>c. prio k1 ?c \<le> prio k1 c) ?c (tqueue k1 (Q_Mutex m)))"
        "ordered kk (put_before (\<lambda>c. prio k1 ?c \<le> prio k1 c) ?c (tqueue k1 (Q_Mutex m)))"
        using nin by (auto simp: ok intro: put_before_distinct put_before_ordered)
    qed (simp_all add: kk_def)
    moreover have "k4 = set_queue (Q_Mutex m) (put_before (\<lambda>c. prio k1 ?c \<le> prio k1 c) ?c (tqueue k1 (Q_Mutex m))) kk"
      by (simp add: k4_def k3_def kk_def queue_prio_insert_def set_thr_def set_queue_def)
    ultimately show ?thesis by simp
  qed
  have q4: "tqueue k4 = (tqueue k1)(Q_Mutex m := put_before (\<lambda>c. prio k1 ?c \<le> prio k1 c) ?c (tqueue k1 (Q_Mutex m)))"
    "tqueue k3 = tqueue k4" by (simp_all add: k4_def k3_def queue_prio_insert_def)
  have t4: "prio k4 u = prio k1 u" "rprio k4 u = rprio k u" "p_mtxlist (thr k4 u) = p_mtxlist (thr k u)"
    "tst k4 u = (if u = ?c then CH_STATE_WTMTX else tst k u)" "m_owner k4 = m_owner k" "m_next k4 = m_next k" for u
    using f c1 by (simp_all add: k4_def k3_def queue_prio_insert_def)
  have "p_u (thr k4 u) = (if u = ?c then U_Mutex m else p_u (thr k u))" for u
    using f(2) by (simp add: k4_def k3_def queue_prio_insert_def)
  then have "blocker k4 u = bl u" for u
    using assms(2) by (simp add: blocker_def bl_def t4 cong: state_data.case_cong)
  then have b4: "blocker k4 = bl" by blast
  have "finite {u. tst k4 u = CH_STATE_WTMTX}"
    by (rule finite_subset[of _ "insert ?c {u. tst k u = CH_STATE_WTMTX}"]) (use mu in \<open>auto simp: t4 mutex_but_def split: if_splits\<close>)
  moreover have "owns k4 = owns k" by (simp add: fun_eq_iff owns_def t4)
  moreover have "tqueue k4 (Q_Mutex n) = []" if "m_owner k n = None" for n
    using mu that assms(2) c1(5)[of "Q_Mutex n"] by (auto simp: q4 mutex_but_def)
  moreover have "tst k u \<noteq> CH_STATE_FINAL \<Longrightarrow> 0 < rprio k u" for u using mu by (simp add: mutex_but_def)
  then have "tst k4 u \<noteq> CH_STATE_FINAL \<Longrightarrow> 0 < rprio k u" for u using st by (auto simp: t4 split: if_splits)
  ultimately have m4: "mutex_ok k4" using mu k1(4) unfolding mutex_but_def b4 t4(1,2,5) by simp
  have "set (tqueue k3 Q_Ready) = set (tqueue k Q_Ready)" using c1(5) q4 by simp
  then have "tqueue k3 Q_Ready \<noteq> []" using idle_ready[OF q cur idle assms(3)] by force
  moreover have "current_ok k3" "currp k3 = ?c"
    using cur f(1) c1(1) by (auto simp: k3_def queue_prio_insert_def current_ok_def)
  ultimately obtain k' where k': "chSchGoSleepS CH_STATE_WTMTX k3 = Some k'" "sched_ok k'" "resched k4 k'"
    using go_sleep_ok[of k3 CH_STATE_WTMTX] \<open>queues_ok k4\<close> unfolding k4_def by auto
  have "chMtxLockS m k = Some k'" using assms(2) k1(1) k'(1) by (simp add: chMtxLockS_def k3_def Let_def)
  moreover have "kernel_ok k'"
    using k'(2,3) m4 idle assms(3) by (intro kernel_resched[of k4]) (auto simp: t4)
  moreover have "m_owner k' = m_owner k" "set (tqueue k' (Q_Mutex m)) = set (tqueue k4 (Q_Mutex m))"
    using k'(3) by (simp_all add: resched_def t4)
  moreover have "?c \<in> set (tqueue k4 (Q_Mutex m))" by (simp add: q4)
  moreover have "unharmed ?c k1 k4"
    using f(1) st by (auto simp: unharmed_def k4_def k3_def queue_prio_insert_def runnable_def)
  then have "unharmed ?c k k'"
    using unharmed_boosted[OF k1(3)] unharmed_resched[OF k'(3)] by (blast intro: unharmed_trans)
  ultimately show ?thesis
    using that[of k'] resched_same[OF k'(3)] t4 c1 by auto
qed

subsection \<open>Unlocking\<close>

text \<open>The scan over the owned mutexes finds the highest priority among their waiting threads.\<close>

lemma scan_owned_chain: "chain (m_next k) p ms \<Longrightarrow> scan_owned k v p = Some (fold (raised_by k) ms v)"
proof (induction ms arbitrary: v p)
  case Nil
  then show ?case by (simp add: scan_owned_def loop_while.simps)
next
  case (Cons m ms)
  then have "scan_owned k v p = scan_owned k (raised_by k m v) (m_next k m)"
    by (simp add: scan_owned_def) (subst loop_while.simps, simp)
  then show ?case using Cons by simp
qed

lemma scan_max:
  assumes "\<And>m. ordered k (tqueue k (Q_Mutex m))"
  shows "v \<le> fold (raised_by k) ms v \<and>
    (\<forall>m\<in>set ms. \<forall>w\<in>set (tqueue k (Q_Mutex m)). prio k w \<le> fold (raised_by k) ms v) \<and>
    (fold (raised_by k) ms v = v \<or> (\<exists>m\<in>set ms. \<exists>w\<in>set (tqueue k (Q_Mutex m)). prio k w = fold (raised_by k) ms v))"
proof (induction ms arbitrary: v)
  case (Cons m ms)
  let ?v = "raised_by k m v"
  have r: "v \<le> ?v" "\<forall>w\<in>set (tqueue k (Q_Mutex m)). prio k w \<le> ?v"
    "?v = v \<or> (\<exists>w\<in>set (tqueue k (Q_Mutex m)). prio k w = ?v)"
    using assms[of m] by (cases "tqueue k (Q_Mutex m)"; force simp: raised_by_def)+
  show ?case using Cons[of ?v] r by (auto intro: order_trans) 
qed simp

lemma owns_release:
  assumes "\<And>t. \<exists>ms. owns k t ms" and "owns k c (m # ms)" and "t \<noteq> c"
    and "m_owner k' = (m_owner k)(m := t')" and "t' = None \<or> t' = Some t \<and> p_mtxlist (thr k' t) = Some m \<and> m_next k' m = p_mtxlist (thr k t)"
    and "\<And>n. n \<noteq> m \<Longrightarrow> m_next k' n = m_next k n" and "p_mtxlist (thr k' c) = m_next k m"
    and "\<And>u. u \<noteq> c \<Longrightarrow> t' = Some u \<or> p_mtxlist (thr k' u) = p_mtxlist (thr k u)"
  shows "owns k' c ms \<and> (\<forall>u. \<exists>ms. owns k' u ms)"
proof -
  have c: "chain (m_next k') p ns = chain (m_next k) p ns" if "m \<notin> set ns" for p ns
    by (rule chain_cong) (use assms(6) that in metis)
  have om: "m_owner k m = Some c" using assms(2) unfolding owns_def by (metis list.set_intros(1))
  have oc: "owns k' c ms"
    using assms(2,3,4,5,7) c[of ms] by (auto simp: owns_def)
  moreover have "\<exists>ns. owns k' u ns" for u
  proof (cases "u = c")
    case True
    then show ?thesis using oc by blast
  next
    case False
    obtain ns where ns: "owns k u ns" using assms(1) by blast
    then have n: "m \<notin> set ns" using om False by (auto simp: owns_def)
    show ?thesis
    proof (cases "t' = Some u")
      case True
      then have "owns k' u (m # ns)" using ns n c[OF n] assms(4,5) by (auto simp: owns_def)
      then show ?thesis by blast
    next
      case F: False
      then have "p_mtxlist (thr k' u) = p_mtxlist (thr k u)" using assms(8)[OF False] by blast
      then have "owns k' u ns" using ns n c[OF n] assms(4) om False F by (auto simp: owns_def)
      then show ?thesis by blast
    qed
  qed
  ultimately show ?thesis by blast
qed

text \<open>
  The first mutex of the current thread released: its priority is not looked at here, and
  a waiting thread is the new owner.
\<close>

lemma release_ok:
  assumes "queues_ok k" and "current_ok k" and "mutex_but {currp k} k" and "owns k (currp k) (m # ms)"
  obtains k' where "unlock_first k = Some k'" and "queues_ok k'" and "current_ok k'" and "mutex_but {currp k} k'"
    and "owns k' (currp k) ms" and "currp k' = currp k" and "prio k' = prio k" and "rprio k' = rprio k"
    and "\<And>n. n \<noteq> m \<Longrightarrow> tqueue k' (Q_Mutex n) = tqueue k (Q_Mutex n)"
    and "m_owner k' = (m_owner k)(m := (case tqueue k (Q_Mutex m) of [] \<Rightarrow> None | w # _ \<Rightarrow> Some w))"
    and "tqueue k' (Q_Mutex m) = tl (tqueue k (Q_Mutex m))"
    and "\<And>u. runnable (tst k u) \<Longrightarrow> runnable (tst k' u)"
    and "\<And>w ws. tqueue k (Q_Mutex m) = w # ws \<Longrightarrow> tst k' w = CH_STATE_READY"
    and "\<And>u. u \<notin> set (tqueue k (Q_Mutex m)) \<Longrightarrow> tst k' u = tst k u" and "unharmed (currp k) k k'"
proof -
  let ?c = "currp k"
  have st: "tst k ?c = CH_STATE_CURRENT" using assms(2) by (simp add: current_ok_def)
  have om: "m_owner k m = Some ?c" using assms(4) unfolding owns_def by (metis list.set_intros(1))
  have pm: "p_mtxlist (thr k ?c) = Some m" using assms(4) by (simp add: owns_def)
  have ex: "\<exists>ms. owns k t ms" for t using assms(3) by (simp add: mutex_but_def)
  have bal: "balanced (prio k) (rprio k) (blocker k) u (prio k u)" if "u \<noteq> ?c" for u using assms(3) that by (simp add: mutex_but_def)
  have fin: "finite {t. tst k t = CH_STATE_WTMTX}" using assms(3) by (simp add: mutex_but_def)
  define k1 where "k1 = set_thr ?c (p_mtxlist_update (\<lambda>_. m_next k m)) k"
  have f1: "tst k1 u = tst k u" "prio k1 u = prio k u" "rprio k1 u = rprio k u" "p_u (thr k1 u) = p_u (thr k u)" "tqueue k1 = tqueue k"
    "currp k1 = ?c" "m_owner k1 = m_owner k" "m_next k1 = m_next k" for u by (simp_all add: k1_def)
  have q1: "queues_ok k1" using queues_data[of k1 k "{}"] assms(1) by (simp add: f1)
  show ?thesis
  proof (cases "tqueue k (Q_Mutex m)")
    case Nil
    define k' where "k' = k1\<lparr>m_owner := (m_owner k1)(m := None)\<rparr>"
    have f: "tst k' u = tst k u" "prio k' u = prio k u" "rprio k' u = rprio k u" "p_u (thr k' u) = p_u (thr k u)" "tqueue k' = tqueue k"
      "currp k' = ?c" "m_owner k' = (m_owner k)(m := None)" "m_next k' = m_next k" for u by (simp_all add: k'_def f1)
    have "owns k' ?c ms \<and> (\<forall>u. \<exists>ms. owns k' u ms)"
      using owns_release[OF ex assms(4), of "Suc ?c" k' None] f by (simp add: k'_def k1_def)
    moreover have "blocker k' w = blocker k w" for w
      using waits_iff[OF assms(1), of w m] Nil by (auto simp: blocker_def f split: state_data.splits)
    then have "blocker k' = blocker k" by blast
    then have "mutex_but {?c} k'"
      using calculation bal fin assms(3) Nil unfolding mutex_but_def f by auto
    moreover have "unlock_first k = Some k'"
      using pm Nil f1 by (simp add: unlock_first_def queue_notempty_def k'_def k1_def Let_def)
    moreover have "queues_ok k'" "current_ok k'" using queues_data[of k' k "{}"] assms(1,2) by (simp_all add: f current_ok_def)
    moreover have "unharmed ?c k k'" by (simp add: unharmed_def k'_def k1_def)
    ultimately show ?thesis using that[of k'] Nil f by simp
  next
    case (Cons w ws)
    have ww: "w \<in> set (tqueue k (Q_Mutex m))" using Cons by simp
    then have w: "tst k w = CH_STATE_WTMTX" "p_u (thr k w) = U_Mutex m" using waits_iff[OF assms(1)] by blast+
    then have ne: "w \<noteq> ?c" using st by auto
    have pw: "0 < prio k w" using assms(1) w(1) by (simp add: queues_but_def)
    have "queue_fifo_remove (Q_Mutex m) k1 = Some (w, set_queue (Q_Mutex m) ws k1)"
      by (simp add: queue_fifo_remove_def f1 Cons)
    note r = this queues_fifo_remove[OF q1 this]
    define k2 where "k2 = give_mutex m w (set_queue (Q_Mutex m) ws k1)"
    have "queues_but {w} k2 = queues_but {w} (set_queue (Q_Mutex m) ws k1)"
      by (rule queues_data) (simp_all add: k2_def)
    then have "queues_but {w} k2" using r(2) by blast
    moreover define k' where "k' = readied w k2"
    ultimately have q': "queues_ok k'" using pw by (simp add: queues_readied k2_def f1)
    have f: "tst k' u = (if u = w then CH_STATE_READY else tst k u)" "prio k' u = prio k u" "rprio k' u = rprio k u"
      "p_u (thr k' u) = p_u (thr k u)" "currp k' = ?c" "m_owner k' = (m_owner k)(m := Some w)"
      "m_next k' = (m_next k)(m := p_mtxlist (thr k w))" for u
      using ne by (simp_all add: k'_def k2_def k1_def)
    have tq: "tqueue k' q = (if q = Q_Mutex m then ws else tqueue k q)" if "q \<noteq> Q_Ready" for q
      using that by (simp add: k'_def k2_def f1)
    have ow: "owns k' ?c ms \<and> (\<forall>u. \<exists>ms. owns k' u ms)"
      using owns_release[OF ex assms(4) ne, of k' "Some w"] f(6,7) ne by (simp add: k'_def k2_def k1_def)
    have ord: "prio k u \<le> prio k w" if "u \<in> set ws" for u
    proof -
      have "ordered k (tqueue k (Q_Mutex m))" using assms(1) by (simp add: queues_but_def)
      then show ?thesis using Cons that by simp
    qed
    have bw: "blocker k w = Some ?c" using blocker_iff[OF assms(1), of w ?c] ww om by blast
    have dst: "w \<notin> set ws" using assms(1) Cons unfolding queues_but_def by (metis distinct.simps(2))
    have b': "blocker k' u = Some v \<longleftrightarrow> u \<noteq> w \<and> (if u \<in> set ws then v = w else blocker k u = Some v)" for u v
    proof (cases "u = w")
      case True
      then show ?thesis by (simp add: blocker_def f)
    next
      case False
      show ?thesis
      proof (cases "u \<in> set ws")
        case True
        then have "tst k u = CH_STATE_WTMTX \<and> p_u (thr k u) = U_Mutex m" using waits_iff[OF assms(1), of u m] Cons by simp
        then show ?thesis using True False by (auto simp: blocker_def f)
      next
        case F: False
        then have "\<not> (tst k u = CH_STATE_WTMTX \<and> p_u (thr k u) = U_Mutex m)" using waits_iff[OF assms(1), of u m] Cons False by simp
        then show ?thesis using F False by (auto simp: blocker_def f split: state_data.splits)
      qed
    qed
    have bws: "blocker k u = Some ?c" if "u \<in> set ws" for u
      using blocker_iff[OF assms(1), of u ?c] Cons that om by auto
    have "balanced (prio k) (rprio k) (blocker k') u (prio k u)" if "u \<noteq> ?c" for u
    proof (cases "u = w")
      case True
      then show ?thesis using bal[OF that] ord b' bw bws ne unfolding balanced_def
        by (smt (verit) option.inject)
    next
      case False
      then have "blocker k' x = Some u \<longleftrightarrow> blocker k x = Some u" for x using b'[of x u] bws[of x] bw that by auto
      then show ?thesis using bal[OF that] by (simp add: balanced_def)
    qed
    moreover have "finite {t. tst k' t = CH_STATE_WTMTX}"
      by (rule finite_subset[OF _ fin]) (auto simp: f split: if_splits)
    moreover have "tqueue k' (Q_Mutex n) = []" if "m_owner k' n = None" for n
      using that assms(3) by (auto simp: tq f mutex_but_def split: if_splits)
    moreover have "tst k u \<noteq> CH_STATE_FINAL \<Longrightarrow> 0 < rprio k u" for u using assms(3) by (simp add: mutex_but_def)
    then have "tst k' u \<noteq> CH_STATE_FINAL \<Longrightarrow> 0 < rprio k u" for u using w(1) by (auto simp: f split: if_splits)
    ultimately have "mutex_but {?c} k'" using ow unfolding mutex_but_def f(2,3) by simp
    moreover have "unlock_first k = Some k'"
    proof -
      have "chSchReadyI w k2 = Some k'" using pw ne by (simp add: chSchReadyI_eq k'_def k2_def k1_def)
      then show ?thesis using pm Cons r(1) by (simp add: unlock_first_def queue_notempty_def hand_over_def k2_def k1_def Let_def)
    qed
    moreover have "current_ok k'" using assms(2) ne w(1) by (auto simp: current_ok_def f)
    moreover have "unharmed ?c k k'" using w(1) by (auto simp: unharmed_def k'_def k2_def k1_def runnable_def)
    ultimately show ?thesis using that[of k'] q' ow Cons f tq by (auto simp: runnable_def)
  qed
qed

text \<open>Changing the priority of the current thread leaves the other threads' priorities fitting.\<close>

lemma set_prio_ok:
  assumes "queues_ok k" and "current_ok k" and "mutex_but {currp k} k" and "0 < v"
    and "k' = set_thr (currp k) (p_prio_update (\<lambda>_. v)) k"
  shows "queues_ok k' \<and> current_ok k' \<and> mutex_but {currp k} k' \<and> blocker k' = blocker k \<and> owns k' = owns k"
proof -
  let ?c = "currp k"
  have st: "tst k ?c = CH_STATE_CURRENT" using assms(2) by (simp add: current_ok_def)
  have f: "tst k' u = tst k u" "rprio k' u = rprio k u" "p_u (thr k' u) = p_u (thr k u)" "tqueue k' = tqueue k"
    "p_mtxlist (thr k' u) = p_mtxlist (thr k u)" "currp k' = ?c" "m_owner k' = m_owner k" "m_next k' = m_next k"
    "prio k' u = (if u = ?c then v else prio k u)" for u by (simp_all add: assms(5))
  have "queues_but {?c} k'"
    unfolding assms(5) by (intro queues_set_thr queues_add assms(1)) (simp_all add: st queued_state_def)
  then have "queues_ok k'" by (rule queues_settled) (use assms(4) in \<open>simp_all add: f st queued_state_def\<close>)
  moreover have b: "blocker k' = blocker k" by (simp add: fun_eq_iff blocker_def f cong: state_data.case_cong)
  moreover have "blocker k ?c = None" by (simp add: blocker_def st)
  then have pw: "blocker k w = Some u \<Longrightarrow> prio k' w = prio k w" for w u by (auto simp: f)
  have "balanced (prio k') (rprio k') (blocker k') u (prio k' u) = balanced (prio k) (rprio k) (blocker k) u (prio k u)"
    if "u \<noteq> ?c" for u
  proof -
    have "prio k' u = prio k u" using that by (simp add: f)
    then show ?thesis by (simp add: balanced_def b f(2) pw cong: conj_cong)
  qed
  moreover have "owns k' = owns k" by (simp add: fun_eq_iff owns_def f)
  ultimately show ?thesis using assms(2,3) unfolding mutex_but_def current_ok_def by (simp add: f)
qed

lemma mutex_settled:
  assumes "mutex_but {c} k" and "balanced (prio k) (rprio k) (blocker k) c (prio k c)"
  shows "mutex_ok k"
  using assms unfolding mutex_but_def by (metis singletonD)

lemma data_commute: "(th :: ch_thread)\<lparr>p_mtxlist := x, p_prio := v\<rparr> = th\<lparr>p_prio := v, p_mtxlist := x\<rparr>"
  by (rule ch_thread.equality) simp_all

lemma unlockS_ok:
  assumes "kernel_ok k" and "p_mtxlist (thr k (currp k)) = Some m"
  obtains k' where "chMtxUnlockS m k = Some k'" and "queues_ok k'" and "current_ok k'" and "mutex_ok k'" and "runnable (tst k' IDLE)"
    and "currp k' = currp k" and "m_owner k' = (m_owner k)(m := (case tqueue k (Q_Mutex m) of [] \<Rightarrow> None | w # _ \<Rightarrow> Some w))"
    and "tqueue k' (Q_Mutex m) = tl (tqueue k (Q_Mutex m))"
    and "\<And>u. u \<noteq> currp k \<Longrightarrow> prio k' u = prio k u" and "\<And>u. rprio k' u = rprio k u"
    and "\<And>w ws. tqueue k (Q_Mutex m) = w # ws \<Longrightarrow> tst k' w = CH_STATE_READY"
    and "\<And>u. u \<notin> set (tqueue k (Q_Mutex m)) \<Longrightarrow> tst k' u = tst k u" and "unharmed (currp k) k k'"
proof -
  let ?c = "currp k"
  have q: "queues_ok k" and cur: "current_ok k" and mu: "mutex_ok k" and idle: "runnable (tst k IDLE)"
    using assms(1) by (simp_all add: kernel_ok_def sched_ok_iff)
  have st: "tst k ?c = CH_STATE_CURRENT" using cur by (simp add: current_ok_def)
  have mc: "mutex_but {?c} k" using mu by (simp add: mutex_but_def)
  have "\<exists>ms'. owns k ?c ms'" using mu by (simp add: mutex_but_def)
  then obtain ms' where "owns k ?c ms'" by blast
  with assms(2) obtain ms where ms: "owns k ?c (m # ms)" by (cases ms') (auto simp: owns_def)
  have om: "m_owner k m = Some ?c" using ms unfolding owns_def by (metis list.set_intros(1))
  have rp: "0 < rprio k ?c" using mu st by (simp add: mutex_but_def)
  define v where "v = (if tqueue k (Q_Mutex m) = [] then prio k ?c else fold (raised_by k) ms (rprio k ?c))"
  define kv where "kv = set_thr ?c (p_prio_update (\<lambda>_. v)) k"
  have ord: "ordered k (tqueue k (Q_Mutex n))" for n using q by (simp add: queues_but_def)
  note mx = scan_max[of k "rprio k ?c" ms, OF ord]
  have v0: "0 < v" using mx rp sched_pos[OF q cur] by (auto simp: v_def intro: less_le_trans)
  note kv = set_prio_ok[OF q cur mc v0 kv_def]
  have fv: "currp kv = ?c" "tqueue kv = tqueue k" "m_owner kv = m_owner k" "rprio kv u = rprio k u" "tst kv u = tst k u"
    "prio kv u = (if u = ?c then v else prio k u)" for u by (simp_all add: kv_def)
  have "queues_ok kv" "current_ok kv" "mutex_but {currp kv} kv" "owns kv (currp kv) (m # ms)" using kv ms by (simp_all add: fv)
  note rel = release_ok[OF this, unfolded fv(1,2,3,5)]
  obtain k' where k': "unlock_first kv = Some k'" "queues_ok k'" "current_ok k'" "mutex_but {?c} k'" "owns k' ?c ms" "currp k' = ?c"
    "prio k' = prio kv" "rprio k' = rprio kv" "\<And>n. n \<noteq> m \<Longrightarrow> tqueue k' (Q_Mutex n) = tqueue k (Q_Mutex n)"
    "m_owner k' = (m_owner k)(m := (case tqueue k (Q_Mutex m) of [] \<Rightarrow> None | w # _ \<Rightarrow> Some w))"
    "tqueue k' (Q_Mutex m) = tl (tqueue k (Q_Mutex m))" "\<And>u. runnable (tst k u) \<Longrightarrow> runnable (tst k' u)"
    "\<And>w ws. tqueue k (Q_Mutex m) = w # ws \<Longrightarrow> tst k' w = CH_STATE_READY"
    "\<And>u. u \<notin> set (tqueue k (Q_Mutex m)) \<Longrightarrow> tst k' u = tst k u" "unharmed ?c kv k'"
    by (rule rel, rule that)
  have "unharmed ?c k kv" by (simp add: unharmed_def kv_def)
  then have uh: "unharmed ?c k k'" using k'(15) by (rule unharmed_trans)
  have pr: "prio k' u = (if u = ?c then v else prio k u)" "rprio k' u = rprio k u" for u
    using fun_cong[OF k'(7), of u] fun_cong[OF k'(8), of u] by (simp_all add: fv)
  have nc: "w \<noteq> ?c" if "w \<in> set (tqueue k (Q_Mutex n))" for w n using waits_iff[OF q] that st by auto
  have bl: "blocker k' w = Some ?c \<longleftrightarrow> (\<exists>n\<in>set ms. w \<in> set (tqueue k (Q_Mutex n)))" for w
  proof -
    have "m \<notin> set ms" using ms by (simp add: owns_def)
    moreover have "m_owner k' n = Some ?c \<longleftrightarrow> n \<in> set ms" for n using k'(5) by (simp add: owns_def)
    ultimately show ?thesis using blocker_iff[OF k'(2), of w ?c] k'(9) by metis
  qed
  have "balanced (prio k') (rprio k') (blocker k') ?c (prio k' ?c)"
  proof (cases "tqueue k (Q_Mutex m) = []")
    case False
    then show ?thesis using mx nc by (auto simp: balanced_def bl pr v_def) metis+
  next
    case True
    have "m_owner k n = Some ?c \<longleftrightarrow> n = m \<or> n \<in> set ms" for n using ms by (auto simp: owns_def)
    then have e: "blocker k' w = Some ?c \<longleftrightarrow> blocker k w = Some ?c" for w
      using blocker_iff[OF q, of w ?c] bl[of w] True by auto
    have "balanced (prio k) (rprio k) (blocker k) ?c (prio k ?c)" using mu by (simp add: mutex_but_def)
    moreover have "prio k' u = prio k u" for u using True by (simp add: pr v_def)
    ultimately show ?thesis by (simp add: balanced_def e pr(2))
  qed
  then have "mutex_ok k'" using k'(4) mutex_settled by blast
  moreover have "chMtxUnlockS m k = Some k'"
  proof (cases "tqueue k (Q_Mutex m) = []")
    case True
    have "kv = k" using True by (simp add: kv_def v_def set_thr_def)
    then show ?thesis using k'(1) assms(2) True by (simp add: unlock_first_def chMtxUnlockS_def queue_notempty_def Let_def)
  next
    case False
    have "chain (m_next k) (m_next k m) ms" using ms by (simp add: owns_def)
    then have c1: "chain (m_next (set_thr ?c (p_mtxlist_update (\<lambda>_. m_next k m)) k)) (m_next k m) ms" by simp
    have rb: "raised_by (set_thr ?c (p_mtxlist_update (\<lambda>_. m_next k m)) k) = raised_by k"
      by (simp add: fun_eq_iff raised_by_def split: list.splits)
    have "hand_over m (set_thr ?c (p_prio_update (\<lambda>_. v)) (set_thr ?c (p_mtxlist_update (\<lambda>_. m_next k m)) k)) = Some k'"
    proof -
      have "set_thr ?c f (set_thr ?c g k) = set_thr ?c (\<lambda>th. f (g th)) k" for f g by (simp add: set_thr_def)
      then have "set_thr ?c (p_prio_update (\<lambda>_. v)) (set_thr ?c (p_mtxlist_update (\<lambda>_. m_next k m)) k)
        = set_thr ?c (p_mtxlist_update (\<lambda>_. m_next kv m)) kv" unfolding kv_def by (simp only: set_thr_simps data_commute)
      then show ?thesis using k'(1) assms(2) False by (simp add: unlock_first_def queue_notempty_def fv kv_def Let_def)
    qed
    then show ?thesis using False scan_owned_chain[OF c1] by (simp add: chMtxUnlockS_def queue_notempty_def Let_def rb v_def)
  qed
  ultimately show ?thesis using that[of k'] k' pr idle uh by simp
qed

lemma unlock_ok:
  assumes "kernel_ok k" and "p_mtxlist (thr k (currp k)) = Some m"
  obtains k' where "chMtxUnlock m k = Some k'" and "kernel_ok k'"
    and "m_owner k' = (m_owner k)(m := (case tqueue k (Q_Mutex m) of [] \<Rightarrow> None | w # _ \<Rightarrow> Some w))"
    and "tqueue k' (Q_Mutex m) = tl (tqueue k (Q_Mutex m))"
    and "\<And>u. u \<noteq> currp k \<Longrightarrow> prio k' u = prio k u" and "\<And>u. rprio k' u = rprio k u"
    and "\<And>w ws. tqueue k (Q_Mutex m) = w # ws \<Longrightarrow> runnable (tst k' w)"
    and "unharmed (currp k) k k'"
proof -
  obtain k1 where k1: "chMtxUnlockS m k = Some k1" "queues_ok k1" "current_ok k1" "mutex_ok k1" "runnable (tst k1 IDLE)"
    "m_owner k1 = (m_owner k)(m := (case tqueue k (Q_Mutex m) of [] \<Rightarrow> None | w # _ \<Rightarrow> Some w))"
    "tqueue k1 (Q_Mutex m) = tl (tqueue k (Q_Mutex m))"
    "\<And>u. u \<noteq> currp k \<Longrightarrow> prio k1 u = prio k u" "\<And>u. rprio k1 u = rprio k u"
    "\<And>w ws. tqueue k (Q_Mutex m) = w # ws \<Longrightarrow> tst k1 w = CH_STATE_READY"
    "\<And>u. u \<notin> set (tqueue k (Q_Mutex m)) \<Longrightarrow> tst k1 u = tst k u" "currp k1 = currp k" "unharmed (currp k) k k1"
    by (rule unlockS_ok[OF assms], rule that)
  show ?thesis
  proof (cases "tqueue k (Q_Mutex m) = []")
    case True
    have e: "k1 = (set_thr (currp k) (p_mtxlist_update (\<lambda>_. m_next k m)) k)\<lparr>m_owner := (m_owner k)(m := None)\<rparr>"
      using k1(1) True by (simp add: chMtxUnlockS_def queue_notempty_def Let_def)
    have "sched_ok k1 = sched_ok k" unfolding e by (rule sched_data) simp_all
    then have "kernel_ok k1" using assms(1) k1(4,5) by (simp add: kernel_ok_def)
    moreover have "chMtxUnlock m k = Some k1" using True k1(1) by (simp add: chMtxUnlock_def queue_notempty_def)
    ultimately show ?thesis using k1 True by (intro that[of k1]) simp_all
  next
    case False
    obtain k' where k': "chSchRescheduleS k1 = Some k'" "sched_ok k'" "resched k1 k'" using reschedule_ok[OF k1(2,3)] .
    note f = resched_same[OF k'(3)]
    have g: "m_owner k' = m_owner k1" "tqueue k' (Q_Mutex m) = tqueue k1 (Q_Mutex m)" using k'(3) by (simp_all add: resched_def)
    show ?thesis
    proof (rule that[of k'])
      show "chMtxUnlock m k = Some k'" using False k1(1) k'(1) by (simp add: chMtxUnlock_def queue_notempty_def)
      show "kernel_ok k'" using kernel_resched[OF k'(3,2) k1(4,5)] .
      show "unharmed (currp k) k k'" using k1(13) unharmed_resched[OF k'(3)] by (rule unharmed_trans)
    qed (use k1 f g in \<open>auto simp: runnable_def\<close>)
  qed
qed

text \<open>All mutexes released, one after the other.\<close>

lemma unlock_loop:
  assumes "queues_ok k" and "current_ok k" and "mutex_but {currp k} k" and "owns k (currp k) ms"
  obtains k' where "loop_while (\<lambda>k. p_mtxlist (thr k (currp k)) \<noteq> None) unlock_first k = Some k'"
    and "queues_ok k'" and "current_ok k'" and "mutex_but {currp k} k'" and "owns k' (currp k) []" and "currp k' = currp k"
    and "rprio k' = rprio k" and "\<And>u. runnable (tst k u) \<Longrightarrow> runnable (tst k' u)"
    and "unharmed (currp k) k k'"
  using assms
proof (induction ms arbitrary: k thesis)
  case Nil
  then have "p_mtxlist (thr k (currp k)) = None" by (simp add: owns_def)
  then have "loop_while (\<lambda>k. p_mtxlist (thr k (currp k)) \<noteq> None) unlock_first k = Some k" by (subst loop_while.simps) simp
  then show ?case using Nil.prems(2-5) by (intro Nil.prems(1)[of k]) simp_all
next
  case (Cons m ms)
  obtain k1 where k1: "unlock_first k = Some k1" "queues_ok k1" "current_ok k1" "mutex_but {currp k} k1"
    "owns k1 (currp k) ms" "currp k1 = currp k" "rprio k1 = rprio k" "\<And>u. runnable (tst k u) \<Longrightarrow> runnable (tst k1 u)"
    "unharmed (currp k) k k1"
    by (rule release_ok[OF Cons.prems(2-5)], rule that)
  have go: "p_mtxlist (thr k (currp k)) \<noteq> None" using Cons.prems(5) by (simp add: owns_def)
  have pre: "mutex_but {currp k1} k1" "owns k1 (currp k1) ms" using k1 by simp_all
  obtain k' where k': "loop_while (\<lambda>k. p_mtxlist (thr k (currp k)) \<noteq> None) unlock_first k1 = Some k'"
    "queues_ok k'" "current_ok k'" "mutex_but {currp k1} k'" "owns k' (currp k1) []" "currp k' = currp k1"
    "rprio k' = rprio k1" "\<And>u. runnable (tst k1 u) \<Longrightarrow> runnable (tst k' u)"
    "unharmed (currp k1) k1 k'"
    by (rule Cons.IH[OF _ k1(2,3) pre], rule that)
  have "unharmed (currp k) k k'" using k1(6,9) k'(9) by (metis unharmed_trans)
  moreover have "loop_while (\<lambda>k. p_mtxlist (thr k (currp k)) \<noteq> None) unlock_first k = Some k'"
    using go k1(1) k'(1) by (subst loop_while.simps) auto
  ultimately show ?case using k' k1 by (intro Cons.prems(1)[of k']) auto
qed

lemma unlock_all_ok:
  assumes "kernel_ok k"
  obtains k' where "chMtxUnlockAll k = Some k'" and "kernel_ok k'" and "p_mtxlist (thr k' (currp k)) = None"
    and "prio k' (currp k) = rprio k (currp k)"
    and "unharmed (currp k) k k'"
proof -
  let ?c = "currp k"
  have q: "queues_ok k" and cur: "current_ok k" and mu: "mutex_ok k" and idle: "runnable (tst k IDLE)"
    using assms(1) by (simp_all add: kernel_ok_def sched_ok_iff)
  have st: "tst k ?c = CH_STATE_CURRENT" using cur by (simp add: current_ok_def)
  have mc: "mutex_but {?c} k" using mu by (simp add: mutex_but_def)
  have rp: "0 < rprio k ?c" using mu st by (simp add: mutex_but_def)
  have "\<exists>ms. owns k ?c ms" using mu by (simp add: mutex_but_def)
  then obtain ms where ms: "owns k ?c ms" by blast
  have bal: "balanced (prio k) (rprio k) (blocker k) ?c (prio k ?c)" using mu by (simp add: mutex_but_def)
  show ?thesis
  proof (cases "p_mtxlist (thr k ?c) = None")
    case True
    then have "ms = []" using ms by (cases ms) (simp_all add: owns_def)
    then have "blocker k w \<noteq> Some ?c" for w using blocker_iff[OF q, of w ?c] ms by (auto simp: owns_def)
    then have "prio k ?c = rprio k ?c" using bal by (simp add: balanced_def)
    then show ?thesis using True assms by (intro that[of k]) (simp_all add: chMtxUnlockAll_def)
  next
    case False
    obtain k1 where k1: "loop_while (\<lambda>k. p_mtxlist (thr k (currp k)) \<noteq> None) unlock_first k = Some k1"
      "queues_ok k1" "current_ok k1" "mutex_but {?c} k1" "owns k1 ?c []" "currp k1 = ?c" "rprio k1 = rprio k"
      "\<And>u. runnable (tst k u) \<Longrightarrow> runnable (tst k1 u)" "unharmed ?c k k1"
      by (rule unlock_loop[OF q cur mc ms], rule that)
    have r1: "rprio k1 ?c = rprio k ?c" using fun_cong[OF k1(7), of ?c] .
    define k2 where "k2 = set_thr ?c (p_prio_update (\<lambda>_. rprio k ?c)) k1"
    have "mutex_but {currp k1} k1" "k2 = set_thr (currp k1) (p_prio_update (\<lambda>_. rprio k ?c)) k1" using k1(4,6) by (simp_all add: k2_def)
    note k2 = set_prio_ok[OF k1(2,3) this(1) rp this(2)]
    have "blocker k1 w \<noteq> Some ?c" for w using blocker_iff[OF k1(2), of w ?c] k1(5) by (auto simp: owns_def)
    then have "balanced (prio k2) (rprio k2) (blocker k2) ?c (prio k2 ?c)"
      using k2 r1 by (simp add: balanced_def) (simp add: k2_def)
    then have m2: "mutex_ok k2" using k2 k1(6) mutex_settled[of ?c k2] by simp
    obtain k' where k': "chSchRescheduleS k2 = Some k'" "sched_ok k'" "resched k2 k'" using reschedule_ok k2 by blast
    note f = resched_same[OF k'(3)]
    have t2: "tst k2 u = tst k1 u" "p_mtxlist (thr k2 u) = p_mtxlist (thr k1 u)" for u by (simp_all add: k2_def)
    have "kernel_ok k'" using kernel_resched[OF k'(3,2) m2] idle k1(8) t2 by simp
    moreover have "set_thr (currp k1) (\<lambda>th. th\<lparr>p_prio := p_realprio th\<rparr>) k1 = k2"
      using k1(6) r1 by (simp add: k2_def set_thr_def)
    then have "chMtxUnlockAll k = Some k'" using False k1(1) k'(1) by (auto simp: chMtxUnlockAll_def)
    moreover have "p_mtxlist (thr k1 ?c) = None" using k1(5) by (simp add: owns_def)
    moreover have "prio k2 ?c = rprio k ?c" by (simp add: k2_def)
    moreover have "unharmed ?c k1 k2" by (simp add: unharmed_def k2_def)
    then have "unharmed ?c k k'" using k1(9) unharmed_resched[OF k'(3)] by (blast intro: unharmed_trans)
    ultimately show ?thesis using f t2 by (intro that[of k']) simp_all
  qed
qed

end
