(* ===== verification/Ch_Timers.thy ===== *)
theory Ch_Timers
  imports Ch_Sched
begin

text \<open>
  The kernel's virtual timers (chvt.c, chvt.h) with a periodic tick: a list in which each timer
  has the number of ticks after the one before it. The header, whose delta is the greatest
  number, is the end of the list. The only timers of the kernel itself are those of waiting
  threads, one each, so that a timer is named by its thread, and the callback is an argument.

  What the list means is the number of ticks until each timer expires; setting, resetting and
  ticking are the obvious functions on these numbers, as long as no delay is zero.
\<close>

primrec vt_insert :: "u32 \<Rightarrow> nat \<Rightarrow> (nat \<times> u32) list \<Rightarrow> (nat \<times> u32) list" where
  "vt_insert delta v [] = [(v, delta)]"
| "vt_insert delta v (p # ps) =
     (if snd p < delta then p # vt_insert (delta - snd p) v ps
      else (v, delta) # (fst p, snd p - delta) # ps)"

text \<open>The delta of a removed timer is added to the next one.\<close>

fun vt_remove :: "nat \<Rightarrow> (nat \<times> u32) list \<Rightarrow> (nat \<times> u32) list" where
  "vt_remove v [] = []"
| "vt_remove v [p] = (if fst p = v then [] else [p])"
| "vt_remove v (p # p' # ps) =
     (if fst p = v then (fst p', snd p' + snd p) # ps else p # vt_remove v (p' # ps))"

definition chVTDoSetI :: "nat \<Rightarrow> u32 \<Rightarrow> kernel \<Rightarrow> kernel" where
  "chVTDoSetI v delay k = k\<lparr>vtlist := vt_insert delay v (vtlist k)\<rparr>"

definition chVTDoResetI :: "nat \<Rightarrow> kernel \<Rightarrow> kernel" where
  "chVTDoResetI v k = k\<lparr>vtlist := vt_remove v (vtlist k)\<rparr>"

definition chVTIsArmedI :: "nat \<Rightarrow> kernel \<Rightarrow> bool" where
  "chVTIsArmedI v k \<longleftrightarrow> v \<in> fst ` set (vtlist k)"

definition chVTResetI :: "nat \<Rightarrow> kernel \<Rightarrow> kernel" where
  "chVTResetI v k = (if chVTIsArmedI v k then chVTDoResetI v k else k)"

definition chVTSetI :: "nat \<Rightarrow> u32 \<Rightarrow> kernel \<Rightarrow> kernel" where
  "chVTSetI v delay k = chVTDoSetI v delay (chVTResetI v k)"

definition chVTIsTimeWithinX :: "u32 \<Rightarrow> u32 \<Rightarrow> u32 \<Rightarrow> bool" where
  "chVTIsTimeWithinX time start stop \<longleftrightarrow> time - start < stop - start"

definition chVTGetSystemTimeX :: "kernel \<Rightarrow> u32" where
  "chVTGetSystemTimeX k = vt_systime k"

text \<open>The first timer expires; the loop goes on while the next one has no ticks left.\<close>

definition vt_expired :: "kernel \<Rightarrow> bool" where
  "vt_expired k \<longleftrightarrow> (case vtlist k of [] \<Rightarrow> False | p # _ \<Rightarrow> snd p = 0)"

definition vt_fire :: "(nat \<Rightarrow> kernel \<Rightarrow> kernel option) \<Rightarrow> kernel \<Rightarrow> kernel option" where
  "vt_fire fn k = (case vtlist k of [] \<Rightarrow> None | p # ps \<Rightarrow> fn (fst p) (k\<lparr>vtlist := ps\<rparr>))"

definition chVTDoTickI :: "(nat \<Rightarrow> kernel \<Rightarrow> kernel option) \<Rightarrow> kernel \<Rightarrow> kernel option" where
  "chVTDoTickI fn k =
     (let k1 = k\<lparr>vt_systime := vt_systime k + 1\<rparr> in
      case vtlist k1 of
        [] \<Rightarrow> Some k1
      | p # ps \<Rightarrow> loop_while vt_expired (vt_fire fn) (k1\<lparr>vtlist := (fst p, snd p - 1) # ps\<rparr>))"

subsection \<open>The ticks left\<close>

primrec due :: "(nat \<times> u32) list \<Rightarrow> nat \<Rightarrow> nat option" where
  "due [] v = None"
| "due (p # ps) v = (if fst p = v then Some (unat (snd p)) else map_option ((+) (unat (snd p))) (due ps v))"

primrec extent :: "(nat \<times> u32) list \<Rightarrow> nat" where
  "extent [] = 0"
| "extent (p # ps) = unat (snd p) + extent ps"

definition timers_ok :: "(nat \<times> u32) list \<Rightarrow> bool" where
  "timers_ok ps \<longleftrightarrow> distinct (map fst ps) \<and> extent ps < 2 ^ 32 \<and> (ps \<noteq> [] \<longrightarrow> snd (hd ps) \<noteq> 0)"

lemma due_None: "due ps v = None \<longleftrightarrow> v \<notin> fst ` set ps"
  by (induction ps) auto

lemma due_le_extent: "due ps v = Some n \<Longrightarrow> n \<le> extent ps"
  by (induction ps arbitrary: n) (auto split: if_splits)

text \<open>Setting a timer.\<close>

lemma insert_names: "set (map fst (vt_insert n v ps)) = insert v (set (map fst ps))"
  by (induction ps arbitrary: n) auto

lemma insert_distinct: "distinct (map fst ps) \<Longrightarrow> v \<notin> set (map fst ps) \<Longrightarrow> distinct (map fst (vt_insert n v ps))"
proof (induction ps arbitrary: n)
  case (Cons p ps)
  then show ?case using insert_names[of "n - snd p" v ps] by auto
qed simp

lemma unat_sub_below: "d < n \<Longrightarrow> unat (n - d) = unat n - unat (d :: u32)"
  by (simp add: unat_sub less_imp_le)

lemma insert_extent: "extent (vt_insert n v ps) = max (unat n) (extent ps)"
proof (induction ps arbitrary: n)
  case (Cons p ps)
  show ?case
  proof (cases "snd p < n")
    case True
    then have "unat (snd p) < unat n" by (simp add: word_less_nat_alt)
    then show ?thesis using True Cons[of "n - snd p"] by (simp add: unat_sub_below max_def) linarith
  next
    case False
    then have "unat n \<le> unat (snd p)" by (simp add: word_less_nat_alt)
    then show ?thesis using False by (simp add: unat_sub max_def)
  qed
qed simp

lemma insert_due:
  assumes "v \<notin> fst ` set ps"
  shows "due (vt_insert n v ps) w = (if w = v then Some (unat n) else due ps w)"
  using assms
proof (induction ps arbitrary: n)
  case (Cons p ps)
  show ?case
  proof (cases "snd p < n")
    case True
    then have "unat (snd p) < unat n" by (simp add: word_less_nat_alt)
    then show ?thesis using True Cons.IH[of "n - snd p"] Cons.prems by (auto simp: unat_sub_below)
  next
    case False
    then have "unat n \<le> unat (snd p)" by (simp add: word_less_nat_alt)
    then show ?thesis using False Cons.prems
      by (auto simp: unat_sub option.map_comp comp_def intro!: option.map_cong)
  qed
qed simp

lemma insert_ok:
  assumes "timers_ok ps" and "v \<notin> fst ` set ps" and "n \<noteq> 0"
  shows "timers_ok (vt_insert n v ps)"
proof -
  have "snd (hd (vt_insert n v ps)) \<noteq> 0" using assms(1,3) by (cases ps) (auto simp: timers_ok_def)
  then show ?thesis using assms insert_distinct[of ps v n] unsigned_less[of n, where ?'a = nat] by (simp add: timers_ok_def insert_extent)
qed

text \<open>Resetting a timer.\<close>

lemma remove_names: "set (map fst (vt_remove v ps)) \<subseteq> set (map fst ps)"
  by (induction v ps rule: vt_remove.induct) auto

lemma remove_extent: "extent ps < 2 ^ 32 \<Longrightarrow> extent (vt_remove v ps) \<le> extent ps"
  by (induction v ps rule: vt_remove.induct) (auto simp: unat_word_ariths mod_less)

lemma remove_due:
  assumes "distinct (map fst ps)" and "extent ps < 2 ^ 32"
  shows "due (vt_remove v ps) w = (if w = v then None else due ps w)"
  using assms
proof (induction v ps rule: vt_remove.induct)
  case (3 v p p' ps)
  have "unat (snd p' + snd p) = unat (snd p) + unat (snd p')"
    using 3(3) by (simp add: unat_word_ariths mod_less)
  moreover have "fst p = v \<Longrightarrow> due ps v = None" "fst p = v \<Longrightarrow> fst p' \<noteq> v" using 3(2) by (auto simp: due_None)
  ultimately show ?case using 3 by (auto simp: option.map_comp comp_def add.assoc intro!: option.map_cong)
qed auto

lemma remove_ok:
  assumes "timers_ok ps"
  shows "timers_ok (vt_remove v ps)"
proof -
  have "distinct (map fst (vt_remove v ps))" if "distinct (map fst ps)" for ps :: "(nat \<times> u32) list"
    using that
  proof (induction v ps rule: vt_remove.induct)
    case (3 v p p' ps)
    then show ?case using remove_names[of v "p' # ps"] by auto
  qed auto
  moreover have "snd (hd (vt_remove v ps)) \<noteq> 0" if "vt_remove v ps \<noteq> []"
  proof (cases "(v, ps)" rule: vt_remove.cases)
    case (3 v' p p' qs)
    then have "unat (snd p' + snd p) = unat (snd p') + unat (snd p)" "snd p \<noteq> 0"
      using assms by (simp_all add: timers_ok_def unat_word_ariths mod_less)
    then have "snd p' + snd p \<noteq> 0" by (metis add_is_0 unat_0 unat_eq_zero)
    then show ?thesis using 3 \<open>snd p \<noteq> 0\<close> by simp
  qed (use that assms in \<open>auto simp: timers_ok_def split: if_splits\<close>)
  ultimately show ?thesis using assms remove_extent[of ps v] by (simp add: timers_ok_def)
qed

text \<open>A tick: every number goes down by one, and the timers that reach zero fire in their order.\<close>

lemma tick_head:
  assumes "timers_ok (p # ps)"
  shows "due ((fst p, snd p - 1) # ps) w = map_option (\<lambda>n. n - 1) (due (p # ps) w)"
    and "distinct (map fst ((fst p, snd p - 1) # ps))" and "extent ((fst p, snd p - 1) # ps) < 2 ^ 32"
proof -
  have "snd p \<noteq> 0" using assms by (simp add: timers_ok_def)
  then have u: "unat (snd p - 1) = unat (snd p) - 1" "0 < unat (snd p)"
    by (simp_all add: unat_minus_one unat_gt_0)
  show "due ((fst p, snd p - 1) # ps) w = map_option (\<lambda>n. n - 1) (due (p # ps) w)"
    using u by (auto simp del: One_nat_def simp: option.map_comp comp_def intro!: option.map_cong)
  show "distinct (map fst ((fst p, snd p - 1) # ps))" using assms by (simp add: timers_ok_def)
  have "unat (snd p) + extent ps < 2 ^ 32" using assms by (simp add: timers_ok_def)
  then show "extent ((fst p, snd p - 1) # ps) < 2 ^ 32" using u by (simp del: One_nat_def)
qed

text \<open>
  The loop over the expired timers ends, and calls the callback of each of them: what one call
  keeps (P), does (Q) and leaves alone (S) is kept, done and left alone by the loop.
\<close>

lemma fire_all:
  assumes "\<And>k p ps. P k \<Longrightarrow> vtlist k = p # ps \<Longrightarrow> snd p = 0 \<Longrightarrow> \<exists>k'. fn (fst p) (k\<lparr>vtlist := ps\<rparr>) = Some k' \<and> P k' \<and>
      Q (fst p) k' \<and> (\<forall>u. Q u k \<longrightarrow> Q u k') \<and> (\<forall>u. u \<noteq> fst p \<longrightarrow> S u k' = S u k) \<and> vtlist k' = ps \<and> vt_systime k' = vt_systime k"
    and "P k" and "distinct (map fst (vtlist k))"
  shows "\<exists>k'. loop_while vt_expired (vt_fire fn) k = Some k' \<and> P k' \<and> vt_systime k' = vt_systime k \<and>
    due (vtlist k') = (\<lambda>w. if due (vtlist k) w = Some 0 then None else due (vtlist k) w) \<and>
    (\<forall>w. due (vtlist k) w = Some 0 \<longrightarrow> Q w k') \<and> (\<forall>u. Q u k \<longrightarrow> Q u k') \<and>
    (\<forall>u. due (vtlist k) u \<noteq> Some 0 \<longrightarrow> S u k' = S u k) \<and> \<not> vt_expired k' \<and> (\<exists>l. vtlist k = l @ vtlist k')"
  using assms(2,3)
proof (induction "vtlist k" arbitrary: k)
  case Nil
  have e: "vtlist k = []" using Nil.hyps by simp
  then have n: "\<not> vt_expired k" by (simp add: vt_expired_def)
  then have "loop_while vt_expired (vt_fire fn) k = Some k" by (subst loop_while.simps) simp
  then show ?case using Nil.prems n e by (intro exI[of _ k]) simp
next
  case (Cons p ps)
  have l: "vtlist k = p # ps" using Cons.hyps(2) by simp
  show ?case
  proof (cases "snd p = 0")
    case False
    then have n: "\<not> vt_expired k" using l by (simp add: vt_expired_def)
    then have r: "loop_while vt_expired (vt_fire fn) k = Some k" by (subst loop_while.simps) simp
    have "due (vtlist k) w \<noteq> Some 0" for w using False by (auto simp: l unat_eq_zero split: if_splits)
    then show ?thesis using r n Cons.prems by (intro exI[of _ k]) (simp add: fun_eq_iff)
  next
    case True
    obtain k1 where k1: "fn (fst p) (k\<lparr>vtlist := ps\<rparr>) = Some k1" "P k1" "Q (fst p) k1" "\<forall>u. Q u k \<longrightarrow> Q u k1"
      "\<forall>u. u \<noteq> fst p \<longrightarrow> S u k1 = S u k" "vtlist k1 = ps" "vt_systime k1 = vt_systime k"
      using assms(1)[OF Cons.prems(1) l True] by blast
    have go: "vt_expired k" "vt_fire fn k = Some k1" using True k1(1) l by (simp_all add: vt_expired_def vt_fire_def)
    have d: "distinct (map fst (vtlist k1))" using Cons.prems(2) l k1(6) by simp
    obtain k' where k': "loop_while vt_expired (vt_fire fn) k1 = Some k'" "P k'" "vt_systime k' = vt_systime k1"
      "due (vtlist k') = (\<lambda>w. if due ps w = Some 0 then None else due ps w)"
      "\<forall>w. due ps w = Some 0 \<longrightarrow> Q w k'" "\<forall>u. Q u k1 \<longrightarrow> Q u k'" "\<forall>u. due ps u \<noteq> Some 0 \<longrightarrow> S u k' = S u k1"
      "\<not> vt_expired k'" "\<exists>l. ps = l @ vtlist k'"
      using Cons.hyps(1)[OF k1(6)[symmetric] k1(2) d] k1(6) by auto
    have e: "due (vtlist k) w = (if w = fst p then Some 0 else due ps w)" for w
      using True by (cases "due ps w") (auto simp: l)
    have "due ps (fst p) = None" using Cons.prems(2) l by (simp add: due_None image_iff)
    then have "due (vtlist k') = (\<lambda>w. if due (vtlist k) w = Some 0 then None else due (vtlist k) w)"
      by (auto simp: fun_eq_iff k'(4) e)
    moreover have "loop_while vt_expired (vt_fire fn) k = Some k'" using go k'(1) by (subst loop_while.simps) simp
    moreover obtain l' where "ps = l' @ vtlist k'" using k'(9) by blast
    then have "\<exists>l. vtlist k = l @ vtlist k'" by (metis append_Cons l)
    moreover have "Q w k'" if "due (vtlist k) w = Some 0" for w
      using that k'(5,6) k1(3) unfolding e by (cases "w = fst p") auto
    moreover have "Q u k'" if "Q u k" for u using that k'(6) k1(4) by blast
    moreover have "S u k' = S u k" if "due (vtlist k) u \<noteq> Some 0" for u
      using that k'(7) k1(5) unfolding e by (cases "u = fst p") auto
    moreover have "P k' \<and> vt_systime k' = vt_systime k \<and> \<not> vt_expired k'" using k'(2,3,8) k1(7) by simp
    ultimately show ?thesis by (intro exI[of _ k']) blast
  qed
qed

end
