(* ===== verification/Ch_Threads.thy ===== *)
theory Ch_Threads
  imports Ch_Protocol Ch_Timers
begin

text \<open>
  Threads (chthreads.c, chthreads.h, the sleeping part of chschd.c) and event flags
  (chevents.c, chevents.h): creation and end, sleeping, suspension, the queues of threads, the
  waking by a timer, and the tick of the system timer.

  What a thread does after it has slept is done in the same critical section in which the
  kernel switches to it; settle is the part that all operations with a timeout share.
\<close>

subsection \<open>Timeouts\<close>

text \<open>The callback of a waiting thread's timer.\<close>

definition chSemFastSignalI :: "nat \<Rightarrow> kernel \<Rightarrow> kernel" where
  "chSemFastSignalI s k = k\<lparr>s_cnt := (s_cnt k)(s := s_cnt k s + 1)\<rparr>"

definition wakeup :: "nat \<Rightarrow> kernel \<Rightarrow> kernel option" where
  "wakeup tp k =
     (let woken = (\<lambda>k. chSchReadyI tp (set_thr tp (p_u_update (\<lambda>_. U_Msg MSG_TIMEOUT)) k))
      in case tst k tp of
           CH_STATE_READY \<Rightarrow> Some k
         | CH_STATE_SUSPENDED \<Rightarrow>
             (case p_u (thr k tp) of U_Ref r \<Rightarrow> woken (k\<lparr>tref := (tref k)(r := None)\<rparr>) | _ \<Rightarrow> None)
         | CH_STATE_WTSEM \<Rightarrow>
             (case p_u (thr k tp) of U_Sem s \<Rightarrow> woken (queue_dequeue tp (chSemFastSignalI s k)) | _ \<Rightarrow> None)
         | CH_STATE_WTCOND \<Rightarrow> woken (queue_dequeue tp k)
         | CH_STATE_QUEUED \<Rightarrow> woken (queue_dequeue tp k)
         | _ \<Rightarrow> woken k)"

definition chSchGoSleepTimeoutS :: "tstate \<Rightarrow> u32 \<Rightarrow> kernel \<Rightarrow> kernel option" where
  "chSchGoSleepTimeoutS newstate time k =
     (if TIME_INFINITE \<noteq> time then chSchGoSleepS newstate (chVTDoSetI (currp k) time k)
      else chSchGoSleepS newstate k)"

text \<open>What the woken thread does first, and the message it gets.\<close>

definition settle :: "kernel \<Rightarrow> kernel" where
  "settle k = (if chVTIsArmedI (currp k) k then chVTDoResetI (currp k) k else k)"

definition rdymsg :: "kernel \<Rightarrow> int option" where
  "rdymsg k = (case p_u (thr k (currp k)) of U_Msg m \<Rightarrow> Some m | _ \<Rightarrow> None)"

definition chSysTimerHandlerI :: "kernel \<Rightarrow> kernel option" where
  "chSysTimerHandlerI = chVTDoTickI wakeup"

subsection \<open>Threads\<close>

definition CH_FLAG_MODE_STATIC :: u8 where "CH_FLAG_MODE_STATIC = 0"
definition CH_FLAG_TERMINATE :: u8 where "CH_FLAG_TERMINATE = 4"

definition thread_init :: "nat \<Rightarrow> u32 \<Rightarrow> kernel \<Rightarrow> kernel" where
  "thread_init tp newprio =
     set_thr tp (\<lambda>th. th\<lparr>p_prio := newprio, p_state := CH_STATE_WTSTART, p_flags := CH_FLAG_MODE_STATIC,
       p_realprio := newprio, p_mtxlist := None, p_epending := 0, p_waiting := []\<rparr>)"

definition chThdCreateStatic :: "nat \<Rightarrow> u32 \<Rightarrow> kernel \<Rightarrow> kernel option" where
  "chThdCreateStatic tp newprio k = chSchWakeupS tp MSG_OK (thread_init tp newprio k)"

text \<open>A thread created without being started, and its start.\<close>

definition chThdCreateI :: "nat \<Rightarrow> u32 \<Rightarrow> kernel \<Rightarrow> kernel" where
  "chThdCreateI = thread_init"

definition chThdStartI :: "nat \<Rightarrow> kernel \<Rightarrow> kernel option" where
  "chThdStartI = chSchReadyI"

definition chThdSetPriority :: "u32 \<Rightarrow> kernel \<Rightarrow> (u32 \<times> kernel) option" where
  "chThdSetPriority newprio k =
     (let c = currp k; oldprio = rprio k c;
          k1 = (if prio k c = rprio k c \<or> prio k c < newprio then set_thr c (p_prio_update (\<lambda>_. newprio)) k else k)
      in map_option (Pair oldprio) (chSchRescheduleS (set_thr c (p_realprio_update (\<lambda>_. newprio)) k1)))"

definition chThdTerminate :: "nat \<Rightarrow> kernel \<Rightarrow> kernel" where
  "chThdTerminate tp = set_thr tp (p_flags_update (\<lambda>f. f OR CH_FLAG_TERMINATE))"

definition chThdShouldTerminateX :: "kernel \<Rightarrow> bool" where
  "chThdShouldTerminateX k \<longleftrightarrow> p_flags (thr k (currp k)) AND CH_FLAG_TERMINATE \<noteq> 0"

definition chThdSleepS :: "u32 \<Rightarrow> kernel \<Rightarrow> kernel option" where
  "chThdSleepS = chSchGoSleepTimeoutS CH_STATE_SLEEPING"

definition chThdSleepUntil :: "u32 \<Rightarrow> kernel \<Rightarrow> kernel option" where
  "chThdSleepUntil time k =
     (let left = time - chVTGetSystemTimeX k in if 0 < left then chThdSleepS left k else Some k)"

definition chThdSleepUntilWindowed :: "u32 \<Rightarrow> u32 \<Rightarrow> kernel \<Rightarrow> kernel option" where
  "chThdSleepUntilWindowed prev next k =
     (let time = chVTGetSystemTimeX k
      in if chVTIsTimeWithinX time prev next then chThdSleepS (next - time) k else Some k)"

definition ready_waiting :: "kernel \<Rightarrow> kernel option" where
  "ready_waiting k =
     (case p_waiting (thr k (currp k)) of
        [] \<Rightarrow> None
      | t # ts \<Rightarrow> chSchReadyI t (set_thr (currp k) (p_waiting_update (\<lambda>_. ts)) k))"

definition chThdExitS :: "int \<Rightarrow> kernel \<Rightarrow> kernel option" where
  "chThdExitS msg k =
     Option.bind
       (loop_while (\<lambda>k. p_waiting (thr k (currp k)) \<noteq> []) ready_waiting
         (set_thr (currp k) (p_u_update (\<lambda>_. U_Exit msg)) k))
       (chSchGoSleepS CH_STATE_FINAL)"

text \<open>The wait for a thread's end, and the exit code it then reads.\<close>

definition chThdWait :: "nat \<Rightarrow> kernel \<Rightarrow> kernel option" where
  "chThdWait tp k =
     (if tst k tp \<noteq> CH_STATE_FINAL
      then chSchGoSleepS CH_STATE_WTEXIT (set_thr tp (p_waiting_update ((#) (currp k))) k)
      else Some k)"

definition exitcode :: "nat \<Rightarrow> kernel \<Rightarrow> int option" where
  "exitcode tp k = (case p_u (thr k tp) of U_Exit m \<Rightarrow> Some m | _ \<Rightarrow> None)"

text \<open>Threads that wait for a reference to be used, and those in the queue of an object.\<close>

definition chThdSuspendTimeoutS :: "nat \<Rightarrow> u32 \<Rightarrow> kernel \<Rightarrow> kernel option" where
  "chThdSuspendTimeoutS r time k =
     (if TIME_IMMEDIATE = time then Some k
      else chSchGoSleepTimeoutS CH_STATE_SUSPENDED time
        (set_thr (currp k) (p_u_update (\<lambda>_. U_Ref r)) (k\<lparr>tref := (tref k)(r := Some (currp k))\<rparr>)))"

definition chThdSuspendS :: "nat \<Rightarrow> kernel \<Rightarrow> kernel option" where
  "chThdSuspendS r k =
     chSchGoSleepS CH_STATE_SUSPENDED
       (set_thr (currp k) (p_u_update (\<lambda>_. U_Ref r)) (k\<lparr>tref := (tref k)(r := Some (currp k))\<rparr>))"

definition chThdResumeI :: "nat \<Rightarrow> int \<Rightarrow> kernel \<Rightarrow> kernel option" where
  "chThdResumeI r msg k =
     (case tref k r of
        None \<Rightarrow> Some k
      | Some tp \<Rightarrow> chSchReadyI tp (set_thr tp (p_u_update (\<lambda>_. U_Msg msg)) (k\<lparr>tref := (tref k)(r := None)\<rparr>)))"

definition chThdResumeS :: "nat \<Rightarrow> int \<Rightarrow> kernel \<Rightarrow> kernel option" where
  "chThdResumeS r msg k =
     (case tref k r of
        None \<Rightarrow> Some k
      | Some tp \<Rightarrow> chSchWakeupS tp msg (k\<lparr>tref := (tref k)(r := None)\<rparr>))"

definition chThdEnqueueTimeoutS :: "nat \<Rightarrow> u32 \<Rightarrow> kernel \<Rightarrow> kernel option" where
  "chThdEnqueueTimeoutS x time k =
     (if TIME_IMMEDIATE = time then Some k
      else chSchGoSleepTimeoutS CH_STATE_QUEUED time (queue_insert (currp k) (Q_Threads x) k))"

definition chThdDoDequeueNextI :: "nat \<Rightarrow> int \<Rightarrow> kernel \<Rightarrow> kernel option" where
  "chThdDoDequeueNextI x msg k =
     Option.bind (queue_fifo_remove (Q_Threads x) k) (\<lambda>(tp, k1).
       chSchReadyI tp (set_thr tp (p_u_update (\<lambda>_. U_Msg msg)) k1))"

definition chThdDequeueNextI :: "nat \<Rightarrow> int \<Rightarrow> kernel \<Rightarrow> kernel option" where
  "chThdDequeueNextI x msg k = (if queue_notempty (Q_Threads x) k then chThdDoDequeueNextI x msg k else Some k)"

definition chThdDequeueAllI :: "nat \<Rightarrow> int \<Rightarrow> kernel \<Rightarrow> kernel option" where
  "chThdDequeueAllI x msg = loop_while (queue_notempty (Q_Threads x)) (chThdDoDequeueNextI x msg)"

subsection \<open>Events\<close>

definition chEvtGetAndClearEvents :: "u32 \<Rightarrow> kernel \<Rightarrow> u32 \<times> kernel" where
  "chEvtGetAndClearEvents evs k =
     (p_epending (thr k (currp k)) AND evs,
      set_thr (currp k) (p_epending_update (\<lambda>e. e AND NOT evs)) k)"

definition chEvtAddEvents :: "u32 \<Rightarrow> kernel \<Rightarrow> u32 \<times> kernel" where
  "chEvtAddEvents evs k =
     (let k1 = set_thr (currp k) (p_epending_update (\<lambda>e. e OR evs)) k
      in (p_epending (thr k1 (currp k)), k1))"

text \<open>The conditions to wake a thread that waits for one of some events, or for all of them.\<close>

definition evt_arrived :: "ch_thread \<Rightarrow> bool" where
  "evt_arrived th \<longleftrightarrow>
     (case p_u th of
        U_Events m \<Rightarrow>
          p_state th = CH_STATE_WTOREVT \<and> p_epending th AND m \<noteq> 0 \<or>
          p_state th = CH_STATE_WTANDEVT \<and> p_epending th AND m = m
      | _ \<Rightarrow> False)"

definition chEvtSignalI :: "nat \<Rightarrow> u32 \<Rightarrow> kernel \<Rightarrow> kernel option" where
  "chEvtSignalI tp evs k =
     (let k1 = set_thr tp (p_epending_update (\<lambda>e. e OR evs)) k
      in if evt_arrived (thr k1 tp) then chSchReadyI tp (set_thr tp (p_u_update (\<lambda>_. U_Msg MSG_OK)) k1)
         else Some k1)"

definition chEvtSignal :: "nat \<Rightarrow> u32 \<Rightarrow> kernel \<Rightarrow> kernel option" where
  "chEvtSignal tp evs k = Option.bind (chEvtSignalI tp evs k) chSchRescheduleS"

text \<open>
  The start of a wait, until the caller has its events, gives up or sleeps, and the end of
  one that has slept: the events found.
\<close>

definition evt_take_any :: "u32 \<Rightarrow> kernel \<Rightarrow> u32 \<times> kernel" where
  "evt_take_any evs k =
     (let m = p_epending (thr k (currp k)) AND evs
      in (m, set_thr (currp k) (p_epending_update (\<lambda>e. e AND NOT m)) k))"

definition evt_take_one :: "u32 \<Rightarrow> kernel \<Rightarrow> u32 \<times> kernel" where
  "evt_take_one evs k =
     (let m0 = p_epending (thr k (currp k)) AND evs; m = m0 XOR (m0 AND (m0 - 1))
      in (m, set_thr (currp k) (p_epending_update (\<lambda>e. e AND NOT m)) k))"

definition evt_take_all :: "u32 \<Rightarrow> kernel \<Rightarrow> u32 \<times> kernel" where
  "evt_take_all evs k = (evs, set_thr (currp k) (p_epending_update (\<lambda>e. e AND NOT evs)) k)"

definition evt_sleep :: "tstate \<Rightarrow> u32 \<Rightarrow> u32 \<Rightarrow> kernel \<Rightarrow> (u32 \<times> kernel) option" where
  "evt_sleep s evs time k =
     (if TIME_IMMEDIATE = time then Some (0, k)
      else map_option (Pair 0) (chSchGoSleepTimeoutS s time (set_thr (currp k) (p_u_update (\<lambda>_. U_Events evs)) k)))"

definition chEvtWaitAnyTimeout :: "u32 \<Rightarrow> u32 \<Rightarrow> kernel \<Rightarrow> (u32 \<times> kernel) option" where
  "chEvtWaitAnyTimeout evs time k =
     (if p_epending (thr k (currp k)) AND evs = 0 then evt_sleep CH_STATE_WTOREVT evs time k
      else Some (evt_take_any evs k))"

definition chEvtWaitOneTimeout :: "u32 \<Rightarrow> u32 \<Rightarrow> kernel \<Rightarrow> (u32 \<times> kernel) option" where
  "chEvtWaitOneTimeout evs time k =
     (if p_epending (thr k (currp k)) AND evs = 0 then evt_sleep CH_STATE_WTOREVT evs time k
      else Some (evt_take_one evs k))"

definition chEvtWaitAllTimeout :: "u32 \<Rightarrow> u32 \<Rightarrow> kernel \<Rightarrow> (u32 \<times> kernel) option" where
  "chEvtWaitAllTimeout evs time k =
     (if p_epending (thr k (currp k)) AND evs \<noteq> evs then evt_sleep CH_STATE_WTANDEVT evs time k
      else Some (evt_take_all evs k))"

text \<open>The versions without a timeout are the same code with an endless sleep.\<close>

definition chEvtWaitAny :: "u32 \<Rightarrow> kernel \<Rightarrow> (u32 \<times> kernel) option" where
  "chEvtWaitAny evs k =
     (if p_epending (thr k (currp k)) AND evs = 0
      then map_option (Pair 0)
        (chSchGoSleepS CH_STATE_WTOREVT (set_thr (currp k) (p_u_update (\<lambda>_. U_Events evs)) k))
      else Some (evt_take_any evs k))"

definition chEvtWaitOne :: "u32 \<Rightarrow> kernel \<Rightarrow> (u32 \<times> kernel) option" where
  "chEvtWaitOne evs k =
     (if p_epending (thr k (currp k)) AND evs = 0
      then map_option (Pair 0)
        (chSchGoSleepS CH_STATE_WTOREVT (set_thr (currp k) (p_u_update (\<lambda>_. U_Events evs)) k))
      else Some (evt_take_one evs k))"

definition chEvtWaitAll :: "u32 \<Rightarrow> kernel \<Rightarrow> (u32 \<times> kernel) option" where
  "chEvtWaitAll evs k =
     (if p_epending (thr k (currp k)) AND evs \<noteq> evs
      then map_option (Pair 0)
        (chSchGoSleepS CH_STATE_WTANDEVT (set_thr (currp k) (p_u_update (\<lambda>_. U_Events evs)) k))
      else Some (evt_take_all evs k))"

text \<open>The handlers that are called for some events, by their numbers in the order of the calls.\<close>

definition dispatch_body :: "nat \<times> u32 \<times> nat list \<Rightarrow> (nat \<times> u32 \<times> nat list) option" where
  "dispatch_body = (\<lambda>(eid, evs, called).
     Some (if evs AND push_bit eid 1 \<noteq> 0 then (eid + 1, evs AND NOT (push_bit eid 1), called @ [eid])
           else (eid + 1, evs, called)))"

definition chEvtDispatch :: "u32 \<Rightarrow> nat list option" where
  "chEvtDispatch evs = map_option (snd \<circ> snd) (loop_while (\<lambda>(_, evs, _). evs \<noteq> 0) dispatch_body (0, evs, []))"

subsection \<open>Event sources\<close>

record listener =
  el_listener :: nat
  el_events :: u32
  el_flags :: u32
  el_wflags :: u32

definition chEvtRegisterMaskWithFlags ::
  "nat \<Rightarrow> u32 \<Rightarrow> u32 \<Rightarrow> kernel \<Rightarrow> (nat \<times> listener) list \<Rightarrow> (nat \<times> listener) list" where
  "chEvtRegisterMaskWithFlags elp evs wflags k es =
     (elp, \<lparr>el_listener = currp k, el_events = evs, el_flags = 0, el_wflags = wflags\<rparr>) # es"

primrec chEvtUnregister :: "nat \<Rightarrow> (nat \<times> listener) list \<Rightarrow> (nat \<times> listener) list" where
  "chEvtUnregister elp [] = []"
| "chEvtUnregister elp (e # es) = (if fst e = elp then es else e # chEvtUnregister elp es)"

primrec chEvtBroadcastFlagsI ::
  "(nat \<times> listener) list \<Rightarrow> u32 \<Rightarrow> kernel \<Rightarrow> ((nat \<times> listener) list \<times> kernel) option" where
  "chEvtBroadcastFlagsI [] flags k = Some ([], k)"
| "chEvtBroadcastFlagsI (e # es) flags k =
     (let l = (snd e)\<lparr>el_flags := el_flags (snd e) OR flags\<rparr>
      in Option.bind
           (if flags = 0 \<or> el_flags l AND el_wflags l \<noteq> 0 then chEvtSignalI (el_listener l) (el_events l) k else Some k)
           (\<lambda>k1. map_option (\<lambda>(es', k2). ((fst e, l) # es', k2)) (chEvtBroadcastFlagsI es flags k1)))"

definition chEvtGetAndClearFlagsI :: "listener \<Rightarrow> u32 \<times> listener" where
  "chEvtGetAndClearFlagsI l = (el_flags l, l\<lparr>el_flags := 0\<rparr>)"

definition chEvtBroadcastFlags ::
  "(nat \<times> listener) list \<Rightarrow> u32 \<Rightarrow> kernel \<Rightarrow> ((nat \<times> listener) list \<times> kernel) option" where
  "chEvtBroadcastFlags es flags k =
     Option.bind (chEvtBroadcastFlagsI es flags k) (\<lambda>(es', k1). map_option (Pair es') (chSchRescheduleS k1))"

subsection \<open>The start of the kernel\<close>

text \<open>The main thread runs, and the idle thread is created.\<close>

definition MAIN :: nat where "MAIN = 1"

definition chSysInit :: "kernel \<Rightarrow> kernel option" where
  "chSysInit k =
     (let k1 = set_queue Q_Ready [] k; k2 = k1\<lparr>vtlist := [], vt_systime := 0\<rparr>;
          k3 = set_thr MAIN (p_state_update (\<lambda>_. CH_STATE_CURRENT)) ((thread_init MAIN NORMALPRIO k2)\<lparr>currp := MAIN\<rparr>)
      in chThdCreateStatic IDLE IDLEPRIO k3)"

end
