(* ===== verification/Ch_Rtos.thy ===== *)
theory Ch_Rtos
  imports Ch_Threads
begin

text \<open>
  What the kernel promises beyond its queues and mutexes: each timer belongs to a thread that
  sleeps with a timeout or has just been woken, a reference is set exactly while its thread
  is suspended, a thread that waits for another one's end is in that one's list, and no thread
  sleeps while the events it waits for are pending. The two moves that all operations are
  made of, a thread put to sleep and a thread woken, keep the order of the kernel.
\<close>

subsection \<open>The invariant\<close>

definition timed_state :: "tstate \<Rightarrow> bool" where
  "timed_state s \<longleftrightarrow>
     s \<in> {CH_STATE_SUSPENDED, CH_STATE_QUEUED, CH_STATE_SLEEPING, CH_STATE_WTOREVT, CH_STATE_WTANDEVT}"

definition timing_ok :: "kernel \<Rightarrow> bool" where
  "timing_ok k \<longleftrightarrow> timers_ok (vtlist k) \<and>
     (\<forall>v\<in>fst ` set (vtlist k). timed_state (tst k v) \<or> runnable (tst k v))"

definition refs_ok :: "kernel \<Rightarrow> bool" where
  "refs_ok k \<longleftrightarrow>
     (\<forall>r t. tref k r = Some t \<longleftrightarrow> tst k t = CH_STATE_SUSPENDED \<and> p_u (thr k t) = U_Ref r) \<and>
     (\<forall>t. tst k t = CH_STATE_SUSPENDED \<longrightarrow> (\<exists>r. p_u (thr k t) = U_Ref r))"

definition waits_ok :: "kernel \<Rightarrow> bool" where
  "waits_ok k \<longleftrightarrow>
     (\<forall>u. distinct (p_waiting (thr k u)) \<and> (tst k u = CH_STATE_FINAL \<longrightarrow> p_waiting (thr k u) = [])) \<and>
     (\<forall>t. tst k t = CH_STATE_WTEXIT \<longleftrightarrow> (\<exists>u. t \<in> set (p_waiting (thr k u)))) \<and>
     (\<forall>u u' t. t \<in> set (p_waiting (thr k u)) \<longrightarrow> t \<in> set (p_waiting (thr k u')) \<longrightarrow> u = u')"

definition evt_ok :: "ch_thread \<Rightarrow> bool" where
  "evt_ok th \<longleftrightarrow> \<not> evt_arrived th \<and>
     (p_state th = CH_STATE_WTOREVT \<or> p_state th = CH_STATE_WTANDEVT \<longrightarrow> (\<exists>m. p_u th = U_Events m))"

definition links_ok :: "kernel \<Rightarrow> bool" where
  "links_ok k \<longleftrightarrow> refs_ok k \<and> waits_ok k \<and> (\<forall>t. evt_ok (thr k t))"

definition aux_ok :: "kernel \<Rightarrow> bool" where
  "aux_ok k \<longleftrightarrow> timing_ok k \<and> links_ok k"

text \<open>In the middle of an operation, and at its end.\<close>

definition kernel_mid :: "kernel \<Rightarrow> bool" where
  "kernel_mid k \<longleftrightarrow> queues_ok k \<and> current_ok k \<and> mutex_ok k \<and> runnable (tst k IDLE)"

definition rtos_ok :: "kernel \<Rightarrow> bool" where
  "rtos_ok k \<longleftrightarrow> kernel_ok k \<and> aux_ok k \<and> \<not> chVTIsArmedI (currp k) k"

lemma kernel_mid: "kernel_ok k \<longleftrightarrow> kernel_mid k \<and> (\<forall>t\<in>set (tqueue k Q_Ready). prio k t \<le> prio k (currp k))"
  by (auto simp: kernel_ok_def kernel_mid_def sched_ok_iff)

subsection \<open>What the parts look at\<close>

lemma refs_cong:
  assumes "refs_ok k" and "tref k' = tref k" and "\<And>t. tst k' t = CH_STATE_SUSPENDED \<longleftrightarrow> tst k t = CH_STATE_SUSPENDED"
    and "\<And>t. tst k t = CH_STATE_SUSPENDED \<Longrightarrow> p_u (thr k' t) = p_u (thr k t)"
  shows "refs_ok k'"
  using assms unfolding refs_ok_def by metis

lemma waits_cong:
  assumes "waits_ok k" and "\<And>u. p_waiting (thr k' u) = p_waiting (thr k u)"
    and "\<And>t. tst k' t = CH_STATE_WTEXIT \<longleftrightarrow> tst k t = CH_STATE_WTEXIT"
    and "\<And>t. tst k' t = CH_STATE_FINAL \<Longrightarrow> tst k t = CH_STATE_FINAL"
  shows "waits_ok k'"
  using assms unfolding waits_ok_def by (metis (no_types, lifting))

lemma timing_cong:
  assumes "timing_ok k" and "vtlist k' = vtlist k"
    and "\<And>t. t \<in> fst ` set (vtlist k) \<Longrightarrow> timed_state (tst k t) \<or> runnable (tst k t) \<Longrightarrow> timed_state (tst k' t) \<or> runnable (tst k' t)"
  shows "timing_ok k'"
  using assms by (simp add: timing_ok_def)

lemma evt_ok_cong:
  assumes "evt_ok (thr k t)" and "thr k' t = (thr k t)\<lparr>p_state := s\<rparr>" and "runnable s"
  shows "evt_ok (thr k' t)"
  using assms by (auto simp: evt_ok_def evt_arrived_def runnable_def split: state_data.splits)

lemma evt_ok_other: "p_state th \<noteq> CH_STATE_WTOREVT \<Longrightarrow> p_state th \<noteq> CH_STATE_WTANDEVT \<Longrightarrow> evt_ok th"
  by (simp add: evt_ok_def evt_arrived_def split: state_data.splits)

lemma resched_thr:
  assumes "resched k k'"
  shows "thr k' t = (thr k t)\<lparr>p_state := tst k' t\<rparr>" and "tst k' t \<noteq> tst k t \<Longrightarrow> runnable (tst k' t) \<and> runnable (tst k t)"
proof -
  have e: "thr k' t = thr k t \<or> runnable (tst k t) \<and> runnable (tst k' t) \<and> thr k' t = (thr k t)\<lparr>p_state := tst k' t\<rparr>"
    using assms by (simp add: resched_def)
  then show "thr k' t = (thr k t)\<lparr>p_state := tst k' t\<rparr>" by auto
  show "tst k' t \<noteq> tst k t \<Longrightarrow> runnable (tst k' t) \<and> runnable (tst k t)" using e by metis
qed

lemma runnable_simps [simp]:
  "runnable CH_STATE_READY" "runnable CH_STATE_CURRENT" "\<not> runnable CH_STATE_SUSPENDED" "\<not> runnable CH_STATE_QUEUED"
  "\<not> runnable CH_STATE_SLEEPING" "\<not> runnable CH_STATE_WTOREVT" "\<not> runnable CH_STATE_WTANDEVT" "\<not> runnable CH_STATE_WTEXIT"
  "\<not> runnable CH_STATE_FINAL" "\<not> runnable CH_STATE_WTMTX" "\<not> runnable CH_STATE_WTSTART"
  by (simp_all add: runnable_def)

lemma timed_simps [simp]:
  "\<not> timed_state CH_STATE_READY" "\<not> timed_state CH_STATE_CURRENT" "timed_state CH_STATE_SUSPENDED" "timed_state CH_STATE_QUEUED"
  "timed_state CH_STATE_SLEEPING" "timed_state CH_STATE_WTOREVT" "timed_state CH_STATE_WTANDEVT" "\<not> timed_state CH_STATE_WTEXIT"
  "\<not> timed_state CH_STATE_FINAL" "\<not> timed_state CH_STATE_WTMTX" "\<not> timed_state CH_STATE_WTSTART"
  by (simp_all add: timed_state_def)

lemma aux_resched:
  assumes "resched k k'" and "aux_ok k"
  shows "aux_ok k'"
proof -
  note t = resched_thr[OF assms(1)]
  have d: "p_u (thr k' t) = p_u (thr k t)" "p_waiting (thr k' t) = p_waiting (thr k t)" for t by (subst t(1), simp)+
  have s: "tst k' t = s \<longleftrightarrow> tst k t = s" if "\<not> runnable s" for t s
    using t(2)[of t] that by (cases "tst k' t = tst k t") auto
  have "timing_ok k'"
  proof (rule timing_cong)
    show "vtlist k' = vtlist k" using assms(1) by (simp add: resched_def)
    fix u assume "timed_state (tst k u) \<or> runnable (tst k u)"
    then show "timed_state (tst k' u) \<or> runnable (tst k' u)" using t(2)[of u] by (cases "tst k' u = tst k u") auto
  qed (use assms(2) in \<open>simp add: aux_ok_def links_ok_def\<close>)
  moreover have "refs_ok k'"
    by (rule refs_cong[of k]) (use assms in \<open>simp_all add: aux_ok_def links_ok_def resched_def[of k] s d(1)\<close>)
  moreover have "waits_ok k'"
    by (rule waits_cong[of k]) (use assms(2) in \<open>simp_all add: aux_ok_def links_ok_def s d(2)\<close>)
  moreover have "evt_ok (thr k' u)" for u
  proof (cases "tst k' u = tst k u")
    case True
    then have "thr k' u = thr k u" using t(1)[of u] by simp
    then show ?thesis using assms(2) by (simp add: aux_ok_def links_ok_def)
  next
    case False
    then show ?thesis using evt_ok_cong[OF _ t(1)] t(2)[of u] assms(2) by (simp add: aux_ok_def links_ok_def)
  qed
  ultimately show ?thesis by (simp add: aux_ok_def links_ok_def)
qed

subsection \<open>A thread put to sleep\<close>

lemma mutex_frame:
  assumes "mutex_but X k" and "m_owner k' = m_owner k" and "m_next k' = m_next k"
    and "\<And>m. tqueue k' (Q_Mutex m) = tqueue k (Q_Mutex m)" and "\<And>t. prio k' t = prio k t" and "\<And>t. rprio k' t = rprio k t"
    and "\<And>t. p_mtxlist (thr k' t) = p_mtxlist (thr k t)" and "\<And>t. tst k' t = CH_STATE_WTMTX \<longleftrightarrow> tst k t = CH_STATE_WTMTX"
    and "\<And>t. tst k t = CH_STATE_WTMTX \<Longrightarrow> p_u (thr k' t) = p_u (thr k t)" and "\<And>t. tst k' t \<noteq> CH_STATE_FINAL \<Longrightarrow> 0 < rprio k t"
  shows "mutex_but X k'"
proof -
  have "owns k' = owns k" by (simp add: fun_eq_iff owns_def assms(2,3,7))
  moreover have "blocker k' = blocker k" by (simp add: fun_eq_iff blocker_def assms(2,8,9) cong: state_data.case_cong)
  ultimately show ?thesis using assms(1,10) by (simp add: mutex_but_def assms(2,4,5,6,8))
qed

definition put_in :: "tstate \<Rightarrow> nat \<Rightarrow> kernel \<Rightarrow> kernel \<Rightarrow> bool" where
  "put_in s t k k1 \<longleftrightarrow>
     (if s = CH_STATE_QUEUED then \<exists>x. tqueue k1 = (tqueue k)(Q_Threads x := tqueue k (Q_Threads x) @ [t])
      else tqueue k1 = tqueue k \<and> \<not> queued_state s)"

text \<open>Data of threads that are not in the way of the queues.\<close>

definition same_data :: "nat \<Rightarrow> kernel \<Rightarrow> kernel \<Rightarrow> bool" where
  "same_data t k k1 \<longleftrightarrow>
     (\<forall>u. tst k1 u = tst k u \<and> prio k1 u = prio k u \<and> rprio k1 u = rprio k u \<and> p_mtxlist (thr k1 u) = p_mtxlist (thr k u) \<and>
        (u \<noteq> t \<longrightarrow> p_u (thr k1 u) = p_u (thr k u))) \<and>
     m_owner k1 = m_owner k \<and> m_next k1 = m_next k \<and> currp k1 = currp k"

lemma queues_put_in:
  assumes "queues_but {t} k2" and "tqueue k2 = tqueue k" and "0 < prio k2 t" and "tst k2 t = s" and "put_in s t k k1"
    and "thr k1' = thr k2" and "tqueue k1' = tqueue k1"
  shows "queues_ok k1'"
proof (cases "s = CH_STATE_QUEUED")
  case True
  then obtain x where x: "tqueue k1 = (tqueue k)(Q_Threads x := tqueue k (Q_Threads x) @ [t])" using assms(5) by (auto simp: put_in_def)
  have "queues_ok (set_queue (Q_Threads x) (tqueue k (Q_Threads x) @ [t]) k2)"
  proof (rule queues_insert[OF assms(1)])
    show "seated (Q_Threads x) (thr k2 t)" using True assms(4) by simp
    have "distinct (tqueue k2 (Q_Threads x))" "t \<notin> set (tqueue k2 (Q_Threads x))" using assms(1) by (auto simp: queues_but_def)
    then show "distinct (tqueue k (Q_Threads x) @ [t])" by (simp add: assms(2))
  qed (use assms(2,3) in simp_all)
  then show ?thesis using queues_cong[of k1' "set_queue (Q_Threads x) (tqueue k (Q_Threads x) @ [t]) k2"] x assms(2,6,7) by simp
next
  case False
  then have "tqueue k1' = tqueue k2" "\<not> queued_state s" using assms(2,5,7) by (simp_all add: put_in_def)
  moreover have "queues_ok k2" by (rule queues_settled[OF assms(1)]) (use assms(3,4) \<open>\<not> queued_state s\<close> in simp_all)
  ultimately show ?thesis using queues_cong[of k1' k2] assms(6) by simp
qed

lemma sleep_kernel:
  assumes "kernel_mid k" and "currp k \<noteq> IDLE" and "same_data (currp k) k k1" and "put_in s (currp k) k k1"
    and "\<not> runnable s" and "s \<noteq> CH_STATE_WTMTX"
  obtains k' where "chSchGoSleepS s k1 = Some k'" and "kernel_ok k'"
    and "resched (set_thr (currp k) (p_state_update (\<lambda>_. s)) k1) k'"
    and "aux_ok (set_thr (currp k) (p_state_update (\<lambda>_. s)) k1) \<Longrightarrow> aux_ok k'"
proof -
  let ?c = "currp k"
  have m: "queues_ok k" "current_ok k" "mutex_ok k" "runnable (tst k IDLE)"
    using assms(1) by (simp_all add: kernel_mid_def)
  have st: "tst k ?c = CH_STATE_CURRENT" using m(2) by (simp add: current_ok_def)
  have d: "tst k1 u = tst k u" "prio k1 u = prio k u" "rprio k1 u = rprio k u" "p_mtxlist (thr k1 u) = p_mtxlist (thr k u)"
    "u \<noteq> ?c \<Longrightarrow> p_u (thr k1 u) = p_u (thr k u)" "m_owner k1 = m_owner k" "m_next k1 = m_next k" "currp k1 = ?c" for u
    using assms(3) by (simp_all add: same_data_def)
  have tq: "tqueue k1 (Q_Mutex n) = tqueue k (Q_Mutex n)" "tqueue k1 Q_Ready = tqueue k Q_Ready" for n
    using assms(4) by (auto simp: put_in_def split: if_splits)
  define k2 where "k2 = set_thr ?c (p_state_update (\<lambda>_. s)) k1"
  have f: "tst k2 u = (if u = ?c then s else tst k u)" "prio k2 u = prio k u" "rprio k2 u = rprio k u"
    "p_mtxlist (thr k2 u) = p_mtxlist (thr k u)" "u \<noteq> ?c \<Longrightarrow> p_u (thr k2 u) = p_u (thr k u)" for u
    using d by (simp_all add: k2_def)
  have q2: "queues_ok k2"
  proof (rule queues_put_in[of ?c "k2\<lparr>tqueue := tqueue k\<rparr>" k s k1])
    have "queues_but {?c} k" using m(1) by (rule queues_add) (simp add: st queued_state_def)
    then have "queues_but {?c} (k\<lparr>thr := (thr k)(?c := thr k2 ?c)\<rparr>)"
      using queues_set_thr[of "{?c}" k ?c "\<lambda>_. thr k2 ?c"] by (simp add: set_thr_def)
    moreover have "queues_but {?c} (k2\<lparr>tqueue := tqueue k\<rparr>) = queues_but {?c} (k\<lparr>thr := (thr k)(?c := thr k2 ?c)\<rparr>)"
      by (rule queues_data) (use f in auto)
    ultimately show "queues_but {?c} (k2\<lparr>tqueue := tqueue k\<rparr>)" by simp
    show "put_in s ?c k k1" by (rule assms(4))
    show "tqueue k2 = tqueue k1" by (simp add: k2_def)
  qed (use f sched_pos[OF m(1,2)] in simp_all)
  have rp: "0 < rprio k u" if "tst k2 u \<noteq> CH_STATE_FINAL" for u
  proof -
    have "tst k u \<noteq> CH_STATE_FINAL" using that st by (auto simp: f split: if_splits)
    then show ?thesis using m(3) by (simp add: mutex_but_def)
  qed
  have m2: "mutex_ok k2"
    by (rule mutex_frame[OF m(3)]) (use rp f st assms(6) d tq in \<open>auto simp: k2_def\<close>)
  have cur: "current_ok k1" using m(2) d by (simp add: current_ok_def)
  have ne: "tqueue k1 Q_Ready \<noteq> []" using idle_ready[OF m(1,2,4) assms(2)] tq by force
  have s: "s \<noteq> CH_STATE_CURRENT" "s \<noteq> CH_STATE_READY" using assms(5) by auto
  obtain k' where k': "chSchGoSleepS s k1 = Some k'" "sched_ok k'" "resched k2 k'"
    using go_sleep_ok[of k1 s] q2 cur ne s unfolding k2_def d(8) by metis
  have "runnable (tst k2 IDLE)" using m(4) assms(2) f by simp
  then have "kernel_ok k'" using kernel_resched[OF k'(3,2) m2] by simp
  then show ?thesis using that[of k'] k' aux_resched[OF k'(3)] by (simp add: k2_def)
qed

subsection \<open>A thread woken\<close>

lemma wake_kernel:
  assumes "kernel_mid k" and "same_data t k k1" and "tqueue k1 = (\<lambda>q. remove1 t (tqueue k q))"
    and "\<not> runnable (tst k t)" and "tst k t \<noteq> CH_STATE_FINAL" and "tst k t \<noteq> CH_STATE_WTMTX"
  shows "chSchReadyI t k1 = Some (readied t k1)" and "kernel_mid (readied t k1)" and "queues_but {t} k1" and "0 < prio k t"
    and "t \<noteq> currp k"
proof -
  have m: "queues_ok k" "current_ok k" "mutex_ok k" "runnable (tst k IDLE)" using assms(1) by (simp_all add: kernel_mid_def)
  have d: "tst k1 u = tst k u" "prio k1 u = prio k u" "rprio k1 u = rprio k u" "p_mtxlist (thr k1 u) = p_mtxlist (thr k u)"
    "u \<noteq> t \<Longrightarrow> p_u (thr k1 u) = p_u (thr k u)" "m_owner k1 = m_owner k" "m_next k1 = m_next k" "currp k1 = currp k" for u
    using assms(2) by (simp_all add: same_data_def)
  show pos: "0 < prio k t" using m(1) assms(5) by (simp add: queues_but_def)
  then show "chSchReadyI t k1 = Some (readied t k1)" by (simp add: chSchReadyI_eq d)
  show nc: "t \<noteq> currp k" using m(2) assms(4) runnable_simps(2) by (metis current_ok_def)
  have "queues_but {t} (queue_dequeue t k)" by (rule queues_dequeue[OF m(1)])
  then have "queues_but {t} (set_thr t (\<lambda>_. thr k1 t) (queue_dequeue t k))" by (rule queues_set_thr) simp
  moreover have "queues_but {t} k1 = queues_but {t} (set_thr t (\<lambda>_. thr k1 t) (queue_dequeue t k))"
    by (rule queues_data) (use d assms(3) in \<open>auto simp: fun_eq_iff\<close>)
  ultimately show q1: "queues_but {t} k1" by simp
  have "queues_ok (readied t k1)" using queues_readied[of t "{}" k1] q1 pos by (simp add: d)
  moreover have "current_ok (readied t k1)" using m(2) nc assms(4) d by (auto simp: current_ok_def)
  moreover have "mutex_ok (readied t k1)"
  proof (rule mutex_frame[OF m(3)])
    fix n
    have "t \<notin> set (tqueue k (Q_Mutex n))" using waits_iff[OF m(1)] assms(6) by blast
    then show "tqueue (readied t k1) (Q_Mutex n) = tqueue k (Q_Mutex n)" by (simp add: assms(3) remove1_idem)
  next
    fix u assume "tst (readied t k1) u \<noteq> CH_STATE_FINAL"
    then have "tst k u \<noteq> CH_STATE_FINAL" using assms(5) d by (auto split: if_splits)
    then show "0 < rprio k u" using m(3) by (simp add: mutex_but_def)
  qed (use d assms(6) in auto)
  moreover have "runnable (tst (readied t k1) IDLE)" using m(4) d by simp
  ultimately show "kernel_mid (readied t k1)" by (simp add: kernel_mid_def)
qed

text \<open>A thread in none of the queues.\<close>

lemma not_queued:
  assumes "queues_ok k" and "\<not> queued_state (tst k t)"
  shows "tqueue k = (\<lambda>q. remove1 t (tqueue k q))"
proof -
  have "t \<notin> set (tqueue k q)" for q using queues_seated[OF assms(1), of t q] seated_queued assms(2) by blast
  then show ?thesis by (simp add: remove1_idem)
qed

end
