(* ===== verification/Ch_Ops.thy ===== *)
theory Ch_Ops
  imports Ch_Rtos
begin

text \<open>
  Each operation of the kernel, called in a state in which all is well, returns and leaves
  the kernel so; a thread that sleeps for a time is left alone by all of them but the tick.
\<close>

subsection \<open>Sleeping threads left alone\<close>

definition calm :: "kernel \<Rightarrow> kernel \<Rightarrow> bool" where
  "calm k k' \<longleftrightarrow> vt_systime k' = vt_systime k \<and>
     (\<forall>v. tst k v = CH_STATE_SLEEPING \<longrightarrow> tst k' v = CH_STATE_SLEEPING \<and> due (vtlist k') v = due (vtlist k) v)"

lemma calm_refl [simp]: "calm k k"
  by (simp add: calm_def)

lemma calm_trans: "calm k1 k2 \<Longrightarrow> calm k2 k3 \<Longrightarrow> calm k1 k3"
  by (simp add: calm_def)

lemma calm_resched: "resched k k' \<Longrightarrow> calm k k'"
  using resched_same(6)[of k k' CH_STATE_SLEEPING] by (simp add: calm_def resched_def)

definition fine :: "kernel \<Rightarrow> kernel option \<Rightarrow> bool" where
  "fine k r \<longleftrightarrow> (\<exists>k'. r = Some k' \<and> kernel_ok k' \<and> aux_ok k' \<and> calm k k')"

definition fine_mid :: "kernel \<Rightarrow> kernel option \<Rightarrow> bool" where
  "fine_mid k r \<longleftrightarrow> (\<exists>k'. r = Some k' \<and> kernel_mid k' \<and> aux_ok k' \<and> calm k k')"

lemma fine_resched: "fine_mid k r \<Longrightarrow> fine k (Option.bind r chSchRescheduleS)"
proof -
  assume "fine_mid k r"
  then obtain k1 where k1: "r = Some k1" "kernel_mid k1" "aux_ok k1" "calm k k1" by (auto simp: fine_mid_def)
  then have m: "queues_ok k1" "current_ok k1" "mutex_ok k1" "runnable (tst k1 IDLE)" by (simp_all add: kernel_mid_def)
  obtain k' where k': "chSchRescheduleS k1 = Some k'" "sched_ok k'" "resched k1 k'" using reschedule_ok[OF m(1,2)] .
  then show ?thesis
    using k1 kernel_resched[OF k'(3,2) m(3,4)] aux_resched[OF k'(3)] calm_trans[OF _ calm_resched[OF k'(3)]] by (auto simp: fine_def)
qed

lemma kernel_cong:
  assumes "thr k' = thr k" and "tqueue k' = tqueue k" and "currp k' = currp k" and "m_owner k' = m_owner k" and "m_next k' = m_next k"
  shows "kernel_ok k' = kernel_ok k" and "kernel_mid k' = kernel_mid k"
proof -
  have m: "mutex_ok k'" if "mutex_ok k" "thr k' = thr k" "tqueue k' = tqueue k" "m_owner k' = m_owner k" "m_next k' = m_next k"
    for k k' :: kernel
    by (rule mutex_frame[OF that(1)]) (use that in \<open>simp_all add: mutex_but_def\<close>)
  have "mutex_ok k' = mutex_ok k" using m[of k k'] m[of k' k] assms by auto
  moreover have "queues_ok k' = queues_ok k" by (rule queues_cong) (use assms in simp_all)
  ultimately show "kernel_ok k' = kernel_ok k" "kernel_mid k' = kernel_mid k"
    using assms by (simp_all add: kernel_ok_def kernel_mid_def sched_ok_iff current_ok_def)
qed

lemma kernel_vtlist: "kernel_ok (k\<lparr>vtlist := l\<rparr>) = kernel_ok k" "kernel_mid (k\<lparr>vtlist := l\<rparr>) = kernel_mid k"
  by (rule kernel_cong; simp)+

lemma links_cong: "thr k' = thr k \<Longrightarrow> tref k' = tref k \<Longrightarrow> links_ok k' = links_ok k"
  by (simp add: links_ok_def refs_ok_def waits_ok_def)

text \<open>The thread switched to takes its timer back.\<close>

lemma settle_simps [simp]:
  "thr (settle k) = thr k" "currp (settle k) = currp k" "tqueue (settle k) = tqueue k" "m_owner (settle k) = m_owner k"
  "vt_systime (settle k) = vt_systime k" "tref (settle k) = tref k" "m_next (settle k) = m_next k"
  by (simp_all add: settle_def chVTDoResetI_def)

lemma settle_ok:
  assumes "kernel_ok k" and "aux_ok k"
  shows "rtos_ok (settle k)" and "calm k (settle k)"
proof -
  have t: "timers_ok (vtlist k)" using assms(2) by (simp add: aux_ok_def timing_ok_def)
  then have d: "due (vt_remove (currp k) (vtlist k)) w = (if w = currp k then None else due (vtlist k) w)" for w
    by (intro remove_due) (simp_all add: timers_ok_def)
  define l where "l = vtlist (settle k)"
  have l: "settle k = k\<lparr>vtlist := l\<rparr>" by (simp add: l_def settle_def chVTDoResetI_def)
  have tl: "timers_ok l" using t remove_ok[OF t] by (simp add: l_def settle_def chVTDoResetI_def)
  have dl: "due l w = (if w = currp k then None else due (vtlist k) w)" for w
  proof (cases "chVTIsArmedI (currp k) k")
    case True
    then show ?thesis using d by (simp add: l_def settle_def chVTDoResetI_def)
  next
    case False
    then have "due (vtlist k) (currp k) = None" by (simp add: chVTIsArmedI_def due_None)
    then show ?thesis using False by (simp add: l_def settle_def)
  qed
  have names: "v \<in> fst ` set l \<longleftrightarrow> v \<noteq> currp k \<and> v \<in> fst ` set (vtlist k)" for v
    using dl[of v] due_None[of l v] due_None[of "vtlist k" v] by (cases "v = currp k") auto
  have "\<forall>v\<in>fst ` set (vtlist k). timed_state (tst k v) \<or> runnable (tst k v)" using assms(2) unfolding timing_ok_def aux_ok_def by blast
  then have "\<forall>v\<in>fst ` set l. timed_state (tst k v) \<or> runnable (tst k v)" using names by blast
  then have "timing_ok (settle k)" using tl by (simp add: l timing_ok_def)
  moreover have "links_ok (settle k)" using assms(2) links_cong[of "settle k" k] by (simp add: aux_ok_def)
  moreover have "\<not> chVTIsArmedI (currp (settle k)) (settle k)" using names[of "currp k"] by (simp add: chVTIsArmedI_def l)
  ultimately show "rtos_ok (settle k)" using assms(1) kernel_vtlist(1)[of l k] by (simp add: rtos_ok_def aux_ok_def l)
  have "tst k (currp k) = CH_STATE_CURRENT" using assms(1) by (simp add: kernel_ok_def sched_ok_iff current_ok_def)
  then show "calm k (settle k)" by (auto simp: calm_def l dl)
qed

text \<open>Operations on mutexes.\<close>

lemma unharmed_aux:
  assumes "unharmed c k k'" and "aux_ok k" and "c \<notin> fst ` set (vtlist k)"
  shows "aux_ok k'" and "calm k k'"
proof -
  have v: "vtlist k' = vtlist k" "tref k' = tref k" "vt_systime k' = vt_systime k" using assms(1) by (simp_all add: unharmed_def)
  have s: "tst k' u = s \<longleftrightarrow> tst k u = s" "tst k u = s \<Longrightarrow> p_u (thr k' u) = p_u (thr k u)"
    if "s \<noteq> CH_STATE_WTMTX" "\<not> runnable s" for u s
    using assms(1) that by (simp_all add: unharmed_def)
  have r: "runnable (tst k u) \<Longrightarrow> runnable (tst k' u)" if "u \<noteq> c" for u using assms(1) that by (simp add: unharmed_def)
  have p: "p_waiting (thr k' u) = p_waiting (thr k u)" "p_epending (thr k' u) = p_epending (thr k u)" for u
    using assms(1) by (simp_all add: unharmed_def)
  have "timing_ok k'"
  proof (rule timing_cong[of k])
    fix u assume u: "u \<in> fst ` set (vtlist k)" "timed_state (tst k u) \<or> runnable (tst k u)"
    show "timed_state (tst k' u) \<or> runnable (tst k' u)"
    proof (cases "runnable (tst k u)")
      case True
      have "u \<noteq> c" using u(1) assms(3) by blast
      then show ?thesis using r True by blast
    next
      case False
      then have "tst k' u = tst k u" using u(2) s(1)[of "tst k u" u] by (auto simp: timed_state_def)
      then show ?thesis using u(2) by simp
    qed
  qed (use assms(2) v in \<open>simp_all add: aux_ok_def\<close>)
  moreover have "refs_ok k'" by (rule refs_cong[of k]) (use assms(2) v s[of CH_STATE_SUSPENDED] in \<open>simp_all add: aux_ok_def links_ok_def\<close>)
  moreover have "waits_ok k'" by (rule waits_cong[of k]) (use assms(2) s p in \<open>simp_all add: aux_ok_def links_ok_def\<close>)
  moreover have "evt_ok (thr k' u)" for u
  proof (cases "tst k' u = CH_STATE_WTOREVT \<or> tst k' u = CH_STATE_WTANDEVT")
    case True
    then have "tst k' u = tst k u" "p_u (thr k' u) = p_u (thr k u)" using s[of CH_STATE_WTOREVT u] s[of CH_STATE_WTANDEVT u] by auto
    moreover have "evt_ok (thr k u)" using assms(2) by (simp add: aux_ok_def links_ok_def)
    ultimately show ?thesis using p by (simp add: evt_ok_def evt_arrived_def cong: state_data.case_cong)
  qed (simp add: evt_ok_other)
  ultimately show "aux_ok k'" by (simp add: aux_ok_def links_ok_def)
  show "calm k k'" using s(1)[of CH_STATE_SLEEPING] v by (simp add: calm_def)
qed

lemma rtos_unarmed: "rtos_ok k \<Longrightarrow> currp k \<notin> fst ` set (vtlist k)"
  by (simp add: rtos_ok_def chVTIsArmedI_def)

lemma unharmed_fine:
  assumes "rtos_ok k" and "r = Some k'" and "kernel_ok k'" and "unharmed (currp k) k k'"
  shows "fine k r"
  using unharmed_aux[OF assms(4) _ rtos_unarmed[OF assms(1)]] assms by (simp add: fine_def rtos_ok_def)

lemma give_unharmed: "unharmed c k (give_mutex m t k)"
  by (simp add: unharmed_def)

lemma lock_fine:
  assumes "rtos_ok k" and "currp k \<noteq> IDLE \<or> m_owner k m = None"
  shows "fine k (chMtxLockS m k)"
proof (cases "m_owner k m")
  case None
  then show ?thesis using assms take_free_ok[of k m] give_unharmed unharmed_fine[of k _ "give_mutex m (currp k) k"]
    by (simp add: lock_free rtos_ok_def)
next
  case (Some t)
  have "kernel_ok k" "currp k \<noteq> IDLE" using assms Some by (simp_all add: rtos_ok_def)
  then obtain k' where "chMtxLockS m k = Some k'" "kernel_ok k'" "unharmed (currp k) k k'" using lock_waits[of k m t] Some by metis
  then show ?thesis using unharmed_fine[OF assms(1)] by simp
qed

lemma trylock_fine: "rtos_ok k \<Longrightarrow> fine k (Some (snd (chMtxTryLockS m k)))"
  using unharmed_fine[of k _ "snd (chMtxTryLockS m k)"] trylock_ok[of k m] give_unharmed[of "currp k" k m "currp k"]
  by (auto simp: rtos_ok_def chMtxTryLockS_def)

lemma unlock_fine:
  assumes "rtos_ok k" and "p_mtxlist (thr k (currp k)) = Some m"
  shows "fine k (chMtxUnlock m k)"
proof -
  have "kernel_ok k" using assms(1) by (simp add: rtos_ok_def)
  then obtain k' where "chMtxUnlock m k = Some k'" "kernel_ok k'" "unharmed (currp k) k k'" using unlock_ok[OF _ assms(2)] by metis
  then show ?thesis using unharmed_fine[OF assms(1)] by simp
qed

lemma unlock_all_fine:
  assumes "rtos_ok k"
  shows "fine k (chMtxUnlockAll k)"
proof -
  have "kernel_ok k" using assms(1) by (simp add: rtos_ok_def)
  then obtain k' where "chMtxUnlockAll k = Some k'" "kernel_ok k'" "unharmed (currp k) k k'" using unlock_all_ok by metis
  then show ?thesis using unharmed_fine[OF assms(1)] by simp
qed

lemma yield_fine:
  assumes "rtos_ok k"
  shows "fine k (chSchDoYieldS k)"
proof -
  have k: "sched_ok k" "mutex_ok k" "runnable (tst k IDLE)" "aux_ok k" using assms by (simp_all add: rtos_ok_def kernel_ok_def)
  obtain k' where k': "chSchDoYieldS k = Some k'" "sched_ok k'" "resched k k'" using yield_ok[OF k(1)] .
  then show ?thesis using kernel_resched[OF k'(3,2) k(2,3)] aux_resched[OF k'(3) k(4)] calm_resched by (simp add: fine_def)
qed

end
