(* ===== verification/Ch_Sleep.thy ===== *)
theory Ch_Sleep
  imports Ch_Ops
begin

text \<open>
  The operations that put their caller to sleep, and those that wake a thread: each keeps what
  the kernel promises.
\<close>

subsection \<open>The caller put to sleep\<close>

definition armed_for :: "u32 \<Rightarrow> kernel \<Rightarrow> kernel" where
  "armed_for n k = (if n = TIME_INFINITE then k else chVTDoSetI (currp k) n k)"

lemma armed_for_simps [simp]:
  "thr (armed_for n k) = thr k" "currp (armed_for n k) = currp k" "tqueue (armed_for n k) = tqueue k"
  "m_owner (armed_for n k) = m_owner k" "m_next (armed_for n k) = m_next k" "tref (armed_for n k) = tref k"
  "vt_systime (armed_for n k) = vt_systime k"
  by (simp_all add: armed_for_def chVTDoSetI_def)

lemma go_sleep_timeout: "chSchGoSleepTimeoutS s n k = chSchGoSleepS s (armed_for n k)"
  by (auto simp: chSchGoSleepTimeoutS_def armed_for_def)

lemma armed_for_ok:
  assumes "timers_ok (vtlist k)" and "currp k \<notin> fst ` set (vtlist k)" and "n \<noteq> 0"
  shows "timers_ok (vtlist (armed_for n k))"
    and "fst ` set (vtlist (armed_for n k)) \<subseteq> insert (currp k) (fst ` set (vtlist k))"
    and "v \<noteq> currp k \<Longrightarrow> due (vtlist (armed_for n k)) v = due (vtlist k) v"
    and "n \<noteq> TIME_INFINITE \<Longrightarrow> due (vtlist (armed_for n k)) (currp k) = Some (unat n)"
  using insert_ok[OF assms] insert_due[OF assms(2), of n] insert_names[of n "currp k" "vtlist k"] assms(1)
  by (auto simp add: armed_for_def chVTDoSetI_def TIME_INFINITE_def)

definition parked :: "tstate \<Rightarrow> bool" where
  "parked s \<longleftrightarrow> timed_state s \<or> s = CH_STATE_WTEXIT \<or> s = CH_STATE_FINAL"

lemma sleep_fine:
  assumes "kernel_mid k0" and "currp k0 \<noteq> IDLE" and "same_data (currp k0) k0 k1" and "put_in s (currp k0) k0 k1"
    and "parked s" and "aux_ok (set_thr (currp k0) (p_state_update (\<lambda>_. s)) k1)" and "calm k0 k1"
  shows "fine k0 (chSchGoSleepS s k1)"
proof -
  let ?c = "currp k0"
  have s: "\<not> runnable s" "s \<noteq> CH_STATE_WTMTX" using assms(5) by (auto simp: parked_def timed_state_def)
  obtain k' where k': "chSchGoSleepS s k1 = Some k'" "kernel_ok k'"
    "resched (set_thr ?c (p_state_update (\<lambda>_. s)) k1) k'" "aux_ok k'"
    using sleep_kernel[OF assms(1-4) s] assms(6) by metis
  have "tst k0 ?c = CH_STATE_CURRENT" using assms(1) by (simp add: kernel_mid_def current_ok_def)
  then have "calm k0 (set_thr ?c (p_state_update (\<lambda>_. s)) k1)" using assms(7) by (auto simp: calm_def)
  then show ?thesis using k' calm_trans[OF _ calm_resched[OF k'(3)]] by (simp add: fine_def)
qed

lemma aux_parts: "aux_ok k \<longleftrightarrow> timing_ok k \<and> refs_ok k \<and> waits_ok k \<and> (\<forall>t. evt_ok (thr k t))"
  by (auto simp: aux_ok_def links_ok_def)

text \<open>With a timeout, in one of the states that a timer can end.\<close>

lemma sleep_timed:
  assumes "rtos_ok k" and "currp k \<noteq> IDLE" and "put_in s (currp k) k k1" and "timed_state s" and "n \<noteq> 0"
    and "thr k1 = (thr k)(currp k := (thr k (currp k))\<lparr>p_u := d\<rparr>)"
    and "m_owner k1 = m_owner k" and "m_next k1 = m_next k" and "currp k1 = currp k"
    and "vtlist k1 = vtlist k" and "vt_systime k1 = vt_systime k"
    and "evt_ok ((thr k (currp k))\<lparr>p_state := s, p_u := d\<rparr>)"
    and "if s = CH_STATE_SUSPENDED then \<exists>r. d = U_Ref r \<and> tref k r = None \<and> tref k1 = (tref k)(r := Some (currp k))
         else tref k1 = tref k"
  shows "fine k (chSchGoSleepTimeoutS s n k1)"
  unfolding go_sleep_timeout
proof (rule sleep_fine)
  let ?c = "currp k"
  define k2 where "k2 = set_thr ?c (p_state_update (\<lambda>_. s)) (armed_for n k1)"
  have k: "kernel_ok k" "aux_ok k" and un: "?c \<notin> fst ` set (vtlist k)"
    using assms(1) rtos_unarmed by (simp_all add: rtos_ok_def)
  have st: "tst k ?c = CH_STATE_CURRENT" using k(1) by (simp add: kernel_ok_def sched_ok_iff current_ok_def)
  show "kernel_mid k" using k(1) by (simp add: kernel_mid)
  show "same_data ?c k (armed_for n k1)" using assms(6-9) by (simp add: same_data_def)
  show "put_in s ?c k (armed_for n k1)" using assms(3) by (simp add: put_in_def)
  show "parked s" using assms(4) by (simp add: parked_def)
  have "timers_ok (vtlist k1)" "currp k1 \<notin> fst ` set (vtlist k1)" using k(2) un assms(9,10) by (simp_all add: aux_ok_def timing_ok_def)
  note a = armed_for_ok[OF this assms(5), unfolded assms(9,10)]
  show "calm k (armed_for n k1)" using assms(6,11) a(3) st by (auto simp: calm_def)
  have ns: "s \<noteq> CH_STATE_WTEXIT" "s \<noteq> CH_STATE_FINAL" "\<not> runnable s" using assms(4) by (auto simp: timed_state_def)
  have v2: "vtlist k2 = vtlist (armed_for n k1)" "tref k2 = tref k1" by (simp_all add: k2_def)
  have t2: "thr k2 u = (if u = ?c then (thr k ?c)\<lparr>p_state := s, p_u := d\<rparr> else thr k u)" for u
    using assms(6) by (simp add: k2_def)
  have "timing_ok k2"
  proof -
    have o: "\<forall>v\<in>fst ` set (vtlist k). timed_state (tst k v) \<or> runnable (tst k v)" using k(2) unfolding timing_ok_def aux_ok_def by blast
    have "timed_state (tst k2 v) \<or> runnable (tst k2 v)" if "v \<in> fst ` set (vtlist k2)" for v
    proof (cases "v = ?c")
      case True
      then show ?thesis unfolding t2 using assms(4) by simp
    next
      case False
      then have "v \<in> fst ` set (vtlist k)" using a(2) that v2 by auto
      then show ?thesis unfolding t2 using o False by auto
    qed
    then show ?thesis using a(1) unfolding timing_ok_def v2 by blast
  qed
  moreover have "waits_ok k2"
    by (rule waits_cong[of k]) (use k(2) ns st in \<open>auto simp: aux_parts t2 split: if_splits\<close>)
  moreover have "evt_ok (thr k2 u)" for u using k(2) assms(12) unfolding t2 by (simp add: aux_parts)
  moreover have r: "refs_ok k" using k(2) by (simp add: aux_parts)
  have "refs_ok k2"
  proof (cases "s = CH_STATE_SUSPENDED")
    case False
    show ?thesis by (rule refs_cong[OF r]) (use assms(13) False st in \<open>auto simp: t2 v2\<close>)
  next
    case True
    then obtain r where r': "d = U_Ref r" "tref k r = None" "tref k1 = (tref k)(r := Some ?c)" using assms(13) by auto
    have "\<not> (tst k t = CH_STATE_SUSPENDED \<and> p_u (thr k t) = U_Ref r)" for t
      using r r'(2) unfolding refs_ok_def by (metis option.distinct(1))
    then show ?thesis
      using r r'(1,2) True st unfolding refs_ok_def by (auto simp: t2 v2 r'(3))
  qed
  ultimately show "aux_ok (set_thr ?c (p_state_update (\<lambda>_. s)) (armed_for n k1))" unfolding k2_def[symmetric] by (simp add: aux_parts)
qed (rule assms(2))

lemma evt_ok_timed:
  "s \<noteq> CH_STATE_WTOREVT \<Longrightarrow> s \<noteq> CH_STATE_WTANDEVT \<Longrightarrow> evt_ok ((th :: ch_thread)\<lparr>p_state := s, p_u := d\<rparr>)"
  by (rule evt_ok_other) simp_all

text \<open>The operations that do this.\<close>

lemma sleep_op:
  assumes "rtos_ok k" and "currp k \<noteq> IDLE" and "n \<noteq> 0"
  shows "fine k (chThdSleepS n k)"
  unfolding chThdSleepS_def
  by (rule sleep_timed[OF assms(1,2) _ _ assms(3), of CH_STATE_SLEEPING k "p_u (thr k (currp k))"])
    (simp_all add: put_in_def queued_state_def evt_ok_other)

lemma fine_refl: "rtos_ok k \<Longrightarrow> fine k (Some k)"
  by (simp add: fine_def rtos_ok_def)

lemma sleep_until_op: "rtos_ok k \<Longrightarrow> currp k \<noteq> IDLE \<Longrightarrow> fine k (chThdSleepUntil t k)"
  using sleep_op[of k "t - chVTGetSystemTimeX k"] fine_refl[of k] by (auto simp: chThdSleepUntil_def Let_def word_gt_0)

lemma suspend_op:
  assumes "rtos_ok k" and "currp k \<noteq> IDLE" and "tref k r = None"
  shows "fine k (chThdSuspendTimeoutS r n k)"
proof (cases "n = TIME_IMMEDIATE")
  case True
  then show ?thesis using fine_refl assms(1) by (simp add: chThdSuspendTimeoutS_def)
next
  case False
  then have n: "n \<noteq> 0" by (simp add: TIME_IMMEDIATE_def)
  have "fine k (chSchGoSleepTimeoutS CH_STATE_SUSPENDED n
      (set_thr (currp k) (p_u_update (\<lambda>_. U_Ref r)) (k\<lparr>tref := (tref k)(r := Some (currp k))\<rparr>)))"
    by (rule sleep_timed[OF assms(1,2) _ _ n, of _ _ "U_Ref r"])
      (simp_all add: put_in_def queued_state_def evt_ok_other assms(3))
  then show ?thesis using False by (auto simp: chThdSuspendTimeoutS_def)
qed

lemma enqueue_op:
  assumes "rtos_ok k" and "currp k \<noteq> IDLE"
  shows "fine k (chThdEnqueueTimeoutS x n k)"
proof (cases "n = TIME_IMMEDIATE")
  case True
  then show ?thesis using fine_refl assms(1) by (simp add: chThdEnqueueTimeoutS_def)
next
  case False
  then have n: "n \<noteq> 0" by (simp add: TIME_IMMEDIATE_def)
  have "fine k (chSchGoSleepTimeoutS CH_STATE_QUEUED n (queue_insert (currp k) (Q_Threads x) k))"
    by (rule sleep_timed[OF assms(1,2) _ _ n, of _ _ "p_u (thr k (currp k))"])
      (auto simp: put_in_def queue_insert_def evt_ok_other)
  then show ?thesis using False by (auto simp: chThdEnqueueTimeoutS_def)
qed

definition fine2 :: "kernel \<Rightarrow> ('a \<times> kernel) option \<Rightarrow> bool" where
  "fine2 k r \<longleftrightarrow> fine k (map_option snd r)"

lemma evt_sleep_op:
  assumes "rtos_ok k" and "currp k \<noteq> IDLE" and "s = CH_STATE_WTOREVT \<or> s = CH_STATE_WTANDEVT"
    and "evt_ok ((thr k (currp k))\<lparr>p_state := s, p_u := U_Events m\<rparr>)"
  shows "fine2 k (evt_sleep s m n k)"
proof (cases "n = TIME_IMMEDIATE")
  case True
  then show ?thesis using fine_refl assms(1) by (simp add: evt_sleep_def fine2_def)
next
  case False
  then have n: "n \<noteq> 0" by (simp add: TIME_IMMEDIATE_def)
  have "fine k (chSchGoSleepTimeoutS s n (set_thr (currp k) (p_u_update (\<lambda>_. U_Events m)) k))"
    by (rule sleep_timed[OF assms(1,2) _ _ n, of _ _ "U_Events m"])
      (use assms(3,4) in \<open>auto simp: put_in_def queued_state_def\<close>)
  then show ?thesis using False by (auto simp: evt_sleep_def fine2_def option.map_comp comp_def option.map_ident)
qed

text \<open>Pending events of the current thread changed.\<close>

lemma pending_fine:
  assumes "rtos_ok k"
  shows "fine k (Some (set_thr (currp k) (p_epending_update f) k))"
proof -
  let ?c = "currp k"
  let ?k = "set_thr ?c (p_epending_update f) k"
  have k: "kernel_ok k" "aux_ok k" using assms by (simp_all add: rtos_ok_def)
  have st: "tst k ?c = CH_STATE_CURRENT" using k(1) by (simp add: kernel_ok_def sched_ok_iff current_ok_def)
  have "sched_ok ?k = sched_ok k" by (rule sched_data) simp_all
  moreover have "mutex_ok ?k"
    by (rule mutex_frame[of "{}" k]) (use k(1) in \<open>auto simp: kernel_ok_def mutex_but_def split: if_splits\<close>)
  ultimately have "kernel_ok ?k" using k(1) by (simp add: kernel_ok_def)
  moreover have "timing_ok ?k" by (rule timing_cong[of k]) (use k(2) in \<open>auto simp: aux_parts\<close>)
  moreover have "refs_ok ?k" by (rule refs_cong[of k]) (use k(2) in \<open>auto simp: aux_parts\<close>)
  moreover have "waits_ok ?k" by (rule waits_cong[of k]) (use k(2) in \<open>auto simp: aux_parts split: if_splits\<close>)
  moreover have "evt_ok (thr ?k u)" for u using k(2) st by (auto simp: aux_parts intro!: evt_ok_other)
  moreover have "calm k ?k" by (simp add: calm_def)
  ultimately show ?thesis by (simp add: fine_def aux_parts)
qed

lemma wait_any_op: "rtos_ok k \<Longrightarrow> currp k \<noteq> IDLE \<Longrightarrow> fine2 k (chEvtWaitAnyTimeout m n k)"
  using evt_sleep_op[of k CH_STATE_WTOREVT m n] pending_fine[of k]
  by (auto simp: chEvtWaitAnyTimeout_def evt_take_any_def fine2_def evt_ok_def evt_arrived_def Let_def)

lemma wait_one_op: "rtos_ok k \<Longrightarrow> currp k \<noteq> IDLE \<Longrightarrow> fine2 k (chEvtWaitOneTimeout m n k)"
  using evt_sleep_op[of k CH_STATE_WTOREVT m n] pending_fine[of k]
  by (auto simp: chEvtWaitOneTimeout_def evt_take_one_def fine2_def evt_ok_def evt_arrived_def Let_def)

lemma wait_all_op: "rtos_ok k \<Longrightarrow> currp k \<noteq> IDLE \<Longrightarrow> fine2 k (chEvtWaitAllTimeout m n k)"
  using evt_sleep_op[of k CH_STATE_WTANDEVT m n] pending_fine[of k]
  by (auto simp: chEvtWaitAllTimeout_def evt_take_all_def fine2_def evt_ok_def evt_arrived_def Let_def)

end
