(* ===== verification/Ch_Wake.thy ===== *)
theory Ch_Wake
  imports Ch_Sleep
begin

text \<open>
  The operations that wake threads: by a reference, from a queue, by events, by the end of a
  thread, and a new thread that starts.
\<close>

subsection \<open>One thread woken\<close>

definition unref :: "nat \<Rightarrow> kernel \<Rightarrow> nat \<Rightarrow> nat option" where
  "unref t k = (\<lambda>r. if tref k r = Some t then None else tref k r)"

lemma unref_other: "refs_ok k \<Longrightarrow> tst k t \<noteq> CH_STATE_SUSPENDED \<Longrightarrow> unref t k = tref k"
  by (auto simp: unref_def refs_ok_def fun_eq_iff)

lemma unref_one: "refs_ok k \<Longrightarrow> tref k r = Some t \<Longrightarrow> unref t k = (tref k)(r := None)"
  unfolding unref_def refs_ok_def fun_eq_iff fun_upd_apply by (metis state_data.inject(3))

lemma wake_links:
  assumes "links_ok k" and "timed_state (tst k t)" and "thr k1 = (thr k)(t := th)"
    and "p_waiting th = p_waiting (thr k t)" and "tref k1 = unref t k"
  shows "links_ok (readied t k1)"
proof -
  have p: "refs_ok k" "waits_ok k" "evt_ok (thr k u)" for u using assms(1) by (simp_all add: links_ok_def)
  have n: "tst k t \<noteq> CH_STATE_WTEXIT" "tst k t \<noteq> CH_STATE_FINAL" using assms(2) by auto
  define k' where "k' = readied t k1"
  have t': "thr k' u = (if u = t then th\<lparr>p_state := CH_STATE_READY\<rparr> else thr k u)" "tref k' = unref t k" for u
    using assms(3,5) by (simp_all add: k'_def)
  have "refs_ok k'"
  proof -
    have u: "v = t" if "tst k t = CH_STATE_SUSPENDED" "p_u (thr k t) = U_Ref r" "tst k v = CH_STATE_SUSPENDED" "p_u (thr k v) = U_Ref r" for v r
      using that p(1) unfolding refs_ok_def by (metis option.inject)
    show ?thesis using p(1) u unfolding refs_ok_def by (auto simp: t' unref_def split: if_splits)
  qed
  moreover have "waits_ok k'" by (rule waits_cong[OF p(2)]) (use n assms(4) in \<open>auto simp: t' split: if_splits\<close>)
  moreover have "evt_ok (thr k' u)" for u using p(3) by (simp add: t' evt_ok_other)
  ultimately show ?thesis by (simp add: links_ok_def k'_def)
qed

text \<open>The state from which the thread is made ready.\<close>

definition released :: "nat \<Rightarrow> kernel \<Rightarrow> kernel \<Rightarrow> bool" where
  "released t k k1 \<longleftrightarrow>
     (\<exists>d e. thr k1 = (thr k)(t := (thr k t)\<lparr>p_u := d, p_epending := e\<rparr>)) \<and> tref k1 = unref t k \<and>
     tqueue k1 = (\<lambda>q. remove1 t (tqueue k q)) \<and> m_owner k1 = m_owner k \<and> m_next k1 = m_next k \<and> currp k1 = currp k \<and>
     vtlist k1 = vtlist k \<and> vt_systime k1 = vt_systime k"

lemma releasedI:
  assumes "thr k1 = (thr k)(t := (thr k t)\<lparr>p_u := d\<rparr>)" and "tref k1 = unref t k"
    and "tqueue k1 = (\<lambda>q. remove1 t (tqueue k q))" and "m_owner k1 = m_owner k" and "m_next k1 = m_next k"
    and "currp k1 = currp k" and "vtlist k1 = vtlist k" and "vt_systime k1 = vt_systime k"
  shows "released t k k1"
proof -
  have "thr k1 = (thr k)(t := (thr k t)\<lparr>p_u := d, p_epending := p_epending (thr k t)\<rparr>)" using assms(1) by simp
  then show ?thesis unfolding released_def using assms by blast
qed

lemma released_data: "released t k k1 \<Longrightarrow> same_data t k k1"
  by (auto simp: released_def same_data_def)

lemma timed_not: "timed_state s \<Longrightarrow> \<not> runnable s \<and> s \<noteq> CH_STATE_FINAL \<and> s \<noteq> CH_STATE_WTMTX"
  by (auto simp: timed_state_def)

lemma wake_mid:
  assumes "kernel_mid k" and "links_ok k" and "timed_state (tst k t)" and "released t k k1"
  shows "chSchReadyI t k1 = Some (readied t k1)" and "kernel_mid (readied t k1)" and "links_ok (readied t k1)"
    and "queues_but {t} k1" and "0 < prio k t" and "t \<noteq> currp k"
proof -
  have q: "tqueue k1 = (\<lambda>q. remove1 t (tqueue k q))" using assms(4) by (simp add: released_def)
  note w = wake_kernel[OF assms(1) released_data[OF assms(4)] q] 
  show "chSchReadyI t k1 = Some (readied t k1)" "kernel_mid (readied t k1)" "queues_but {t} k1" "0 < prio k t" "t \<noteq> currp k"
    using w timed_not[OF assms(3)] by simp_all
  obtain d e where "thr k1 = (thr k)(t := (thr k t)\<lparr>p_u := d, p_epending := e\<rparr>)" "tref k1 = unref t k"
    using assms(4) by (auto simp: released_def)
  then show "links_ok (readied t k1)" using wake_links[OF assms(2,3)] by simp
qed

lemma wake_aux:
  assumes "kernel_mid k" and "aux_ok k" and "timed_state (tst k t)" and "released t k k1"
  shows "aux_ok (readied t k1)" and "tst k t \<noteq> CH_STATE_SLEEPING \<Longrightarrow> calm k (readied t k1)"
proof -
  have r: "vtlist k1 = vtlist k" "vt_systime k1 = vt_systime k" "tst k1 u = tst k u" for u
    using assms(4) by (auto simp: released_def)
  have "timing_ok (readied t k1)" by (rule timing_cong[of k]) (use assms(2) r in \<open>auto simp: aux_parts\<close>)
  then show "aux_ok (readied t k1)" using wake_mid(3)[OF assms(1) _ assms(3,4)] assms(2) by (simp add: aux_ok_def)
  show "tst k t \<noteq> CH_STATE_SLEEPING \<Longrightarrow> calm k (readied t k1)" using r by (auto simp: calm_def)
qed

lemma wake_fine_mid:
  assumes "kernel_mid k" and "aux_ok k" and "timed_state (tst k t)" and "tst k t \<noteq> CH_STATE_SLEEPING" and "released t k k1"
  shows "fine_mid k (chSchReadyI t k1)"
proof -
  have l: "links_ok k" using assms(2) by (simp add: aux_ok_def)
  show ?thesis
    using wake_mid(1,2)[OF assms(1) l assms(3,5)] wake_aux[OF assms(1,2,3,5)] assms(4) by (simp add: fine_mid_def)
qed

lemma fine_mid_refl: "kernel_mid k \<Longrightarrow> aux_ok k \<Longrightarrow> fine_mid k (Some k)"
  by (simp add: fine_mid_def)

subsection \<open>By a reference\<close>

lemma suspended: "refs_ok k \<Longrightarrow> tref k r = Some t \<Longrightarrow> tst k t = CH_STATE_SUSPENDED"
  by (simp add: refs_ok_def)

lemma released_ref:
  assumes "kernel_mid k" and "aux_ok k" and "tref k r = Some t"
  shows "released t k (set_thr t (p_u_update (\<lambda>_. U_Msg m)) (k\<lparr>tref := (tref k)(r := None)\<rparr>))"
proof -
  have r: "refs_ok k" "queues_ok k" using assms(1,2) by (simp_all add: aux_parts kernel_mid_def)
  note s = suspended[OF r(1) assms(3)]
  have q: "tqueue k = (\<lambda>q. remove1 t (tqueue k q))" by (rule not_queued[OF r(2)]) (simp add: s queued_state_def)
  show ?thesis by (rule releasedI[of _ _ _ "U_Msg m"]) (use unref_one[OF r(1) assms(3)] q in simp_all)
qed

lemma resumeI_op: "kernel_mid k \<Longrightarrow> aux_ok k \<Longrightarrow> fine_mid k (chThdResumeI r m k)"
proof (cases "tref k r")
  case (Some t)
  assume k: "kernel_mid k" "aux_ok k"
  then have "tst k t = CH_STATE_SUSPENDED" using suspended Some by (simp add: aux_parts)
  then show ?thesis using wake_fine_mid[OF k _ _ released_ref[OF k Some]] Some by (simp add: chThdResumeI_def)
qed (simp add: chThdResumeI_def fine_mid_refl)

text \<open>Woken by a thread, which it takes over from if its priority is higher.\<close>

lemma wakeup_fine:
  assumes "queues_but {t} k0" and "t \<noteq> currp k0" and "0 < prio k0 t" and "sched_ok k0"
    and "k1 = set_thr t (p_u_update (\<lambda>_. U_Msg m)) k0"
    and "kernel_mid (readied t k1)" and "aux_ok (readied t k1)" and "calm k (readied t k1)"
  shows "fine k (chSchWakeupS t m k0)"
proof -
  define ks where "ks = set_thr t (\<lambda>th. th\<lparr>p_state := CH_STATE_READY, p_u := U_Msg m\<rparr>) k0"
  obtain k' where k': "chSchWakeupS t m k0 = Some k'" "sched_ok k'" "resched ks k'"
    using wakeup_ok[OF assms(4,1,2,3)] unfolding ks_def .
  have c: "(thr k0 t)\<lparr>p_state := CH_STATE_READY, p_u := U_Msg m\<rparr> = (thr k0 t)\<lparr>p_u := U_Msg m, p_state := CH_STATE_READY\<rparr>"
    by (rule ch_thread.equality) simp_all
  have e: "thr ks = thr (readied t k1)" "tref ks = tref (readied t k1)" "vtlist ks = vtlist (readied t k1)"
    "vt_systime ks = vt_systime (readied t k1)" "m_owner ks = m_owner (readied t k1)" "m_next ks = m_next (readied t k1)"
    "tqueue ks (Q_Mutex n) = tqueue (readied t k1) (Q_Mutex n)" for n
    by (simp_all add: ks_def assms(5) c)
  have "mutex_ok ks" by (rule mutex_frame[of "{}" "readied t k1"]) (use assms(6) e in \<open>simp_all add: kernel_mid_def mutex_but_def\<close>)
  moreover have "runnable (tst ks IDLE)" using assms(6) e by (simp add: kernel_mid_def)
  moreover have "aux_ok ks"
    using assms(7) links_cong[of ks "readied t k1"] e by (simp add: aux_ok_def timing_ok_def)
  moreover have "calm k ks" using assms(8) e by (simp add: calm_def)
  ultimately show ?thesis
    using kernel_resched[OF k'(3,2)] aux_resched[OF k'(3)] calm_trans[OF _ calm_resched[OF k'(3)]] k'(1) by (simp add: fine_def)
qed

lemma resumeS_op:
  assumes "rtos_ok k"
  shows "fine k (chThdResumeS r m k)"
proof (cases "tref k r")
  case None
  then show ?thesis using fine_refl[OF assms] by (simp add: chThdResumeS_def)
next
  case (Some t)
  have k: "kernel_ok k" "aux_ok k" "kernel_mid k" using assms by (simp_all add: rtos_ok_def kernel_mid)
  have s: "tst k t = CH_STATE_SUSPENDED" using suspended Some k(2) by (simp add: aux_parts)
  have l: "links_ok k" using k(2) by (simp add: aux_ok_def)
  define k0 where "k0 = k\<lparr>tref := (tref k)(r := None)\<rparr>"
  define k1 where "k1 = set_thr t (p_u_update (\<lambda>_. U_Msg m)) k0"
  have r: "released t k k1" using released_ref[OF k(3,2) Some] by (simp add: k1_def k0_def)
  have ts: "timed_state (tst k t)" by (simp add: s)
  note w = wake_mid[OF k(3) l ts r] and a = wake_aux[OF k(3,2) ts r]
  have "queues_but {t} k0"
    using queues_cong[of k0 k] queues_add[of "{}" k t] k(3) s by (simp add: k0_def kernel_mid_def queued_state_def)
  moreover have "sched_ok k0 = sched_ok k" by (rule sched_data) (simp_all add: k0_def)
  moreover have "t \<noteq> currp k0" "0 < prio k0 t" using w(5,6) by (simp_all add: k0_def)
  ultimately have "fine k (chSchWakeupS t m k0)"
    using wakeup_fine[of t k0 k1 m k] k1_def w(2) a k(1) s by (simp add: kernel_ok_def)
  then show ?thesis using Some by (simp add: chThdResumeS_def k0_def)
qed

subsection \<open>From a queue\<close>

lemma dequeue_op:
  assumes "kernel_mid k" and "aux_ok k" and "queue_notempty (Q_Threads x) k"
  obtains k' where "chThdDoDequeueNextI x m k = Some k'" and "kernel_mid k'" and "aux_ok k'" and "calm k k'"
    and "tqueue k' (Q_Threads x) = tl (tqueue k (Q_Threads x))"
proof -
  obtain t ts where ts: "tqueue k (Q_Threads x) = t # ts" using assms(3) by (auto simp: queue_notempty_def neq_Nil_conv)
  define k0 where "k0 = set_queue (Q_Threads x) ts k"
  have f: "queue_fifo_remove (Q_Threads x) k = Some (t, k0)" by (simp add: queue_fifo_remove_def ts k0_def)
  have q: "queues_ok k" using assms(1) by (simp add: kernel_mid_def)
  note r = queues_fifo_remove[OF q f]
  then have s: "tst k t = CH_STATE_QUEUED" by simp
  have refs: "refs_ok k" using assms(2) by (simp add: aux_parts)
  define k1 where "k1 = set_thr t (p_u_update (\<lambda>_. U_Msg m)) k0"
  have e: "k0 = queue_dequeue t k" using r by simp
  have tr: "tref k = unref t k" using unref_other[OF refs, of t] s by simp
  have rel: "released t k k1" by (rule releasedI[of _ _ _ "U_Msg m"]) (use tr in \<open>simp_all add: k1_def e fun_eq_iff\<close>)
  have "timed_state (tst k t)" "tst k t \<noteq> CH_STATE_SLEEPING" using s by simp_all
  then have "fine_mid k (chSchReadyI t k1)" using wake_fine_mid[OF assms(1,2) _ _ rel] by simp
  moreover have "chSchReadyI t k1 = Some (readied t k1)"
    using wake_mid(1)[OF assms(1) _ _ rel] s assms(2) by (simp add: aux_ok_def)
  ultimately show ?thesis
    using that[of "readied t k1"] f by (simp add: fine_mid_def chThdDoDequeueNextI_def k1_def) (simp add: k0_def ts)
qed

lemma dequeue_next_op: "kernel_mid k \<Longrightarrow> aux_ok k \<Longrightarrow> fine_mid k (chThdDequeueNextI x m k)"
  using dequeue_op[of k x m] fine_mid_refl[of k] unfolding chThdDequeueNextI_def fine_mid_def by metis

lemma dequeue_all_op:
  assumes "kernel_mid k" and "aux_ok k"
  shows "fine_mid k (chThdDequeueAllI x m k)"
proof -
  have "\<exists>k'. loop_while (queue_notempty (Q_Threads x)) (chThdDoDequeueNextI x m) k = Some k' \<and>
      (kernel_mid k' \<and> aux_ok k' \<and> calm k k') \<and> \<not> queue_notempty (Q_Threads x) k'"
  proof (rule loop_while_measure[where m = "\<lambda>k. length (tqueue k (Q_Threads x))"])
    fix s assume s: "kernel_mid s \<and> aux_ok s \<and> calm k s" "queue_notempty (Q_Threads x) s"
    then obtain s' where "chThdDoDequeueNextI x m s = Some s'" "kernel_mid s'" "aux_ok s'" "calm s s'"
      "tqueue s' (Q_Threads x) = tl (tqueue s (Q_Threads x))" using dequeue_op by blast
    then show "\<exists>s'. chThdDoDequeueNextI x m s = Some s' \<and> (kernel_mid s' \<and> aux_ok s' \<and> calm k s') \<and>
        (queue_notempty (Q_Threads x) s' \<longrightarrow> length (tqueue s' (Q_Threads x)) < length (tqueue s (Q_Threads x)))"
      using s calm_trans by (intro exI[of _ s']) (auto simp: queue_notempty_def)
  qed (use assms in simp)
  then show ?thesis by (auto simp: chThdDequeueAllI_def fine_mid_def)
qed

end
