(* ===== verification/Ch_Life.thy ===== *)
theory Ch_Life
  imports Ch_Wake
begin

text \<open>
  Signalled events, the life of a thread from its creation to its end, the waits for that
  end, and the tick of the system timer.
\<close>

subsection \<open>Events\<close>

text \<open>Data of a thread that only events look at.\<close>

lemma pending_data:
  assumes "kernel_mid k" and "aux_ok k" and "k' = set_thr t (\<lambda>th. th\<lparr>p_epending := e, p_flags := f\<rparr>) k" and "evt_ok (thr k' t)"
  shows "kernel_mid k'" and "aux_ok k'" and "calm k k'"
proof -
  have d: "tst k' u = tst k u" "prio k' u = prio k u" "rprio k' u = rprio k u" "p_u (thr k' u) = p_u (thr k u)"
    "p_mtxlist (thr k' u) = p_mtxlist (thr k u)" "p_waiting (thr k' u) = p_waiting (thr k u)" for u by (simp_all add: assms(3))
  have g: "tqueue k' = tqueue k" "m_owner k' = m_owner k" "m_next k' = m_next k" "currp k' = currp k" "tref k' = tref k"
    "vtlist k' = vtlist k" "vt_systime k' = vt_systime k" by (simp_all add: assms(3))
  have m: "mutex_ok k" using assms(1) by (simp add: kernel_mid_def)
  have "mutex_ok k'" by (rule mutex_frame[OF m]) (use d g m in \<open>simp_all add: mutex_but_def\<close>)
  moreover have "queues_ok k' = queues_ok k" by (rule queues_data) (use d g in simp_all)
  ultimately show "kernel_mid k'" using assms(1) d g by (simp add: kernel_mid_def current_ok_def)
  have "timing_ok k'" by (rule timing_cong[of k]) (use assms(2) d g in \<open>simp_all add: aux_parts\<close>)
  moreover have "refs_ok k'" by (rule refs_cong[of k]) (use assms(2) d g in \<open>simp_all add: aux_parts\<close>)
  moreover have "waits_ok k'" by (rule waits_cong[of k]) (use assms(2) d g in \<open>simp_all add: aux_parts\<close>)
  moreover have "evt_ok (thr k' u)" for u
    using assms(2,4) by (cases "u = t") (simp_all add: aux_parts assms(3))
  ultimately show "aux_ok k'" by (simp add: aux_parts)
  show "calm k k'" using d g by (simp add: calm_def)
qed

lemma signalI_op:
  assumes "kernel_mid k" and "aux_ok k"
  shows "fine_mid k (chEvtSignalI t m k)"
proof -
  define k1 where "k1 = set_thr t (p_epending_update (\<lambda>e. e OR m)) k"
  have ev: "evt_ok (thr k t)" using assms(2) by (simp add: aux_parts)
  show ?thesis
  proof (cases "evt_arrived (thr k1 t)")
    case False
    define e where "e = p_epending (thr k t) OR m"
    have e: "k1 = set_thr t (\<lambda>th. th\<lparr>p_epending := e, p_flags := p_flags (thr k t)\<rparr>) k"
      by (cases "thr k t") (simp add: k1_def e_def set_thr_def)
    have "evt_ok (thr k1 t)" using ev False by (auto simp: evt_ok_def k1_def)
    then show ?thesis
      using pending_data[OF assms e] False by (simp add: chEvtSignalI_def k1_def fine_mid_def Let_def)
  next
    case True
    then have s: "tst k t = CH_STATE_WTOREVT \<or> tst k t = CH_STATE_WTANDEVT"
      by (auto simp: evt_arrived_def k1_def split: state_data.splits)
    have refs: "refs_ok k" and q: "queues_ok k" using assms by (simp_all add: aux_parts kernel_mid_def)
    have tr: "tref k = unref t k" using unref_other[OF refs, of t] s by auto
    have tq: "tqueue k = (\<lambda>q. remove1 t (tqueue k q))" by (rule not_queued[OF q]) (use s in \<open>auto simp: queued_state_def\<close>)
    define k2 where "k2 = set_thr t (p_u_update (\<lambda>_. U_Msg MSG_OK)) k1"
    have c: "(p_epending_update g (thr k t))\<lparr>p_u := d\<rparr> = (thr k t)\<lparr>p_u := d, p_epending := g (p_epending (thr k t))\<rparr>" for g d
      by (cases "thr k t") simp
    have "thr k2 = (thr k)(t := (thr k t)\<lparr>p_u := U_Msg MSG_OK, p_epending := p_epending (thr k t) OR m\<rparr>)"
      by (simp add: k2_def k1_def c)
    then have "released t k k2" unfolding released_def using tr tq by (auto simp: k2_def k1_def)
    moreover have "timed_state (tst k t)" "tst k t \<noteq> CH_STATE_SLEEPING" using s by auto
    ultimately show ?thesis
      using wake_fine_mid[OF assms] True by (simp add: chEvtSignalI_def k2_def k1_def Let_def)
  qed
qed

lemma fine_mid_bind:
  assumes "fine_mid k r" and "\<And>k1. kernel_mid k1 \<Longrightarrow> aux_ok k1 \<Longrightarrow> fine_mid k1 (f k1)"
  shows "fine_mid k (Option.bind r f)"
  using assms calm_trans unfolding fine_mid_def by (metis (no_types, lifting) Option.bind.bind_lunit)

lemma broadcast_op:
  assumes "kernel_mid k" and "aux_ok k"
  shows "fine_mid k (map_option snd (chEvtBroadcastFlagsI es f k))"
  using assms
proof (induction es arbitrary: k)
  case Nil
  then show ?case by (simp add: fine_mid_refl)
next
  case (Cons e es)
  have m: "map_option snd (Option.bind r (\<lambda>k1. map_option (\<lambda>(es', k2). (h # es', k2)) (g k1)))
      = Option.bind r (\<lambda>k1. map_option snd (g k1))" for r :: "kernel option" and g :: "kernel \<Rightarrow> ((nat \<times> listener) list \<times> kernel) option" and h
    by (cases r) (auto simp: option.map_comp comp_def case_prod_beta)
  show ?case
    unfolding chEvtBroadcastFlagsI.simps Let_def m
    by (rule fine_mid_bind) (use Cons signalI_op fine_mid_refl in auto)
qed

subsection \<open>Creation\<close>

lemma create_op:
  assumes "rtos_ok k" and "tst k t = CH_STATE_FINAL" and "p_mtxlist (thr k t) = None" and "0 < p" and "k0 = thread_init t p k"
  shows "fine k (chThdCreateStatic t p k)"
proof -
  have k: "kernel_ok k" "aux_ok k" "kernel_mid k" using assms(1) by (simp_all add: rtos_ok_def kernel_mid)
  then have sk: "sched_ok k" by (simp add: kernel_ok_def)
  have m: "queues_ok k" "current_ok k" "mutex_ok k" "runnable (tst k IDLE)" using k(3) by (simp_all add: kernel_mid_def)
  have nc: "t \<noteq> currp k" using m(2) assms(2) by (metis current_ok_def tstate.distinct(57))
  have ni: "t \<noteq> IDLE" using m(4) assms(2) by auto
  define k1 where "k1 = set_thr t (p_u_update (\<lambda>_. U_Msg MSG_OK)) k0"
  define kr where "kr = readied t k1"
  have f: "tst kr u = (if u = t then CH_STATE_READY else tst k u)" "prio kr u = (if u = t then p else prio k u)"
    "rprio kr u = (if u = t then p else rprio k u)" "p_mtxlist (thr kr u) = p_mtxlist (thr k u)"
    "u \<noteq> t \<Longrightarrow> thr kr u = thr k u" "p_waiting (thr kr t) = []"
    "m_owner kr = m_owner k" "m_next kr = m_next k" "currp kr = currp k" "vtlist kr = vtlist k" "vt_systime kr = vt_systime k"
    "tref kr = tref k" "q \<noteq> Q_Ready \<Longrightarrow> tqueue kr q = tqueue k q" for u q
    using assms(3) by (simp_all add: kr_def k1_def assms(5) thread_init_def)
  have "queues_but {t} k" using m(1) by (rule queues_add) (simp add: assms(2) queued_state_def)
  then have q0: "queues_but {t} k0" unfolding assms(5) thread_init_def by (rule queues_set_thr) simp
  then have q1: "queues_but {t} k1" unfolding k1_def by (rule queues_set_thr) simp
  have p1: "prio k1 t = p" by (simp add: k1_def assms(5) thread_init_def)
  have "queues_ok kr" unfolding kr_def using queues_readied[of t "{}" k1] q1 assms(4) p1 by simp
  moreover have "current_ok kr" using m(2) nc f(1,9) by (simp add: current_ok_def)
  moreover have "owns kr = owns k" unfolding owns_def f(4,7,8) ..
  moreover have o: "m_owner k n \<noteq> Some t" for n
  proof -
    have "\<exists>ms. owns k t ms" using m(3) by (simp add: mutex_but_def)
    then obtain ms where "owns k t ms" by blast
    then show ?thesis using assms(3) by (cases ms) (auto simp: owns_def)
  qed
  have b: "blocker kr u = blocker k u" for u
    using assms(2) f(1,5,7) by (cases "u = t") (simp_all add: blocker_def cong: state_data.case_cong)
  have nb: "blocker k t = None" "blocker k w \<noteq> Some t" for w
    using assms(2) o by (auto simp: blocker_def split: state_data.splits if_splits)
  have "balanced (prio kr) (rprio kr) (blocker kr) u (prio kr u)" for u
  proof (cases "u = t")
    case True
    then show ?thesis using nb(2) by (simp add: balanced_def b f(2,3))
  next
    case False
    have "balanced (prio k) (rprio k) (blocker k) u (prio k u)" using m(3) by (simp add: mutex_but_def)
    moreover have p: "prio kr w = prio k w" if "blocker k w = Some u" for w using that nb(1) f(2) by auto
    moreover have "prio kr u = prio k u" "rprio kr u = rprio k u" using False by (simp_all add: f(2,3))
    ultimately show ?thesis by (simp add: balanced_def b p cong: conj_cong)
  qed
  moreover have "finite {u. tst kr u = CH_STATE_WTMTX}"
    by (rule finite_subset[of _ "{u. tst k u = CH_STATE_WTMTX}"]) (use m(3) f(1) in \<open>auto simp: mutex_but_def split: if_splits\<close>)
  ultimately have kr: "kernel_mid kr"
    using m(3,4) assms(4) ni f by (auto simp: kernel_mid_def mutex_but_def split: if_splits)
  have aux: "aux_ok kr"
  proof -
    have w: "waits_ok k" using k(2) by (simp add: aux_parts)
    then have wt: "p_waiting (thr k t) = []" using assms(2) by (simp add: waits_ok_def)
    have "timing_ok kr" by (rule timing_cong[of k]) (use k(2) f in \<open>auto simp: aux_parts\<close>)
    moreover have "refs_ok kr"
    proof (rule refs_cong[of k])
      show "p_u (thr kr u) = p_u (thr k u)" if "tst k u = CH_STATE_SUSPENDED" for u
        using that assms(2) f(5)[of u] by (cases "u = t") simp_all
    qed (use k(2) f(1,12) assms(2) in \<open>auto simp: aux_parts split: if_splits\<close>)
    moreover have "waits_ok kr"
    proof (rule waits_cong[OF w])
      show "p_waiting (thr kr u) = p_waiting (thr k u)" for u using f(5,6) wt by (cases "u = t") simp_all
    qed (use f(1) assms(2) in \<open>auto split: if_splits\<close>)
    moreover have "evt_ok (thr kr u)" for u
      using k(2) f(1,5) by (cases "u = t") (auto simp: aux_parts intro!: evt_ok_other)
    ultimately show ?thesis by (simp add: aux_parts)
  qed
  have calm: "calm k kr" using f(1,10,11) assms(2) by (auto simp: calm_def)
  have s0: "sched_ok k0"
  proof -
    have "queues_ok k0" by (rule queues_settled[OF q0]) (use assms(4) in \<open>simp_all add: assms(5) thread_init_def queued_state_def\<close>)
    moreover have "t \<notin> set (tqueue k Q_Ready)" using queues_seated[OF m(1), of t Q_Ready] assms(2) by auto
    ultimately show ?thesis using sk nc by (auto simp: sched_ok_iff current_ok_def assms(5) thread_init_def)
  qed
  have pc: "0 < prio k0 t" "currp k0 = currp k" using assms(4) by (simp_all add: assms(5) thread_init_def)
  show ?thesis
    unfolding chThdCreateStatic_def assms(5)[symmetric]
    by (rule wakeup_fine[OF q0 _ pc(1) s0 k1_def]) (use nc pc kr aux calm in \<open>simp_all add: kr_def\<close>)
qed

subsection \<open>The end of a thread\<close>

lemma current_data:
  assumes "kernel_mid k" and "aux_ok k" and "k' = set_thr (currp k) (p_u_update (\<lambda>_. d)) k"
  shows "kernel_mid k'" and "aux_ok k'"
proof -
  let ?c = "currp k"
  have m: "queues_ok k" "current_ok k" "mutex_ok k" "runnable (tst k IDLE)" using assms(1) by (simp_all add: kernel_mid_def)
  have st: "tst k ?c = CH_STATE_CURRENT" using m(2) by (simp add: current_ok_def)
  have f: "tst k' u = tst k u" "prio k' u = prio k u" "rprio k' u = rprio k u" "p_mtxlist (thr k' u) = p_mtxlist (thr k u)"
    "p_waiting (thr k' u) = p_waiting (thr k u)" "u \<noteq> ?c \<Longrightarrow> thr k' u = thr k u" "tqueue k' = tqueue k" "m_owner k' = m_owner k"
    "m_next k' = m_next k" "vtlist k' = vtlist k" "tref k' = tref k" "currp k' = ?c" for u
    by (simp_all add: assms(3))
  have "queues_but {?c} k" using m(1) by (rule queues_add) (simp add: st queued_state_def)
  then have "queues_but {?c} k'" unfolding assms(3) by (rule queues_set_thr) simp
  then have "queues_ok k'"
    by (rule queues_settled) (use f(1,2) st sched_pos[OF m(1,2)] in \<open>simp_all add: queued_state_def\<close>)
  moreover have "mutex_ok k'"
  proof (rule mutex_frame[OF m(3)])
    show "p_u (thr k' u) = p_u (thr k u)" if "tst k u = CH_STATE_WTMTX" for u using that st f(6) by (cases "u = ?c") auto
  qed (use f m(3) in \<open>simp_all add: mutex_but_def\<close>)
  ultimately show "kernel_mid k'" using m f by (simp add: kernel_mid_def current_ok_def)
  have "timing_ok k'" by (rule timing_cong[of k]) (use assms(2) f in \<open>simp_all add: aux_parts\<close>)
  moreover have "refs_ok k'"
  proof (rule refs_cong[of k])
    show "p_u (thr k' u) = p_u (thr k u)" if "tst k u = CH_STATE_SUSPENDED" for u using that st f(6) by (cases "u = ?c") auto
  qed (use assms(2) f in \<open>simp_all add: aux_parts\<close>)
  moreover have "waits_ok k'" by (rule waits_cong[of k]) (use assms(2) f in \<open>simp_all add: aux_parts\<close>)
  moreover have "evt_ok (thr k' u)" for u
    using assms(2) f(1,6) st by (cases "u = ?c") (auto simp: aux_parts intro!: evt_ok_other)
  ultimately show "aux_ok k'" by (simp add: aux_parts)
qed

text \<open>One thread that waits for the end of the current one is made ready.\<close>

lemma ready_waiting_ok:
  assumes "kernel_mid k" and "aux_ok k" and "p_waiting (thr k (currp k)) = t # ts"
  obtains k' where "ready_waiting k = Some k'" and "kernel_mid k'" and "aux_ok k'" and "calm k k'"
    and "currp k' = currp k" and "vtlist k' = vtlist k" and "p_waiting (thr k' (currp k)) = ts"
proof -
  let ?c = "currp k"
  have w: "waits_ok k" and q: "queues_ok k" "current_ok k" using assms(1,2) by (simp_all add: aux_parts kernel_mid_def)
  have st: "tst k ?c = CH_STATE_CURRENT" using q(2) by (simp add: current_ok_def)
  have s: "tst k t = CH_STATE_WTEXIT" using w assms(3) unfolding waits_ok_def by (metis list.set_intros(1))
  then have ne: "t \<noteq> ?c" using st by auto
  define k1 where "k1 = set_thr ?c (p_waiting_update (\<lambda>_. ts)) k"
  have "tqueue k = (\<lambda>q. remove1 t (tqueue k q))" by (rule not_queued[OF q(1)]) (simp add: s queued_state_def)
  then have tq: "tqueue k1 = (\<lambda>q. remove1 t (tqueue k q))" by (simp add: k1_def)
  have sd: "same_data t k k1" by (simp add: same_data_def k1_def)
  note r = wake_kernel[OF assms(1) sd tq]
  define k' where "k' = readied t k1"
  have f: "tst k' u = (if u = t then CH_STATE_READY else tst k u)" "p_waiting (thr k' u) = (if u = ?c then ts else p_waiting (thr k u))"
    "p_u (thr k' u) = p_u (thr k u)" "vtlist k' = vtlist k" "tref k' = tref k" "currp k' = ?c" "vt_systime k' = vt_systime k" for u
    using ne by (simp_all add: k'_def k1_def)
  have "timing_ok k'" by (rule timing_cong[of k]) (use assms(2) f in \<open>auto simp: aux_parts\<close>)
  moreover have "refs_ok k'" by (rule refs_cong[of k]) (use assms(2) f s in \<open>auto simp: aux_parts split: if_splits\<close>)
  moreover have "waits_ok k'"
  proof -
    have d: "distinct (t # ts)" using w assms(3) unfolding waits_ok_def by metis
    have u: "u = ?c" if "x \<in> set (t # ts)" "x \<in> set (p_waiting (thr k u))" for u x
      using w assms(3) that unfolding waits_ok_def by metis
    have "tst k' v = CH_STATE_WTEXIT \<longleftrightarrow> (\<exists>u. v \<in> set (p_waiting (thr k' u)))" for v
    proof (cases "v = t")
      case True
      then show ?thesis using d u[of t] by (auto simp: f split: if_splits)
    next
      case False
      have "v \<in> set (p_waiting (thr k' u)) \<longleftrightarrow> v \<in> set (p_waiting (thr k u))" for u
        using False assms(3) by (cases "u = ?c") (simp_all add: f)
      then show ?thesis using False w by (simp add: f waits_ok_def)
    qed
    moreover have "distinct (p_waiting (thr k' v)) \<and> (tst k' v = CH_STATE_FINAL \<longrightarrow> p_waiting (thr k' v) = [])" for v
      using w d st by (auto simp: f waits_ok_def)
    moreover have "v = v'" if "x \<in> set (p_waiting (thr k' v))" "x \<in> set (p_waiting (thr k' v'))" for v v' x
      using that u w assms(3) unfolding waits_ok_def f(2) by (metis list.set_intros(2))
    ultimately show ?thesis unfolding waits_ok_def by blast
  qed
  moreover have "evt_ok (thr k' u)" for u
  proof (cases "u = t \<or> u = ?c")
    case True
    then show ?thesis by (intro evt_ok_other) (use st f(1)[of u] in auto)
  next
    case False
    then have "thr k' u = thr k u" by (simp add: k'_def k1_def)
    then show ?thesis using assms(2) by (simp add: aux_parts)
  qed
  ultimately have "aux_ok k'" by (simp add: aux_parts)
  moreover have "kernel_mid k'" "ready_waiting k = Some k'" using r s assms(3) by (simp_all add: ready_waiting_def k'_def k1_def)
  moreover have "calm k k'" using f(1,4,7) s by (simp add: calm_def)
  ultimately show ?thesis using that[of k'] f by simp
qed

lemma exit_op:
  assumes "rtos_ok k" and "currp k \<noteq> IDLE"
  shows "fine k (chThdExitS msg k)"
proof -
  let ?c = "currp k"
  have k: "kernel_mid k" "aux_ok k" using assms(1) by (simp_all add: rtos_ok_def kernel_mid)
  have st: "tst k ?c = CH_STATE_CURRENT" using k(1) by (simp add: kernel_mid_def current_ok_def)
  define k0 where "k0 = set_thr ?c (p_u_update (\<lambda>_. U_Exit msg)) k"
  note k0 = current_data[OF k k0_def]
  have f0: "currp k0 = ?c" "vtlist k0 = vtlist k" "calm k k0" by (simp_all add: k0_def calm_def)
  let ?more = "\<lambda>k. p_waiting (thr k (currp k)) \<noteq> []"
  have "\<exists>k1. loop_while ?more ready_waiting k0 = Some k1 \<and>
      (kernel_mid k1 \<and> aux_ok k1 \<and> calm k k1 \<and> currp k1 = ?c \<and> vtlist k1 = vtlist k) \<and> \<not> ?more k1"
  proof (rule loop_while_measure[where m = "\<lambda>k. length (p_waiting (thr k (currp k)))"])
    fix s assume s: "kernel_mid s \<and> aux_ok s \<and> calm k s \<and> currp s = ?c \<and> vtlist s = vtlist k" "?more s"
    then obtain t ts where ts: "p_waiting (thr s (currp s)) = t # ts" by (auto simp: neq_Nil_conv)
    obtain s' where "ready_waiting s = Some s'" "kernel_mid s'" "aux_ok s'" "calm s s'" "currp s' = currp s" "vtlist s' = vtlist s"
      "p_waiting (thr s' (currp s)) = ts"
      using s(1) ready_waiting_ok[OF _ _ ts] by blast
    then show "\<exists>s'. ready_waiting s = Some s' \<and>
        (kernel_mid s' \<and> aux_ok s' \<and> calm k s' \<and> currp s' = ?c \<and> vtlist s' = vtlist k) \<and>
        (?more s' \<longrightarrow> length (p_waiting (thr s' (currp s'))) < length (p_waiting (thr s (currp s))))"
      using s(1) ts calm_trans by (intro exI[of _ s']) auto
  qed (use k0 f0 in simp)
  then obtain k1 where k1: "loop_while ?more ready_waiting k0 = Some k1" "kernel_mid k1" "aux_ok k1" "calm k k1"
    "currp k1 = ?c" "vtlist k1 = vtlist k" "p_waiting (thr k1 ?c) = []" by auto
  have st1: "tst k1 ?c = CH_STATE_CURRENT" using k1(2,5) by (simp add: kernel_mid_def current_ok_def)
  define k2 where "k2 = set_thr ?c (p_state_update (\<lambda>_. CH_STATE_FINAL)) k1"
  have f: "tst k2 u = (if u = ?c then CH_STATE_FINAL else tst k1 u)" "p_waiting (thr k2 u) = p_waiting (thr k1 u)"
    "p_u (thr k2 u) = p_u (thr k1 u)" "tref k2 = tref k1" "vtlist k2 = vtlist k1" "u \<noteq> ?c \<Longrightarrow> thr k2 u = thr k1 u" for u
    by (simp_all add: k2_def)
  have w: "waits_ok k1" using k1(3) by (simp add: aux_parts)
  have "timing_ok k2"
  proof (rule timing_cong[of k1])
    fix u assume u: "u \<in> fst ` set (vtlist k1)" "timed_state (tst k1 u) \<or> runnable (tst k1 u)"
    then have "u \<noteq> ?c" using rtos_unarmed[OF assms(1)] k1(6) by metis
    then show "timed_state (tst k2 u) \<or> runnable (tst k2 u)" using u(2) by (simp add: f)
  qed (use k1(3) f in \<open>simp_all add: aux_parts\<close>)
  moreover have "refs_ok k2" by (rule refs_cong[of k1]) (use k1(3) f st1 in \<open>auto simp: aux_parts split: if_splits\<close>)
  moreover have "waits_ok k2"
  proof -
    have "tst k2 u = CH_STATE_WTEXIT \<longleftrightarrow> tst k1 u = CH_STATE_WTEXIT" for u using st1 by (simp add: f)
    then show ?thesis using w k1(7) unfolding waits_ok_def f(2) by (simp add: f(1))
  qed
  moreover have "evt_ok (thr k2 u)" for u
    using k1(3) f(1,6) by (cases "u = ?c") (auto simp: aux_parts intro!: evt_ok_other)
  ultimately have a: "aux_ok k2" by (simp add: aux_parts)
  have "fine k1 (chSchGoSleepS CH_STATE_FINAL k1)"
    by (rule sleep_fine) (use k1(2,5) a assms(2) in \<open>simp_all add: same_data_def put_in_def queued_state_def parked_def k2_def\<close>)
  moreover have "chThdExitS msg k = chSchGoSleepS CH_STATE_FINAL k1" using k1(1) by (simp add: chThdExitS_def k0_def)
  ultimately show ?thesis using k1(4) calm_trans unfolding fine_def by metis
qed

text \<open>The wait for a thread's end.\<close>

lemma wait_op:
  assumes "rtos_ok k" and "currp k \<noteq> IDLE" and "t \<noteq> currp k"
  shows "fine k (chThdWait t k)"
proof (cases "tst k t = CH_STATE_FINAL")
  case True
  then show ?thesis using fine_refl[OF assms(1)] by (simp add: chThdWait_def)
next
  case False
  let ?c = "currp k"
  have k: "kernel_mid k" "aux_ok k" using assms(1) by (simp_all add: rtos_ok_def kernel_mid)
  have st: "tst k ?c = CH_STATE_CURRENT" using k(1) by (simp add: kernel_mid_def current_ok_def)
  have w: "waits_ok k" using k(2) by (simp add: aux_parts)
  have nw: "?c \<notin> set (p_waiting (thr k u))" for u using w st unfolding waits_ok_def by (metis tstate.distinct(7) tstate.distinct(45))
  define k1 where "k1 = set_thr t (p_waiting_update ((#) ?c)) k"
  define k2 where "k2 = set_thr ?c (p_state_update (\<lambda>_. CH_STATE_WTEXIT)) k1"
  have f: "tst k2 u = (if u = ?c then CH_STATE_WTEXIT else tst k u)" 
    "p_waiting (thr k2 u) = (if u = t then ?c # p_waiting (thr k u) else p_waiting (thr k u))"
    "p_u (thr k2 u) = p_u (thr k u)" "p_epending (thr k2 u) = p_epending (thr k u)" "tref k2 = tref k" "vtlist k2 = vtlist k" for u
    using assms(3) by (simp_all add: k2_def k1_def)
  have "timing_ok k2"
  proof (rule timing_cong[of k])
    fix u assume u: "u \<in> fst ` set (vtlist k)" "timed_state (tst k u) \<or> runnable (tst k u)"
    then have "u \<noteq> ?c" using rtos_unarmed[OF assms(1)] by metis
    then show "timed_state (tst k2 u) \<or> runnable (tst k2 u)" using u(2) by (simp add: f)
  qed (use k(2) f in \<open>simp_all add: aux_parts\<close>)
  moreover have "refs_ok k2" by (rule refs_cong[of k]) (use k(2) f st in \<open>auto simp: aux_parts split: if_splits\<close>)
  moreover have "waits_ok k2"
  proof -
    have i: "x \<in> set (p_waiting (thr k2 u)) \<longleftrightarrow> x \<in> set (p_waiting (thr k u)) \<or> x = ?c \<and> u = t" for x u by (auto simp: f)
    have "tst k2 x = CH_STATE_WTEXIT \<longleftrightarrow> (\<exists>u. x \<in> set (p_waiting (thr k2 u)))" for x
      using w unfolding i f(1) waits_ok_def by (metis (full_types))
    moreover have "distinct (p_waiting (thr k2 u)) \<and> (tst k2 u = CH_STATE_FINAL \<longrightarrow> p_waiting (thr k2 u) = [])" for u
      using w nw[of t] False unfolding waits_ok_def by (auto simp: f)
    moreover have "u = u'" if "x \<in> set (p_waiting (thr k2 u))" "x \<in> set (p_waiting (thr k2 u'))" for u u' x
      using that w nw unfolding i waits_ok_def by blast
    ultimately show ?thesis unfolding waits_ok_def by blast
  qed
  moreover have "evt_ok (thr k2 u)" for u
  proof (cases "u = ?c")
    case True
    then show ?thesis by (intro evt_ok_other) (simp_all add: f)
  next
    case False
    moreover have "evt_ok (thr k u)" using k(2) by (simp add: aux_parts)
    ultimately show ?thesis by (simp add: evt_ok_def evt_arrived_def f cong: state_data.case_cong)
  qed
  ultimately have "aux_ok k2" by (simp add: aux_parts)
  then have "fine k (chSchGoSleepS CH_STATE_WTEXIT k1)"
    by (intro sleep_fine) (use k(1) assms(2) in \<open>simp_all add: same_data_def put_in_def queued_state_def parked_def k2_def k1_def calm_def\<close>)
  then show ?thesis using False by (simp add: chThdWait_def k1_def)
qed

lemma terminate_op:
  assumes "rtos_ok k"
  shows "fine k (Some (chThdTerminate t k))"
proof -
  have k: "kernel_ok k" "kernel_mid k" "aux_ok k" using assms by (simp_all add: rtos_ok_def kernel_mid)
  have e: "chThdTerminate t k = set_thr t (\<lambda>th. th\<lparr>p_epending := p_epending (thr k t), p_flags := p_flags (thr k t) OR CH_FLAG_TERMINATE\<rparr>) k"
    by (cases "thr k t") (simp add: chThdTerminate_def set_thr_def)
  have "evt_ok (thr k t)" using k(3) by (simp add: aux_parts)
  then have "evt_ok (thr (chThdTerminate t k) t)" by (simp add: chThdTerminate_def evt_ok_def evt_arrived_def cong: state_data.case_cong)
  note p = pending_data[OF k(2,3) e this]
  have "\<forall>u\<in>set (tqueue k Q_Ready). prio k u \<le> prio k (currp k)" using k(1) by (simp add: kernel_ok_def sched_ok_iff)
  then have "kernel_ok (chThdTerminate t k)" using p(1) by (auto simp: kernel_mid chThdTerminate_def)
  then show ?thesis using p by (simp add: fine_def)
qed

end
