(* ===== verification/Ch_Tick.thy ===== *)
theory Ch_Tick
  imports Ch_Life
begin

text \<open>
  The tick of the system timer: it counts every armed timer down by one and wakes the threads
  whose time is over, and no others.
\<close>

lemma wakeup_released:
  assumes "kernel_mid k" and "links_ok k" and "timed_state (tst k t)"
  obtains k1 where "wakeup t k = chSchReadyI t k1" and "released t k k1"
proof -
  have q: "queues_ok k" and refs: "refs_ok k" using assms(1,2) by (simp_all add: kernel_mid_def links_ok_def)
  let ?woken = "\<lambda>k. set_thr t (p_u_update (\<lambda>_. U_Msg MSG_TIMEOUT)) k"
  have other: "unref t k = tref k" if "tst k t \<noteq> CH_STATE_SUSPENDED" using unref_other[OF refs that] .
  consider "tst k t = CH_STATE_SUSPENDED" | "tst k t = CH_STATE_QUEUED"
    | "tst k t = CH_STATE_SLEEPING \<or> tst k t = CH_STATE_WTOREVT \<or> tst k t = CH_STATE_WTANDEVT"
    using assms(3) by (auto simp: timed_state_def)
  then show ?thesis
  proof cases
    case 1
    then obtain r where r: "p_u (thr k t) = U_Ref r" using refs by (auto simp: refs_ok_def)
    then have tr: "tref k r = Some t" using refs 1 by (simp add: refs_ok_def)
    have "tqueue k = (\<lambda>q. remove1 t (tqueue k q))" by (rule not_queued[OF q]) (simp add: 1 queued_state_def)
    then have "released t k (?woken (k\<lparr>tref := (tref k)(r := None)\<rparr>))"
      by (intro releasedI[of _ _ _ "U_Msg MSG_TIMEOUT"]) (use unref_one[OF refs tr] in simp_all)
    then show ?thesis using that 1 r by (simp add: wakeup_def)
  next
    case 2
    have "released t k (?woken (queue_dequeue t k))"
      by (intro releasedI[of _ _ _ "U_Msg MSG_TIMEOUT"]) (use other 2 in \<open>simp_all add: fun_eq_iff\<close>)
    then show ?thesis using that 2 by (simp add: wakeup_def)
  next
    case 3
    have "tqueue k = (\<lambda>q. remove1 t (tqueue k q))" by (rule not_queued[OF q]) (use 3 in \<open>auto simp: queued_state_def\<close>)
    then have "released t k (?woken k)"
      by (intro releasedI[of _ _ _ "U_Msg MSG_TIMEOUT"]) (use other 3 in auto)
    then show ?thesis using that 3 by (auto simp: wakeup_def)
  qed
qed

definition ticking :: "kernel \<Rightarrow> bool" where
  "ticking k \<longleftrightarrow> kernel_mid k \<and> links_ok k \<and> currp k \<notin> fst ` set (vtlist k) \<and>
     distinct (map fst (vtlist k)) \<and> extent (vtlist k) < 2 ^ 32 \<and>
     (\<forall>v\<in>fst ` set (vtlist k). timed_state (tst k v) \<or> runnable (tst k v))"

lemma fire_one:
  assumes "ticking k" and "vtlist k = p # ps"
  shows "\<exists>k'. wakeup (fst p) (k\<lparr>vtlist := ps\<rparr>) = Some k' \<and> ticking k' \<and> runnable (tst k' (fst p)) \<and>
    (\<forall>u. runnable (tst k u) \<longrightarrow> runnable (tst k' u)) \<and> (\<forall>u. u \<noteq> fst p \<longrightarrow> tst k' u = tst k u) \<and>
    vtlist k' = ps \<and> vt_systime k' = vt_systime k \<and> currp k' = currp k"
proof -
  let ?v = "fst p"
  define k0 where "k0 = k\<lparr>vtlist := ps\<rparr>"
  have m: "kernel_mid k0" "links_ok k0" using assms(1) links_cong[of k0 k] by (simp_all add: k0_def ticking_def kernel_vtlist)
  have vs: "fst ` set (vtlist k) = insert ?v (fst ` set ps)" "?v \<notin> fst ` set ps" "distinct (map fst ps)" "extent ps < 2 ^ 32"
    using assms by (auto simp: ticking_def)
  have nc: "?v \<noteq> currp k" "currp k \<notin> fst ` set ps" using assms(1) vs(1) unfolding ticking_def by auto
  have st: "timed_state (tst k u) \<or> runnable (tst k u)" if "u \<in> insert ?v (fst ` set ps)" for u
    using assms(1) that unfolding ticking_def vs(1) by blast
  have t0: "ticking k0" using m nc(2) vs st by (simp add: ticking_def k0_def)
  show ?thesis
  proof (cases "runnable (tst k ?v)")
    case True
    have "tst k ?v = CH_STATE_READY" using True nc(1) m(1) by (auto simp: runnable_def kernel_mid_def current_ok_def k0_def)
    then have "wakeup ?v k0 = Some k0" by (simp add: wakeup_def k0_def)
    then show ?thesis using t0 True by (intro exI[of _ k0]) (simp add: k0_def)
  next
    case False
    then have ts: "timed_state (tst k0 ?v)" using st[of ?v] by (simp add: k0_def)
    obtain k1 where k1: "wakeup ?v k0 = chSchReadyI ?v k1" "released ?v k0 k1" using wakeup_released[OF m ts] .
    note w = wake_mid[OF m ts k1(2)]
    have f: "tst k1 u = tst k u" "vtlist k1 = ps" "vt_systime k1 = vt_systime k" "currp k1 = currp k" for u
      using k1(2) by (auto simp: released_def k0_def)
    have "ticking (readied ?v k1)" using w(2,3) f nc(2) vs st by (auto simp: ticking_def)
    then show ?thesis using w(1) k1(1) f by (intro exI[of _ "readied ?v k1"]) (simp add: k0_def)
  qed
qed

lemma due_pos: "timers_ok ps \<Longrightarrow> due ps v \<noteq> Some 0"
  by (cases ps) (auto simp: timers_ok_def unat_eq_zero split: if_splits)

lemma tick_op:
  assumes "rtos_ok k"
  obtains k' where "chSysTimerHandlerI k = Some k'" and "kernel_mid k'" and "aux_ok k'"
    and "vt_systime k' = vt_systime k + 1"
    and "\<And>v. due (vtlist k') v = (case due (vtlist k) v of Some n \<Rightarrow> if n = 1 then None else Some (n - 1) | None \<Rightarrow> None)"
    and "\<And>v. due (vtlist k) v = Some 1 \<Longrightarrow> runnable (tst k' v)"
    and "\<And>v. due (vtlist k) v \<noteq> Some 1 \<Longrightarrow> tst k' v = tst k v"
    and "currp k' = currp k"
proof -
  have m: "kernel_mid k" "aux_ok k" using assms by (simp_all add: rtos_ok_def kernel_mid)
  have t: "timers_ok (vtlist k)" using m(2) by (simp add: aux_ok_def timing_ok_def)
  have nc: "currp k \<notin> fst ` set (vtlist k)" by (rule rtos_unarmed[OF assms])
  have st: "\<forall>v\<in>fst ` set (vtlist k). timed_state (tst k v) \<or> runnable (tst k v)" using m(2) unfolding aux_ok_def timing_ok_def by blast
  define k1 where "k1 = k\<lparr>vt_systime := vt_systime k + 1\<rparr>"
  show ?thesis
  proof (cases "vtlist k")
    case Nil
    have "kernel_mid k1 = kernel_mid k" by (rule kernel_cong) (simp_all add: k1_def)
    moreover have "aux_ok k1" using m(2) links_cong[of k1 k] by (simp add: aux_ok_def timing_ok_def k1_def)
    moreover have "chSysTimerHandlerI k = Some k1" using Nil by (simp add: chSysTimerHandlerI_def chVTDoTickI_def k1_def Let_def)
    ultimately show ?thesis using that[of k1] m(1) Nil by (simp add: k1_def)
  next
    case (Cons p ps)
    define k2 where "k2 = k1\<lparr>vtlist := (fst p, snd p - 1) # ps\<rparr>"
    have f: "thr k2 = thr k" "currp k2 = currp k" "vt_systime k2 = vt_systime k + 1" "vtlist k2 = (fst p, snd p - 1) # ps"
      by (simp_all add: k2_def k1_def)
    have t': "timers_ok (p # ps)" using t Cons by simp
    note h = tick_head[OF t', folded f(4)]
    have "kernel_mid k2 = kernel_mid k" by (rule kernel_cong) (simp_all add: k2_def k1_def)
    moreover have "links_ok k2" using m(2) links_cong[of k2 k] by (simp add: aux_ok_def k2_def k1_def)
    moreover have names: "fst ` set (vtlist k2) = fst ` set (vtlist k)" by (simp add: f(4) Cons)
    ultimately have tk: "ticking k2 \<and> currp k2 = currp k" using m(1) h(2,3) nc st unfolding ticking_def f(1,2) by simp
    have d2: "due (vtlist k2) w = Some 0 \<longleftrightarrow> due (vtlist k) w = Some 1" for w
      using h(1)[of w] due_pos[OF t, of w] Cons by (cases "due (vtlist k) w") auto
    obtain k' where k': "loop_while vt_expired (vt_fire wakeup) k2 = Some k'" "ticking k' \<and> currp k' = currp k"
      "vt_systime k' = vt_systime k2" "due (vtlist k') = (\<lambda>w. if due (vtlist k2) w = Some 0 then None else due (vtlist k2) w)"
      "\<forall>w. due (vtlist k2) w = Some 0 \<longrightarrow> runnable (tst k' w)" "\<forall>u. due (vtlist k2) u \<noteq> Some 0 \<longrightarrow> tst k' u = tst k2 u"
      "\<not> vt_expired k'"
      using fire_all[of "\<lambda>\<kappa>. ticking \<kappa> \<and> currp \<kappa> = currp k" wakeup "\<lambda>v \<kappa>. runnable (tst \<kappa> v)" "\<lambda>v \<kappa>. tst \<kappa> v" k2, OF _ tk h(2)]
        fire_one by fastforce
    have "timers_ok (vtlist k')"
      using k'(2,7) by (auto simp: ticking_def timers_ok_def vt_expired_def split: list.splits)
    then have "aux_ok k'" using k'(2) unfolding ticking_def aux_ok_def timing_ok_def by blast
    moreover have "chSysTimerHandlerI k = Some k'"
      using Cons k'(1) by (simp add: chSysTimerHandlerI_def chVTDoTickI_def k1_def k2_def Let_def)
    moreover have "due (vtlist k') v = (case due (vtlist k) v of Some n \<Rightarrow> if n = 1 then None else Some (n - 1) | None \<Rightarrow> None)" for v
      using h(1)[of v] Cons by (auto simp: k'(4) d2 split: option.splits)
    moreover have "kernel_mid k'" using k'(2) by (simp add: ticking_def)
    ultimately show ?thesis using k'(2,3,5,6) d2 f by (intro that[of k']) auto
  qed
qed

end
