(* ===== verification/Ch_Run.thy ===== *)
theory Ch_Run
  imports Ch_Tick
begin

text \<open>
  The kernel as a state machine: the calls that threads and interrupts make, under the
  conditions that the kernel asks of its callers. Every state that is reached from the start
  keeps what the kernel promises, and every call returns there.
\<close>

subsection \<open>Calls\<close>

text \<open>Calls of threads (K), and of interrupts (I), after which the interrupt's end switches threads.\<close>

datatype kcall =
  K_Lock nat | K_TryLock nat | K_Unlock nat | K_UnlockAll | K_Yield
  | K_Create nat u32 | K_Terminate nat | K_Exit int | K_Wait nat
  | K_Sleep u32 | K_SleepUntil u32 | K_Suspend nat u32 | K_Resume nat int | K_Enqueue nat u32
  | K_WaitAny u32 u32 | K_WaitOne u32 u32 | K_WaitAll u32 u32 | K_TakeEvents u32 | K_Signal nat u32
  | K_Broadcast "(nat \<times> listener) list" u32
  | I_Resume nat int | I_DequeueNext nat int | I_DequeueAll nat int | I_Signal nat u32 | I_Tick

definition irq_end :: "kernel \<Rightarrow> kernel option" where
  "irq_end k = (if chSchIsPreemptionRequired k then chSchDoReschedule k else Some k)"

primrec kexec :: "kcall \<Rightarrow> kernel \<Rightarrow> kernel option" where
  "kexec (K_Lock m) k = chMtxLockS m k"
| "kexec (K_TryLock m) k = Some (snd (chMtxTryLockS m k))"
| "kexec (K_Unlock m) k = chMtxUnlock m k"
| "kexec K_UnlockAll k = chMtxUnlockAll k"
| "kexec K_Yield k = chSchDoYieldS k"
| "kexec (K_Create t p) k = chThdCreateStatic t p k"
| "kexec (K_Terminate t) k = Some (chThdTerminate t k)"
| "kexec (K_Exit msg) k = chThdExitS msg k"
| "kexec (K_Wait t) k = chThdWait t k"
| "kexec (K_Sleep n) k = chThdSleepS n k"
| "kexec (K_SleepUntil n) k = chThdSleepUntil n k"
| "kexec (K_Suspend r n) k = chThdSuspendTimeoutS r n k"
| "kexec (K_Resume r m) k = chThdResumeS r m k"
| "kexec (K_Enqueue x n) k = chThdEnqueueTimeoutS x n k"
| "kexec (K_WaitAny m n) k = map_option snd (chEvtWaitAnyTimeout m n k)"
| "kexec (K_WaitOne m n) k = map_option snd (chEvtWaitOneTimeout m n k)"
| "kexec (K_WaitAll m n) k = map_option snd (chEvtWaitAllTimeout m n k)"
| "kexec (K_TakeEvents m) k = Some (snd (chEvtGetAndClearEvents m k))"
| "kexec (K_Signal t m) k = chEvtSignal t m k"
| "kexec (K_Broadcast es f) k = map_option snd (chEvtBroadcastFlags es f k)"
| "kexec (I_Resume r m) k = Option.bind (chThdResumeI r m k) irq_end"
| "kexec (I_DequeueNext x m) k = Option.bind (chThdDequeueNextI x m k) irq_end"
| "kexec (I_DequeueAll x m) k = Option.bind (chThdDequeueAllI x m k) irq_end"
| "kexec (I_Signal t m) k = Option.bind (chEvtSignalI t m k) irq_end"
| "kexec I_Tick k = Option.bind (chSysTimerHandlerI k) irq_end"

text \<open>
  What the kernel's checks and its documentation ask for: the idle thread does not wait, the
  mutex released is the last one taken, a reference is free, and a new thread's structure is
  not in use.
\<close>

fun allowed :: "kcall \<Rightarrow> kernel \<Rightarrow> bool" where
  "allowed (K_Lock m) k \<longleftrightarrow> currp k \<noteq> IDLE \<or> m_owner k m = None"
| "allowed (K_Unlock m) k \<longleftrightarrow> p_mtxlist (thr k (currp k)) = Some m"
| "allowed (K_Create t p) k \<longleftrightarrow> tst k t = CH_STATE_FINAL \<and> p_mtxlist (thr k t) = None \<and> 0 < p"
| "allowed (K_Exit msg) k \<longleftrightarrow> currp k \<noteq> IDLE"
| "allowed (K_Wait t) k \<longleftrightarrow> currp k \<noteq> IDLE \<and> t \<noteq> currp k"
| "allowed (K_Sleep n) k \<longleftrightarrow> currp k \<noteq> IDLE \<and> n \<noteq> 0"
| "allowed (K_SleepUntil n) k \<longleftrightarrow> currp k \<noteq> IDLE"
| "allowed (K_Suspend r n) k \<longleftrightarrow> currp k \<noteq> IDLE \<and> tref k r = None"
| "allowed (K_Enqueue x n) k \<longleftrightarrow> currp k \<noteq> IDLE"
| "allowed (K_WaitAny m n) k \<longleftrightarrow> currp k \<noteq> IDLE"
| "allowed (K_WaitOne m n) k \<longleftrightarrow> currp k \<noteq> IDLE"
| "allowed (K_WaitAll m n) k \<longleftrightarrow> currp k \<noteq> IDLE"
| "allowed _ k \<longleftrightarrow> True"

definition kstep :: "kcall \<Rightarrow> kernel \<Rightarrow> kernel option" where
  "kstep c k = map_option settle (kexec c k)"

fun krun :: "kcall list \<Rightarrow> kernel \<Rightarrow> kernel option" where
  "krun [] k = Some k"
| "krun (c # cs) k = (if allowed c k then Option.bind (kstep c k) (krun cs) else None)"

text \<open>All threads unused, before the start.\<close>

definition no_thread :: ch_thread where
  "no_thread = \<lparr>p_prio = 0, p_realprio = 0, p_state = CH_STATE_FINAL, p_flags = 0, p_u = U_Exit 0, p_mtxlist = None,
     p_epending = 0, p_waiting = []\<rparr>"

definition kernel_boot :: kernel where
  "kernel_boot = \<lparr>thr = (\<lambda>_. no_thread), tqueue = (\<lambda>_. []), currp = MAIN, m_owner = (\<lambda>_. None), m_next = (\<lambda>_. None),
     s_cnt = (\<lambda>_. 0), tref = (\<lambda>_. None), vtlist = [], vt_systime = 0\<rparr>"

inductive kreach :: "kernel \<Rightarrow> bool" where
  kreach_start: "chSysInit kernel_boot = Some k \<Longrightarrow> kreach k"
| kreach_step: "kreach k \<Longrightarrow> allowed c k \<Longrightarrow> kstep c k = Some k' \<Longrightarrow> kreach k'"

subsection \<open>The start\<close>

definition kernel_started :: kernel where
  "kernel_started = kernel_boot\<lparr>
     thr := (\<lambda>_. no_thread)
       (MAIN := no_thread\<lparr>p_prio := NORMALPRIO, p_realprio := NORMALPRIO, p_state := CH_STATE_CURRENT\<rparr>,
        IDLE := no_thread\<lparr>p_prio := IDLEPRIO, p_realprio := IDLEPRIO, p_state := CH_STATE_READY, p_u := U_Msg MSG_OK\<rparr>),
     tqueue := (\<lambda>_. [])(Q_Ready := [IDLE])\<rparr>"

lemma kernel_start: "chSysInit kernel_boot = Some kernel_started"
  by (simp add: chSysInit_def chThdCreateStatic_def thread_init_def chSchWakeupS_def chSchReadyI_def kernel_started_def kernel_boot_def
      no_thread_def MAIN_def IDLE_def NORMALPRIO_def IDLEPRIO_def NOPRIO_def CH_FLAG_MODE_STATIC_def set_thr_def set_queue_def Let_def
      fun_eq_iff)

lemma start_threads:
  "tst kernel_started u = (if u = IDLE then CH_STATE_READY else if u = MAIN then CH_STATE_CURRENT else CH_STATE_FINAL)"
  "rprio kernel_started u = prio kernel_started u" "p_mtxlist (thr kernel_started u) = None" "p_waiting (thr kernel_started u) = []"
  "prio kernel_started MAIN = NORMALPRIO" "prio kernel_started IDLE = IDLEPRIO" "currp kernel_started = MAIN"
  "tqueue kernel_started q = (if q = Q_Ready then [IDLE] else [])" "m_owner kernel_started m = None" "tref kernel_started r = None"
  "vtlist kernel_started = []"
  by (simp_all add: kernel_started_def kernel_boot_def no_thread_def MAIN_def IDLE_def)

lemma start_ok: "rtos_ok kernel_started"
proof -
  note d = start_threads
  have ne: "IDLE \<noteq> MAIN" "MAIN \<noteq> IDLE" by (simp_all add: IDLE_def MAIN_def)
  have pp: "0 < NORMALPRIO" "0 < IDLEPRIO" "IDLEPRIO \<le> NORMALPRIO" by (simp_all add: NORMALPRIO_def IDLEPRIO_def)
  have "queues_ok kernel_started"
    using ne pp by (auto simp: queues_but_def d queued_state_def split: if_splits)
  moreover have "current_ok kernel_started" using ne by (simp add: current_ok_def d)
  moreover have "mutex_ok kernel_started"
  proof -
    have "owns kernel_started t []" for t by (simp add: owns_def d)
    moreover have "blocker kernel_started w = None" for w by (simp add: blocker_def d)
    then have "balanced (prio kernel_started) (rprio kernel_started) (blocker kernel_started) t (prio kernel_started t)" for t
      by (simp add: balanced_def d(2))
    moreover have "{t. tst kernel_started t = CH_STATE_WTMTX} = {}" by (simp add: d(1))
    ultimately show ?thesis using pp by (auto simp: mutex_but_def d)
  qed
  moreover have "aux_ok kernel_started"
  proof -
    have "evt_ok (thr kernel_started u)" for u by (rule evt_ok_other) (simp_all add: d)
    then show ?thesis by (simp add: aux_parts timing_ok_def timers_ok_def refs_ok_def waits_ok_def d)
  qed
  ultimately show ?thesis using pp by (simp add: rtos_ok_def kernel_ok_def sched_ok_iff chVTIsArmedI_def d runnable_def)
qed

subsection \<open>Steps\<close>

lemma irq_end_eq: "irq_end = chSchRescheduleS"
  by (simp add: fun_eq_iff irq_end_def chSchRescheduleS_def chSchIsPreemptionRequired_def chSchIsRescRequiredI_def chSchDoReschedule_def)

lemma broadcast_eq:
  "map_option snd (chEvtBroadcastFlags es f k) = Option.bind (map_option snd (chEvtBroadcastFlagsI es f k)) chSchRescheduleS"
  by (cases "chEvtBroadcastFlagsI es f k") (auto simp: chEvtBroadcastFlags_def option.map_comp comp_def option.map_ident)

lemma kcall_fine:
  assumes "rtos_ok k" and "allowed c k" and "c \<noteq> I_Tick"
  shows "fine k (kexec c k)"
proof -
  have k: "kernel_mid k" "aux_ok k" using assms(1) by (simp_all add: rtos_ok_def kernel_mid)
  show ?thesis
  proof (cases c)
    case (K_Lock m) then show ?thesis using lock_fine[OF assms(1)] assms(2) by simp
  next
    case (K_TryLock m) then show ?thesis using trylock_fine[OF assms(1)] by simp
  next
    case (K_Unlock m) then show ?thesis using unlock_fine[OF assms(1)] assms(2) by simp
  next
    case K_UnlockAll then show ?thesis using unlock_all_fine[OF assms(1)] by simp
  next
    case K_Yield then show ?thesis using yield_fine[OF assms(1)] by simp
  next
    case (K_Create t p) then show ?thesis using create_op[OF assms(1)] assms(2) by simp
  next
    case (K_Terminate t) then show ?thesis using terminate_op[OF assms(1)] by simp
  next
    case (K_Exit e) then show ?thesis using exit_op[OF assms(1)] assms(2) by simp
  next
    case (K_Wait t) then show ?thesis using wait_op[OF assms(1)] assms(2) by simp
  next
    case (K_Sleep n) then show ?thesis using sleep_op[OF assms(1)] assms(2) by simp
  next
    case (K_SleepUntil n) then show ?thesis using sleep_until_op[OF assms(1)] assms(2) by simp
  next
    case (K_Suspend r n) then show ?thesis using suspend_op[OF assms(1)] assms(2) by simp
  next
    case (K_Resume r m) then show ?thesis using resumeS_op[OF assms(1)] by simp
  next
    case (K_Enqueue x n) then show ?thesis using enqueue_op[OF assms(1)] assms(2) by simp
  next
    case (K_WaitAny m n) then show ?thesis using wait_any_op[OF assms(1)] assms(2) by (simp add: fine2_def)
  next
    case (K_WaitOne m n) then show ?thesis using wait_one_op[OF assms(1)] assms(2) by (simp add: fine2_def)
  next
    case (K_WaitAll m n) then show ?thesis using wait_all_op[OF assms(1)] assms(2) by (simp add: fine2_def)
  next
    case (K_TakeEvents m) then show ?thesis using pending_fine[OF assms(1)] by (simp add: chEvtGetAndClearEvents_def)
  next
    case (K_Signal t m)
    then show ?thesis using fine_resched[OF signalI_op[OF k]] by (simp add: chEvtSignal_def)
  next
    case (K_Broadcast es f) then show ?thesis using fine_resched[OF broadcast_op[OF k]] by (simp add: broadcast_eq)
  next
    case (I_Resume r m) then show ?thesis using fine_resched[OF resumeI_op[OF k]] by (simp add: irq_end_eq)
  next
    case (I_DequeueNext x m) then show ?thesis using fine_resched[OF dequeue_next_op[OF k]] by (simp add: irq_end_eq)
  next
    case (I_DequeueAll x m) then show ?thesis using fine_resched[OF dequeue_all_op[OF k]] by (simp add: irq_end_eq)
  next
    case (I_Signal t m) then show ?thesis using fine_resched[OF signalI_op[OF k]] by (simp add: irq_end_eq)
  qed (use assms(3) in simp)
qed

lemma step_calm:
  assumes "rtos_ok k" and "allowed c k" and "c \<noteq> I_Tick"
  obtains k' where "kstep c k = Some k'" and "rtos_ok k'" and "calm k k'"
  using kcall_fine[OF assms] settle_ok calm_trans unfolding fine_def kstep_def by (metis option.map(2))

text \<open>The tick, with the switch at its end.\<close>

lemma step_tick:
  assumes "rtos_ok k"
  obtains k' where "kstep I_Tick k = Some k'" and "rtos_ok k'" and "vt_systime k' = vt_systime k + 1"
    and "\<And>v. due (vtlist k) v = Some 1 \<Longrightarrow> runnable (tst k' v)"
    and "\<And>v n. due (vtlist k) v = Some (Suc n) \<Longrightarrow> 0 < n \<Longrightarrow> tst k v = CH_STATE_SLEEPING \<Longrightarrow>
      tst k' v = CH_STATE_SLEEPING \<and> due (vtlist k') v = Some n"
    and "\<And>v. due (vtlist k) v \<noteq> Some 1 \<Longrightarrow> \<not> runnable (tst k v) \<Longrightarrow> tst k' v = tst k v"
proof -
  obtain k1 where k1: "chSysTimerHandlerI k = Some k1" "kernel_mid k1" "aux_ok k1" "vt_systime k1 = vt_systime k + 1"
    "\<And>v. due (vtlist k1) v = (case due (vtlist k) v of Some n \<Rightarrow> if n = 1 then None else Some (n - 1) | None \<Rightarrow> None)"
    "\<And>v. due (vtlist k) v = Some 1 \<Longrightarrow> runnable (tst k1 v)"
    "\<And>v. due (vtlist k) v \<noteq> Some 1 \<Longrightarrow> tst k1 v = tst k v"
    by (rule tick_op[OF assms], rule that)
  have m: "queues_ok k1" "current_ok k1" "mutex_ok k1" "runnable (tst k1 IDLE)" using k1(2) by (simp_all add: kernel_mid_def)
  obtain k2 where k2: "chSchRescheduleS k1 = Some k2" "sched_ok k2" "resched k1 k2" using reschedule_ok[OF m(1,2)] .
  have ok: "kernel_ok k2" "aux_ok k2" using kernel_resched[OF k2(3,2) m(3,4)] aux_resched[OF k2(3) k1(3)] by simp_all
  note s = settle_ok[OF ok]
  have c: "calm k1 (settle k2)" using calm_resched[OF k2(3)] s(2) by (rule calm_trans)
  show ?thesis
  proof (rule that[of "settle k2"])
    show "kstep I_Tick k = Some (settle k2)" using k1(1) k2(1) by (simp add: kstep_def irq_end_eq)
    show "rtos_ok (settle k2)" by (rule s(1))
    show "vt_systime (settle k2) = vt_systime k + 1" using c k1(4) by (simp add: calm_def)
    show "runnable (tst (settle k2) v)" if "due (vtlist k) v = Some 1" for v
      using k1(6)[OF that] resched_same(7)[OF k2(3)] by simp
    show "tst (settle k2) v = CH_STATE_SLEEPING \<and> due (vtlist (settle k2)) v = Some n"
      if "due (vtlist k) v = Some (Suc n)" "0 < n" "tst k v = CH_STATE_SLEEPING" for v n
      using c k1(5)[of v] k1(7)[of v] that by (simp add: calm_def)
    show "tst (settle k2) v = tst k v" if "due (vtlist k) v \<noteq> Some 1" "\<not> runnable (tst k v)" for v
      using k1(7)[OF that(1)] resched_thr(2)[OF k2(3), of v] that(2) by auto
  qed
qed

lemma step_ok:
  assumes "rtos_ok k" and "allowed c k"
  obtains k' where "kstep c k = Some k'" and "rtos_ok k'"
proof (cases "c = I_Tick")
  case True
  then show ?thesis using step_tick[OF assms(1)] that by metis
next
  case False
  then show ?thesis using step_calm[OF assms] that by metis
qed

lemma reach_ok: "kreach k \<Longrightarrow> rtos_ok k"
proof (induction rule: kreach.induct)
  case (kreach_start k)
  then show ?case using start_ok kernel_start by simp
next
  case (kreach_step k c k')
  then show ?case using step_ok by (metis option.inject)
qed

lemma krun_reach: "krun cs k = Some k' \<Longrightarrow> kreach k \<Longrightarrow> kreach k'"
proof (induction cs arbitrary: k)
  case (Cons c cs)
  then obtain k1 where "allowed c k" "kstep c k = Some k1" "krun cs k1 = Some k'" by (auto split: if_splits bind_splits)
  then show ?case using Cons kreach_step by blast
qed simp

end
