(* ===== verification/Ch_Props.thy ===== *)
theory Ch_Props
  imports Ch_Run
begin

text \<open>
  What the kernel promises to the firmware's threads, over all runs of calls and interrupts
  from its start, and two calls that break it.
\<close>

subsection \<open>Chains of waiting threads\<close>

text \<open>A thread held up by another one, through any number of mutexes.\<close>

inductive held_up :: "kernel \<Rightarrow> nat \<Rightarrow> nat \<Rightarrow> bool" for k where
  held_here: "blocker k w = Some t \<Longrightarrow> held_up k w t"
| held_on: "blocker k w = Some u \<Longrightarrow> held_up k u t \<Longrightarrow> held_up k w t"

lemma blocker_prio: "kernel_ok k \<Longrightarrow> blocker k w = Some t \<Longrightarrow> prio k w \<le> prio k t"
  by (simp add: kernel_ok_def mutex_but_def balanced_def)

lemma held_prio: "held_up k w t \<Longrightarrow> kernel_ok k \<Longrightarrow> prio k w \<le> prio k t"
proof (induction rule: held_up.induct)
  case (held_on w u t)
  then show ?case using blocker_prio order_trans by blast
qed (rule blocker_prio)

lemma runnable_prio:
  assumes "kernel_ok k" and "runnable (tst k t)"
  shows "prio k t \<le> prio k (currp k)"
proof (cases "t = currp k")
  case False
  have s: "queues_ok k" "current_ok k" "\<forall>t\<in>set (tqueue k Q_Ready). prio k t \<le> prio k (currp k)"
    using assms(1) by (simp_all add: kernel_ok_def sched_ok_iff)
  have "tst k t = CH_STATE_READY" using assms(2) s(2) False by (auto simp: runnable_def current_ok_def)
  then have "\<exists>q. t \<in> set (tqueue k q)" using s(1) by (simp add: queues_but_def queued_state_def)
  then obtain q where q: "t \<in> set (tqueue k q)" ..
  then have "q = Q_Ready" using queues_seated[OF s(1) q] \<open>tst k t = _\<close> by (cases q) auto
  then show ?thesis using q s(3) by simp
qed simp

subsection \<open>Sleeping\<close>

definition ticks :: "kcall list \<Rightarrow> nat" where
  "ticks cs = length (filter (\<lambda>c. c = I_Tick) cs)"

lemma sleep_due:
  assumes "rtos_ok k" and "allowed (K_Sleep n) k" and "n \<noteq> TIME_INFINITE" and "kstep (K_Sleep n) k = Some k'"
  shows "tst k' (currp k) = CH_STATE_SLEEPING \<and> due (vtlist k') (currp k) = Some (unat n)"
proof -
  let ?c = "currp k"
  have k: "kernel_mid k" "aux_ok k" and c: "?c \<noteq> IDLE" "n \<noteq> 0"
    using assms(1,2) by (simp_all add: rtos_ok_def kernel_mid)
  have t: "timers_ok (vtlist k)" using k(2) by (simp add: aux_ok_def timing_ok_def)
  note a = armed_for_ok[OF t rtos_unarmed[OF assms(1)] c(2)]
  have sd: "same_data ?c k (armed_for n k)" "put_in CH_STATE_SLEEPING ?c k (armed_for n k)"
    by (simp_all add: same_data_def put_in_def queued_state_def)
  obtain k1 where k1: "chSchGoSleepS CH_STATE_SLEEPING (armed_for n k) = Some k1" "kernel_ok k1"
    "resched (set_thr ?c (p_state_update (\<lambda>_. CH_STATE_SLEEPING)) (armed_for n k)) k1"
    using sleep_kernel[OF k(1) c(1) sd] by auto
  have e: "k' = settle k1" using assms(4) k1(1) by (simp add: kstep_def chThdSleepS_def go_sleep_timeout)
  have "aux_ok k1" using sleep_op[OF assms(1) c] k1(1) by (simp add: fine_def chThdSleepS_def go_sleep_timeout)
  note s = settle_ok[OF k1(2) this]
  have "tst k1 ?c = CH_STATE_SLEEPING" "due (vtlist k1) ?c = Some (unat n)"
    using resched_same(6)[OF k1(3), of CH_STATE_SLEEPING ?c] k1(3) a(4)[OF assms(3)] by (simp_all add: resched_def)
  then show ?thesis using s(2) by (simp add: e calm_def)
qed

lemma sleeping_run:
  assumes "krun cs k = Some k'" and "rtos_ok k" and "tst k v = CH_STATE_SLEEPING" and "due (vtlist k) v = Some (ticks cs + n)" and "0 < n"
  shows "rtos_ok k' \<and> tst k' v = CH_STATE_SLEEPING \<and> due (vtlist k') v = Some n"
  using assms
proof (induction cs arbitrary: k)
  case Nil
  then show ?case by (simp add: ticks_def)
next
  case (Cons c cs)
  obtain k1 where k1: "allowed c k" "kstep c k = Some k1" "krun cs k1 = Some k'" using Cons.prems(1) by (auto split: if_splits bind_splits)
  show ?case
  proof (cases "c = I_Tick")
    case False
    have e: "ticks (c # cs) = ticks cs" using False by (simp add: ticks_def)
    obtain k2 where "kstep c k = Some k2" "rtos_ok k2" "calm k k2" using step_calm[OF Cons.prems(2) k1(1) False] .
    then have "rtos_ok k1" "calm k k1" using k1(2) by simp_all
    then show ?thesis using Cons.IH[OF k1(3)] Cons.prems(3-5) e by (simp add: calm_def)
  next
    case True
    have e: "due (vtlist k) v = Some (Suc (ticks cs + n))" using Cons.prems(4) True by (simp add: ticks_def)
    obtain k2 where k2: "kstep I_Tick k = Some k2" "rtos_ok k2"
      "\<And>v n. due (vtlist k) v = Some (Suc n) \<Longrightarrow> 0 < n \<Longrightarrow> tst k v = CH_STATE_SLEEPING \<Longrightarrow>
        tst k2 v = CH_STATE_SLEEPING \<and> due (vtlist k2) v = Some n"
      using step_tick[OF Cons.prems(2)] by metis
    then have "rtos_ok k1 \<and> tst k1 v = CH_STATE_SLEEPING \<and> due (vtlist k1) v = Some (ticks cs + n)"
      using k1(2) True e Cons.prems(3,5) by auto
    then show ?thesis using Cons.IH[OF k1(3)] Cons.prems(5) by blast
  qed
qed

subsection \<open>Two threads and a mutex\<close>

text \<open>
  The main thread holds mutex 0 and a thread of the same priority waits for it; and the same
  with a thread of higher priority.
\<close>

definition contended :: "u32 \<Rightarrow> kernel" where
  "contended p = kernel_started\<lparr>
     thr := (thr kernel_started)
       (MAIN := (thr kernel_started MAIN)\<lparr>p_prio := p, p_mtxlist := Some 0\<rparr>,
        2 := no_thread\<lparr>p_prio := p, p_realprio := p, p_state := CH_STATE_WTMTX, p_u := U_Mutex 0\<rparr>),
     tqueue := (tqueue kernel_started)(Q_Mutex 0 := [2]),
     m_owner := (\<lambda>_. None)(0 := Some MAIN)\<rparr>"

definition before_lock :: "u32 \<Rightarrow> u32 \<Rightarrow> kernel" where
  "before_lock q p = kernel_started\<lparr>
     thr := (thr kernel_started)
       (MAIN := (thr kernel_started MAIN)\<lparr>p_prio := q, p_state := CH_STATE_READY, p_mtxlist := Some 0\<rparr>,
        2 := no_thread\<lparr>p_prio := p, p_realprio := p, p_state := CH_STATE_CURRENT, p_u := U_Msg MSG_OK\<rparr>),
     tqueue := (tqueue kernel_started)(Q_Ready := [MAIN, IDLE]), currp := 2,
     m_owner := (\<lambda>_. None)(0 := Some MAIN)\<rparr>"

lemmas kernel_eval = kstep_def settle_def chVTIsArmedI_def chThdCreateStatic_def thread_init_def chSchWakeupS_def chSchReadyI_def
  give_mutex_def chSchGoSleepS_def run_next_def queue_fifo_remove_def queue_prio_insert_def queue_dequeue_def
  chSchDoYieldS_def chSchDoRescheduleBehind_def firstprio_def set_thr_def set_queue_def Let_def
  NORMALPRIO_def IDLEPRIO_def NOPRIO_def CH_FLAG_MODE_STATIC_def MAIN_def IDLE_def no_thread_def kernel_boot_def
  kernel_started_def before_lock_def contended_def word_le_nat_alt word_less_nat_alt

lemma before_lock_high: "krun [K_Lock 0, K_Create 2 70] kernel_started = Some (before_lock 64 70)"
  by (simp add: kernel_eval chMtxLockS_def fun_eq_iff)

lemma before_lock_even: "krun [K_Lock 0, K_Create 2 64, K_Yield] kernel_started = Some (before_lock 64 64)"
  by (simp add: kernel_eval chMtxLockS_def fun_eq_iff)

lemma boost_high: "boost MAIN (before_lock 64 70) = Some (before_lock 70 70)"
proof -
  have "boost_goes_on (Some MAIN, before_lock 64 70)" "\<not> boost_goes_on (None, before_lock 70 70)"
    by (simp_all add: boost_goes_on_def kernel_eval)
  moreover have "boost_body (Some MAIN, before_lock 64 70) = Some (None, before_lock 70 70)"
    by (simp add: boost_body_def kernel_eval fun_eq_iff)
  ultimately have "loop_while boost_goes_on boost_body (Some MAIN, before_lock 64 70) = Some (None, before_lock 70 70)"
    by (subst loop_while.simps) (simp, subst loop_while.simps, simp)
  then show ?thesis by (simp add: boost_def)
qed

lemma boost_even: "boost MAIN (before_lock 64 64) = Some (before_lock 64 64)"
proof -
  have "\<not> boost_goes_on (Some MAIN, before_lock 64 64)" by (simp add: boost_goes_on_def kernel_eval)
  then have "loop_while boost_goes_on boost_body (Some MAIN, before_lock 64 64) = Some (Some MAIN, before_lock 64 64)"
    by (subst loop_while.simps) simp
  then show ?thesis by (simp add: boost_def)
qed

lemma lock_contended: "boost MAIN (before_lock q p) = Some (before_lock p p) \<Longrightarrow> krun [K_Lock 0] (before_lock q p) = Some (contended p)"
proof -
  assume b: "boost MAIN (before_lock q p) = Some (before_lock p p)"
  have o: "m_owner (before_lock q p) 0 = Some MAIN" "currp (before_lock q p) = 2" by (simp_all add: before_lock_def)
  have "chMtxLockS 0 (before_lock q p) = Some (contended p)"
    unfolding chMtxLockS_def Let_def o option.case b Option.bind.simps
    by (simp add: kernel_eval fun_eq_iff)
  moreover have "settle (contended p) = contended p" by (simp add: kernel_eval)
  ultimately show ?thesis using o by (simp add: kstep_def IDLE_def)
qed

lemma contended_reached: "kreach (contended 70)" "kreach (contended 64)"
proof -
  have k: "kreach kernel_started" by (rule kreach_start[OF kernel_start])
  show "kreach (contended 70)"
    using krun_reach[OF lock_contended[OF boost_high] krun_reach[OF before_lock_high k]] .
  show "kreach (contended 64)"
    using krun_reach[OF lock_contended[OF boost_even] krun_reach[OF before_lock_even k]] .
qed

lemma contended_threads:
  "tst (contended p) u = (if u = IDLE then CH_STATE_READY else if u = MAIN then CH_STATE_CURRENT else if u = 2 then CH_STATE_WTMTX
     else CH_STATE_FINAL)"
  "prio (contended p) MAIN = p" "prio (contended p) 2 = p" "rprio (contended p) MAIN = 64" "p_mtxlist (thr (contended p) MAIN) = Some 0"
  "currp (contended p) = MAIN" "tqueue (contended p) (Q_Mutex 0) = [2]" "blocker (contended p) 2 = Some MAIN"
  by (simp_all add: kernel_eval blocker_def)

subsection \<open>Properties\<close>

text \<open>
  C6: Whatever calls threads and interrupts make under the kernel's conditions, the kernel
  keeps its order: each thread is in the one queue that its state says, the queues of the
  scheduler and of the mutexes are sorted by priority, the current thread has the highest
  priority of all that can run, each mutex is in its owner's list, and each thread has the
  highest priority of its own and of those it blocks; timers, references and lists of waiting
  threads fit the states of the threads.
\<close>

theorem kernel_keeps_order:
  assumes "kreach k"
  shows "sched_ok k \<and> mutex_ok k \<and> timing_ok k \<and> refs_ok k \<and> waits_ok k \<and> (\<forall>t. evt_ok (thr k t))"
  using reach_ok[OF assms] by (simp add: rtos_ok_def kernel_ok_def aux_parts)

theorem kernel_keeps_order_witness: "sched_ok (contended 70) \<and> timing_ok (contended 70)"
  using kernel_keeps_order[OF contended_reached(1)] by blast

text \<open>
  C17: Every call that is made under the kernel's conditions returns, the loops over waiting
  threads, expired timers and chains of owners included; locking a mutex returns to the
  scheduler also when the threads wait for each other in a circle.
\<close>

theorem kernel_calls_return:
  assumes "kreach k" and "allowed c k"
  shows "\<exists>k'. kstep c k = Some k' \<and> kreach k'"
  using step_ok[OF reach_ok[OF assms(1)] assms(2)] kreach_step[OF assms] by metis

theorem kernel_calls_return_witness: "\<exists>k'. kstep (K_Lock 0) (contended 70) = Some k' \<and> kreach k'"
  by (rule kernel_calls_return[OF contended_reached(1)]) (simp add: contended_threads MAIN_def IDLE_def)

text \<open>
  C7: No inverted priorities: while a thread waits for a mutex, through any chain of other
  waiting threads, and the thread at the end of the chain can run, no thread of a lower
  priority than the waiting one is running.
\<close>

theorem no_priority_inversion:
  assumes "kreach k" and "held_up k w t" and "runnable (tst k t)"
  shows "prio k w \<le> prio k (currp k)"
proof -
  have k: "kernel_ok k" using reach_ok[OF assms(1)] by (simp add: rtos_ok_def)
  show ?thesis using held_prio[OF assms(2) k] runnable_prio[OF k assms(3)] by (rule order_trans)
qed

theorem no_priority_inversion_witness: "prio (contended 70) 2 \<le> prio (contended 70) (currp (contended 70))"
  by (rule no_priority_inversion[OF contended_reached(1) held_here[OF contended_threads(8)]])
    (simp add: contended_threads IDLE_def MAIN_def)

text \<open>
  C18: Releasing a mutex for which threads wait makes the first of them its owner, which is
  one of those with the highest priority, and lets it run; the others go on waiting.
\<close>

theorem mutex_handed_over:
  assumes "kreach k" and "p_mtxlist (thr k (currp k)) = Some m" and "tqueue k (Q_Mutex m) = w # ws"
  shows "\<exists>k'. kexec (K_Unlock m) k = Some k' \<and> m_owner k' m = Some w \<and> runnable (tst k' w) \<and>
    (\<forall>u\<in>set ws. prio k u \<le> prio k w) \<and> tqueue k' (Q_Mutex m) = ws \<and> prio k' w = prio k w"
proof -
  have k: "kernel_ok k" using reach_ok[OF assms(1)] by (simp add: rtos_ok_def)
  obtain k' where k': "chMtxUnlock m k = Some k'" "kernel_ok k'"
    "m_owner k' = (m_owner k)(m := (case tqueue k (Q_Mutex m) of [] \<Rightarrow> None | w # _ \<Rightarrow> Some w))"
    "tqueue k' (Q_Mutex m) = tl (tqueue k (Q_Mutex m))" "\<And>u. u \<noteq> currp k \<Longrightarrow> prio k' u = prio k u"
    "\<And>w ws. tqueue k (Q_Mutex m) = w # ws \<Longrightarrow> runnable (tst k' w)"
    by (rule unlock_ok[OF k assms(2)], rule that)
  have q: "queues_ok k" "current_ok k" using k by (simp_all add: kernel_ok_def sched_ok_iff)
  have "ordered k (tqueue k (Q_Mutex m))" using q(1) by (simp add: queues_but_def)
  moreover have "tst k w = CH_STATE_WTMTX" "tst k (currp k) = CH_STATE_CURRENT"
    using waits_iff[OF q(1), of w m] q(2) assms(3) by (simp_all add: current_ok_def)
  then have "w \<noteq> currp k" by auto
  ultimately show ?thesis using k' assms(3) by auto
qed

theorem mutex_handed_over_witness:
  "\<exists>k'. kexec (K_Unlock 0) (contended 70) = Some k' \<and> m_owner k' 0 = Some 2 \<and> runnable (tst k' 2)"
  using mutex_handed_over[OF contended_reached(1), of 0 2 "[]"] by (auto simp: contended_threads)

text \<open>
  C8: A thread that sleeps for n ticks sleeps while fewer than n ticks have passed, whatever
  other threads and interrupts do meanwhile, and the n-th tick makes it ready to run.
\<close>

theorem sleep_exact:
  assumes "kreach k" and "krun (K_Sleep n # cs) k = Some k'" and "n \<noteq> TIME_INFINITE" and "ticks cs < unat n"
  shows "tst k' (currp k) = CH_STATE_SLEEPING \<and>
    (Suc (ticks cs) = unat n \<longrightarrow> (\<exists>k2. kstep I_Tick k' = Some k2 \<and> runnable (tst k2 (currp k))))"
proof -
  have k: "rtos_ok k" by (rule reach_ok[OF assms(1)])
  obtain k1 where k1: "allowed (K_Sleep n) k" "kstep (K_Sleep n) k = Some k1" "krun cs k1 = Some k'"
    using assms(2) by (auto simp del: allowed.simps split: if_splits bind_splits)
  have ok1: "rtos_ok k1" using step_ok[OF k k1(1)] k1(2) by (metis option.inject)
  have d: "tst k1 (currp k) = CH_STATE_SLEEPING" "due (vtlist k1) (currp k) = Some (ticks cs + (unat n - ticks cs))"
    using sleep_due[OF k k1(1) assms(3) k1(2)] assms(4) by simp_all
  have r: "rtos_ok k' \<and> tst k' (currp k) = CH_STATE_SLEEPING \<and> due (vtlist k') (currp k) = Some (unat n - ticks cs)"
    by (rule sleeping_run[OF k1(3) ok1 d]) (use assms(4) in simp)
  moreover have "\<exists>k2. kstep I_Tick k' = Some k2 \<and> runnable (tst k2 (currp k))" if "Suc (ticks cs) = unat n"
  proof -
    have "unat n - ticks cs = 1" using that by simp
    then show ?thesis using step_tick r by metis
  qed
  ultimately show ?thesis by blast
qed

lemma main_sleeps: "\<exists>k'. krun [K_Sleep 2, I_Tick] kernel_started = Some k'"
proof -
  have "allowed (K_Sleep 2) kernel_started" by (simp add: start_threads MAIN_def IDLE_def)
  then obtain k1 where k1: "allowed (K_Sleep 2) kernel_started" "kstep (K_Sleep 2) kernel_started = Some k1" "rtos_ok k1"
    using step_ok[OF start_ok] by metis
  obtain k2 where "kstep I_Tick k1 = Some k2" using step_tick[OF k1(3)] by metis
  then show ?thesis using k1(1,2) by (simp del: allowed.simps add: allowed.simps(25))
qed

theorem sleep_exact_witness: "\<exists>k'. krun [K_Sleep 2, I_Tick] kernel_started = Some k' \<and> tst k' MAIN = CH_STATE_SLEEPING \<and>
    (\<exists>k2. kstep I_Tick k' = Some k2 \<and> runnable (tst k2 MAIN))"
proof -
  obtain k' where k': "krun [K_Sleep 2, I_Tick] kernel_started = Some k'" using main_sleeps by blast
  have "tst k' (currp kernel_started) = CH_STATE_SLEEPING \<and>
    (Suc (ticks [I_Tick]) = unat (2 :: u32) \<longrightarrow> (\<exists>k2. kstep I_Tick k' = Some k2 \<and> runnable (tst k2 (currp kernel_started))))"
    by (rule sleep_exact[OF kreach_start[OF kernel_start] k']) (simp_all add: TIME_INFINITE_def ticks_def)
  then show ?thesis using k' by (simp add: ticks_def start_threads)
qed

text \<open>
  C19: No thread waits for what has already happened: the events that a waiting thread asked
  for are not pending, a thread that waits for the end of another one waits for one that has
  not ended, and a suspended thread's reference is set, so that it can be resumed.
\<close>

theorem no_lost_wakeup:
  assumes "kreach k"
  shows "(tst k t = CH_STATE_WTOREVT \<longrightarrow> (\<exists>m. p_u (thr k t) = U_Events m \<and> p_epending (thr k t) AND m = 0)) \<and>
    (tst k t = CH_STATE_WTANDEVT \<longrightarrow> (\<exists>m. p_u (thr k t) = U_Events m \<and> p_epending (thr k t) AND m \<noteq> m)) \<and>
    (tst k t = CH_STATE_WTEXIT \<longrightarrow> (\<exists>u. t \<in> set (p_waiting (thr k u)) \<and> tst k u \<noteq> CH_STATE_FINAL)) \<and>
    (tst k t = CH_STATE_SUSPENDED \<longrightarrow> (\<exists>r. p_u (thr k t) = U_Ref r \<and> tref k r = Some t))"
proof -
  have a: "aux_ok k" using reach_ok[OF assms] by (simp add: rtos_ok_def)
  then have e: "evt_ok (thr k t)" and r: "refs_ok k" and w: "waits_ok k" by (simp_all add: aux_parts)
  have "tst k t = CH_STATE_WTEXIT \<longrightarrow> (\<exists>u. t \<in> set (p_waiting (thr k u)) \<and> tst k u \<noteq> CH_STATE_FINAL)"
    using w unfolding waits_ok_def by (metis empty_iff empty_set)
  moreover have "tst k t = CH_STATE_SUSPENDED \<longrightarrow> (\<exists>r. p_u (thr k t) = U_Ref r \<and> tref k r = Some t)"
    using r unfolding refs_ok_def by blast
  ultimately show ?thesis using e by (auto simp: evt_ok_def evt_arrived_def)
qed

theorem no_lost_wakeup_witness:
  "\<exists>k'. krun [K_WaitAny 1 TIME_INFINITE] kernel_started = Some k' \<and> tst k' MAIN = CH_STATE_WTOREVT \<and>
    (\<exists>m. p_u (thr k' MAIN) = U_Events m \<and> p_epending (thr k' MAIN) AND m = 0)"
proof -
  have "\<exists>k'. krun [K_WaitAny 1 TIME_INFINITE] kernel_started = Some k' \<and> tst k' MAIN = CH_STATE_WTOREVT"
    by (simp add: kernel_eval chEvtWaitAnyTimeout_def evt_sleep_def chSchGoSleepTimeoutS_def TIME_IMMEDIATE_def TIME_INFINITE_def)
  then obtain k' where k': "krun [K_WaitAny 1 TIME_INFINITE] kernel_started = Some k'" "tst k' MAIN = CH_STATE_WTOREVT" by blast
  then show ?thesis using no_lost_wakeup[OF krun_reach[OF k'(1) kreach_start[OF kernel_start]], of MAIN] by blast
qed

lemma remove_behind: "c \<noteq> v \<Longrightarrow> vt_remove v ((c, x) # l) = (c, x) # vt_remove v l"
  by (cases l) auto

lemma settle_behind:
  assumes "vtlist k = (c, x) # l" and "currp k \<noteq> c" and "distinct (map fst l)" and "extent l < 2 ^ 32"
  obtains qs where "vtlist (settle k) = (c, x) # qs" and "due qs = (\<lambda>w. if w = currp k then None else due l w)"
proof (cases "chVTIsArmedI (currp k) k")
  case True
  then have "vtlist (settle k) = (c, x) # vt_remove (currp k) l"
    using assms(1,2) remove_behind[of c "currp k" x l] by (simp add: settle_def chVTDoResetI_def)
  then show ?thesis using that remove_due[OF assms(3,4)] by blast
next
  case False
  then have "due l (currp k) = None" using assms(1) by (simp add: chVTIsArmedI_def due_None)
  then show ?thesis using that[of l] False assms(1) by (auto simp: settle_def fun_eq_iff)
qed

text \<open>
  C20: A sleep of no time, which the firmware starts when the configured delay after turning
  on is zero, puts a timer with no ticks left into the list. The next tick does not wake the
  thread but counts the timer down to the greatest number, so that this thread and, with one
  exception, every thread with a running timeout wait 2^32 - 1 ticks longer.
\<close>

theorem zero_sleep_stalls:
  assumes "kreach k" and "currp k \<noteq> IDLE"
  shows "\<exists>k1 k2. kstep (K_Sleep (MS2ST 0)) k = Some k1 \<and> kstep I_Tick k1 = Some k2 \<and>
    tst k2 (currp k) = CH_STATE_SLEEPING \<and> due (vtlist k2) (currp k) = Some (2 ^ 32 - 1) \<and>
    (\<forall>v. v \<noteq> currp k \<and> v \<noteq> currp k1 \<longrightarrow> tst k2 v = tst k1 v \<and>
       due (vtlist k2) v = map_option (\<lambda>n. 2 ^ 32 - 1 + n) (due (vtlist k) v))"
proof -
  let ?c = "currp k"
  have ok: "rtos_ok k" by (rule reach_ok[OF assms(1)])
  have k: "kernel_mid k" "aux_ok k" using ok by (simp_all add: rtos_ok_def kernel_mid)
  have t: "distinct (map fst (vtlist k))" "extent (vtlist k) < 2 ^ 32" using k(2) by (simp_all add: aux_ok_def timing_ok_def timers_ok_def)
  have z: "vt_insert 0 ?c (vtlist k) = (?c, 0) # vtlist k" by (cases "vtlist k") simp_all
  define ka where "ka = chVTDoSetI ?c 0 k"
  have fa: "thr ka = thr k" "tqueue ka = tqueue k" "vtlist ka = (?c, 0) # vtlist k" "m_owner ka = m_owner k" "m_next ka = m_next k"
    "currp ka = ?c" by (simp_all add: ka_def chVTDoSetI_def z)
  have sd: "same_data ?c k ka" "put_in CH_STATE_SLEEPING ?c k ka" by (simp_all add: same_data_def put_in_def queued_state_def fa)
  obtain kb where kb: "chSchGoSleepS CH_STATE_SLEEPING ka = Some kb" "kernel_ok kb"
    "resched (set_thr ?c (p_state_update (\<lambda>_. CH_STATE_SLEEPING)) ka) kb"
    using sleep_kernel[OF k(1) assms(2) sd] by auto
  have sb: "tst kb ?c = CH_STATE_SLEEPING" "vtlist kb = (?c, 0) # vtlist k"
    using resched_same(6)[OF kb(3), of CH_STATE_SLEEPING ?c] kb(3) by (simp_all add: resched_def fa)
  have cur: "current_ok kb" "sched_ok kb" using kb(2) by (simp_all add: kernel_ok_def sched_ok_iff)
  have "tst kb (currp kb) = CH_STATE_CURRENT" using cur(1) by (simp add: current_ok_def)
  then have ne: "currp kb \<noteq> ?c" using sb(1) by auto
  obtain qs where qs: "vtlist (settle kb) = (?c, 0) # qs" "due qs = (\<lambda>w. if w = currp kb then None else due (vtlist k) w)"
    using settle_behind[OF sb(2) ne t] .
  define k1 where "k1 = settle kb"
  define k2 where "k2 = k1\<lparr>vt_systime := vt_systime k1 + 1, vtlist := (?c, -1) # qs\<rparr>"
  have f1: "vtlist k1 = (?c, 0) # qs" "currp k1 = currp kb" "thr k1 = thr kb" using qs(1) by (simp_all add: k1_def)
  have "MS2ST 0 = 0" by (simp add: MS2ST_def CH_CFG_ST_FREQUENCY_def)
  then have s1: "kstep (K_Sleep (MS2ST 0)) k = Some k1"
    using kb(1) by (simp add: kstep_def chThdSleepS_def chSchGoSleepTimeoutS_def TIME_INFINITE_def ka_def k1_def)
  have "\<not> vt_expired k2" by (simp add: vt_expired_def k2_def)
  then have l: "loop_while vt_expired (vt_fire wakeup) k2 = Some k2" by (subst loop_while.simps) simp
  have "chSysTimerHandlerI k1 = Some k2"
    using l by (simp add: chSysTimerHandlerI_def chVTDoTickI_def Let_def f1 k2_def)
  moreover have "\<not> chSchIsRescRequiredI k2"
    using cur(2) by (auto simp: k2_def k1_def sched_ok_iff chSchIsRescRequiredI_def firstprio_def NOPRIO_def not_less split: list.splits)
  then have "irq_end k2 = Some k2" by (simp add: irq_end_eq chSchRescheduleS_def)
  moreover have "due qs (currp kb) = None" by (simp add: qs(2))
  then have "settle k2 = k2" using ne by (simp add: settle_def chVTIsArmedI_def k2_def f1(2) due_None)
  ultimately have s2: "kstep I_Tick k1 = Some k2" by (simp add: kstep_def)
  have m1: "unat (- 1 :: u32) = 2 ^ 32 - 1" by (simp add: unsigned_minus_1_eq_mask mask_eq_exp_minus_1)
  show ?thesis
    by (intro exI[of _ k1] exI[of _ k2]) (use s1 s2 sb(1) m1 in \<open>simp add: k2_def f1 qs(2)\<close>)
qed

theorem zero_sleep_stalls_witness:
  "\<exists>k1 k2. kstep (K_Sleep (MS2ST 0)) kernel_started = Some k1 \<and> kstep I_Tick k1 = Some k2 \<and>
     tst k2 MAIN = CH_STATE_SLEEPING \<and> due (vtlist k2) MAIN = Some 4294967295"
  using zero_sleep_stalls[OF kreach_start[OF kernel_start]] by (auto simp: start_threads MAIN_def IDLE_def)



end
