(* ===== verification/Spec2Isabelle.thy ===== *)
theory Spec2Isabelle
  imports Start_Props Interrupts Spi_Sw Ext_Driver Usb_Faults Ch_Props
begin

text \<open>
  A model of the battery management firmware (the C files in the root of the repository)
  with the theorems that make it correct.

  The program runs on an STM32F303 and watches a pack of up to twelve cells. Its main loop
  (main.c) measures the cells, the current and the voltages, decides on charging and
  balancing, and opens and closes the switches of the pack; an interrupt opens the discharge
  switch on an over-current; threads take bytes from a virtual serial port and frames from
  the CAN bus, blink an indicator light and drive a buzzer. Its configuration lives in an
  emulated EEPROM in two flash pages, and a new firmware image can be sent to it.

  State. Every component adds its fields to one extensible record, in the order in which
  the components build on each other: the flash controller and its cells, the table of the
  EEPROM emulation, the board (inputs by the number of the access, pads, and the list of
  recorded outputs), the configuration bytes, faults, and so on up to the light strip. An
  operation is a function on this record, so that it applies to the state of the whole
  program, and keeps the fields it does not name. What the code would do with memory it does
  not own (an index out of bounds, a conversion of a number that does not fit) is None.

  Theories and the code they model:
  Prelude: types and the collections of simplification rules.
  Flash (stm32f30x_flash.c): the controller's registers and the driver's functions, on a
  device with busy times, write protection, and a supply that may fail in an operation.
  Eeprom (eeprom.c); Eeprom_Log, Eeprom_Contract, Eeprom_Correct, Eeprom_Power: a page as a
  log of writes, the contracts of the operations, and what a loss of supply leaves behind;
  Eeprom_Props: what callers see. Nv_Store: the interface of a store of values, which the
  EEPROM implements and the configuration uses.
  Float32: floats and doubles as rationals rounded to the format, with their stored bits.
  Board (hw_conf_v4.2.h, chvt.h), Gpio (gpio.c, pal_lld.c), Timers (the vendor's functions
  for timers, DMA and clocks), Ext_Driver (ext.c, ext_lld.c), Spi_Sw (the software SPI of
  ltc6803.c).
  Config (config.c), Faults (faults.c), Overcurrent and Current_Monitor
  (current_monitor.c, soc.c), Ltc6803 (ltc6803.c), Analog (analog.c), Rtcc (rtcc.c),
  Power_Control (power.c), Charger (charger.c), Buzzer (buzzer.c), Ws2812b (ws2812b.c,
  accessory.c).
  Ring_Buffer: the ring the receiving threads share; Comm_Can (comm_can.c),
  Usb_Descriptors and Comm_Usb (comm_usb.c), Fw_Updater (fw_updater.c), Console (console.c),
  Packet (packet.c).
  Firmware (main.c, led_rgb.c): start, main loop, threads, and the steps of the system.
  Config_Props, Power_Props, Charger_Props: properties of these components. Frame and
  Switches: what the operations leave alone. System_Props and Start_Props: the system.
  Interrupts: the over-current interrupt within an update of the power control.

  The USB drivers below comm_usb.c, which are vendored with the firmware, have a state of
  their own (Usb_Lld.usbd). Io_Buffers (hal_buffers.c): the queues of buffers; Io_Ring: the
  ring of their buffers as a list of chunks; Io_Input and Io_Output: a queue as a string of
  bytes, and two interfaces, linked_input and linked_output, of a queue whose callback may
  start a transfer. Usb_Lld (usb_lld.c, stm32_usb.h): endpoint registers and packet memory;
  Usb_Core (usb.c and the interrupt handler); Serial_Usb (serial_usb.c, and the firmware's
  configuration in comm_usb.c). Usb_Regs, Usb_In and Usb_Out: the fields of an endpoint
  register, the host's side of a packet, and transfers of several packets. Usb_Control and
  Usb_Answers: the control endpoint. Usb_Receive and Usb_Send: the serial driver's callbacks
  as implementations of the two interfaces; Usb_Port: the steps and runs of the configured
  port. Usb_Start and Usb_Configured: how the port gets there. Usb_Faults: what goes wrong.

  The kernel that runs the threads, vendored too, has the state Ch_Sched.kernel: threads by
  number, queues as lists of them, mutexes, references and timers. Ch_Sched (chschd.c,
  chschd.h): queues and the scheduler; Ch_Mutex (chmtx.c); Ch_Timers (chvt.c, chvt.h);
  Ch_Threads (chthreads.c, chevents.c, chsys.c). A call that puts its thread to sleep ends
  there; what the thread does when it is switched to is a definition of its own (settle).
  Ch_Queues and Ch_Switch: the order of the queues and what a switch keeps. Ch_Inherit and
  Ch_Protocol: inherited priorities. Ch_Rtos: the rest of the kernel's invariant; Ch_Ops,
  Ch_Sleep, Ch_Wake, Ch_Life and Ch_Tick: every operation keeps it. Ch_Run: calls of threads
  and interrupts as steps, and the states they reach; Ch_Props: what that means.

  What is shown. For the EEPROM: values read back as written, through page transfers; a
  write is atomic under loss of supply; restarts keep the values; one order of events in
  EE_Init loses them. For the configuration: the two copies stay equal, limits hold, except
  for one way around them. For the power switches: the discharge switch is on only while
  that is allowed, after an update and in every state the system reaches, whatever bytes and
  frames arrive; after the end of the main loop the pack stays off. For charging and
  balancing: which cells are balanced, when the charger stops, the range of the converter.
  For the two communication paths: bytes and frames are handled in order until the ring
  overruns; a packet sent is received as sent, a wrong check sum changes nothing, a firmware
  image is installed as sent. For the virtual serial port: its two directions refine two
  strings of bytes, from the host's packets through packet memory, transfers, buffers and
  interrupts to the calls of threads, in every order of these steps; no step fails, nothing
  written is kept back; every request on the control endpoint is answered, descriptors and
  addresses as the standard has it; and four ways in which a host makes the drivers go
  wrong. For the other drivers: the error code is the remainder of a polynomial division; the
  pins, the interrupt line, the timers' periods and the strip's bits are the ones asked for.
  For the kernel: from its start and under the conditions it asks of its callers, every call
  returns, also when threads wait for each other in a circle; priorities are inherited
  exactly, so that no thread of a lower priority keeps one of a higher priority waiting;
  sleeping threads wake with the right tick, no wake-up is lost; and two calls go wrong.

  Bounds and loops. Waiting for the flash controller ends with the driver's own timeout,
  which is the argument of the recursion. Loops over cells, pages, bytes and bits recur on
  the list of their indices. The loop of a receiving thread over the ring is a while loop
  in an option; the theorems state that it ends. Machine integers keep their width; a rule
  for the tick conversions says where they wrap around.

  A thread that waits for a queue follows a script of the interrupts until it is woken and
  of the message it gets; a script that ends too soon is a wait without end, None. The loops
  of reads and writes are while loops in an option; that they end is shown for the calls that
  a step of the port consists of, those that find what they need or must not wait.

  Steps. A step of the system is one pass of the main loop or of a thread, one interrupt, or
  one received byte or frame, and runs to its end before the next one begins. Interrupts
  adds the one interleaving inside a step that matters for the switches, an alert between the
  test and the setting of the pads: there the alert is overruled until the next pass, so that
  the statement about reachable states rests on steps that run to their end.

  A step of the kernel is one call or one interrupt, which the kernel's locks make atomic; the
  tick, which lets other interrupts in between two of its callbacks, is one step too. The
  loops of the kernel are while loops in an option, with a proof that they end.

  Parameters. crc.h, utils.h and the list of CAN identifiers are not part of the
  repository: the check sum, the conversion of a float in a CAN message and the identifiers
  are arguments of the definitions that use them, as are log and powf of the C library, the
  kernel's figures for its heap and threads, and the values of variables that the code
  leaves uninitialised.

  Not modelled: how the firmware's threads interleave under the kernel (its locks and sleeps
  are recorded, and a step of the firmware runs to its end), the kernel's semaphores, condition
  variables, messages and allocators, which the firmware does not use, the processor's
  contexts, the register-level drivers of I2C, SPI, ADC, CAN and pulse width units (what they
  read is input, what they send is recorded), the boards other than version 4.2, and the rest
  of the vendored operating system. The host's side of USB is the packets it sends and
  takes: errors of the line, which the hardware repeats by itself, do not occur.
\<close>

end
